(* ===== verification/Prelude.thy ===== *)
theory Prelude
  imports Main "HOL-Library.Sublist"
begin

text \<open>
  Shared vocabulary of the development: the error values of
  \<^verbatim>\<open>internal/domain\<close>, the shape of a fallible computation that acts on an
  outside world (Redis, PostgreSQL, the clock), the 64-bit signed arithmetic of Go, the
  pieces of Go's \<^verbatim>\<open>strings\<close> package the sources call, and generic lemmas on lists,
  maps and options that the component theories use through the collections
  \<^verbatim>\<open>io_simps\<close> and \<^verbatim>\<open>go_simps\<close>.
\<close>

named_theorems io_simps \<open>equations of the effectful computations\<close>
named_theorems go_simps \<open>equations of the modelled Go library functions\<close>

section \<open>Identifiers and errors\<close>

text \<open>
  A \<^verbatim>\<open>uuid.UUID\<close> is only ever compared, stored and printed; it is a string here, the
  nil UUID being the empty string.
\<close>

type_synonym uuid = string

abbreviation (input) nil_uuid :: uuid where
  "nil_uuid \<equiv> []"

text \<open>The sentinels of \<^verbatim>\<open>internal/domain/errors.go\<close>.\<close>

datatype sentinel =
    ErrNotFound
  | ErrInvalidCredential
  | ErrUnauthorized
  | ErrConflict
  | ErrInvalidArgument
  | ErrRateLimited
  | ErrForbidden
  | ErrInternal

text \<open>
  An error value: a \<^verbatim>\<open>*domain.Error\<close> with its sentinel and its code (the display text
  \<^verbatim>\<open>Msg\<close> and the diagnostic \<^verbatim>\<open>Detail\<close> are not modelled), the two context errors, or an
  infrastructure error wrapped by \<^verbatim>\<open>fmt.Errorf\<close>, which carries neither.
\<close>

datatype goerr =
    DomainErr sentinel string
  | ContextCanceled
  | ContextDeadlineExceeded
  | Wrapped string

fun errors_Is :: "goerr \<Rightarrow> sentinel \<Rightarrow> bool" where
  "errors_Is (DomainErr s c) t = (s = t)"
| "errors_Is _ t = False"

fun err_code :: "goerr \<Rightarrow> string option" where
  "err_code (DomainErr s c) = Some c"
| "err_code _ = None"

section \<open>Fallible computations over an outside world\<close>

text \<open>
  What a function did to the outside world before it returned an error stays done, so
  the world is threaded through the error as well.
\<close>

type_synonym ('w, 'a) io = "'w \<Rightarrow> (goerr + 'a) \<times> 'w"

definition ret :: "'a \<Rightarrow> ('w, 'a) io" where
  "ret x = (\<lambda>w. (Inr x, w))"

definition throw :: "goerr \<Rightarrow> ('w, 'a) io" where
  "throw e = (\<lambda>w. (Inl e, w))"

definition bindE :: "('w, 'a) io \<Rightarrow> ('a \<Rightarrow> ('w, 'b) io) \<Rightarrow> ('w, 'b) io" where
  "bindE m f = (\<lambda>w. case m w of (Inl e, w') \<Rightarrow> (Inl e, w') | (Inr x, w') \<Rightarrow> f x w')"

text \<open>\<^verbatim>\<open>tryE\<close> hands the error to its continuation as a value, as \<^verbatim>\<open>x, err := f()\<close> does.\<close>

definition tryE :: "('w, 'a) io \<Rightarrow> (goerr + 'a \<Rightarrow> ('w, 'b) io) \<Rightarrow> ('w, 'b) io" where
  "tryE m k = (\<lambda>w. case m w of (r, w') \<Rightarrow> k r w')"

lemma ret_apply [simp, io_simps]: "ret x w = (Inr x, w)"
  by (simp add: ret_def)

lemma throw_apply [simp, io_simps]: "throw e w = (Inl e, w)"
  by (simp add: throw_def)

lemma bindE_ret [simp]: "bindE (ret x) f = f x"
  by (simp add: bindE_def ret_def)

lemma bindE_throw [simp]: "bindE (throw e) f = throw e"
  by (simp add: bindE_def throw_def)

lemma bindE_assoc: "bindE (bindE m f) g = bindE m (\<lambda>x. bindE (f x) g)"
  by (rule ext) (simp add: bindE_def split: prod.splits sum.splits)

lemma bindE_Inr_iff:
  "bindE m f w = (Inr y, w') \<longleftrightarrow> (\<exists>x w1. m w = (Inr x, w1) \<and> f x w1 = (Inr y, w'))"
  by (auto simp: bindE_def split: prod.splits sum.splits)

lemma bindE_Inl_iff:
  "bindE m f w = (Inl e, w') \<longleftrightarrow>
     m w = (Inl e, w') \<or> (\<exists>x w1. m w = (Inr x, w1) \<and> f x w1 = (Inl e, w'))"
  by (auto simp: bindE_def split: prod.splits sum.splits)

lemma bindE_InrE:
  assumes "bindE m f w = (Inr y, w')"
  obtains x w1 where "m w = (Inr x, w1)" and "f x w1 = (Inr y, w')"
  using assms by (auto simp: bindE_Inr_iff)

lemma bindE_eq_Inr: "m w = (Inr x, w1) \<Longrightarrow> bindE m f w = f x w1"
  by (simp add: bindE_def)

lemma bindE_eq_Inl: "m w = (Inl e, w1) \<Longrightarrow> bindE m f w = (Inl e, w1)"
  by (simp add: bindE_def)

lemma tryE_eq: "m w = (r, w1) \<Longrightarrow> tryE m k w = k r w1"
  by (simp add: tryE_def)

text \<open>A relation between worlds that every stage respects is respected by the whole.\<close>

definition keeps :: "('w \<Rightarrow> 'v) \<Rightarrow> ('w, 'a) io \<Rightarrow> bool" where
  "keeps obs m \<longleftrightarrow> (\<forall>w. obs (snd (m w)) = obs w)"

lemma keepsD: "keeps obs m \<Longrightarrow> m w = (r, w') \<Longrightarrow> obs w' = obs w"
  by (metis keeps_def snd_conv)

lemma keepsI: "(\<And>w r w'. m w = (r, w') \<Longrightarrow> obs w' = obs w) \<Longrightarrow> keeps obs m"
  by (metis keeps_def prod.collapse)

lemma keeps_ret [simp, intro]: "keeps obs (ret x)"
  by (simp add: keeps_def)

lemma keeps_throw [simp, intro]: "keeps obs (throw e)"
  by (simp add: keeps_def)

lemma keeps_bindE [intro]:
  assumes "keeps obs m" and "\<And>x. keeps obs (f x)"
  shows "keeps obs (bindE m f)"
proof (rule keepsI)
  fix w r w' assume eq: "bindE m f w = (r, w')"
  obtain r1 w1 where m: "m w = (r1, w1)" by (cases "m w")
  then have "obs w1 = obs w" using assms(1) by (rule keepsD [rotated])
  then show "obs w' = obs w"
    using eq m by (cases r1) (auto simp: bindE_def dest: keepsD [OF assms(2)])
qed

lemma keeps_tryE [intro]:
  assumes "keeps obs m" and "\<And>x. keeps obs (k x)"
  shows "keeps obs (tryE m k)"
proof (rule keepsI)
  fix w r w' assume eq: "tryE m k w = (r, w')"
  obtain r1 w1 where m: "m w = (r1, w1)" by (cases "m w")
  then have "obs w1 = obs w" using assms(1) by (rule keepsD [rotated])
  moreover have "k r1 w1 = (r, w')" using eq m by (simp add: tryE_def)
  then have "obs w' = obs w1" by (rule keepsD [OF assms(2)])
  ultimately show "obs w' = obs w" by simp
qed

section \<open>Go integers\<close>

text \<open>
  \<^verbatim>\<open>int64\<close> (and \<^verbatim>\<open>time.Duration\<close>, an \<^verbatim>\<open>int64\<close> of nanoseconds) as an integer that
  wraps around; \<^verbatim>\<open>wrap64\<close> is applied where a product or a sum can leave the range.
\<close>

definition wrap64 :: "int \<Rightarrow> int" where
  "wrap64 x = (x + 2 ^ 63) mod 2 ^ 64 - 2 ^ 63"

definition in_int64 :: "int \<Rightarrow> bool" where
  "in_int64 x \<longleftrightarrow> - (2 ^ 63) \<le> x \<and> x < 2 ^ 63"

definition in_int32 :: "int \<Rightarrow> bool" where
  "in_int32 x \<longleftrightarrow> - (2 ^ 31) \<le> x \<and> x < 2 ^ 31"

lemma in_int64_wrap64: "in_int64 (wrap64 x)"
proof -
  have "0 \<le> (x + 2 ^ 63) mod 2 ^ 64" and "(x + 2 ^ 63) mod 2 ^ 64 < (2 :: int) ^ 64"
    by (rule pos_mod_sign, simp) (rule pos_mod_bound, simp)
  then show ?thesis by (simp add: wrap64_def in_int64_def)
qed

lemma wrap64_id: "in_int64 x \<Longrightarrow> wrap64 x = x"
  unfolding wrap64_def in_int64_def by (subst mod_pos_pos_trivial) auto

abbreviation (input) ms_per_s :: int where "ms_per_s \<equiv> 1000"
abbreviation (input) ns_per_ms :: int where "ns_per_ms \<equiv> 1000000"
abbreviation (input) ns_per_s :: int where "ns_per_s \<equiv> 1000000000"

text \<open>\<^verbatim>\<open>time.Duration(n) * time.Second\<close> and \<^verbatim>\<open>d.Milliseconds()\<close>, the latter truncating towards zero.\<close>

definition dur_seconds :: "int \<Rightarrow> int" where
  "dur_seconds n = wrap64 (n * ns_per_s)"

definition dur_millis :: "int \<Rightarrow> int" where
  "dur_millis n = wrap64 (n * ns_per_ms)"

definition trunc_div :: "int \<Rightarrow> int \<Rightarrow> int" where
  "trunc_div a b = sgn a * sgn b * (\<bar>a\<bar> div \<bar>b\<bar>)"

definition Milliseconds :: "int \<Rightarrow> int" where
  "Milliseconds d = trunc_div d ns_per_ms"

lemma dur_seconds_int32: "in_int32 n \<Longrightarrow> dur_seconds n = n * ns_per_s"
  unfolding dur_seconds_def by (rule wrap64_id) (auto simp: in_int32_def in_int64_def)

lemma trunc_div_mult [simp]: "b > 0 \<Longrightarrow> trunc_div (a * b) b = a"
  by (simp add: trunc_div_def sgn_mult abs_mult mult_sgn_abs)

lemma Milliseconds_dur_seconds: "in_int32 n \<Longrightarrow> Milliseconds (dur_seconds n) = n * ms_per_s"
proof -
  have "n * ns_per_s = (n * ms_per_s) * ns_per_ms" by simp
  then show "in_int32 n \<Longrightarrow> ?thesis"
    unfolding Milliseconds_def by (simp only: dur_seconds_int32 trunc_div_mult)
qed

section \<open>Go strings\<close>

definition HasPrefix :: "string \<Rightarrow> string \<Rightarrow> bool" where
  "HasPrefix s p = prefix p s"

text \<open>\<^verbatim>\<open>strings.Index\<close>: the first position at which the pattern occurs.\<close>

fun str_Index :: "string \<Rightarrow> string \<Rightarrow> nat option" where
  "str_Index [] p = (if p = [] then Some 0 else None)"
| "str_Index (c # s) p =
     (if prefix p (c # s) then Some 0 else map_option Suc (str_Index s p))"

text \<open>\<^verbatim>\<open>strings.Cut\<close> at a one-byte separator: before, after, found.\<close>

fun str_Cut :: "string \<Rightarrow> char \<Rightarrow> string \<times> string \<times> bool" where
  "str_Cut [] sep = ([], [], False)"
| "str_Cut (c # s) sep =
     (if c = sep then ([], s, True)
      else case str_Cut s sep of (a, b, f) \<Rightarrow> (c # a, b, f))"

lemma str_Cut_found: "str_Cut s sep = (a, b, True) \<Longrightarrow> s = a @ sep # b \<and> sep \<notin> set a"
  by (induction s arbitrary: a b) (auto split: if_splits prod.splits)

lemma str_Cut_not_found: "str_Cut s sep = (a, b, False) \<Longrightarrow> a = s \<and> b = [] \<and> sep \<notin> set s"
  by (induction s arbitrary: a b) (auto split: if_splits prod.splits)

lemma str_Cut_sep: "sep \<notin> set a \<Longrightarrow> str_Cut (a @ sep # b) sep = (a, b, True)"
  by (induction a) auto

lemma str_Cut_no_sep: "sep \<notin> set a \<Longrightarrow> str_Cut a sep = (a, [], False)"
  by (induction a) auto

lemma str_Index_Some:
  "str_Index s p = Some i \<Longrightarrow> \<exists>r. s = take i s @ p @ r \<and> i \<le> length s"
  by (induction s arbitrary: i) (auto simp: prefix_def split: if_splits)

lemma append_sep_inj:
  fixes a b :: string
  assumes "a @ sep # b = a' @ sep # b'" and "sep \<notin> set a" and "sep \<notin> set a'"
  shows "a = a' \<and> b = b'"
proof -
  have "str_Cut (a @ sep # b) sep = str_Cut (a' @ sep # b') sep" using assms(1) by simp
  then show ?thesis using assms(2,3) by (simp add: str_Cut_sep)
qed

text \<open>Byte comparisons such as \<^verbatim>\<open>c >= 'a' && c <= 'z'\<close>.\<close>

definition byte_in :: "char \<Rightarrow> char \<Rightarrow> char \<Rightarrow> bool" where
  "byte_in lo hi c \<longleftrightarrow> (of_char lo :: nat) \<le> of_char c \<and> (of_char c :: nat) \<le> of_char hi"

section \<open>Go maps as loops over an enumeration\<close>

text \<open>
  \<^verbatim>\<open>for k := range m\<close> visits every key once, in an order the language leaves open. A
  definition whose source ranges over a map takes the order of the visit as an argument;
  its properties hold for every enumeration of the keys.
\<close>

definition enumerates :: "'k list \<Rightarrow> ('k \<rightharpoonup> 'v) \<Rightarrow> bool" where
  "enumerates ks m \<longleftrightarrow> distinct ks \<and> set ks = dom m"

lemma enumerates_iff [simp]: "enumerates ks m \<Longrightarrow> k \<in> set ks \<longleftrightarrow> m k \<noteq> None"
  by (auto simp: enumerates_def)

end
