(* ===== verification/Authzcore.thy ===== *)
theory Authzcore
  imports Prelude
begin

text \<open>
  The authorisation decision shared by the server and the SDK
  (\<^verbatim>\<open>sdk/authzcore/authzcore.go\<close>). A policy is compiled into a snapshot of per-role
  allow and deny sets; a decision walks the roles a caller holds. The lemmas relate the
  compiled, early-exiting decision to the rule it stands for: a deny rejects, otherwise
  an allow grants, otherwise nothing grants, and ADMIN bypasses the check.
\<close>

record RolePolicy =
  RoleKey :: string
  Allow_list :: "string list"
  Deny_list :: "string list"

definition GuestRoleKey :: string where "GuestRoleKey = ''GUEST''"

definition AdminRoleKey :: string where "AdminRoleKey = ''ADMIN''"

definition IsBuiltinRole :: "string \<Rightarrow> bool" where
  "IsBuiltinRole code \<longleftrightarrow> code = GuestRoleKey \<or> code = AdminRoleKey"

fun HasAdmin :: "string list \<Rightarrow> bool" where
  "HasAdmin [] = False"
| "HasAdmin (k # ks) = (if k = AdminRoleKey then True else HasAdmin ks)"

definition PermissionKey :: "string \<Rightarrow> string \<Rightarrow> string" where
  "PermissionKey meth pattern = meth @ '':'' @ pattern"

record roleSets =
  allow :: "string set"
  deny :: "string set"

record Snapshot =
  roles :: "string \<rightharpoonup> roleSets"

text \<open>One iteration of the loop of \<^verbatim>\<open>Compile\<close>: the sets of a role seen before are extended, not replaced.\<close>

definition compile_step :: "Snapshot \<Rightarrow> RolePolicy \<Rightarrow> Snapshot" where
  "compile_step s rp =
     (let sets = (case roles s (RoleKey rp) of
                    Some sets \<Rightarrow> sets
                  | None \<Rightarrow> \<lparr>allow = {}, deny = {}\<rparr>);
          sets = fold (\<lambda>a x. x\<lparr>allow := insert a (allow x)\<rparr>) (Allow_list rp) sets;
          sets = fold (\<lambda>d x. x\<lparr>deny := insert d (deny x)\<rparr>) (Deny_list rp) sets
      in s\<lparr>roles := (roles s)(RoleKey rp \<mapsto> sets)\<rparr>)"

definition Compile :: "RolePolicy list \<Rightarrow> Snapshot" where
  "Compile rps = foldl compile_step \<lparr>roles = Map.empty\<rparr> rps"

text \<open>
  The closure \<^verbatim>\<open>check\<close> of \<^verbatim>\<open>AllowWith\<close>: it returns whether the role denies, and the
  captured variable \<^verbatim>\<open>allowed\<close> after the call.
\<close>

definition check :: "Snapshot \<Rightarrow> string \<Rightarrow> bool \<Rightarrow> string \<Rightarrow> bool \<times> bool" where
  "check s permissionKey allowed k =
     (case roles s k of
        None \<Rightarrow> (False, allowed)
      | Some sets \<Rightarrow>
          if permissionKey \<in> deny sets then (True, allowed)
          else if permissionKey \<in> allow sets then (False, True)
          else (False, allowed))"

text \<open>The loop over \<^verbatim>\<open>roleKeys\<close>; \<^verbatim>\<open>None\<close> is the early \<^verbatim>\<open>return false\<close> on a deny.\<close>

fun check_all :: "Snapshot \<Rightarrow> string \<Rightarrow> bool \<Rightarrow> string list \<Rightarrow> bool option" where
  "check_all s p allowed [] = Some allowed"
| "check_all s p allowed (k # ks) =
     (case check s p allowed k of
        (True, _) \<Rightarrow> None
      | (False, allowed') \<Rightarrow> check_all s p allowed' ks)"

definition AllowWith :: "Snapshot option \<Rightarrow> string list \<Rightarrow> string \<Rightarrow> string \<Rightarrow> bool" where
  "AllowWith snap roleKeys extraRole permissionKey =
     (if HasAdmin roleKeys then True
      else case snap of
        None \<Rightarrow> False
      | Some s \<Rightarrow>
          (case check_all s permissionKey False roleKeys of
             None \<Rightarrow> False
           | Some allowed \<Rightarrow>
               if extraRole \<noteq> [] then
                 (case check s permissionKey allowed extraRole of
                    (True, _) \<Rightarrow> False
                  | (False, allowed') \<Rightarrow> allowed')
               else allowed))"

definition Snapshot_Allow :: "Snapshot option \<Rightarrow> string list \<Rightarrow> string \<Rightarrow> bool" where
  "Snapshot_Allow s roleKeys permissionKey = AllowWith s roleKeys '''' permissionKey"

definition Allow :: "RolePolicy list \<Rightarrow> string list \<Rightarrow> string \<Rightarrow> bool" where
  "Allow rps roleKeys permissionKey = Snapshot_Allow (Some (Compile rps)) roleKeys permissionKey"

section \<open>What a compiled snapshot says\<close>

definition denies :: "Snapshot \<Rightarrow> string \<Rightarrow> string \<Rightarrow> bool" where
  "denies s p k \<longleftrightarrow> (\<exists>sets. roles s k = Some sets \<and> p \<in> deny sets)"

definition grants :: "Snapshot \<Rightarrow> string \<Rightarrow> string \<Rightarrow> bool" where
  "grants s p k \<longleftrightarrow> (\<exists>sets. roles s k = Some sets \<and> p \<in> allow sets)"

lemma HasAdmin_iff [simp]: "HasAdmin ks \<longleftrightarrow> AdminRoleKey \<in> set ks"
  by (induction ks) auto

lemma fold_allow: "fold (\<lambda>a x. x\<lparr>allow := insert a (allow x)\<rparr>) as x = x\<lparr>allow := set as \<union> allow x\<rparr>"
  by (induction as arbitrary: x) auto

lemma fold_deny: "fold (\<lambda>d x. x\<lparr>deny := insert d (deny x)\<rparr>) ds x = x\<lparr>deny := set ds \<union> deny x\<rparr>"
  by (induction ds arbitrary: x) auto

lemma denies_step:
  "denies (compile_step s rp) p k \<longleftrightarrow> denies s p k \<or> (RoleKey rp = k \<and> p \<in> set (Deny_list rp))"
  by (auto simp: denies_def compile_step_def fold_allow fold_deny Let_def split: option.splits)

lemma grants_step:
  "grants (compile_step s rp) p k \<longleftrightarrow> grants s p k \<or> (RoleKey rp = k \<and> p \<in> set (Allow_list rp))"
  by (auto simp: grants_def compile_step_def fold_allow fold_deny Let_def split: option.splits)

lemma denies_foldl:
  "denies (foldl compile_step s rps) p k \<longleftrightarrow>
     denies s p k \<or> (\<exists>rp\<in>set rps. RoleKey rp = k \<and> p \<in> set (Deny_list rp))"
  by (induction rps arbitrary: s) (auto simp: denies_step)

lemma grants_foldl:
  "grants (foldl compile_step s rps) p k \<longleftrightarrow>
     grants s p k \<or> (\<exists>rp\<in>set rps. RoleKey rp = k \<and> p \<in> set (Allow_list rp))"
  by (induction rps arbitrary: s) (auto simp: grants_step)

lemma denies_Compile:
  "denies (Compile rps) p k \<longleftrightarrow> (\<exists>rp\<in>set rps. RoleKey rp = k \<and> p \<in> set (Deny_list rp))"
  by (simp add: Compile_def denies_foldl) (simp add: denies_def)

lemma grants_Compile:
  "grants (Compile rps) p k \<longleftrightarrow> (\<exists>rp\<in>set rps. RoleKey rp = k \<and> p \<in> set (Allow_list rp))"
  by (simp add: Compile_def grants_foldl) (simp add: grants_def)

lemmas snapshot_Compile = denies_Compile grants_Compile

section \<open>The decision\<close>

lemma check_eq:
  "check s p b k = (denies s p k, if denies s p k then b else b \<or> grants s p k)"
  by (auto simp: check_def denies_def grants_def split: option.splits)

lemma check_all_eq:
  "check_all s p b ks =
     (if \<exists>k\<in>set ks. denies s p k then None else Some (b \<or> (\<exists>k\<in>set ks. grants s p k)))"
  by (induction ks arbitrary: b) (auto simp: check_eq split: bool.splits)

definition held :: "string list \<Rightarrow> string \<Rightarrow> string set" where
  "held roleKeys extraRole = set roleKeys \<union> (if extraRole = [] then {} else {extraRole})"

lemma AllowWith_iff:
  "AllowWith (Some s) ks extra p \<longleftrightarrow>
     AdminRoleKey \<in> set ks \<or>
     (\<forall>k\<in>held ks extra. \<not> denies s p k) \<and> (\<exists>k\<in>held ks extra. grants s p k)"
  by (auto simp: AllowWith_def check_all_eq check_eq held_def split: bool.splits)

lemma AllowWith_None: "AllowWith None ks extra p \<longleftrightarrow> AdminRoleKey \<in> set ks"
  by (simp add: AllowWith_def)

text \<open>
  C1. The decision of \<^verbatim>\<open>Compile\<close> followed by \<^verbatim>\<open>AllowWith\<close> is the documented rule over the
  uncompiled policy: a caller who holds ADMIN is always let through; otherwise the request
  passes exactly when no entry of a held role (the extra role counted as held unless it is
  empty) denies the permission and some entry of a held role allows it. Entries that
  repeat a role key are merged, so an earlier deny is never lost.
\<close>

theorem decision_is_deny_override:
  "AllowWith (Some (Compile rps)) roleKeys extraRole p \<longleftrightarrow>
     AdminRoleKey \<in> set roleKeys \<or>
     ((\<forall>rp\<in>set rps. RoleKey rp \<in> set roleKeys \<or> (extraRole \<noteq> [] \<and> RoleKey rp = extraRole) \<longrightarrow>
          p \<notin> set (Deny_list rp)) \<and>
      (\<exists>rp\<in>set rps. (RoleKey rp \<in> set roleKeys \<or> (extraRole \<noteq> [] \<and> RoleKey rp = extraRole)) \<and>
          p \<in> set (Allow_list rp)))"
  by (auto simp: AllowWith_iff snapshot_Compile held_def)

theorem decision_is_deny_override_witness:
  "AllowWith (Some (Compile [\<lparr>RoleKey = ''r'', Allow_list = [''p''], Deny_list = []\<rparr>,
                             \<lparr>RoleKey = ''GUEST'', Allow_list = [], Deny_list = [''q'']\<rparr>]))
     [''r''] ''GUEST'' ''p''
   \<and> \<not> AllowWith (Some (Compile [\<lparr>RoleKey = ''r'', Allow_list = [''q''], Deny_list = []\<rparr>,
                                 \<lparr>RoleKey = ''GUEST'', Allow_list = [], Deny_list = [''q'']\<rparr>]))
     [''r''] ''GUEST'' ''q''"
  unfolding decision_is_deny_override by (simp add: AdminRoleKey_def)

text \<open>
  The decision depends only on which roles are held and on which entries the policy
  has, never on their order or multiplicity: Go's randomised map iteration on the server
  cannot make two SDK instances disagree.
\<close>

theorem decision_order_independent:
  assumes "set rps = set rps'" and "set roleKeys = set roleKeys'"
  shows "AllowWith (Some (Compile rps)) roleKeys extraRole p =
         AllowWith (Some (Compile rps')) roleKeys' extraRole p"
  unfolding AllowWith_iff snapshot_Compile held_def using assms by simp

theorem decision_order_independent_witness:
  "AllowWith (Some (Compile [\<lparr>RoleKey = ''a'', Allow_list = [''p''], Deny_list = []\<rparr>,
                             \<lparr>RoleKey = ''b'', Allow_list = [], Deny_list = [''p'']\<rparr>])) [''a'', ''b''] [] ''p'' =
   AllowWith (Some (Compile [\<lparr>RoleKey = ''b'', Allow_list = [], Deny_list = [''p'']\<rparr>,
                             \<lparr>RoleKey = ''a'', Allow_list = [''p''], Deny_list = []\<rparr>])) [''b'', ''a'', ''a''] [] ''p''"
  by (rule decision_order_independent) auto

text \<open>
  Permission keys built by \<^verbatim>\<open>PermissionKey\<close> do not collide: two routes whose methods
  contain no colon get the same key only if both the method and the pattern agree, however
  many colons the patterns have.
\<close>

theorem PermissionKey_inj:
  assumes "CHR '':'' \<notin> set m" and "CHR '':'' \<notin> set m'"
    and "PermissionKey m pat = PermissionKey m' pat'"
  shows "m = m' \<and> pat = pat'"
  using assms by (intro append_sep_inj [of m "CHR '':''"]) (simp_all add: PermissionKey_def)

theorem PermissionKey_inj_witness:
  "CHR '':'' \<notin> set ''GET'' \<and> PermissionKey ''GET'' ''/a:b'' = PermissionKey ''GET'' ''/a:b''
   \<and> ''GET'' = ''GET'' \<and> ''/a:b'' = ''/a:b''"
  using PermissionKey_inj [of "''GET''" "''GET''" "''/a:b''" "''/a:b''"] by simp

end
