(* ===== verification/Policy.thy ===== *)
theory Policy
  imports Authzcore
begin

text \<open>
  The server half of the authorisation policy (\<^verbatim>\<open>internal/service/policy.go\<close> and the
  pure helpers of \<^verbatim>\<open>internal/service/authz.go\<close>): expansion of role inheritance, the
  compiled policy sent to the SDK, and de-duplication of role lists. The rows the two
  queries of \<^verbatim>\<open>CompilePolicy\<close> return are arguments of the model. The main result
  composes this half with the SDK half of \<^verbatim>\<open>Authzcore\<close>.
\<close>

definition EffectAllow :: string where "EffectAllow = ''allow''"

definition EffectDeny :: string where "EffectDeny = ''deny''"

text \<open>\<^verbatim>\<open>dedup\<close>: the loop with its \<^verbatim>\<open>seen\<close> set and its output so far.\<close>

fun dedup_loop :: "string set \<Rightarrow> string list \<Rightarrow> string list \<Rightarrow> string list" where
  "dedup_loop seen out [] = out"
| "dedup_loop seen out (s # ss) =
     (if s = [] \<or> s \<in> seen then dedup_loop seen out ss
      else dedup_loop (insert s seen) (out @ [s]) ss)"

definition dedup :: "string list \<Rightarrow> string list" where
  "dedup xs = dedup_loop {} [] xs"

text \<open>
  \<^verbatim>\<open>effectiveFor\<close>: \<^verbatim>\<open>n\<close> is what is left of the 64 iterations, \<^verbatim>\<open>cur\<close> the role the walk is
  at. The inner loop writes the direct grants of \<^verbatim>\<open>cur\<close> that are not yet in \<^verbatim>\<open>out\<close>,
  which is a map sum whatever the order of iteration.
\<close>

type_synonym parent_map = "uuid \<Rightarrow> uuid option"
type_synonym direct_map = "uuid \<Rightarrow> (string \<rightharpoonup> string)"

fun effective_loop ::
  "nat \<Rightarrow> parent_map \<Rightarrow> direct_map \<Rightarrow> uuid option \<Rightarrow> (string \<rightharpoonup> string) \<Rightarrow> (string \<rightharpoonup> string)"
where
  "effective_loop 0 parents direct cur out = out"
| "effective_loop (Suc n) parents direct None out = out"
| "effective_loop (Suc n) parents direct (Some r) out =
     effective_loop n parents direct (parents r) (direct r ++ out)"

definition max_depth :: nat where "max_depth = 64"

definition effectiveFor :: "uuid \<Rightarrow> parent_map \<Rightarrow> direct_map \<Rightarrow> (string \<rightharpoonup> string)" where
  "effectiveFor roleID parents direct =
     effective_loop max_depth parents direct (Some roleID) Map.empty"

text \<open>The rows of the two queries and the maps built from them.\<close>

record role_row =
  rr_id :: uuid
  rr_code :: string
  rr_parent :: "uuid option"

record grant_row =
  gr_role :: uuid
  gr_key :: string
  gr_effect :: string

fun roleGraph :: "role_row list \<Rightarrow> parent_map \<Rightarrow> (uuid \<rightharpoonup> string) \<Rightarrow> parent_map \<times> (uuid \<rightharpoonup> string)" where
  "roleGraph [] parents keys = (parents, keys)"
| "roleGraph (r # rows) parents keys =
     roleGraph rows (parents(rr_id r := rr_parent r)) (keys(rr_id r \<mapsto> rr_code r))"

fun direct_grants :: "grant_row list \<Rightarrow> direct_map \<Rightarrow> direct_map" where
  "direct_grants [] direct = direct"
| "direct_grants (g # rows) direct =
     direct_grants rows (direct(gr_role g := (direct (gr_role g))(gr_key g \<mapsto> gr_effect g)))"

text \<open>
  The policy entry of one role: the loop over its effective grants, in the order
  \<^verbatim>\<open>pks\<close>, puts a deny on the deny list and everything else on the allow list.
\<close>

fun split_effects :: "(string \<rightharpoonup> string) \<Rightarrow> string list \<Rightarrow> RolePolicy \<Rightarrow> RolePolicy" where
  "split_effects eff [] rp = rp"
| "split_effects eff (pk # pks) rp =
     split_effects eff pks
       (if eff pk = Some EffectDeny then rp\<lparr>Deny_list := Deny_list rp @ [pk]\<rparr>
        else rp\<lparr>Allow_list := Allow_list rp @ [pk]\<rparr>)"

text \<open>
  \<^verbatim>\<open>CompilePolicy\<close> on the rows of its two queries. \<^verbatim>\<open>ids\<close> and \<^verbatim>\<open>pks\<close> are the orders in which
  the two map loops visit their keys.
\<close>

fun compile_roles ::
  "parent_map \<Rightarrow> direct_map \<Rightarrow> (uuid \<rightharpoonup> string) \<Rightarrow> (uuid \<Rightarrow> string list) \<Rightarrow> uuid list \<Rightarrow> RolePolicy list"
where
  "compile_roles parents direct keys pks [] = []"
| "compile_roles parents direct keys pks (i # ids) =
     (let eff = effectiveFor i parents direct
      in if pks i = [] then compile_roles parents direct keys pks ids
         else split_effects eff (pks i) \<lparr>RoleKey = the (keys i), Allow_list = [], Deny_list = []\<rparr>
              # compile_roles parents direct keys pks ids)"

definition CompilePolicy ::
  "role_row list \<Rightarrow> grant_row list \<Rightarrow> uuid list \<Rightarrow> (uuid \<Rightarrow> string list) \<Rightarrow> RolePolicy list"
where
  "CompilePolicy role_rows grant_rows ids pks =
     (let (parents, keys) = roleGraph role_rows (\<lambda>_. None) Map.empty;
          direct = direct_grants grant_rows (\<lambda>_. Map.empty)
      in compile_roles parents direct keys pks ids)"

text \<open>\<^verbatim>\<open>wouldCycle\<close> on the parent column of the role table; a role without a row ends the walk.\<close>

fun wouldCycle_loop :: "nat \<Rightarrow> (uuid \<rightharpoonup> uuid option) \<Rightarrow> uuid \<Rightarrow> uuid option \<Rightarrow> bool" where
  "wouldCycle_loop 0 tbl i cur = False"
| "wouldCycle_loop (Suc n) tbl i None = False"
| "wouldCycle_loop (Suc n) tbl i (Some c) =
     (if c = i then True
      else case tbl c of None \<Rightarrow> False | Some next \<Rightarrow> wouldCycle_loop n tbl i next)"

definition wouldCycle :: "(uuid \<rightharpoonup> uuid option) \<Rightarrow> uuid \<Rightarrow> uuid \<Rightarrow> bool" where
  "wouldCycle tbl i parentID = wouldCycle_loop 64 tbl i (Some parentID)"

section \<open>De-duplication\<close>

lemma dedup_loop_append: "dedup_loop seen out xs = out @ dedup_loop seen [] xs"
proof (induction xs arbitrary: seen out)
  case (Cons s ss)
  show ?case
    using Cons.IH [of seen out] Cons.IH [of "insert s seen" "out @ [s]"]
      Cons.IH [of "insert s seen" "[s]"] by simp
qed simp

lemma set_dedup_loop: "set (dedup_loop seen [] xs) = set xs - seen - {[]}"
proof (induction xs arbitrary: seen)
  case (Cons s ss)
  then show ?case by (auto simp: dedup_loop_append [of _ "[s]"])
qed simp

lemma distinct_dedup_loop: "distinct (dedup_loop seen [] xs)"
proof (induction xs arbitrary: seen)
  case (Cons s ss)
  then show ?case by (auto simp: dedup_loop_append [of _ "[s]"] set_dedup_loop)
qed simp

lemma set_dedup [simp]: "set (dedup xs) = set xs - {[]}"
  by (simp add: dedup_def set_dedup_loop)

lemma distinct_dedup [simp]: "distinct (dedup xs)"
  by (simp add: dedup_def distinct_dedup_loop)

section \<open>Inheritance\<close>

text \<open>The first \<^verbatim>\<open>n\<close> roles of the walk from a role to its ancestors.\<close>

fun chain :: "nat \<Rightarrow> parent_map \<Rightarrow> uuid option \<Rightarrow> uuid list" where
  "chain 0 parents cur = []"
| "chain (Suc n) parents None = []"
| "chain (Suc n) parents (Some r) = r # chain n parents (parents r)"

fun nearest :: "direct_map \<Rightarrow> string \<Rightarrow> uuid list \<Rightarrow> string option" where
  "nearest direct k [] = None"
| "nearest direct k (r # rs) = (case direct r k of Some e \<Rightarrow> Some e | None \<Rightarrow> nearest direct k rs)"

lemma effective_loop_eq:
  "effective_loop n parents direct cur out k =
     (case out k of Some e \<Rightarrow> Some e | None \<Rightarrow> nearest direct k (chain n parents cur))"
  by (induction n parents direct cur out rule: effective_loop.induct)
     (auto simp: map_add_def split: option.splits)

lemma effectiveFor_eq:
  "effectiveFor r parents direct k = nearest direct k (chain max_depth parents (Some r))"
  by (simp add: effectiveFor_def effective_loop_eq)

lemma length_chain: "length (chain n parents cur) \<le> n"
  by (induction n parents cur rule: chain.induct) auto

lemma chain_stable:
  "length (chain n parents cur) < n \<Longrightarrow> chain (n + m) parents cur = chain n parents cur"
proof (induction n parents cur rule: chain.induct)
  case (2 n parents)
  then show ?case by (cases "n + m") simp_all
qed auto

lemma nearest_in_chain: "nearest direct k rs = Some e \<Longrightarrow> \<exists>r\<in>set rs. direct r k = Some e"
  by (induction rs) (auto split: option.splits)

lemma nearest_Some_iff:
  "nearest direct k rs = Some e \<longleftrightarrow>
     (\<exists>i < length rs. direct (rs ! i) k = Some e \<and> (\<forall>j < i. direct (rs ! j) k = None))"
proof (induction rs)
  case (Cons r rs)
  show ?case
  proof (cases "direct r k")
    case None
    then show ?thesis by (auto simp: Cons.IH Ex_less_Suc2 All_less_Suc2)
  next
    case (Some e')
    then show ?thesis by (fastforce simp: Ex_less_Suc2 All_less_Suc2)
  qed
qed simp

text \<open>
  \<^verbatim>\<open>effectiveFor\<close> gives each permission the effect of the closest role on the walk
  from the role to its ancestors that grants it directly, so a child's own entry wins over
  every ancestor's; an ancestor more than 63 steps away contributes nothing.
\<close>

theorem effectiveFor_nearest_wins:
  "effectiveFor r parents direct k = Some e \<longleftrightarrow>
     (\<exists>i < length (chain 64 parents (Some r)).
        direct (chain 64 parents (Some r) ! i) k = Some e \<and>
        (\<forall>j < i. direct (chain 64 parents (Some r) ! j) k = None))"
  by (simp add: effectiveFor_eq nearest_Some_iff max_depth_def)

theorem effectiveFor_nearest_wins_witness:
  "effectiveFor ''c'' (\<lambda>x. if x = ''c'' then Some ''p'' else None)
     (\<lambda>x. if x = ''p'' then [''k'' \<mapsto> ''deny''] else Map.empty) ''k'' = Some ''deny''"
proof -
  let ?p = "\<lambda>x. if x = ''c'' then Some ''p'' else None"
  have *: "chain 64 ?p (Some ''c'') = [''c'', ''p'']" by (simp add: numeral_eq_Suc)
  show ?thesis
    by (subst effectiveFor_nearest_wins) (auto simp: * intro!: exI [of _ 1])
qed

text \<open>
  The cap of 64 levels loses nothing on an inheritance chain that ends within 63 roles: the
  expansion then equals the expansion over the whole chain, whatever its true length bound.
\<close>

theorem effectiveFor_cap_harmless:
  assumes "length (chain 64 parents (Some r)) < 64"
  shows "effectiveFor r parents direct k = nearest direct k (chain (64 + m) parents (Some r))"
  using chain_stable [OF assms, of m] by (simp add: effectiveFor_eq max_depth_def)

theorem effectiveFor_cap_harmless_witness:
  "length (chain 64 (\<lambda>x. if x = ''c'' then Some ''p'' else None) (Some ''c'')) < 64 \<and>
   effectiveFor ''c'' (\<lambda>x. if x = ''c'' then Some ''p'' else None)
     (\<lambda>x. if x = ''p'' then [''k'' \<mapsto> ''deny''] else Map.empty) ''k'' =
   nearest (\<lambda>x. if x = ''p'' then [''k'' \<mapsto> ''deny''] else Map.empty) ''k''
     (chain (64 + 7) (\<lambda>x. if x = ''c'' then Some ''p'' else None) (Some ''c''))"
proof -
  have *: "length (chain 64 (\<lambda>x. if x = ''c'' then Some ''p'' else None) (Some ''c'')) < 64"
    by (simp add: numeral_eq_Suc)
  show ?thesis
    using * effectiveFor_cap_harmless [OF *, of _ "''k''" 7] by simp
qed

section \<open>The compiled policy\<close>

lemma RoleKey_split_effects [simp]: "RoleKey (split_effects eff pks rp) = RoleKey rp"
  by (induction eff pks rp rule: split_effects.induct) auto

lemma set_Deny_split_effects:
  "set (Deny_list (split_effects eff pks rp)) =
     set (Deny_list rp) \<union> {pk \<in> set pks. eff pk = Some EffectDeny}"
  by (induction eff pks rp rule: split_effects.induct) auto

lemma set_Allow_split_effects:
  "set (Allow_list (split_effects eff pks rp)) =
     set (Allow_list rp) \<union> {pk \<in> set pks. eff pk \<noteq> Some EffectDeny}"
  by (induction eff pks rp rule: split_effects.induct) auto

lemmas split_effects_sets = set_Deny_split_effects set_Allow_split_effects

lemma compile_roles_denies:
  "(\<exists>rp\<in>set (compile_roles parents direct keys pks ids). RoleKey rp = c \<and> p \<in> set (Deny_list rp)) \<longleftrightarrow>
     (\<exists>i\<in>set ids. the (keys i) = c \<and> p \<in> set (pks i) \<and> effectiveFor i parents direct p = Some EffectDeny)"
  by (induction ids) (auto simp: Let_def split_effects_sets)

lemma compile_roles_grants:
  "(\<exists>rp\<in>set (compile_roles parents direct keys pks ids). RoleKey rp = c \<and> p \<in> set (Allow_list rp)) \<longleftrightarrow>
     (\<exists>i\<in>set ids. the (keys i) = c \<and> p \<in> set (pks i) \<and> effectiveFor i parents direct p \<noteq> Some EffectDeny)"
  by (induction ids) (auto simp: Let_def split_effects_sets)

lemmas compile_roles_sets = compile_roles_denies compile_roles_grants

text \<open>
  What the rows of the database say of a role held under its code, stated without the code's maps and loops: a role is
  so many steps above another along the parent column, a grant is a row, and a permission has the effect of the grant of
  the nearest of the first 64 roles on the way up that has one.
\<close>

inductive above :: "role_row list \<Rightarrow> uuid \<Rightarrow> nat \<Rightarrow> uuid \<Rightarrow> bool" for rows r where
  itself: "above rows r 0 r"
| parent: "above rows r d a \<Longrightarrow> row \<in> set rows \<Longrightarrow> rr_id row = a \<Longrightarrow> rr_parent row = Some b \<Longrightarrow> above rows r (Suc d) b"

inductive_simps above_0: "above rows r 0 a"
inductive_simps above_Suc: "above rows r (Suc d) a"

definition granted :: "grant_row list \<Rightarrow> uuid \<Rightarrow> string \<Rightarrow> string \<Rightarrow> bool" where
  "granted gs r p e \<longleftrightarrow> \<lparr>gr_role = r, gr_key = p, gr_effect = e\<rparr> \<in> set gs"

definition rows_say :: "role_row list \<Rightarrow> grant_row list \<Rightarrow> string \<Rightarrow> string \<Rightarrow> string \<Rightarrow> bool" where
  "rows_say rows gs c p e \<longleftrightarrow>
     (\<exists>row \<in> set rows. rr_code row = c \<and>
        (\<exists>d < 64. \<exists>a. above rows (rr_id row) d a \<and> granted gs a p e \<and>
           (\<forall>d' < d. \<forall>b e'. above rows (rr_id row) d' b \<longrightarrow> \<not> granted gs b p e')))"

text \<open>The code's maps hold what the rows say, as the keys of the two tables are unique.\<close>

lemma find_key_None: "k \<notin> f ` set xs \<Longrightarrow> find (\<lambda>x. f x = k) xs = None"
  by (auto simp: find_None_iff)

lemma roleGraph_maps:
  assumes "distinct (map rr_id rows)"
  shows "fst (roleGraph rows ps ks) i = (case find (\<lambda>x. rr_id x = i) rows of Some x \<Rightarrow> rr_parent x | None \<Rightarrow> ps i) \<and>
    snd (roleGraph rows ps ks) i = (case find (\<lambda>x. rr_id x = i) rows of Some x \<Rightarrow> Some (rr_code x) | None \<Rightarrow> ks i)"
  using assms
proof (induction rows arbitrary: ps ks)
  case (Cons r rows)
  have "find (\<lambda>x. rr_id x = rr_id r) rows = None" using Cons.prems by (auto intro: find_key_None)
  then show ?case using Cons.IH Cons.prems by (auto split: option.splits)
qed simp

lemmas roleGraph_parents = conjunct1 [OF roleGraph_maps]
lemmas roleGraph_codes = conjunct2 [OF roleGraph_maps]

lemma find_key:
  assumes "distinct (map f xs)"
  shows "find (\<lambda>x. f x = k) xs = Some y \<longleftrightarrow> y \<in> set xs \<and> f y = k"
  using assms by (induction xs) auto

lemma find_case_iff:
  assumes "distinct (map f xs)"
  shows "(case find (\<lambda>x. f x = k) xs of Some x \<Rightarrow> h x | None \<Rightarrow> None) = Some y \<longleftrightarrow> (\<exists>x \<in> set xs. f x = k \<and> h x = Some y)"
proof (cases "find (\<lambda>x. f x = k) xs")
  case None
  show ?thesis unfolding None using None [unfolded find_None_iff] by auto
next
  case (Some z)
  then have "x = z" if "x \<in> set xs" "f x = k" for x using find_key [OF assms, of k x] that by auto
  then show ?thesis using Some find_key [OF assms, of k z] by auto
qed

lemma direct_grants_granted:
  assumes "distinct (map (\<lambda>g. (gr_role g, gr_key g)) rows)"
  shows "direct_grants rows m r p =
    (case find (\<lambda>g. (gr_role g, gr_key g) = (r, p)) rows of Some g \<Rightarrow> Some (gr_effect g) | None \<Rightarrow> m r p)"
  using assms
proof (induction rows arbitrary: m)
  case (Cons g rows)
  have "find (\<lambda>x. (gr_role x, gr_key x) = (gr_role g, gr_key g)) rows = None"
    using Cons.prems by (intro find_key_None) simp
  then show ?case using Cons by (auto split: option.splits)
qed simp

lemma granted_iff:
  assumes "distinct (map (\<lambda>g. (gr_role g, gr_key g)) gs)"
  shows "granted gs r p e \<longleftrightarrow> direct_grants gs (\<lambda>_. Map.empty) r p = Some e"
proof -
  let ?f = "find (\<lambda>g. (gr_role g, gr_key g) = (r, p)) gs"
  have mem: "?f = Some g \<longleftrightarrow> g \<in> set gs \<and> (gr_role g, gr_key g) = (r, p)" for g
    by (rule find_key [OF assms])
  have "granted gs r p e \<longleftrightarrow> ?f = Some \<lparr>gr_role = r, gr_key = p, gr_effect = e\<rparr>"
    unfolding mem granted_def by simp
  also have "\<dots> \<longleftrightarrow> direct_grants gs (\<lambda>_. Map.empty) r p = Some e"
    unfolding direct_grants_granted [OF assms]
  proof (cases ?f)
    case (Some g)
    then have "gr_role g = r" "gr_key g = p" using mem [of g] by auto
    then have "g = \<lparr>gr_role = r, gr_key = p, gr_effect = gr_effect g\<rparr>" by simp
    then show "(?f = Some \<lparr>gr_role = r, gr_key = p, gr_effect = e\<rparr>) =
        ((case ?f of None \<Rightarrow> None | Some g \<Rightarrow> Some (gr_effect g)) = Some e)"
      unfolding Some by (metis grant_row.select_convs(3) option.inject option.simps(5))
  qed simp
  finally show ?thesis .
qed

lemma above_chain:
  assumes "distinct (map rr_id rows)" and "d < n"
  shows "above rows r d a \<longleftrightarrow>
    d < length (chain n (fst (roleGraph rows (\<lambda>_. None) ks)) (Some r)) \<and>
    chain n (fst (roleGraph rows (\<lambda>_. None) ks)) (Some r) ! d = a"
  using assms(2)
proof (induction d arbitrary: a)
  case 0
  then show ?case by (cases n) (auto simp: above_0)
next
  case (Suc d)
  let ?P = "fst (roleGraph rows (\<lambda>_. None) ks)"
  have step: "Suc d < length (chain n ?P cur) \<and> chain n ?P cur ! Suc d = a \<longleftrightarrow>
      d < length (chain n ?P cur) \<and> ?P (chain n ?P cur ! d) = Some a" if "Suc d < n" for cur n d
    using that
  proof (induction n arbitrary: cur d)
    case (Suc n)
    show ?case
    proof (cases cur)
      case (Some q)
      show ?thesis
      proof (cases d)
        case 0
        then show ?thesis using Some Suc.prems by (cases n; cases "?P q") auto
      next
        case (Suc d')
        then show ?thesis using Some Suc.IH [of d' "?P q"] Suc.prems by simp
      qed
    qed simp
  qed simp
  have par: "?P b = Some a \<longleftrightarrow> (\<exists>row \<in> set rows. rr_id row = b \<and> rr_parent row = Some a)" for b
    unfolding roleGraph_parents [OF assms(1)]
    by (rule find_case_iff [OF assms(1)])
  have "above rows r (Suc d) a \<longleftrightarrow> (\<exists>b. above rows r d b \<and> ?P b = Some a)"
    unfolding par above_Suc by blast
  also have "\<dots> \<longleftrightarrow> Suc d < length (chain n ?P (Some r)) \<and> chain n ?P (Some r) ! Suc d = a"
    unfolding step [OF Suc.prems] using Suc.IH Suc.prems by auto
  finally show ?case .
qed

lemma rows_say_effective:
  assumes "distinct (map rr_id rows)" and "distinct (map (\<lambda>g. (gr_role g, gr_key g)) gs)"
  shows "rows_say rows gs c p e \<longleftrightarrow>
    (\<exists>i. snd (roleGraph rows (\<lambda>_. None) Map.empty) i = Some c \<and>
         effectiveFor i (fst (roleGraph rows (\<lambda>_. None) Map.empty)) (direct_grants gs (\<lambda>_. Map.empty)) p = Some e)"
    (is "_ \<longleftrightarrow> (\<exists>i. ?K i = Some c \<and> effectiveFor i ?P ?D p = Some e)")
proof -
  have code: "?K i = Some c \<longleftrightarrow> (\<exists>row \<in> set rows. rr_id row = i \<and> rr_code row = c)" for i
    unfolding roleGraph_codes [OF assms(1)]
    using find_case_iff [OF assms(1), of "\<lambda>x. Some (rr_code x)" i c] by simp
  have eff: "effectiveFor i ?P ?D p = Some e \<longleftrightarrow>
      (\<exists>d < 64. \<exists>a. above rows i d a \<and> granted gs a p e \<and>
        (\<forall>d' < d. \<forall>b e'. above rows i d' b \<longrightarrow> \<not> granted gs b p e'))" for i
  proof -
    let ?c = "chain 64 ?P (Some i)"
    have len: "length ?c \<le> 64" by (rule length_chain)
    have ab: "above rows i d a \<longleftrightarrow> d < length ?c \<and> ?c ! d = a" if "d < 64" for d a
      using above_chain [OF assms(1) that] .
    have "effectiveFor i ?P ?D p = Some e \<longleftrightarrow>
        (\<exists>d < length ?c. ?D (?c ! d) p = Some e \<and> (\<forall>j < d. ?D (?c ! j) p = None))"
      by (simp add: effectiveFor_eq nearest_Some_iff max_depth_def)
    also have "\<dots> \<longleftrightarrow> (\<exists>d < 64. \<exists>a. above rows i d a \<and> granted gs a p e \<and>
        (\<forall>d' < d. \<forall>b e'. above rows i d' b \<longrightarrow> \<not> granted gs b p e'))" (is "?L \<longleftrightarrow> ?R")
    proof
      assume ?L
      then obtain d where d: "d < length ?c" "?D (?c ! d) p = Some e" "\<forall>j < d. ?D (?c ! j) p = None" by blast
      have "d < 64" using d(1) len by linarith
      moreover have "above rows i d (?c ! d)" using ab [of d] d(1) \<open>d < 64\<close> by blast
      moreover have "granted gs (?c ! d) p e" using d(2) granted_iff [OF assms(2)] by blast
      moreover have "\<not> granted gs b p e'" if "d' < d" "above rows i d' b" for d' b e'
        using that ab [of d' b] \<open>d < 64\<close> d(3) granted_iff [OF assms(2), of b p e'] by auto
      ultimately show ?R by blast
    next
      assume ?R
      then obtain d a where d: "d < 64" "above rows i d a" "granted gs a p e"
        and n: "\<And>d' b e'. d' < d \<Longrightarrow> above rows i d' b \<Longrightarrow> \<not> granted gs b p e'" by blast
      have c: "d < length ?c" "?c ! d = a" using ab [of d a] d(1,2) by blast+
      have "?D (?c ! j) p = None" if "j < d" for j
        using n [OF that, of "?c ! j"] ab [of j "?c ! j"] that c(1) d(1) granted_iff [OF assms(2), of "?c ! j" p] by force
      then show ?L using c d(3) granted_iff [OF assms(2)] by blast
    qed
    finally show ?thesis .
  qed
  show ?thesis unfolding rows_say_def code eff by blast
qed

text \<open>
  C2. Server and SDK agree end to end. Whatever the order in which the server's map loops run, the decision the SDK takes
  on the compiled policy it received is the rule over the rows of the tables, whose keys are unique: ADMIN passes;
  otherwise the rows may not deny the permission to any role held and must grant it to some, where what the rows say of a
  role is the grant of the nearest role on its way up, itself first, that has one, within 64 levels.
\<close>

theorem sdk_decides_as_server_tables_say:
  assumes ids: "enumerates ids (snd (roleGraph role_rows (\<lambda>_. None) Map.empty))"
    and pks: "\<And>i. enumerates (pks i)
        (effectiveFor i (fst (roleGraph role_rows (\<lambda>_. None) Map.empty))
           (direct_grants grant_rows (\<lambda>_. Map.empty)))"
    and keys: "distinct (map rr_id role_rows)" "distinct (map (\<lambda>g. (gr_role g, gr_key g)) grant_rows)"
  shows "AllowWith (Some (Compile (CompilePolicy role_rows grant_rows ids pks))) roleKeys extraRole p \<longleftrightarrow>
     AdminRoleKey \<in> set roleKeys \<or>
     (\<forall>c\<in>held roleKeys extraRole. \<not> rows_say role_rows grant_rows c p EffectDeny) \<and>
     (\<exists>c\<in>held roleKeys extraRole. \<exists>e. e \<noteq> EffectDeny \<and> rows_say role_rows grant_rows c p e)"
proof -
  obtain parents keys where g: "roleGraph role_rows (\<lambda>_. None) Map.empty = (parents, keys)"
    by (cases "roleGraph role_rows (\<lambda>_. None) Map.empty")
  define direct where "direct = direct_grants grant_rows (\<lambda>_. Map.empty)"
  let ?rps = "CompilePolicy role_rows grant_rows ids pks"
  have rps: "?rps = compile_roles parents direct keys pks ids"
    by (simp add: CompilePolicy_def g direct_def)
  have ids': "i \<in> set ids \<longleftrightarrow> keys i \<noteq> None" for i
    using ids g by simp
  have pks': "q \<in> set (pks i) \<longleftrightarrow> effectiveFor i parents direct q \<noteq> None" for i q
    using pks [of i] g by (simp add: direct_def)
  have "denies (Compile ?rps) p c \<longleftrightarrow> rows_say role_rows grant_rows c p EffectDeny" for c
    unfolding denies_Compile rps compile_roles_sets rows_say_effective [OF keys]
    by (simp add: g direct_def [symmetric] Bex_def ids' pks') force
  moreover have "grants (Compile ?rps) p c \<longleftrightarrow>
      (\<exists>e. e \<noteq> EffectDeny \<and> rows_say role_rows grant_rows c p e)" for c
    unfolding grants_Compile rps compile_roles_sets rows_say_effective [OF keys]
    by (simp add: g direct_def [symmetric] Bex_def ids' pks') force
  ultimately show ?thesis by (simp add: AllowWith_iff)
qed

definition demo_roles :: "role_row list" where
  "demo_roles = [\<lparr>rr_id = ''1'', rr_code = ''base'', rr_parent = None\<rparr>,
                 \<lparr>rr_id = ''2'', rr_code = ''shop'', rr_parent = Some ''1''\<rparr>]"

definition demo_grants :: "grant_row list" where
  "demo_grants = [\<lparr>gr_role = ''1'', gr_key = ''GET:/x'', gr_effect = ''allow''\<rparr>,
                  \<lparr>gr_role = ''2'', gr_key = ''GET:/x'', gr_effect = ''deny''\<rparr>]"

definition demo_pks :: "uuid \<Rightarrow> string list" where
  "demo_pks i = (if i = ''1'' \<or> i = ''2'' then [''GET:/x''] else [])"

lemma demo_graph:
  "roleGraph demo_roles (\<lambda>_. None) Map.empty =
     ((\<lambda>_. None)(''2'' := Some ''1''), [''1'' \<mapsto> ''base'', ''2'' \<mapsto> ''shop''])"
  by (auto simp: demo_roles_def fun_eq_iff)

lemma demo_chain:
  "chain max_depth ((\<lambda>_. None)(''2'' := Some ''1'')) (Some i) = (if i = ''2'' then [''2'', ''1''] else [i])"
proof -
  have "chain (Suc (Suc (Suc n))) ((\<lambda>_. None)(''2'' := Some ''1'')) (Some i) =
      (if i = ''2'' then [''2'', ''1''] else [i])" for n
    by simp
  from this [of 61] show ?thesis by (simp add: max_depth_def)
qed

lemma demo_direct:
  "direct_grants demo_grants (\<lambda>_. Map.empty) =
     (\<lambda>_. Map.empty)(''1'' := [''GET:/x'' \<mapsto> ''allow''], ''2'' := [''GET:/x'' \<mapsto> ''deny''])"
  by (simp add: demo_grants_def)

lemma demo_effective:
  "effectiveFor i ((\<lambda>_. None)(''2'' := Some ''1'')) (direct_grants demo_grants (\<lambda>_. Map.empty)) =
     (if i = ''1'' then [''GET:/x'' \<mapsto> ''allow'']
      else if i = ''2'' then [''GET:/x'' \<mapsto> ''deny''] else Map.empty)"
  by (rule ext) (simp add: effectiveFor_eq demo_chain demo_direct split: option.split)

lemma demo_keys: "distinct (map rr_id demo_roles)" "distinct (map (\<lambda>g. (gr_role g, gr_key g)) demo_grants)"
  by (simp_all add: demo_roles_def demo_grants_def)

lemma demo_rows_say:
  "rows_say demo_roles demo_grants c p e \<longleftrightarrow>
     p = ''GET:/x'' \<and> (c = ''base'' \<and> e = ''allow'' \<or> c = ''shop'' \<and> e = ''deny'')"
proof -
  let ?P = "\<lambda>i. [''1'' \<mapsto> ''base'', ''2'' \<mapsto> ''shop''] i = Some c \<and>
           (if i = ''1'' then [''GET:/x'' \<mapsto> ''allow'']
            else if i = ''2'' then [''GET:/x'' \<mapsto> ''deny''] else Map.empty) p = Some e"
  have eq: "rows_say demo_roles demo_grants c p e \<longleftrightarrow> (\<exists>i. ?P i)"
    unfolding rows_say_effective [OF demo_keys] demo_graph fst_conv snd_conv demo_effective ..
  have only: "i = ''1'' \<or> i = ''2''" if "?P i" for i
    using that by (simp split: if_splits)
  have "(\<exists>i. ?P i) \<longleftrightarrow> ?P ''1'' \<or> ?P ''2''" using only by blast
  also have "\<dots> \<longleftrightarrow> p = ''GET:/x'' \<and> (c = ''base'' \<and> e = ''allow'' \<or> c = ''shop'' \<and> e = ''deny'')"
    by auto
  finally show ?thesis using eq by blast
qed

theorem sdk_decides_as_server_tables_say_witness:
  "\<not> AllowWith (Some (Compile (CompilePolicy demo_roles demo_grants [''2'', ''1''] demo_pks))) [''shop''] [] ''GET:/x''
   \<and> AllowWith (Some (Compile (CompilePolicy demo_roles demo_grants [''2'', ''1''] demo_pks))) [''base''] [] ''GET:/x''"
proof -
  have ids: "enumerates [''2'', ''1''] (snd (roleGraph demo_roles (\<lambda>_. None) Map.empty))"
    by (auto simp: demo_graph enumerates_def)
  have pks: "enumerates (demo_pks i)
      (effectiveFor i (fst (roleGraph demo_roles (\<lambda>_. None) Map.empty))
         (direct_grants demo_grants (\<lambda>_. Map.empty)))" for i
    unfolding demo_graph fst_conv demo_effective by (simp add: demo_pks_def enumerates_def)
  show ?thesis
    unfolding sdk_decides_as_server_tables_say [OF ids pks demo_keys] demo_rows_say
    by (simp add: held_def AdminRoleKey_def EffectDeny_def)
qed

section \<open>Cycles in the role graph\<close>

definition parents_of :: "(uuid \<rightharpoonup> uuid option) \<Rightarrow> parent_map" where
  "parents_of tbl r = (case tbl r of Some (Some q) \<Rightarrow> Some q | _ \<Rightarrow> None)"

definition parent_rel :: "parent_map \<Rightarrow> (uuid \<times> uuid) set" where
  "parent_rel parents = {(a, b). parents a = Some b}"

lemma wouldCycle_loop_eq:
  "wouldCycle_loop n tbl i cur \<longleftrightarrow> i \<in> set (chain n (parents_of tbl) cur)"
proof (induction n tbl i cur rule: wouldCycle_loop.induct)
  case (3 n tbl i c)
  show ?case
  proof (cases "tbl c")
    case None
    then have "chain n (parents_of tbl) (parents_of tbl c) = []"
      by (cases n) (simp_all add: parents_of_def)
    with None show ?thesis by auto
  next
    case (Some nx)
    then have "parents_of tbl c = nx" by (simp add: parents_of_def split: option.split)
    with 3 Some show ?thesis by auto
  qed
qed auto

lemma chain_reach:
  "x \<in> set (chain n parents (Some r)) \<Longrightarrow> (r, x) \<in> (parent_rel parents)\<^sup>*"
proof (induction n arbitrary: r)
  case (Suc n)
  show ?case
  proof (cases "x = r")
    case False
    with Suc.prems have x: "x \<in> set (chain n parents (parents r))" by simp
    then obtain q where q: "parents r = Some q" by (cases "parents r"; cases n) auto
    with x have "(q, x) \<in> (parent_rel parents)\<^sup>*" using Suc.IH by simp
    moreover have "(r, q) \<in> parent_rel parents" using q by (simp add: parent_rel_def)
    ultimately show ?thesis by (rule converse_rtrancl_into_rtrancl [rotated])
  qed simp
qed simp

lemma reach_chain:
  assumes "(r, x) \<in> (parent_rel parents)\<^sup>*" and "length (chain n parents (Some r)) < n"
  shows "x \<in> set (chain n parents (Some r))"
  using assms
proof (induction arbitrary: n rule: converse_rtrancl_induct)
  case base
  then show ?case by (cases n) auto
next
  case (step r q)
  then obtain m where n: "n = Suc m" by (cases n) auto
  from step.hyps(1) have q: "parents r = Some q" by (simp add: parent_rel_def)
  then have "length (chain m parents (Some q)) < m" using step.prems n by simp
  then have "x \<in> set (chain m parents (Some q))" by (rule step.IH)
  then show ?case using n q by simp
qed

lemma acyclic_insert_parent:
  assumes "acyclic (parent_rel parents)" and "(q, r) \<notin> (parent_rel parents)\<^sup>*"
  shows "acyclic (parent_rel (parents(r := Some q)))"
proof -
  have "parent_rel (parents(r := Some q)) \<subseteq> insert (r, q) (parent_rel parents)"
    by (auto simp: parent_rel_def split: if_splits)
  moreover have "acyclic (insert (r, q) (parent_rel parents))"
    using assms by (simp add: acyclic_insert)
  ultimately show ?thesis by (rule acyclic_subset [rotated])
qed

text \<open>
  C3. On a role table whose inheritance chains end within 63 roles, \<^verbatim>\<open>wouldCycle\<close> answers
  exactly: it reports a cycle if and only if the new child is reachable from the candidate
  parent. If it reports none, writing that parent keeps an acyclic role graph acyclic.
\<close>

theorem wouldCycle_exact_and_safe:
  assumes short: "length (chain 64 (parents_of tbl) (Some parentID)) < 64"
    and acyc: "acyclic (parent_rel (parents_of tbl))"
  shows "(wouldCycle tbl i parentID \<longleftrightarrow> (parentID, i) \<in> (parent_rel (parents_of tbl))\<^sup>*) \<and>
    (\<not> wouldCycle tbl i parentID \<longrightarrow> acyclic (parent_rel ((parents_of tbl)(i := Some parentID))))"
proof -
  have eq: "wouldCycle tbl i parentID \<longleftrightarrow> (parentID, i) \<in> (parent_rel (parents_of tbl))\<^sup>*"
    unfolding wouldCycle_def wouldCycle_loop_eq
    using chain_reach reach_chain [OF _ short] by blast
  with acyclic_insert_parent [OF acyc, of parentID i] show ?thesis by blast
qed

theorem wouldCycle_exact_and_safe_witness:
  "wouldCycle [''a'' \<mapsto> Some ''b'', ''b'' \<mapsto> None] ''b'' ''a'' \<and>
   (''a'', ''b'') \<in> (parent_rel (parents_of [''a'' \<mapsto> Some ''b'', ''b'' \<mapsto> None]))\<^sup>*"
proof -
  let ?t = "[''a'' \<mapsto> Some ''b'', ''b'' \<mapsto> None] :: uuid \<rightharpoonup> uuid option"
  have rel: "parent_rel (parents_of ?t) = {(''a'', ''b'')}"
    by (auto simp: parent_rel_def parents_of_def split: if_splits option.splits)
  have short: "length (chain 64 (parents_of ?t) (Some ''a'')) < 64"
    by (simp add: numeral_eq_Suc parents_of_def)
  have acyc: "acyclic (parent_rel (parents_of ?t))" by (simp add: rel acyclic_insert wf_acyclic)
  have "(''a'', ''b'') \<in> (parent_rel (parents_of ?t))\<^sup>*" by (auto simp: rel)
  then show ?thesis using wouldCycle_exact_and_safe [OF short acyc, of "''b''"] by simp
qed

lemma chain_replicate:
  "chain n (\<lambda>r. if r = [] then None else Some (tl r)) (Some (replicate (n + m) c)) =
     map (\<lambda>k. replicate (n + m - k) c) [0..<n]"
proof (induction n arbitrary: m)
  case (Suc n)
  have "tl (replicate (Suc n + m) c) = replicate (n + m) c" by simp
  then show ?case using Suc.IH [of m] by (simp add: upt_conv_Cons map_Suc_upt [symmetric] del: upt_Suc)
qed simp

text \<open>
  Beyond 64 levels the check is blind: there is a role table in which the candidate
  parent already descends from the role being edited, yet \<^verbatim>\<open>wouldCycle\<close> reports no cycle.
\<close>

theorem wouldCycle_blind_beyond_64:
  "\<exists>tbl i parentID. \<not> wouldCycle tbl i parentID \<and> (parentID, i) \<in> (parent_rel (parents_of tbl))\<^sup>+"
proof -
  define tbl :: "uuid \<rightharpoonup> uuid option" where "tbl r = Some (if r = [] then None else Some (tl r))" for r
  define q where "q = replicate 64 CHR ''a''"
  have par: "parents_of tbl = (\<lambda>r. if r = [] then None else Some (tl r))"
    by (auto simp: parents_of_def tbl_def fun_eq_iff)
  have "[] \<notin> set (chain 64 (parents_of tbl) (Some q))"
    using chain_replicate [of 64 0 "CHR ''a''"] by (auto simp: par q_def)
  then have "\<not> wouldCycle tbl [] q" by (simp add: wouldCycle_def wouldCycle_loop_eq)
  moreover have "n > 0 \<Longrightarrow> (replicate n CHR ''a'', []) \<in> (parent_rel (parents_of tbl))\<^sup>+" for n
  proof (induction n)
    case (Suc n)
    have e: "(replicate (Suc n) CHR ''a'', replicate n CHR ''a'') \<in> parent_rel (parents_of tbl)"
      by (simp add: parent_rel_def par)
    show ?case
    proof (cases "n = 0")
      case True
      with e show ?thesis by (auto intro: r_into_trancl)
    next
      case False
      then show ?thesis using e Suc.IH by (blast intro: trancl_into_trancl2)
    qed
  qed simp
  then have "(q, []) \<in> (parent_rel (parents_of tbl))\<^sup>+" by (simp add: q_def)
  ultimately show ?thesis by blast
qed

end
