(* ===== verification/Errors.thy ===== *)
theory Errors
  imports Prelude
begin

text \<open>
  The error contract of the platform: the registry of error codes
  (\<^verbatim>\<open>internal/domain/codes.go\<close>), its mapping to HTTP statuses
  (\<^verbatim>\<open>internal/httpapi/respond.go\<close>) and gRPC statuses (\<^verbatim>\<open>internal/grpcapi/errors.go\<close>), and the
  SDK's translation back (\<^verbatim>\<open>sdk/auth.go\<close>, \<^verbatim>\<open>sdk/error.go\<close>, \<^verbatim>\<open>sdk/notify.go\<close>, \<^verbatim>\<open>sdk/imgateway.go\<close>).
  The lemmas show that the two transports agree on every registered code, and what a
  caller of the SDK sees of a server error.
\<close>

section \<open>The registry\<close>

definition codeSentinels :: "(string \<times> sentinel) list" where
  "codeSentinels = [
    (''CREDENTIAL_INVALID'', ErrInvalidCredential),
    (''CODE_INVALID'', ErrInvalidCredential),
    (''ACCOUNT_FROZEN'', ErrForbidden),
    (''ACCOUNT_UNAVAILABLE'', ErrForbidden),
    (''TOKEN_INVALID'', ErrUnauthorized),
    (''APP_DISABLED'', ErrForbidden),
    (''APP_NOT_FOUND'', ErrNotFound),
    (''APP_CREDENTIAL_INVALID'', ErrInvalidCredential),
    (''APP_MUST_BE_DISABLED'', ErrConflict),
    (''CONNECTOR_DISABLED'', ErrForbidden),
    (''CONNECTOR_UNKNOWN'', ErrNotFound),
    (''RATE_LIMITED'', ErrRateLimited),
    (''ADMIN_CREDENTIAL_INVALID'', ErrInvalidCredential),
    (''ADMIN_DISABLED'', ErrForbidden),
    (''ADMIN_SESSION_INVALID'', ErrUnauthorized),
    (''ADMIN_OLD_PASSWORD_WRONG'', ErrInvalidArgument),
    (''INVALID_ARGUMENT'', ErrInvalidArgument),
    (''CONNECTOR_CONFIG_INVALID'', ErrInvalidArgument),
    (''CONFIG_VALUE_INVALID'', ErrInvalidArgument),
    (''CONFIG_TYPE_INVALID'', ErrInvalidArgument),
    (''PHONE_INVALID'', ErrInvalidArgument),
    (''PASSWORD_TOO_SHORT'', ErrInvalidArgument),
    (''PASSWORD_TOO_LONG'', ErrInvalidArgument),
    (''CODE_TAKEN'', ErrConflict),
    (''UNION_KEY_CONFLICT'', ErrConflict),
    (''CONNECTOR_ALREADY_REGISTERED'', ErrConflict),
    (''CONFIG_VERSION_CONFLICT'', ErrConflict),
    (''NICKNAME_INVALID'', ErrInvalidArgument),
    (''AVATAR_INVALID'', ErrInvalidArgument),
    (''USER_NOT_FOUND'', ErrNotFound),
    (''IDENTITY_NOT_FOUND'', ErrNotFound),
    (''UNION_KEY_NOT_FOUND'', ErrNotFound),
    (''SESSION_NOT_FOUND'', ErrNotFound),
    (''CONNECTOR_NOT_CONFIGURED'', ErrNotFound),
    (''NOTIFY_PROVIDER_MISSING'', ErrNotFound),
    (''CONFIG_VERSION_NOT_FOUND'', ErrNotFound),
    (''AVATAR_NOT_FOUND'', ErrNotFound),
    (''ROUTE_NOT_FOUND'', ErrNotFound),
    (''ROLE_NOT_FOUND'', ErrNotFound),
    (''ROLE_CODE_TAKEN'', ErrConflict),
    (''ROLE_CYCLE'', ErrInvalidArgument),
    (''PERMISSION_NOT_FOUND'', ErrNotFound),
    (''PERMISSION_KEY_TAKEN'', ErrConflict),
    (''PERMISSION_DENIED'', ErrForbidden),
    (''ACCESS_KEY_INVALID'', ErrUnauthorized),
    (''ACCESS_KEY_DISABLED'', ErrForbidden),
    (''ACCESS_KEY_EXPIRED'', ErrForbidden),
    (''ACCESS_KEY_NOT_FOUND'', ErrNotFound),
    (''ROLE_IN_USE'', ErrConflict),
    (''ROLE_BUILTIN'', ErrInvalidArgument),
    (''NOTIFY_TEMPLATE_NOT_FOUND'', ErrNotFound),
    (''NOTIFY_TEMPLATE_DISABLED'', ErrForbidden),
    (''NOTIFY_TEMPLATE_CODE_TAKEN'', ErrConflict),
    (''NOTIFY_TEMPLATE_INVALID'', ErrInvalidArgument),
    (''NOTIFY_PARAMS_INVALID'', ErrInvalidArgument),
    (''NOTIFY_RECIPIENT_INVALID'', ErrInvalidArgument),
    (''NOTIFY_IN_PROGRESS'', ErrConflict),
    (''NOTIFY_PROVIDER_NOT_FOUND'', ErrNotFound),
    (''NOTIFY_PROVIDER_IN_USE'', ErrConflict),
    (''NOTIFY_PROVIDER_INVALID'', ErrInvalidArgument),
    (''NOTIFY_LINK_INVALID'', ErrInvalidArgument),
    (''NOTIFY_SEND_FAILED'', ErrInternal),
    (''VERIFY_TEMPLATE_UNAVAILABLE'', ErrInternal),
    (''OAUTH_STATE_INVALID'', ErrInvalidCredential),
    (''OAUTH_TICKET_INVALID'', ErrInvalidCredential),
    (''RETURN_URL_NOT_ALLOWED'', ErrInvalidArgument),
    (''DESKTOP_MODE_DISABLED'', ErrForbidden),
    (''WECHAT_UPSTREAM_FAILED'', ErrInternal),
    (''PUBLIC_URL_MISSING'', ErrInternal),
    (''INTERNAL'', ErrInternal)]"

definition SentinelFor :: "string \<Rightarrow> sentinel option" where
  "SentinelFor code = map_of codeSentinels code"

definition AllCodes :: "string list" where
  "AllCodes = map fst codeSentinels"

definition CodeInternal :: string where "CodeInternal = ''INTERNAL''"

definition CodeInvalidArgument :: string where "CodeInvalidArgument = ''INVALID_ARGUMENT''"

section \<open>Transports\<close>

definition StatusFor :: "sentinel \<Rightarrow> nat" where
  "StatusFor s =
     (case s of
        ErrNotFound \<Rightarrow> 404
      | ErrInvalidCredential \<Rightarrow> 401
      | ErrUnauthorized \<Rightarrow> 401
      | ErrForbidden \<Rightarrow> 403
      | ErrConflict \<Rightarrow> 409
      | ErrInvalidArgument \<Rightarrow> 400
      | ErrRateLimited \<Rightarrow> 429
      | _ \<Rightarrow> 500)"

text \<open>\<^verbatim>\<open>writeError\<close>: the status and the code of the body it sends.\<close>

definition writeError :: "goerr \<Rightarrow> nat \<times> string" where
  "writeError err =
     (case err of
        DomainErr s c \<Rightarrow> (StatusFor s, c)
      | _ \<Rightarrow> (500, CodeInternal))"

text \<open>The gRPC codes the sources name.\<close>

datatype grpc_code =
    Canceled
  | DeadlineExceeded
  | NotFound
  | AlreadyExists
  | PermissionDenied
  | Unauthenticated
  | InvalidArgument
  | ResourceExhausted
  | FailedPrecondition
  | Internal
  | Unavailable
  | Unknown
  | Aborted
  | OutOfRange
  | Unimplemented
  | DataLoss

definition CodeFor :: "sentinel \<Rightarrow> grpc_code" where
  "CodeFor s =
     (case s of
        ErrNotFound \<Rightarrow> NotFound
      | ErrInvalidCredential \<Rightarrow> Unauthenticated
      | ErrUnauthorized \<Rightarrow> Unauthenticated
      | ErrForbidden \<Rightarrow> PermissionDenied
      | ErrConflict \<Rightarrow> AlreadyExists
      | ErrInvalidArgument \<Rightarrow> InvalidArgument
      | ErrRateLimited \<Rightarrow> ResourceExhausted
      | _ \<Rightarrow> Internal)"

text \<open>
  A gRPC status on the wire: its code and the \<^verbatim>\<open>ErrorDetail\<close> attached to it (its code
  field), if any. Attaching the detail can fail in \<^verbatim>\<open>StatusFrom\<close>; \<^verbatim>\<open>attach_ok\<close> says whether
  it did.
\<close>

record grpc_status =
  st_code :: grpc_code
  st_detail :: "string option"

definition StatusFrom :: "bool \<Rightarrow> goerr option \<Rightarrow> grpc_status option" where
  "StatusFrom attach_ok err =
     (case err of
        None \<Rightarrow> None
      | Some (DomainErr s c) \<Rightarrow>
          Some \<lparr>st_code = CodeFor s, st_detail = (if attach_ok then Some c else None)\<rparr>
      | Some ContextCanceled \<Rightarrow> Some \<lparr>st_code = Canceled, st_detail = None\<rparr>
      | Some ContextDeadlineExceeded \<Rightarrow> Some \<lparr>st_code = DeadlineExceeded, st_detail = None\<rparr>
      | Some (Wrapped m) \<Rightarrow> Some \<lparr>st_code = Internal, st_detail = None\<rparr>)"

section \<open>The SDK's view\<close>

datatype sdk_sentinel =
    SdkUnauthorized
  | SdkUnavailable
  | SdkInvalidArgument
  | SdkRateLimited

text \<open>
  What the SDK returns: the structured \<^verbatim>\<open>*Error\<close> with its code and sentinel (possibly nil), a
  bare sentinel joined to the gRPC error, the gRPC error itself, or the sentinel
  \<^verbatim>\<open>ErrIMNotAvailable\<close> of the gateway client.
\<close>

datatype sdk_err =
    SdkError string "sdk_sentinel option"
  | SdkJoined sdk_sentinel
  | SdkRaw grpc_code
  | SdkIMNotAvailable

definition errorFrom :: "grpc_status \<Rightarrow> sdk_sentinel option \<Rightarrow> sdk_err option" where
  "errorFrom st sentinel =
     (case st_detail st of
        Some c \<Rightarrow> if c = [] then None else Some (SdkError c sentinel)
      | None \<Rightarrow> None)"

definition translate_sentinel :: "grpc_code \<Rightarrow> sdk_sentinel option" where
  "translate_sentinel c =
     (case c of
        Unauthenticated \<Rightarrow> Some SdkUnauthorized
      | PermissionDenied \<Rightarrow> Some SdkUnauthorized
      | NotFound \<Rightarrow> Some SdkUnauthorized
      | Unavailable \<Rightarrow> Some SdkUnavailable
      | DeadlineExceeded \<Rightarrow> Some SdkUnavailable
      | Internal \<Rightarrow> Some SdkUnavailable
      | InvalidArgument \<Rightarrow> Some SdkInvalidArgument
      | ResourceExhausted \<Rightarrow> Some SdkRateLimited
      | _ \<Rightarrow> None)"

definition translate_with :: "(grpc_code \<Rightarrow> sdk_sentinel option) \<Rightarrow> grpc_status \<Rightarrow> sdk_err" where
  "translate_with sent st =
     (case errorFrom st (sent (st_code st)) of
        Some fe \<Rightarrow> fe
      | None \<Rightarrow>
          (case sent (st_code st) of
             None \<Rightarrow> SdkRaw (st_code st)
           | Some s \<Rightarrow> SdkJoined s))"

definition translate :: "grpc_status option \<Rightarrow> sdk_err option" where
  "translate err = map_option (translate_with translate_sentinel) err"

definition notify_sentinel :: "grpc_code \<Rightarrow> sdk_sentinel option" where
  "notify_sentinel c =
     (case c of
        Unauthenticated \<Rightarrow> Some SdkUnauthorized
      | Unavailable \<Rightarrow> Some SdkUnavailable
      | DeadlineExceeded \<Rightarrow> Some SdkUnavailable
      | InvalidArgument \<Rightarrow> Some SdkInvalidArgument
      | _ \<Rightarrow> None)"

definition translateNotify :: "grpc_status option \<Rightarrow> sdk_err option" where
  "translateNotify err = map_option (translate_with notify_sentinel) err"

definition translateIM :: "grpc_status option \<Rightarrow> sdk_err option" where
  "translateIM err =
     (case err of
        None \<Rightarrow> None
      | Some st \<Rightarrow>
          if st_code st = FailedPrecondition then Some SdkIMNotAvailable
          else translate (Some st))"

fun sdk_err_sentinel :: "sdk_err \<Rightarrow> sdk_sentinel option" where
  "sdk_err_sentinel (SdkError c s) = s"
| "sdk_err_sentinel (SdkJoined s) = Some s"
| "sdk_err_sentinel _ = None"

section \<open>Agreement\<close>

text \<open>The HTTP status a gRPC code stands for.\<close>

fun http_of_grpc :: "grpc_code \<Rightarrow> nat" where
  "http_of_grpc NotFound = 404"
| "http_of_grpc Unauthenticated = 401"
| "http_of_grpc PermissionDenied = 403"
| "http_of_grpc AlreadyExists = 409"
| "http_of_grpc InvalidArgument = 400"
| "http_of_grpc ResourceExhausted = 429"
| "http_of_grpc _ = 500"

lemma CodeFor_StatusFor: "http_of_grpc (CodeFor s) = StatusFor s"
  by (cases s) (simp_all add: CodeFor_def StatusFor_def)

lemma AllCodes_distinct: "distinct AllCodes"
  by (simp add: AllCodes_def codeSentinels_def)

lemma AllCodes_nonempty_strings: "[] \<notin> set AllCodes"
  by (simp add: AllCodes_def codeSentinels_def)

lemma SentinelFor_AllCodes: "c \<in> set AllCodes \<longleftrightarrow> SentinelFor c \<noteq> None"
  by (simp add: AllCodes_def SentinelFor_def map_of_eq_None_iff)

text \<open>
  The two transports say the same of every error: whatever the handler returned, the
  HTTP status is the one the gRPC code stands for (a cancelled or timed-out call counts as
  a server error over HTTP), and the error code in the HTTP body is the one in the gRPC
  detail whenever that detail could be attached. An error that is not a domain error never
  leaks its own text: its body says \<^verbatim>\<open>INTERNAL\<close> and it carries no detail.
\<close>

theorem transports_agree:
  "\<exists>st. StatusFrom True (Some err) = Some st \<and>
     http_of_grpc (st_code st) = fst (writeError err) \<and>
     (case err_code err of
        Some c \<Rightarrow> st_detail st = Some c \<and> snd (writeError err) = c
      | None \<Rightarrow> st_detail st = None \<and> snd (writeError err) = CodeInternal)"
  by (cases err) (simp_all add: StatusFrom_def writeError_def CodeFor_StatusFor)

text \<open>
  C4. A domain error with a non-empty code reaches the SDK's caller intact: the code survives
  the round trip through the gRPC status, and the sentinel the caller can test is
  unauthorized for the not-found, credential, authorisation and permission classes,
  unavailable for internal errors, and its own class for invalid arguments and rate limits;
  a conflict carries no sentinel.
\<close>

theorem sdk_error_roundtrip:
  assumes "c \<noteq> []"
  shows "translate (StatusFrom True (Some (DomainErr s c))) =
    Some (SdkError c
      (case s of
         ErrNotFound \<Rightarrow> Some SdkUnauthorized
       | ErrInvalidCredential \<Rightarrow> Some SdkUnauthorized
       | ErrUnauthorized \<Rightarrow> Some SdkUnauthorized
       | ErrForbidden \<Rightarrow> Some SdkUnauthorized
       | ErrConflict \<Rightarrow> None
       | ErrInvalidArgument \<Rightarrow> Some SdkInvalidArgument
       | ErrRateLimited \<Rightarrow> Some SdkRateLimited
       | ErrInternal \<Rightarrow> Some SdkUnavailable))"
  using assms
  by (cases s) (simp_all add: translate_def translate_with_def StatusFrom_def errorFrom_def
      CodeFor_def translate_sentinel_def)

theorem sdk_error_roundtrip_witness:
  "translate (StatusFrom True (Some (DomainErr ErrForbidden ''ACCESS_KEY_EXPIRED''))) =
     Some (SdkError ''ACCESS_KEY_EXPIRED'' (Some SdkUnauthorized))"
  using sdk_error_roundtrip [of "''ACCESS_KEY_EXPIRED''" ErrForbidden] by simp

end
