(* ===== verification/Domain.thy ===== *)
theory Domain
  imports Errors
begin

text \<open>
  The value types of \<^verbatim>\<open>internal/domain\<close> and the rules that live on them: session policies
  and their consistency, session lifetimes, IM settings, the user state machine, avatars,
  access-key and permission states, notification channels.
\<close>

abbreviation invalid_argument :: goerr where
  "invalid_argument \<equiv> DomainErr ErrInvalidArgument CodeInvalidArgument"

section \<open>Session policy (\<^verbatim>\<open>application.go\<close>)\<close>

record SessionPolicy =
  IdleTimeoutSeconds :: int
  IdleTimeoutMobileSeconds :: int
  MaxLifetimeSeconds :: int
  RotateIntervalSeconds :: int
  ExtendIntervalSeconds :: int
  TokenCacheTTLSeconds :: int

definition DefaultSessionPolicy :: SessionPolicy where
  "DefaultSessionPolicy =
     \<lparr>IdleTimeoutSeconds = 7 * 24 * 60 * 60,
      IdleTimeoutMobileSeconds = 30 * 24 * 60 * 60,
      MaxLifetimeSeconds = 90 * 24 * 60 * 60,
      RotateIntervalSeconds = 24 * 60 * 60,
      ExtendIntervalSeconds = 10 * 60,
      TokenCacheTTLSeconds = 30\<rparr>"

text \<open>The fields are \<^verbatim>\<open>int32\<close>: what the type of the record guarantees.\<close>

definition policy_int32 :: "SessionPolicy \<Rightarrow> bool" where
  "policy_int32 p \<longleftrightarrow>
     in_int32 (IdleTimeoutSeconds p) \<and> in_int32 (IdleTimeoutMobileSeconds p) \<and>
     in_int32 (MaxLifetimeSeconds p) \<and> in_int32 (RotateIntervalSeconds p) \<and>
     in_int32 (ExtendIntervalSeconds p) \<and> in_int32 (TokenCacheTTLSeconds p)"

text \<open>\<^verbatim>\<open>Validate\<close> returns the error of the first check that fails, or nil.\<close>

definition SessionPolicy_Validate :: "SessionPolicy \<Rightarrow> goerr option" where
  "SessionPolicy_Validate p =
     (if IdleTimeoutSeconds p \<le> 0 then Some invalid_argument
      else if IdleTimeoutMobileSeconds p < 0 then Some invalid_argument
      else if MaxLifetimeSeconds p \<le> 0 then Some invalid_argument
      else if RotateIntervalSeconds p \<le> 0 then Some invalid_argument
      else if ExtendIntervalSeconds p \<le> 0 then Some invalid_argument
      else if TokenCacheTTLSeconds p \<le> 0 then Some invalid_argument
      else if RotateIntervalSeconds p > MaxLifetimeSeconds p then Some invalid_argument
      else if ExtendIntervalSeconds p \<ge> IdleTimeoutSeconds p then Some invalid_argument
      else if TokenCacheTTLSeconds p > IdleTimeoutSeconds p then Some invalid_argument
      else None)"

definition IdleTimeoutFor :: "SessionPolicy \<Rightarrow> bool \<Rightarrow> int" where
  "IdleTimeoutFor p mobile =
     (if mobile \<and> IdleTimeoutMobileSeconds p > 0 then dur_seconds (IdleTimeoutMobileSeconds p)
      else dur_seconds (IdleTimeoutSeconds p))"

definition MaxLifetime :: "SessionPolicy \<Rightarrow> int" where
  "MaxLifetime p = dur_seconds (MaxLifetimeSeconds p)"

definition RotateInterval :: "SessionPolicy \<Rightarrow> int" where
  "RotateInterval p = dur_seconds (RotateIntervalSeconds p)"

definition ExtendInterval :: "SessionPolicy \<Rightarrow> int" where
  "ExtendInterval p = dur_seconds (ExtendIntervalSeconds p)"

section \<open>IM settings and applications (\<^verbatim>\<open>application.go\<close>)\<close>

record IMBizAuth =
  VerifyURL :: string
  TimeoutMs :: int
  CacheSize :: int

record IMConfig =
  im_Enabled :: bool
  ConnPolicy :: string
  ConnLimit :: int
  AllowGuest :: bool
  GuestIPRate :: int
  BizAuth :: "IMBizAuth option"

definition IMConnPolicyReplace :: string where "IMConnPolicyReplace = ''replace''"

definition IMConnPolicyReject :: string where "IMConnPolicyReject = ''reject''"

definition IMConnPolicyLimit :: string where "IMConnPolicyLimit = ''limit''"

definition DefaultIMConfig :: IMConfig where
  "DefaultIMConfig =
     \<lparr>im_Enabled = False, ConnPolicy = IMConnPolicyReplace, ConnLimit = 5,
      AllowGuest = False, GuestIPRate = 20, BizAuth = None\<rparr>"

definition IMConfig_Validate :: "IMConfig \<Rightarrow> goerr option" where
  "IMConfig_Validate c =
     (if \<not> im_Enabled c then None
      else if ConnPolicy c = IMConnPolicyLimit \<and> ConnLimit c < 1 then Some invalid_argument
      else if ConnPolicy c \<notin> {IMConnPolicyReplace, IMConnPolicyReject, IMConnPolicyLimit}
        then Some invalid_argument
      else if AllowGuest c \<and> GuestIPRate c < 1 then Some invalid_argument
      else case BizAuth c of
        None \<Rightarrow> None
      | Some b \<Rightarrow>
          if VerifyURL b = [] then Some invalid_argument
          else if TimeoutMs b \<le> 0 then Some invalid_argument
          else if CacheSize b \<le> 0 then Some invalid_argument
          else None)"

record Application =
  app_ID :: uuid
  app_Name :: string
  app_Code :: string
  app_AppID :: string
  app_Status :: string
  app_Session :: SessionPolicy
  CookieDomain :: string
  DefaultRoleKey :: string
  RedirectURIs :: "string list"
  GrantTypes :: "string list"
  app_IM :: IMConfig
  app_CreatedAt :: int
  app_UpdatedAt :: int

section \<open>Sessions (\<^verbatim>\<open>session.go\<close>)\<close>

record Session =
  sess_ID :: string
  Token :: string
  sess_UserID :: uuid
  sess_AppID :: uuid
  FirstAuthAt :: int
  IssuedAt :: int
  LastExtendedAt :: int
  IdleExpiresAt :: int
  sess_IP :: string
  sess_UA :: string
  Mobile :: bool
  Roles :: "string list"
  Epoch :: int

definition MaxExpiresAt :: "Session \<Rightarrow> SessionPolicy \<Rightarrow> int" where
  "MaxExpiresAt s p = wrap64 (FirstAuthAt s + wrap64 (MaxLifetimeSeconds p * 1000))"

definition RemainingAt :: "Session \<Rightarrow> int \<Rightarrow> SessionPolicy \<Rightarrow> int" where
  "RemainingAt s now p =
     (let remain = wrap64 (IdleExpiresAt s - now);
          maxRemain = wrap64 (MaxExpiresAt s p - now);
          remain = (if maxRemain < remain then maxRemain else remain)
      in if remain \<le> 0 then 0 else dur_millis remain)"

definition EventKindAccessKeyChanged :: string where "EventKindAccessKeyChanged = ''access_key_changed''"

definition EventKindPolicyChanged :: string where "EventKindPolicyChanged = ''policy_changed''"

record RevokeEvent =
  ev_Tokens :: "string list"
  ev_UserIDs :: "uuid list"
  ev_AppID :: uuid
  ev_Reason :: string
  ev_At :: int
  ev_Kind :: string
  ev_AccessKeyID :: string

section \<open>Users (\<^verbatim>\<open>user.go\<close>)\<close>

definition UserStatusActive :: string where "UserStatusActive = ''ACTIVE''"

definition UserStatusFrozen :: string where "UserStatusFrozen = ''FROZEN''"

definition UserStatusPendingDelete :: string where "UserStatusPendingDelete = ''PENDING_DELETE''"

definition UserStatusDeleted :: string where "UserStatusDeleted = ''DELETED''"

definition userTransitions :: "string \<Rightarrow> (string \<rightharpoonup> bool)" where
  "userTransitions = (\<lambda>_. Map.empty)
     (UserStatusActive := [UserStatusFrozen \<mapsto> True, UserStatusPendingDelete \<mapsto> True],
      UserStatusFrozen := [UserStatusActive \<mapsto> True],
      UserStatusPendingDelete := [UserStatusActive \<mapsto> True, UserStatusDeleted \<mapsto> True])"

definition CanTransitionUserStatus :: "string \<Rightarrow> string \<Rightarrow> bool" where
  "CanTransitionUserStatus from to = (userTransitions from to = Some True)"

record User =
  user_ID :: uuid
  PasswordHash :: string
  Nickname :: string
  AvatarURL :: string
  user_AvatarHash :: string
  Gender :: string
  user_Status :: string
  DeleteSubmittedAt :: int
  user_CreatedAt :: int
  user_UpdatedAt :: int

definition ValidGender :: "string \<Rightarrow> bool" where
  "ValidGender g \<longleftrightarrow> g = [] \<or> g = ''MALE'' \<or> g = ''FEMALE''"

definition CanLogin :: "User \<Rightarrow> bool" where
  "CanLogin u \<longleftrightarrow> user_Status u = UserStatusActive \<or> user_Status u = UserStatusPendingDelete"

section \<open>Avatars (\<^verbatim>\<open>avatar.go\<close>)\<close>

definition AvatarMaxBytes :: nat where "AvatarMaxBytes = 2 ^ 20"

definition avatarHashLen :: nat where "avatarHashLen = 32"

text \<open>Lower-case hexadecimal, as \<^verbatim>\<open>hex.EncodeToString\<close> writes it.\<close>

definition hex_digit :: "nat \<Rightarrow> char" where
  "hex_digit n = ''0123456789abcdef'' ! n"

definition hex_encode :: "string \<Rightarrow> string" where
  "hex_encode bs = concat (map (\<lambda>b. [hex_digit (of_char b div 16), hex_digit (of_char b mod 16)]) bs)"

text \<open>\<^verbatim>\<open>sha256\<close> is a parameter: the bytes of \<^verbatim>\<open>sha256.Sum256\<close>.\<close>

definition AvatarHash :: "(string \<Rightarrow> string) \<Rightarrow> string \<Rightarrow> string" where
  "AvatarHash sha256 img = hex_encode (take (avatarHashLen div 2) (sha256 img))"

definition IsAvatarHash :: "string \<Rightarrow> bool" where
  "IsAvatarHash s =
     (if length s \<noteq> avatarHashLen then False
      else list_all (\<lambda>c. byte_in CHR ''0'' CHR ''9'' c \<or> byte_in CHR ''a'' CHR ''f'' c) s)"

definition CheckAvatar :: "string \<Rightarrow> goerr + string" where
  "CheckAvatar img =
     (if length img > AvatarMaxBytes then Inl (DomainErr ErrInvalidArgument ''AVATAR_INVALID'')
      else if prefix [CHR 0xFF, CHR 0xD8, CHR 0xFF] img then Inr ''image/jpeg''
      else if prefix (CHR 0x89 # ''PNG'' @ [CHR 0x0D, CHR 0x0A, CHR 0x1A, CHR 0x0A]) img then Inr ''image/png''
      else if length img \<ge> 12 \<and> take 4 img = ''RIFF'' \<and> take 4 (drop 8 img) = ''WEBP''
        then Inr ''image/webp''
      else Inl (DomainErr ErrInvalidArgument ''AVATAR_INVALID''))"

section \<open>Access keys and permission points (\<^verbatim>\<open>accesskey.go\<close>, \<^verbatim>\<open>authz.go\<close>)\<close>

text \<open>An IP prefix is opaque here; times are milliseconds, 0 meaning none.\<close>

record 'ip AccessKey =
  ak_ID :: uuid
  AccessKeyID :: string
  ak_Secret :: string
  Remark :: string
  ak_RoleKey :: string
  AllowedIPs :: "'ip list"
  ak_Status :: string
  ExpiresAt :: int
  LastUsedAt :: int
  ak_CreatedAt :: int
  ak_UpdatedAt :: int

datatype AccessKeyState = AccessKeyStateActive | AccessKeyStateDisabled | AccessKeyStateExpired

definition AccessKeyStatusDisabled :: string where "AccessKeyStatusDisabled = ''DISABLED''"

definition AccessKeyStatusActive :: string where "AccessKeyStatusActive = ''ACTIVE''"

definition AccessKey_State :: "'ip AccessKey \<Rightarrow> int \<Rightarrow> AccessKeyState" where
  "AccessKey_State k now_ms =
     (if ak_Status k = AccessKeyStatusDisabled then AccessKeyStateDisabled
      else if ExpiresAt k > 0 \<and> now_ms \<ge> ExpiresAt k then AccessKeyStateExpired
      else AccessKeyStateActive)"

record Permission =
  perm_ID :: uuid
  perm_ApplicationID :: uuid
  perm_Key :: string
  perm_Name :: string
  perm_Kind :: string
  perm_ParentID :: "uuid option"
  Source :: string
  LastSeenAt :: int
  perm_CreatedAt :: int

datatype PermissionStatus = PermissionStatusNormal | PermissionStatusStale | PermissionStatusManual

definition PermissionSourceManual :: string where "PermissionSourceManual = ''manual''"

text \<open>Instants in nanoseconds; \<^verbatim>\<open>LastSeenAt\<close> is milliseconds.\<close>

definition Permission_Status :: "Permission \<Rightarrow> int \<Rightarrow> int \<Rightarrow> PermissionStatus" where
  "Permission_Status p now staleAfter =
     (if Source p = PermissionSourceManual then PermissionStatusManual
      else if LastSeenAt p = 0 then PermissionStatusStale
      else if now - LastSeenAt p * ns_per_ms > staleAfter then PermissionStatusStale
      else PermissionStatusNormal)"

section \<open>Notification channels (\<^verbatim>\<open>notify.go\<close>)\<close>

text \<open>The channel and mode are strings in the code; unknown ones reach the checks.\<close>

definition Channel_Valid :: "string \<Rightarrow> bool" where
  "Channel_Valid c \<longleftrightarrow>
     c \<in> {''sms'', ''email'', ''telegram'', ''wecom_bot'', ''dingtalk_bot'', ''webhook''}"

definition AllowsMode :: "string \<Rightarrow> string \<Rightarrow> bool" where
  "AllowsMode c m =
     (if c = ''sms'' then m = ''vendor''
      else if c = ''email'' then m = ''vendor'' \<or> m = ''custom''
      else if c \<in> {''telegram'', ''wecom_bot'', ''dingtalk_bot'', ''webhook''} then m = ''custom''
      else False)"

definition NeedsRecipient :: "string \<Rightarrow> bool" where
  "NeedsRecipient c \<longleftrightarrow> c = ''sms'' \<or> c = ''email''"

section \<open>Properties\<close>

subsection \<open>Policies\<close>

lemma SessionPolicy_Validate_None:
  "SessionPolicy_Validate p = None \<longleftrightarrow>
     0 < IdleTimeoutSeconds p \<and> 0 \<le> IdleTimeoutMobileSeconds p \<and> 0 < MaxLifetimeSeconds p \<and>
     0 < RotateIntervalSeconds p \<and> 0 < ExtendIntervalSeconds p \<and> 0 < TokenCacheTTLSeconds p \<and>
     RotateIntervalSeconds p \<le> MaxLifetimeSeconds p \<and>
     ExtendIntervalSeconds p < IdleTimeoutSeconds p \<and>
     TokenCacheTTLSeconds p \<le> IdleTimeoutSeconds p"
  by (simp add: SessionPolicy_Validate_def not_le not_less)

lemma DefaultSessionPolicy_valid:
  "SessionPolicy_Validate DefaultSessionPolicy = None \<and> policy_int32 DefaultSessionPolicy"
  by (simp add: SessionPolicy_Validate_None DefaultSessionPolicy_def policy_int32_def in_int32_def)

lemma IdleTimeoutFor_eq:
  assumes "policy_int32 p"
  shows "IdleTimeoutFor p m =
    (if m \<and> IdleTimeoutMobileSeconds p > 0 then IdleTimeoutMobileSeconds p else IdleTimeoutSeconds p) * ns_per_s"
  using assms by (simp add: IdleTimeoutFor_def policy_int32_def dur_seconds_int32)

lemma IdleTimeoutFor_pos:
  assumes "policy_int32 p" and "SessionPolicy_Validate p = None"
  shows "0 < IdleTimeoutFor p m"
  using assms by (simp add: IdleTimeoutFor_eq SessionPolicy_Validate_None)

lemma Milliseconds_IdleTimeoutFor:
  assumes "policy_int32 p"
  shows "Milliseconds (IdleTimeoutFor p m) =
    (if m \<and> IdleTimeoutMobileSeconds p > 0 then IdleTimeoutMobileSeconds p else IdleTimeoutSeconds p) * 1000"
  using assms by (simp add: IdleTimeoutFor_def policy_int32_def Milliseconds_dur_seconds)

text \<open>
  A policy accepted by \<^verbatim>\<open>Validate\<close> keeps every promise the session code relies on: all
  idle timeouts, on either kind of device, are positive; the SDK may not cache a decision
  for longer than a desktop session can stay idle; the extension interval is shorter than
  that timeout; rotation happens within the maximum lifetime; and the default policy of a new
  application is itself accepted.
\<close>

theorem validated_policy_is_consistent:
  assumes "SessionPolicy_Validate p = None" and "policy_int32 p"
  shows "0 < IdleTimeoutFor p m \<and>
     dur_seconds (TokenCacheTTLSeconds p) \<le> IdleTimeoutFor p False \<and>
     ExtendInterval p < IdleTimeoutFor p False \<and>
     0 < RotateInterval p \<and> RotateInterval p \<le> MaxLifetime p \<and>
     SessionPolicy_Validate DefaultSessionPolicy = None"
  using assms DefaultSessionPolicy_valid IdleTimeoutFor_pos [OF assms(2,1), of m]
  by (auto simp: SessionPolicy_Validate_None IdleTimeoutFor_def policy_int32_def dur_seconds_int32
      ExtendInterval_def RotateInterval_def MaxLifetime_def)

theorem validated_policy_is_consistent_witness:
  "0 < IdleTimeoutFor DefaultSessionPolicy True \<and>
     dur_seconds (TokenCacheTTLSeconds DefaultSessionPolicy) \<le> IdleTimeoutFor DefaultSessionPolicy False"
  using validated_policy_is_consistent [of DefaultSessionPolicy True] DefaultSessionPolicy_valid by simp

subsection \<open>Session lifetimes\<close>

definition sane_times :: "Session \<Rightarrow> int \<Rightarrow> bool" where
  "sane_times s now \<longleftrightarrow> 0 \<le> FirstAuthAt s \<and> FirstAuthAt s \<le> now \<and> now < 2 ^ 61 \<and>
     0 \<le> IdleExpiresAt s \<and> IdleExpiresAt s < 2 ^ 61"

lemma MaxExpiresAt_eq:
  assumes "policy_int32 p" and "0 \<le> FirstAuthAt s" and "FirstAuthAt s < 2 ^ 61"
  shows "MaxExpiresAt s p = FirstAuthAt s + MaxLifetimeSeconds p * 1000"
proof -
  have "wrap64 (MaxLifetimeSeconds p * 1000) = MaxLifetimeSeconds p * 1000"
    using assms(1) by (intro wrap64_id) (simp add: policy_int32_def in_int32_def in_int64_def)
  moreover have "wrap64 (FirstAuthAt s + MaxLifetimeSeconds p * 1000) = FirstAuthAt s + MaxLifetimeSeconds p * 1000"
    using assms by (intro wrap64_id) (simp add: policy_int32_def in_int32_def in_int64_def)
  ultimately show ?thesis by (simp add: MaxExpiresAt_def)
qed

text \<open>
  With clocks in the range of a real deployment, \<^verbatim>\<open>RemainingAt\<close> computes without overflow
  the time to the earlier of the idle deadline and the absolute deadline, and zero from the
  moment either has been reached: no arithmetic wrap-around can revive an expired session.
\<close>

theorem RemainingAt_is_min_of_deadlines:
  assumes p: "policy_int32 p" and t: "sane_times s now"
  shows "RemainingAt s now p =
    max 0 (min (IdleExpiresAt s) (FirstAuthAt s + MaxLifetimeSeconds p * 1000) - now) * ns_per_ms"
proof -
  let ?M = "FirstAuthAt s + MaxLifetimeSeconds p * 1000"
  have M: "MaxExpiresAt s p = ?M" using p t by (intro MaxExpiresAt_eq) (auto simp: sane_times_def)
  have idle: "wrap64 (IdleExpiresAt s - now) = IdleExpiresAt s - now"
    using t by (intro wrap64_id) (simp add: sane_times_def in_int64_def)
  have mx: "wrap64 (?M - now) = ?M - now"
    using p t by (intro wrap64_id) (simp add: sane_times_def policy_int32_def in_int32_def in_int64_def)
  have ms: "dur_millis (min (IdleExpiresAt s - now) (?M - now)) =
      min (IdleExpiresAt s - now) (?M - now) * ns_per_ms" if "0 < min (IdleExpiresAt s - now) (?M - now)"
    unfolding dur_millis_def using p t that
    by (intro wrap64_id) (simp add: sane_times_def policy_int32_def in_int32_def in_int64_def min_def split: if_splits)
  have "RemainingAt s now p =
      (if min (IdleExpiresAt s - now) (?M - now) \<le> 0 then 0
       else dur_millis (min (IdleExpiresAt s - now) (?M - now)))"
    by (auto simp: RemainingAt_def Let_def M idle mx min_def)
  also have "\<dots> = max 0 (min (IdleExpiresAt s - now) (?M - now)) * ns_per_ms"
  proof (cases "0 < min (IdleExpiresAt s - now) (?M - now)")
    case True
    then show ?thesis using ms [OF True] by (auto simp: max_def min_def split: if_splits)
  qed (auto simp: max_def min_def)
  finally show ?thesis by (simp add: min_diff_distrib_left)
qed

definition demo_session :: Session where
  "demo_session = \<lparr>sess_ID = ''s'', Token = ''t'', sess_UserID = ''u'', sess_AppID = ''a'',
     FirstAuthAt = 1000, IssuedAt = 1000, LastExtendedAt = 1000, IdleExpiresAt = 604801000,
     sess_IP = [], sess_UA = [], Mobile = False, Roles = [''user''], Epoch = 0\<rparr>"

theorem RemainingAt_is_min_of_deadlines_witness:
  "RemainingAt demo_session 604800000 DefaultSessionPolicy = 1000 * ns_per_ms \<and>
   RemainingAt demo_session 604801000 DefaultSessionPolicy = 0"
proof -
  have p: "policy_int32 DefaultSessionPolicy" using DefaultSessionPolicy_valid by simp
  have t: "sane_times demo_session 604800000" and t': "sane_times demo_session 604801000"
    by (simp_all add: sane_times_def demo_session_def)
  show ?thesis
    using RemainingAt_is_min_of_deadlines [OF p t] RemainingAt_is_min_of_deadlines [OF p t']
    by (simp add: demo_session_def DefaultSessionPolicy_def)
qed

subsection \<open>The user state machine\<close>

lemmas user_status_defs = UserStatusActive_def UserStatusFrozen_def UserStatusPendingDelete_def
  UserStatusDeleted_def

lemma CanTransition_iff:
  "CanTransitionUserStatus from to \<longleftrightarrow>
     (from, to) \<in> {(UserStatusActive, UserStatusFrozen), (UserStatusActive, UserStatusPendingDelete),
                    (UserStatusFrozen, UserStatusActive), (UserStatusPendingDelete, UserStatusActive),
                    (UserStatusPendingDelete, UserStatusDeleted)}"
  by (auto simp: CanTransitionUserStatus_def userTransitions_def user_status_defs split: if_splits)

inductive status_path :: "string \<Rightarrow> string \<Rightarrow> bool" where
  refl: "status_path s s"
| step: "status_path s t \<Longrightarrow> CanTransitionUserStatus t u \<Longrightarrow> status_path s u"

inductive_cases status_pathE: "status_path s t"

lemma status_path_known:
  "status_path s t \<Longrightarrow> s \<in> {UserStatusActive, UserStatusFrozen, UserStatusPendingDelete, UserStatusDeleted} \<Longrightarrow>
     t \<in> {UserStatusActive, UserStatusFrozen, UserStatusPendingDelete, UserStatusDeleted}"
  by (induction rule: status_path.induct) (auto simp: CanTransition_iff)

lemma status_path_Deleted: "status_path s t \<Longrightarrow> s = UserStatusDeleted \<Longrightarrow> t = UserStatusDeleted"
  by (induction rule: status_path.induct) (auto simp: CanTransition_iff user_status_defs)

text \<open>
  The account state machine has the four documented states and no others; a deleted
  account never changes again, an account can only become deleted from the pending state, and
  a frozen account, which may not log in, gets back only through the active state.
\<close>

theorem user_state_machine:
  "(\<forall>t. status_path UserStatusDeleted t \<longrightarrow> t = UserStatusDeleted) \<and>
   (\<forall>t. status_path UserStatusActive t \<longrightarrow>
      t \<in> {UserStatusActive, UserStatusFrozen, UserStatusPendingDelete, UserStatusDeleted}) \<and>
   (\<forall>s. CanTransitionUserStatus s UserStatusDeleted \<longrightarrow> s = UserStatusPendingDelete) \<and>
   (\<forall>s. CanTransitionUserStatus UserStatusFrozen s \<longrightarrow> s = UserStatusActive) \<and>
   (\<forall>u. user_Status u = UserStatusFrozen \<longrightarrow> \<not> CanLogin u)"
  using status_path_Deleted status_path_known [of UserStatusActive]
  by (auto simp: CanTransition_iff CanLogin_def user_status_defs)

theorem user_state_machine_witness:
  "status_path UserStatusActive UserStatusDeleted \<and>
   UserStatusDeleted \<in> {UserStatusActive, UserStatusFrozen, UserStatusPendingDelete, UserStatusDeleted}"
proof -
  have "status_path UserStatusActive UserStatusDeleted"
    by (rule status_path.step [OF status_path.step [OF status_path.refl]])
       (auto simp: CanTransition_iff user_status_defs)
  then show ?thesis using user_state_machine by blast
qed

subsection \<open>Avatars\<close>

lemma hex_digit_ok:
  "n < 16 \<Longrightarrow> byte_in CHR ''0'' CHR ''9'' (hex_digit n) \<or> byte_in CHR ''a'' CHR ''f'' (hex_digit n)"
proof -
  have "list_all (\<lambda>c. byte_in CHR ''0'' CHR ''9'' c \<or> byte_in CHR ''a'' CHR ''f'' c) ''0123456789abcdef''"
    by (simp add: byte_in_def)
  then show "n < 16 \<Longrightarrow> ?thesis" by (simp add: hex_digit_def list_all_length)
qed

lemma hex_encode_ok:
  "list_all (\<lambda>c. byte_in CHR ''0'' CHR ''9'' c \<or> byte_in CHR ''a'' CHR ''f'' c) (hex_encode bs)"
proof -
  have "of_char b < (256 :: nat)" for b by (rule nat_of_char_less_256)
  then have "of_char b div 16 < (16 :: nat)" for b
    by (simp add: div_less_iff_less_mult)
  then show ?thesis
    by (induction bs) (auto simp: hex_encode_def hex_digit_ok)
qed

lemma length_hex_encode [simp]: "length (hex_encode bs) = 2 * length bs"
  by (induction bs) (auto simp: hex_encode_def)

text \<open>
  Every hash \<^verbatim>\<open>AvatarHash\<close> produces has the shape \<^verbatim>\<open>IsAvatarHash\<close> accepts, for any hash
  function whose digests have the 32 bytes of SHA-256.
\<close>

lemma AvatarHash_has_its_shape:
  assumes "length (sha256 img) = 32"
  shows "IsAvatarHash (AvatarHash sha256 img)"
  using assms hex_encode_ok by (simp add: IsAvatarHash_def AvatarHash_def avatarHashLen_def)

end
