(* ===== verification/Field_Schema.thy ===== *)
theory Field_Schema
  imports Prelude
begin

text \<open>
  Schema-driven configuration maps (\<^verbatim>\<open>internal/domain/field.go\<close>): validation and
  normalisation of a map decoded from JSON, masking of secrets for display, and merging a
  submitted map with the stored one. The lemmas show that masking discloses no secret and
  that displaying and saving back unchanged restores the stored values.
\<close>

datatype FieldType = FieldTypeString | FieldTypeInt | FieldTypeBool | FieldTypeSecret | FieldTypeOther string

text \<open>
  A value of type \<^verbatim>\<open>any\<close> as it occurs in these maps. A \<^verbatim>\<open>float64\<close> is a mantissa and a
  binary exponent; lists and objects are lumped together, since every check rejects them.
\<close>

datatype gval = VNil | VString string | VFloat int int | VGoInt int | VInt64 int | VBool bool | VOther nat

record Field =
  fKey :: string
  fLabel :: string
  fType :: FieldType
  fRequired :: bool
  fDefault :: gval
  fHelp :: string

definition SecretMask :: string where "SecretMask = ''********''"

datatype field_error = UnknownKey | Missing | NeedString | NeedInt | NeedBool | BadType string

record ConfigFieldError =
  err_Key :: string
  err_Msg :: field_error

type_synonym config = "string \<rightharpoonup> gval"

text \<open>
  \<^verbatim>\<open>n != float64(int64(n))\<close>: for a value in the range of \<^verbatim>\<open>int64\<close> the conversion truncates and
  the comparison tells whether the value was integral. Out of range the language leaves the
  conversion to the implementation; \<^verbatim>\<open>big\<close> is its outcome (\<^verbatim>\<open>None\<close> when the comparison rejects).
\<close>

definition float_int64 :: "(int \<Rightarrow> int \<Rightarrow> int option) \<Rightarrow> int \<Rightarrow> int \<Rightarrow> int option" where
  "float_int64 big m e =
     (if 0 \<le> e then (let n = m * 2 ^ nat e in if in_int64 n then Some n else big m e)
      else (let d = 2 ^ nat (- e); n = trunc_div m d
            in if in_int64 n then (if d dvd m then Some n else None) else big m e))"

definition is_empty_value :: "gval option \<Rightarrow> bool" where
  "is_empty_value v \<longleftrightarrow> v = None \<or> v = Some VNil \<or> v = Some (VString [])"

text \<open>The type switch of \<^verbatim>\<open>NormalizeConfig\<close> on one present value.\<close>

definition normalize_value ::
  "(int \<Rightarrow> int \<Rightarrow> int option) \<Rightarrow> Field \<Rightarrow> gval \<Rightarrow> ConfigFieldError + gval" where
  "normalize_value big f v =
     (case fType f of
        FieldTypeString \<Rightarrow> (case v of VString s \<Rightarrow> Inr (VString s) | _ \<Rightarrow> Inl \<lparr>err_Key = fKey f, err_Msg = NeedString\<rparr>)
      | FieldTypeSecret \<Rightarrow> (case v of VString s \<Rightarrow> Inr (VString s) | _ \<Rightarrow> Inl \<lparr>err_Key = fKey f, err_Msg = NeedString\<rparr>)
      | FieldTypeInt \<Rightarrow>
          (case v of
             VFloat m e \<Rightarrow>
               (case float_int64 big m e of
                  None \<Rightarrow> Inl \<lparr>err_Key = fKey f, err_Msg = NeedInt\<rparr>
                | Some n \<Rightarrow> Inr (VInt64 n))
           | VGoInt n \<Rightarrow> Inr (VInt64 n)
           | VInt64 n \<Rightarrow> Inr (VInt64 n)
           | _ \<Rightarrow> Inl \<lparr>err_Key = fKey f, err_Msg = NeedInt\<rparr>)
      | FieldTypeBool \<Rightarrow> (case v of VBool b \<Rightarrow> Inr (VBool b) | _ \<Rightarrow> Inl \<lparr>err_Key = fKey f, err_Msg = NeedBool\<rparr>)
      | FieldTypeOther t \<Rightarrow> Inl \<lparr>err_Key = fKey f, err_Msg = BadType t\<rparr>)"

fun normalize_fields ::
  "(int \<Rightarrow> int \<Rightarrow> int option) \<Rightarrow> Field list \<Rightarrow> config \<Rightarrow> config \<Rightarrow> ConfigFieldError + config" where
  "normalize_fields big [] inp out = Inr out"
| "normalize_fields big (f # fs) inp out =
     (if is_empty_value (inp (fKey f)) then
        if fDefault f \<noteq> VNil then normalize_fields big fs inp (out(fKey f \<mapsto> fDefault f))
        else if fRequired f then Inl \<lparr>err_Key = fKey f, err_Msg = Missing\<rparr>
        else normalize_fields big fs inp out
      else case normalize_value big f (the (inp (fKey f))) of
        Inl e \<Rightarrow> Inl e
      | Inr v \<Rightarrow> normalize_fields big fs inp (out(fKey f \<mapsto> v)))"

text \<open>The first loop: \<^verbatim>\<open>ks\<close> is the order in which it visits the keys of the input.\<close>

fun first_unknown :: "string set \<Rightarrow> string list \<Rightarrow> string option" where
  "first_unknown known [] = None"
| "first_unknown known (k # ks) = (if k \<in> known then first_unknown known ks else Some k)"

definition NormalizeConfig ::
  "(int \<Rightarrow> int \<Rightarrow> int option) \<Rightarrow> Field list \<Rightarrow> string list \<Rightarrow> config \<Rightarrow> ConfigFieldError + config" where
  "NormalizeConfig big schema ks inp =
     (case first_unknown (set (map fKey schema)) ks of
        Some k \<Rightarrow> Inl \<lparr>err_Key = k, err_Msg = UnknownKey\<rparr>
      | None \<Rightarrow> normalize_fields big schema inp Map.empty)"

definition mask_value :: "Field \<Rightarrow> gval \<Rightarrow> gval" where
  "mask_value f v =
     (if fType f = FieldTypeSecret \<and> v \<noteq> VNil \<and> v \<noteq> VString [] then VString SecretMask else v)"

fun mask_fields :: "Field list \<Rightarrow> config \<Rightarrow> config \<Rightarrow> config" where
  "mask_fields [] c out = out"
| "mask_fields (f # fs) c out =
     (case c (fKey f) of
        None \<Rightarrow> mask_fields fs c out
      | Some v \<Rightarrow> mask_fields fs c (out(fKey f \<mapsto> mask_value f v)))"

definition MaskSecrets :: "Field list \<Rightarrow> config \<Rightarrow> config" where
  "MaskSecrets schema c = mask_fields schema c Map.empty"

fun merge_fields :: "Field list \<Rightarrow> config \<Rightarrow> config \<Rightarrow> config" where
  "merge_fields [] existing out = out"
| "merge_fields (f # fs) existing out =
     (if fType f \<noteq> FieldTypeSecret then merge_fields fs existing out
      else if out (fKey f) = Some (VString SecretMask) then
        merge_fields fs existing (out(fKey f := existing (fKey f)))
      else merge_fields fs existing out)"

definition MergeSecrets :: "Field list \<Rightarrow> config \<Rightarrow> config \<Rightarrow> config" where
  "MergeSecrets schema incoming existing = merge_fields schema existing incoming"

section \<open>Masking and merging\<close>

abbreviation keys_of :: "Field list \<Rightarrow> string set" where
  "keys_of schema \<equiv> fKey ` set schema"

abbreviation distinct_keys :: "Field list \<Rightarrow> bool" where
  "distinct_keys schema \<equiv> distinct (map fKey schema)"

lemma distinct_keys_neq:
  "distinct_keys (g # fs) \<Longrightarrow> f \<in> set (g # fs) \<Longrightarrow> f \<noteq> g \<Longrightarrow> f \<in> set fs \<and> fKey f \<noteq> fKey g"
  by (auto simp: image_iff)

lemma mask_fields_other: "k \<notin> keys_of fs \<Longrightarrow> mask_fields fs c out k = out k"
  by (induction fs c out rule: mask_fields.induct) (auto split: option.splits)

lemma mask_fields_field:
  "distinct_keys fs \<Longrightarrow> f \<in> set fs \<Longrightarrow> out (fKey f) = None \<Longrightarrow>
     mask_fields fs c out (fKey f) = map_option (mask_value f) (c (fKey f))"
proof (induction fs c out rule: mask_fields.induct)
  case (2 g fs c out)
  show ?case
  proof (cases "f = g")
    case True
    then have "fKey f \<notin> keys_of fs" using 2 by auto
    with True 2 show ?thesis by (auto simp: mask_fields_other split: option.splits)
  next
    case False
    with 2 have f: "f \<in> set fs" "fKey f \<noteq> fKey g" by (blast dest: distinct_keys_neq)+
    show ?thesis
    proof (cases "c (fKey g)")
      case None
      with 2 f show ?thesis by simp
    next
      case (Some v)
      with 2 f show ?thesis by (simp add: "2.IH"(2) [OF Some])
    qed
  qed
qed simp

lemma MaskSecrets_field:
  "distinct_keys schema \<Longrightarrow> f \<in> set schema \<Longrightarrow>
     MaskSecrets schema c (fKey f) = map_option (mask_value f) (c (fKey f))"
  by (simp add: MaskSecrets_def mask_fields_field)

lemma MaskSecrets_other: "k \<notin> keys_of schema \<Longrightarrow> MaskSecrets schema c k = None"
  by (simp add: MaskSecrets_def mask_fields_other)

lemma merge_fields_other: "k \<notin> keys_of fs \<Longrightarrow> merge_fields fs ex out k = out k"
  by (induction fs ex out rule: merge_fields.induct) auto

lemma merge_fields_field:
  "distinct_keys fs \<Longrightarrow> f \<in> set fs \<Longrightarrow>
     merge_fields fs ex out (fKey f) =
       (if fType f = FieldTypeSecret \<and> out (fKey f) = Some (VString SecretMask) then ex (fKey f)
        else out (fKey f))"
proof (induction fs ex out rule: merge_fields.induct)
  case (2 g fs ex out)
  show ?case
  proof (cases "f = g")
    case True
    then have "fKey f \<notin> keys_of fs" using 2 by auto
    with True show ?thesis by (simp add: merge_fields_other)
  next
    case False
    with 2 have f: "f \<in> set fs" "fKey f \<noteq> fKey g" by (blast dest: distinct_keys_neq)+
    have d: "distinct_keys fs" using "2.prems"(1) by simp
    consider (plain) "fType g \<noteq> FieldTypeSecret"
      | (masked) "\<not> fType g \<noteq> FieldTypeSecret" "out (fKey g) = Some (VString SecretMask)"
      | (kept) "\<not> fType g \<noteq> FieldTypeSecret" "out (fKey g) \<noteq> Some (VString SecretMask)"
      by blast
    then show ?thesis
    proof cases
      case plain
      then show ?thesis using "2.IH"(1) [OF plain d f(1)] by simp
    next
      case masked
      then show ?thesis using "2.IH"(2) [OF masked d f(1)] f(2) by (simp del: fun_upd_apply add: fun_upd_other)
    next
      case kept
      then show ?thesis using "2.IH"(3) [OF kept d f(1)] by simp
    qed
  qed
qed simp

text \<open>
  C5. Displaying discloses no secret: for a schema with distinct keys, the map
  \<^verbatim>\<open>MaskSecrets\<close> produces has only keys of the schema, and under the key of a secret field it
  shows nothing but an absent value, nil, the empty string or the mask; so two stored maps
  that differ only in non-empty secrets and in keys the schema does not know are displayed
  identically.
\<close>

theorem MaskSecrets_discloses_nothing:
  assumes d: "distinct_keys schema"
  shows "dom (MaskSecrets schema c) \<subseteq> keys_of schema \<and>
    (\<forall>f\<in>set schema. fType f = FieldTypeSecret \<longrightarrow>
       MaskSecrets schema c (fKey f) \<in> {None, Some VNil, Some (VString []), Some (VString SecretMask)}) \<and>
    ((\<forall>f\<in>set schema. c' (fKey f) = c (fKey f) \<or>
        fType f = FieldTypeSecret \<and> \<not> is_empty_value (c (fKey f)) \<and> \<not> is_empty_value (c' (fKey f)))
     \<longrightarrow> MaskSecrets schema c' = MaskSecrets schema c)"
proof (intro conjI impI ballI)
  show "dom (MaskSecrets schema c) \<subseteq> keys_of schema"
    using MaskSecrets_other by fastforce
  show "MaskSecrets schema c (fKey f) \<in> {None, Some VNil, Some (VString []), Some (VString SecretMask)}"
    if "f \<in> set schema" and "fType f = FieldTypeSecret" for f
    using that by (cases "c (fKey f)") (auto simp: MaskSecrets_field [OF d] mask_value_def)
  assume same: "\<forall>f\<in>set schema. c' (fKey f) = c (fKey f) \<or>
        fType f = FieldTypeSecret \<and> \<not> is_empty_value (c (fKey f)) \<and> \<not> is_empty_value (c' (fKey f))"
  show "MaskSecrets schema c' = MaskSecrets schema c"
  proof
    fix k
    show "MaskSecrets schema c' k = MaskSecrets schema c k"
    proof (cases "k \<in> keys_of schema")
      case True
      then obtain f where f: "f \<in> set schema" "k = fKey f" by auto
      with same show ?thesis
        by (cases "c k"; cases "c' k") (fastforce simp: MaskSecrets_field [OF d] mask_value_def is_empty_value_def)+
    next
      case False
      then show ?thesis by (simp add: MaskSecrets_other)
    qed
  qed
qed

definition demo_schema :: "Field list" where
  "demo_schema =
     [\<lparr>fKey = ''host'', fLabel = [], fType = FieldTypeString, fRequired = True, fDefault = VNil, fHelp = []\<rparr>,
      \<lparr>fKey = ''port'', fLabel = [], fType = FieldTypeInt, fRequired = False, fDefault = VInt64 25, fHelp = []\<rparr>,
      \<lparr>fKey = ''pass'', fLabel = [], fType = FieldTypeSecret, fRequired = True, fDefault = VNil, fHelp = []\<rparr>]"

theorem MaskSecrets_discloses_nothing_witness:
  "MaskSecrets demo_schema [''host'' \<mapsto> VString ''h'', ''pass'' \<mapsto> VString ''one''] =
   MaskSecrets demo_schema [''host'' \<mapsto> VString ''h'', ''pass'' \<mapsto> VString ''two'', ''old'' \<mapsto> VString ''x'']"
proof -
  have d: "distinct_keys demo_schema" by (simp add: demo_schema_def)
  show ?thesis
    using MaskSecrets_discloses_nothing
      [OF d, of "[''host'' \<mapsto> VString ''h'', ''pass'' \<mapsto> VString ''two'', ''old'' \<mapsto> VString ''x'']"
         "[''host'' \<mapsto> VString ''h'', ''pass'' \<mapsto> VString ''one'']"]
    by (simp add: demo_schema_def is_empty_value_def)
qed

text \<open>
  Saving back what was displayed changes nothing the schema knows: merging the masked
  copy of a stored map with that stored map gives the stored map restricted to the schema's
  keys, secrets included, even when a secret happens to be the mask itself.
\<close>

theorem Merge_Mask_roundtrip:
  assumes d: "distinct_keys schema"
  shows "MergeSecrets schema (MaskSecrets schema c) c = c |` keys_of schema"
proof
  fix k
  show "MergeSecrets schema (MaskSecrets schema c) c k = (c |` keys_of schema) k"
  proof (cases "k \<in> keys_of schema")
    case True
    then obtain f where f: "f \<in> set schema" "k = fKey f" by auto
    then show ?thesis
      by (cases "c k") (auto simp: MergeSecrets_def merge_fields_field [OF d] MaskSecrets_field [OF d] mask_value_def restrict_map_def)
  next
    case False
    then show ?thesis by (simp add: MergeSecrets_def merge_fields_other MaskSecrets_other restrict_map_def)
  qed
qed

theorem Merge_Mask_roundtrip_witness:
  "MergeSecrets demo_schema (MaskSecrets demo_schema [''pass'' \<mapsto> VString ''s3'', ''host'' \<mapsto> VString ''h''])
     [''pass'' \<mapsto> VString ''s3'', ''host'' \<mapsto> VString ''h''] ''pass'' = Some (VString ''s3'')"
proof -
  have d: "distinct_keys demo_schema" by (simp add: demo_schema_def)
  show ?thesis
    by (simp add: Merge_Mask_roundtrip [OF d] restrict_map_def) (simp add: demo_schema_def)
qed

section \<open>Normalisation\<close>

text \<open>
  What a submitted value means under a field of the schema: a string or a truth value itself, an integer the number it
  is, as a Go integer or as a JSON number without a fraction. Beyond \<^verbatim>\<open>int64\<close> the conversion of a JSON number is the
  platform's.
\<close>

definition float_is :: "int \<Rightarrow> int \<Rightarrow> int \<Rightarrow> bool" where
  "float_is m e n \<longleftrightarrow> (if 0 \<le> e then n = m * 2 ^ nat e else m = n * 2 ^ nat (- e))"

definition float_beyond :: "int \<Rightarrow> int \<Rightarrow> bool" where
  "float_beyond m e \<longleftrightarrow> \<not> in_int64 (if 0 \<le> e then m * 2 ^ nat e else trunc_div m (2 ^ nat (- e)))"

fun denotes :: "(int \<Rightarrow> int \<Rightarrow> int option) \<Rightarrow> FieldType \<Rightarrow> gval \<Rightarrow> gval \<Rightarrow> bool" where
  "denotes big FieldTypeString v w \<longleftrightarrow> (\<exists>s. v = VString s \<and> w = VString s)"
| "denotes big FieldTypeSecret v w \<longleftrightarrow> (\<exists>s. v = VString s \<and> w = VString s)"
| "denotes big FieldTypeBool v w \<longleftrightarrow> (\<exists>b. v = VBool b \<and> w = VBool b)"
| "denotes big FieldTypeInt v w \<longleftrightarrow> (\<exists>n. w = VInt64 n \<and> (v = VGoInt n \<or> v = VInt64 n \<or>
     (\<exists>m e. v = VFloat m e \<and> (if float_beyond m e then big m e = Some n else float_is m e n))))"
| "denotes big (FieldTypeOther t) v w \<longleftrightarrow> False"

lemma float_int64_is: "float_int64 big m e = Some n \<longleftrightarrow> (if float_beyond m e then big m e = Some n else float_is m e n)"
proof (cases "0 \<le> e")
  case True
  then show ?thesis by (auto simp: float_int64_def float_beyond_def float_is_def Let_def)
next
  case False
  let ?d = "2 ^ nat (- e) :: int"
  have "trunc_div (k * ?d) ?d = k" for k by (simp add: trunc_div_def sgn_mult abs_mult mult_sgn_abs)
  then have "?d dvd m \<and> trunc_div m ?d = n \<longleftrightarrow> m = n * ?d"
    by (metis dvd_def dvd_triv_right mult.commute)
  then show ?thesis using False by (auto simp: float_int64_def float_beyond_def float_is_def Let_def)
qed

lemma normalize_value_denotes: "normalize_value big f v = Inr w \<longleftrightarrow> denotes big (fType f) v w"
  by (cases "fType f") (auto simp: normalize_value_def float_int64_is [symmetric] split: gval.splits option.splits)

text \<open>What the schema makes of one field: its normalised value, if any.\<close>

definition field_result :: "(int \<Rightarrow> int \<Rightarrow> int option) \<Rightarrow> config \<Rightarrow> Field \<Rightarrow> ConfigFieldError + gval option" where
  "field_result big inp f =
     (if is_empty_value (inp (fKey f)) then
        if fDefault f \<noteq> VNil then Inr (Some (fDefault f))
        else if fRequired f then Inl \<lparr>err_Key = fKey f, err_Msg = Missing\<rparr>
        else Inr None
      else map_sum id Some (normalize_value big f (the (inp (fKey f)))))"

lemma normalize_fields_other:
  "normalize_fields big fs inp out = Inr res \<Longrightarrow> k \<notin> keys_of fs \<Longrightarrow> res k = out k"
  by (induction big fs inp out rule: normalize_fields.induct) (auto split: if_splits sum.splits)

lemma normalize_fields_field:
  "normalize_fields big fs inp out = Inr res \<Longrightarrow> distinct_keys fs \<Longrightarrow> f \<in> set fs \<Longrightarrow> out (fKey f) = None \<Longrightarrow>
     field_result big inp f = Inr (res (fKey f))"
proof (induction big fs inp out rule: normalize_fields.induct)
  case (2 big g fs inp out)
  show ?case
  proof (cases "f = g")
    case True
    then have "fKey f \<notin> keys_of fs" using 2 by auto
    with True 2 show ?thesis
      by (auto simp: field_result_def normalize_fields_other split: if_splits sum.splits)
  next
    case False
    with 2 have f: "f \<in> set fs" "fKey f \<noteq> fKey g" by (blast dest: distinct_keys_neq)+
    have d: "distinct_keys fs" using "2.prems"(2) by simp
    have o: "(out(fKey g \<mapsto> v)) (fKey f) = None" for v using f(2) "2.prems"(4) by simp
    show ?thesis
      using "2.prems"(1) "2.IH"(1) [OF _ _ _ d f(1) o] "2.IH"(2) [OF _ _ _ _ d f(1) "2.prems"(4)]
        "2.IH"(3) [OF _ _ _ d f(1) o]
      by (simp split: if_splits sum.splits del: fun_upd_apply)
  qed
qed simp

lemma normalize_fields_ok:
  "(\<forall>f\<in>set fs. \<exists>r. field_result big inp f = Inr r) \<Longrightarrow> \<exists>res. normalize_fields big fs inp out = Inr res"
  by (induction big fs inp out rule: normalize_fields.induct)
     (auto simp: field_result_def split: if_splits sum.splits)

lemma first_unknown_None: "first_unknown known ks = None \<longleftrightarrow> set ks \<subseteq> known"
  by (induction ks) auto

lemma NormalizeConfig_Inr:
  assumes "enumerates ks inp"
  shows "NormalizeConfig big schema ks inp = Inr res \<longleftrightarrow>
    dom inp \<subseteq> keys_of schema \<and> normalize_fields big schema inp Map.empty = Inr res"
  using assms first_unknown_None [of "set (map fKey schema)" ks]
  by (auto simp: NormalizeConfig_def enumerates_def split: option.splits)

text \<open>The value of a field after normalisation, against the submitted map.\<close>

definition normal_value :: "(int \<Rightarrow> int \<Rightarrow> int option) \<Rightarrow> Field \<Rightarrow> gval option \<Rightarrow> gval option \<Rightarrow> bool" where
  "normal_value big f v w \<longleftrightarrow>
     (if v \<in> {None, Some VNil, Some (VString [])}
      then w = (if fDefault f = VNil then None else Some (fDefault f)) \<and> (fDefault f = VNil \<longrightarrow> \<not> fRequired f)
      else \<exists>x y. v = Some x \<and> w = Some y \<and> denotes big (fType f) x y)"

lemma field_result_normal: "field_result big inp f = Inr w \<longleftrightarrow> normal_value big f (inp (fKey f)) w"
proof (cases "is_empty_value (inp (fKey f))")
  case True
  then show ?thesis by (auto simp: field_result_def normal_value_def is_empty_value_def)
next
  case False
  then obtain x where x: "inp (fKey f) = Some x" by (auto simp: is_empty_value_def)
  have "map_sum id Some (normalize_value big f x) = Inr w \<longleftrightarrow> (\<exists>y. w = Some y \<and> denotes big (fType f) x y)"
    unfolding normalize_value_denotes [symmetric] by (cases "normalize_value big f x") auto
  then show ?thesis using False x by (auto simp: field_result_def normal_value_def is_empty_value_def)
qed

lemma NormalizeConfig_iff:
  assumes d: "distinct_keys schema" and ks: "enumerates ks inp"
  shows "NormalizeConfig big schema ks inp = Inr out \<longleftrightarrow>
    dom inp \<subseteq> keys_of schema \<and> dom out \<subseteq> keys_of schema \<and>
    (\<forall>f \<in> set schema. normal_value big f (inp (fKey f)) (out (fKey f)))"
    (is "_ \<longleftrightarrow> _ \<and> ?dom out \<and> ?all out")
proof -
  have fwd: "?dom out \<and> ?all out" if "normalize_fields big schema inp Map.empty = Inr out" for out
    using normalize_fields_other [OF that] normalize_fields_field [OF that d] field_result_normal
    by (auto simp: dom_def) (metis option.distinct(1))
  have bwd: "normalize_fields big schema inp Map.empty = Inr out" if out: "?dom out" "?all out"
  proof -
    have ok: "field_result big inp f = Inr (out (fKey f))" if "f \<in> set schema" for f
      using out that field_result_normal by blast
    then obtain res where res: "normalize_fields big schema inp Map.empty = Inr res"
      using normalize_fields_ok by blast
    have "res k = out k" for k
    proof (cases "k \<in> keys_of schema")
      case True
      then obtain f where "f \<in> set schema" "k = fKey f" by blast
      then show ?thesis using normalize_fields_field [OF res d] ok by fastforce
    next
      case False
      then show ?thesis using normalize_fields_other [OF res False] out by (cases "out k") auto
    qed
    with res show ?thesis by (simp add: ext)
  qed
  show ?thesis using NormalizeConfig_Inr [OF ks] fwd bwd by blast
qed

text \<open>
  The defaults of a schema fit if each is a non-empty string, a Go integer or a truth value, as its field's type asks for.
  A default is stored as it stands, so an integer may still be an \<^verbatim>\<open>int\<close> after the first normalisation.
\<close>

fun default_fits :: "FieldType \<Rightarrow> gval \<Rightarrow> bool" where
  "default_fits FieldTypeString v \<longleftrightarrow> (\<exists>s. s \<noteq> [] \<and> v = VString s)"
| "default_fits FieldTypeSecret v \<longleftrightarrow> (\<exists>s. s \<noteq> [] \<and> v = VString s)"
| "default_fits FieldTypeBool v \<longleftrightarrow> (\<exists>b. v = VBool b)"
| "default_fits FieldTypeInt v \<longleftrightarrow> (\<exists>n. v = VGoInt n \<or> v = VInt64 n)"
| "default_fits (FieldTypeOther t) v \<longleftrightarrow> False"

fun as_int64 :: "gval \<Rightarrow> gval" where
  "as_int64 (VGoInt n) = VInt64 n"
| "as_int64 v = v"

lemma denotes_again: "denotes big t v w \<Longrightarrow> denotes big t w w \<and> as_int64 w = w"
  by (cases t) auto

lemma default_denotes: "default_fits t v \<Longrightarrow> denotes big t v (as_int64 v) \<and> v \<noteq> VNil \<and> v \<noteq> VString []"
  by (cases t; cases v) simp_all

lemma normal_value_again:
  assumes "normal_value big f v w" and "fDefault f \<noteq> VNil \<longrightarrow> default_fits (fType f) (fDefault f)"
  shows "normal_value big f w (map_option as_int64 w)"
proof (cases "v \<in> {None, Some VNil, Some (VString [])}")
  case True
  then show ?thesis using assms default_denotes [of "fType f" "fDefault f" big] by (auto simp: normal_value_def)
next
  case False
  with assms(1) obtain x y where xy: "v = Some x" "w = Some y" "denotes big (fType f) x y"
    unfolding normal_value_def if_not_P [OF False] by blast
  then have "y \<noteq> VNil" by (cases "fType f") auto
  moreover have "y = VString [] \<Longrightarrow> x = VString []" using xy(3) by (cases "fType f") auto
  ultimately show ?thesis using False xy denotes_again [OF xy(3)] by (auto simp: normal_value_def)
qed

lemma as_int64_idem: "as_int64 (as_int64 v) = as_int64 v"
  by (cases v) auto


text \<open>A schema like that of the mail provider: the default of the port is an \<^verbatim>\<open>int\<close>.\<close>

definition mail_schema :: "Field list" where
  "mail_schema =
     [\<lparr>fKey = ''host'', fLabel = [], fType = FieldTypeString, fRequired = True, fDefault = VNil, fHelp = []\<rparr>,
      \<lparr>fKey = ''port'', fLabel = [], fType = FieldTypeInt, fRequired = True, fDefault = VGoInt 465, fHelp = []\<rparr>]"


end
