(* ===== verification/Aksign.thy ===== *)
theory Aksign
  imports Domain
begin

text \<open>
  The access-key signature (\<^verbatim>\<open>sdk/aksign/aksign.go\<close>): the string to sign, the request-target
  split, nonce syntax and the four headers a signed request carries. The hash and the MAC are
  parameters. The lemmas show that the string to sign determines every signed part of a
  request and that a verifier reading the headers back gets what the signer put in.
\<close>

section \<open>Decimal and hexadecimal text (\<^verbatim>\<open>strconv\<close>, \<^verbatim>\<open>encoding/hex\<close>)\<close>

definition digit_char :: "nat \<Rightarrow> char" where
  "digit_char d = char_of (48 + d)"

fun nat_digits :: "nat \<Rightarrow> string" where
  "nat_digits n = (if n < 10 then [digit_char n] else nat_digits (n div 10) @ [digit_char (n mod 10)])"

declare nat_digits.simps [simp del]

definition FormatInt :: "int \<Rightarrow> string" where
  "FormatInt n = (if n < 0 then CHR ''-'' # nat_digits (nat (- n)) else nat_digits (nat n))"

definition is_digit :: "char \<Rightarrow> bool" where
  "is_digit c = byte_in CHR ''0'' CHR ''9'' c"

definition digits_value :: "string \<Rightarrow> nat" where
  "digits_value s = foldl (\<lambda>n c. 10 * n + (of_char c - 48)) 0 s"

text \<open>\<^verbatim>\<open>strconv.ParseInt(s, 10, 64)\<close>: an optional sign, at least one digit, digits only, in range.\<close>

definition ParseInt :: "string \<Rightarrow> int option" where
  "ParseInt s =
     (let (neg, ds) = (case s of
            [] \<Rightarrow> (False, [])
          | c # cs \<Rightarrow> if c = CHR ''-'' then (True, cs) else if c = CHR ''+'' then (False, cs) else (False, c # cs));
          n = (if neg then - int (digits_value ds) else int (digits_value ds))
      in if ds = [] \<or> \<not> list_all is_digit ds \<or> \<not> in_int64 n then None else Some n)"

definition hex_value :: "char \<Rightarrow> nat option" where
  "hex_value c =
     (if byte_in CHR ''0'' CHR ''9'' c then Some (of_char c - 48)
      else if byte_in CHR ''a'' CHR ''f'' c then Some (of_char c - 87)
      else if byte_in CHR ''A'' CHR ''F'' c then Some (of_char c - 55)
      else None)"

fun hex_decode :: "string \<Rightarrow> string option" where
  "hex_decode [] = Some []"
| "hex_decode [c] = None"
| "hex_decode (a # b # s) =
     (case (hex_value a, hex_value b, hex_decode s) of
        (Some x, Some y, Some bs) \<Rightarrow> Some (char_of (16 * x + y) # bs)
      | _ \<Rightarrow> None)"

section \<open>The signature\<close>

definition nl :: char where "nl = CHR 0x0A"

definition StringToSign ::
  "(string \<Rightarrow> string) \<Rightarrow> string \<Rightarrow> string \<Rightarrow> string \<Rightarrow> int \<Rightarrow> string \<Rightarrow> string \<Rightarrow> string" where
  "StringToSign sha256 meth rawPath rawQuery timestamp nonce body =
     meth @ [nl] @ rawPath @ [nl] @ rawQuery @ [nl] @
     FormatInt timestamp @ [nl] @ nonce @ [nl] @ hex_encode (sha256 body)"

text \<open>\<^verbatim>\<open>hmac\<close> maps a key and a message to the MAC bytes.\<close>

definition Signature :: "(string \<Rightarrow> string \<Rightarrow> string) \<Rightarrow> string \<Rightarrow> string \<Rightarrow> string" where
  "Signature hmac secret stringToSign = hex_encode (hmac secret stringToSign)"

definition SplitRequestURI :: "string \<Rightarrow> string \<times> string" where
  "SplitRequestURI requestURI =
     (let cut = (\<lambda>u. case str_Cut u CHR ''?'' of (p, q, _) \<Rightarrow> (p, q))
      in if \<not> HasPrefix requestURI ''/'' then
           (case str_Index requestURI ''://'' of
              Some i \<Rightarrow>
                (let rest = drop (i + 3) requestURI
                 in case str_Index rest ''/'' of
                      None \<Rightarrow> (''/'', [])
                    | Some j \<Rightarrow> cut (drop j rest))
            | None \<Rightarrow> cut requestURI)
         else cut requestURI)"

definition nonce_byte :: "char \<Rightarrow> bool" where
  "nonce_byte c \<longleftrightarrow>
     byte_in CHR ''a'' CHR ''z'' c \<or> byte_in CHR ''A'' CHR ''Z'' c \<or> byte_in CHR ''0'' CHR ''9'' c \<or>
     c = CHR ''-'' \<or> c = CHR ''_''"

definition ValidNonce :: "string \<Rightarrow> bool" where
  "ValidNonce s = (if length s = 0 \<or> length s > 64 then False else list_all nonce_byte s)"

text \<open>
  The parts of an \<^verbatim>\<open>http.Request\<close> that signing reads and writes. \<^verbatim>\<open>rq_uri\<close> is what
  \<^verbatim>\<open>URL.RequestURI()\<close> returns; a body is absent, readable, or fails to read.
\<close>

datatype req_body = NoBody | Body string | BodyError

record http_req =
  rq_method :: string
  rq_uri :: string
  rq_body :: req_body
  rq_content_length :: int
  rq_header :: "string \<rightharpoonup> string"

definition HeaderAccessKey :: string where "HeaderAccessKey = ''X-Fp-Access-Key''"

definition HeaderTimestamp :: string where "HeaderTimestamp = ''X-Fp-Timestamp''"

definition HeaderNonce :: string where "HeaderNonce = ''X-Fp-Nonce''"

definition HeaderSignature :: string where "HeaderSignature = ''X-Fp-Signature''"

definition SignAt ::
  "(string \<Rightarrow> string) \<Rightarrow> (string \<Rightarrow> string \<Rightarrow> string) \<Rightarrow> http_req \<Rightarrow> string \<Rightarrow> string \<Rightarrow> int \<Rightarrow> string \<Rightarrow>
     goerr + http_req" where
  "SignAt sha256 hmac req accessKeyID secret timestamp nonce =
     (case rq_body req of
        BodyError \<Rightarrow> Inl (Wrapped ''read body'')
      | b \<Rightarrow>
          let body = (case b of Body s \<Rightarrow> s | _ \<Rightarrow> []);
              req = (case b of Body s \<Rightarrow> req\<lparr>rq_content_length := int (length s)\<rparr> | _ \<Rightarrow> req);
              (path, query) = SplitRequestURI (rq_uri req);
              sts = StringToSign sha256 (rq_method req) path query timestamp nonce body
          in Inr (req\<lparr>rq_header := (rq_header req)
               (HeaderAccessKey \<mapsto> accessKeyID,
                HeaderTimestamp \<mapsto> FormatInt timestamp,
                HeaderNonce \<mapsto> nonce,
                HeaderSignature \<mapsto> Signature hmac secret sts)\<rparr>))"

section \<open>Text round trips\<close>

lemma of_digit_char: "d < 10 \<Longrightarrow> of_char (digit_char d) = (48 + d :: nat)"
  by (simp add: digit_char_def)

lemma is_digit_iff: "is_digit c \<longleftrightarrow> 48 \<le> (of_char c :: nat) \<and> (of_char c :: nat) \<le> 57"
  by (simp add: is_digit_def byte_in_def)

lemma is_digit_digit_char [simp]: "d < 10 \<Longrightarrow> is_digit (digit_char d)"
  by (simp add: is_digit_iff of_digit_char)

lemma list_all_nat_digits: "list_all is_digit (nat_digits n)"
proof (induction n rule: nat_digits.induct)
  case (1 n)
  then show ?case by (subst nat_digits.simps) auto
qed

lemma nat_digits_nonempty [simp]: "nat_digits n \<noteq> []"
  by (subst nat_digits.simps) simp

lemma digits_value_nat_digits [simp]: "digits_value (nat_digits n) = n"
proof (induction n rule: nat_digits.induct)
  case (1 n)
  show ?case
  proof (cases "n < 10")
    case True
    then show ?thesis by (subst nat_digits.simps) (simp add: digits_value_def of_digit_char)
  next
    case False
    with 1 have "digits_value (nat_digits (n div 10)) = n div 10" by simp
    with False show ?thesis
      by (subst nat_digits.simps) (simp add: digits_value_def of_digit_char)
  qed
qed

lemma hd_nat_digits: "is_digit (hd (nat_digits n))"
  using list_all_nat_digits [of n] by (cases "nat_digits n") auto

lemma ParseInt_FormatInt: "in_int64 n \<Longrightarrow> ParseInt (FormatInt n) = Some n"
proof (cases "n < 0")
  case True
  assume "in_int64 n"
  with True show ?thesis by (simp add: FormatInt_def ParseInt_def list_all_nat_digits)
next
  case False
  assume r: "in_int64 n"
  obtain c cs where c: "nat_digits (nat n) = c # cs" by (cases "nat_digits (nat n)") auto
  have "is_digit c" using hd_nat_digits [of "nat n"] c by simp
  then have "c \<noteq> CHR ''-'' \<and> c \<noteq> CHR ''+''" by (auto simp: is_digit_iff)
  moreover have "list_all is_digit (c # cs)" and "digits_value (c # cs) = nat n"
    using list_all_nat_digits [of "nat n"] digits_value_nat_digits [of "nat n"] c by simp_all
  ultimately show ?thesis using False r c by (simp add: FormatInt_def ParseInt_def)
qed

lemma hex_value_hex_digit: "n < 16 \<Longrightarrow> hex_value (hex_digit n) = Some n"
proof -
  have "\<forall>n\<in>set [0..<16]. hex_value (hex_digit n) = Some n"
    by (simp add: hex_value_def hex_digit_def byte_in_def upt_rec numeral_eq_Suc)
  then show "n < 16 \<Longrightarrow> ?thesis" by simp
qed

lemma hex_decode_encode [simp]: "hex_decode (hex_encode bs) = Some bs"
proof (induction bs)
  case (Cons b bs)
  have lt: "of_char b div 16 < (16 :: nat)" by (simp add: div_less_iff_less_mult)
  have "char_of (16 * (of_char b div 16) + of_char b mod 16 :: nat) = b" by simp
  with Cons lt show ?case by (simp add: hex_encode_def hex_value_hex_digit)
qed (simp add: hex_encode_def)

lemma nl_notin_digits: "list_all is_digit s \<Longrightarrow> nl \<notin> set s"
  by (auto simp: list_all_iff is_digit_iff nl_def)

lemma nl_notin_FormatInt [simp]: "nl \<notin> set (FormatInt n)"
  using nl_notin_digits [OF list_all_nat_digits] by (auto simp: FormatInt_def nl_def)

lemma FormatInt_inj: "FormatInt a = FormatInt b \<Longrightarrow> a = b"
proof -
  have "\<not> is_digit CHR ''-''" by (simp add: is_digit_iff)
  then have minus: "CHR ''-'' \<noteq> hd (nat_digits n)" for n
    using hd_nat_digits [of n] by metis
  have inj: "nat_digits m = nat_digits n \<Longrightarrow> m = n" for m n
    by (metis digits_value_nat_digits)
  assume "FormatInt a = FormatInt b"
  then show "a = b"
    using minus [of "nat a"] minus [of "nat b"]
    by (auto simp: FormatInt_def dest!: inj split: if_splits) (metis list.sel(1))+
qed

section \<open>Properties of the signature\<close>

text \<open>
  C7. The string to sign pins down the request: if two requests whose method, path, query
  and nonce contain no line feed have the same string to sign, then their method, path,
  query, timestamp, nonce and body digest are all equal, so a signature for one cannot be
  presented with any of them changed.
\<close>

theorem StringToSign_determines_request:
  assumes "nl \<notin> set m" "nl \<notin> set p" "nl \<notin> set q" "nl \<notin> set n"
    and "nl \<notin> set m'" "nl \<notin> set p'" "nl \<notin> set q'" "nl \<notin> set n'"
    and "StringToSign sha256 m p q t n b = StringToSign sha256 m' p' q' t' n' b'"
  shows "m = m' \<and> p = p' \<and> q = q' \<and> t = t' \<and> n = n' \<and> sha256 b = sha256 b'"
proof -
  note inj = append_sep_inj [where sep = nl]
  have 1: "m @ nl # (p @ nl # (q @ nl # (FormatInt t @ nl # (n @ nl # hex_encode (sha256 b))))) =
      m' @ nl # (p' @ nl # (q' @ nl # (FormatInt t' @ nl # (n' @ nl # hex_encode (sha256 b')))))"
    using assms(9) by (simp add: StringToSign_def)
  note a = inj [OF 1 assms(1,5)]
  note b = inj [OF conjunct2 [OF a] assms(2,6)]
  note c = inj [OF conjunct2 [OF b] assms(3,7)]
  note d = inj [OF conjunct2 [OF c] nl_notin_FormatInt nl_notin_FormatInt]
  note e = inj [OF conjunct2 [OF d] assms(4,8)]
  have "hex_decode (hex_encode (sha256 b)) = hex_decode (hex_encode (sha256 b'))" using e by simp
  then have "sha256 b = sha256 b'" by simp
  with a b c d e FormatInt_inj show ?thesis by blast
qed

text \<open>
  A signature made for one request does not fit another: neither a changed query nor text moved from the path to the query
  leaves the string to sign as it was.
\<close>

theorem StringToSign_determines_request_witness:
  "StringToSign (\<lambda>b. b) ''GET'' ''/a'' ''x=1'' 7 ''n1'' ''hi'' \<noteq> StringToSign (\<lambda>b. b) ''GET'' ''/a'' ''x=2'' 7 ''n1'' ''hi'' \<and>
   StringToSign (\<lambda>b. b) ''GET'' ''/a'' ''bc'' 7 ''n1'' ''hi'' \<noteq> StringToSign (\<lambda>b. b) ''GET'' ''/ab'' ''c'' 7 ''n1'' ''hi'' \<and>
   StringToSign (\<lambda>b. b) ''GET'' ''/a'' ''x=1'' 7 ''n1'' ''hi'' \<noteq> StringToSign (\<lambda>b. b) ''GET'' ''/a'' ''x=1'' 71 ''n'' ''hi''"
proof (intro conjI notI)
  have nonl: "nl \<notin> set ''GET''" "nl \<notin> set ''/a''" "nl \<notin> set ''/ab''" "nl \<notin> set ''x=1''" "nl \<notin> set ''x=2''" "nl \<notin> set ''bc''"
      "nl \<notin> set ''c''" "nl \<notin> set ''n1''" "nl \<notin> set ''n''"
    by (simp_all add: nl_def)
  show False if "StringToSign (\<lambda>b. b) ''GET'' ''/a'' ''x=1'' 7 ''n1'' ''hi'' = StringToSign (\<lambda>b. b) ''GET'' ''/a'' ''x=2'' 7 ''n1'' ''hi''"
    using StringToSign_determines_request [OF nonl(1,2,4,8) nonl(1,2,5,8) that] by simp
  show False if "StringToSign (\<lambda>b. b) ''GET'' ''/a'' ''bc'' 7 ''n1'' ''hi'' = StringToSign (\<lambda>b. b) ''GET'' ''/ab'' ''c'' 7 ''n1'' ''hi''"
    using StringToSign_determines_request [OF nonl(1,2,6,8) nonl(1,3,7,8) that] by simp
  show False if "StringToSign (\<lambda>b. b) ''GET'' ''/a'' ''x=1'' 7 ''n1'' ''hi'' = StringToSign (\<lambda>b. b) ''GET'' ''/a'' ''x=1'' 71 ''n'' ''hi''"
    using StringToSign_determines_request [OF nonl(1,2,4,8) nonl(1,2,4,9) that] by simp
qed

lemma ValidNonce_no_nl: "ValidNonce s \<Longrightarrow> nl \<notin> set s"
  by (auto simp: ValidNonce_def list_all_iff nonce_byte_def byte_in_def nl_def split: if_splits)

lemma str_Index_slash: "str_Index s ''/'' = Some j \<Longrightarrow> prefix ''/'' (drop j s)"
  by (induction s arbitrary: j) (auto split: if_splits)

text \<open>
  \<^verbatim>\<open>SplitRequestURI\<close> on the origin form splits at the first question mark and on the
  absolute form ignores scheme and authority: for a path that starts with a slash and has no
  question mark, and a host without a slash, both forms give back the path and the query, even
  when the query itself contains \<^verbatim>\<open>://\<close>.
\<close>

theorem SplitRequestURI_forms:
  assumes "CHR ''?'' \<notin> set p" and "CHR ''/'' \<notin> set host"
    and "scheme \<noteq> []" and "CHR '':'' \<notin> set scheme" and "CHR ''/'' \<notin> set scheme"
  shows "SplitRequestURI (''/'' @ p @ ''?'' @ q) = (CHR ''/'' # p, q) \<and>
    SplitRequestURI (scheme @ ''://'' @ host @ ''/'' @ p @ ''?'' @ q) = (CHR ''/'' # p, q)"
proof
  show "SplitRequestURI (''/'' @ p @ ''?'' @ q) = (CHR ''/'' # p, q)"
    using str_Cut_sep [of "CHR ''?''" "CHR ''/'' # p" q] assms(1)
    by (simp add: SplitRequestURI_def HasPrefix_def)
  have idx: "CHR '':'' \<notin> set s \<Longrightarrow> str_Index (s @ CHR '':'' # CHR ''/'' # CHR ''/'' # r) ''://'' = Some (length s)" for s r
    by (induction s) auto
  have slash: "CHR ''/'' \<notin> set s \<Longrightarrow> str_Index (s @ CHR ''/'' # r) ''/'' = Some (length s)" for s r
    by (induction s) auto
  have np: "\<not> prefix ''/'' (scheme @ r)" for r
    using assms(3,5) by (cases scheme) auto
  show "SplitRequestURI (scheme @ ''://'' @ host @ ''/'' @ p @ ''?'' @ q) = (CHR ''/'' # p, q)"
    using str_Cut_sep [of "CHR ''?''" "CHR ''/'' # p" q] assms idx [OF assms(4)] slash [OF assms(2)] np
    by (simp add: SplitRequestURI_def HasPrefix_def)
qed

theorem SplitRequestURI_forms_witness:
  "SplitRequestURI ''/a?u=http://x/y'' = (''/a'', ''u=http://x/y'') \<and>
   SplitRequestURI ''https://h:8/a?u=http://x/y'' = (''/a'', ''u=http://x/y'')"
  using SplitRequestURI_forms [of "''a''" "''h:8''" "''https''" "''u=http://x/y''"] by simp

lemma SignAt_roundtrip_lemma:
  assumes "rq_body req \<noteq> BodyError" and "in_int64 ts"
  shows "\<exists>req'. SignAt sha256 hmac req ak secret ts nonce = Inr req' \<and>
    rq_header req' HeaderAccessKey = Some ak \<and>
    rq_header req' HeaderNonce = Some nonce \<and>
    Option.bind (rq_header req' HeaderTimestamp) ParseInt = Some ts \<and>
    Option.bind (rq_header req' HeaderSignature) hex_decode =
      Some (hmac secret (StringToSign sha256 (rq_method req') (fst (SplitRequestURI (rq_uri req')))
        (snd (SplitRequestURI (rq_uri req'))) ts nonce (case rq_body req' of Body s \<Rightarrow> s | _ \<Rightarrow> []))) \<and>
    rq_method req' = rq_method req \<and> rq_uri req' = rq_uri req \<and> rq_body req' = rq_body req"
  using assms
  by (cases "rq_body req")
     (auto simp: SignAt_def Let_def Signature_def ParseInt_FormatInt HeaderAccessKey_def
        HeaderNonce_def HeaderTimestamp_def HeaderSignature_def split: prod.split)

text \<open>
  Signing succeeds on every readable request and leaves what a verifier needs: the
  timestamp header parses back to the timestamp, the signature header decodes to the MAC of
  the string to sign over the request's own method, target and body, and method, target and
  body are unchanged.
\<close>

theorem SignAt_roundtrip:
  assumes "rq_body req \<noteq> BodyError" and "in_int64 ts"
  shows "\<exists>req'. SignAt sha256 hmac req ak secret ts nonce = Inr req' \<and>
    rq_header req' HeaderAccessKey = Some ak \<and>
    rq_header req' HeaderNonce = Some nonce \<and>
    Option.bind (rq_header req' HeaderTimestamp) ParseInt = Some ts \<and>
    Option.bind (rq_header req' HeaderSignature) hex_decode =
      Some (hmac secret (StringToSign sha256 (rq_method req') (fst (SplitRequestURI (rq_uri req')))
        (snd (SplitRequestURI (rq_uri req'))) ts nonce (case rq_body req' of Body s \<Rightarrow> s | _ \<Rightarrow> []))) \<and>
    rq_method req' = rq_method req \<and> rq_uri req' = rq_uri req \<and> rq_body req' = rq_body req"
  by (rule SignAt_roundtrip_lemma [OF assms])

theorem SignAt_roundtrip_witness:
  "\<exists>req'. SignAt (\<lambda>b. b) (\<lambda>k m. k @ m)
     \<lparr>rq_method = ''POST'', rq_uri = ''/a?b'', rq_body = Body ''x'', rq_content_length = 0, rq_header = Map.empty\<rparr>
     ''ak'' ''sk'' 1700000000 ''n'' = Inr req' \<and>
     Option.bind (rq_header req' HeaderTimestamp) ParseInt = Some 1700000000"
proof -
  let ?r = "\<lparr>rq_method = ''POST'', rq_uri = ''/a?b'', rq_body = Body ''x'', rq_content_length = 0, rq_header = Map.empty\<rparr>"
  have "in_int64 1700000000" by (simp add: in_int64_def)
  then show ?thesis
    using SignAt_roundtrip [of ?r 1700000000 "\<lambda>b. b" "\<lambda>k m. k @ m" "''ak''" "''sk''" "''n''"] by auto
qed

end
