(* ===== verification/Runes.thy ===== *)
theory Runes
  imports Prelude
begin

text \<open>
  Go's view of a string as UTF-8: a string is a byte sequence, and \<^verbatim>\<open>[]rune\<close>, \<^verbatim>\<open>range\<close> and
  \<^verbatim>\<open>utf8.RuneCountInString\<close> decode it from the left, a byte that starts no valid encoding counting as one rune.
\<close>

definition byte :: "char \<Rightarrow> nat" where
  "byte c = of_char c"

definition cont :: "char \<Rightarrow> bool" where
  "cont c \<longleftrightarrow> 0x80 \<le> byte c \<and> byte c \<le> 0xBF"

text \<open>The admissible range of the second byte after a first byte, and the length of the encoding.\<close>

definition second_range :: "nat \<Rightarrow> (nat \<times> nat \<times> nat) option" where
  "second_range b =
     (if 0xC2 \<le> b \<and> b \<le> 0xDF then Some (2, 0x80, 0xBF)
      else if b = 0xE0 then Some (3, 0xA0, 0xBF)
      else if b = 0xED then Some (3, 0x80, 0x9F)
      else if 0xE1 \<le> b \<and> b \<le> 0xEF then Some (3, 0x80, 0xBF)
      else if b = 0xF0 then Some (4, 0x90, 0xBF)
      else if b = 0xF4 then Some (4, 0x80, 0x8F)
      else if 0xF1 \<le> b \<and> b \<le> 0xF3 then Some (4, 0x80, 0xBF)
      else None)"

text \<open>The width of the first rune and whether it is validly encoded; 0 for the empty string.\<close>

definition rune_width :: "string \<Rightarrow> nat \<times> bool" where
  "rune_width s =
     (case s of
        [] \<Rightarrow> (0, True)
      | c # cs \<Rightarrow>
          if byte c < 0x80 then (1, True)
          else case second_range (byte c) of
            None \<Rightarrow> (1, False)
          | Some (n, lo, hi) \<Rightarrow>
              if length cs + 1 \<ge> n \<and> lo \<le> byte (cs ! 0) \<and> byte (cs ! 0) \<le> hi \<and>
                 list_all cont (take (n - 2) (tl cs))
              then (n, True) else (1, False))"

lemma rune_width_bounds: "s \<noteq> [] \<Longrightarrow> 1 \<le> fst (rune_width s) \<and> fst (rune_width s) \<le> length s"
  by (cases s) (auto simp: rune_width_def second_range_def split: option.splits if_splits prod.splits)

text \<open>The runes of a string, each as the bytes it takes.\<close>

function runes :: "string \<Rightarrow> string list" where
  "runes s = (if s = [] then [] else take (fst (rune_width s)) s # runes (drop (fst (rune_width s)) s))"
  by pat_completeness auto
termination
proof (relation "measure length")
  fix s :: string assume "s \<noteq> []"
  then show "(drop (fst (rune_width s)) s, s) \<in> measure length"
    using rune_width_bounds [of s] by auto
qed simp

declare runes.simps [simp del]

definition RuneCount :: "string \<Rightarrow> nat" where
  "RuneCount s = length (runes s)"

fun ValidString :: "string \<Rightarrow> bool" where
  "ValidString s = list_all (\<lambda>r. snd (rune_width r)) (runes s)"

lemma concat_runes: "concat (runes s) = s"
proof (induction s rule: runes.induct)
  case (1 s)
  then show ?case by (subst runes.simps) simp
qed

lemma runes_nonempty: "r \<in> set (runes s) \<Longrightarrow> r \<noteq> []"
proof (induction s rule: runes.induct)
  case (1 s)
  show ?case
  proof (cases "s = []")
    case False
    then show ?thesis using 1 rune_width_bounds [of s] runes.simps [of s] by auto
  qed (use 1 in \<open>simp add: runes.simps\<close>)
qed

lemma RuneCount_le_length: "RuneCount s \<le> length s"
proof (induction s rule: runes.induct)
  case (1 s)
  show ?case
  proof (cases "s = []")
    case False
    then show ?thesis using 1 [OF False] rune_width_bounds [OF False]
      by (auto simp: RuneCount_def runes.simps [of s])
  qed (simp add: RuneCount_def runes.simps)
qed

lemma runes_ascii: "list_all (\<lambda>c. byte c < 0x80) s \<Longrightarrow> runes s = map (\<lambda>c. [c]) s"
proof (induction s)
  case (Cons c s)
  then have "rune_width (c # s) = (1, True)" by (simp add: rune_width_def)
  then show ?case using Cons by (simp add: runes.simps [of "c # s"])
qed (simp add: runes.simps)

section \<open>Trimming\<close>

text \<open>The encodings of the characters \<^verbatim>\<open>unicode.IsSpace\<close> accepts.\<close>

definition space_runes :: "string list" where
  "space_runes =
     [[CHR 0x09], [CHR 0x0A], [CHR 0x0B], [CHR 0x0C], [CHR 0x0D], [CHR 0x20],
      [CHR 0xC2, CHR 0x85], [CHR 0xC2, CHR 0xA0], [CHR 0xE1, CHR 0x9A, CHR 0x80]] @
     map (\<lambda>n. [CHR 0xE2, CHR 0x80, char_of (0x80 + n)]) [0..<11] @
     [[CHR 0xE2, CHR 0x80, CHR 0xA8], [CHR 0xE2, CHR 0x80, CHR 0xA9], [CHR 0xE2, CHR 0x80, CHR 0xAF],
      [CHR 0xE2, CHR 0x81, CHR 0x9F], [CHR 0xE3, CHR 0x80, CHR 0x80]]"

definition IsSpace :: "string \<Rightarrow> bool" where
  "IsSpace r \<longleftrightarrow> r \<in> set space_runes"

definition TrimSpace :: "string \<Rightarrow> string" where
  "TrimSpace s = concat (rev (dropWhile IsSpace (rev (dropWhile IsSpace (runes s)))))"

end
