(* ===== verification/Redis.thy ===== *)
theory Redis
  imports Aksign
begin

text \<open>
  What the sources use of Redis. The server is a parameter: a function that runs a transaction
  (\<^verbatim>\<open>TxPipeline\<close>; a single command is a transaction of one) on an opaque world and may fail.
  The documented effect of the commands is written down on a view of the key space, and the
  locale \<^verbatim>\<open>redis_laws\<close> says how the parameter relates to it: a reply is the documented one, and
  a failed call has either not happened or happened without its reply getting through. A stored JSON document
  is of the opaque type \<^verbatim>\<open>'j\<close>.
\<close>

section \<open>The key space\<close>

datatype 'j rval = RStr string | RJson 'j | RSet "string list"

record 'j redis_state =
  rs_kv :: "string \<Rightarrow> ('j rval \<times> int option) option"
  rs_pub :: "(string \<times> 'j) list"

datatype 'j redis_reply =
    ReplyNil
  | ReplyOK
  | ReplyInt int
  | ReplyVal "'j rval"
  | ReplyMembers "string list"
  | ReplyVals "'j rval option list"
  | ReplyArr "'j redis_reply list"
  | ReplyErr

text \<open>
  The commands with the reply they give. A value written with \<^verbatim>\<open>SET\<close> carries the given time to
  live; \<^verbatim>\<open>INCR\<close> keeps the one of the key; an empty set does not exist; a command on a value of the wrong type
  gives an error reply and changes nothing. \<^verbatim>\<open>EVAL\<close> runs a script, atomically.
\<close>

datatype 'j redis_cmd =
    GET string
  | SET string "'j rval" int
  | SETNX string "'j rval" int
  | DEL "string list"
  | SADD string string
  | SREM string "string list"
  | EXPIRE string int
  | PTTL string
  | SMEMBERS string
  | MGET "string list"
  | INCR string
  | PUBLISH string 'j
  | EVAL "'j redis_state \<Rightarrow> 'j redis_reply list \<times> 'j redis_state"

definition set_members :: "('j rval \<times> int option) option \<Rightarrow> string list option" where
  "set_members v = (case v of None \<Rightarrow> Some [] | Some (RSet ms, _) \<Rightarrow> Some ms | Some _ \<Rightarrow> None)"

definition ttl_of :: "('j rval \<times> int option) option \<Rightarrow> int option" where
  "ttl_of v = (case v of None \<Rightarrow> None | Some (_, t) \<Rightarrow> t)"

definition counter_value :: "('j rval \<times> int option) option \<Rightarrow> int option" where
  "counter_value v =
     (case v of
        None \<Rightarrow> Some 0
      | Some (RStr s, _) \<Rightarrow> (case ParseInt s of Some n \<Rightarrow> if s = FormatInt n then Some n else None | None \<Rightarrow> None)
      | Some _ \<Rightarrow> None)"

fun string_value :: "('j rval \<times> int option) option \<Rightarrow> 'j rval option" where
  "string_value (Some (RStr s, t)) = Some (RStr s)"
| "string_value (Some (RJson j, t)) = Some (RJson j)"
| "string_value _ = None"

fun exec_cmd :: "'j redis_cmd \<Rightarrow> 'j redis_state \<Rightarrow> 'j redis_reply \<times> 'j redis_state" where
  "exec_cmd (GET k) s =
     (case rs_kv s k of
        None \<Rightarrow> (ReplyNil, s)
      | Some (RSet _, _) \<Rightarrow> (ReplyErr, s)
      | Some (v, _) \<Rightarrow> (ReplyVal v, s))"
| "exec_cmd (SET k v ttl) s = (ReplyOK, s\<lparr>rs_kv := (rs_kv s)(k \<mapsto> (v, if ttl > 0 then Some ttl else None))\<rparr>)"
| "exec_cmd (SETNX k v ttl) s =
     (case rs_kv s k of
        None \<Rightarrow> (ReplyInt 1, s\<lparr>rs_kv := (rs_kv s)(k \<mapsto> (v, if ttl > 0 then Some ttl else None))\<rparr>)
      | Some _ \<Rightarrow> (ReplyInt 0, s))"
| "exec_cmd (DEL ks) s =
     (ReplyInt (int (length (filter (\<lambda>k. rs_kv s k \<noteq> None) (remdups ks)))),
      s\<lparr>rs_kv := (\<lambda>k. if k \<in> set ks then None else rs_kv s k)\<rparr>)"
| "exec_cmd (SADD k m) s =
     (case set_members (rs_kv s k) of
        None \<Rightarrow> (ReplyErr, s)
      | Some ms \<Rightarrow>
          if m \<in> set ms then (ReplyInt 0, s)
          else (ReplyInt 1, s\<lparr>rs_kv := (rs_kv s)(k \<mapsto> (RSet (ms @ [m]), ttl_of (rs_kv s k)))\<rparr>))"
| "exec_cmd (SREM k xs) s =
     (case set_members (rs_kv s k) of
        None \<Rightarrow> (ReplyErr, s)
      | Some ms \<Rightarrow>
          let left = filter (\<lambda>m. m \<notin> set xs) ms
          in (ReplyInt (int (length ms) - int (length left)),
              s\<lparr>rs_kv := (rs_kv s)(k := (if left = [] then None else Some (RSet left, ttl_of (rs_kv s k))))\<rparr>))"
| "exec_cmd (EXPIRE k ttl) s =
     (case rs_kv s k of
        None \<Rightarrow> (ReplyInt 0, s)
      | Some (v, _) \<Rightarrow> (ReplyInt 1, s\<lparr>rs_kv := (rs_kv s)(k := (if ttl > 0 then Some (v, Some ttl) else None))\<rparr>))"
| "exec_cmd (PTTL k) s =
     (case rs_kv s k of
        None \<Rightarrow> (ReplyInt (- 2), s)
      | Some (_, None) \<Rightarrow> (ReplyInt (- 1), s)
      | Some (_, Some t) \<Rightarrow> (ReplyInt (Milliseconds t), s))"
| "exec_cmd (SMEMBERS k) s =
     (case set_members (rs_kv s k) of None \<Rightarrow> (ReplyErr, s) | Some ms \<Rightarrow> (ReplyMembers ms, s))"
| "exec_cmd (MGET ks) s = (ReplyVals (map (\<lambda>k. string_value (rs_kv s k)) ks), s)"
| "exec_cmd (INCR k) s =
     (case counter_value (rs_kv s k) of
        None \<Rightarrow> (ReplyErr, s)
      | Some n \<Rightarrow>
          if in_int64 (n + 1)
          then (ReplyInt (n + 1), s\<lparr>rs_kv := (rs_kv s)(k \<mapsto> (RStr (FormatInt (n + 1)), ttl_of (rs_kv s k)))\<rparr>)
          else (ReplyErr, s))"
| "exec_cmd (PUBLISH ch m) s = (ReplyInt 0, s\<lparr>rs_pub := rs_pub s @ [(ch, m)]\<rparr>)"
| "exec_cmd (EVAL f) s =
     (case f s of (rs, s') \<Rightarrow>
        (if ReplyErr \<in> set rs then ReplyErr else ReplyArr rs, s'))"

fun exec_tx :: "'j redis_cmd list \<Rightarrow> 'j redis_state \<Rightarrow> 'j redis_reply list \<times> 'j redis_state" where
  "exec_tx [] s = ([], s)"
| "exec_tx (c # cs) s =
     (case exec_cmd c s of (r, s1) \<Rightarrow> case exec_tx cs s1 of (rs, s2) \<Rightarrow> (r # rs, s2))"

section \<open>The server as a parameter\<close>

type_synonym ('r, 'j) redis = "'j redis_cmd list \<Rightarrow> ('r, 'j redis_reply list) io"

text \<open>A single command; a reply list of another length is a protocol error.\<close>

definition cmd1 :: "('r, 'j) redis \<Rightarrow> 'j redis_cmd \<Rightarrow> ('r, 'j redis_reply) io" where
  "cmd1 rd c = bindE (rd [c]) (\<lambda>rs. case rs of [x] \<Rightarrow> ret x | _ \<Rightarrow> throw (Wrapped ''redis''))"

locale redis_laws =
  fixes rd :: "('r, 'j) redis" and view :: "'r \<Rightarrow> 'j redis_state"
  assumes rd_ok: "rd cs r = (Inr rs, r') \<Longrightarrow> exec_tx cs (view r) = (rs, view r') \<and> ReplyErr \<notin> set rs"
    and rd_err: "rd cs r = (Inl e, r') \<Longrightarrow> view r' \<in> {view r, snd (exec_tx cs (view r))} \<and> \<not> errors_Is e s"
begin

lemma cmd1_ok:
  assumes "cmd1 rd c r = (Inr x, r')"
  shows "exec_cmd c (view r) = (x, view r') \<and> x \<noteq> ReplyErr"
proof -
  obtain rs r1 where "rd [c] r = (Inr rs, r1)"
      "(case rs of [x] \<Rightarrow> ret x | _ \<Rightarrow> throw (Wrapped ''redis'')) r1 = (Inr x, r')"
    using assms by (auto simp: cmd1_def bindE_Inr_iff)
  then show ?thesis
    using rd_ok [of "[c]" r rs r1] by (cases rs; cases "tl rs") (auto split: prod.splits)
qed

lemma cmd1_err:
  assumes "cmd1 rd c r = (Inl e, r')"
  shows "view r' \<in> {view r, snd (exec_cmd c (view r))} \<and> \<not> errors_Is e s"
proof (cases "rd [c] r")
  case (Pair res r1)
  show ?thesis
  proof (cases res)
    case (Inl e')
    with Pair assms have "e' = e" "r1 = r'" by (auto simp: cmd1_def bindE_def)
    with Inl Pair rd_err [of "[c]" r e r' s] show ?thesis by (auto split: prod.splits)
  next
    case (Inr rs)
    with Pair assms have "(case rs of [x] \<Rightarrow> ret x | _ \<Rightarrow> throw (Wrapped ''redis'')) r1 = (Inl e, r')"
      by (simp add: cmd1_def bindE_def)
    with rd_ok [of "[c]" r rs r1] Inr Pair show ?thesis
      by (cases rs; cases "tl rs") (auto split: prod.splits)
  qed
qed

lemma cmd1_effect:
  assumes "cmd1 rd c r = (x, r')"
  shows "(view r' = view r \<and> (\<exists>e. x = Inl e)) \<or> view r' = snd (exec_cmd c (view r))"
proof (cases x)
  case (Inl e)
  then show ?thesis using cmd1_err [of c r e r' ErrNotFound] assms by auto
next
  case (Inr y)
  then show ?thesis using cmd1_ok [of c r y r'] assms by (simp add: prod_eq_iff)
qed

text \<open>A command that only reads leaves the view alone, whether or not it succeeds.\<close>

lemma cmd1_reads:
  assumes "\<And>s. snd (exec_cmd c s) = s"
  shows "keeps view (cmd1 rd c)"
proof (rule keepsI)
  fix w r w' assume "cmd1 rd c w = (r, w')"
  then show "view w' = view w"
    using assms [of "view w"] cmd1_ok [of c w _ w'] cmd1_err [of c w _ w'] by (cases r) auto
qed

end

lemma reads_simps [simp]:
  "snd (exec_cmd (GET k) s) = s" "snd (exec_cmd (PTTL k) s) = s"
  "snd (exec_cmd (SMEMBERS k) s) = s" "snd (exec_cmd (MGET ks) s) = s"
  by (auto split: option.splits rval.splits prod.splits)

text \<open>The server of the tests: the key space itself, which never fails.\<close>

definition mem_redis :: "('j redis_state, 'j) redis" where
  "mem_redis cs s =
     (case exec_tx cs s of (rs, s') \<Rightarrow>
        if ReplyErr \<in> set rs then (Inl (Wrapped ''redis''), s') else (Inr rs, s'))"

interpretation mem_redis: redis_laws mem_redis "\<lambda>s. s"
  by unfold_locales (auto simp: mem_redis_def split: prod.splits if_splits)

end
