(* ===== verification/Sdk_Cache.thy ===== *)
theory Sdk_Cache
  imports Errors "HOL-Library.Word"
begin

text \<open>
  The SDK's in-process cache of validation results (\<^verbatim>\<open>sdk/cache.go\<close>) and the token validation
  built on it (\<^verbatim>\<open>sdk/auth.go\<close>). The LRU container of \<^verbatim>\<open>hashicorp/golang-lru\<close> is a parameter: a
  record of its operations, with its documented laws as the locale \<^verbatim>\<open>lru_laws\<close>, interpreted on
  a list that keeps the most recent entries. Instants and durations are nanoseconds.
\<close>

section \<open>The LRU container\<close>

record ('l, 'e) lru_ops =
  lru_Add :: "string \<Rightarrow> 'e \<Rightarrow> 'l \<Rightarrow> 'l"
  lru_Get :: "string \<Rightarrow> 'l \<Rightarrow> 'e option \<times> 'l"
  lru_Peek :: "string \<Rightarrow> 'l \<Rightarrow> 'e option"
  lru_Remove :: "string \<Rightarrow> 'l \<Rightarrow> 'l"
  lru_Purge :: "'l \<Rightarrow> 'l"
  lru_Keys :: "'l \<Rightarrow> string list"

section \<open>The cache\<close>

text \<open>The access-key material of an entry; an allowed prefix is of the opaque type \<^verbatim>\<open>'ip\<close>.\<close>

record 'ip accessKeyEntry =
  ake_id :: string
  ake_secret :: string
  ake_remark :: string
  ake_allowed :: "'ip list"

record 'ip entry =
  e_appID :: string
  e_userID :: string
  e_sessionID :: string
  e_rotatedTo :: string
  e_roles :: "string list"
  e_accessKey :: "'ip accessKeyEntry option"
  e_cachedAt :: int
  e_ttl :: int

definition accessKeyCacheKey :: "string \<Rightarrow> string" where
  "accessKeyCacheKey i = ''ak:'' @ i"

text \<open>\<^verbatim>\<open>cacheMiss\<close>, \<^verbatim>\<open>cacheFresh\<close>, \<^verbatim>\<open>cacheStale\<close>, with the entry \<^verbatim>\<open>get\<close> returns beside them.\<close>

datatype 'ip cacheResult = cacheMiss | cacheFresh "'ip entry" | cacheStale "'ip entry"

record 'l cache =
  lru :: 'l
  gen :: "64 word"

definition generation :: "'l cache \<Rightarrow> 64 word" where
  "generation c = gen c"

definition put :: "('l, 'ip entry) lru_ops \<Rightarrow> int \<Rightarrow> string \<Rightarrow> 'ip entry \<Rightarrow> int \<Rightarrow> 'l cache \<Rightarrow> 'l cache" where
  "put L now token e ttl c =
     (if ttl \<le> 0 then c
      else c\<lparr>lru := lru_Add L token (e\<lparr>e_cachedAt := now, e_ttl := ttl\<rparr>) (lru c)\<rparr>)"

definition putIfGen ::
  "('l, 'ip entry) lru_ops \<Rightarrow> int \<Rightarrow> string \<Rightarrow> 'ip entry \<Rightarrow> int \<Rightarrow> 64 word \<Rightarrow> 'l cache \<Rightarrow> 'l cache" where
  "putIfGen L now token e ttl g c = (if gen c \<noteq> g then c else put L now token e ttl c)"

definition get ::
  "('l, 'ip entry) lru_ops \<Rightarrow> int \<Rightarrow> string \<Rightarrow> int \<Rightarrow> int \<Rightarrow> 'l cache \<Rightarrow> 'ip cacheResult \<times> 'l cache" where
  "get L now token maxTTL maxStale c =
     (case lru_Get L token (lru c) of
        (None, l) \<Rightarrow> (cacheMiss, c\<lparr>lru := l\<rparr>)
      | (Some e, l) \<Rightarrow>
          let effective = (if maxTTL > 0 \<and> maxTTL < e_ttl e then maxTTL else e_ttl e);
              age = now - e_cachedAt e
          in if age < effective then (cacheFresh e, c\<lparr>lru := l\<rparr>)
             else if maxStale > 0 \<and> age < wrap64 (effective + maxStale) then (cacheStale e, c\<lparr>lru := l\<rparr>)
             else (cacheMiss, c\<lparr>lru := lru_Remove L token l\<rparr>))"

definition drop :: "('l, 'ip entry) lru_ops \<Rightarrow> string list \<Rightarrow> 'l cache \<Rightarrow> 'l cache" where
  "drop L tokens c = c\<lparr>gen := gen c + 1, lru := fold (lru_Remove L) tokens (lru c)\<rparr>"

definition purge :: "('l, 'ip entry) lru_ops \<Rightarrow> 'l cache \<Rightarrow> 'l cache" where
  "purge L c = c\<lparr>gen := gen c + 1, lru := lru_Purge L (lru c)\<rparr>"

definition dropUser :: "('l, 'ip entry) lru_ops \<Rightarrow> string \<Rightarrow> 'l cache \<Rightarrow> 'l cache" where
  "dropUser L userID c =
     (if userID = [] then c
      else c\<lparr>lru := fold (\<lambda>k l. case lru_Peek L k l of
                              Some e \<Rightarrow> if e_userID e = userID then lru_Remove L k l else l
                            | None \<Rightarrow> l)
                      (lru_Keys L (lru c)) (lru c)\<rparr>)"

section \<open>Token validation in the SDK (\<^verbatim>\<open>sdk/auth.go\<close>)\<close>

record Identity =
  id_UserID :: string
  id_SessionID :: string
  id_RotatedTo :: string
  id_Roles :: "string list"
  id_Stale :: bool
  id_GuestID :: string
  id_AccessKeyID :: string
  id_AccessKeyRemark :: string

record sdk_opts =
  DegradedCacheTTL :: int
  AllowStaleOnOutage :: bool
  MaxStaleness :: int

text \<open>The fields of a \<^verbatim>\<open>ValidateTokenResponse\<close> the SDK reads.\<close>

record validate_resp =
  vr_user_id :: string
  vr_session_id :: string
  vr_new_token :: string
  vr_roles :: "string list"
  vr_cache_ttl_ms :: int

definition identityFrom :: "'ip entry \<Rightarrow> bool \<Rightarrow> Identity" where
  "identityFrom e stale =
     \<lparr>id_UserID = e_userID e, id_SessionID = e_sessionID e, id_RotatedTo = e_rotatedTo e,
      id_Roles = e_roles e, id_Stale = stale, id_GuestID = [], id_AccessKeyID = [], id_AccessKeyRemark = []\<rparr>"

datatype validate_err = ErrNoToken | Translated sdk_err | ErrUnavailable grpc_code

definition resp_entry :: "string \<Rightarrow> validate_resp \<Rightarrow> 'ip entry" where
  "resp_entry app res =
     \<lparr>e_appID = app, e_userID = vr_user_id res, e_sessionID = vr_session_id res,
      e_rotatedTo = vr_new_token res, e_roles = vr_roles res, e_accessKey = None,
      e_cachedAt = 0, e_ttl = 0\<rparr>"

text \<open>
  \<^verbatim>\<open>Validate\<close> for the leader of a flight. \<^verbatim>\<open>app\<close> is the call's application scope; \<^verbatim>\<open>t1\<close>,
  \<^verbatim>\<open>t2\<close>, \<^verbatim>\<open>t3\<close> are the clock readings of the first lookup, of the write and of the stale
  lookup. While the RPC is in flight other goroutines act on the cache: \<^verbatim>\<open>env\<close> is what they do.
  \<^verbatim>\<open>rpc\<close> is the outcome of \<^verbatim>\<open>ValidateToken\<close>.
\<close>

definition Validate ::
  "('l, 'ip entry) lru_ops \<Rightarrow> sdk_opts \<Rightarrow> bool \<Rightarrow> string \<Rightarrow> int \<Rightarrow> int \<Rightarrow> int \<Rightarrow>
     (string \<Rightarrow> grpc_status + validate_resp) \<Rightarrow> ('l cache \<Rightarrow> 'l cache) \<Rightarrow> string \<Rightarrow> 'l cache \<Rightarrow>
     (validate_err + Identity) \<times> 'l cache" where
  "Validate L opts healthy app t1 t2 t3 rpc env token c =
     (if token = [] then (Inl ErrNoToken, c)
      else
        let maxTTL = (if healthy then 0 else DegradedCacheTTL opts);
            maxStale = (if AllowStaleOnOutage opts then MaxStaleness opts else 0);
            (r, c1) = get L t1 token maxTTL maxStale c;
            fallback = (\<lambda>st c2.
              if maxStale > 0 then
                (case get L t3 token maxTTL maxStale c2 of
                   (cacheStale e, c3) \<Rightarrow>
                     if e_appID e = app \<and> e_accessKey e = None
                     then (Inr (identityFrom e True), c3) else (Inl (ErrUnavailable (st_code st)), c3)
                 | (_, c3) \<Rightarrow> (Inl (ErrUnavailable (st_code st)), c3))
              else (Inl (ErrUnavailable (st_code st)), c2));
            remote = (let g = generation c1; c2 = env c1
              in case rpc token of
                   Inr res \<Rightarrow>
                     (Inr (identityFrom (resp_entry app res :: 'ip entry) False),
                      putIfGen L t2 token (resp_entry app res) (dur_millis (vr_cache_ttl_ms res)) g c2)
                 | Inl st \<Rightarrow>
                     if st_code st \<in> {Unauthenticated, PermissionDenied, NotFound}
                     then (Inl (Translated (translate_with translate_sentinel st)), c2)
                     else fallback st c2)
        in case r of
             cacheFresh e \<Rightarrow>
               if e_appID e = app \<and> e_accessKey e = None then (Inr (identityFrom e False), c1) else remote
           | _ \<Rightarrow> remote)"

text \<open>
  \<^verbatim>\<open>onRevoke\<close>: the cache is cleared first; the second component is the event handed to
  \<^verbatim>\<open>Options.OnRevoke\<close>, when one is set.
\<close>

record sdk_revoke_event =
  sre_Tokens :: "string list"
  sre_UserIDs :: "string list"
  sre_AppID :: string
  sre_Reason :: string
  sre_AtMs :: int

definition onRevoke ::
  "('l, 'ip entry) lru_ops \<Rightarrow> bool \<Rightarrow> sdk_revoke_event \<Rightarrow> 'l cache \<Rightarrow> 'l cache \<times> sdk_revoke_event option" where
  "onRevoke L has_callback ev c = (drop L (sre_Tokens ev) c, if has_callback then Some ev else None)"

definition onPurge :: "('l, 'ip entry) lru_ops \<Rightarrow> 'l cache \<Rightarrow> 'l cache" where
  "onPurge L c = purge L c"

text \<open>\<^verbatim>\<open>Logout\<close>: the RPC's outcome is translated, the cache entry is dropped either way.\<close>

definition Logout ::
  "('l, 'ip entry) lru_ops \<Rightarrow> (string \<Rightarrow> grpc_status option) \<Rightarrow> string \<Rightarrow> 'l cache \<Rightarrow> sdk_err option \<times> 'l cache" where
  "Logout L rpc token c = (translate (rpc token), drop L [token] c)"

section \<open>Flights, invalidations and lookups, interleaved\<close>

text \<open>
  The cache as a state machine over the goroutines of the SDK. \<^verbatim>\<open>s_flights\<close> are the RPCs under
  way: token, captured generation and, as history variable, how many invalidations came before the
  capture. The other history variables: \<^verbatim>\<open>s_inval\<close> counts invalidations, \<^verbatim>\<open>s_last\<close> is the
  number of the last one that hit a token, \<^verbatim>\<open>s_birth\<close> the count the flight that wrote a
  token's entry started with.
\<close>

record 'l sys =
  s_cache :: "'l cache"
  s_flights :: "(string \<times> 64 word \<times> nat) list"
  s_inval :: nat
  s_last :: "string \<Rightarrow> nat"
  s_birth :: "string \<Rightarrow> nat"

inductive sys_step :: "('l, 'ip entry) lru_ops \<Rightarrow> 'l sys \<Rightarrow> 'l sys \<Rightarrow> bool" for L where
  launch:
    "sys_step L s (s\<lparr>s_flights := (t, generation (s_cache s), s_inval s) # s_flights s\<rparr>)"
| land:
    "(t, g, n) \<in> set (s_flights s) \<Longrightarrow>
     sys_step L s (s\<lparr>s_cache := putIfGen L now t e ttl g (s_cache s),
                     s_flights := remove1 (t, g, n) (s_flights s),
                     s_birth := (if gen (s_cache s) = g \<and> 0 < ttl then (s_birth s)(t := n) else s_birth s)\<rparr>)"
| land_error:
    "f \<in> set (s_flights s) \<Longrightarrow> sys_step L s (s\<lparr>s_flights := remove1 f (s_flights s)\<rparr>)"
| lookup:
    "sys_step L s (s\<lparr>s_cache := snd (get L now t maxTTL maxStale (s_cache s))\<rparr>)"
| revoked:
    "sys_step L s (s\<lparr>s_cache := fst (onRevoke L cb ev (s_cache s)), s_inval := Suc (s_inval s),
                     s_last := (\<lambda>t. if t \<in> set (sre_Tokens ev) then Suc (s_inval s) else s_last s t)\<rparr>)"
| logged_out:
    "sys_step L s (s\<lparr>s_cache := snd (Logout L rpc t (s_cache s)), s_inval := Suc (s_inval s),
                     s_last := (s_last s)(t := Suc (s_inval s))\<rparr>)"
| purged:
    "sys_step L s (s\<lparr>s_cache := onPurge L (s_cache s), s_inval := Suc (s_inval s),
                     s_last := (\<lambda>_. Suc (s_inval s))\<rparr>)"
| roles_changed:
    "sys_step L s (s\<lparr>s_cache := dropUser L u (s_cache s)\<rparr>)"

definition sys_init :: "'l \<Rightarrow> 'l sys" where
  "sys_init l = \<lparr>s_cache = \<lparr>lru = l, gen = 0\<rparr>, s_flights = [], s_inval = 0, s_last = (\<lambda>_. 0), s_birth = (\<lambda>_. 0)\<rparr>"

definition sys_inv :: "('l, 'ip entry) lru_ops \<Rightarrow> 'l sys \<Rightarrow> bool" where
  "sys_inv L s \<longleftrightarrow> gen (s_cache s) = of_nat (s_inval s) \<and>
     (\<forall>(t, g, n) \<in> set (s_flights s). g = of_nat n \<and> n \<le> s_inval s) \<and>
     (\<forall>t. s_last s t \<le> s_inval s) \<and>
     (\<forall>t. lru_Peek L t (lru (s_cache s)) \<noteq> None \<longrightarrow> s_last s t \<le> s_birth s t)"

lemma sys_invI:
  assumes "gen (s_cache s) = of_nat (s_inval s)"
    and "\<And>t g n. (t, g, n) \<in> set (s_flights s) \<Longrightarrow> g = of_nat n \<and> n \<le> s_inval s"
    and "\<And>t. s_last s t \<le> s_inval s"
    and "\<And>t. lru_Peek L t (lru (s_cache s)) \<noteq> None \<Longrightarrow> s_last s t \<le> s_birth s t"
  shows "sys_inv L s"
  using assms by (fastforce simp: sys_inv_def)

lemma sys_invD:
  assumes "sys_inv L s"
  shows "gen (s_cache s) = of_nat (s_inval s)"
    and "(t, g, n) \<in> set (s_flights s) \<Longrightarrow> g = of_nat n \<and> n \<le> s_inval s"
    and "s_last s t \<le> s_inval s"
    and "lru_Peek L t (lru (s_cache s)) \<noteq> None \<Longrightarrow> s_last s t \<le> s_birth s t"
  using assms by (auto simp: sys_inv_def)

lemma of_nat_word64_inj:
  "m \<le> n \<Longrightarrow> n < 2 ^ 64 \<Longrightarrow> of_nat m = (of_nat n :: 64 word) \<longleftrightarrow> m = n"
  by (simp add: word_of_nat_eq_iff take_bit_nat_eq_self)

section \<open>The laws of the container and what the cache promises on them\<close>

locale lru_laws =
  fixes L :: "('l, 'ip entry) lru_ops"
  assumes Get_result: "fst (lru_Get L k l) = lru_Peek L k l"
    and Get_keeps: "lru_Peek L k' (snd (lru_Get L k l)) = lru_Peek L k' l"
    and Add_same: "lru_Peek L k (lru_Add L k e l) = Some e"
    and Add_other: "k' \<noteq> k \<Longrightarrow> lru_Peek L k' (lru_Add L k e l) \<in> {lru_Peek L k' l, None}"
    and Remove: "lru_Peek L k' (lru_Remove L k l) = (if k' = k then None else lru_Peek L k' l)"
    and Purge: "lru_Peek L k (lru_Purge L l) = None"
    and Keys: "set (lru_Keys L l) = {k. lru_Peek L k l \<noteq> None}"
begin

lemma Get_cases:
  obtains l' where "lru_Get L k l = (lru_Peek L k l, l')" and "\<And>k'. lru_Peek L k' l' = lru_Peek L k' l"
proof -
  have "lru_Get L k l = (lru_Peek L k l, snd (lru_Get L k l))"
    using Get_result [of k l] by (metis prod.collapse)
  with Get_keeps that show thesis by blast
qed

lemma Peek_fold_Remove:
  "lru_Peek L k (fold (lru_Remove L) ts l) = (if k \<in> set ts then None else lru_Peek L k l)"
  by (induction ts arbitrary: l) (auto simp: Remove)

lemma drop_removes: "t \<in> set ts \<Longrightarrow> lru_Peek L t (lru (drop L ts c)) = None"
  by (simp add: drop_def Peek_fold_Remove)

lemma drop_keeps_others: "t \<notin> set ts \<Longrightarrow> lru_Peek L t (lru (drop L ts c)) = lru_Peek L t (lru c)"
  by (simp add: drop_def Peek_fold_Remove)

lemma purge_empties: "lru_Peek L t (lru (purge L c)) = None"
  by (simp add: purge_def Purge)

lemma put_Peek:
  "lru_Peek L k (lru (put L now k e ttl c)) =
     (if ttl \<le> 0 then lru_Peek L k (lru c) else Some (e\<lparr>e_cachedAt := now, e_ttl := ttl\<rparr>))"
  by (simp add: put_def Add_same)

lemma get_sound:
  assumes "get L now token maxTTL maxStale c = (r, c')"
  shows "gen c' = gen c \<and>
    (case r of
       cacheMiss \<Rightarrow> True
     | cacheFresh e \<Rightarrow> lru_Peek L token (lru c) = Some e \<and> now - e_cachedAt e < e_ttl e \<and>
         (maxTTL > 0 \<longrightarrow> now - e_cachedAt e < maxTTL)
     | cacheStale e \<Rightarrow> lru_Peek L token (lru c) = Some e \<and> maxStale > 0 \<and>
         (in_int64 (e_ttl e + maxStale) \<longrightarrow> now - e_cachedAt e < e_ttl e + maxStale))"
proof -
  obtain l' where "lru_Get L token (lru c) = (lru_Peek L token (lru c), l')" by (rule Get_cases)
  then show ?thesis
    using assms
    by (auto simp: get_def Let_def wrap64_id in_int64_def split: option.splits if_splits)
qed

lemma get_only_removes:
  assumes "get L now token maxTTL maxStale c = (r, c')"
  shows "lru_Peek L k (lru c') \<in> {lru_Peek L k (lru c), None}"
proof -
  obtain l' where "lru_Get L token (lru c) = (lru_Peek L token (lru c), l')"
    and "\<And>k'. lru_Peek L k' l' = lru_Peek L k' (lru c)" using Get_cases [of token "lru c"] by blast
  then show ?thesis
    using assms by (auto simp: get_def Let_def Remove split: option.splits if_splits)
qed

text \<open>An answer served without the server comes from a cached token entry of the same scope.\<close>

lemma Validate_offline:
  assumes "Validate L opts healthy app t1 t2 t3 rpc env token c = (Inr ident, c')"
    and "\<And>t. \<exists>st. rpc t = Inl st"
  shows "(\<exists>e. lru_Peek L token (lru c) = Some e \<and> e_appID e = app \<and> e_accessKey e = None \<and>
            ident = identityFrom e False \<and> t1 - e_cachedAt e < e_ttl e \<and>
            (\<not> healthy \<and> DegradedCacheTTL opts > 0 \<longrightarrow> t1 - e_cachedAt e < DegradedCacheTTL opts)) \<or>
         (AllowStaleOnOutage opts \<and> (\<exists>e. lru_Peek L token (lru (env (snd (get L t1 token
              (if healthy then 0 else DegradedCacheTTL opts) (MaxStaleness opts) c)))) = Some e \<and> e_appID e = app \<and>
            e_accessKey e = None \<and> ident = identityFrom e True \<and>
            (in_int64 (e_ttl e + MaxStaleness opts) \<longrightarrow> t3 - e_cachedAt e < e_ttl e + MaxStaleness opts)))"
proof -
  obtain st where st: "rpc token = Inl st" using assms(2) by blast
  obtain r c1 where g: "get L t1 token (if healthy then 0 else DegradedCacheTTL opts)
      (if AllowStaleOnOutage opts then MaxStaleness opts else 0) c = (r, c1)" by fastforce
  obtain r2 c2 where g2: "get L t3 token (if healthy then 0 else DegradedCacheTTL opts)
      (if AllowStaleOnOutage opts then MaxStaleness opts else 0) (env c1) = (r2, c2)" by fastforce
  note s = get_sound [OF g] and s2 = get_sound [OF g2]
  show ?thesis
  proof (cases "\<exists>e. r = cacheFresh e \<and> e_appID e = app \<and> e_accessKey e = None")
    case True
    then obtain e where e: "r = cacheFresh e" "e_appID e = app" "e_accessKey e = None" by blast
    then have "ident = identityFrom e False"
      using assms(1) g by (auto simp: Validate_def Let_def split: if_splits)
    then show ?thesis using s e by (auto split: if_splits)
  next
    case False
    then obtain e where "r2 = cacheStale e" "e_appID e = app" "e_accessKey e = None"
        "ident = identityFrom e True" "AllowStaleOnOutage opts"
      using assms(1) g g2 st
      by (cases r; cases r2; auto simp: Validate_def Let_def split: if_splits)
    moreover have "lru_Peek L token (lru (env c1)) = Some e \<and>
        (in_int64 (e_ttl e + MaxStaleness opts) \<longrightarrow> t3 - e_cachedAt e < e_ttl e + MaxStaleness opts)"
      using s2 calculation by (simp split: if_splits)
    ultimately show ?thesis using g by (intro disjI2 conjI exI [of _ e]) auto
  qed
qed

text \<open>A flight that an invalidation overtook leaves no trace of its answer.\<close>

lemma Validate_overtaken:
  assumes "gen (env c1) \<noteq> gen c1" and "lru_Peek L token (lru (env c1)) = None"
    and "c1 = snd (get L t1 token (if healthy then 0 else DegradedCacheTTL opts)
                     (if AllowStaleOnOutage opts then MaxStaleness opts else 0) c)"
    and "Validate L opts healthy app t1 t2 t3 rpc env token c = (res, c')" and "c' \<noteq> c" and "c' \<noteq> c1"
  shows "lru_Peek L token (lru c') = None"
proof -
  let ?mt = "if healthy then 0 else DegradedCacheTTL opts"
  let ?ms = "if AllowStaleOnOutage opts then MaxStaleness opts else 0"
  obtain r where g: "get L t1 token ?mt ?ms c = (r, c1)" using assms(3) by (metis prod.collapse)
  obtain r2 c2 where g2: "get L t3 token ?mt ?ms (env c1) = (r2, c2)" by fastforce
  have p2: "lru_Peek L token (lru c2) = None"
    using get_only_removes [OF g2, of token] assms(2) by auto
  have "putIfGen L t2 token e ttl (generation c1) (env c1) = env c1" for e ttl
    using assms(1) by (simp add: putIfGen_def generation_def)
  then have "c' \<in> {c, c1, env c1, c2}"
    using assms(4) g g2
    by (auto simp: Validate_def Let_def split: if_splits sum.splits cacheResult.splits)
  then show ?thesis using assms(2,5,6) p2 by auto
qed

lemma Peek_dropUser_fold:
  "lru_Peek L k (fold (\<lambda>k l. case lru_Peek L k l of
       Some e \<Rightarrow> if e_userID e = u then lru_Remove L k l else l | None \<Rightarrow> l) ks l) =
     (case lru_Peek L k l of
        Some e \<Rightarrow> if k \<in> set ks \<and> e_userID e = u then None else Some e
      | None \<Rightarrow> None)"
  by (induction ks arbitrary: l) (auto simp: Remove split: option.splits)

lemma dropUser_removes:
  "u \<noteq> [] \<Longrightarrow> lru_Peek L k (lru (dropUser L u c)) = Some e \<Longrightarrow> e_userID e \<noteq> u"
  using Keys [of "lru c"]
  by (auto simp: dropUser_def Peek_dropUser_fold split: option.splits if_splits)

lemma dropUser_gen [simp]: "gen (dropUser L u c) = gen c"
  by (simp add: dropUser_def)

lemma dropUser_race:
  assumes "token \<noteq> []" and "lru_Peek L token (lru c) = None"
    and "0 < dur_millis (vr_cache_ttl_ms res)" and "u = vr_user_id res"
    and "Validate L opts True app t1 t2 t3 (\<lambda>_. Inr res) (dropUser L u) token c = (r, c')"
    and "t2 \<le> now" and "now < t2 + dur_millis (vr_cache_ttl_ms res)"
  shows "\<exists>e. fst (get L now token 0 0 c') = cacheFresh e \<and> e_userID e = u \<and> e_roles e = vr_roles res"
proof -
  let ?ttl = "dur_millis (vr_cache_ttl_ms res)"
  let ?ms = "if AllowStaleOnOutage opts then MaxStaleness opts else 0"
  obtain r0 c1 where g: "get L t1 token 0 ?ms c = (r0, c1)" by fastforce
  have "r0 \<noteq> cacheFresh e" for e using get_sound [OF g] assms(2) by auto
  then have "c' = putIfGen L t2 token (resp_entry app res) ?ttl (generation c1) (dropUser L u c1)"
    using assms(1,5) g by (auto simp: Validate_def Let_def split: cacheResult.splits)
  then have "lru_Peek L token (lru c') = Some ((resp_entry app res)\<lparr>e_cachedAt := t2, e_ttl := ?ttl\<rparr>)"
    using assms(3) by (simp add: putIfGen_def generation_def put_Peek)
  then show ?thesis
    using assms(4,6,7) Get_result [of token "lru c'"]
    by (auto simp: get_def resp_entry_def split: prod.split)
qed

lemma get_gen: "gen (snd (get L now t mt ms c)) = gen c"
  using get_sound [of now t mt ms c] by (metis prod.collapse)

lemma get_Peek: "lru_Peek L k (lru (snd (get L now t mt ms c))) \<noteq> None \<Longrightarrow> lru_Peek L k (lru c) \<noteq> None"
  using get_only_removes [of now t mt ms c _ _ k] by (metis insertE prod.collapse singletonD)

lemma put_other: "k \<noteq> t \<Longrightarrow> lru_Peek L k (lru (put L now t e ttl c)) \<noteq> None \<Longrightarrow> lru_Peek L k (lru c) \<noteq> None"
  using Add_other [of k t "e\<lparr>e_cachedAt := now, e_ttl := ttl\<rparr>" "lru c"] by (auto simp: put_def split: if_splits)

lemma land_inv:
  assumes inv: "sys_inv L s" and mem: "(t, g, n) \<in> set (s_flights s)" and small: "s_inval s < 2 ^ 64"
  shows "sys_inv L (s\<lparr>s_cache := putIfGen L now t e ttl g (s_cache s),
                     s_flights := remove1 (t, g, n) (s_flights s),
                     s_birth := (if gen (s_cache s) = g \<and> 0 < ttl then (s_birth s)(t := n) else s_birth s)\<rparr>)"
    (is "sys_inv L ?s'")
proof (rule sys_invI)
  note D = sys_invD [OF inv]
  show "gen (s_cache ?s') = of_nat (s_inval ?s')" using D(1) by (simp add: putIfGen_def put_def)
  show "g' = of_nat n' \<and> n' \<le> s_inval ?s'" if "(t', g', n') \<in> set (s_flights ?s')" for t' g' n'
    using that D(2) notin_set_remove1 by fastforce
  show "s_last ?s' k \<le> s_inval ?s'" for k using D(3) by simp
  show "s_last ?s' k \<le> s_birth ?s' k" if "lru_Peek L k (lru (s_cache ?s')) \<noteq> None" for k
  proof (cases "gen (s_cache s) = g \<and> 0 < ttl")
    case True
    then have "n = s_inval s" using D(1) D(2) [OF mem] of_nat_word64_inj small by metis
    then show ?thesis using True that D(3) D(4) [of k] put_other [of k t now e ttl "s_cache s"]
      by (auto simp: putIfGen_def)
  next
    case False
    then have "putIfGen L now t e ttl g (s_cache s) = s_cache s" by (auto simp: putIfGen_def put_def)
    then show ?thesis using False that D(4) by auto
  qed
qed

lemma invalidation_inv:
  assumes inv: "sys_inv L s" and "gen c' = gen (s_cache s) + 1"
    and "\<And>t. lru_Peek L t (lru c') \<noteq> None \<Longrightarrow> lru_Peek L t (lru (s_cache s)) \<noteq> None \<and> last' t = s_last s t"
    and "\<And>t. last' t \<in> {s_last s t, Suc (s_inval s)}"
  shows "sys_inv L (s\<lparr>s_cache := c', s_inval := Suc (s_inval s), s_last := last'\<rparr>)"
proof (rule sys_invI)
  note D = sys_invD [OF inv]
  fix t g n
  show "gen (s_cache (s\<lparr>s_cache := c', s_inval := Suc (s_inval s), s_last := last'\<rparr>)) =
      of_nat (s_inval (s\<lparr>s_cache := c', s_inval := Suc (s_inval s), s_last := last'\<rparr>))"
    using D(1) assms(2) by simp
  show "g = of_nat n \<and> n \<le> s_inval (s\<lparr>s_cache := c', s_inval := Suc (s_inval s), s_last := last'\<rparr>)"
    if "(t, g, n) \<in> set (s_flights (s\<lparr>s_cache := c', s_inval := Suc (s_inval s), s_last := last'\<rparr>))"
    using that D(2) by force
  show "s_last (s\<lparr>s_cache := c', s_inval := Suc (s_inval s), s_last := last'\<rparr>) t
      \<le> s_inval (s\<lparr>s_cache := c', s_inval := Suc (s_inval s), s_last := last'\<rparr>)"
    using D(3) [of t] assms(4) [of t] by auto
  show "s_last (s\<lparr>s_cache := c', s_inval := Suc (s_inval s), s_last := last'\<rparr>) t
      \<le> s_birth (s\<lparr>s_cache := c', s_inval := Suc (s_inval s), s_last := last'\<rparr>) t"
    if "lru_Peek L t (lru (s_cache (s\<lparr>s_cache := c', s_inval := Suc (s_inval s), s_last := last'\<rparr>))) \<noteq> None"
    using that D(4) [of t] assms(3) [of t] by auto
qed

lemma sys_step_inv:
  assumes "sys_step L s s'" and "sys_inv L s" and "s_inval s' < 2 ^ 64"
  shows "sys_inv L s'"
  using assms
proof (cases rule: sys_step.cases)
  case (launch t)
  then show ?thesis using assms(2) by (auto simp: sys_inv_def generation_def)
next
  case (land t g n now e ttl)
  then show ?thesis using land_inv assms(2,3) by simp
next
  case (land_error f)
  then show ?thesis using assms(2) notin_set_remove1 by (fastforce simp: sys_inv_def)
next
  case (lookup now t mt ms)
  then show ?thesis using assms(2) get_Peek [of _ now t mt ms "s_cache s"]
    by (auto simp: sys_inv_def get_gen simp del: not_None_eq)
next
  case (revoked cb ev)
  show ?thesis unfolding revoked
    by (rule invalidation_inv [OF assms(2)]) (auto simp: onRevoke_def drop_def Peek_fold_Remove split: if_splits)
next
  case (logged_out rpc t)
  show ?thesis unfolding logged_out
    by (rule invalidation_inv [OF assms(2)]) (auto simp: Logout_def drop_def Remove split: if_splits)
next
  case purged
  show ?thesis unfolding purged
    by (rule invalidation_inv [OF assms(2)]) (auto simp: onPurge_def purge_def Purge)
next
  case (roles_changed u)
  have "lru_Peek L k (lru (dropUser L u c)) \<noteq> None \<Longrightarrow> lru_Peek L k (lru c) \<noteq> None" for k and c :: "'l cache"
    by (auto simp: dropUser_def Peek_dropUser_fold split: option.splits if_splits)
  then show ?thesis using roles_changed assms(2) by (auto simp: sys_inv_def)
qed

lemma sys_step_inval_mono: "sys_step L s s' \<Longrightarrow> s_inval s \<le> s_inval s'"
  by (cases rule: sys_step.cases) auto

lemma sys_run_inv:
  assumes "(sys_step L)\<^sup>*\<^sup>* (sys_init l) s" and "\<And>k. lru_Peek L k l = None" and "s_inval s < 2 ^ 64"
  shows "sys_inv L s"
  using assms(1,3)
proof (induction rule: rtranclp_induct)
  case base
  then show ?case using assms(2) by (simp add: sys_inv_def sys_init_def)
next
  case (step s s')
  then have "s_inval s < 2 ^ 64" using sys_step_inval_mono by fastforce
  with step show ?case using sys_step_inv by blast
qed

end

section \<open>A list as the container\<close>

definition list_Get :: "string \<Rightarrow> (string \<times> 'e) list \<Rightarrow> 'e option \<times> (string \<times> 'e) list" where
  "list_Get k l =
     (case map_of l k of
        None \<Rightarrow> (None, l)
      | Some e \<Rightarrow> (Some e, (k, e) # filter (\<lambda>p. fst p \<noteq> k) l))"

definition list_lru :: "nat \<Rightarrow> ((string \<times> 'e) list, 'e) lru_ops" where
  "list_lru n =
     \<lparr>lru_Add = (\<lambda>k e l. take (Suc n) ((k, e) # filter (\<lambda>p. fst p \<noteq> k) l)),
      lru_Get = list_Get,
      lru_Peek = (\<lambda>k l. map_of l k),
      lru_Remove = (\<lambda>k l. filter (\<lambda>p. fst p \<noteq> k) l),
      lru_Purge = (\<lambda>l. []),
      lru_Keys = (\<lambda>l. map fst l)\<rparr>"

lemma map_of_filter_neq: "map_of (filter (\<lambda>p. fst p \<noteq> k) l) k' = (if k' = k then None else map_of l k')"
  by (induction l) auto

lemma map_of_take: "map_of (take n l) k \<in> {map_of l k, None}"
proof (induction l arbitrary: n)
  case (Cons p l)
  then show ?case by (cases n; cases p) auto
qed simp

interpretation list_lru: lru_laws "list_lru n :: ((string \<times> 'ip entry) list, 'ip entry) lru_ops" for n
proof unfold_locales
  fix k k' :: string and e :: "'ip entry" and l :: "(string \<times> 'ip entry) list"
  show "fst (lru_Get (list_lru n) k l) = lru_Peek (list_lru n) k l"
    by (simp add: list_lru_def list_Get_def split: option.split)
  show "lru_Peek (list_lru n) k' (snd (lru_Get (list_lru n) k l)) = lru_Peek (list_lru n) k' l"
    by (auto simp: list_lru_def list_Get_def map_of_filter_neq split: option.split)
  show "lru_Peek (list_lru n) k (lru_Add (list_lru n) k e l) = Some e"
    by (simp add: list_lru_def)
  show "lru_Peek (list_lru n) k' (lru_Add (list_lru n) k e l) \<in> {lru_Peek (list_lru n) k' l, None}" if "k' \<noteq> k"
    using that map_of_take [of n "filter (\<lambda>p. fst p \<noteq> k) l" k'] by (simp add: list_lru_def map_of_filter_neq)
  show "lru_Peek (list_lru n) k' (lru_Remove (list_lru n) k l) = (if k' = k then None else lru_Peek (list_lru n) k' l)"
    by (simp add: list_lru_def map_of_filter_neq)
  show "lru_Peek (list_lru n) k (lru_Purge (list_lru n) l) = None"
    by (simp add: list_lru_def)
  show "set (lru_Keys (list_lru n) l) = {k. lru_Peek (list_lru n) k l \<noteq> None}"
    by (force simp: list_lru_def map_of_eq_None_iff)
qed

section \<open>What the SDK promises\<close>


definition demo_entry :: "string \<Rightarrow> string list \<Rightarrow> unit entry" where
  "demo_entry u rs = \<lparr>e_appID = ''shop'', e_userID = u, e_sessionID = ''s1'', e_rotatedTo = [], e_roles = rs,
     e_accessKey = None, e_cachedAt = 0, e_ttl = 0\<rparr>"

text \<open>The run of the witness: a flight, a revocation, a second flight, then both land, the old one last.\<close>

definition demo_run_state :: "(string \<times> unit entry) list sys" where
  "demo_run_state = \<lparr>s_cache = \<lparr>lru = [(''t'', (demo_entry ''u'' [])\<lparr>e_cachedAt := 5, e_ttl := 10\<rparr>)], gen = 1\<rparr>,
     s_flights = [], s_inval = 1, s_last = (\<lambda>_. 0)(''t'' := 1), s_birth = (\<lambda>_. 0)(''t'' := 1)\<rparr>"

lemma demo_run: "(sys_step (list_lru 3))\<^sup>*\<^sup>* (sys_init []) demo_run_state"
proof -
  let ?L = "list_lru 3 :: ((string \<times> unit entry) list, unit entry) lru_ops"
  let ?R = "sys_step ?L"
  let ?f1 = "(''t'', 0 :: 64 word, 0 :: nat)" and ?f2 = "(''t'', 1 :: 64 word, 1 :: nat)"
  let ?c0 = "\<lparr>lru = [] :: (string \<times> unit entry) list, gen = 0\<rparr>" and ?c1 = "\<lparr>lru = [] :: (string \<times> unit entry) list, gen = 1\<rparr>"
  let ?s = "\<lambda>c fl i la bi. \<lparr>s_cache = c :: (string \<times> unit entry) list cache, s_flights = fl, s_inval = i :: nat,
              s_last = la, s_birth = bi :: string \<Rightarrow> nat\<rparr>"
  let ?z = "\<lambda>_ :: string. 0 :: nat"
  have 1: "?R (sys_init []) (?s ?c0 [?f1] 0 ?z ?z)"
    using sys_step.launch [of ?L "sys_init []" "''t''"] by (simp add: sys_init_def generation_def)
  have 2: "?R (?s ?c0 [?f1] 0 ?z ?z) (?s ?c1 [?f1] 1 (?z(''t'' := 1)) ?z)"
    using sys_step.logged_out [where L = ?L and s = "?s ?c0 [?f1] 0 ?z ?z" and t = "''t''" and rpc = "\<lambda>_. None"]
    by (simp add: Logout_def drop_def list_lru_def)
  have 3: "?R (?s ?c1 [?f1] 1 (?z(''t'' := 1)) ?z) (?s ?c1 [?f2, ?f1] 1 (?z(''t'' := 1)) ?z)"
    using sys_step.launch [of ?L "?s ?c1 [?f1] 1 (?z(''t'' := 1)) ?z" "''t''"] by (simp add: generation_def)
  have 4: "?R (?s ?c1 [?f2, ?f1] 1 (?z(''t'' := 1)) ?z) (demo_run_state\<lparr>s_flights := [?f1]\<rparr>)"
    using sys_step.land [where L = ?L and t = "''t''" and g = 1 and n = 1 and s = "?s ?c1 [?f2, ?f1] 1 (?z(''t'' := 1)) ?z"
        and now = 5 and e = "demo_entry ''u'' []" and ttl = 10]
    by (simp add: putIfGen_def put_def list_lru_def demo_run_state_def)
  have 5: "?R (demo_run_state\<lparr>s_flights := [?f1]\<rparr>) demo_run_state"
    using sys_step.land [where L = ?L and t = "''t''" and g = 0 and n = 0 and s = "demo_run_state\<lparr>s_flights := [?f1]\<rparr>"
        and now = 6 and e = "demo_entry ''u'' []" and ttl = 10]
    by (simp add: putIfGen_def demo_run_state_def)
  from 1 2 3 4 5 show ?thesis by (meson rtranclp.rtrancl_into_rtrancl rtranclp.rtrancl_refl)
qed


text \<open>
  While the server is unreachable, \<^verbatim>\<open>Validate\<close> answers only from an entry of that very token,
  written for the same application and never from access-key material (an access key's id presented as a
  token is refused); fresh answers are within their ttl, and within the degraded ttl once the push
  stream is down; stale ones need the opt-in and are at most \<^verbatim>\<open>MaxStaleness\<close> past their ttl.
\<close>

theorem Validate_offline_only_known_tokens:
  fixes L :: "('l, 'ip entry) lru_ops"
  assumes "lru_laws L"
    and "Validate L opts healthy app t1 t2 t3 (\<lambda>t. Inl (st t)) env token c = (Inr ident, c')"
  shows "(\<exists>e. lru_Peek L token (lru c) = Some e \<and> e_appID e = app \<and> e_accessKey e = None \<and>
            ident = identityFrom e False \<and> t1 - e_cachedAt e < e_ttl e \<and>
            (\<not> healthy \<and> DegradedCacheTTL opts > 0 \<longrightarrow> t1 - e_cachedAt e < DegradedCacheTTL opts)) \<or>
         (AllowStaleOnOutage opts \<and> (\<exists>e. lru_Peek L token (lru (env (snd (get L t1 token
              (if healthy then 0 else DegradedCacheTTL opts) (MaxStaleness opts) c)))) = Some e \<and> e_appID e = app \<and>
            e_accessKey e = None \<and> ident = identityFrom e True \<and>
            (in_int64 (e_ttl e + MaxStaleness opts) \<longrightarrow> t3 - e_cachedAt e < e_ttl e + MaxStaleness opts)))"
  by (rule lru_laws.Validate_offline [OF assms]) simp

definition demo_opts :: sdk_opts where
  "demo_opts = \<lparr>DegradedCacheTTL = 5, AllowStaleOnOutage = True, MaxStaleness = 100\<rparr>"

definition demo_cache :: "(string \<times> unit entry) list cache" where
  "demo_cache = \<lparr>lru = [(''t'', (demo_entry ''u'' [])\<lparr>e_cachedAt := 0, e_ttl := 10\<rparr>)], gen = 0\<rparr>"

theorem Validate_offline_only_known_tokens_witness:
  "fst (Validate (list_lru 3) demo_opts True ''shop'' 50 50 50 (\<lambda>_. Inl \<lparr>st_code = Unavailable, st_detail = None\<rparr>)
          id ''t'' demo_cache) = Inr (identityFrom (demo_entry ''u'' []) True) \<and>
   (\<exists>e. lru_Peek (list_lru 3) ''t'' (lru demo_cache) = Some e \<and> 50 - e_cachedAt e < e_ttl e + 100)"
proof -
  let ?run = "Validate (list_lru 3) demo_opts True ''shop'' 50 50 50
    (\<lambda>_. Inl \<lparr>st_code = Unavailable, st_detail = None\<rparr>) id ''t'' demo_cache"
  have v: "fst ?run = Inr (identityFrom (demo_entry ''u'' []) True)"
    by code_simp
  then have "?run = (Inr (identityFrom (demo_entry ''u'' []) True), snd ?run)" by (metis prod.collapse)
  from Validate_offline_only_known_tokens [OF list_lru.lru_laws_axioms [of 3] this]
  have "\<exists>e. lru_Peek (list_lru 3) ''t'' (lru demo_cache) = Some e \<and> 50 - e_cachedAt e < e_ttl e + 100"
    by (auto simp: demo_opts_def demo_cache_def list_lru_def list_Get_def in_int64_def get_def identityFrom_def)
  with v show ?thesis by blast
qed

text \<open>
  The role-change invalidation does not protect a flight under way. \<^verbatim>\<open>dropUser\<close> removes every
  entry of the user but leaves the generation alone, so a validation whose RPC was answered before the change
  still writes its answer: right after it the old roles are served from the cache, for the whole ttl.
\<close>

theorem dropUser_lets_stale_roles_back:
  fixes L :: "('l, 'ip entry) lru_ops"
  assumes "lru_laws L" and "token \<noteq> []" and "lru_Peek L token (lru c) = None"
    and "0 < dur_millis (vr_cache_ttl_ms res)"
    and "u = vr_user_id res"
    and "Validate L opts True app t1 t2 t3 (\<lambda>_. Inr res) (dropUser L u) token c = (r, c')"
    and "t2 \<le> now" and "now < t2 + dur_millis (vr_cache_ttl_ms res)"
  shows "\<exists>e. fst (get L now token 0 0 c') = cacheFresh e \<and> e_userID e = u \<and> e_roles e = vr_roles res"
  by (rule lru_laws.dropUser_race [OF assms])

definition demo_resp :: validate_resp where
  "demo_resp = \<lparr>vr_user_id = ''u'', vr_session_id = ''s1'', vr_new_token = [], vr_roles = [''editor''], vr_cache_ttl_ms = 60000\<rparr>"

theorem dropUser_lets_stale_roles_back_witness:
  "\<exists>e :: unit entry. fst (get (list_lru 3) 200 ''t'' 0 0
      (snd (Validate (list_lru 3) demo_opts True ''shop'' 0 100 100 (\<lambda>_. Inr demo_resp)
              (dropUser (list_lru 3) ''u'') ''t'' \<lparr>lru = [], gen = 0\<rparr>))) = cacheFresh e \<and>
    e_userID e = ''u'' \<and> e_roles e = [''editor'']"
proof -
  let ?L = "list_lru 3 :: ((string \<times> unit entry) list, unit entry) lru_ops"
  have 1: "0 < dur_millis (vr_cache_ttl_ms demo_resp)" "(200::int) < 100 + dur_millis (vr_cache_ttl_ms demo_resp)"
    by code_simp+
  have 2: "lru_Peek ?L ''t'' (lru \<lparr>lru = [], gen = 0\<rparr>) = None" by (simp add: list_lru_def)
  show ?thesis
    using dropUser_lets_stale_roles_back [OF list_lru.lru_laws_axioms [of 3] _ 2 1(1) refl prod.collapse [symmetric] _ 1(2)]
    by (simp add: demo_resp_def)
qed

end
