(* ===== verification/Sdk_Access_Key.thy ===== *)
theory Sdk_Access_Key
  imports Sdk_Cache Aksign Runes
begin

text \<open>
  Verification of requests signed with an access key in the SDK (\<^verbatim>\<open>sdk/accesskey.go\<close>), its
  replay protection (\<^verbatim>\<open>sdk/nonce.go\<close>), its error values (\<^verbatim>\<open>sdk/accesskey_error.go\<close>) and the
  recorder of last uses (\<^verbatim>\<open>sdk/usage.go\<close>). Address and prefix parsing (\<^verbatim>\<open>net\<close>, \<^verbatim>\<open>net/netip\<close>), SHA-256 and
  HMAC are parameters. Instants are nanoseconds since the Unix epoch.
\<close>

section \<open>Nonces (\<^verbatim>\<open>nonce.go\<close>)\<close>

datatype nonce_err = errNonceUsed | errNonceFull

record nonceStore =
  ns_cap :: int
  ns_seen :: "(string \<times> int) list"

definition newNonceStore :: "int \<Rightarrow> nonceStore" where
  "newNonceStore capacity = \<lparr>ns_cap = capacity, ns_seen = []\<rparr>"

text \<open>The records left after the sweep a full table triggers.\<close>

definition live_seen :: "int \<Rightarrow> nonceStore \<Rightarrow> (string \<times> int) list" where
  "live_seen t s = (if int (length (ns_seen s)) \<ge> ns_cap s then filter (\<lambda>(k, e). \<not> e \<le> t) (ns_seen s) else ns_seen s)"

definition add :: "string \<Rightarrow> int \<Rightarrow> int \<Rightarrow> nonceStore \<Rightarrow> nonce_err option \<times> nonceStore" where
  "add key expireAt t s =
     (if (case map_of (ns_seen s) key of Some e \<Rightarrow> e > t | None \<Rightarrow> False) then (Some errNonceUsed, s)
      else if int (length (live_seen t s)) \<ge> ns_cap s then (Some errNonceFull, s\<lparr>ns_seen := live_seen t s\<rparr>)
      else (None, s\<lparr>ns_seen := (key, expireAt) # filter (\<lambda>(k, e). k \<noteq> key) (live_seen t s)\<rparr>))"

section \<open>Last uses (\<^verbatim>\<open>usage.go\<close>)\<close>

type_synonym usage = "string \<rightharpoonup> int"

definition used_at :: "usage \<Rightarrow> string \<Rightarrow> int" where
  "used_at u k = (case u k of Some m \<Rightarrow> m | None \<Rightarrow> 0)"

text \<open>\<^verbatim>\<open>at.Truncate(time.Minute).UnixMilli()\<close>.\<close>

definition minute_ms :: "int \<Rightarrow> int" where
  "minute_ms t = (t div (60 * ns_per_s)) * 60 * 1000"

definition record_use :: "string \<Rightarrow> int \<Rightarrow> usage \<Rightarrow> usage" where
  "record_use akID t u = (if minute_ms t > used_at u akID then u(akID \<mapsto> minute_ms t) else u)"

definition take_batch :: "usage \<Rightarrow> usage \<times> usage" where
  "take_batch u = (u, Map.empty)"

text \<open>\<^verbatim>\<open>restore\<close> visits each key of the batch once, in any order.\<close>

definition restore :: "usage \<Rightarrow> usage \<Rightarrow> usage" where
  "restore batch u = (\<lambda>k. case batch k of
     None \<Rightarrow> u k | Some ms \<Rightarrow> if ms > used_at u k then Some ms else u k)"

text \<open>\<^verbatim>\<open>flushUsage\<close>: what is reported (if anything) and the recorder afterwards; \<^verbatim>\<open>during\<close> is what requests
  record while the report is under way.\<close>

definition flushUsage :: "(usage \<Rightarrow> bool) \<Rightarrow> (usage \<Rightarrow> usage) \<Rightarrow> usage \<Rightarrow> usage option \<times> usage" where
  "flushUsage rpc during u =
     (let (batch, u1) = take_batch u
      in if dom batch = {} then (None, u1)
         else let u2 = during u1 in (Some batch, if rpc batch then u2 else restore batch u2))"

section \<open>Errors (\<^verbatim>\<open>accesskey_error.go\<close>)\<close>

datatype ak_sentinel = AkUnauthorized | AkForbidden | AkBodyTooLarge

datatype ak_err = AccessKeyError ak_sentinel string string | AkUnavailable

definition CodeSignatureInvalid :: string where "CodeSignatureInvalid = ''SIGNATURE_INVALID''"
definition CodeTimestampExpired :: string where "CodeTimestampExpired = ''TIMESTAMP_EXPIRED''"
definition CodeAccessKeyInvalid :: string where "CodeAccessKeyInvalid = ''ACCESS_KEY_INVALID''"
definition CodeAccessKeyDisabled :: string where "CodeAccessKeyDisabled = ''ACCESS_KEY_DISABLED''"
definition CodeAccessKeyExpired :: string where "CodeAccessKeyExpired = ''ACCESS_KEY_EXPIRED''"
definition CodeSignatureMismatch :: string where "CodeSignatureMismatch = ''SIGNATURE_MISMATCH''"
definition CodeNonceUsed :: string where "CodeNonceUsed = ''NONCE_USED''"
definition CodeIPDenied :: string where "CodeIPDenied = ''IP_DENIED''"
definition CodeBodyTooLarge :: string where "CodeBodyTooLarge = ''BODY_TOO_LARGE''"

definition akErr :: "ak_sentinel \<Rightarrow> string \<Rightarrow> ak_err" where
  "akErr sentinel code = AccessKeyError sentinel code []"

text \<open>Status, code and echoed string to sign of \<^verbatim>\<open>writeAccessKeyError\<close>.\<close>

fun writeAccessKeyError :: "ak_err \<Rightarrow> (nat \<times> string \<times> string option) option" where
  "writeAccessKeyError (AccessKeyError sentinel code sts) =
     Some (case sentinel of AkUnauthorized \<Rightarrow> 401 | AkForbidden \<Rightarrow> 403 | AkBodyTooLarge \<Rightarrow> 413,
           code, if sts \<noteq> [] then Some sts else None)"
| "writeAccessKeyError AkUnavailable = None"

section \<open>Key material (\<^verbatim>\<open>accesskey.go\<close>)\<close>

text \<open>The fields of a \<^verbatim>\<open>GetAccessKeyResponse\<close> the SDK reads.\<close>

record ak_resp =
  akr_secret :: string
  akr_remark :: string
  akr_roles :: "string list"
  akr_allowed_ips :: "string list"
  akr_cache_ttl_ms :: int

record ('ip, 'addr) net_ops =
  ParsePrefix :: "string \<Rightarrow> 'ip option"
  ParseAddr :: "string \<Rightarrow> 'addr option"
  Unmap :: "'addr \<Rightarrow> 'addr"
  Contains :: "'ip \<Rightarrow> 'addr \<Rightarrow> bool"
  SplitHost :: "string \<Rightarrow> string option"

fun parse_prefixes :: "('ip, 'addr) net_ops \<Rightarrow> string list \<Rightarrow> 'ip list option" where
  "parse_prefixes N [] = Some []"
| "parse_prefixes N (s # ss) =
     (case ParsePrefix N s of
        None \<Rightarrow> None
      | Some p \<Rightarrow> map_option (\<lambda>ps. p # ps) (parse_prefixes N ss))"

text \<open>What the flight of \<^verbatim>\<open>accessKey\<close> returns: an error that is no gRPC status has the code \<^verbatim>\<open>Unknown\<close>.\<close>

definition ak_entry ::
  "('ip, 'addr) net_ops \<Rightarrow> string \<Rightarrow> string \<Rightarrow> grpc_status + ak_resp \<Rightarrow> grpc_status + 'ip entry" where
  "ak_entry N app akID rpc_res =
     (case rpc_res of
        Inl st \<Rightarrow> Inl st
      | Inr res \<Rightarrow>
          if akr_secret res = [] then Inl \<lparr>st_code = Unknown, st_detail = None\<rparr>
          else case parse_prefixes N (akr_allowed_ips res) of
            None \<Rightarrow> Inl \<lparr>st_code = Unknown, st_detail = None\<rparr>
          | Some ps \<Rightarrow>
              Inr \<lparr>e_appID = app, e_userID = [], e_sessionID = [], e_rotatedTo = [], e_roles = akr_roles res,
                   e_accessKey = Some \<lparr>ake_id = akID, ake_secret = akr_secret res, ake_remark = akr_remark res,
                                       ake_allowed = ps\<rparr>,
                   e_cachedAt = 0, e_ttl = 0\<rparr>)"

text \<open>The part of \<^verbatim>\<open>accessKey\<close> that sorts a failed flight: a definite answer, or no answer.\<close>

definition ak_definite :: "grpc_status \<Rightarrow> ak_err option" where
  "ak_definite st =
     (case translate_with translate_sentinel st of
        SdkError code _ \<Rightarrow>
          Some (if code = CodeAccessKeyInvalid then akErr AkUnauthorized CodeAccessKeyInvalid
                else if code = CodeAccessKeyDisabled then akErr AkForbidden code
                else if code = CodeAccessKeyExpired then akErr AkForbidden code
                else AkUnavailable)
      | _ \<Rightarrow>
          if st_code st \<in> {Unauthenticated, PermissionDenied, NotFound}
          then Some (akErr AkUnauthorized CodeAccessKeyInvalid) else None)"

text \<open>
  \<^verbatim>\<open>accessKey\<close> for the leader of a flight; the parameters are those of \<^verbatim>\<open>Validate\<close> in the theory of the cache.
\<close>

definition accessKey ::
  "('l, 'ip entry) lru_ops \<Rightarrow> ('ip, 'addr) net_ops \<Rightarrow> sdk_opts \<Rightarrow> bool \<Rightarrow> string \<Rightarrow> int \<Rightarrow> int \<Rightarrow> int \<Rightarrow>
     (string \<Rightarrow> grpc_status + ak_resp) \<Rightarrow> ('l cache \<Rightarrow> 'l cache) \<Rightarrow> string \<Rightarrow> 'l cache \<Rightarrow>
     (ak_err + 'ip accessKeyEntry \<times> string list \<times> bool) \<times> 'l cache" where
  "accessKey L N opts healthy app t1 t2 t3 rpc env akID c =
     (let maxTTL = (if healthy then 0 else DegradedCacheTTL opts);
          maxStale = (if AllowStaleOnOutage opts then MaxStaleness opts else 0);
          key = accessKeyCacheKey akID;
          (r, c1) = get L t1 key maxTTL maxStale c;
          fallback = (\<lambda>c2.
            if maxStale > 0 then
              (case get L t3 key maxTTL maxStale c2 of
                 (cacheStale e, c3) \<Rightarrow>
                   (case e_accessKey e of
                      Some ak \<Rightarrow> (Inr (ak, e_roles e, True), c3)
                    | None \<Rightarrow> (Inl AkUnavailable, c3))
               | (_, c3) \<Rightarrow> (Inl AkUnavailable, c3))
            else (Inl AkUnavailable, c2));
          remote = (let g = generation c1; c2 = env c1
            in case ak_entry N app akID (rpc akID) of
                 Inr e \<Rightarrow>
                   (case e_accessKey e of
                      Some ak \<Rightarrow>
                        (Inr (ak, e_roles e, False),
                         putIfGen L t2 key e (case rpc akID of Inr res \<Rightarrow> dur_millis (akr_cache_ttl_ms res) | Inl _ \<Rightarrow> 0) g c2)
                    | None \<Rightarrow> (Inl AkUnavailable, c2))
               | Inl st \<Rightarrow>
                   (case ak_definite st of
                      Some e \<Rightarrow> (Inl e, c2)
                    | None \<Rightarrow> fallback c2))
      in case r of
           cacheFresh e \<Rightarrow>
             (case e_accessKey e of Some ak \<Rightarrow> (Inr (ak, e_roles e, False), c1) | None \<Rightarrow> remote)
         | _ \<Rightarrow> remote)"

section \<open>Verification\<close>

record signed_req = http_req +
  rq_RequestURI :: string
  rq_RemoteAddr :: string

definition header_Get :: "('a http_req_scheme) \<Rightarrow> string \<Rightarrow> string" where
  "header_Get r h = (case rq_header r h of Some v \<Rightarrow> v | None \<Rightarrow> [])"

text \<open>
  \<^verbatim>\<open>readSignedBody\<close> reads at most one byte more than the limit; \<^verbatim>\<open>BodyError\<close> is a body that fails within these
  bytes. The body put back equals the one read.
\<close>

definition readSignedBody :: "'a http_req_scheme \<Rightarrow> int \<Rightarrow> ak_err + string" where
  "readSignedBody r limit =
     (case rq_body r of
        NoBody \<Rightarrow> Inr []
      | BodyError \<Rightarrow> Inl (akErr AkUnauthorized CodeSignatureInvalid)
      | Body s \<Rightarrow>
          let body = List.take (nat (wrap64 (limit + 1))) s
          in if int (length body) > limit then Inl (akErr AkBodyTooLarge CodeBodyTooLarge) else Inr body)"

definition clientIP :: "('ip, 'addr) net_ops \<Rightarrow> signed_req \<Rightarrow> 'addr option" where
  "clientIP N r =
     (let xff = header_Get r ''X-Forwarded-For'';
          raw = (if xff \<noteq> [] then TrimSpace (fst (str_Cut xff CHR '',''))
                 else case SplitHost N (rq_RemoteAddr r) of Some host \<Rightarrow> host | None \<Rightarrow> rq_RemoteAddr r)
      in map_option (Unmap N) (ParseAddr N raw))"

fun prefixesContain :: "('ip, 'addr) net_ops \<Rightarrow> 'ip list \<Rightarrow> 'addr \<Rightarrow> bool" where
  "prefixesContain N [] a = False"
| "prefixesContain N (p # ps) a = (if Contains N p a then True else prefixesContain N ps a)"

definition signatureWindow :: int where "signatureWindow = 15 * 60 * ns_per_s"

text \<open>\<^verbatim>\<open>now.Sub(time.Unix(ts, 0))\<close> saturates.\<close>

definition Sub_Unix :: "int \<Rightarrow> int \<Rightarrow> int" where
  "Sub_Unix t ts = max (- (2 ^ 63)) (min (2 ^ 63 - 1) (t - ts * ns_per_s))"

record 'l ak_state =
  ak_cache :: "'l cache"
  ak_nonces :: nonceStore
  ak_usage :: usage

text \<open>
  The first checks, on the headers and the clock alone: timestamp, signature bytes and nonce.
\<close>

definition check_headers :: "int \<Rightarrow> 'a http_req_scheme \<Rightarrow> ak_err + int \<times> string \<times> string" where
  "check_headers t r =
     (case (ParseInt (header_Get r HeaderTimestamp), hex_decode (header_Get r HeaderSignature)) of
        (Some ts, Some sig) \<Rightarrow>
          if length sig \<noteq> 32 \<or> \<not> ValidNonce (header_Get r HeaderNonce)
          then Inl (akErr AkUnauthorized CodeSignatureInvalid)
          else if Sub_Unix t ts > signatureWindow \<or> Sub_Unix t ts < - signatureWindow
          then Inl (akErr AkUnauthorized CodeTimestampExpired)
          else Inr (ts, sig, header_Get r HeaderNonce)
      | _ \<Rightarrow> Inl (akErr AkUnauthorized CodeSignatureInvalid))"

definition sts_of :: "(string \<Rightarrow> string) \<Rightarrow> signed_req \<Rightarrow> int \<Rightarrow> string \<Rightarrow> string \<Rightarrow> string" where
  "sts_of sha256 r ts nonce body =
     (let uri = (if rq_RequestURI r = [] then rq_uri r else rq_RequestURI r);
          (path, query) = SplitRequestURI uri
      in StringToSign sha256 (rq_method r) path query ts nonce body)"

text \<open>From the key material on: body, signature, nonce, address, bookkeeping.\<close>

definition check_signed ::
  "('ip, 'addr) net_ops \<Rightarrow> (string \<Rightarrow> string) \<Rightarrow> (string \<Rightarrow> string \<Rightarrow> string) \<Rightarrow> int \<Rightarrow> int \<Rightarrow> signed_req \<Rightarrow>
     int \<Rightarrow> string \<Rightarrow> string \<Rightarrow> 'ip accessKeyEntry \<Rightarrow> string list \<Rightarrow> bool \<Rightarrow> 'l ak_state \<Rightarrow> (ak_err + Identity) \<times> 'l ak_state" where
  "check_signed N sha256 hmac limit t r ts sig nonce info roles stale st =
     (case readSignedBody r limit of
        Inl e \<Rightarrow> (Inl e, st)
      | Inr body \<Rightarrow>
          let sts = sts_of sha256 r ts nonce body;
              akID = header_Get r HeaderAccessKey
          in if hmac (ake_secret info) sts \<noteq> sig
             then (Inl (AccessKeyError AkUnauthorized CodeSignatureMismatch sts), st)
             else case add (akID @ '':'' @ nonce) (wrap64 (ts + 900)) (t div ns_per_s) (ak_nonces st) of
               (Some errNonceUsed, ns) \<Rightarrow> (Inl (akErr AkUnauthorized CodeNonceUsed), st\<lparr>ak_nonces := ns\<rparr>)
             | (Some errNonceFull, ns) \<Rightarrow> (Inl AkUnavailable, st\<lparr>ak_nonces := ns\<rparr>)
             | (None, ns) \<Rightarrow>
                 let st1 = st\<lparr>ak_nonces := ns\<rparr>;
                     ok = (ake_allowed info = [] \<or>
                           (case clientIP N r of None \<Rightarrow> False | Some a \<Rightarrow> prefixesContain N (ake_allowed info) a))
                 in if \<not> ok then (Inl (akErr AkForbidden CodeIPDenied), st1)
                    else (Inr \<lparr>id_UserID = [], id_SessionID = [], id_RotatedTo = [], id_Roles = roles, id_Stale = stale,
                               id_GuestID = [], id_AccessKeyID = ake_id info, id_AccessKeyRemark = ake_remark info\<rparr>,
                          st1\<lparr>ak_usage := record_use akID t (ak_usage st1)\<rparr>))"

definition verifyAccessKey ::
  "('l, 'ip entry) lru_ops \<Rightarrow> ('ip, 'addr) net_ops \<Rightarrow> sdk_opts \<Rightarrow> bool \<Rightarrow> string \<Rightarrow> (string \<Rightarrow> string) \<Rightarrow>
     (string \<Rightarrow> string \<Rightarrow> string) \<Rightarrow> int \<Rightarrow> int \<Rightarrow> int \<Rightarrow> int \<Rightarrow> int \<Rightarrow> (string \<Rightarrow> grpc_status + ak_resp) \<Rightarrow>
     ('l cache \<Rightarrow> 'l cache) \<Rightarrow> signed_req \<Rightarrow> 'l ak_state \<Rightarrow> (ak_err + Identity) \<times> 'l ak_state" where
  "verifyAccessKey L N opts healthy app sha256 hmac limit t t1 t2 t3 rpc env r st =
     (case check_headers t r of
        Inl e \<Rightarrow> (Inl e, st)
      | Inr (ts, sig, nonce) \<Rightarrow>
          (case accessKey L N opts healthy app t1 t2 t3 rpc env (header_Get r HeaderAccessKey) (ak_cache st) of
             (Inl e, c) \<Rightarrow> (Inl e, st\<lparr>ak_cache := c\<rparr>)
           | (Inr (info, roles, stale), c) \<Rightarrow>
               check_signed N sha256 hmac limit t r ts sig nonce info roles stale (st\<lparr>ak_cache := c\<rparr>)))"

section \<open>Replay protection\<close>

definition nonce_wf :: "nonceStore \<Rightarrow> bool" where
  "nonce_wf s \<longleftrightarrow> distinct (map fst (ns_seen s)) \<and> int (length (ns_seen s)) \<le> max 0 (ns_cap s)"

lemma map_of_filter_val:
  "distinct (map fst xs) \<Longrightarrow> map_of (filter (\<lambda>(k, e). P e) xs) k =
     (case map_of xs k of Some e \<Rightarrow> if P e then Some e else None | None \<Rightarrow> None)"
  by (induction xs) (auto split: option.splits simp: map_of_eq_None_iff)

lemma map_of_filter_key: "map_of (filter (\<lambda>(k, e). k \<noteq> key) xs) k = (if k = key then None else map_of xs k)"
  by (induction xs) auto

lemma live_seen_keeps:
  "distinct (map fst (ns_seen s)) \<Longrightarrow> map_of (ns_seen s) k = Some x \<Longrightarrow> t < x \<Longrightarrow> map_of (live_seen t s) k = Some x"
  by (simp add: live_seen_def map_of_filter_val)

lemma distinct_live_seen: "distinct (map fst (ns_seen s)) \<Longrightarrow> distinct (map fst (live_seen t s))"
  by (simp add: live_seen_def distinct_map_filter)

lemma length_live_seen: "length (live_seen t s) \<le> length (ns_seen s)"
  by (simp add: live_seen_def)

lemma add_keeps_live:
  assumes "distinct (map fst (ns_seen s))" and "add key e t s = (res, s')"
    and "map_of (ns_seen s) k = Some x" and "t < x"
  shows "map_of (ns_seen s') k = Some x"
proof (cases "k = key")
  case True
  then show ?thesis using assms by (simp add: add_def)
next
  case False
  then show ?thesis using assms live_seen_keeps [OF assms(1,3,4)]
    by (auto simp: add_def map_of_filter_key split: if_splits)
qed

lemma add_wf:
  assumes "nonce_wf s" and "add key e t s = (res, s')"
  shows "nonce_wf s'" and "ns_cap s' = ns_cap s"
proof -
  show "ns_cap s' = ns_cap s" using assms(2) by (auto simp: add_def split: if_splits)
  have l: "1 + int (length (filter (\<lambda>(k, e). k \<noteq> key) (live_seen t s))) \<le> ns_cap s"
    if "int (length (live_seen t s)) < ns_cap s"
    using that length_filter_le [of "\<lambda>(k, e). k \<noteq> key" "live_seen t s"] by linarith
  have d: "distinct (map fst (live_seen t s))" using assms(1) by (simp add: nonce_wf_def distinct_live_seen)
  show "nonce_wf s'"
    using assms d l length_live_seen [of t s]
    by (auto simp: add_def nonce_wf_def distinct_map_filter split: if_splits)
qed

lemma add_records: "add key e t s = (None, s') \<Longrightarrow> map_of (ns_seen s') key = Some e"
  by (auto simp: add_def split: if_splits)

lemma add_used: "map_of (ns_seen s) key = Some x \<Longrightarrow> t < x \<Longrightarrow> add key e t s = (Some errNonceUsed, s)"
  by (simp add: add_def)

section \<open>Sequences of verifications\<close>

text \<open>What differs from one call of \<^verbatim>\<open>verifyAccessKey\<close> to the next.\<close>

record 'l ak_call =
  call_healthy :: bool
  call_app :: string
  call_t :: int
  call_t1 :: int
  call_t2 :: int
  call_t3 :: int
  call_rpc :: "string \<Rightarrow> grpc_status + ak_resp"
  call_env :: "'l cache \<Rightarrow> 'l cache"
  call_req :: signed_req

definition run_call ::
  "('l, 'ip entry) lru_ops \<Rightarrow> ('ip, 'addr) net_ops \<Rightarrow> sdk_opts \<Rightarrow> (string \<Rightarrow> string) \<Rightarrow>
     (string \<Rightarrow> string \<Rightarrow> string) \<Rightarrow> int \<Rightarrow> 'l ak_call \<Rightarrow> 'l ak_state \<Rightarrow> (ak_err + Identity) \<times> 'l ak_state" where
  "run_call L N opts sha256 hmac limit c st =
     verifyAccessKey L N opts (call_healthy c) (call_app c) sha256 hmac limit (call_t c) (call_t1 c) (call_t2 c)
       (call_t3 c) (call_rpc c) (call_env c) (call_req c) st"

definition nonce_key :: "'a http_req_scheme \<Rightarrow> string" where
  "nonce_key r = header_Get r HeaderAccessKey @ '':'' @ header_Get r HeaderNonce"

lemma check_headers_Inr:
  "check_headers t r = Inr (ts, sig, nonce) \<longleftrightarrow>
     ParseInt (header_Get r HeaderTimestamp) = Some ts \<and> hex_decode (header_Get r HeaderSignature) = Some sig \<and>
     length sig = 32 \<and> ValidNonce nonce \<and> nonce = header_Get r HeaderNonce \<and>
     - signatureWindow \<le> Sub_Unix t ts \<and> Sub_Unix t ts \<le> signatureWindow"
  by (auto simp: check_headers_def split: option.splits if_splits)

lemma Sub_Unix_window:
  "- signatureWindow \<le> Sub_Unix t ts \<and> Sub_Unix t ts \<le> signatureWindow \<longleftrightarrow>
     - signatureWindow \<le> t - ts * ns_per_s \<and> t - ts * ns_per_s \<le> signatureWindow"
  by (auto simp: Sub_Unix_def signatureWindow_def max_def min_def)

lemma check_signed_Inr:
  assumes "check_signed N sha256 hmac limit t r ts sig nonce info roles stale st = (Inr ident, st')"
  shows "\<exists>body ns. readSignedBody r limit = Inr body \<and> hmac (ake_secret info) (sts_of sha256 r ts nonce body) = sig \<and>
    add (header_Get r HeaderAccessKey @ '':'' @ nonce) (wrap64 (ts + 900)) (t div ns_per_s) (ak_nonces st) = (None, ns) \<and>
    ak_nonces st' = ns \<and>
    (ake_allowed info = [] \<or> (\<exists>a. clientIP N r = Some a \<and> prefixesContain N (ake_allowed info) a)) \<and>
    id_AccessKeyID ident = ake_id info \<and> id_Roles ident = roles \<and> id_UserID ident = [] \<and> id_Stale ident = stale"
  using assms
  by (auto simp: check_signed_def Let_def split: sum.splits prod.splits option.splits nonce_err.splits if_splits)

lemma check_signed_nonces:
  assumes "check_signed N sha256 hmac limit t r ts sig nonce info roles stale st = (res, st')"
  shows "ak_nonces st' = ak_nonces st \<or>
    ak_nonces st' = snd (add (header_Get r HeaderAccessKey @ '':'' @ nonce) (wrap64 (ts + 900)) (t div ns_per_s) (ak_nonces st))"
  using assms
  by (auto simp: check_signed_def Let_def split: sum.splits prod.splits option.splits nonce_err.splits if_splits)

lemma verify_cases:
  assumes "verifyAccessKey L N opts healthy app sha256 hmac limit t t1 t2 t3 rpc env r st = (res, st')"
  shows "(\<exists>e. res = Inl e \<and> ak_nonces st' = ak_nonces st) \<or>
    (\<exists>ts sig nonce info roles stale c. check_headers t r = Inr (ts, sig, nonce) \<and>
       accessKey L N opts healthy app t1 t2 t3 rpc env (header_Get r HeaderAccessKey) (ak_cache st) = (Inr (info, roles, stale), c) \<and>
       check_signed N sha256 hmac limit t r ts sig nonce info roles stale (st\<lparr>ak_cache := c\<rparr>) = (res, st'))"
  using assms
  by (auto simp: verifyAccessKey_def split: sum.splits prod.splits)

lemma verify_nonces:
  assumes "verifyAccessKey L N opts healthy app sha256 hmac limit t t1 t2 t3 rpc env r st = (res, st')"
  shows "ak_nonces st' = ak_nonces st \<or> (\<exists>k e. ak_nonces st' = snd (add k e (t div ns_per_s) (ak_nonces st)))"
  using verify_cases [OF assms] check_signed_nonces by fastforce

lemma run_call_keeps:
  assumes "nonce_wf (ak_nonces st)"
  shows "nonce_wf (ak_nonces (snd (run_call L N opts sha256 hmac limit c st)))"
    and "map_of (ns_seen (ak_nonces st)) k = Some x \<Longrightarrow> call_t c div ns_per_s < x \<Longrightarrow>
      map_of (ns_seen (ak_nonces (snd (run_call L N opts sha256 hmac limit c st)))) k = Some x"
proof -
  obtain res st' where v: "run_call L N opts sha256 hmac limit c st = (res, st')" by fastforce
  note n = verify_nonces [OF v [unfolded run_call_def]]
  have d: "distinct (map fst (ns_seen (ak_nonces st)))" using assms by (simp add: nonce_wf_def)
  show "nonce_wf (ak_nonces (snd (run_call L N opts sha256 hmac limit c st)))"
    using n assms add_wf(1) v by (metis prod.collapse snd_conv)
  show "map_of (ns_seen (ak_nonces (snd (run_call L N opts sha256 hmac limit c st)))) k = Some x"
    if "map_of (ns_seen (ak_nonces st)) k = Some x" "call_t c div ns_per_s < x"
    using n that add_keeps_live [OF d _ that(1)] v by (metis prod.collapse snd_conv)
qed

lemma run_calls_keep:
  assumes "nonce_wf (ak_nonces st)" and "map_of (ns_seen (ak_nonces st)) k = Some x"
    and "\<And>c. c \<in> set cs \<Longrightarrow> call_t c div ns_per_s < x"
  shows "map_of (ns_seen (ak_nonces (fold (\<lambda>c s. snd (run_call L N opts sha256 hmac limit c s)) cs st))) k = Some x"
  using assms
proof (induction cs arbitrary: st)
  case (Cons c cs)
  let ?st = "snd (run_call L N opts sha256 hmac limit c st)"
  have t: "call_t c div ns_per_s < x" and ts: "\<And>c'. c' \<in> set cs \<Longrightarrow> call_t c' div ns_per_s < x"
    using Cons.prems(3) by auto
  have "nonce_wf (ak_nonces ?st)" by (rule run_call_keeps(1) [OF Cons.prems(1)])
  moreover have "map_of (ns_seen (ak_nonces ?st)) k = Some x" by (rule run_call_keeps(2) [OF Cons.prems(1,2) t])
  ultimately have "map_of (ns_seen (ak_nonces (fold (\<lambda>c s. snd (run_call L N opts sha256 hmac limit c s)) cs ?st))) k = Some x"
    using ts by (rule Cons.IH)
  then show ?case by simp
qed simp

lemma used_nonce_refused:
  assumes "map_of (ns_seen (ak_nonces st)) (nonce_key (call_req c)) = Some x" and "call_t c div ns_per_s < x"
  shows "\<exists>e. fst (run_call L N opts sha256 hmac limit c st) = Inl e"
proof -
  obtain res st' where v: "run_call L N opts sha256 hmac limit c st = (res, st')" by fastforce
  show ?thesis
  proof (cases res)
    case (Inr ident)
    then obtain ts sig nonce info roles stale c' where
      h: "check_headers (call_t c) (call_req c) = Inr (ts, sig, nonce)" and
      s: "check_signed N sha256 hmac limit (call_t c) (call_req c) ts sig nonce info roles stale (st\<lparr>ak_cache := c'\<rparr>) = (Inr ident, st')"
      using verify_cases [OF v [unfolded run_call_def]] by auto
    have "nonce_key (call_req c) = header_Get (call_req c) HeaderAccessKey @ '':'' @ nonce"
      using h by (simp add: check_headers_Inr nonce_key_def)
    then show ?thesis using check_signed_Inr [OF s] add_used [OF assms] by auto
  qed (use v in simp)
qed

section \<open>Properties\<close>

definition demo_net :: "(string, string) net_ops" where
  "demo_net = \<lparr>ParsePrefix = Some, ParseAddr = Some, Unmap = (\<lambda>a. a), Contains = (=), SplitHost = Some\<rparr>"

definition demo_mac :: "string \<Rightarrow> string \<Rightarrow> string" where
  "demo_mac k m = List.take 32 (k @ m @ replicate 32 CHR ''x'')"

definition demo_rpc :: "string \<Rightarrow> grpc_status + ak_resp" where
  "demo_rpc akID = Inr \<lparr>akr_secret = ''sk'', akr_remark = ''partner'', akr_roles = [''reader''], akr_allowed_ips = [],
     akr_cache_ttl_ms = 60000\<rparr>"

definition demo_http :: http_req where
  "demo_http = \<lparr>rq_method = ''POST'', rq_uri = ''/a?b'', rq_body = Body ''x'', rq_content_length = 0, rq_header = Map.empty\<rparr>"

definition demo_req :: signed_req where
  "demo_req = (case SignAt (\<lambda>b. b) demo_mac demo_http ''ak1'' ''sk'' 1000 ''n1'' of
     Inr q \<Rightarrow> http_req.extend q \<lparr>rq_RequestURI = rq_uri q, rq_RemoteAddr = ''10.0.0.1:5''\<rparr>
   | Inl _ \<Rightarrow> undefined)"

definition demo_state :: "(string \<times> string entry) list ak_state" where
  "demo_state = \<lparr>ak_cache = \<lparr>lru = [], gen = 0\<rparr>, ak_nonces = newNonceStore 10, ak_usage = Map.empty\<rparr>"

definition demo_call :: "int \<Rightarrow> (string \<times> string entry) list ak_call" where
  "demo_call t = \<lparr>call_healthy = True, call_app = ''shop'', call_t = t, call_t1 = t, call_t2 = t, call_t3 = t,
     call_rpc = demo_rpc, call_env = (\<lambda>c. c), call_req = demo_req\<rparr>"

abbreviation demo_run :: "int \<Rightarrow> (string \<times> string entry) list ak_state \<Rightarrow> (ak_err + Identity) \<times> (string \<times> string entry) list ak_state" where
  "demo_run t st \<equiv> run_call (list_lru 3) demo_net demo_opts (\<lambda>b. b) demo_mac 1024 (demo_call t) st"

definition demo_ident :: Identity where
  "demo_ident = \<lparr>id_UserID = [], id_SessionID = [], id_RotatedTo = [], id_Roles = [''reader''], id_Stale = False,
     id_GuestID = [], id_AccessKeyID = ''ak1'', id_AccessKeyRemark = ''partner''\<rparr>"

lemma demo_accepted: "demo_run (1001 * ns_per_s) demo_state = (Inr demo_ident, snd (demo_run (1001 * ns_per_s) demo_state))"
proof -
  have "fst (demo_run (1001 * ns_per_s) demo_state) = Inr demo_ident" by code_simp
  then show ?thesis by (metis prod.collapse)
qed

lemma prefixesContain_iff: "prefixesContain N ps a \<longleftrightarrow> (\<exists>p \<in> set ps. Contains N p a)"
  by (induction ps) auto

lemma SplitRequestURI_origin:
  assumes "SplitRequestURI u = (path, query)" and "HasPrefix u ''/''"
  shows "CHR ''?'' \<notin> set path \<and> (u = path \<and> query = [] \<or> u = path @ CHR ''?'' # query)"
proof -
  obtain p q f where c: "str_Cut u CHR ''?'' = (p, q, f)" by (cases "str_Cut u CHR ''?''")
  with assms have "path = p" "query = q" by (auto simp: SplitRequestURI_def Let_def)
  then show ?thesis using c str_Cut_found [of u "CHR ''?''" p q] str_Cut_not_found [of u "CHR ''?''" p q] by (cases f) auto
qed

text \<open>
  Where the key material comes from: an answer of the server on the key, or the entry of the key in the cache, before the
  call or, stale, after it.
\<close>

definition material_of ::
  "('l, 'ip entry) lru_ops \<Rightarrow> ('ip, 'addr) net_ops \<Rightarrow> (string \<Rightarrow> grpc_status + ak_resp) \<Rightarrow> ('l cache \<Rightarrow> 'l cache) \<Rightarrow> string \<Rightarrow>
     'l cache \<Rightarrow> 'ip accessKeyEntry \<Rightarrow> string list \<Rightarrow> bool" where
  "material_of L N rpc env akID c info roles \<longleftrightarrow>
     (\<exists>res. rpc akID = Inr res \<and> ake_id info = akID \<and> ake_secret info = akr_secret res \<and> akr_secret res \<noteq> [] \<and>
        map (ParsePrefix N) (akr_allowed_ips res) = map Some (ake_allowed info) \<and> roles = akr_roles res) \<or>
     (\<exists>c' e. (c' = c \<or> (\<exists>c1. c' = env c1 \<and> (\<forall>k. lru_Peek L k (lru c1) \<in> {lru_Peek L k (lru c), None}))) \<and> lru_Peek L (''ak:'' @ akID) (lru c') = Some e \<and>
        e_accessKey e = Some info \<and> e_roles e = roles)"

lemma readSignedBody_whole:
  assumes "readSignedBody r limit = Inr body" and "limit < 2 ^ 63 - 1"
  shows "rq_body r = Body body \<or> rq_body r = NoBody \<and> body = []"
proof (cases "rq_body r")
  case (Body s)
  let ?n = "nat (wrap64 (limit + 1))"
  have b: "body = List.take ?n s" "int (length body) \<le> limit"
    using assms(1) Body by (auto simp: readSignedBody_def Let_def split: if_splits)
  then have "wrap64 (limit + 1) = limit + 1" using assms(2) by (intro wrap64_id) (simp add: in_int64_def)
  then have "length body < ?n" using b(2) by linarith
  then show ?thesis using b(1) Body by simp
qed (use assms(1) in \<open>auto simp: readSignedBody_def\<close>)

lemma parse_prefixes_map: "parse_prefixes N ss = Some ps \<longleftrightarrow> map (ParsePrefix N) ss = map Some ps"
proof (induction ss arbitrary: ps)
  case Nil
  then show ?case by auto
next
  case (Cons s ss)
  then show ?case by (cases ps) (auto split: option.splits)
qed

lemma accessKey_material:
  assumes "lru_laws L"
    and "accessKey L N opts healthy app t1 t2 t3 rpc env akID c = (Inr (info, roles, stale), c')"
  shows "material_of L N rpc env akID c info roles"
proof -
  let ?mt = "if healthy then 0 else DegradedCacheTTL opts" and ?ms = "if AllowStaleOnOutage opts then MaxStaleness opts else 0"
  let ?k = "''ak:'' @ akID"
  have G: "lru_Peek L ?k (lru d) = Some e"
    if "get L t ?k mt ms d = (cacheFresh e, d') \<or> get L t ?k mt ms d = (cacheStale e, d')" for t mt ms d e d'
    using that lru_laws.get_sound [OF assms(1), of t ?k mt ms d] by fastforce
  obtain r c1 where g: "get L t1 ?k ?mt ?ms c = (r, c1)" by fastforce
  have c1: "\<forall>k. lru_Peek L k (lru c1) \<in> {lru_Peek L k (lru c), None}"
    using lru_laws.get_only_removes [OF assms(1) g] by blast
  consider (fresh) e where "r = cacheFresh e" "e_accessKey e = Some info" "e_roles e = roles"
    | (asked) e where "ak_entry N app akID (rpc akID) = Inr e" "e_accessKey e = Some info" "e_roles e = roles"
    | (stale) e c3 where "get L t3 ?k ?mt ?ms (env c1) = (cacheStale e, c3)" "e_accessKey e = Some info" "e_roles e = roles"
    using assms(2) unfolding accessKey_def accessKeyCacheKey_def Let_def g prod.case
    by (cases r; cases "ak_entry N app akID (rpc akID)")
      (auto split: prod.splits cacheResult.splits option.splits sum.splits if_splits)
  then show ?thesis
  proof cases
    case fresh
    then show ?thesis using G [of t1 ?mt ?ms c] g unfolding material_of_def by blast
  next
    case asked
    then show ?thesis
      by (auto simp: material_of_def ak_entry_def parse_prefixes_map split: sum.splits option.splits if_splits)
  next
    case stale
    then show ?thesis using G [of t3 ?mt ?ms "env c1"] c1 unfolding material_of_def by blast
  qed
qed

text \<open>
  C16. An accepted request is authentic and fresh: its timestamp is within 15 minutes of the clock; its signature is the MAC,
  under the secret of the key it names, of its own method, path, query, timestamp, nonce and the digest of its body, a line
  each; the nonce was not in use for that key; its source address lies in one of the key's prefixes when it has some. The
  secret is what the server answered for that key or what the cache holds for it, and the identity is the key's, never a
  user's. The limit on bodies is below the largest \<^verbatim>\<open>int64\<close>.
\<close>

theorem accepted_request_is_authentic:
  assumes "verifyAccessKey L N opts healthy app sha256 hmac limit t t1 t2 t3 rpc env r st = (Inr ident, st')" and "lru_laws L" and "limit < 2 ^ 63 - 1"
  shows "\<exists>ts path query body info roles.
    ParseInt (header_Get r ''X-Fp-Timestamp'') = Some ts \<and>
    t - ts * ns_per_s \<in> {- (15 * 60 * ns_per_s) .. 15 * 60 * ns_per_s} \<and>
    SplitRequestURI (if rq_RequestURI r = [] then rq_uri r else rq_RequestURI r) = (path, query) \<and>
    (HasPrefix (if rq_RequestURI r = [] then rq_uri r else rq_RequestURI r) ''/'' \<longrightarrow> CHR ''?'' \<notin> set path \<and>
       (if rq_RequestURI r = [] then rq_uri r else rq_RequestURI r) \<in> {path @ (if query = [] then [] else CHR ''?'' # query), path @ CHR ''?'' # query}) \<and>
    (rq_body r = Body body \<or> rq_body r = NoBody \<and> body = []) \<and>
    hex_decode (header_Get r ''X-Fp-Signature'') = Some (hmac (ake_secret info)
      (rq_method r @ [nl] @ path @ [nl] @ query @ [nl] @ FormatInt ts @ [nl] @ header_Get r ''X-Fp-Nonce'' @ [nl] @ hex_encode (sha256 body))) \<and>
    material_of L N rpc env (header_Get r ''X-Fp-Access-Key'') (ak_cache st) info roles \<and>
    (case map_of (ns_seen (ak_nonces st)) (header_Get r ''X-Fp-Access-Key'' @ '':'' @ header_Get r ''X-Fp-Nonce'') of
       Some e \<Rightarrow> e \<le> t div ns_per_s | None \<Rightarrow> True) \<and>
    (ake_allowed info = [] \<or> (\<exists>a. \<exists>p \<in> set (ake_allowed info). clientIP N r = Some a \<and> Contains N p a)) \<and>
    id_AccessKeyID ident = ake_id info \<and> id_Roles ident = roles \<and> id_UserID ident = []"
proof -
  let ?u = "if rq_RequestURI r = [] then rq_uri r else rq_RequestURI r"
  obtain ts sig nonce info roles stale c where
    h: "check_headers t r = Inr (ts, sig, nonce)" and
    a: "accessKey L N opts healthy app t1 t2 t3 rpc env (header_Get r HeaderAccessKey) (ak_cache st) = (Inr (info, roles, stale), c)" and
    s: "check_signed N sha256 hmac limit t r ts sig nonce info roles stale (st\<lparr>ak_cache := c\<rparr>) = (Inr ident, st')"
    using verify_cases [OF assms(1)] by auto
  obtain body ns where b: "readSignedBody r limit = Inr body" "hmac (ake_secret info) (sts_of sha256 r ts nonce body) = sig"
    and ad: "add (header_Get r HeaderAccessKey @ '':'' @ nonce) (wrap64 (ts + 900)) (t div ns_per_s) (ak_nonces st) = (None, ns)"
    and o: "ake_allowed info = [] \<or> (\<exists>a. clientIP N r = Some a \<and> prefixesContain N (ake_allowed info) a)"
      "id_AccessKeyID ident = ake_id info" "id_Roles ident = roles" "id_UserID ident = []"
    using check_signed_Inr [OF s] by auto
  have hd: "ParseInt (header_Get r HeaderTimestamp) = Some ts" "hex_decode (header_Get r HeaderSignature) = Some sig"
      "nonce = header_Get r HeaderNonce" "- signatureWindow \<le> t - ts * ns_per_s" "t - ts * ns_per_s \<le> signatureWindow"
    using h by (auto simp: check_headers_Inr Sub_Unix_window)
  obtain path query where sp: "SplitRequestURI ?u = (path, query)" by (cases "SplitRequestURI ?u")
  have "sts_of sha256 r ts nonce body =
      rq_method r @ [nl] @ path @ [nl] @ query @ [nl] @ FormatInt ts @ [nl] @ nonce @ [nl] @ hex_encode (sha256 body)"
    using sp by (simp add: sts_of_def StringToSign_def Let_def)
  moreover have "rq_body r = Body body \<or> rq_body r = NoBody \<and> body = []"
    by (rule readSignedBody_whole [OF b(1) assms(3)])
  moreover have "case map_of (ns_seen (ak_nonces st)) (header_Get r HeaderAccessKey @ '':'' @ header_Get r HeaderNonce) of
      Some e \<Rightarrow> e \<le> t div ns_per_s | None \<Rightarrow> True"
    using ad hd(3) by (auto simp: add_def split: if_splits option.splits)
  ultimately show ?thesis
    using hd b o sp accessKey_material [OF assms(2) a] SplitRequestURI_origin [OF sp]
    unfolding prefixesContain_iff HeaderAccessKey_def HeaderNonce_def HeaderTimestamp_def HeaderSignature_def signatureWindow_def
    by - (rule exI [of _ ts], rule exI [of _ path], rule exI [of _ query], rule exI [of _ body], rule exI [of _ info],
        rule exI [of _ roles], auto)
qed

theorem accepted_request_is_authentic_witness:
  "hex_decode (header_Get demo_req ''X-Fp-Signature'') = Some (demo_mac ''sk''
     (''POST'' @ [nl] @ ''/a'' @ [nl] @ ''b'' @ [nl] @ ''1000'' @ [nl] @ ''n1'' @ [nl] @ hex_encode ''x'')) \<and> id_UserID demo_ident = []"
proof -
  have f: "ParseInt (header_Get demo_req ''X-Fp-Timestamp'') = Some 1000" "FormatInt 1000 = ''1000''"
      "SplitRequestURI (if rq_RequestURI demo_req = [] then rq_uri demo_req else rq_RequestURI demo_req) = (''/a'', ''b'')"
      "rq_body demo_req = Body ''x''" "rq_method demo_req = ''POST''" "header_Get demo_req ''X-Fp-Nonce'' = ''n1''"
      "header_Get demo_req ''X-Fp-Access-Key'' = ''ak1''" "ak_cache demo_state = \<lparr>lru = [], gen = 0\<rparr>"
    by code_simp+
  have m: "ake_secret info = ''sk''"
    if "material_of (list_lru 3) demo_net demo_rpc (\<lambda>c. c) ''ak1'' \<lparr>lru = [], gen = 0\<rparr> info roles" for info roles
    using that by (auto simp: material_of_def demo_rpc_def list_lru_def)
  have l: "(1024 :: int) < 2 ^ 63 - 1" by simp
  have r: "call_req (demo_call (1001 * ns_per_s)) = demo_req" "call_rpc (demo_call (1001 * ns_per_s)) = demo_rpc"
      "call_env (demo_call (1001 * ns_per_s)) = (\<lambda>c. c)"
    by (simp_all add: demo_call_def)
  from accepted_request_is_authentic [OF demo_accepted [unfolded run_call_def] list_lru.lru_laws_axioms [of 3] l, unfolded r f]
  obtain ts path query body info roles where "Some (1000 :: int) = Some ts" "(''/a'', ''b'') = (path, query)"
      "Body ''x'' = Body body \<or> Body ''x'' = NoBody \<and> body = []"
      "hex_decode (header_Get demo_req ''X-Fp-Signature'') = Some (demo_mac (ake_secret info)
        (''POST'' @ [nl] @ path @ [nl] @ query @ [nl] @ FormatInt ts @ [nl] @ ''n1'' @ [nl] @ hex_encode body))"
      "material_of (list_lru 3) demo_net demo_rpc (\<lambda>c. c) ''ak1'' \<lparr>lru = [], gen = 0\<rparr> info roles" "id_UserID demo_ident = []"
    by blast
  then show ?thesis using m f(2) by simp
qed

text \<open>
  C17. A request signed by \<^verbatim>\<open>SignAt\<close> with the key's secret is accepted: within the window, with a fresh
  nonce and room in the nonce table, a body within the limit and an address the key allows, verification returns the key's
  identity. What the client signs and what the server checks are the same bytes.
\<close>

theorem signed_request_is_accepted:
  assumes sgn: "SignAt sha256 hmac req akID (ake_secret info) ts nonce = Inr req'"
    and r: "r = http_req.extend req' \<lparr>rq_RequestURI = rq_uri req', rq_RemoteAddr = ra\<rparr>"
    and n: "ValidNonce nonce" and ts: "in_int64 ts" and mac: "\<And>k m. length (hmac k m) = 32"
    and w: "- signatureWindow \<le> t - ts * ns_per_s" "t - ts * ns_per_s \<le> signatureWindow"
    and ak: "accessKey L N opts healthy app t1 t2 t3 rpc env akID (ak_cache st) = (Inr (info, roles, stale), c)"
    and body: "rq_body req = NoBody \<or> (\<exists>b. rq_body req = Body b \<and> int (length b) \<le> limit \<and> limit < 2 ^ 62)"
    and free: "fst (add (akID @ '':'' @ nonce) (wrap64 (ts + 900)) (t div ns_per_s) (ak_nonces st)) = None"
    and ip: "ake_allowed info = [] \<or> (\<exists>a. clientIP N r = Some a \<and> prefixesContain N (ake_allowed info) a)"
  shows "\<exists>ident st'. verifyAccessKey L N opts healthy app sha256 hmac limit t t1 t2 t3 rpc env r st = (Inr ident, st') \<and>
    id_AccessKeyID ident = ake_id info \<and> id_Roles ident = roles"
proof -
  have "rq_body req \<noteq> BodyError" using body by auto
  from SignAt_roundtrip_lemma [OF this ts, of sha256 hmac akID "ake_secret info" nonce] sgn
  have H: "rq_header req' HeaderAccessKey = Some akID" "rq_header req' HeaderNonce = Some nonce"
      "Option.bind (rq_header req' HeaderTimestamp) ParseInt = Some ts"
      "Option.bind (rq_header req' HeaderSignature) hex_decode =
        Some (hmac (ake_secret info) (StringToSign sha256 (rq_method req') (fst (SplitRequestURI (rq_uri req')))
          (snd (SplitRequestURI (rq_uri req'))) ts nonce (case rq_body req' of Body s \<Rightarrow> s | _ \<Rightarrow> [])))"
      "rq_body req' = rq_body req"
    by auto
  have fields: "rq_header r = rq_header req'" "rq_method r = rq_method req'" "rq_uri r = rq_uri req'"
      "rq_body r = rq_body req'" "rq_RequestURI r = rq_uri req'"
    by (simp_all add: r http_req.defs)
  let ?b = "case rq_body req' of Body s \<Rightarrow> s | _ \<Rightarrow> []"
  let ?sig = "hmac (ake_secret info) (sts_of sha256 r ts nonce ?b)"
  have sts: "sts_of sha256 r ts nonce ?b = StringToSign sha256 (rq_method req') (fst (SplitRequestURI (rq_uri req')))
          (snd (SplitRequestURI (rq_uri req'))) ts nonce ?b"
    by (simp add: sts_of_def fields Let_def split: prod.split)
  have "check_headers t r = Inr (ts, ?sig, nonce)"
    using H n w mac sts
    by (auto simp: check_headers_Inr header_Get_def fields Sub_Unix_window split: option.splits Option.bind_splits)
  moreover have hk: "header_Get r HeaderAccessKey = akID" using H by (simp add: header_Get_def fields)
  moreover have b: "readSignedBody r limit = Inr ?b"
  proof -
    have "wrap64 (limit + 1) = limit + 1" if "0 \<le> limit" "limit < 2 ^ 62"
      using that by (intro wrap64_id) (simp add: in_int64_def)
    then show ?thesis using body by (auto simp: readSignedBody_def fields H(5))
  qed
  moreover obtain ns where "add (akID @ '':'' @ nonce) (wrap64 (ts + 900)) (t div ns_per_s) (ak_nonces st) = (None, ns)"
    using free by (metis prod.collapse)
  ultimately show ?thesis using ak ip
    by (auto simp: verifyAccessKey_def check_signed_def Let_def)
qed

theorem signed_request_is_accepted_witness:
  "\<exists>ident st'. verifyAccessKey (list_lru 3) demo_net demo_opts True ''shop'' (\<lambda>b. b) demo_mac 1024 (1001 * ns_per_s)
     0 0 0 demo_rpc (\<lambda>c. c) demo_req demo_state = (Inr ident, st') \<and> id_AccessKeyID ident = ''ak1''"
proof -
  let ?info = "\<lparr>ake_id = ''ak1'', ake_secret = ''sk'', ake_remark = ''partner'', ake_allowed = [] :: string list\<rparr>"
  let ?q = "demo_http\<lparr>rq_content_length := 1, rq_header := [HeaderAccessKey \<mapsto> ''ak1'', HeaderTimestamp \<mapsto> FormatInt 1000,
     HeaderNonce \<mapsto> ''n1'', HeaderSignature \<mapsto> Signature demo_mac ''sk'' (StringToSign (\<lambda>b. b) ''POST'' ''/a'' ''b'' 1000 ''n1'' ''x'')]\<rparr>"
  have split: "SplitRequestURI ''/a?b'' = (''/a'', ''b'')" by code_simp
  have sg: "SignAt (\<lambda>b. b) demo_mac demo_http ''ak1'' (ake_secret ?info) 1000 ''n1'' = Inr ?q"
    by (simp add: SignAt_def demo_http_def Let_def split)
  have q: "demo_req = http_req.extend ?q \<lparr>rq_RequestURI = rq_uri ?q, rq_RemoteAddr = ''10.0.0.1:5''\<rparr>"
    using sg by (simp add: demo_req_def)
  let ?ak = "accessKey (list_lru 3) demo_net demo_opts True ''shop'' 0 0 0 demo_rpc (\<lambda>c. c) ''ak1'' (ak_cache demo_state)"
  have "fst ?ak = Inr (?info, [''reader''], False)" by code_simp
  then have ak: "?ak = (Inr (?info, [''reader''], False), snd ?ak)" by (metis prod.collapse)
  have free: "fst (add (''ak1'' @ '':'' @ ''n1'') (wrap64 (1000 + 900)) (1001 * ns_per_s div ns_per_s) (ak_nonces demo_state)) = None"
    by code_simp
  have n: "ValidNonce ''n1''" by code_simp
  have mac: "length (demo_mac k m) = 32" for k m by (simp add: demo_mac_def)
  show ?thesis
    using signed_request_is_accepted [OF sg q n _ mac _ _ ak _ free, of 1024]
    by (auto simp: in_int64_def signatureWindow_def demo_http_def)
qed

text \<open>
  C18. No replay within the window: after a request has been accepted with timestamp \<^verbatim>\<open>ts\<close>, no request with the
  same key id and nonce is accepted by this process while its clock is before \<^verbatim>\<open>ts + 900\<close> seconds, whatever other requests
  come in between and however full the nonce table gets.
\<close>

theorem replay_is_refused:
  assumes "nonce_wf (ak_nonces st)"
    and "run_call L N opts sha256 hmac limit c0 st = (Inr ident, st0)"
    and "ParseInt (header_Get (call_req c0) HeaderTimestamp) = Some ts" and "0 \<le> call_t c0" and "call_t c0 < 2 ^ 62"
    and "\<And>c. c \<in> set cs \<Longrightarrow> call_t c div ns_per_s < ts + 900"
    and "nonce_key (call_req c1) = nonce_key (call_req c0)" and "call_t c1 div ns_per_s < ts + 900"
  shows "\<exists>e. fst (run_call L N opts sha256 hmac limit c1
    (fold (\<lambda>c s. snd (run_call L N opts sha256 hmac limit c s)) cs st0)) = Inl e"
proof -
  obtain ts' sig nonce info roles stale c where
    h: "check_headers (call_t c0) (call_req c0) = Inr (ts', sig, nonce)" and
    s: "check_signed N sha256 hmac limit (call_t c0) (call_req c0) ts' sig nonce info roles stale (st\<lparr>ak_cache := c\<rparr>) = (Inr ident, st0)"
    using verify_cases [OF assms(2) [unfolded run_call_def]] by auto
  have hd: "ts' = ts" "nonce = header_Get (call_req c0) HeaderNonce"
      "- signatureWindow \<le> call_t c0 - ts * ns_per_s" "call_t c0 - ts * ns_per_s \<le> signatureWindow"
    using h assms(3) by (auto simp: check_headers_Inr Sub_Unix_window)
  then have wr: "wrap64 (ts + 900) = ts + 900"
    using assms(4,5) by (intro wrap64_id) (auto simp: in_int64_def signatureWindow_def)
  have "map_of (ns_seen (ak_nonces st0)) (nonce_key (call_req c0)) = Some (ts + 900)"
    using check_signed_Inr [OF s] add_records hd(1,2) wr by (auto simp: nonce_key_def)
  moreover have "nonce_wf (ak_nonces st0)"
    using run_call_keeps(1) [OF assms(1), of L N opts sha256 hmac limit c0] assms(2) by simp
  ultimately have "map_of (ns_seen (ak_nonces (fold (\<lambda>c s. snd (run_call L N opts sha256 hmac limit c s)) cs st0)))
      (nonce_key (call_req c1)) = Some (ts + 900)"
    using run_calls_keep assms(6,7) by metis
  then show ?thesis using assms(8) by (rule used_nonce_refused)
qed

theorem replay_is_refused_witness:
  "\<exists>e. fst (demo_run (1500 * ns_per_s) (snd (demo_run (1001 * ns_per_s) demo_state))) = Inl e"
proof -
  have "nonce_wf (ak_nonces demo_state)" by (simp add: demo_state_def newNonceStore_def nonce_wf_def)
  moreover have "ParseInt (header_Get (call_req (demo_call (1001 * ns_per_s))) HeaderTimestamp) = Some 1000" by code_simp
  ultimately show ?thesis
    using replay_is_refused [OF _ demo_accepted, of 1000 "[]" "demo_call (1500 * ns_per_s)"]
    by (simp add: demo_call_def)
qed

text \<open>
  At the last instant of the window the protection is gone one second early: at exactly 900 seconds after the
  timestamp the header check still passes (the difference is not greater than the window), while the nonce record
  counts as expired (its expiry is not greater than the clock), so the request that was accepted before is accepted again.
\<close>

theorem replay_accepted_at_window_end:
  assumes "check_headers t r = Inr (ts, sig, nonce)" and "0 \<le> ts" and "ts < 2 ^ 40"
    and "check_signed N sha256 hmac limit t r ts sig nonce info roles stale st = (Inr ident, st')"
    and "int (length (ns_seen (ak_nonces st'))) < ns_cap (ak_nonces st')"
  shows "check_headers ((ts + 900) * ns_per_s) r = Inr (ts, sig, nonce) \<and>
    (\<exists>st''. check_signed N sha256 hmac limit ((ts + 900) * ns_per_s) r ts sig nonce info roles stale st' = (Inr ident, st''))"
proof -
  obtain body ns where b: "readSignedBody r limit = Inr body" "hmac (ake_secret info) (sts_of sha256 r ts nonce body) = sig"
    and ad: "add (header_Get r HeaderAccessKey @ '':'' @ nonce) (wrap64 (ts + 900)) (t div ns_per_s) (ak_nonces st) = (None, ns)"
    and ns: "ak_nonces st' = ns"
    and ip: "ake_allowed info = [] \<or> (\<exists>a. clientIP N r = Some a \<and> prefixesContain N (ake_allowed info) a)"
    using check_signed_Inr [OF assms(4)] by auto
  have wr: "wrap64 (ts + 900) = ts + 900" using assms(2,3) by (intro wrap64_id) (auto simp: in_int64_def)
  have "map_of (ns_seen ns) (header_Get r HeaderAccessKey @ '':'' @ nonce) = Some (ts + 900)"
    using add_records [OF ad] wr by simp
  then obtain ns2 where "add (header_Get r HeaderAccessKey @ '':'' @ nonce) (wrap64 (ts + 900)) (ts + 900) ns = (None, ns2)"
    using assms(5) ns by (simp add: add_def live_seen_def)
  moreover have "ident = \<lparr>id_UserID = [], id_SessionID = [], id_RotatedTo = [], id_Roles = roles, id_Stale = stale,
      id_GuestID = [], id_AccessKeyID = ake_id info, id_AccessKeyRemark = ake_remark info\<rparr>"
    using assms(4) by (auto simp: check_signed_def Let_def split: sum.splits prod.splits option.splits nonce_err.splits if_splits)
  ultimately have "\<exists>st''. check_signed N sha256 hmac limit ((ts + 900) * ns_per_s) r ts sig nonce info roles stale st' = (Inr ident, st'')"
    using b ip ns by (auto simp: check_signed_def Let_def)
  moreover have "check_headers ((ts + 900) * ns_per_s) r = Inr (ts, sig, nonce)"
    using assms(1) by (auto simp: check_headers_Inr Sub_Unix_window) (simp_all add: signatureWindow_def Sub_Unix_def)
  ultimately show ?thesis by blast
qed

theorem replay_accepted_at_window_end_witness:
  "\<exists>sig st'' st'. check_signed demo_net (\<lambda>b. b) demo_mac 1024 (1001 * ns_per_s) demo_req 1000 sig ''n1''
       \<lparr>ake_id = ''ak1'', ake_secret = ''sk'', ake_remark = ''partner'', ake_allowed = []\<rparr> [''reader''] False demo_state = (Inr demo_ident, st') \<and>
     check_signed demo_net (\<lambda>b. b) demo_mac 1024 ((1000 + 900) * ns_per_s) demo_req 1000 sig ''n1''
       \<lparr>ake_id = ''ak1'', ake_secret = ''sk'', ake_remark = ''partner'', ake_allowed = []\<rparr> [''reader''] False st' = (Inr demo_ident, st'')"
proof -
  let ?info = "\<lparr>ake_id = ''ak1'', ake_secret = ''sk'', ake_remark = ''partner'', ake_allowed = [] :: string list\<rparr>"
  let ?c = "\<lambda>sig. check_signed demo_net (\<lambda>b. b) demo_mac 1024 (1001 * ns_per_s) demo_req 1000 sig ''n1'' ?info [''reader''] False demo_state"
  have "case check_headers (1001 * ns_per_s) demo_req of Inl e \<Rightarrow> False
     | Inr (ts, sig, nonce) \<Rightarrow> ts = 1000 \<and> nonce = ''n1'' \<and> fst (?c sig) = Inr demo_ident \<and>
         int (length (ns_seen (ak_nonces (snd (?c sig))))) < ns_cap (ak_nonces (snd (?c sig)))"
    by code_simp
  then obtain sig where h: "check_headers (1001 * ns_per_s) demo_req = Inr (1000, sig, ''n1'')" and f: "fst (?c sig) = Inr demo_ident"
    and l: "int (length (ns_seen (ak_nonces (snd (?c sig))))) < ns_cap (ak_nonces (snd (?c sig)))"
    by (auto split: sum.splits)
  have c: "?c sig = (Inr demo_ident, snd (?c sig))" using f by (metis prod.collapse)
  from replay_accepted_at_window_end [OF h _ _ c l] c show ?thesis by auto
qed

lemma ak_entry_cases:
  "(\<exists>st. \<forall>a. ak_entry N a akID x = Inl st) \<or> (\<exists>e. \<forall>a. ak_entry N a akID x = Inr (e\<lparr>e_appID := a\<rparr>))"
proof (cases x)
  case (Inl st)
  then show ?thesis by (simp add: ak_entry_def)
next
  case (Inr res)
  show ?thesis
  proof (cases "akr_secret res = [] \<or> parse_prefixes N (akr_allowed_ips res) = None")
    case True
    then show ?thesis using Inr by (auto simp: ak_entry_def split: option.split)
  next
    case False
    then obtain ps where ps: "akr_secret res \<noteq> []" "parse_prefixes N (akr_allowed_ips res) = Some ps" by auto
    show ?thesis
      using Inr ps
      by (intro disjI2 exI [of _ "\<lparr>e_appID = [], e_userID = [], e_sessionID = [], e_rotatedTo = [], e_roles = akr_roles res,
          e_accessKey = Some \<lparr>ake_id = akID, ake_secret = akr_secret res, ake_remark = akr_remark res, ake_allowed = ps\<rparr>,
          e_cachedAt = 0, e_ttl = 0\<rparr>"]) (simp add: ak_entry_def)
  qed
qed

text \<open>
  The material of an access key is not kept apart by application. A comment in \<^verbatim>\<open>accessKey\<close> says that the
  \<^verbatim>\<open>appID\<close> recorded with an entry separates decisions of different applications; neither lookup compares it, so the
  answer is the same whatever application scope the call has.
\<close>

theorem accessKey_ignores_application:
  "fst (accessKey L N opts healthy app t1 t2 t3 rpc env akID c) = fst (accessKey L N opts healthy app' t1 t2 t3 rpc env akID c)"
proof -
  obtain r c1 where g: "get L t1 (accessKeyCacheKey akID) (if healthy then 0 else DegradedCacheTTL opts)
      (if AllowStaleOnOutage opts then MaxStaleness opts else 0) c = (r, c1)" by fastforce
  consider (err) st where "\<And>a. ak_entry N a akID (rpc akID) = Inl st"
    | (ok) e where "\<And>a. ak_entry N a akID (rpc akID) = Inr (e\<lparr>e_appID := a\<rparr>)"
    using ak_entry_cases [of N akID "rpc akID"] by blast
  then show ?thesis
  proof cases
    case err
    then show ?thesis by (simp add: accessKey_def Let_def g)
  next
    case ok
    show ?thesis by (cases r) (simp_all add: accessKey_def Let_def g ok split: option.split)
  qed
qed

end
