(* ===== verification/Json_Scan.thy ===== *)
theory Json_Scan
  imports Runes
begin

text \<open>
  The JSON text syntax as \<^verbatim>\<open>encoding/json\<close> checks and writes it: the byte automaton behind
  \<^verbatim>\<open>json.Valid\<close> with its stack of open objects and arrays, and the encoding of a string.
\<close>

section \<open>Validity\<close>

datatype jstep =
    BeginValueOrEmpty | BeginValue | BeginStringOrEmpty | BeginString | EndValue | EndTop
  | InString | InStringEsc | InStringEscU | InStringEscU1 | InStringEscU12 | InStringEscU123
  | Neg | Digit1 | Digit0 | Dot | Dot0 | Exp | ExpSign | Exp0
  | LitT | LitTr | LitTru | LitF | LitFa | LitFal | LitFals | LitN | LitNu | LitNul

datatype jparse = ObjectKey | ObjectValue | ArrayValue

type_synonym jscan = "(jstep \<times> jparse list) option"

definition json_space :: "char \<Rightarrow> bool" where
  "json_space c \<longleftrightarrow> byte c \<in> {0x20, 0x09, 0x0A, 0x0D}"

definition digit1_9 :: "char \<Rightarrow> bool" where
  "digit1_9 c \<longleftrightarrow> 0x31 \<le> byte c \<and> byte c \<le> 0x39"

definition digit :: "char \<Rightarrow> bool" where
  "digit c \<longleftrightarrow> 0x30 \<le> byte c \<and> byte c \<le> 0x39"

definition hex_digit_char :: "char \<Rightarrow> bool" where
  "hex_digit_char c \<longleftrightarrow> digit c \<or> 0x41 \<le> byte c \<and> byte c \<le> 0x46 \<or> 0x61 \<le> byte c \<and> byte c \<le> 0x66"

definition maxNestingDepth :: nat where "maxNestingDepth = 10000"

definition push :: "jstep \<Rightarrow> jparse \<Rightarrow> jparse list \<Rightarrow> jscan" where
  "push st p ps = (if length ps < maxNestingDepth then Some (st, p # ps) else None)"

definition pop :: "jparse list \<Rightarrow> jscan" where
  "pop ps = (case tl ps of [] \<Rightarrow> Some (EndTop, []) | qs \<Rightarrow> Some (EndValue, qs))"

definition end_value :: "jparse list \<Rightarrow> char \<Rightarrow> jscan" where
  "end_value ps c =
     (case ps of
        [] \<Rightarrow> if json_space c then Some (EndTop, []) else None
      | p # qs \<Rightarrow>
          if json_space c then Some (EndValue, ps)
          else case p of
            ObjectKey \<Rightarrow> if c = CHR '':'' then Some (BeginValue, ObjectValue # qs) else None
          | ObjectValue \<Rightarrow>
              if c = CHR '','' then Some (BeginString, ObjectKey # qs)
              else if c = CHR ''}'' then pop ps else None
          | ArrayValue \<Rightarrow>
              if c = CHR '','' then Some (BeginValue, ps)
              else if c = CHR '']'' then pop ps else None)"

definition begin_value :: "jstep \<Rightarrow> jparse list \<Rightarrow> char \<Rightarrow> jscan" where
  "begin_value st ps c =
     (if json_space c then Some (st, ps)
      else if c = CHR ''{'' then push BeginStringOrEmpty ObjectKey ps
      else if c = CHR ''['' then push BeginValueOrEmpty ArrayValue ps
      else if c = CHR 0x22 then Some (InString, ps)
      else if c = CHR ''-'' then Some (Neg, ps)
      else if c = CHR ''0'' then Some (Digit0, ps)
      else if c = CHR ''t'' then Some (LitT, ps)
      else if c = CHR ''f'' then Some (LitF, ps)
      else if c = CHR ''n'' then Some (LitN, ps)
      else if digit1_9 c then Some (Digit1, ps)
      else None)"

definition begin_string :: "jstep \<Rightarrow> jparse list \<Rightarrow> char \<Rightarrow> jscan" where
  "begin_string st ps c =
     (if json_space c then Some (st, ps) else if c = CHR 0x22 then Some (InString, ps) else None)"

definition digit0 :: "jparse list \<Rightarrow> char \<Rightarrow> jscan" where
  "digit0 ps c =
     (if c = CHR ''.'' then Some (Dot, ps)
      else if c = CHR ''e'' \<or> c = CHR ''E'' then Some (Exp, ps) else end_value ps c)"

definition expect :: "bool \<Rightarrow> jstep \<Rightarrow> jparse list \<Rightarrow> jscan" where
  "expect b st ps = (if b then Some (st, ps) else None)"

fun json_step :: "jstep \<Rightarrow> jparse list \<Rightarrow> char \<Rightarrow> jscan" where
  "json_step BeginValueOrEmpty ps c = (if c = CHR '']'' then end_value ps c else begin_value BeginValueOrEmpty ps c)"
| "json_step BeginValue ps c = begin_value BeginValue ps c"
| "json_step BeginStringOrEmpty ps c =
     (if c = CHR ''}'' then end_value (ObjectValue # tl ps) c else begin_string BeginStringOrEmpty ps c)"
| "json_step BeginString ps c = begin_string BeginString ps c"
| "json_step EndValue ps c = end_value ps c"
| "json_step EndTop ps c = expect (json_space c) EndTop ps"
| "json_step InString ps c =
     (if c = CHR 0x22 then Some (EndValue, ps)
      else if c = CHR 0x5C then Some (InStringEsc, ps)
      else expect (0x20 \<le> byte c) InString ps)"
| "json_step InStringEsc ps c =
     (if c \<in> {CHR ''b'', CHR ''f'', CHR ''n'', CHR ''r'', CHR ''t'', CHR 0x5C, CHR ''/'', CHR 0x22}
      then Some (InString, ps) else expect (c = CHR ''u'') InStringEscU ps)"
| "json_step InStringEscU ps c = expect (hex_digit_char c) InStringEscU1 ps"
| "json_step InStringEscU1 ps c = expect (hex_digit_char c) InStringEscU12 ps"
| "json_step InStringEscU12 ps c = expect (hex_digit_char c) InStringEscU123 ps"
| "json_step InStringEscU123 ps c = expect (hex_digit_char c) InString ps"
| "json_step Neg ps c = (if c = CHR ''0'' then Some (Digit0, ps) else expect (digit1_9 c) Digit1 ps)"
| "json_step Digit1 ps c = (if digit c then Some (Digit1, ps) else digit0 ps c)"
| "json_step Digit0 ps c = digit0 ps c"
| "json_step Dot ps c = expect (digit c) Dot0 ps"
| "json_step Dot0 ps c =
     (if digit c then Some (Dot0, ps)
      else if c = CHR ''e'' \<or> c = CHR ''E'' then Some (Exp, ps) else end_value ps c)"
| "json_step Exp ps c = (if c = CHR ''+'' \<or> c = CHR ''-'' then Some (ExpSign, ps) else expect (digit c) Exp0 ps)"
| "json_step ExpSign ps c = expect (digit c) Exp0 ps"
| "json_step Exp0 ps c = (if digit c then Some (Exp0, ps) else end_value ps c)"
| "json_step LitT ps c = expect (c = CHR ''r'') LitTr ps"
| "json_step LitTr ps c = expect (c = CHR ''u'') LitTru ps"
| "json_step LitTru ps c = expect (c = CHR ''e'') EndValue ps"
| "json_step LitF ps c = expect (c = CHR ''a'') LitFa ps"
| "json_step LitFa ps c = expect (c = CHR ''l'') LitFal ps"
| "json_step LitFal ps c = expect (c = CHR ''s'') LitFals ps"
| "json_step LitFals ps c = expect (c = CHR ''e'') EndValue ps"
| "json_step LitN ps c = expect (c = CHR ''u'') LitNu ps"
| "json_step LitNu ps c = expect (c = CHR ''l'') LitNul ps"
| "json_step LitNul ps c = expect (c = CHR ''l'') EndValue ps"

fun json_feed :: "jscan \<Rightarrow> char \<Rightarrow> jscan" where
  "json_feed None c = None"
| "json_feed (Some (st, ps)) c = json_step st ps c"

definition json_run :: "jscan \<Rightarrow> string \<Rightarrow> jscan" where
  "json_run s t = foldl json_feed s t"

text \<open>At the end of the text a space completes a number at top level.\<close>

definition json_complete :: "jscan \<Rightarrow> bool" where
  "json_complete s = (case s of
      None \<Rightarrow> False
    | Some (EndTop, _) \<Rightarrow> True
    | Some (st, ps) \<Rightarrow> (case json_step st ps CHR 0x20 of Some (EndTop, _) \<Rightarrow> True | _ \<Rightarrow> False))"

definition json_Valid :: "string \<Rightarrow> bool" where
  "json_Valid t = json_complete (json_run (Some (BeginValue, [])) t)"

lemma json_run_simps [simp]:
  "json_run s [] = s" "json_run s (c # t) = json_run (json_feed s c) t"
  "json_run s (t @ u) = json_run (json_run s t) u"
  by (simp_all add: json_run_def)

lemma json_run_None [simp]: "json_run None t = None"
  by (induction t) auto

section \<open>Strings\<close>

definition hex_lower :: "nat \<Rightarrow> char" where
  "hex_lower n = (if n < 10 then char_of (0x30 + n) else char_of (0x57 + n))"

text \<open>One rune in the encoding of a string without HTML escaping; a byte that starts no rune becomes U+FFFD.\<close>

definition json_rune :: "string \<Rightarrow> string" where
  "json_rune r =
     (case r of
        [c] \<Rightarrow>
          if byte c \<ge> 0x80 then CHR 0x5C # ''ufffd''
          else if c = CHR 0x22 \<or> c = CHR 0x5C then [CHR 0x5C, c]
          else if byte c = 0x08 then [CHR 0x5C, CHR ''b'']
          else if byte c = 0x0C then [CHR 0x5C, CHR ''f'']
          else if byte c = 0x0A then [CHR 0x5C, CHR ''n'']
          else if byte c = 0x0D then [CHR 0x5C, CHR ''r'']
          else if byte c = 0x09 then [CHR 0x5C, CHR ''t'']
          else if byte c < 0x20
          then [CHR 0x5C, CHR ''u'', CHR ''0'', CHR ''0'', hex_lower (byte c div 16), hex_lower (byte c mod 16)]
          else [c]
      | _ \<Rightarrow>
          if r = [CHR 0xE2, CHR 0x80, CHR 0xA8] then CHR 0x5C # ''u2028''
          else if r = [CHR 0xE2, CHR 0x80, CHR 0xA9] then CHR 0x5C # ''u2029''
          else r)"

text \<open>What the encoder writes for a string: the literal and a newline.\<close>

definition json_Encode :: "string \<Rightarrow> string" where
  "json_Encode s = CHR 0x22 # concat (map json_rune (runes s)) @ [CHR 0x22, CHR 0x0A]"


lemma first_rune_bytes:
  assumes "rune_width s = (n, ok)" and "n \<noteq> 1" and "c \<in> set (take n s)"
  shows "0x80 \<le> byte c"
proof (cases s)
  case (Cons d cs)
  then obtain m lo hi where w: "second_range (byte d) = Some (m, lo, hi)" "n = m" "0x80 \<le> byte d"
    and b: "m \<le> length cs + 1" "lo \<le> byte (cs ! 0)" "list_all cont (take (m - 2) (tl cs))"
    using assms(1,2) by (auto simp: rune_width_def not_less split: if_splits option.splits)
  have m: "2 \<le> m" "0x80 \<le> lo" using w(1) by (auto simp: second_range_def split: if_splits)
  then obtain e es where cs: "cs = e # es" using b(1) by (cases cs) auto
  obtain k where k: "m = Suc (Suc k)" using m(1) by (metis add_2_eq_Suc le_Suc_ex)
  show ?thesis
    using assms(3) Cons cs k w(2,3) b m(2) by (auto simp: list_all_iff cont_def)
qed (use assms in \<open>simp add: rune_width_def\<close>)

lemma runes_bytes:
  "r \<in> set (runes s) \<Longrightarrow> length r \<noteq> 1 \<Longrightarrow> c \<in> set r \<Longrightarrow> 0x80 \<le> byte c"
proof (induction s rule: runes.induct)
  case (1 s)
  show ?case
  proof (cases "s = []")
    case True
    then show ?thesis using 1(2) by (simp add: runes.simps)
  next
    case False
    have b: "fst (rune_width s) \<le> length s" using rune_width_bounds [OF False] by simp
    from 1(2) False have "r = take (fst (rune_width s)) s \<or> r \<in> set (runes (drop (fst (rune_width s)) s))"
      by (subst (asm) runes.simps) auto
    then show ?thesis
    proof
      assume r: "r = take (fst (rune_width s)) s"
      then have "fst (rune_width s) \<noteq> 1" using 1(3) b by auto
      then show ?thesis
        using first_rune_bytes [of s "fst (rune_width s)" "snd (rune_width s)" c] r 1(4) by simp
    next
      assume "r \<in> set (runes (drop (fst (rune_width s)) s))"
      then show ?thesis using 1(1) [OF False _ 1(3,4)] by blast
    qed
  qed
qed

lemma InString_high: "\<forall>c \<in> set t. 0x80 \<le> byte c \<Longrightarrow> json_run (Some (InString, ps)) t = Some (InString, ps)"
proof (induction t)
  case (Cons c t)
  then have "c \<noteq> CHR 0x22" "c \<noteq> CHR 0x5C" by (auto simp: byte_def)
  then show ?case using Cons by (auto simp: expect_def)
qed simp

lemma hex_lower_ok: "n < 16 \<Longrightarrow> hex_digit_char (hex_lower n)"
  by (auto simp: hex_lower_def hex_digit_char_def digit_def byte_def)

lemma json_rune_InString:
  assumes "r \<in> set (runes s)"
  shows "json_run (Some (InString, ps)) (json_rune r) = Some (InString, ps)"
proof (cases "length r = 1")
  case True
  then obtain c where r: "r = [c]" by (cases r) auto
  have u: "json_run (Some (InString, ps)) (CHR 0x5C # ''ufffd'') = Some (InString, ps)"
    by (simp add: expect_def hex_digit_char_def digit_def byte_def)
  show ?thesis
  proof (cases "byte c \<ge> 0x80")
    case False
    then show ?thesis
      using hex_lower_ok [of "byte c div 16"] hex_lower_ok [of "byte c mod 16"]
      by (auto simp: r json_rune_def expect_def hex_digit_char_def digit_def byte_def)
  qed (use u in \<open>simp add: r json_rune_def\<close>)
next
  case False
  then have h: "\<forall>c \<in> set r. 0x80 \<le> byte c" using runes_bytes [OF assms] by blast
  have u: "json_run (Some (InString, ps)) (CHR 0x5C # ''u2028'') = Some (InString, ps)"
    "json_run (Some (InString, ps)) (CHR 0x5C # ''u2029'') = Some (InString, ps)"
    by (simp_all add: expect_def hex_digit_char_def digit_def byte_def)
  from False have "json_rune r \<in> {CHR 0x5C # ''u2028'', CHR 0x5C # ''u2029'', r}"
    by (auto simp: json_rune_def split: list.split)
  then show ?thesis using u InString_high [OF h] by auto
qed

text \<open>Inside a string literal the encoding of any string is read back as more of the literal.\<close>

lemma json_body_InString:
  "json_run (Some (InString, ps)) (concat (map json_rune (runes s))) = Some (InString, ps)"
proof -
  have "json_run (Some (InString, ps)) (concat (map json_rune rs)) = Some (InString, ps)" if "set rs \<subseteq> set (runes s)" for rs
    using that by (induction rs) (auto simp: json_rune_InString)
  then show ?thesis by simp
qed

end
