(* ===== verification/Notify_Render.thy ===== *)
theory Notify_Render
  imports Json_Scan Domain "HOL-Library.Char_ord" "HOL-Library.List_Lexorder"
begin

text \<open>
  Rendering and checking of notification templates (\<^verbatim>\<open>internal/notify/render.go\<close>) over the types of
  \<^verbatim>\<open>internal/domain/notify.go\<close>. A Go map from strings to strings is the list of its entries in the order one
  iteration visits them, without repeated keys.
\<close>

section \<open>Templates (\<^verbatim>\<open>domain/notify.go\<close>)\<close>

definition NotifyChannelSMS :: string where "NotifyChannelSMS = ''sms''"
definition NotifyChannelEmail :: string where "NotifyChannelEmail = ''email''"
definition NotifyChannelTelegram :: string where "NotifyChannelTelegram = ''telegram''"
definition NotifyChannelWecomBot :: string where "NotifyChannelWecomBot = ''wecom_bot''"
definition NotifyChannelDingtalkBot :: string where "NotifyChannelDingtalkBot = ''dingtalk_bot''"
definition NotifyChannelWebhook :: string where "NotifyChannelWebhook = ''webhook''"
definition NotifyModeVendor :: string where "NotifyModeVendor = ''vendor''"
definition NotifyModeCustom :: string where "NotifyModeCustom = ''custom''"

lemmas channel_defs [simp] = NotifyChannelSMS_def NotifyChannelEmail_def NotifyChannelTelegram_def
  NotifyChannelWecomBot_def NotifyChannelDingtalkBot_def NotifyChannelWebhook_def NotifyModeVendor_def NotifyModeCustom_def

record NotifyContent =
  nc_Subject :: string
  nc_Content :: string
  nc_ContentType :: string
  nc_Method :: string
  nc_Variables :: "string list"
  nc_MentionedList :: "string list"
  nc_MentionedMobileList :: "string list"
  nc_AtMobiles :: "string list"
  nc_IsAtAll :: bool

record NotifyTemplate =
  nt_Code :: string
  nt_Channel :: string
  nt_Mode :: string
  nt_Content :: NotifyContent
  nt_Description :: string
  nt_Enabled :: bool
  nt_CreatedAt :: int
  nt_UpdatedAt :: int

section \<open>Placeholders\<close>

definition ident_start :: "char \<Rightarrow> bool" where
  "ident_start c \<longleftrightarrow> 0x41 \<le> byte c \<and> byte c \<le> 0x5A \<or> 0x61 \<le> byte c \<and> byte c \<le> 0x7A \<or> c = CHR ''_''"

definition ident_char :: "char \<Rightarrow> bool" where
  "ident_char c \<longleftrightarrow> ident_start c \<or> 0x30 \<le> byte c \<and> byte c \<le> 0x39"

text \<open>\<^verbatim>\<open>identRE\<close>.\<close>

definition is_ident :: "string \<Rightarrow> bool" where
  "is_ident s = (case s of [] \<Rightarrow> False | c # cs \<Rightarrow> ident_start c \<and> list_all ident_char cs)"

text \<open>
  A match of \<^verbatim>\<open>placeholderRE\<close> just after its opening brace: the name and the text that follows. No character of a
  name is a brace, so the longest name is the only candidate.
\<close>

definition match_name :: "string \<Rightarrow> (string \<times> string) option" where
  "match_name s =
     (let name = takeWhile ident_char s
      in case dropWhile ident_char s of
           c # r \<Rightarrow> if c = CHR ''}'' \<and> is_ident name then Some (name, r) else None
         | [] \<Rightarrow> None)"

datatype piece = Lit char | Ph string

lemma match_name_shorter: "match_name s = Some (n, r) \<Longrightarrow> length r < length s"
proof -
  assume "match_name s = Some (n, r)"
  then have "CHR ''}'' # r = dropWhile ident_char s"
    by (auto simp: match_name_def Let_def split: list.splits if_splits)
  then show ?thesis using length_dropWhile_le [of ident_char s] by (metis length_Cons less_eq_Suc_le)
qed

text \<open>The leftmost, non-overlapping matches of \<^verbatim>\<open>placeholderRE\<close> and what lies between them.\<close>

function pieces :: "string \<Rightarrow> piece list" where
  "pieces [] = []"
| "pieces (c # cs) =
     (if c = CHR ''{''
      then case match_name cs of Some (n, r) \<Rightarrow> Ph n # pieces r | None \<Rightarrow> Lit c # pieces cs
      else Lit c # pieces cs)"
  by pat_completeness auto
termination
  by (relation "measure length") (auto dest: match_name_shorter)

fun extract_loop :: "piece list \<Rightarrow> string list \<Rightarrow> string list" where
  "extract_loop [] out = out"
| "extract_loop (Lit c # ps) out = extract_loop ps out"
| "extract_loop (Ph n # ps) out = (if n \<notin> set out then extract_loop ps (out @ [n]) else extract_loop ps out)"

definition ExtractPlaceholders :: "string \<Rightarrow> string list" where
  "ExtractPlaceholders s = extract_loop (pieces s) []"

section \<open>Escaping\<close>

definition escapeNone :: "string \<Rightarrow> string" where
  "escapeNone s = s"

definition html_char :: "char \<Rightarrow> string" where
  "html_char c =
     (if c = CHR ''&'' then ''&amp;''
      else if c = CHR 0x27 then ''&#39;''
      else if c = CHR ''<'' then ''&lt;''
      else if c = CHR ''>'' then ''&gt;''
      else if c = CHR 0x22 then ''&#34;''
      else [c])"

definition escapeHTML :: "string \<Rightarrow> string" where
  "escapeHTML s = concat (map html_char s)"

definition hex_upper :: "nat \<Rightarrow> char" where
  "hex_upper n = (if n < 10 then char_of (0x30 + n) else char_of (0x37 + n))"

definition unreserved :: "char \<Rightarrow> bool" where
  "unreserved c \<longleftrightarrow> ident_char c \<or> c \<in> {CHR ''-'', CHR ''.'', CHR ''~''}"

text \<open>\<^verbatim>\<open>url.QueryEscape\<close>.\<close>

definition query_char :: "char \<Rightarrow> string" where
  "query_char c =
     (if c = CHR '' '' then ''+''
      else if unreserved c then [c]
      else [CHR ''%'', hex_upper (byte c div 16), hex_upper (byte c mod 16)])"

definition escapeQuery :: "string \<Rightarrow> string" where
  "escapeQuery s = concat (map (\<lambda>c. if c = CHR ''+'' then ''%20'' else [c]) (concat (map query_char s)))"

definition TrimSuffix :: "string \<Rightarrow> string \<Rightarrow> string" where
  "TrimSuffix s suf = (if suffix suf s then List.take (length s - length suf) s else s)"

definition escapeJSON :: "string \<Rightarrow> string" where
  "escapeJSON s =
     (let out = TrimSuffix (json_Encode s) [CHR 0x0A] in List.take (length out - 1 - 1) (List.drop 1 out))"

definition subst_piece :: "(string \<rightharpoonup> string) \<Rightarrow> (string \<Rightarrow> string) \<Rightarrow> piece \<Rightarrow> string" where
  "subst_piece params esc p =
     (case p of
        Lit c \<Rightarrow> [c]
      | Ph n \<Rightarrow> (case params n of None \<Rightarrow> CHR ''{'' # n @ ''}'' | Some v \<Rightarrow> esc v))"

definition Substitute :: "string \<Rightarrow> (string \<times> string) list \<Rightarrow> (string \<Rightarrow> string) \<Rightarrow> string" where
  "Substitute s params esc = concat (map (subst_piece (map_of params) esc) (pieces s))"

section \<open>Checks\<close>

definition CodeNotifyParamsInvalid :: string where "CodeNotifyParamsInvalid = ''NOTIFY_PARAMS_INVALID''"
definition CodeNotifyTemplateInvalid :: string where "CodeNotifyTemplateInvalid = ''NOTIFY_TEMPLATE_INVALID''"

text \<open>The error with the fields \<^verbatim>\<open>missing\<close> and \<^verbatim>\<open>unexpected\<close> of its detail.\<close>

definition ValidateParams ::
  "string list \<Rightarrow> (string \<times> string) list \<Rightarrow> (goerr \<times> string list \<times> string list) option" where
  "ValidateParams variables params =
     (let missing = filter (\<lambda>v. v \<notin> set (map fst params)) variables;
          unexpected = filter (\<lambda>k. k \<notin> set variables) (map fst params)
      in if missing = [] \<and> unexpected = [] then None
         else Some (DomainErr ErrInvalidArgument CodeNotifyParamsInvalid, sort missing, sort unexpected))"

abbreviation invalid :: goerr where
  "invalid \<equiv> DomainErr ErrInvalidArgument CodeNotifyTemplateInvalid"

definition optionalFields :: "string list" where
  "optionalFields =
     [''subject'', ''contentType'', ''method'', ''mentionedList'', ''mentionedMobileList'', ''atMobiles'', ''isAtAll'']"

definition presentFields :: "NotifyContent \<Rightarrow> string \<Rightarrow> bool" where
  "presentFields c = (\<lambda>_. False)
     (''subject'' := nc_Subject c \<noteq> [],
      ''contentType'' := nc_ContentType c \<noteq> [],
      ''method'' := nc_Method c \<noteq> [],
      ''mentionedList'' := length (nc_MentionedList c) > 0,
      ''mentionedMobileList'' := length (nc_MentionedMobileList c) > 0,
      ''atMobiles'' := length (nc_AtMobiles c) > 0,
      ''isAtAll'' := nc_IsAtAll c)"

definition rejectUnsupported :: "NotifyContent \<Rightarrow> string list \<Rightarrow> goerr option" where
  "rejectUnsupported c allowed =
     (if list_ex (\<lambda>name. presentFields c name \<and> name \<notin> set allowed) optionalFields then Some invalid else None)"

text \<open>The loop over the declared variables; \<^verbatim>\<open>seen\<close> are those before.\<close>

fun check_variables :: "string list \<Rightarrow> string list \<Rightarrow> goerr option" where
  "check_variables [] seen = None"
| "check_variables (v # vs) seen =
     (if \<not> is_ident v then Some invalid
      else if v \<in> set seen then Some invalid
      else check_variables vs (v # seen))"

definition checkPlaceholders :: "NotifyContent \<Rightarrow> goerr option" where
  "checkPlaceholders c =
     (let used = ExtractPlaceholders (nc_Subject c @ [CHR 0x0A] @ nc_Content c);
          undeclared = filter (\<lambda>u. u \<notin> set (nc_Variables c)) used;
          unused = filter (\<lambda>v. v \<notin> set used) (nc_Variables c)
      in if length undeclared > 0 then Some invalid
         else if length unused > 0 then Some invalid else None)"

text \<open>The \<^verbatim>\<open>switch\<close> on the channel: the content with its defaults.\<close>

definition channel_content :: "string \<Rightarrow> string \<Rightarrow> NotifyContent \<Rightarrow> goerr + NotifyContent" where
  "channel_content ch mode c =
     (let check = (\<lambda>allowed c'. case rejectUnsupported c allowed of Some e \<Rightarrow> Inl e | None \<Rightarrow> c')
      in if mode = NotifyModeVendor then check [] (Inr c)
         else if ch = NotifyChannelEmail then
           check [''subject'', ''contentType'']
             (if TrimSpace (nc_Subject c) = [] then Inl invalid
              else let c1 = (if nc_ContentType c = [] then c\<lparr>nc_ContentType := ''text/plain''\<rparr> else c)
                   in if nc_ContentType c1 \<noteq> ''text/plain'' \<and> nc_ContentType c1 \<noteq> ''text/html''
                      then Inl invalid else Inr c1)
         else if ch = NotifyChannelTelegram then check [] (Inr c)
         else if ch = NotifyChannelWecomBot then check [''mentionedList'', ''mentionedMobileList''] (Inr c)
         else if ch = NotifyChannelDingtalkBot then check [''atMobiles'', ''isAtAll''] (Inr c)
         else if ch = NotifyChannelWebhook then
           check [''method'', ''contentType'']
             (let c1 = (if nc_Method c = [] then c\<lparr>nc_Method := ''POST''\<rparr> else c)
              in if nc_Method c1 = ''GET'' then (if nc_ContentType c1 \<noteq> [] then Inl invalid else Inr c1)
                 else if nc_Method c1 = ''POST'' then
                   (let c2 = (if nc_ContentType c1 = [] then c1\<lparr>nc_ContentType := ''application/json''\<rparr> else c1)
                    in if nc_ContentType c2 \<noteq> ''application/json'' \<and> nc_ContentType c2 \<noteq> ''text/plain''
                       then Inl invalid else Inr c2)
                 else Inl invalid)
         else Inr c)"

definition ValidateContent :: "string \<Rightarrow> string \<Rightarrow> NotifyContent \<Rightarrow> goerr + NotifyContent" where
  "ValidateContent ch mode c =
     (if \<not> Channel_Valid ch then Inl invalid
      else if \<not> AllowsMode ch mode then Inl invalid
      else if TrimSpace (nc_Content c) = [] then Inl invalid
      else case check_variables (nc_Variables c) [] of
        Some e \<Rightarrow> Inl e
      | None \<Rightarrow>
          (case channel_content ch mode c of
             Inl e \<Rightarrow> Inl e
           | Inr c1 \<Rightarrow>
               if mode = NotifyModeCustom then
                 (case checkPlaceholders c1 of
                    Some e \<Rightarrow> Inl e
                  | None \<Rightarrow>
                      if ch = NotifyChannelWebhook \<and> nc_Method c1 = ''POST'' \<and> nc_ContentType c1 = ''application/json'' \<and>
                         \<not> json_Valid (Substitute (nc_Content c1) (map (\<lambda>v. (v, ''0'')) (nc_Variables c1)) escapeJSON)
                      then Inl invalid else Inr c1)
               else Inr c1))"

section \<open>Rendering\<close>

record Rendered =
  rd_Subject :: string
  rd_Body :: string

definition escaper :: "NotifyTemplate \<Rightarrow> string \<Rightarrow> string" where
  "escaper t =
     (let c = nt_Content t
      in if nt_Channel t = NotifyChannelEmail then (if nc_ContentType c = ''text/html'' then escapeHTML else escapeNone)
         else if nt_Channel t = NotifyChannelWebhook then
           (if nc_Method c = ''GET'' then escapeQuery
            else if nc_ContentType c = [] \<or> nc_ContentType c = ''application/json'' then escapeJSON else escapeNone)
         else escapeNone)"

definition one_line :: "string \<Rightarrow> string" where
  "one_line s = map (\<lambda>c. if c = CHR 0x0D \<or> c = CHR 0x0A then CHR '' '' else c) s"

definition Render :: "NotifyTemplate \<Rightarrow> (string \<times> string) list \<Rightarrow> Rendered" where
  "Render t params =
     (let c = nt_Content t
      in \<lparr>rd_Subject = (if nc_Subject c \<noteq> [] then one_line (Substitute (nc_Subject c) params escapeNone) else []),
          rd_Body = Substitute (nc_Content c) params (escaper t)\<rparr>)"


section \<open>Lemmas on placeholders\<close>

lemma set_extract_loop: "set (extract_loop ps out) = set out \<union> {n. Ph n \<in> set ps}"
  by (induction ps out rule: extract_loop.induct) auto

lemma set_ExtractPlaceholders: "set (ExtractPlaceholders s) = {n. Ph n \<in> set (pieces s)}"
  by (simp add: ExtractPlaceholders_def set_extract_loop)

lemma distinct_extract_loop: "distinct out \<Longrightarrow> distinct (extract_loop ps out)"
  by (induction ps out rule: extract_loop.induct) auto

lemma not_ident_nl: "\<not> ident_char CHR 0x0A"
  by (simp add: ident_char_def ident_start_def byte_def)

lemma match_name_Some:
  "match_name s = Some (n, r) \<longleftrightarrow> s = n @ CHR ''}'' # r \<and> is_ident n"
proof
  assume m: "match_name s = Some (n, r)"
  then have "dropWhile ident_char s = CHR ''}'' # r" "n = takeWhile ident_char s" "is_ident n"
    by (auto simp: match_name_def Let_def split: list.splits if_splits)
  then show "s = n @ CHR ''}'' # r \<and> is_ident n" by (metis takeWhile_dropWhile_id)
next
  assume a: "s = n @ CHR ''}'' # r \<and> is_ident n"
  then have "\<forall>c \<in> set n. ident_char c"
    by (auto simp: is_ident_def list_all_iff ident_char_def split: list.splits)
  moreover have "\<not> ident_char CHR ''}''" by (simp add: ident_char_def ident_start_def byte_def)
  ultimately show "match_name s = Some (n, r)" using a
    by (simp add: match_name_def takeWhile_append2 dropWhile_append2)
qed

lemma match_name_newline:
  "match_name (s @ CHR 0x0A # b) = map_option (\<lambda>(n, r). (n, r @ CHR 0x0A # b)) (match_name s)"
proof (cases "match_name s")
  case (Some nr)
  then obtain n r where "s = n @ CHR ''}'' # r" "is_ident n" and nr: "nr = (n, r)"
    using match_name_Some by (cases nr) blast
  then have "match_name (s @ CHR 0x0A # b) = Some (n, r @ CHR 0x0A # b)" by (simp add: match_name_Some)
  then show ?thesis using Some nr by simp
next
  case None
  have "match_name (s @ CHR 0x0A # b) = None"
  proof (rule ccontr)
    assume "match_name (s @ CHR 0x0A # b) \<noteq> None"
    then obtain n r where e: "s @ CHR 0x0A # b = n @ CHR ''}'' # r" and n: "is_ident n"
      using match_name_Some by (metis not_None_eq prod.collapse)
    have "\<forall>c \<in> set n. ident_char c"
      using n by (auto simp: is_ident_def list_all_iff ident_char_def split: list.splits)
    then have "CHR 0x0A \<notin> set (n @ [CHR ''}''])" using not_ident_nl by auto
    then obtain us where us: "s = n @ us" "us @ CHR 0x0A # b = CHR ''}'' # r"
      using e by (auto simp: append_eq_append_conv2 Cons_eq_append_conv)
    then obtain vs where "us = CHR ''}'' # vs" by (cases us) auto
    then have "s = n @ CHR ''}'' # vs" using us by simp
    then have "match_name s = Some (n, vs)" using n by (simp add: match_name_Some)
    then show False using None by simp
  qed
  then show ?thesis using None by simp
qed

lemma pieces_newline: "pieces (a @ CHR 0x0A # b) = pieces a @ Lit CHR 0x0A # pieces b"
  by (induction a rule: pieces.induct) (auto simp: match_name_newline split: option.splits)

text \<open>Reading a text into pieces and writing it back with no values changes nothing.\<close>

lemma Substitute_Nil: "Substitute s [] esc = s"
  unfolding Substitute_def
  by (induction s rule: pieces.induct) (auto simp: subst_piece_def match_name_Some split: option.splits)

lemma checkPlaceholders_None:
  "checkPlaceholders c = None \<longleftrightarrow>
     set (nc_Variables c) = {n. Ph n \<in> set (pieces (nc_Subject c)) \<union> set (pieces (nc_Content c))}"
  by (auto simp: checkPlaceholders_def Let_def set_ExtractPlaceholders pieces_newline filter_empty_conv)

lemma check_variables_None:
  "check_variables vs seen = None \<longleftrightarrow> list_all is_ident vs \<and> distinct vs \<and> set vs \<inter> set seen = {}"
  by (induction vs seen rule: check_variables.induct) auto

lemma ValidateParams_None: "ValidateParams vs params = None \<longleftrightarrow> set (map fst params) = set vs"
  by (auto simp: ValidateParams_def Let_def filter_empty_conv)

lemma ValidateContent_Inr:
  assumes "ValidateContent ch mode c = Inr c'"
  shows "Channel_Valid ch" and "AllowsMode ch mode" and "TrimSpace (nc_Content c) \<noteq> []"
    and "check_variables (nc_Variables c) [] = None" and "channel_content ch mode c = Inr c'"
    and "mode = NotifyModeCustom \<longrightarrow> checkPlaceholders c' = None \<and>
      (ch = NotifyChannelWebhook \<and> nc_Method c' = ''POST'' \<and> nc_ContentType c' = ''application/json'' \<longrightarrow>
       json_Valid (Substitute (nc_Content c') (map (\<lambda>v. (v, ''0'')) (nc_Variables c')) escapeJSON))"
  using assms unfolding ValidateContent_def
  by (simp_all del: channel_defs split: if_split_asm option.split_asm sum.split_asm)

lemma ValidateContent_custom:
  assumes "ValidateContent ch NotifyModeCustom c = Inr c'"
  shows "checkPlaceholders c' = None"
    and "ch = NotifyChannelWebhook \<Longrightarrow> nc_Method c' = ''POST'' \<Longrightarrow> nc_ContentType c' = ''application/json'' \<Longrightarrow>
      json_Valid (Substitute (nc_Content c') (map (\<lambda>v. (v, ''0'')) (nc_Variables c')) escapeJSON)"
  using ValidateContent_Inr(6) [OF assms] by blast+

lemma escapeJSON_eq: "escapeJSON s = concat (map json_rune (runes s))"
proof -
  have "suffix [CHR 0x0A] (json_Encode s)"
    unfolding json_Encode_def suffix_def
    by (rule exI [of _ "CHR 0x22 # concat (map json_rune (runes s)) @ [CHR 0x22]"]) simp
  then show ?thesis by (simp add: escapeJSON_def TrimSuffix_def json_Encode_def Let_def)
qed

text \<open>
  The scanner stands inside a string literal wherever a placeholder begins; at a placeholder it stays where it is.
\<close>

fun quoted :: "jscan \<Rightarrow> piece list \<Rightarrow> bool" where
  "quoted s [] = True"
| "quoted s (Lit c # ps) = quoted (json_feed s c) ps"
| "quoted s (Ph n # ps) = ((\<exists>qs. s = Some (InString, qs)) \<and> quoted s ps)"

lemma quoted_run:
  assumes "quoted s ps" and "\<And>n. Ph n \<in> set ps \<Longrightarrow> n \<in> dom f" and "\<And>n. Ph n \<in> set ps \<Longrightarrow> n \<in> dom g"
  shows "json_run s (concat (map (subst_piece f escapeJSON) ps)) = json_run s (concat (map (subst_piece g escapeJSON) ps))"
  using assms
proof (induction s ps rule: quoted.induct)
  case (3 s n ps)
  then obtain qs where s: "s = Some (InString, qs)" by auto
  have "n \<in> dom f" "n \<in> dom g" using 3(3) [of n] 3(4) [of n] by simp_all
  then obtain u v where uv: "f n = Some u" "g n = Some v" by blast
  have "json_run s (concat (map (subst_piece f escapeJSON) ps)) = json_run s (concat (map (subst_piece g escapeJSON) ps))"
    by (rule 3(1)) (use 3(2-4) in auto)
  moreover have "subst_piece f escapeJSON (Ph n) = concat (map json_rune (runes u))"
      "subst_piece g escapeJSON (Ph n) = concat (map json_rune (runes v))"
    by (simp_all add: subst_piece_def uv escapeJSON_eq)
  ultimately show ?case by (simp add: s json_body_InString)
qed (simp_all add: subst_piece_def)

section \<open>Properties\<close>

text \<open>
  A custom template that was accepted and parameters that were accepted for it fit each other exactly: the
  placeholders of subject and body are precisely the parameters, so no placeholder is sent unreplaced and no value is dropped.
\<close>

theorem accepted_template_renders_completely:
  assumes "ValidateContent ch NotifyModeCustom c = Inr c'" and "ValidateParams (nc_Variables c') params = None"
  shows "{n. Ph n \<in> set (pieces (nc_Subject c')) \<union> set (pieces (nc_Content c'))} = dom (map_of params) \<and>
    Substitute (nc_Content c') params esc =
      concat (map (\<lambda>p. case p of Lit c \<Rightarrow> [c] | Ph n \<Rightarrow> esc (the (map_of params n))) (pieces (nc_Content c')))"
proof -
  have d: "{n. Ph n \<in> set (pieces (nc_Subject c')) \<union> set (pieces (nc_Content c'))} = dom (map_of params)"
    using ValidateContent_custom(1) [OF assms(1)] assms(2)
    by (simp add: checkPlaceholders_None ValidateParams_None dom_map_of_conv_image_fst)
  have "subst_piece (map_of params) esc p = (case p of Lit c \<Rightarrow> [c] | Ph n \<Rightarrow> esc (the (map_of params n)))"
    if "p \<in> set (pieces (nc_Content c'))" for p
  proof (cases p)
    case (Ph n)
    then have "n \<in> dom (map_of params)" using that d by blast
    then show ?thesis using Ph by (auto simp: subst_piece_def)
  qed (simp add: subst_piece_def)
  then show ?thesis using d by (simp add: Substitute_def cong: map_cong)
qed

definition demo_hook :: NotifyContent where
  "demo_hook = \<lparr>nc_Subject = [], nc_Content = CHR 0x7B # [CHR 0x22] @ ''a'' @ [CHR 0x22] @ '':'' @ [CHR 0x22] @ ''{x}'' @ [CHR 0x22] @ ''}'',
     nc_ContentType = [], nc_Method = [], nc_Variables = [''x''], nc_MentionedList = [],
     nc_MentionedMobileList = [], nc_AtMobiles = [], nc_IsAtAll = False\<rparr>"

definition demo_hook' :: NotifyContent where
  "demo_hook' = demo_hook\<lparr>nc_ContentType := ''application/json'', nc_Method := ''POST''\<rparr>"

lemma demo_hook_ok: "ValidateContent NotifyChannelWebhook NotifyModeCustom demo_hook = Inr demo_hook'"
  by code_simp

theorem accepted_template_renders_completely_witness:
  "{n. Ph n \<in> set (pieces (nc_Subject demo_hook')) \<union> set (pieces (nc_Content demo_hook'))} = dom (map_of [(''x'', ''1'')])"
proof -
  have "ValidateParams (nc_Variables demo_hook') [(''x'', ''1'')] = None" by code_simp
  from accepted_template_renders_completely [OF demo_hook_ok this] show ?thesis by blast
qed

text \<open>
  A JSON webhook template whose placeholders all stand inside string literals renders to valid JSON for
  every choice of values: what was checked with the sample value holds for all values, because an escaped value never ends or
  breaks the literal it stands in.
\<close>

theorem quoted_template_renders_valid_json:
  assumes "ValidateContent NotifyChannelWebhook NotifyModeCustom (nt_Content t) = Inr (nt_Content t)"
    and "nt_Channel t = NotifyChannelWebhook"
    and "nc_Method (nt_Content t) = ''POST''" and "nc_ContentType (nt_Content t) = ''application/json''"
    and "quoted (Some (BeginValue, [])) (pieces (nc_Content (nt_Content t)))"
    and "ValidateParams (nc_Variables (nt_Content t)) params = None"
  shows "json_Valid (rd_Body (Render t params))"
proof -
  let ?c = "nt_Content t" and ?sample = "map (\<lambda>v. (v, ''0'')) (nc_Variables (nt_Content t))"
  have v: "json_Valid (Substitute (nc_Content ?c) ?sample escapeJSON)"
    using ValidateContent_custom(2) [OF assms(1)] assms(3,4) by simp
  have p: "Ph n \<in> set (pieces (nc_Content ?c)) \<Longrightarrow> n \<in> set (nc_Variables ?c)" for n
    using ValidateContent_custom(1) [OF assms(1)] by (auto simp: checkPlaceholders_None)
  have "json_run (Some (BeginValue, [])) (Substitute (nc_Content ?c) ?sample escapeJSON) =
      json_run (Some (BeginValue, [])) (Substitute (nc_Content ?c) params escapeJSON)"
    unfolding Substitute_def
    by (rule quoted_run [OF assms(5)])
       (use p assms(6) in \<open>auto simp: dom_map_of_conv_image_fst ValidateParams_None image_image\<close>)
  moreover have "rd_Body (Render t params) = Substitute (nc_Content ?c) params escapeJSON"
    using assms(2-4) by (simp add: Render_def escaper_def Let_def)
  ultimately show ?thesis using v by (simp add: json_Valid_def)
qed

definition demo_template :: "NotifyContent \<Rightarrow> NotifyTemplate" where
  "demo_template c = \<lparr>nt_Code = ''order'', nt_Channel = NotifyChannelWebhook, nt_Mode = NotifyModeCustom, nt_Content = c,
     nt_Description = [], nt_Enabled = True, nt_CreatedAt = 0, nt_UpdatedAt = 0\<rparr>"

theorem quoted_template_renders_valid_json_witness:
  "json_Valid (rd_Body (Render (demo_template demo_hook') [(''x'', [CHR 0x22, CHR 0x5C, CHR 0x0A])]))"
proof -
  have q: "quoted (Some (BeginValue, [])) (pieces (nc_Content demo_hook'))"
    by (simp add: demo_hook'_def demo_hook_def match_name_def is_ident_def ident_char_def ident_start_def byte_def
        begin_value_def begin_string_def end_value_def push_def pop_def json_space_def maxNestingDepth_def expect_def digit1_9_def)
  have v: "ValidateContent NotifyChannelWebhook NotifyModeCustom demo_hook' = Inr demo_hook'" by code_simp
  have "ValidateParams (nc_Variables demo_hook') [(''x'', [CHR 0x22, CHR 0x5C, CHR 0x0A])] = None" by code_simp
  then show ?thesis
    using quoted_template_renders_valid_json
        [where t = "demo_template demo_hook'" and params = "[(''x'', [CHR 0x22, CHR 0x5C, CHR 0x0A])]"] q v
    by (simp add: demo_template_def) (simp add: demo_hook'_def)
qed

text \<open>
  The check with the sample value does not protect a placeholder that stands as a bare JSON value: the template
  that is the list of one placeholder is accepted, yet a value with a comma adds a list element and a value that is a
  word makes the rendered text invalid JSON.
\<close>

theorem bare_placeholder_breaks_json:
  "\<exists>c. ValidateContent NotifyChannelWebhook NotifyModeCustom c = Inr c \<and> nc_ContentType c = ''application/json'' \<and>
     ValidateParams (nc_Variables c) [(''x'', ''1,2'')] = None \<and> ValidateParams (nc_Variables c) [(''x'', ''abc'')] = None \<and>
     rd_Body (Render (demo_template c) [(''x'', ''1,2'')]) = ''[1,2]'' \<and>
     json_Valid (rd_Body (Render (demo_template c) [(''x'', ''1,2'')])) \<and>
     \<not> json_Valid (rd_Body (Render (demo_template c) [(''x'', ''abc'')]))"
proof (intro exI conjI)
  let ?c = "demo_hook'\<lparr>nc_Content := ''[{x}]''\<rparr>"
  show "ValidateContent NotifyChannelWebhook NotifyModeCustom ?c = Inr ?c" by code_simp
  show "nc_ContentType ?c = ''application/json''" by code_simp
  show "ValidateParams (nc_Variables ?c) [(''x'', ''1,2'')] = None" by code_simp
  show "ValidateParams (nc_Variables ?c) [(''x'', ''abc'')] = None" by code_simp
  show "rd_Body (Render (demo_template ?c) [(''x'', ''1,2'')]) = ''[1,2]''" by code_simp
  show "json_Valid (rd_Body (Render (demo_template ?c) [(''x'', ''1,2'')]))" by code_simp
  show "\<not> json_Valid (rd_Body (Render (demo_template ?c) [(''x'', ''abc'')]))" by code_simp
qed


lemma hex_upper_unreserved: "n < 16 \<Longrightarrow> unreserved (hex_upper n)"
  by (auto simp: hex_upper_def unreserved_def ident_char_def ident_start_def byte_def)

lemma query_char_safe: "set (query_char c) \<subseteq> {d. unreserved d \<or> d = CHR ''%'' \<or> d = CHR ''+''}"
proof -
  have "byte c < 256" by (simp add: byte_def)
  then have "unreserved (hex_upper (byte c div 16))" "unreserved (hex_upper (byte c mod 16))"
    by (auto intro!: hex_upper_unreserved)
  then show ?thesis by (auto simp: query_char_def)
qed

lemma html_char_safe: "set (html_char c) \<inter> {CHR ''<'', CHR ''>'', CHR 0x22, CHR 0x27} = {}"
  by (auto simp: html_char_def)

text \<open>
  No value leaves the context it is rendered into: a subject is always one line whatever the values, a value
  in an HTML mail contributes no tag and closes no attribute, and a value in a query string contributes only unreserved
  characters and percent signs, so neither a further parameter nor a fragment.
\<close>

theorem rendered_values_stay_in_context:
  "set (rd_Subject (Render t params)) \<inter> {CHR 0x0D, CHR 0x0A} = {} \<and>
   set (escapeHTML v) \<inter> {CHR ''<'', CHR ''>'', CHR 0x22, CHR 0x27} = {} \<and>
   set (escapeQuery v) \<subseteq> {c. unreserved c \<or> c = CHR ''%''}"
proof (intro conjI)
  show "set (rd_Subject (Render t params)) \<inter> {CHR 0x0D, CHR 0x0A} = {}"
    by (auto simp: Render_def one_line_def Let_def)
  show "set (escapeHTML v) \<inter> {CHR ''<'', CHR ''>'', CHR 0x22, CHR 0x27} = {}"
    using html_char_safe by (fastforce simp: escapeHTML_def)
  have "unreserved CHR ''2''" "unreserved CHR ''0''"
    by (simp_all add: unreserved_def ident_char_def byte_def)
  moreover have "unreserved d \<or> d = CHR ''%'' \<or> d = CHR ''+''" if "d \<in> set (query_char c)" for c d
    using query_char_safe that by blast
  ultimately show "set (escapeQuery v) \<subseteq> {c. unreserved c \<or> c = CHR ''%''}"
    by (auto simp: escapeQuery_def split: if_splits)
qed

section \<open>Defaults\<close>

lemma rejectUnsupported_None:
  "rejectUnsupported c allowed = None \<longleftrightarrow>
     (nc_Subject c \<noteq> [] \<longrightarrow> ''subject'' \<in> set allowed) \<and> (nc_ContentType c \<noteq> [] \<longrightarrow> ''contentType'' \<in> set allowed) \<and>
     (nc_Method c \<noteq> [] \<longrightarrow> ''method'' \<in> set allowed) \<and> (nc_MentionedList c \<noteq> [] \<longrightarrow> ''mentionedList'' \<in> set allowed) \<and>
     (nc_MentionedMobileList c \<noteq> [] \<longrightarrow> ''mentionedMobileList'' \<in> set allowed) \<and>
     (nc_AtMobiles c \<noteq> [] \<longrightarrow> ''atMobiles'' \<in> set allowed) \<and> (nc_IsAtAll c \<longrightarrow> ''isAtAll'' \<in> set allowed)"
  by (simp add: rejectUnsupported_def optionalFields_def presentFields_def) blast

text \<open>The check the branches share, and what a branch that passes has changed.\<close>

lemma check_Inr:
  "(case rejectUnsupported c allowed of Some e \<Rightarrow> Inl e | None \<Rightarrow> x) = Inr y \<longleftrightarrow> rejectUnsupported c allowed = None \<and> x = Inr y"
  by (auto split: option.split)

lemma channel_content_Inr:
  assumes "channel_content ch mode c = Inr c'"
  shows "channel_content ch mode c' = Inr c' \<and> nc_Variables c' = nc_Variables c \<and> nc_Content c' = nc_Content c"
proof -
  consider "mode = ''vendor''" | "mode \<noteq> ''vendor''" "ch = ''email''" | "mode \<noteq> ''vendor''" "ch = ''telegram''"
    | "mode \<noteq> ''vendor''" "ch = ''wecom_bot''" | "mode \<noteq> ''vendor''" "ch = ''dingtalk_bot''"
    | "mode \<noteq> ''vendor''" "ch = ''webhook''"
    | "mode \<noteq> ''vendor''" "ch \<notin> {''email'', ''telegram'', ''wecom_bot'', ''dingtalk_bot'', ''webhook''}" by blast
  then show ?thesis
  proof cases
    case 2
    define c1 where "c1 = (if nc_ContentType c = [] then c\<lparr>nc_ContentType := ''text/plain''\<rparr> else c)"
    have r: "rejectUnsupported c [''subject'', ''contentType''] = None" "TrimSpace (nc_Subject c) \<noteq> []"
        "nc_ContentType c1 \<in> {''text/plain'', ''text/html''}" "c' = c1"
      using assms 2 unfolding channel_content_def Let_def check_Inr c1_def [symmetric]
      by (auto simp: check_Inr split: if_split_asm)
    have k: "nc_Subject c1 = nc_Subject c" "nc_Variables c1 = nc_Variables c" "nc_Content c1 = nc_Content c"
        "rejectUnsupported c1 [''subject'', ''contentType''] = None"
      using r(1) by (simp_all add: c1_def rejectUnsupported_None)
    have "nc_ContentType c1 \<noteq> []" using r(3) by auto
    then show ?thesis using r k 2 unfolding channel_content_def Let_def by (auto simp: check_Inr)
  next
    case 6
    define c1 where "c1 = (if nc_Method c = [] then c\<lparr>nc_Method := ''POST''\<rparr> else c)"
    define c2 where "c2 = (if nc_ContentType c1 = [] then c1\<lparr>nc_ContentType := ''application/json''\<rparr> else c1)"
    have r: "rejectUnsupported c [''method'', ''contentType''] = None"
        "nc_Method c1 = ''GET'' \<and> nc_ContentType c1 = [] \<and> c' = c1 \<or>
         nc_Method c1 = ''POST'' \<and> nc_ContentType c2 \<in> {''application/json'', ''text/plain''} \<and> c' = c2"
      using assms 6 unfolding channel_content_def Let_def check_Inr c1_def [symmetric] c2_def [symmetric]
      by (auto simp: check_Inr split: if_split_asm)
    have k: "nc_Variables c1 = nc_Variables c" "nc_Content c1 = nc_Content c" "nc_Variables c2 = nc_Variables c"
        "nc_Content c2 = nc_Content c" "nc_Method c2 = nc_Method c1"
        "rejectUnsupported c1 [''method'', ''contentType''] = None" "rejectUnsupported c2 [''method'', ''contentType''] = None"
      using r(1) by (simp_all add: c1_def c2_def rejectUnsupported_None)
    have "nc_Method c1 \<noteq> []" using r(2) by auto
    from r(2) show ?thesis
    proof
      assume a: "nc_Method c1 = ''GET'' \<and> nc_ContentType c1 = [] \<and> c' = c1"
      then show ?thesis using k 6 unfolding channel_content_def Let_def by (auto simp: check_Inr)
    next
      assume a: "nc_Method c1 = ''POST'' \<and> nc_ContentType c2 \<in> {''application/json'', ''text/plain''} \<and> c' = c2"
      then have "nc_ContentType c2 \<noteq> []" by auto
      then show ?thesis using a k 6 unfolding channel_content_def Let_def by (auto simp: check_Inr)
    qed
  next
    case 1
    show ?thesis using assms unfolding channel_content_def Let_def 1 by (auto simp: check_Inr)
  next
    case 3
    then show ?thesis using assms unfolding channel_content_def Let_def by (auto simp: check_Inr)
  next
    case 4
    then show ?thesis using assms unfolding channel_content_def Let_def by (auto simp: check_Inr)
  next
    case 5
    then show ?thesis using assms unfolding channel_content_def Let_def by (auto simp: check_Inr)
  next
    case 7
    then show ?thesis using assms unfolding channel_content_def Let_def by (auto simp: check_Inr)
  qed
qed

lemma ValidateContent_idem:
  assumes "ValidateContent ch mode c = Inr c'"
  shows "ValidateContent ch mode c' = Inr c'"
  using ValidateContent_Inr [OF assms] channel_content_Inr [of ch mode c c']
  by (auto simp: ValidateContent_def)

end
