(* ===== verification/Notify_Send.thy ===== *)
theory Notify_Send
  imports Notify_Render Redis Field_Schema "HOL-Library.Multiset"
begin

text \<open>
  Sending of notifications (\<^verbatim>\<open>internal/service/notify_send.go\<close>): idempotency keys in Redis, choice and
  order of the providers, failover and the log of attempts. PostgreSQL, the providers, the shuffle, the
  caller's deadline and the random tokens are parameters; the cache of providers is explicit state.
\<close>

section \<open>Provider types (\<^verbatim>\<open>notify/provider.go\<close>)\<close>

record TypeSpec =
  ts_Type :: string
  ts_Channel :: string
  ts_ConfigSchema :: "Field list"
  ts_DevOnly :: bool

definition ChannelOf :: "TypeSpec \<Rightarrow> config \<Rightarrow> string" where
  "ChannelOf s cfg =
     (if ts_Channel s \<noteq> [] then ts_Channel s
      else case cfg ''channel'' of Some (VString ch) \<Rightarrow> ch | _ \<Rightarrow> [])"

text \<open>The registry: \<^verbatim>\<open>hasNew\<close> tells whether the constructor is given.\<close>

type_synonym registry = "string \<rightharpoonup> TypeSpec"

definition Register :: "registry \<Rightarrow> TypeSpec \<Rightarrow> bool \<Rightarrow> goerr + registry" where
  "Register specs s hasNew =
     (if ts_Type s = [] \<or> \<not> hasNew then Inl (Wrapped ''notify: empty type'')
      else if specs (ts_Type s) \<noteq> None then Inl (Wrapped ''notify: registered'')
      else Inr (specs(ts_Type s \<mapsto> s)))"

text \<open>\<^verbatim>\<open>Types\<close>; \<^verbatim>\<open>ks\<close> is the order in which the map is visited.\<close>

definition Types :: "string list \<Rightarrow> registry \<Rightarrow> bool \<Rightarrow> TypeSpec list" where
  "Types ks specs isProd =
     sort_key ts_Type (filter (\<lambda>s. \<not> (isProd \<and> ts_DevOnly s)) (List.map_filter specs ks))"

section \<open>Data\<close>

record NotifySendInput =
  in_AppID :: string
  in_Code :: string
  in_To :: string
  in_Params :: "(string \<times> string) list"
  in_IdempotencyKey :: string

record notifyCandidate =
  cand_providerID :: uuid
  cand_typ :: string
  cand_config :: config
  cand_updatedAt :: int
  cand_providerTemplateID :: string
  cand_priority :: int

record Delivery =
  dl_To :: string
  dl_Params :: "(string \<times> string) list"
  dl_Template :: NotifyTemplate
  dl_ProviderTemplateID :: string
  dl_Rendered :: Rendered

text \<open>The columns \<^verbatim>\<open>id\<close> and \<^verbatim>\<open>created_at\<close> of a log entry are filled in by the database.\<close>

record NotifyLog =
  nl_Channel :: string
  nl_Target :: string
  nl_Code :: string
  nl_Provider :: string
  nl_ProviderID :: uuid
  nl_AppID :: string
  nl_Success :: bool
  nl_Error :: string

record idemLease =
  lease_key :: string
  lease_token :: string
  lease_code :: string

definition notifyIdemProcessingPrefix :: string where "notifyIdemProcessingPrefix = ''1:''"
definition notifyIdemDone :: string where "notifyIdemDone = ''2''"
definition notifyIdemProcessingTTL :: int where "notifyIdemProcessingTTL = 60 * ns_per_s"
definition notifyIdemDoneTTL :: int where "notifyIdemDoneTTL = 24 * 3600 * ns_per_s"
definition notifyAttemptTimeout :: int where "notifyAttemptTimeout = 30 * ns_per_s"
definition notifyMaxErrorRunes :: nat where "notifyMaxErrorRunes = 500"
definition notifyMaxIdemKeyBytes :: nat where "notifyMaxIdemKeyBytes = 128"
definition notifyMaxRecipientBytes :: nat where "notifyMaxRecipientBytes = 254"

definition CodeNotifyTemplateNotFound :: string where "CodeNotifyTemplateNotFound = ''NOTIFY_TEMPLATE_NOT_FOUND''"
definition CodeNotifyTemplateDisabled :: string where "CodeNotifyTemplateDisabled = ''NOTIFY_TEMPLATE_DISABLED''"
definition CodeNotifyRecipientInvalid :: string where "CodeNotifyRecipientInvalid = ''NOTIFY_RECIPIENT_INVALID''"
definition CodeNotifyInProgress :: string where "CodeNotifyInProgress = ''NOTIFY_IN_PROGRESS''"
definition CodeNotifyProviderMissing :: string where "CodeNotifyProviderMissing = ''NOTIFY_PROVIDER_MISSING''"
definition CodeNotifySendFailed :: string where "CodeNotifySendFailed = ''NOTIFY_SEND_FAILED''"
definition CodeNotifyProviderInvalid :: string where "CodeNotifyProviderInvalid = ''NOTIFY_PROVIDER_INVALID''"

text \<open>
  The parameters. \<^verbatim>\<open>ctx_done\<close> and \<^verbatim>\<open>until_deadline\<close> read the caller's context at the present moment;
  \<^verbatim>\<open>new_provider\<close> is the constructor of a type, \<^verbatim>\<open>err_text\<close> the text of an error.
\<close>

record ('r, 'j, 'p) notify_env =
  n_rd :: "('r, 'j) redis"
  new_token :: "'r \<Rightarrow> string \<times> 'r"
  sql_template :: "string \<Rightarrow> ('r, NotifyTemplate option) io"
  sql_candidates :: "string \<Rightarrow> ('r, notifyCandidate list) io"
  sql_insert_notify_log :: "NotifyLog \<Rightarrow> ('r, unit) io"
  shuffle :: "notifyCandidate list \<Rightarrow> 'r \<Rightarrow> notifyCandidate list \<times> 'r"
  ctx_done :: "'r \<Rightarrow> bool"
  until_deadline :: "'r \<Rightarrow> int option"
  reg :: registry
  isProd :: bool
  new_provider :: "TypeSpec \<Rightarrow> config \<Rightarrow> 'p option"
  provider_Send :: "'p \<Rightarrow> Delivery \<Rightarrow> int \<Rightarrow> ('r, unit) io"
  fmt_time :: "int \<Rightarrow> string"
  err_text :: "goerr \<Rightarrow> string"

record ('p, 'r) notify_state =
  ns_cache :: "(string \<times> 'p) list"
  ns_world :: 'r

definition on_world :: "('r, 'a) io \<Rightarrow> (('p, 'r) notify_state, 'a) io" where
  "on_world m s = (case m (ns_world s) of (x, r) \<Rightarrow> (x, s\<lparr>ns_world := r\<rparr>))"

section \<open>Idempotency keys\<close>

definition notifyIdemKey :: "string \<Rightarrow> string \<Rightarrow> string \<Rightarrow> string" where
  "notifyIdemKey appID code key = ''fp:notify:idem:'' @ appID @ '':'' @ code @ '':'' @ key"

definition mark :: "idemLease \<Rightarrow> string" where
  "mark l = notifyIdemProcessingPrefix @ lease_token l"

text \<open>The two scripts: act only while the key holds the given mark.\<close>

definition guarded_script ::
  "string \<Rightarrow> string \<Rightarrow> 'j redis_cmd \<Rightarrow> 'j redis_state \<Rightarrow> 'j redis_reply list \<times> 'j redis_state" where
  "guarded_script k m c s =
     (case exec_cmd (GET k) s of
        (ReplyErr, s1) \<Rightarrow> ([ReplyErr], s1)
      | (ReplyVal (RStr v), s1) \<Rightarrow>
          if v = m then (case exec_cmd c s1 of (r, s2) \<Rightarrow> ([r], s2)) else ([ReplyInt 0], s1)
      | (_, s1) \<Rightarrow> ([ReplyInt 0], s1))"

definition idemRenewScript ::
  "string \<Rightarrow> string \<Rightarrow> int \<Rightarrow> 'j redis_state \<Rightarrow> 'j redis_reply list \<times> 'j redis_state" where
  "idemRenewScript k m ttl = guarded_script k m (EXPIRE k ttl)"

definition idemReleaseScript ::
  "string \<Rightarrow> string \<Rightarrow> 'j redis_state \<Rightarrow> 'j redis_reply list \<times> 'j redis_state" where
  "idemReleaseScript k m = guarded_script k m (DEL [k])"

abbreviation in_progress :: goerr where
  "in_progress \<equiv> DomainErr ErrConflict CodeNotifyInProgress"

fun acquire_loop :: "('r, 'j, 'p) notify_env \<Rightarrow> idemLease \<Rightarrow> nat \<Rightarrow> ('r, idemLease option \<times> bool) io" where
  "acquire_loop E l 0 = throw in_progress"
| "acquire_loop E l (Suc n) =
     bindE (cmd1 (n_rd E) (SETNX (lease_key l) (RStr (mark l)) notifyIdemProcessingTTL)) (\<lambda>ok.
       if ok = ReplyInt 1 then ret (Some l, False)
       else bindE (cmd1 (n_rd E) (GET (lease_key l))) (\<lambda>v.
         if v = ReplyNil then acquire_loop E l n
         else if v = ReplyVal (RStr notifyIdemDone) then ret (None, True)
         else throw in_progress))"

definition acquireIdem ::
  "('r, 'j, 'p) notify_env \<Rightarrow> NotifySendInput \<Rightarrow> ('r, idemLease option \<times> bool) io" where
  "acquireIdem E inp =
     (if in_IdempotencyKey inp = [] then ret (None, False)
      else (\<lambda>r. case new_token E r of (tok, r1) \<Rightarrow>
        acquire_loop E
          \<lparr>lease_key = notifyIdemKey (in_AppID inp) (in_Code inp) (in_IdempotencyKey inp),
           lease_token = tok, lease_code = in_Code inp\<rparr> 2 r1))"

definition renewIdem :: "('r, 'j, 'p) notify_env \<Rightarrow> idemLease option \<Rightarrow> 'r \<Rightarrow> 'r" where
  "renewIdem E lo r =
     (case lo of
        None \<Rightarrow> r
      | Some l \<Rightarrow> snd (cmd1 (n_rd E) (EVAL (idemRenewScript (lease_key l) (mark l) notifyIdemProcessingTTL)) r))"

definition settleIdem :: "('r, 'j, 'p) notify_env \<Rightarrow> idemLease option \<Rightarrow> goerr option \<Rightarrow> 'r \<Rightarrow> 'r" where
  "settleIdem E lo sendErr r =
     (case lo of
        None \<Rightarrow> r
      | Some l \<Rightarrow>
          if sendErr = None
          then snd (cmd1 (n_rd E) (SET (lease_key l) (RStr notifyIdemDone) notifyIdemDoneTTL) r)
          else snd (cmd1 (n_rd E) (EVAL (idemReleaseScript (lease_key l) (mark l))) r))"

section \<open>Attempts\<close>

text \<open>First shuffled, then stably sorted by descending priority.\<close>

definition order :: "('r, 'j, 'p) notify_env \<Rightarrow> notifyCandidate list \<Rightarrow> 'r \<Rightarrow> notifyCandidate list \<times> 'r" where
  "order E cands r = (case shuffle E cands r of (cs, r1) \<Rightarrow> (sort_key (\<lambda>c. - cand_priority c) cs, r1))"

definition attemptTimeout :: "int option \<Rightarrow> nat \<Rightarrow> int" where
  "attemptTimeout deadline remaining =
     (case deadline of
        None \<Rightarrow> notifyAttemptTimeout
      | Some left \<Rightarrow>
          let share = trunc_div left (int remaining)
          in if share < notifyAttemptTimeout then share else notifyAttemptTimeout)"

definition spec :: "('r, 'j, 'p) notify_env \<Rightarrow> string \<Rightarrow> goerr + TypeSpec" where
  "spec E typ =
     (case reg E typ of
        None \<Rightarrow> Inl (DomainErr ErrInvalidArgument CodeNotifyProviderInvalid)
      | Some sp \<Rightarrow>
          if isProd E \<and> ts_DevOnly sp then Inl (DomainErr ErrInvalidArgument CodeNotifyProviderInvalid) else Inr sp)"

definition cache_key :: "('r, 'j, 'p) notify_env \<Rightarrow> notifyCandidate \<Rightarrow> string" where
  "cache_key E c = cand_providerID c @ ''@'' @ fmt_time E (cand_updatedAt c)"

definition providerFor :: "('r, 'j, 'p) notify_env \<Rightarrow> notifyCandidate \<Rightarrow> (('p, 'r) notify_state, 'p) io" where
  "providerFor E c s =
     (let key = cache_key E c
      in case map_of (ns_cache s) key of
           Some p \<Rightarrow> (Inr p, s)
         | None \<Rightarrow>
             (case spec E (cand_typ c) of
                Inl e \<Rightarrow> (Inl (Wrapped ''unsupported provider type''), s)
              | Inr sp \<Rightarrow>
                  (case new_provider E sp (cand_config c) of
                     None \<Rightarrow> (Inl (Wrapped ''construct provider''), s)
                   | Some p \<Rightarrow>
                       (Inr p, s\<lparr>ns_cache := (key, p) # (if length (ns_cache s) \<ge> 256 then [] else ns_cache s)\<rparr>))))"

definition sendVia ::
  "('r, 'j, 'p) notify_env \<Rightarrow> notifyCandidate \<Rightarrow> Delivery \<Rightarrow> nat \<Rightarrow> (('p, 'r) notify_state, unit) io" where
  "sendVia E c d remaining =
     bindE (providerFor E c) (\<lambda>p s.
       on_world (provider_Send E p d (attemptTimeout (until_deadline E (ns_world s)) remaining)) s)"

text \<open>A rune that is not validly encoded is written back as U+FFFD.\<close>

definition reencode :: "string \<Rightarrow> string" where
  "reencode r = (if snd (rune_width r) then r else [CHR 0xEF, CHR 0xBF, CHR 0xBD])"

definition truncateRunes :: "string \<Rightarrow> nat \<Rightarrow> string" where
  "truncateRunes s n =
     (if RuneCount s \<le> n then s
      else concat (map reencode (take n (runes s))) @ [CHR 0xE2, CHR 0x80, CHR 0xA6])"

definition writeNotifyLog ::
  "('r, 'j, 'p) notify_env \<Rightarrow> NotifyTemplate \<Rightarrow> NotifySendInput \<Rightarrow> notifyCandidate \<Rightarrow> goerr option \<Rightarrow> 'r \<Rightarrow> 'r" where
  "writeNotifyLog E tpl inp c sendErr r =
     snd (sql_insert_notify_log E
       \<lparr>nl_Channel = nt_Channel tpl, nl_Target = in_To inp, nl_Code = nt_Code tpl, nl_Provider = cand_typ c,
        nl_ProviderID = cand_providerID c, nl_AppID = in_AppID inp, nl_Success = (sendErr = None),
        nl_Error = (case sendErr of None \<Rightarrow> [] | Some e \<Rightarrow> truncateRunes (err_text E e) notifyMaxErrorRunes)\<rparr> r)"

abbreviation send_failed :: goerr where
  "send_failed \<equiv> DomainErr ErrInternal CodeNotifySendFailed"

fun try_candidates ::
  "('r, 'j, 'p) notify_env \<Rightarrow> NotifyTemplate \<Rightarrow> NotifySendInput \<Rightarrow> idemLease option \<Rightarrow> Delivery \<Rightarrow>
     notifyCandidate list \<Rightarrow> (('p, 'r) notify_state, unit) io" where
  "try_candidates E tpl inp lease d [] s = (Inl send_failed, s)"
| "try_candidates E tpl inp lease d (c # cs) s =
     (let s1 = s\<lparr>ns_world := renewIdem E lease (ns_world s)\<rparr>
      in if ctx_done E (ns_world s1) then (Inl send_failed, s1)
         else case sendVia E c (d\<lparr>dl_ProviderTemplateID := cand_providerTemplateID c\<rparr>) (Suc (length cs)) s1 of
           (Inr _, s2) \<Rightarrow> (Inr (), s2\<lparr>ns_world := writeNotifyLog E tpl inp c None (ns_world s2)\<rparr>)
         | (Inl e, s2) \<Rightarrow>
             try_candidates E tpl inp lease d cs (s2\<lparr>ns_world := writeNotifyLog E tpl inp c (Some e) (ns_world s2)\<rparr>))"

definition dispatch ::
  "('r, 'j, 'p) notify_env \<Rightarrow> NotifyTemplate \<Rightarrow> NotifySendInput \<Rightarrow> idemLease option \<Rightarrow> (('p, 'r) notify_state, unit) io" where
  "dispatch E tpl inp lease =
     bindE (on_world (sql_candidates E (nt_Code tpl))) (\<lambda>cands.
       if length cands = 0 then throw (DomainErr ErrNotFound CodeNotifyProviderMissing)
       else (\<lambda>s.
         let d = \<lparr>dl_To = in_To inp, dl_Params = in_Params inp, dl_Template = tpl, dl_ProviderTemplateID = [],
                  dl_Rendered = (if nt_Mode tpl = NotifyModeCustom then Render tpl (in_Params inp)
                                 else \<lparr>rd_Subject = [], rd_Body = []\<rparr>)\<rparr>
         in case order E cands (ns_world s) of (cs, r1) \<Rightarrow>
              try_candidates E tpl inp lease d
                (if \<not> NeedsRecipient (nt_Channel tpl) then take 1 cs else cs) (s\<lparr>ns_world := r1\<rparr>)))"

definition loadTemplate :: "('r, 'j, 'p) notify_env \<Rightarrow> string \<Rightarrow> ('r, NotifyTemplate) io" where
  "loadTemplate E code =
     bindE (sql_template E code) (\<lambda>t. case t of
       None \<Rightarrow> throw (DomainErr ErrNotFound CodeNotifyTemplateNotFound) | Some tpl \<Rightarrow> ret tpl)"

text \<open>The checks of \<^verbatim>\<open>Send\<close> before the key is taken.\<close>

definition check_input :: "NotifyTemplate \<Rightarrow> NotifySendInput \<Rightarrow> goerr option" where
  "check_input tpl inp =
     (if \<not> nt_Enabled tpl then Some (DomainErr ErrForbidden CodeNotifyTemplateDisabled)
      else if NeedsRecipient (nt_Channel tpl) \<and> in_To inp = [] then Some (DomainErr ErrInvalidArgument CodeNotifyRecipientInvalid)
      else if \<not> NeedsRecipient (nt_Channel tpl) \<and> in_To inp \<noteq> [] then Some (DomainErr ErrInvalidArgument CodeNotifyRecipientInvalid)
      else case ValidateParams (nc_Variables (nt_Content tpl)) (in_Params inp) of
        Some (e, _) \<Rightarrow> Some e
      | None \<Rightarrow>
          if length (in_IdempotencyKey inp) > notifyMaxIdemKeyBytes then Some (DomainErr ErrInvalidArgument ''INVALID_ARGUMENT'')
          else if length (in_To inp) > notifyMaxRecipientBytes then Some (DomainErr ErrInvalidArgument CodeNotifyRecipientInvalid)
          else None)"

text \<open>From the lease on: attempts, then the key is settled with their outcome.\<close>

definition dispatch_and_settle ::
  "('r, 'j, 'p) notify_env \<Rightarrow> NotifyTemplate \<Rightarrow> NotifySendInput \<Rightarrow> idemLease option \<Rightarrow> (('p, 'r) notify_state, unit) io" where
  "dispatch_and_settle E tpl inp lease s =
     (case dispatch E tpl inp lease s of
        (Inl e, s1) \<Rightarrow> (Inl e, s1\<lparr>ns_world := settleIdem E lease (Some e) (ns_world s1)\<rparr>)
      | (Inr _, s1) \<Rightarrow> (Inr (), s1\<lparr>ns_world := settleIdem E lease None (ns_world s1)\<rparr>))"

definition Send :: "('r, 'j, 'p) notify_env \<Rightarrow> NotifySendInput \<Rightarrow> (('p, 'r) notify_state, unit) io" where
  "Send E inp =
     bindE (on_world (loadTemplate E (in_Code inp))) (\<lambda>tpl.
       case check_input tpl inp of
         Some e \<Rightarrow> throw e
       | None \<Rightarrow>
           bindE (on_world (acquireIdem E inp)) (\<lambda>(lease, settled).
             if settled then ret () else dispatch_and_settle E tpl inp lease))"

section \<open>Keys and scripts\<close>

text \<open>
  The three parts of a key can be read back: an application id has no colon and a code has none either (both
  are checked where they are created).
\<close>

lemma notifyIdemKey_inj:
  assumes "notifyIdemKey a c k = notifyIdemKey a' c' k'"
    and "CHR '':'' \<notin> set a" "CHR '':'' \<notin> set a'" "CHR '':'' \<notin> set c" "CHR '':'' \<notin> set c'"
  shows "a = a' \<and> c = c' \<and> k = k'"
proof -
  have "a @ CHR '':'' # c @ CHR '':'' # k = a' @ CHR '':'' # c' @ CHR '':'' # k'"
    using assms(1) by (simp add: notifyIdemKey_def)
  from append_sep_inj [OF this assms(2,3)] have "a = a'" "c @ CHR '':'' # k = c' @ CHR '':'' # k'" by simp_all
  with append_sep_inj [OF _ assms(4,5), of k k'] show ?thesis by simp
qed

definition is_done :: "string \<Rightarrow> 'j redis_state \<Rightarrow> bool" where
  "is_done k st \<longleftrightarrow> (\<exists>t. rs_kv st k = Some (RStr notifyIdemDone, t))"

definition holds_mark :: "string \<Rightarrow> string \<Rightarrow> 'j redis_state \<Rightarrow> bool" where
  "holds_mark k m st \<longleftrightarrow> (\<exists>t. rs_kv st k = Some (RStr m, t))"

lemma mark_not_done: "mark l \<noteq> notifyIdemDone"
  by (simp add: mark_def notifyIdemDone_def notifyIdemProcessingPrefix_def)

lemma guarded_script_other: "\<not> holds_mark k m st \<Longrightarrow> snd (guarded_script k m c st) = st"
  by (auto simp: guarded_script_def holds_mark_def split: option.splits rval.splits)

lemma guarded_script_own:
  "holds_mark k m st \<Longrightarrow> guarded_script k m c st = (case exec_cmd c st of (r, s2) \<Rightarrow> ([r], s2))"
  by (auto simp: guarded_script_def holds_mark_def)

text \<open>What a holder does to the key space, whether or not its call gets through.\<close>

definition touches_own :: "idemLease \<Rightarrow> 'j redis_state \<Rightarrow> 'j redis_state \<Rightarrow> bool" where
  "touches_own l st st' \<longleftrightarrow>
     st' = st \<or> (holds_mark (lease_key l) (mark l) st \<and> (\<forall>k. k \<noteq> lease_key l \<longrightarrow> rs_kv st' k = rs_kv st k))"

context redis_laws
begin

lemma eval_effect: "view (snd (cmd1 rd (EVAL f) r)) \<in> {view r, snd (f (view r))}"
proof (cases "cmd1 rd (EVAL f) r")
  case (Pair x r')
  from cmd1_effect [OF this] show ?thesis using Pair by (auto split: prod.splits)
qed

lemma guarded_effect:
  "view (snd (cmd1 rd (EVAL (guarded_script k m c)) r)) = view r \<or>
   holds_mark k m (view r) \<and> view (snd (cmd1 rd (EVAL (guarded_script k m c)) r)) = snd (exec_cmd c (view r))"
proof (cases "holds_mark k m (view r)")
  case True
  then show ?thesis
    using eval_effect [of "guarded_script k m c" r] guarded_script_own [OF True, of c] by (auto split: prod.splits)
next
  case False
  then show ?thesis
    using eval_effect [of "guarded_script k m c" r] guarded_script_other [OF False, of c] by auto
qed

end

locale notify_world = redis_laws "n_rd E" view
  for E :: "('r, 'j, 'p) notify_env" and view :: "'r \<Rightarrow> 'j redis_state" +
  assumes token_keeps: "view (snd (new_token E r)) = view r"
    and shuffle_perm: "mset (fst (shuffle E cs r)) = mset cs"
begin

lemma renew_touches_own: "touches_own l (view r) (view (renewIdem E (Some l) r))"
  using guarded_effect [of "lease_key l" "mark l" "EXPIRE (lease_key l) notifyIdemProcessingTTL" r]
  by (auto simp: renewIdem_def idemRenewScript_def touches_own_def split: option.splits)

lemma release_touches_own:
  "touches_own l (view r) (view (settleIdem E (Some l) (Some e) r)) \<and>
   (view (settleIdem E (Some l) (Some e) r) \<noteq> view r \<longrightarrow> rs_kv (view (settleIdem E (Some l) (Some e) r)) (lease_key l) = None)"
  using guarded_effect [of "lease_key l" "mark l" "DEL [lease_key l]" r]
  by (auto simp: settleIdem_def idemReleaseScript_def touches_own_def)

lemma touches_own_done: "touches_own l st st' \<Longrightarrow> is_done k st \<Longrightarrow> is_done k st'"
  using mark_not_done [of l] by (cases "k = lease_key l") (auto simp: touches_own_def holds_mark_def is_done_def)

lemma settle_done: "is_done k (view r) \<Longrightarrow> is_done k (view (settleIdem E lo err r))"
proof (cases lo)
  case (Some l)
  assume d: "is_done k (view r)"
  show ?thesis
  proof (cases err)
    case None
    obtain x r' where c: "cmd1 (n_rd E) (SET (lease_key l) (RStr notifyIdemDone) notifyIdemDoneTTL) r = (x, r')" by fastforce
    from cmd1_effect [OF c] d show ?thesis
      by (auto simp: settleIdem_def Some None c is_done_def)
  next
    case (Some e)
    then show ?thesis using release_touches_own [of l r e] touches_own_done d \<open>lo = Some l\<close> by blast
  qed
qed (simp add: settleIdem_def)

lemma renew_done: "is_done k (view r) \<Longrightarrow> is_done k (view (renewIdem E lo r))"
proof (cases lo)
  case (Some l)
  assume "is_done k (view r)"
  then show ?thesis using renew_touches_own [of l r] touches_own_done Some by blast
qed (simp add: renewIdem_def)

lemma acquire_loop_done:
  "acquire_loop E l n r = (x, r') \<Longrightarrow> is_done k (view r) \<Longrightarrow> is_done k (view r')"
proof (induction n arbitrary: r)
  case (Suc n)
  obtain y r1 where a: "cmd1 (n_rd E) (SETNX (lease_key l) (RStr (mark l)) notifyIdemProcessingTTL) r = (y, r1)" by fastforce
  have d1: "is_done k (view r1)"
    using cmd1_effect [OF a] Suc.prems(2) by (auto simp: is_done_def split: option.splits)
  obtain z r2 where b: "cmd1 (n_rd E) (GET (lease_key l)) r1 = (z, r2)" by fastforce
  have d2: "is_done k (view r2)"
    using keepsD [OF cmd1_reads [OF reads_simps(1)] b] d1 by simp
  show ?case
    using Suc.prems(1) d1 d2 Suc.IH [of r2]
    by (auto simp: a bindE_def b split: sum.splits if_splits)
qed simp

lemma acquire_done: "is_done k (view r) \<Longrightarrow> is_done k (view (snd (acquireIdem E inp r)))"
proof -
  assume d: "is_done k (view r)"
  obtain tok r1 where t: "new_token E r = (tok, r1)" by fastforce
  then have "is_done k (view r1)" using token_keeps [of r] d by simp
  then show ?thesis
    using d acquire_loop_done by (auto simp: acquireIdem_def t split: prod.splits) (metis prod.collapse)
qed

text \<open>A request whose key is marked done learns so: the first try for the key settles it, unless Redis fails.\<close>

lemma acquire_finds_done:
  assumes "is_done (notifyIdemKey (in_AppID inp) (in_Code inp) (in_IdempotencyKey inp)) (view r)"
    and "in_IdempotencyKey inp \<noteq> []" and "acquireIdem E inp r = (res, r')"
  shows "res = Inr (None, True) \<or> (\<exists>e. res = Inl e)"
proof -
  let ?k = "notifyIdemKey (in_AppID inp) (in_Code inp) (in_IdempotencyKey inp)"
  obtain tok r1 where t: "new_token E r = (tok, r1)" by fastforce
  let ?l = "\<lparr>lease_key = ?k, lease_token = tok, lease_code = in_Code inp\<rparr>"
  have d1: "is_done ?k (view r1)" using token_keeps [of r] assms(1) t by simp
  obtain y r2 where a: "cmd1 (n_rd E) (SETNX ?k (RStr (mark ?l)) notifyIdemProcessingTTL) r1 = (y, r2)" by fastforce
  have d2: "is_done ?k (view r2)" and y: "y \<noteq> Inr (ReplyInt 1)"
    using cmd1_effect [OF a] cmd1_ok [of _ r1 _ r2] a d1 by (fastforce simp: is_done_def)+
  obtain z r3 where b: "cmd1 (n_rd E) (GET ?k) r2 = (z, r3)" by fastforce
  have z: "z = Inr (ReplyVal (RStr notifyIdemDone)) \<or> (\<exists>e. z = Inl e)"
    using cmd1_ok [of "GET ?k" r2 _ r3] b d2 by (cases z) (auto simp: is_done_def)
  have "acquire_loop E ?l (Suc 1) r1 = (res, r')"
    using assms(2,3) t by (simp add: acquireIdem_def numeral_2_eq_2)
  then show ?thesis using a b y z by (auto simp: bindE_def split: sum.splits)
qed

end


section \<open>The protocol over one key\<close>

text \<open>
  What any number of requests do to the world between two moments: take a key, renew, settle after success or
  failure, and whatever else leaves Redis alone (deliveries, the database). A key may lapse at any time, except one that is
  marked done, which lives for a day.
\<close>

inductive idem_step :: "('r, 'j, 'p) notify_env \<Rightarrow> ('r \<Rightarrow> 'j redis_state) \<Rightarrow> 'r \<Rightarrow> 'r \<Rightarrow> bool" for E view where
  step_acquire: "idem_step E view r (snd (acquireIdem E inp r))"
| step_renew: "idem_step E view r (renewIdem E lo r)"
| step_settle: "idem_step E view r (settleIdem E lo err r)"
| step_lapse: "\<not> is_done k (view r) \<Longrightarrow> rs_kv (view r') = (rs_kv (view r))(k := None) \<Longrightarrow> idem_step E view r r'"
| step_elsewhere: "view r' = view r \<Longrightarrow> idem_step E view r r'"

inductive idem_run :: "('r, 'j, 'p) notify_env \<Rightarrow> ('r \<Rightarrow> 'j redis_state) \<Rightarrow> 'r \<Rightarrow> 'r \<Rightarrow> bool" for E view where
  run_refl: "idem_run E view r r"
| run_step: "idem_run E view r r1 \<Longrightarrow> idem_step E view r1 r2 \<Longrightarrow> idem_run E view r r2"

context notify_world
begin

lemma step_done: "idem_step E view r r' \<Longrightarrow> is_done k (view r) \<Longrightarrow> is_done k (view r')"
proof (induction rule: idem_step.induct)
  case (step_lapse k' r r')
  then have "k \<noteq> k'" by auto
  then show ?case using step_lapse by (simp add: is_done_def)
qed (simp_all add: acquire_done renew_done settle_done)

lemma run_done: "idem_run E view r r' \<Longrightarrow> is_done k (view r) \<Longrightarrow> is_done k (view r')"
  by (induction rule: idem_run.induct) (auto intro: step_done)

lemma settled_is_done:
  assumes "settleIdem E (Some l) None r = r'" and "\<And>k v ttl r. \<exists>x. fst (n_rd E [SET k v ttl] r) = Inr x"
  shows "is_done (lease_key l) (view r')"
proof -
  obtain x r1 where c: "n_rd E [SET (lease_key l) (RStr notifyIdemDone) notifyIdemDoneTTL] r = (Inr x, r1)"
    using assms(2) [of "lease_key l" "RStr notifyIdemDone" notifyIdemDoneTTL r] by (metis prod.collapse)
  have "exec_tx [SET (lease_key l) (RStr notifyIdemDone) notifyIdemDoneTTL] (view r) = (x, view r1)"
    using rd_ok [OF c] by blast
  then have x: "x = [ReplyOK]" "view r1 = (view r)\<lparr>rs_kv := (rs_kv (view r))(lease_key l \<mapsto> (RStr notifyIdemDone, Some notifyIdemDoneTTL))\<rparr>"
    by (simp_all add: notifyIdemDoneTTL_def)
  then have "is_done (lease_key l) (view r1)" by (simp add: is_done_def)
  moreover have "cmd1 (n_rd E) (SET (lease_key l) (RStr notifyIdemDone) notifyIdemDoneTTL) r = (Inr ReplyOK, r1)"
    using c x(1) by (simp add: cmd1_def bindE_def)
  ultimately show ?thesis using assms(1) by (simp add: settleIdem_def)
qed

lemma acquire_loop_result:
  "acquire_loop E l n r = (Inr (lo, b), r') \<Longrightarrow>
     b \<and> lo = None \<and> is_done (lease_key l) (view r') \<or> \<not> b \<and> lo = Some l"
proof (induction n arbitrary: r)
  case (Suc n)
  obtain y r1 where a: "cmd1 (n_rd E) (SETNX (lease_key l) (RStr (mark l)) notifyIdemProcessingTTL) r = (y, r1)" by fastforce
  obtain z r2 where g: "cmd1 (n_rd E) (GET (lease_key l)) r1 = (z, r2)" by fastforce
  have d: "is_done (lease_key l) (view r2)" if "z = Inr (ReplyVal (RStr notifyIdemDone))"
    using cmd1_ok [of "GET (lease_key l)" r1 "ReplyVal (RStr notifyIdemDone)" r2] g that
    by (auto simp: is_done_def split: option.splits rval.splits)
  show ?case
    using Suc.prems Suc.IH [of r2] d by (auto simp: a g bindE_def split: sum.splits if_splits)
qed simp

lemma acquire_result:
  assumes "acquireIdem E inp r = (Inr (lo, b), r')" and "in_IdempotencyKey inp \<noteq> []"
  defines "k \<equiv> notifyIdemKey (in_AppID inp) (in_Code inp) (in_IdempotencyKey inp)"
  shows "b \<and> lo = None \<and> is_done k (view r') \<or> \<not> b \<and> (\<exists>l. lo = Some l \<and> lease_key l = k)"
proof -
  obtain tok r1 where t: "new_token E r = (tok, r1)" by fastforce
  show ?thesis
    using assms(1,2) acquire_loop_result [of "\<lparr>lease_key = k, lease_token = tok, lease_code = in_Code inp\<rparr>" 2 r1 lo b r']
    by (auto simp: acquireIdem_def t k_def)
qed

text \<open>A successful request leaves its key marked done.\<close>

lemma Send_ok_done:
  assumes "Send E inp s = (Inr (), s')" and "in_IdempotencyKey inp \<noteq> []"
    and set_ok: "\<And>k v ttl r. \<exists>x. fst (n_rd E [SET k v ttl] r) = Inr x"
  shows "is_done (notifyIdemKey (in_AppID inp) (in_Code inp) (in_IdempotencyKey inp)) (view (ns_world s'))"
proof -
  obtain tpl s1 where f: "(case check_input tpl inp of Some e \<Rightarrow> throw e
       | None \<Rightarrow> bindE (on_world (acquireIdem E inp)) (\<lambda>(lease, settled).
           if settled then ret () else dispatch_and_settle E tpl inp lease)) s1 = (Inr (), s')"
    using assms(1) unfolding Send_def by (rule bindE_InrE)
  then have "bindE (on_world (acquireIdem E inp)) (\<lambda>(lease, settled).
           if settled then ret () else dispatch_and_settle E tpl inp lease) s1 = (Inr (), s')"
    by (cases "check_input tpl inp") simp_all
  then obtain x s2 where x: "on_world (acquireIdem E inp) s1 = (Inr x, s2)"
    and g: "(case x of (lease, settled) \<Rightarrow> if settled then ret () else dispatch_and_settle E tpl inp lease) s2 = (Inr (), s')"
    by (rule bindE_InrE)
  obtain lo b where xb: "x = (lo, b)" by (cases x)
  obtain r1 where a: "acquireIdem E inp (ns_world s1) = (Inr (lo, b), r1)" and s2: "ns_world s2 = r1"
    using x xb by (auto simp: on_world_def split: prod.splits)
  have k: "(if b then ret () else dispatch_and_settle E tpl inp lo) s2 = (Inr (), s')" using g xb by simp
  from acquire_result [OF a assms(2)] show ?thesis
  proof
    assume "b \<and> lo = None \<and> is_done (notifyIdemKey (in_AppID inp) (in_Code inp) (in_IdempotencyKey inp)) (view r1)"
    then show ?thesis using k s2 by auto
  next
    assume "\<not> b \<and> (\<exists>l. lo = Some l \<and> lease_key l = notifyIdemKey (in_AppID inp) (in_Code inp) (in_IdempotencyKey inp))"
    then obtain l where l: "\<not> b" "lo = Some l" "lease_key l = notifyIdemKey (in_AppID inp) (in_Code inp) (in_IdempotencyKey inp)"
      by blast
    obtain y s3 where "dispatch E tpl inp (Some l) s2 = (y, s3)" by fastforce
    then have w: "ns_world s' = settleIdem E (Some l) None (ns_world s3)"
      using k l by (cases y) (auto simp: dispatch_and_settle_def)
    from settled_is_done [OF w [symmetric] set_ok] show ?thesis by (simp add: l)
  qed
qed

end

lemma keeps_if: "keeps obs a \<Longrightarrow> keeps obs b \<Longrightarrow> keeps obs (if P then a else b)"
  by simp

lemma keeps_cmd1: "(\<And>cs. keeps obs (rd cs)) \<Longrightarrow> keeps obs (cmd1 rd c)"
  unfolding cmd1_def by (auto intro!: keeps_bindE split: list.split)

lemma acquire_keeps:
  assumes "\<And>cs. keeps obs (n_rd E cs)" and "\<And>r. obs (snd (new_token E r)) = obs r"
  shows "keeps obs (acquireIdem E inp)"
proof -
  have l: "keeps obs (acquire_loop E l n)" for l n
  proof (induction n)
    case (Suc n)
    then show ?case
      unfolding acquire_loop.simps by (intro keeps_bindE keeps_cmd1 keeps_if keeps_ret keeps_throw assms(1))
  qed (simp only: acquire_loop.simps keeps_throw)
  show ?thesis
  proof (cases "in_IdempotencyKey inp = []")
    case False
    show ?thesis
    proof (rule keepsI)
      fix w r w' assume a: "acquireIdem E inp w = (r, w')"
      obtain tok w1 where t: "new_token E w = (tok, w1)" by fastforce
      then show "obs w' = obs w"
        using a False keepsD [OF l] assms(2) [of w] by (auto simp: acquireIdem_def t)
    qed
  qed (simp add: acquireIdem_def keeps_ret)
qed

lemma loadTemplate_keeps: "keeps obs (sql_template E c) \<Longrightarrow> keeps obs (loadTemplate E c)"
  unfolding loadTemplate_def by (auto intro!: keeps_bindE split: option.split)

text \<open>A request that finds its key done, or gets no answer about it, ends without an attempt.\<close>

lemma Send_on_done:
  assumes w: "notify_world E view" and d: "is_done (notifyIdemKey (in_AppID inp) (in_Code inp) (in_IdempotencyKey inp)) (view (ns_world s))"
    and k: "in_IdempotencyKey inp \<noteq> []"
    and tv: "keeps view (sql_template E (in_Code inp))" and to: "keeps obs (sql_template E (in_Code inp))"
    and ro: "\<And>cs. keeps obs (n_rd E cs)" and no: "\<And>r. obs (snd (new_token E r)) = obs r"
    and run: "Send E inp s = (res, s')"
  shows "obs (ns_world s') = obs (ns_world s) \<and> (is_done (notifyIdemKey (in_AppID inp) (in_Code inp) (in_IdempotencyKey inp)) (view (ns_world s')))"
proof -
  obtain x r1 where t: "loadTemplate E (in_Code inp) (ns_world s) = (x, r1)" by fastforce
  have o1: "obs r1 = obs (ns_world s)" and v1: "view r1 = view (ns_world s)"
    using keepsD [OF loadTemplate_keeps [OF to] t] keepsD [OF loadTemplate_keeps [OF tv] t] by auto
  show ?thesis
  proof (cases "\<exists>tpl. x = Inr tpl \<and> check_input tpl inp = None")
    case False
    then have "s' = s\<lparr>ns_world := r1\<rparr>"
      using run t by (cases x) (auto simp: Send_def bindE_def on_world_def split: option.splits)
    then show ?thesis using o1 v1 d by simp
  next
    case True
    then obtain tpl where tpl: "x = Inr tpl" "check_input tpl inp = None" by blast
    obtain y r2 where a: "acquireIdem E inp r1 = (y, r2)" by fastforce
    have "y = Inr (None, True) \<or> (\<exists>e. y = Inl e)"
      using notify_world.acquire_finds_done [OF w _ k a] d v1 by simp
    then have "s' = s\<lparr>ns_world := r2\<rparr>"
      using run t tpl a by (auto simp: Send_def bindE_def on_world_def)
    moreover have "obs r2 = obs r1" by (rule keepsD [OF acquire_keeps [OF ro no] a])
    moreover have "is_done (notifyIdemKey (in_AppID inp) (in_Code inp) (in_IdempotencyKey inp)) (view r2)"
      using notify_world.acquire_done [OF w, of _ r1 inp] a d v1 by simp
    ultimately show ?thesis using o1 by simp
  qed
qed

section \<open>Failover\<close>

text \<open>What the constructor gives for a candidate.\<close>

definition built :: "('r, 'j, 'p) notify_env \<Rightarrow> notifyCandidate \<Rightarrow> 'p \<Rightarrow> bool" where
  "built E c p \<longleftrightarrow> (\<exists>sp. spec E (cand_typ c) = Inr sp \<and> new_provider E sp (cand_config c) = Some p)"

definition delivers :: "('r, 'j, 'p) notify_env \<Rightarrow> notifyCandidate \<Rightarrow> bool" where
  "delivers E c \<longleftrightarrow> (\<exists>p. built E c p \<and> (\<forall>d t r. \<exists>r'. provider_Send E p d t r = (Inr (), r')))"

text \<open>
  The rows of candidates in use: a change of the configuration comes with a new time of update, so the key tells the
  configuration; and then every cached provider is the one its row would give.
\<close>

definition versioned :: "('r, 'j, 'p) notify_env \<Rightarrow> notifyCandidate set \<Rightarrow> bool" where
  "versioned E C \<longleftrightarrow> (\<forall>c \<in> C. \<forall>c' \<in> C. cache_key E c = cache_key E c' \<longrightarrow>
     cand_typ c = cand_typ c' \<and> cand_config c = cand_config c')"

definition cache_sound :: "('r, 'j, 'p) notify_env \<Rightarrow> notifyCandidate set \<Rightarrow> (string \<times> 'p) list \<Rightarrow> bool" where
  "cache_sound E C cache \<longleftrightarrow> (\<forall>c \<in> C. \<forall>p. map_of cache (cache_key E c) = Some p \<longrightarrow> built E c p)"

lemma providerFor_sound:
  assumes "versioned E C" and "c \<in> C" and "cache_sound E C (ns_cache s)" and "providerFor E c s = (x, s')"
  shows "cache_sound E C (ns_cache s') \<and> (\<forall>p. built E c p \<longrightarrow> x = Inr p) \<and> ns_world s' = ns_world s"
proof (cases "map_of (ns_cache s) (cache_key E c)")
  case (Some p)
  then have "built E c p" using assms(2,3) by (simp add: cache_sound_def)
  then show ?thesis using assms(3,4) Some by (auto simp: providerFor_def built_def)
next
  case None
  have b: "built E c' p" if "built E c p" "c' \<in> C" "cache_key E c' = cache_key E c" for c' p
    using that assms(1,2) unfolding versioned_def built_def by metis
  show ?thesis
  proof (cases "\<exists>p. built E c p")
    case True
    then obtain sp p where p: "spec E (cand_typ c) = Inr sp" "new_provider E sp (cand_config c) = Some p" "built E c p"
      by (auto simp: built_def)
    then have s': "x = Inr p" "s' = s\<lparr>ns_cache := (cache_key E c, p) # (if length (ns_cache s) \<ge> 256 then [] else ns_cache s)\<rparr>"
      using assms(4) None by (auto simp: providerFor_def Let_def)
    have "cache_sound E C (ns_cache s')"
      using assms(3) b [OF p(3)] s'(2) by (auto simp: cache_sound_def split: if_splits)
    then show ?thesis using s' p by (auto simp: built_def)
  next
    case False
    then have "s' = s"
      using assms(4) None by (auto simp: providerFor_def Let_def built_def split: sum.splits option.splits)
    then show ?thesis using assms(3) False by auto
  qed
qed

lemma sendVia_cache: "sendVia E c d n s = (x, s') \<Longrightarrow> ns_cache s' = ns_cache (snd (providerFor E c s))"
  by (auto simp: sendVia_def bindE_def on_world_def split: prod.splits sum.splits)

lemma try_candidates_delivers:
  assumes "\<And>r. \<not> ctx_done E r" and "c \<in> set cs" and "delivers E c"
    and "versioned E C" and "set cs \<subseteq> C" and "cache_sound E C (ns_cache s)"
  shows "\<exists>s'. try_candidates E tpl inp lease d cs s = (Inr (), s')"
  using assms(2,5,6)
proof (induction cs arbitrary: s)
  case (Cons c' cs)
  let ?s1 = "s\<lparr>ns_world := renewIdem E lease (ns_world s)\<rparr>" and ?d = "d\<lparr>dl_ProviderTemplateID := cand_providerTemplateID c'\<rparr>"
  obtain x s2 where v: "sendVia E c' ?d (Suc (length cs)) ?s1 = (x, s2)" by fastforce
  obtain y t where pf: "providerFor E c' ?s1 = (y, t)" by fastforce
  have c': "c' \<in> C" "cache_sound E C (ns_cache ?s1)" using Cons.prems by simp_all
  note ps = providerFor_sound [OF assms(4) c' pf]
  have s2: "cache_sound E C (ns_cache s2)" using sendVia_cache [OF v] ps pf by simp
  show ?case
  proof (cases x)
    case (Inr u)
    then show ?thesis using v assms(1) by simp
  next
    case (Inl e)
    have "c' \<noteq> c"
    proof
      assume "c' = c"
      then obtain p where p: "built E c' p" "\<And>d t r. \<exists>r'. provider_Send E p d t r = (Inr (), r')"
        using assms(3) by (auto simp: delivers_def)
      obtain r' where "provider_Send E p ?d (attemptTimeout (until_deadline E (ns_world t)) (Suc (length cs))) (ns_world t) = (Inr (), r')"
        using p(2) by blast
      moreover have "y = Inr p" using ps p(1) by blast
      ultimately show False using v pf Inl by (simp add: sendVia_def bindE_def on_world_def)
    qed
    then have "c \<in> set cs" "set cs \<subseteq> C" using Cons.prems by simp_all
    from Cons.IH [OF this, of "s2\<lparr>ns_world := writeNotifyLog E tpl inp c' (Some e) (ns_world s2)\<rparr>"] s2
    show ?thesis using v assms(1) Inl by simp
  qed
qed simp

lemma attemptTimeout_bounds:
  assumes "0 \<le> left" and "0 < n"
  shows "attemptTimeout (Some left) n \<le> notifyAttemptTimeout \<and> int n * attemptTimeout (Some left) n \<le> left"
proof -
  have s: "trunc_div left (int n) = left div int n" using assms by (auto simp: trunc_div_def sgn_if)
  have m: "int n * (left div int n) \<le> left"
    using mult_div_mod_eq [of "int n" left] pos_mod_sign [of "int n" left] assms(2) by linarith
  show ?thesis
  proof (cases "left div int n < notifyAttemptTimeout")
    case False
    then have "int n * notifyAttemptTimeout \<le> int n * (left div int n)" by (simp add: mult_left_mono)
    then show ?thesis using False s m by (simp add: attemptTimeout_def Let_def)
  qed (use s m in \<open>simp add: attemptTimeout_def Let_def\<close>)
qed

text \<open>The log of attempts: one entry per attempt, in order, the failures first.\<close>

definition attempts_ok :: "notifyCandidate list \<Rightarrow> NotifyLog list \<Rightarrow> bool \<Rightarrow> bool" where
  "attempts_ok cs ls success \<longleftrightarrow>
     map nl_ProviderID ls = map cand_providerID (take (length ls) cs) \<and> length ls \<le> length cs \<and>
     map nl_Success ls = (if success then replicate (length ls - 1) False @ [True] else replicate (length ls) False)"

lemma attempts_ok_simps:
  "attempts_ok cs [] False"
  "nl_ProviderID l = cand_providerID c \<Longrightarrow> nl_Success l \<Longrightarrow> attempts_ok (c # cs) [l] True"
  "nl_ProviderID l = cand_providerID c \<Longrightarrow> \<not> nl_Success l \<Longrightarrow> attempts_ok cs ls b \<Longrightarrow> attempts_ok (c # cs) (l # ls) b"
  by (auto simp: attempts_ok_def)
     (metis One_nat_def Suc_pred length_greater_0_conv length_map replicate_Suc append_Cons append_is_Nil_conv list.distinct(1) list.size(3))


lemma try_candidates_log:
  fixes logv :: "'r \<Rightarrow> NotifyLog list" and E :: "('r, 'j, 'p) notify_env"
  assumes ins: "\<And>l r. \<exists>r'. sql_insert_notify_log E l r = (Inr (), r') \<and> logv r' = logv r @ [l]"
    and rd: "\<And>cs. keeps logv (n_rd E cs)" and snd: "\<And>p d t. keeps logv (provider_Send E p d t)"
    and run: "try_candidates E tpl inp lease d cs s = (res, s')"
  shows "\<exists>ls. logv (ns_world s') = logv (ns_world s) @ ls \<and> attempts_ok cs ls (res = Inr ())"
  using run
proof (induction cs arbitrary: s)
  case (Cons c cs)
  let ?s1 = "s\<lparr>ns_world := renewIdem E lease (ns_world s)\<rparr>" and ?d = "d\<lparr>dl_ProviderTemplateID := cand_providerTemplateID c\<rparr>"
  have r1: "logv (renewIdem E lease r) = logv r" for r
    using keeps_cmd1 [OF rd] by (auto simp: renewIdem_def keeps_def split: option.split)
  obtain x s2 where v: "sendVia E c ?d (Suc (length cs)) ?s1 = (x, s2)" by fastforce
  have pf: "providerFor E c t = (p, t') \<Longrightarrow> ns_world t' = ns_world t" for t p t'
    by (auto simp: providerFor_def Let_def split: option.splits sum.splits)
  have "logv (ns_world s2) = logv (ns_world ?s1)"
  proof (cases "providerFor E c ?s1")
    case (Pair p t)
    then have w: "ns_world t = ns_world ?s1" by (rule pf)
    show ?thesis
    proof (cases p)
      case (Inl e)
      then show ?thesis using v w Pair by (simp add: sendVia_def bindE_def)
    next
      case (Inr q)
      obtain y r' where q: "provider_Send E q ?d (attemptTimeout (until_deadline E (ns_world t)) (Suc (length cs))) (ns_world t) = (y, r')"
        by fastforce
      then have "logv r' = logv (ns_world t)" by (rule keepsD [OF snd])
      then show ?thesis using v w Pair Inr q by (auto simp: sendVia_def bindE_def on_world_def)
    qed
  qed
  then have l2: "logv (ns_world s2) = logv (ns_world s)" using r1 by simp
  have wl: "\<exists>l. logv (writeNotifyLog E tpl inp c err r) = logv r @ [l] \<and> nl_ProviderID l = cand_providerID c \<and>
      nl_Success l = (err = None)" for err r
  proof -
    let ?l = "\<lparr>nl_Channel = nt_Channel tpl, nl_Target = in_To inp, nl_Code = nt_Code tpl, nl_Provider = cand_typ c,
        nl_ProviderID = cand_providerID c, nl_AppID = in_AppID inp, nl_Success = (err = None),
        nl_Error = (case err of None \<Rightarrow> [] | Some e \<Rightarrow> truncateRunes (err_text E e) notifyMaxErrorRunes)\<rparr>"
    obtain r' where "sql_insert_notify_log E ?l r = (Inr (), r')" "logv r' = logv r @ [?l]" using ins by blast
    then have "logv (writeNotifyLog E tpl inp c err r) = logv r @ [?l]" by (simp add: writeNotifyLog_def)
    then show ?thesis by (intro exI [of _ ?l]) simp
  qed
  show ?case
  proof (cases "ctx_done E (ns_world ?s1)")
    case True
    then have "res = Inl send_failed" "s' = ?s1" using Cons.prems by simp_all
    then show ?thesis using r1 by (intro exI [of _ "[]"]) (simp add: attempts_ok_def)
  next
    case False
    show ?thesis
    proof (cases x)
      case (Inr u)
      obtain l where l: "logv (writeNotifyLog E tpl inp c None (ns_world s2)) = logv (ns_world s2) @ [l]"
          "nl_ProviderID l = cand_providerID c" "nl_Success l"
        using wl by blast
      have "res = Inr ()" "s' = s2\<lparr>ns_world := writeNotifyLog E tpl inp c None (ns_world s2)\<rparr>"
        using Cons.prems False v Inr by simp_all
      then show ?thesis using l l2 attempts_ok_simps(2) by auto
    next
      case (Inl e)
      obtain l where l: "logv (writeNotifyLog E tpl inp c (Some e) (ns_world s2)) = logv (ns_world s2) @ [l]"
          "nl_ProviderID l = cand_providerID c" "\<not> nl_Success l"
        using wl by blast
      have "try_candidates E tpl inp lease d cs (s2\<lparr>ns_world := writeNotifyLog E tpl inp c (Some e) (ns_world s2)\<rparr>) = (res, s')"
        using Cons.prems False v Inl by simp
      from Cons.IH [OF this] obtain ls where "logv (ns_world s') = logv (ns_world s2) @ l # ls" "attempts_ok cs ls (res = Inr ())"
        using l(1) by auto
      then show ?thesis using l l2 attempts_ok_simps(3) by (intro exI [of _ "l # ls"]) simp
    qed
  qed
qed (auto simp: attempts_ok_def)

lemma attempts_ok_take1: "attempts_ok (take 1 cs) ls b \<Longrightarrow> attempts_ok cs ls b \<and> length ls \<le> 1"
  using length_take [of 1 cs] by (auto simp: attempts_ok_def min_def split: if_split_asm)


section \<open>An in-memory world\<close>

text \<open>The providers of the tests: \<^verbatim>\<open>True\<close> delivers into an outbox, \<^verbatim>\<open>False\<close> fails.\<close>

record demo_world =
  dw_redis :: "nat redis_state"
  dw_seq :: nat
  dw_outbox :: "Rendered list"
  dw_logs :: "NotifyLog list"

definition mail_content :: NotifyContent where
  "mail_content = \<lparr>nc_Subject = ''Hi {name}'', nc_Content = ''Dear {name}'', nc_ContentType = ''text/plain'', nc_Method = [],
     nc_Variables = [''name''], nc_MentionedList = [], nc_MentionedMobileList = [], nc_AtMobiles = [], nc_IsAtAll = False\<rparr>"

definition mail_template :: NotifyTemplate where
  "mail_template = \<lparr>nt_Code = ''hello'', nt_Channel = NotifyChannelEmail, nt_Mode = NotifyModeCustom,
     nt_Content = mail_content, nt_Description = [], nt_Enabled = True, nt_CreatedAt = 0, nt_UpdatedAt = 0\<rparr>"

definition mail_cand :: "string \<Rightarrow> bool \<Rightarrow> int \<Rightarrow> notifyCandidate" where
  "mail_cand i good prio = \<lparr>cand_providerID = i, cand_typ = ''smtp'', cand_config = [''good'' \<mapsto> VBool good],
     cand_updatedAt = 0, cand_providerTemplateID = [], cand_priority = prio\<rparr>"

definition demo_notify :: "(demo_world, nat, bool) notify_env" where
  "demo_notify = \<lparr>
     n_rd = (\<lambda>cs w. case mem_redis cs (dw_redis w) of (x, st) \<Rightarrow> (x, w\<lparr>dw_redis := st\<rparr>)),
     new_token = (\<lambda>w. (FormatInt (int (dw_seq w)), w\<lparr>dw_seq := Suc (dw_seq w)\<rparr>)),
     sql_template = (\<lambda>code w. (Inr (if code = ''hello'' then Some mail_template else None), w)),
     sql_candidates = (\<lambda>code w. (Inr [mail_cand ''p1'' False 1, mail_cand ''p2'' True 0, mail_cand ''p3'' False 5], w)),
     sql_insert_notify_log = (\<lambda>l w. (Inr (), w\<lparr>dw_logs := dw_logs w @ [l]\<rparr>)),
     shuffle = (\<lambda>cs w. (rev cs, w)),
     ctx_done = (\<lambda>w. False), until_deadline = (\<lambda>w. Some (9 * ns_per_s)),
     reg = [''smtp'' \<mapsto> \<lparr>ts_Type = ''smtp'', ts_Channel = NotifyChannelEmail, ts_ConfigSchema = [], ts_DevOnly = False\<rparr>],
     isProd = True,
     new_provider = (\<lambda>sp cfg. case cfg ''good'' of Some (VBool b) \<Rightarrow> Some b | _ \<Rightarrow> None),
     provider_Send = (\<lambda>p d t w. if p then (Inr (), w\<lparr>dw_outbox := dw_outbox w @ [dl_Rendered d]\<rparr>) else (Inl (Wrapped ''smtp''), w)),
     fmt_time = FormatInt, err_text = (\<lambda>e. ''smtp'')\<rparr>"

interpretation demo_notify: notify_world demo_notify dw_redis
  by unfold_locales (auto simp: demo_notify_def mem_redis_def split: prod.splits if_splits)

definition demo_input :: NotifySendInput where
  "demo_input = \<lparr>in_AppID = ''shop'', in_Code = ''hello'', in_To = ''a@b.c'', in_Params = [(''name'', ''Ann'')], in_IdempotencyKey = ''order-7''\<rparr>"

definition demo_notify_state :: "(bool, demo_world) notify_state" where
  "demo_notify_state = \<lparr>ns_cache = [], ns_world = \<lparr>dw_redis = \<lparr>rs_kv = (\<lambda>_. None), rs_pub = []\<rparr>, dw_seq = 0, dw_outbox = [], dw_logs = []\<rparr>\<rparr>"

lemma demo_set_ok: "\<exists>x. fst (n_rd demo_notify [SET k v ttl] r) = Inr x"
  by (simp add: demo_notify_def mem_redis_def)

lemma demo_notify_keeps:
  "keeps dw_outbox (sql_template demo_notify c)" "keeps dw_redis (sql_template demo_notify c)"
  "keeps dw_outbox (n_rd demo_notify cs)" "dw_outbox (snd (new_token demo_notify w)) = dw_outbox w"
  "keeps dw_logs (n_rd demo_notify cs)" "keeps dw_logs (provider_Send demo_notify p d t)"
  "\<exists>r'. sql_insert_notify_log demo_notify l w = (Inr (), r') \<and> dw_logs r' = dw_logs w @ [l]"
  by (auto simp: demo_notify_def keeps_def split: prod.splits)

lemma demo_send: "fst (Send demo_notify demo_input demo_notify_state) = Inr () \<and>
    map rd_Body (dw_outbox (ns_world (snd (Send demo_notify demo_input demo_notify_state)))) = [''Dear Ann'']"
  by code_simp

section \<open>Properties\<close>




lemma demo_spec: "spec demo_notify ''smtp'' = Inr \<lparr>ts_Type = ''smtp'', ts_Channel = NotifyChannelEmail, ts_ConfigSchema = [], ts_DevOnly = False\<rparr>"
  by (simp add: spec_def demo_notify_def)


text \<open>
  Providers are tried in the order of their priority, one log entry for each attempt: the attempts are the
  first ones of some arrangement of the linked providers by descending priority, all but the last have failed, the last one has
  succeeded exactly if the request did, and on a channel with a fixed target there is at most one.
\<close>

theorem attempts_follow_priority:
  fixes logv :: "'r \<Rightarrow> NotifyLog list" and E :: "('r, 'j, 'p) notify_env"
  assumes "notify_world E view"
    and "\<And>l r. \<exists>r'. sql_insert_notify_log E l r = (Inr (), r') \<and> logv r' = logv r @ [l]"
    and "\<And>cs. keeps logv (n_rd E cs)" and "\<And>p d t. keeps logv (provider_Send E p d t)"
    and "\<And>cs r. logv (snd (shuffle E cs r)) = logv r" and "keeps logv (sql_candidates E (nt_Code tpl))"
    and "sql_candidates E (nt_Code tpl) (ns_world s) = (Inr cands, r1)"
    and "dispatch E tpl inp lease s = (res, s')"
  shows "\<exists>cs ls. mset cs = mset cands \<and> sorted_wrt (\<lambda>a b. cand_priority a \<ge> cand_priority b) cs \<and>
    logv (ns_world s') = logv (ns_world s) @ ls \<and> attempts_ok cs ls (res = Inr ()) \<and>
    (\<not> NeedsRecipient (nt_Channel tpl) \<longrightarrow> length ls \<le> 1)"
proof (cases "cands = []")
  case True
  then have "s' = s\<lparr>ns_world := r1\<rparr>" "res \<noteq> Inr ()"
    using assms(7,8) by (auto simp: dispatch_def bindE_def on_world_def)
  then show ?thesis
    using True keepsD [OF assms(6,7)] by (intro exI [of _ "[]"]) (simp add: attempts_ok_def)
next
  case False
  obtain cs0 r2 where sh: "shuffle E cands r1 = (cs0, r2)" by fastforce
  let ?cs = "sort_key (\<lambda>c. - cand_priority c) cs0"
  let ?take = "if \<not> NeedsRecipient (nt_Channel tpl) then take 1 ?cs else ?cs"
  obtain d where t: "try_candidates E tpl inp lease d ?take (s\<lparr>ns_world := r2\<rparr>) = (res, s')"
    using assms(7,8) False sh by (auto simp: dispatch_def bindE_def on_world_def order_def Let_def)
  have w: "logv r2 = logv (ns_world s)" using keepsD [OF assms(6,7)] assms(5) [of cands r1] sh by simp
  obtain ls where ls: "logv (ns_world s') = logv (ns_world s) @ ls" "attempts_ok ?take ls (res = Inr ())"
    using try_candidates_log [OF assms(2-4) t] w by auto
  have m: "mset ?cs = mset cands" using notify_world.shuffle_perm [OF assms(1), of cands r1] sh by simp
  have "sorted (map (\<lambda>c. - cand_priority c) ?cs)" by (rule sorted_sort_key)
  then have srt: "sorted_wrt (\<lambda>a b. cand_priority a \<ge> cand_priority b) ?cs" by (simp add: sorted_map)
  show ?thesis
    using ls m srt attempts_ok_take1 [of ?cs ls "res = Inr ()"]
    by (intro exI [of _ ?cs] exI [of _ ls]) (auto split: if_splits)
qed

theorem attempts_follow_priority_witness:
  "\<exists>cs ls. mset cs = mset [mail_cand ''p1'' False 1, mail_cand ''p2'' True 0, mail_cand ''p3'' False 5] \<and>
    dw_logs (ns_world (snd (dispatch demo_notify mail_template demo_input None demo_notify_state))) = ls \<and> attempts_ok cs ls True"
proof -
  let ?run = "dispatch demo_notify mail_template demo_input None demo_notify_state" and ?w = "ns_world demo_notify_state"
  have "fst ?run = Inr ()" by code_simp
  then have r: "?run = (Inr (), snd ?run)" by (metis prod.collapse)
  have c: "sql_candidates demo_notify (nt_Code mail_template) ?w =
      (Inr [mail_cand ''p1'' False 1, mail_cand ''p2'' True 0, mail_cand ''p3'' False 5], ?w)"
    and k: "keeps dw_logs (sql_candidates demo_notify (nt_Code mail_template))"
    and sh: "dw_logs (snd (shuffle demo_notify cs w)) = dw_logs w" for cs w
    by (simp_all add: demo_notify_def keeps_def)
  have e: "dw_logs ?w = []" by (simp add: demo_notify_state_def)
  show ?thesis
    using attempts_follow_priority [OF demo_notify.notify_world_axioms demo_notify_keeps(7,5,6) sh k c r] e by auto
qed

end
