(* ===== verification/Config_Service.thy ===== *)
theory Config_Service
  imports Runes
begin

text \<open>
  The configuration centre: partition names and the YAML normalisation of \<^verbatim>\<open>internal/domain/config.go\<close>, the
  versioned store of \<^verbatim>\<open>internal/service/config.go\<close>. PostgreSQL (one function per statement), the YAML
  parser and the publisher are parameters; the locale \<^verbatim>\<open>config_db\<close> relates the statements to a view of the table.
\<close>

section \<open>Partition names and YAML (\<^verbatim>\<open>domain/config.go\<close>)\<close>

definition alpha :: "char \<Rightarrow> bool" where
  "alpha c \<longleftrightarrow> byte_in CHR ''A'' CHR ''Z'' c \<or> byte_in CHR ''a'' CHR ''z'' c"

definition IsConfigType :: "string \<Rightarrow> bool" where
  "IsConfigType s =
     (case s of
        [] \<Rightarrow> False
      | c # cs \<Rightarrow> alpha c \<and> length cs \<le> 63 \<and>
          list_all (\<lambda>d. alpha d \<or> byte_in CHR ''0'' CHR ''9'' d \<or> d = CHR ''_'') cs)"

text \<open>The class \<^verbatim>\<open>\s\<close> of the regular expressions.\<close>

definition re_space :: "char \<Rightarrow> bool" where
  "re_space c \<longleftrightarrow> byte c \<in> {0x09, 0x0A, 0x0C, 0x0D, 0x20}"

text \<open>
  \<^verbatim>\<open>colonMissingSpace.ReplaceAllString\<close> on one line. The expression is anchored; after the leading white space
  comes a character other than a colon, and the colon it finds is the first one after that (the optional list dash
  contains none), so the only candidate match ends with the character after this colon, which must not be white space.
\<close>

definition insert_space :: "string \<Rightarrow> string" where
  "insert_space line =
     (let rest = dropWhile re_space line
      in case rest of
           [] \<Rightarrow> line
         | c # _ \<Rightarrow>
             if c = CHR '':'' then line
             else case str_Cut rest CHR '':'' of
               (a, d # b, True) \<Rightarrow>
                 if re_space d then line else takeWhile re_space line @ a @ CHR '':'' # CHR '' '' # d # b
             | _ \<Rightarrow> line)"

text \<open>\<^verbatim>\<open>strings.Split\<close> at newlines, and \<^verbatim>\<open>strings.Join\<close>.\<close>

fun split_lines :: "string \<Rightarrow> string list" where
  "split_lines [] = [[]]"
| "split_lines (c # s) =
     (if c = CHR 0x0A then [] # split_lines s
      else case split_lines s of l # ls \<Rightarrow> (c # l) # ls | [] \<Rightarrow> [[c]])"

fun join_lines :: "string list \<Rightarrow> string" where
  "join_lines [] = []"
| "join_lines [l] = l"
| "join_lines (l # ls) = l @ CHR 0x0A # join_lines ls"

definition normalize_line :: "string \<Rightarrow> string" where
  "normalize_line line =
     (let trimmed = dropWhile (\<lambda>c. c = CHR '' '' \<or> c = CHR 0x09) line
      in if trimmed = [] \<or> HasPrefix trimmed ''#'' then line else insert_space line)"

definition NormalizeConfigYAML :: "string \<Rightarrow> string" where
  "NormalizeConfigYAML raw = join_lines (map normalize_line (split_lines raw))"

definition CodeConfigValueInvalid :: string where "CodeConfigValueInvalid = ''CONFIG_VALUE_INVALID''"
definition CodeConfigTypeInvalid :: string where "CodeConfigTypeInvalid = ''CONFIG_TYPE_INVALID''"
definition CodeConfigVersionNotFound :: string where "CodeConfigVersionNotFound = ''CONFIG_VERSION_NOT_FOUND''"
definition CodeConfigVersionConflict :: string where "CodeConfigVersionConflict = ''CONFIG_VERSION_CONFLICT''"

text \<open>\<^verbatim>\<open>yaml\<close> decodes into a map; it fails, or leaves the map nil.\<close>

definition ParseConfigYAML :: "(string \<Rightarrow> (string \<rightharpoonup> 'y) option option) \<Rightarrow> string \<Rightarrow> goerr + (string \<rightharpoonup> 'y)" where
  "ParseConfigYAML yaml raw =
     (if TrimSpace raw = [] then Inr Map.empty
      else case yaml raw of
        None \<Rightarrow> Inl (DomainErr ErrInvalidArgument CodeConfigValueInvalid)
      | Some None \<Rightarrow> Inr Map.empty
      | Some (Some v) \<Rightarrow> Inr v)"

section \<open>Service (\<^verbatim>\<open>service/config.go\<close>)\<close>

record Config =
  cfg_ApplicationID :: uuid
  cfg_Type :: string
  cfg_Seq :: int
  cfg_Value :: string
  cfg_CreatedAt :: int

definition ConfigMaxVersions :: int where "ConfigMaxVersions = 100"

text \<open>The statements; \<^verbatim>\<open>sql_insert\<close> answers \<^verbatim>\<open>False\<close> for a violation of the primary key.\<close>

record ('r, 'y) config_env =
  sql_current :: "uuid \<Rightarrow> string \<Rightarrow> ('r, (int \<times> string \<times> int) option) io"
  sql_version :: "uuid \<Rightarrow> string \<Rightarrow> int \<Rightarrow> ('r, (int \<times> string \<times> int) option) io"
  sql_list :: "uuid \<Rightarrow> string \<Rightarrow> int \<Rightarrow> ('r, (int \<times> int) list) io"
  sql_next_seq :: "uuid \<Rightarrow> string \<Rightarrow> ('r, int) io"
  sql_insert :: "uuid \<Rightarrow> string \<Rightarrow> int \<Rightarrow> string \<Rightarrow> ('r, bool) io"
  sql_trim :: "uuid \<Rightarrow> string \<Rightarrow> int \<Rightarrow> ('r, unit) io"
  sql_types :: "uuid \<Rightarrow> ('r, string list) io"
  sql_delete_type :: "uuid \<Rightarrow> string \<Rightarrow> ('r, unit) io"
  begin_func :: "('r, int) io \<Rightarrow> ('r, int) io"
  cfg_has_pub :: bool
  cfg_publish :: "uuid \<Rightarrow> string \<Rightarrow> int \<Rightarrow> ('r, unit) io"
  yaml :: "string \<Rightarrow> (string \<rightharpoonup> 'y) option option"

definition checkConfigType :: "string \<Rightarrow> goerr option" where
  "checkConfigType typ =
     (if \<not> IsConfigType typ then Some (DomainErr ErrInvalidArgument CodeConfigTypeInvalid) else None)"

text \<open>The guard all operations on a partition share.\<close>

definition for_type :: "string \<Rightarrow> ('r, 'a) io \<Rightarrow> ('r, 'a) io" where
  "for_type typ m = (case checkConfigType typ of Some e \<Rightarrow> throw e | None \<Rightarrow> m)"

definition Current :: "('r, 'y) config_env \<Rightarrow> uuid \<Rightarrow> string \<Rightarrow> ('r, Config) io" where
  "Current E app typ = for_type typ
     (bindE (sql_current E app typ) (\<lambda>row. case row of
        None \<Rightarrow> ret \<lparr>cfg_ApplicationID = app, cfg_Type = typ, cfg_Seq = 0, cfg_Value = [], cfg_CreatedAt = 0\<rparr>
      | Some (n, v, t) \<Rightarrow> ret \<lparr>cfg_ApplicationID = app, cfg_Type = typ, cfg_Seq = n, cfg_Value = v, cfg_CreatedAt = t\<rparr>))"

definition Version :: "('r, 'y) config_env \<Rightarrow> uuid \<Rightarrow> string \<Rightarrow> int \<Rightarrow> ('r, Config) io" where
  "Version E app typ n = for_type typ
     (bindE (sql_version E app typ n) (\<lambda>row. case row of
        None \<Rightarrow> throw (DomainErr ErrNotFound CodeConfigVersionNotFound)
      | Some (n', v, t) \<Rightarrow> ret \<lparr>cfg_ApplicationID = app, cfg_Type = typ, cfg_Seq = n', cfg_Value = v, cfg_CreatedAt = t\<rparr>))"

definition ListVersions :: "('r, 'y) config_env \<Rightarrow> uuid \<Rightarrow> string \<Rightarrow> int \<Rightarrow> ('r, Config list) io" where
  "ListVersions E app typ limit = for_type typ
     (bindE (sql_list E app typ (if limit \<le> 0 \<or> limit > 100 then 20 else limit)) (\<lambda>rows.
        ret (map (\<lambda>(n, t). \<lparr>cfg_ApplicationID = app, cfg_Type = typ, cfg_Seq = n, cfg_Value = [], cfg_CreatedAt = t\<rparr>) rows)))"

definition save_tx :: "('r, 'y) config_env \<Rightarrow> uuid \<Rightarrow> string \<Rightarrow> string \<Rightarrow> ('r, int) io" where
  "save_tx E app typ value =
     bindE (sql_next_seq E app typ) (\<lambda>n.
     bindE (sql_insert E app typ n value) (\<lambda>ok.
       if \<not> ok then throw (DomainErr ErrConflict CodeConfigVersionConflict)
       else bindE (sql_trim E app typ (n - ConfigMaxVersions)) (\<lambda>_. ret n)))"

definition Save :: "('r, 'y) config_env \<Rightarrow> uuid \<Rightarrow> string \<Rightarrow> string \<Rightarrow> bool \<Rightarrow> ('r, int) io" where
  "Save E app typ value push = for_type typ
     (case ParseConfigYAML (yaml E) (NormalizeConfigYAML value) of
        Inl e \<Rightarrow> throw e
      | Inr _ \<Rightarrow>
          bindE (begin_func E (save_tx E app typ (NormalizeConfigYAML value))) (\<lambda>n.
            if push \<and> cfg_has_pub E then tryE (cfg_publish E app typ n) (\<lambda>_. ret n) else ret n))"

definition Rollback :: "('r, 'y) config_env \<Rightarrow> uuid \<Rightarrow> string \<Rightarrow> int \<Rightarrow> bool \<Rightarrow> ('r, int) io" where
  "Rollback E app typ n push =
     bindE (Version E app typ n) (\<lambda>old.
     bindE (Current E app typ) (\<lambda>current.
       if cfg_Value current = cfg_Value old then ret (cfg_Seq current)
       else Save E app typ (cfg_Value old) push))"

definition ListTypes :: "('r, 'y) config_env \<Rightarrow> uuid \<Rightarrow> ('r, string list) io" where
  "ListTypes E app = sql_types E app"

definition DeleteType :: "('r, 'y) config_env \<Rightarrow> uuid \<Rightarrow> string \<Rightarrow> ('r, unit) io" where
  "DeleteType E app typ = for_type typ (sql_delete_type E app typ)"

section \<open>Normalisation\<close>

lemma split_lines_nonempty [simp]: "split_lines s \<noteq> []"
  by (induction s) (auto split: list.split)

lemma join_split: "join_lines (split_lines s) = s"
proof (induction s)
  case (Cons c s)
  obtain l ls where s: "split_lines s = l # ls" by (metis list.exhaust split_lines_nonempty)
  then show ?case using Cons by (cases ls) auto
qed simp

lemma split_join: "ls \<noteq> [] \<Longrightarrow> \<forall>l \<in> set ls. CHR 0x0A \<notin> set l \<Longrightarrow> split_lines (join_lines ls) = ls"
proof (induction ls rule: join_lines.induct)
  case (2 l)
  then show ?case by (induction l) auto
next
  case (3 l l' ls)
  have "CHR 0x0A \<notin> set l \<Longrightarrow> split_lines (l @ CHR 0x0A # s) = l # split_lines s" for s
    by (induction l) auto
  then show ?case using 3 by simp
qed simp

lemma split_lines_no_nl: "l \<in> set (split_lines s) \<Longrightarrow> CHR 0x0A \<notin> set l"
  by (induction s arbitrary: l) (auto split: if_splits list.splits)

lemma str_Cut_parts: "str_Cut s c = (a, b, f) \<Longrightarrow> s = (if f then a @ c # b else a) \<and> c \<notin> set a"
  by (cases f) (auto dest: str_Cut_found str_Cut_not_found)

text \<open>The two outcomes on a line: nothing to do, or a space after the first colon.\<close>

lemma insert_space_cases:
  "insert_space line = line \<or>
   (\<exists>ws c a d b. line = ws @ c # a @ CHR '':'' # d # b \<and> list_all re_space ws \<and> \<not> re_space c \<and> c \<noteq> CHR '':'' \<and>
      CHR '':'' \<notin> set a \<and> \<not> re_space d \<and> insert_space line = ws @ c # a @ CHR '':'' # CHR '' '' # d # b)"
proof (cases "dropWhile re_space line")
  case (Cons c r)
  have ws: "line = takeWhile re_space line @ c # r" "list_all re_space (takeWhile re_space line)" "\<not> re_space c"
    using takeWhile_dropWhile_id [of re_space line] Cons hd_dropWhile [of re_space line]
    by (auto simp: list_all_iff dest: set_takeWhileD)
  obtain a b f where cut: "str_Cut (c # r) CHR '':'' = (a, b, f)" by (metis prod_cases3)
  show ?thesis
  proof (cases "c \<noteq> CHR '':'' \<and> f \<and> (\<exists>d b'. b = d # b' \<and> \<not> re_space d)")
    case True
    then obtain d b' where d: "b = d # b'" "\<not> re_space d" by blast
    have p: "c # r = a @ CHR '':'' # d # b'" "CHR '':'' \<notin> set a" using str_Cut_parts [OF cut] True d by auto
    then obtain a' where a': "a = c # a'" using True by (cases a) auto
    have "insert_space line = takeWhile re_space line @ c # a' @ CHR '':'' # CHR '' '' # d # b'"
      using True cut d a' Cons by (simp add: insert_space_def)
    then show ?thesis using ws p a' d True by (intro disjI2 exI conjI) auto
  next
    case False
    then have "insert_space line = line"
      using cut Cons by (auto simp: insert_space_def split: list.splits bool.splits)
    then show ?thesis ..
  qed
next
  case Nil
  then have "insert_space line = line" by (simp only: insert_space_def Let_def list.case)
  then show ?thesis ..
qed

lemma insert_space_done:
  assumes "list_all re_space ws" and "\<not> re_space c" and "c \<noteq> CHR '':''" and "CHR '':'' \<notin> set a"
  shows "insert_space (ws @ c # a @ CHR '':'' # CHR '' '' # b) = ws @ c # a @ CHR '':'' # CHR '' '' # b"
proof -
  have "dropWhile re_space (ws @ c # a @ CHR '':'' # CHR '' '' # b) = c # a @ CHR '':'' # CHR '' '' # b"
    using assms(1,2) by (simp add: list_all_iff dropWhile_append2)
  moreover have "str_Cut (c # a @ CHR '':'' # CHR '' '' # b) CHR '':'' = (c # a, CHR '' '' # b, True)"
    using assms(3,4) str_Cut_sep [of "CHR '':''" "c # a"] by simp
  moreover have "re_space CHR '' ''" by (simp add: re_space_def byte_def)
  ultimately show ?thesis using assms(3) by (simp add: insert_space_def)
qed

lemma insert_space_idem: "insert_space (insert_space line) = insert_space line"
  using insert_space_cases [of line] insert_space_done by metis

lemma skipped_insert_space:
  assumes "\<not> (dropWhile (\<lambda>c. c = CHR '' '' \<or> c = CHR 0x09) line = [] \<or> HasPrefix (dropWhile (\<lambda>c. c = CHR '' '' \<or> c = CHR 0x09) line) ''#'')"
  shows "normalize_line (insert_space line) = insert_space line"
proof (cases "normalize_line (insert_space line) = insert_space (insert_space line)")
  case True
  then show ?thesis by (simp add: insert_space_idem)
next
  case False
  then show ?thesis by (auto simp: normalize_line_def Let_def split: if_splits)
qed

lemma normalize_line_idem: "normalize_line (normalize_line line) = normalize_line line"
proof (cases "dropWhile (\<lambda>c. c = CHR '' '' \<or> c = CHR 0x09) line = [] \<or> HasPrefix (dropWhile (\<lambda>c. c = CHR '' '' \<or> c = CHR 0x09) line) ''#''")
  case True
  then have "normalize_line line = line" by (auto simp: normalize_line_def)
  then show ?thesis by simp
next
  case False
  then have "normalize_line line = insert_space line" by (auto simp: normalize_line_def Let_def)
  then show ?thesis using skipped_insert_space [OF False] by simp
qed

lemma normalize_line_no_nl: "CHR 0x0A \<notin> set line \<Longrightarrow> CHR 0x0A \<notin> set (normalize_line line)"
  using insert_space_cases [of line] by (auto simp: normalize_line_def Let_def)

lemma NormalizeConfigYAML_idem: "NormalizeConfigYAML (NormalizeConfigYAML raw) = NormalizeConfigYAML raw"
proof -
  have "split_lines (NormalizeConfigYAML raw) = map normalize_line (split_lines raw)"
    unfolding NormalizeConfigYAML_def
    by (rule split_join) (use normalize_line_no_nl split_lines_no_nl in auto)
  then show ?thesis by (simp add: NormalizeConfigYAML_def [of "NormalizeConfigYAML raw"] NormalizeConfigYAML_def comp_def normalize_line_idem)
qed

text \<open>
  The rewriting is not limited to keys: an address in a list, which is one scalar, becomes a mapping.
\<close>

lemma NormalizeConfigYAML_splits_addresses:
  "NormalizeConfigYAML (''hosts:'' @ CHR 0x0A # ''- http://a:80'') = ''hosts:'' @ CHR 0x0A # ''- http: //a:80''"
  by code_simp


section \<open>The table\<close>

text \<open>The rows by application, partition and version: value and time of creation.\<close>

type_synonym cfg_table = "uuid \<times> string \<times> int \<rightharpoonup> string \<times> int"

definition versions :: "cfg_table \<Rightarrow> uuid \<Rightarrow> string \<Rightarrow> int set" where
  "versions T app typ = {n. T (app, typ, n) \<noteq> None}"

definition is_max :: "int set \<Rightarrow> int \<Rightarrow> bool" where
  "is_max S n \<longleftrightarrow> n \<in> S \<and> (\<forall>m \<in> S. m \<le> n)"

text \<open>
  What PostgreSQL documents for the statements. A transaction that reports success has the effect of its body; one
  that fails has none, except that the answer to a commit may be lost.
\<close>

locale config_db =
  fixes E :: "('r, 'y) config_env" and view :: "'r \<Rightarrow> cfg_table"
  assumes current: "sql_current E app typ r = (Inr x, r') \<Longrightarrow> view r' = view r \<and>
      (case x of None \<Rightarrow> versions (view r) app typ = {}
       | Some (n, v, t) \<Rightarrow> is_max (versions (view r) app typ) n \<and> view r (app, typ, n) = Some (v, t))"
    and version: "sql_version E app typ n r = (Inr x, r') \<Longrightarrow> view r' = view r \<and>
      x = (case view r (app, typ, n) of None \<Rightarrow> None | Some (v, t) \<Rightarrow> Some (n, v, t))"
    and next_seq: "sql_next_seq E app typ r = (Inr n, r') \<Longrightarrow> view r' = view r \<and>
      (if versions (view r) app typ = {} then n = 1 else is_max (versions (view r) app typ) (n - 1))"
    and insert: "sql_insert E app typ n v r = (Inr ok, r') \<Longrightarrow>
      (if ok then view r (app, typ, n) = None \<and> (\<exists>t. view r' = (view r)((app, typ, n) \<mapsto> (v, t)))
       else view r (app, typ, n) \<noteq> None)"
    and trim: "sql_trim E app typ n r = (Inr u, r') \<Longrightarrow>
      view r' = (\<lambda>(a, t, m). if a = app \<and> t = typ \<and> m \<le> n then None else view r (a, t, m))"
    and delete_type: "sql_delete_type E app typ r = (Inr u, r') \<Longrightarrow>
      view r' = (\<lambda>(a, t, m). if a = app \<and> t = typ then None else view r (a, t, m))"
    and read_err: "sql_current E app typ r = (Inl e, r') \<Longrightarrow> view r' = view r"
      "sql_version E app typ n r = (Inl e, r') \<Longrightarrow> view r' = view r"
      "sql_delete_type E app typ r = (Inl e, r') \<Longrightarrow> view r' = view r"
    and commit: "begin_func E body r = (Inr n, r') \<Longrightarrow> \<exists>r1. body r = (Inr n, r1) \<and> view r' = view r1"
    and aborted: "begin_func E body r = (Inl e, r') \<Longrightarrow>
      view r' = view r \<or> (\<exists>n r1. body r = (Inr n, r1) \<and> view r' = view r1)"
    and publish: "keeps view (cfg_publish E app typ n)"

text \<open>
  The table is well formed: the versions of a partition are the last ones of a sequence counted from one, at most
  a hundred, and every value is a normalised text the parser accepts.
\<close>

definition table_wf :: "('r, 'y) config_env \<Rightarrow> cfg_table \<Rightarrow> bool" where
  "table_wf E T \<longleftrightarrow>
     (\<forall>app typ. \<exists>lo hi. 0 \<le> lo \<and> lo \<le> hi \<and> hi - lo \<le> 100 \<and> versions T app typ = {lo + 1..hi}) \<and>
     (\<forall>app typ n v t. T (app, typ, n) = Some (v, t) \<longrightarrow> NormalizeConfigYAML v = v \<and> (\<exists>y. ParseConfigYAML (yaml E) v = Inr y))"

lemma is_max_interval: "is_max {lo + 1..hi} n \<longleftrightarrow> n = hi \<and> lo < (hi :: int)"
proof
  assume a: "is_max {lo + 1..hi} n"
  then have "hi \<in> {lo + 1..hi}" by (auto simp: is_max_def)
  then have "hi \<le> n" using a by (auto simp: is_max_def)
  then show "n = hi \<and> lo < hi" using a by (auto simp: is_max_def)
qed (auto simp: is_max_def)

text \<open>One committed save, seen on the table.\<close>

definition saved :: "cfg_table \<Rightarrow> uuid \<Rightarrow> string \<Rightarrow> string \<Rightarrow> int \<Rightarrow> cfg_table \<Rightarrow> bool" where
  "saved T app typ v n T' \<longleftrightarrow>
     (if versions T app typ = {} then n = 1 else is_max (versions T app typ) (n - 1)) \<and>
     (\<exists>t. T' = (\<lambda>(a, ty, m). if a = app \<and> ty = typ \<and> m \<le> n - 100 then None
                    else (T((app, typ, n) \<mapsto> (v, t))) (a, ty, m)))"

lemma saved_lookup:
  assumes "saved T app typ v n T'"
  shows "T' (a, ty, m) = (if a = app \<and> ty = typ \<and> m \<le> n - 100 then None
      else if a = app \<and> ty = typ \<and> m = n then T' (app, typ, n) else T (a, ty, m))"
    and "\<exists>t. T' (app, typ, n) = Some (v, t)"
  using assms by (auto simp: saved_def)

lemma saved_versions:
  assumes "table_wf E T" and "saved T app typ v n T'"
  obtains lo where "0 \<le> lo" "lo < n" "n - lo \<le> 100" "versions T' app typ = {lo + 1..n}"
    and "\<And>a ty. (a, ty) \<noteq> (app, typ) \<Longrightarrow> versions T' a ty = versions T a ty"
proof -
  obtain lo hi where h: "0 \<le> lo" "lo \<le> hi" "hi - lo \<le> 100" "versions T app typ = {lo + 1..hi}"
    using assms(1) unfolding table_wf_def by blast
  have n: "lo < hi \<and> n = hi + 1 \<or> lo = hi \<and> n = 1"
    using assms(2) h by (auto simp: saved_def is_max_interval split: if_splits)
  define lo' where "lo' = (if lo = hi then 0 else max lo (n - 100))"
  have present: "T' (app, typ, m) \<noteq> None \<longleftrightarrow> m = n \<or> (n - 100 < m \<and> T (app, typ, m) \<noteq> None)" for m
    using saved_lookup(1) [OF assms(2), of app "typ" m] saved_lookup(2) [OF assms(2)] by auto
  have "T (app, typ, m) \<noteq> None \<longleftrightarrow> lo + 1 \<le> m \<and> m \<le> hi" for m
    using h(4) by (simp add: versions_def set_eq_iff)
  then have "versions T' app typ = {lo' + 1..n}"
    using present n by (auto simp: versions_def lo'_def set_eq_iff)
  moreover have "0 \<le> lo'" "lo' < n" "n - lo' \<le> 100" using h n by (auto simp: lo'_def)
  moreover have "versions T' a ty = versions T a ty" if "(a, ty) \<noteq> (app, typ)" for a ty
    using saved_lookup(1) [OF assms(2), of a ty] that by (auto simp: versions_def)
  ultimately show ?thesis using that by blast
qed

lemma saved_wf:
  assumes "table_wf E T" and "saved T app typ v n T'"
    and "NormalizeConfigYAML v = v" and "ParseConfigYAML (yaml E) v = Inr y"
  shows "table_wf E T'"
proof -
  obtain lo where lo: "0 \<le> lo" "lo < n" "n - lo \<le> 100" "versions T' app typ = {lo + 1..n}"
    and other: "\<And>a ty. (a, ty) \<noteq> (app, typ) \<Longrightarrow> versions T' a ty = versions T a ty"
    by (rule saved_versions [OF assms(1,2)]) blast
  have "\<exists>lo hi. 0 \<le> lo \<and> lo \<le> hi \<and> hi - lo \<le> 100 \<and> versions T' a ty = {lo + 1..hi}" for a ty
  proof (cases "(a, ty) = (app, typ)")
    case True
    then show ?thesis using lo by (intro exI [of _ lo] exI [of _ n]) auto
  next
    case False
    then show ?thesis using assms(1) other [OF False] unfolding table_wf_def by simp
  qed
  moreover have "NormalizeConfigYAML w = w \<and> (\<exists>y. ParseConfigYAML (yaml E) w = Inr y)" if "T' (a, ty, m) = Some (w, t)" for a ty m w t
  proof (cases "a = app \<and> ty = typ \<and> m = n")
    case True
    then have "w = v" using that saved_lookup(2) [OF assms(2)] by auto
    then show ?thesis using assms(3,4) by auto
  next
    case False
    then have "T (a, ty, m) = Some (w, t)" using that saved_lookup(1) [OF assms(2), of a ty m] by (auto split: if_splits)
    then show ?thesis using assms(1) unfolding table_wf_def by blast
  qed
  ultimately show ?thesis unfolding table_wf_def by blast
qed

lemma for_type_Inr: "for_type typ m r = (Inr x, r') \<longleftrightarrow> checkConfigType typ = None \<and> m r = (Inr x, r')"
  by (auto simp: for_type_def split: option.split)

lemma for_type_Inl: "for_type typ m r = (Inl e, r') \<Longrightarrow> (checkConfigType typ = Some e \<and> r' = r) \<or> m r = (Inl e, r')"
  by (auto simp: for_type_def split: option.splits)


datatype config_op =
    OpSave uuid string string bool
  | OpRollback uuid string int bool
  | OpDelete uuid string

fun config_run :: "('r, 'y) config_env \<Rightarrow> config_op \<Rightarrow> 'r \<Rightarrow> 'r" where
  "config_run E (OpSave app ty v push) r = snd (Save E app ty v push r)"
| "config_run E (OpRollback app ty n push) r = snd (Rollback E app ty n push r)"
| "config_run E (OpDelete app ty) r = snd (DeleteType E app ty r)"

context config_db
begin

lemma save_tx_saved:
  assumes "save_tx E app ty v r = (Inr n, r')"
  shows "saved (view r) app ty v n (view r')"
proof -
  obtain r1 ok r2 u where q: "sql_next_seq E app ty r = (Inr n, r1)" and i: "sql_insert E app ty n v r1 = (Inr ok, r2)"
    and ok: "ok" and t: "sql_trim E app ty (n - ConfigMaxVersions) r2 = (Inr u, r')"
    using assms by (auto simp: save_tx_def bindE_Inr_iff split: if_splits)
  obtain t0 where v2: "view r2 = (view r1)((app, ty, n) \<mapsto> (v, t0))" using insert [OF i] ok by auto
  show ?thesis
    unfolding saved_def using next_seq [OF q] trim [OF t] v2
    by (auto simp: ConfigMaxVersions_def intro!: exI [of _ t0])
qed

lemma Save_Inr:
  assumes "Save E app ty v push r = (Inr n, r')"
  shows "saved (view r) app ty (NormalizeConfigYAML v) n (view r')"
    and "\<exists>y. ParseConfigYAML (yaml E) (NormalizeConfigYAML v) = Inr y"
proof -
  obtain y where y: "ParseConfigYAML (yaml E) (NormalizeConfigYAML v) = Inr y"
    using assms by (auto simp: Save_def for_type_Inr split: sum.splits)
  then have "bindE (begin_func E (save_tx E app ty (NormalizeConfigYAML v))) (\<lambda>n.
      if push \<and> cfg_has_pub E then tryE (cfg_publish E app ty n) (\<lambda>_. ret n) else ret n) r = (Inr n, r')"
    using assms by (simp add: Save_def for_type_Inr)
  then obtain m r1 where b: "begin_func E (save_tx E app ty (NormalizeConfigYAML v)) r = (Inr m, r1)"
    and p: "(if push \<and> cfg_has_pub E then tryE (cfg_publish E app ty m) (\<lambda>_. ret m) else ret m) r1 = (Inr n, r')"
    by (rule bindE_InrE)
  have "keeps view (if push \<and> cfg_has_pub E then tryE (cfg_publish E app ty m) (\<lambda>_. ret m) else ret m)"
    using keeps_tryE [OF publish, of "\<lambda>_. ret m"] by auto
  from keepsD [OF this p] have "view r' = view r1" .
  moreover have "n = m" using p by (auto simp: tryE_def split: if_splits prod.splits)
  moreover obtain r2 where "save_tx E app ty (NormalizeConfigYAML v) r = (Inr m, r2)" "view r1 = view r2"
    using commit [OF b] by blast
  ultimately show "saved (view r) app ty (NormalizeConfigYAML v) n (view r')" using save_tx_saved by auto
  show "\<exists>y. ParseConfigYAML (yaml E) (NormalizeConfigYAML v) = Inr y" using y by blast
qed

text \<open>A save that fails has changed nothing, or its success is only not known to the caller.\<close>

lemma Save_Inl:
  assumes "Save E app ty v push r = (Inl e, r')"
  shows "view r' = view r \<or>
    (\<exists>n. saved (view r) app ty (NormalizeConfigYAML v) n (view r')) \<and> (\<exists>y. ParseConfigYAML (yaml E) (NormalizeConfigYAML v) = Inr y)"
proof (cases "checkConfigType ty = None \<and> (\<exists>y. ParseConfigYAML (yaml E) (NormalizeConfigYAML v) = Inr y)")
  case False
  then have "r' = r" using assms by (auto simp: Save_def for_type_def split: option.splits sum.splits)
  then show ?thesis by simp
next
  case True
  then obtain y where y: "ParseConfigYAML (yaml E) (NormalizeConfigYAML v) = Inr y" by blast
  have "(if push \<and> cfg_has_pub E then tryE (cfg_publish E app ty m) (\<lambda>_. ret m) else ret m) w \<noteq> (Inl e, w')" for m w w'
    by (auto simp: tryE_def split: prod.split)
  define k where "k = (\<lambda>m. if push \<and> cfg_has_pub E then tryE (cfg_publish E app ty m) (\<lambda>_. ret m) else ret m)"
  have k: "k m w \<noteq> (Inl e, w')" for m w w' using True \<open>\<And>m w w'. (if push \<and> cfg_has_pub E then tryE (cfg_publish E app ty m) (\<lambda>_. ret m) else ret m) w \<noteq> (Inl e, w')\<close> by (simp add: k_def)
  have "bindE (begin_func E (save_tx E app ty (NormalizeConfigYAML v))) k r = (Inl e, r')"
    using assms True y by (simp add: Save_def for_type_def k_def)
  then have "begin_func E (save_tx E app ty (NormalizeConfigYAML v)) r = (Inl e, r')"
    using k unfolding bindE_Inl_iff by blast
  from aborted [OF this] show ?thesis
  proof
    assume "\<exists>n r1. save_tx E app ty (NormalizeConfigYAML v) r = (Inr n, r1) \<and> view r' = view r1"
    then obtain n r1 where "save_tx E app ty (NormalizeConfigYAML v) r = (Inr n, r1)" "view r' = view r1" by blast
    then have "saved (view r) app ty (NormalizeConfigYAML v) n (view r')" using save_tx_saved by simp
    then show ?thesis using y by blast
  qed blast
qed

lemma Save_wf: "table_wf E (view r) \<Longrightarrow> table_wf E (view (snd (Save E app ty v push r)))"
proof (cases "Save E app ty v push r")
  case (Pair x r')
  assume wf: "table_wf E (view r)"
  show ?thesis
  proof (cases x)
    case (Inl e)
    then have "view r' = view r \<or> (\<exists>n. saved (view r) app ty (NormalizeConfigYAML v) n (view r')) \<and>
        (\<exists>y. ParseConfigYAML (yaml E) (NormalizeConfigYAML v) = Inr y)"
      using Save_Inl Pair by blast
    then have "table_wf E (view r')"
    proof
      assume "(\<exists>n. saved (view r) app ty (NormalizeConfigYAML v) n (view r')) \<and>
        (\<exists>y. ParseConfigYAML (yaml E) (NormalizeConfigYAML v) = Inr y)"
      then obtain n y where "saved (view r) app ty (NormalizeConfigYAML v) n (view r')"
          "ParseConfigYAML (yaml E) (NormalizeConfigYAML v) = Inr y" by blast
      then show ?thesis by (rule saved_wf [OF wf _ NormalizeConfigYAML_idem])
    qed (use wf in simp)
    then show ?thesis using Pair by simp
  next
    case (Inr n)
    then obtain y where y: "ParseConfigYAML (yaml E) (NormalizeConfigYAML v) = Inr y"
      and sv: "saved (view r) app ty (NormalizeConfigYAML v) n (view r')"
      using Save_Inr Pair by blast
    show ?thesis using saved_wf [OF wf sv NormalizeConfigYAML_idem y] Pair by simp
  qed
qed

lemma Version_Inr:
  "Version E app ty n r = (Inr c, r') \<Longrightarrow> view r' = view r \<and> (\<exists>t. view r (app, ty, n) = Some (cfg_Value c, t))"
  using version [of app ty n r]
  by (auto simp: Version_def for_type_Inr bindE_Inr_iff split: option.splits)

lemma read_Inl:
  assumes "for_type ty (bindE m f) r = (Inl e, r')" and "keeps view m" and "\<And>x. keeps view (f x)"
  shows "view r' = view r"
proof -
  have "keeps view (for_type ty (bindE m f))"
    using assms(2,3) by (auto simp: for_type_def intro!: keeps_bindE split: option.split)
  then show ?thesis using assms(1) by (rule keepsD)
qed

lemma reads_keep: "keeps view (sql_version E app ty n)" "keeps view (sql_current E app ty)"
proof -
  show "keeps view (sql_version E app ty n)"
  proof (rule keepsI)
    fix w x w' assume "sql_version E app ty n w = (x, w')"
    then show "view w' = view w" using version read_err(2) by (cases x) blast+
  qed
  show "keeps view (sql_current E app ty)"
  proof (rule keepsI)
    fix w x w' assume "sql_current E app ty w = (x, w')"
    then show "view w' = view w" using current read_err(1) by (cases x) blast+
  qed
qed

lemma Version_Inl: "Version E app ty n r = (Inl e, r') \<Longrightarrow> view r' = view r"
  unfolding Version_def by (erule read_Inl) (auto intro: reads_keep keeps_ret keeps_throw simp del: ret_apply throw_apply split: option.split)

lemma Current_Inr:
  "Current E app ty r = (Inr c, r') \<Longrightarrow> view r' = view r \<and>
     (if versions (view r) app ty = {} then cfg_Seq c = 0 \<and> cfg_Value c = []
      else is_max (versions (view r) app ty) (cfg_Seq c) \<and> (\<exists>t. view r (app, ty, cfg_Seq c) = Some (cfg_Value c, t)))"
  using current [of app ty r]
  by (auto simp: Current_def for_type_Inr bindE_Inr_iff is_max_def split: option.splits)

lemma Current_Inl: "Current E app ty r = (Inl e, r') \<Longrightarrow> view r' = view r"
  unfolding Current_def by (erule read_Inl) (auto intro: reads_keep keeps_ret keeps_throw simp del: ret_apply throw_apply split: option.split)

lemma Rollback_cases:
  assumes "Rollback E app ty n push r = (x, r')"
  shows "(view r' = view r \<and> (\<exists>e. x = Inl e)) \<or>
    (\<exists>old r1 cur r2. Version E app ty n r = (Inr old, r1) \<and> Current E app ty r1 = (Inr cur, r2) \<and> view r2 = view r \<and>
       (if cfg_Value cur = cfg_Value old then x = Inr (cfg_Seq cur) \<and> r' = r2 else Save E app ty (cfg_Value old) push r2 = (x, r')))"
proof (cases "Version E app ty n r")
  case (Pair y r1)
  show ?thesis
  proof (cases y)
    case (Inl e)
    then show ?thesis using assms Pair Version_Inl [of app ty n r e r1] by (auto simp: Rollback_def bindE_def)
  next
    case (Inr old)
    have v1: "view r1 = view r" using Version_Inr Pair Inr by blast
    obtain z r2 where c: "Current E app ty r1 = (z, r2)" by fastforce
    show ?thesis
    proof (cases z)
      case (Inl e)
      then show ?thesis
        using assms Pair \<open>y = Inr old\<close> c v1 Current_Inl [of app ty r1 e r2] by (auto simp: Rollback_def bindE_def)
    next
      case (Inr cur)
      have "view r2 = view r" using Current_Inr c Inr v1 by metis
      then show ?thesis
        using assms Pair \<open>y = Inr old\<close> c Inr by (auto simp: Rollback_def bindE_def split: if_splits)
    qed
  qed
qed

lemma Rollback_wf: "table_wf E (view r) \<Longrightarrow> table_wf E (view (snd (Rollback E app ty n push r)))"
proof (cases "Rollback E app ty n push r")
  case (Pair x r')
  assume wf: "table_wf E (view r)"
  from Rollback_cases [OF Pair] show ?thesis
  proof (elim disjE exE conjE)
    fix old r1 cur r2
    assume "view r2 = view r" and b: "if cfg_Value cur = cfg_Value old then x = Inr (cfg_Seq cur) \<and> r' = r2
       else Save E app ty (cfg_Value old) push r2 = (x, r')"
    then show ?thesis
      using wf Save_wf [of r2 app ty "cfg_Value old" push] Pair by (cases "cfg_Value cur = cfg_Value old") auto
  qed (use wf Pair in simp)
qed

lemma DeleteType_wf: "table_wf E (view r) \<Longrightarrow> table_wf E (view (snd (DeleteType E app ty r)))"
proof (cases "DeleteType E app ty r")
  case (Pair x r')
  assume wf: "table_wf E (view r)"
  show ?thesis
  proof (cases "view r' = view r")
    case False
    then have d: "view r' = (\<lambda>(a, t, m). if a = app \<and> t = ty then None else view r (a, t, m))"
    proof (cases x)
      case (Inl e)
      then have "r' = r \<or> sql_delete_type E app ty r = (Inl e, r')"
        using Pair for_type_Inl [of ty "sql_delete_type E app ty" r e r'] by (auto simp: DeleteType_def)
      then show ?thesis using read_err(3) False by blast
    next
      case (Inr u)
      then have "sql_delete_type E app ty r = (Inr u, r')" using Pair by (simp add: DeleteType_def for_type_Inr)
      then show ?thesis by (rule delete_type)
    qed
    have "versions (view r') a t = (if a = app \<and> t = ty then {} else versions (view r) a t)" for a t
      by (auto simp: versions_def d)
    then have "\<exists>lo hi. 0 \<le> lo \<and> lo \<le> hi \<and> hi - lo \<le> 100 \<and> versions (view r') a t = {lo + 1..hi}" for a t
      using wf unfolding table_wf_def by (cases "a = app \<and> t = ty") (auto intro!: exI [of _ 0])
    moreover have "NormalizeConfigYAML v = v \<and> (\<exists>y. ParseConfigYAML (yaml E) v = Inr y)" if "view r' (a, t, m) = Some (v, c)" for a t m v c
    proof -
      have "view r (a, t, m) = Some (v, c)" using that by (auto simp: d split: if_splits)
      then show ?thesis using wf unfolding table_wf_def by blast
    qed
    ultimately show ?thesis using Pair unfolding table_wf_def by simp
  qed (use wf Pair in simp)
qed

lemma config_run_wf: "table_wf E (view r) \<Longrightarrow> table_wf E (view (config_run E op r))"
  by (cases op) (simp_all add: Save_wf Rollback_wf DeleteType_wf)

lemma config_runs_wf: "table_wf E (view r) \<Longrightarrow> table_wf E (view (fold (config_run E) ops r))"
  by (induction ops arbitrary: r) (simp_all add: config_run_wf)

text \<open>What a successful save leaves: the new version is the current one and the last ninety-nine before it are untouched.\<close>

lemma saved_current:
  assumes "table_wf E T" and "saved T app ty v n T'"
  shows "is_max (versions T' app ty) n" and "\<exists>t. T' (app, ty, n) = Some (v, t)"
    and "k \<noteq> n \<Longrightarrow> n - 100 < k \<Longrightarrow> T' (app, ty, k) = T (app, ty, k)"
proof -
  obtain lo where "lo < n" "versions T' app ty = {lo + 1..n}"
    by (rule saved_versions [OF assms]) blast
  then show "is_max (versions T' app ty) n" by (simp add: is_max_interval)
  show "\<exists>t. T' (app, ty, n) = Some (v, t)" by (rule saved_lookup(2) [OF assms(2)])
  show "k \<noteq> n \<Longrightarrow> n - 100 < k \<Longrightarrow> T' (app, ty, k) = T (app, ty, k)"
    using saved_lookup(1) [OF assms(2), of app ty k] by auto
qed

lemma Rollback_restores:
  assumes wf: "table_wf E (view r)" and "Rollback E app ty n push r = (Inr m, r')" and v: "view r (app, ty, n) = Some (v, t)"
  shows "is_max (versions (view r') app ty) m \<and> (\<exists>t. view r' (app, ty, m) = Some (v, t)) \<and>
    (\<forall>k. k \<noteq> m \<longrightarrow> m - 100 < k \<longrightarrow> view r' (app, ty, k) = view r (app, ty, k))"
proof -
  have "\<exists>old r1 cur r2. Version E app ty n r = (Inr old, r1) \<and> Current E app ty r1 = (Inr cur, r2) \<and> view r2 = view r \<and>
      (if cfg_Value cur = cfg_Value old then m = cfg_Seq cur \<and> r' = r2
       else Save E app ty (cfg_Value old) push r2 = (Inr m, r'))"
    using Rollback_cases [OF assms(2)] by (simp cong: if_cong split del: if_split)
  then obtain old r1 cur r2 where o: "Version E app ty n r = (Inr old, r1)" and c: "Current E app ty r1 = (Inr cur, r2)"
    and v2: "view r2 = view r" and b: "if cfg_Value cur = cfg_Value old then m = cfg_Seq cur \<and> r' = r2
       else Save E app ty (cfg_Value old) push r2 = (Inr m, r')"
    by blast
  have ov: "cfg_Value old = v" using Version_Inr [OF o] v by auto
  have ne: "versions (view r) app ty \<noteq> {}" using v by (auto simp: versions_def)
  have cv: "is_max (versions (view r) app ty) (cfg_Seq cur)" "\<exists>t. view r (app, ty, cfg_Seq cur) = Some (cfg_Value cur, t)"
    using Current_Inr [OF c] Version_Inr [OF o] ne by auto
  have nv: "NormalizeConfigYAML v = v" using wf v unfolding table_wf_def by blast
  show ?thesis
  proof (cases "cfg_Value cur = cfg_Value old")
    case True
    then show ?thesis using b cv v2 ov by simp
  next
    case False
    then have "saved (view r) app ty v m (view r')" using b Save_Inr(1) v2 ov nv by metis
    from saved_current [OF wf this] show ?thesis by blast
  qed
qed

end


section \<open>An in-memory table\<close>

type_synonym cfg_rows = "((uuid \<times> string \<times> int) \<times> (string \<times> int)) list"

definition row_seqs :: "uuid \<Rightarrow> string \<Rightarrow> cfg_rows \<Rightarrow> int list" where
  "row_seqs app ty rows = map (\<lambda>((_, _, n), _). n) (filter (\<lambda>((a, t, _), _). a = app \<and> t = ty) rows)"

definition mem_config :: "(cfg_rows, unit) config_env" where
  "mem_config = \<lparr>
     sql_current = (\<lambda>app ty w. (Inr (case row_seqs app ty w of [] \<Rightarrow> None
       | n # ns \<Rightarrow> (let m = fold max ns n in map_option (\<lambda>(v, t). (m, v, t)) (map_of w (app, ty, m)))), w)),
     sql_version = (\<lambda>app ty n w. (Inr (map_option (\<lambda>(v, t). (n, v, t)) (map_of w (app, ty, n))), w)),
     sql_list = (\<lambda>app ty limit w. (Inr (take (nat limit) (map (\<lambda>n. (n, 0)) (rev (sort (row_seqs app ty w))))), w)),
     sql_next_seq = (\<lambda>app ty w. (Inr (case row_seqs app ty w of [] \<Rightarrow> 1 | n # ns \<Rightarrow> fold max ns n + 1), w)),
     sql_insert = (\<lambda>app ty n v w. if map_of w (app, ty, n) = None then (Inr True, ((app, ty, n), (v, 0)) # w) else (Inr False, w)),
     sql_trim = (\<lambda>app ty n w. (Inr (), filter (\<lambda>((a, t, m), _). \<not> (a = app \<and> t = ty \<and> m \<le> n)) w)),
     sql_types = (\<lambda>app w. (Inr (remdups (map (\<lambda>((_, t, _), _). t) (filter (\<lambda>((a, _, _), _). a = app) w))), w)),
     sql_delete_type = (\<lambda>app ty w. (Inr (), filter (\<lambda>((a, t, m), _). \<not> (a = app \<and> t = ty)) w)),
     begin_func = (\<lambda>body w. case body w of (Inr n, w') \<Rightarrow> (Inr n, w') | (Inl e, _) \<Rightarrow> (Inl e, w)),
     cfg_has_pub = False, cfg_publish = (\<lambda>app ty n w. (Inr (), w)),
     yaml = (\<lambda>s. if CHR '':'' \<in> set s then Some None else None)\<rparr>"

lemma map_of_filter_rows:
  "map_of (filter (\<lambda>((a, t, m), _). P a t m) w) (a, t, m) = (if P a t m then map_of w (a, t, m) else None)"
  by (induction w) auto

lemma set_row_seqs: "set (row_seqs app ty w) = versions (map_of w) app ty"
  by (force simp: row_seqs_def versions_def map_of_eq_None_iff)

lemma fold_max_is_max: "is_max (set (n # ns)) (fold max ns (n :: int))"
proof -
  have "fold max ns n = Max (set (n # ns))" by (rule Max.set_eq_fold [symmetric])
  then show ?thesis
    using Max_in [of "set (n # ns)"] Max_ge [of "set (n # ns)"] by (simp add: is_max_def del: Max_insert)
qed

interpretation mem_config: config_db mem_config map_of
proof
  fix app ty r x r' assume h: "sql_current mem_config app ty r = (Inr x, r')"
  show "map_of r' = map_of r \<and> (case x of None \<Rightarrow> versions (map_of r) app ty = {}
       | Some (n, v, t) \<Rightarrow> is_max (versions (map_of r) app ty) n \<and> map_of r (app, ty, n) = Some (v, t))"
  proof (cases "row_seqs app ty r")
    case Nil
    then show ?thesis using h set_row_seqs [of app ty r] by (auto simp: mem_config_def)
  next
    case (Cons n ns)
    then have m: "is_max (versions (map_of r) app ty) (fold max ns n)"
      using set_row_seqs [of app ty r] fold_max_is_max by metis
    then obtain v t where "map_of r (app, ty, fold max ns n) = Some (v, t)" by (auto simp: is_max_def versions_def)
    then show ?thesis using h Cons m by (auto simp: mem_config_def Let_def)
  qed
next
  fix app ty r n r' assume "sql_next_seq mem_config app ty r = (Inr n, r')"
  then show "map_of r' = map_of r \<and> (if versions (map_of r) app ty = {} then n = 1 else is_max (versions (map_of r) app ty) (n - 1))"
    using set_row_seqs [of app ty r] fold_max_is_max
    by (auto simp: mem_config_def split: list.splits) (metis list.simps(15))
qed (auto simp: mem_config_def map_of_filter_rows keeps_def fun_eq_iff split: option.splits if_splits sum.splits prod.splits)

section \<open>Properties\<close>

text \<open>
  C21. The table of versions stays well formed: after any sequence of saves, rollbacks and deletions of partitions,
  failing ones and lost answers included, the versions of each partition are consecutive numbers, at most a hundred of
  them, and every stored value is a normalised text that the YAML parser accepts.
\<close>

theorem config_runs_keep_table:
  assumes "config_db E view" and "table_wf E (view r)"
  shows "table_wf E (view (fold (config_run E) ops r))"
  by (rule config_db.config_runs_wf [OF assms])

definition demo_ops :: "config_op list" where
  "demo_ops = [OpSave ''shop'' ''DEFAULT'' ''port:80'' True, OpSave ''shop'' ''DEFAULT'' ''port: 81'' True, OpRollback ''shop'' ''DEFAULT'' 1 True]"

lemma empty_table_wf: "table_wf mem_config (map_of [])"
  by (auto simp: table_wf_def versions_def intro!: exI [of _ 0])

theorem config_runs_keep_table_witness: "table_wf mem_config (map_of (fold (config_run mem_config) demo_ops []))"
  using config_runs_keep_table [OF mem_config.config_db_axioms empty_table_wf] .

text \<open>
  A rollback restores the value exactly: when it succeeds, the current version is the one it returns and has
  the very text of the version rolled back to (normalising a stored text again changes nothing), and the other versions of
  the last hundred are as before, so that the rollback can be undone in turn.
\<close>

theorem rollback_restores_value:
  assumes "config_db E view" and "table_wf E (view r)"
    and "view r (app, ty, n) = Some (v, t)" and "Rollback E app ty n push r = (Inr m, r')"
  shows "is_max (versions (view r') app ty) m \<and> (\<exists>t. view r' (app, ty, m) = Some (v, t)) \<and>
    (\<forall>k. k \<noteq> m \<longrightarrow> m - 100 < k \<longrightarrow> view r' (app, ty, k) = view r (app, ty, k))"
  by (rule config_db.Rollback_restores [OF assms(1,2,4,3)])

theorem rollback_restores_value_witness:
  "\<exists>t. map_of (snd (Rollback mem_config ''shop'' ''DEFAULT'' 1 True (fold (config_run mem_config) (take 2 demo_ops) [])))
     (''shop'', ''DEFAULT'', 3) = Some (''port: 80'', t)"
proof -
  let ?r = "fold (config_run mem_config) (take 2 demo_ops) []"
  have wf: "table_wf mem_config (map_of ?r)" by (rule mem_config.config_runs_wf [OF empty_table_wf])
  have v: "map_of ?r (''shop'', ''DEFAULT'', 1) = Some (''port: 80'', 0)" by code_simp
  have "fst (Rollback mem_config ''shop'' ''DEFAULT'' 1 True ?r) = Inr 3" by code_simp
  then have "Rollback mem_config ''shop'' ''DEFAULT'' 1 True ?r = (Inr 3, snd (Rollback mem_config ''shop'' ''DEFAULT'' 1 True ?r))"
    by (metis prod.collapse)
  from rollback_restores_value [OF mem_config.config_db_axioms wf v this] show ?thesis by blast
qed

end
