(* ===== verification/Access_Key_Service.thy ===== *)
theory Access_Key_Service
  imports Domain Runes Authzcore
begin

text \<open>
  Administration of access keys and the material handed to the SDK (\<^verbatim>\<open>internal/service/accesskey.go\<close>, with
  \<^verbatim>\<open>publishEvent\<close> of \<^verbatim>\<open>events.go\<close>). PostgreSQL (one function per statement), the random source, the
  publisher and the parsing of addresses are parameters. Instants are nanoseconds since the Unix epoch.
\<close>

section \<open>Parameters\<close>

text \<open>The outcome of a statement that writes a row.\<close>

datatype 'a sql_res = Row 'a | NoRow | UniqueViolation | ForeignKeyViolation

text \<open>The assignments of an \<^verbatim>\<open>UPDATE access_key SET\<close>.\<close>

datatype 'ip ak_set =
    SetRemark string
  | SetRoleKey "string option"
  | SetExpiresAt "int option"
  | SetAllowedIPs "'ip list"
  | SetStatusColumn string

record ('ip, 'addr) prefix_ops =
  px_ParsePrefix :: "string \<Rightarrow> 'ip option"
  px_Masked :: "'ip \<Rightarrow> 'ip"
  px_ParseAddr :: "string \<Rightarrow> 'addr option"
  px_Unmap :: "'addr \<Rightarrow> 'addr"
  px_Single :: "'addr \<Rightarrow> 'ip"

record ('r, 'ip, 'addr) ak_env =
  ak_now :: "'r \<Rightarrow> int"
  ak_rand :: "('r, string) io"
  ak_randomToken :: "('r, string) io"
  ak_net :: "('ip, 'addr) prefix_ops"
  sql_ak_insert :: "string \<Rightarrow> string \<Rightarrow> string \<Rightarrow> string option \<Rightarrow> 'ip list \<Rightarrow> int option \<Rightarrow> ('r, 'ip AccessKey sql_res) io"
  sql_ak_list :: "string option \<Rightarrow> ('r, 'ip AccessKey list) io"
  sql_ak_get :: "uuid \<Rightarrow> ('r, 'ip AccessKey option) io"
  sql_ak_update :: "uuid \<Rightarrow> 'ip ak_set list \<Rightarrow> ('r, 'ip AccessKey sql_res) io"
  sql_ak_delete :: "uuid \<Rightarrow> ('r, string option) io"
  sql_ak_by_key :: "string \<Rightarrow> ('r, 'ip AccessKey option) io"
  sql_ak_usage :: "(string \<times> int) list \<Rightarrow> ('r, unit) io"
  ak_has_pub :: bool
  ak_Publish :: "RevokeEvent \<Rightarrow> ('r, unit) io"

record CreateAccessKeyInput =
  cak_Remark :: string
  cak_RoleKey :: string
  cak_ValidDays :: int
  cak_AllowedIPs :: "string list"

record UpdateAccessKeyInput =
  uak_Remark :: "string option"
  uak_RoleKey :: "string option"
  uak_ValidDays :: "int option"
  uak_AllowedIPs :: "string list option"

record 'ip AccessKeyMaterial =
  mat_Key :: "'ip AccessKey"
  mat_CacheTTL :: int

definition CodeAccessKeyNotFound :: string where "CodeAccessKeyNotFound = ''ACCESS_KEY_NOT_FOUND''"
definition CodeRoleBuiltin :: string where "CodeRoleBuiltin = ''ROLE_BUILTIN''"
definition CodeRoleNotFound :: string where "CodeRoleNotFound = ''ROLE_NOT_FOUND''"
definition MaxAllowedIPs :: nat where "MaxAllowedIPs = 50"

abbreviation ak_invalid :: goerr where
  "ak_invalid \<equiv> DomainErr ErrInvalidArgument ''INVALID_ARGUMENT''"

abbreviation ak_not_found :: goerr where
  "ak_not_found \<equiv> DomainErr ErrNotFound CodeAccessKeyNotFound"

abbreviation role_not_found :: goerr where
  "role_not_found \<equiv> DomainErr ErrNotFound CodeRoleNotFound"

section \<open>Identifiers\<close>

definition accessKeyIDAlphabet :: string where
  "accessKeyIDAlphabet = ''ABCDEFGHIJKLMNOPQRSTUVWXYZ0123456789''"

text \<open>The character a random byte stands for; the last four values are rejected.\<close>

definition id_char :: "nat \<Rightarrow> char option" where
  "id_char b = (if b \<ge> 252 then None else Some (accessKeyIDAlphabet ! (b mod 36)))"

fun take_block :: "string \<Rightarrow> string \<Rightarrow> string" where
  "take_block [] out = out"
| "take_block (b # bs) out =
     (case id_char (byte b) of
        None \<Rightarrow> take_block bs out
      | Some c \<Rightarrow> if length (out @ [c]) = 24 then out @ [c] else take_block bs (out @ [c]))"

text \<open>The loop over blocks of random bytes; it has no bound, so not returning is the value \<^verbatim>\<open>None\<close>.\<close>

partial_function (option) id_loop :: "('r, string) io \<Rightarrow> string \<Rightarrow> 'r \<Rightarrow> ((goerr + string) \<times> 'r) option" where
  "id_loop rnd out r =
     (if length out < 24
      then (case rnd r of
              (Inl e, r') \<Rightarrow> Some (Inl (Wrapped ''service: rand''), r')
            | (Inr buf, r') \<Rightarrow> id_loop rnd (take_block buf out) r')
      else Some (Inr out, r))"

definition newAccessKeyID :: "('r, string) io \<Rightarrow> 'r \<Rightarrow> ((goerr + string) \<times> 'r) option" where
  "newAccessKeyID rnd r = id_loop rnd ''FPAK'' r"

text \<open>How many of the bytes of the next \<^verbatim>\<open>n\<close> blocks are not rejected.\<close>

fun accepted :: "('r, string) io \<Rightarrow> nat \<Rightarrow> 'r \<Rightarrow> nat" where
  "accepted rnd 0 r = 0"
| "accepted rnd (Suc n) r =
     (case rnd r of
        (Inl e, _) \<Rightarrow> 0
      | (Inr buf, r') \<Rightarrow> length (filter (\<lambda>b. byte b < 252) buf) + accepted rnd n r')"

section \<open>Checks\<close>

definition checkRemark :: "string \<Rightarrow> goerr + string" where
  "checkRemark remark = (let r = TrimSpace remark in if r = [] then Inl ak_invalid else Inr r)"

definition checkRoleKey :: "string \<Rightarrow> goerr + string option" where
  "checkRoleKey roleKey =
     (if roleKey = [] then Inr None
      else if roleKey = GuestRoleKey then Inl (DomainErr ErrInvalidArgument CodeRoleBuiltin)
      else Inr (Some roleKey))"

text \<open>\<^verbatim>\<open>time.Duration(days) * 24 * time.Hour\<close> is a product of 64-bit integers.\<close>

definition expiresAt :: "int \<Rightarrow> int \<Rightarrow> goerr + int option" where
  "expiresAt t days =
     (if days < 0 then Inl ak_invalid
      else if days = 0 then Inr None
      else Inr (Some (t + wrap64 (days * 24 * 3600 * ns_per_s))))"

fun allowed_loop :: "('ip, 'addr) prefix_ops \<Rightarrow> string list \<Rightarrow> goerr + 'ip list" where
  "allowed_loop N [] = Inr []"
| "allowed_loop N (raw # raws) =
     (let s = TrimSpace raw
      in if s = [] then allowed_loop N raws
         else case (if CHR ''/'' \<in> set s then map_option (px_Masked N) (px_ParsePrefix N s)
                    else map_option (\<lambda>a. px_Single N (px_Unmap N a)) (px_ParseAddr N s)) of
           None \<Rightarrow> Inl ak_invalid
         | Some p \<Rightarrow> (case allowed_loop N raws of Inl e \<Rightarrow> Inl e | Inr ps \<Rightarrow> Inr (p # ps)))"

definition normalizeAllowedIPs :: "('ip, 'addr) prefix_ops \<Rightarrow> string list \<Rightarrow> goerr + 'ip list" where
  "normalizeAllowedIPs N raws =
     (case allowed_loop N raws of
        Inl e \<Rightarrow> Inl e
      | Inr out \<Rightarrow> if length out > MaxAllowedIPs then Inl ak_invalid else Inr out)"

section \<open>Operations\<close>

definition lift_sum :: "goerr + 'a \<Rightarrow> ('r, 'a) io" where
  "lift_sum x = (case x of Inl e \<Rightarrow> throw e | Inr v \<Rightarrow> ret v)"

text \<open>\<^verbatim>\<open>publishEvent\<close>: without a publisher nothing happens, an error is only logged.\<close>

definition publishEvent :: "('r, 'ip, 'addr) ak_env \<Rightarrow> RevokeEvent \<Rightarrow> 'r \<Rightarrow> 'r" where
  "publishEvent E ev r = (if \<not> ak_has_pub E then r else snd (ak_Publish E ev r))"

definition ak_announce :: "('r, 'ip, 'addr) ak_env \<Rightarrow> string \<Rightarrow> 'r \<Rightarrow> 'r" where
  "ak_announce E akID r =
     publishEvent E \<lparr>ev_Tokens = [], ev_UserIDs = [], ev_AppID = nil_uuid, ev_Reason = [], ev_At = ak_now E r div ns_per_ms,
                     ev_Kind = EventKindAccessKeyChanged, ev_AccessKeyID = akID\<rparr> r"

text \<open>The attempts of \<^verbatim>\<open>Create\<close>; \<^verbatim>\<open>None\<close> when an identifier is never found.\<close>

fun create_loop ::
  "('r, 'ip, 'addr) ak_env \<Rightarrow> nat \<Rightarrow> string \<Rightarrow> string \<Rightarrow> string option \<Rightarrow> 'ip list \<Rightarrow> int option \<Rightarrow> 'r \<Rightarrow>
     ((goerr + 'ip AccessKey) \<times> 'r) option" where
  "create_loop E 0 secret remark role ips expires r = Some (Inl (Wrapped ''service: access key ids taken''), r)"
| "create_loop E (Suc n) secret remark role ips expires r =
     (case newAccessKeyID (ak_rand E) r of
        None \<Rightarrow> None
      | Some (Inl e, r1) \<Rightarrow> Some (Inl e, r1)
      | Some (Inr akID, r1) \<Rightarrow>
          (case sql_ak_insert E akID secret remark role ips expires r1 of
             (Inl e, r2) \<Rightarrow> Some (Inl e, r2)
           | (Inr (Row k), r2) \<Rightarrow> Some (Inr k, r2)
           | (Inr UniqueViolation, r2) \<Rightarrow> create_loop E n secret remark role ips expires r2
           | (Inr ForeignKeyViolation, r2) \<Rightarrow> Some (Inl role_not_found, r2)
           | (Inr NoRow, r2) \<Rightarrow> Some (Inl (Wrapped ''service: create access key''), r2)))"

definition ak_Create ::
  "('r, 'ip, 'addr) ak_env \<Rightarrow> CreateAccessKeyInput \<Rightarrow> 'r \<Rightarrow> ((goerr + 'ip AccessKey) \<times> 'r) option" where
  "ak_Create E inp r =
     (case checkRemark (cak_Remark inp) of Inl e \<Rightarrow> Some (Inl e, r) | Inr remark \<Rightarrow>
      case checkRoleKey (cak_RoleKey inp) of Inl e \<Rightarrow> Some (Inl e, r) | Inr role \<Rightarrow>
      case expiresAt (ak_now E r) (cak_ValidDays inp) of Inl e \<Rightarrow> Some (Inl e, r) | Inr expires \<Rightarrow>
      case normalizeAllowedIPs (ak_net E) (cak_AllowedIPs inp) of Inl e \<Rightarrow> Some (Inl e, r) | Inr ips \<Rightarrow>
      case ak_randomToken E r of
        (Inl e, r1) \<Rightarrow> Some (Inl e, r1)
      | (Inr secret, r1) \<Rightarrow> create_loop E 3 secret remark role ips expires r1)"

definition ak_List :: "('r, 'ip, 'addr) ak_env \<Rightarrow> string \<Rightarrow> ('r, 'ip AccessKey list) io" where
  "ak_List E roleKey =
     bindE (sql_ak_list E (if roleKey \<noteq> [] then Some roleKey else None)) (\<lambda>ks. ret (map (\<lambda>k. k\<lparr>ak_Secret := []\<rparr>) ks))"

definition ak_Get :: "('r, 'ip, 'addr) ak_env \<Rightarrow> uuid \<Rightarrow> ('r, 'ip AccessKey) io" where
  "ak_Get E i =
     bindE (sql_ak_get E i) (\<lambda>x. case x of None \<Rightarrow> throw ak_not_found | Some k \<Rightarrow> ret (k\<lparr>ak_Secret := []\<rparr>))"

definition afterWrite :: "('r, 'ip, 'addr) ak_env \<Rightarrow> 'ip AccessKey sql_res \<Rightarrow> ('r, 'ip AccessKey) io" where
  "afterWrite E x =
     (case x of
        NoRow \<Rightarrow> throw ak_not_found
      | ForeignKeyViolation \<Rightarrow> throw role_not_found
      | UniqueViolation \<Rightarrow> throw (Wrapped ''service: update access key'')
      | Row k \<Rightarrow> (\<lambda>r. (Inr (k\<lparr>ak_Secret := []\<rparr>), ak_announce E (AccessKeyID k) r)))"

text \<open>One optional field of an update: absent, rejected or assigned.\<close>

definition opt_set :: "'a option \<Rightarrow> ('a \<Rightarrow> goerr + 'b) \<Rightarrow> ('b \<Rightarrow> 'ip ak_set) \<Rightarrow> goerr + 'ip ak_set list" where
  "opt_set x chk f =
     (case x of None \<Rightarrow> Inr [] | Some v \<Rightarrow> (case chk v of Inl e \<Rightarrow> Inl e | Inr w \<Rightarrow> Inr [f w]))"

definition ak_Update :: "('r, 'ip, 'addr) ak_env \<Rightarrow> uuid \<Rightarrow> UpdateAccessKeyInput \<Rightarrow> ('r, 'ip AccessKey) io" where
  "ak_Update E i inp =
     bindE (lift_sum (opt_set (uak_Remark inp) checkRemark SetRemark)) (\<lambda>s1.
     bindE (lift_sum (opt_set (uak_RoleKey inp) checkRoleKey SetRoleKey)) (\<lambda>s2.
     bindE (\<lambda>r. lift_sum (opt_set (uak_ValidDays inp) (expiresAt (ak_now E r)) SetExpiresAt) r) (\<lambda>s3.
     bindE (lift_sum (opt_set (uak_AllowedIPs inp) (normalizeAllowedIPs (ak_net E)) SetAllowedIPs)) (\<lambda>s4.
       if length (s1 @ s2 @ s3 @ s4) = 0 then throw ak_invalid
       else bindE (sql_ak_update E i (s1 @ s2 @ s3 @ s4)) (afterWrite E)))))"

definition ak_SetStatus :: "('r, 'ip, 'addr) ak_env \<Rightarrow> uuid \<Rightarrow> string \<Rightarrow> ('r, 'ip AccessKey) io" where
  "ak_SetStatus E i status =
     (if status \<noteq> AccessKeyStatusActive \<and> status \<noteq> AccessKeyStatusDisabled then throw ak_invalid
      else bindE (sql_ak_update E i [SetStatusColumn status]) (afterWrite E))"

definition ak_Delete :: "('r, 'ip, 'addr) ak_env \<Rightarrow> uuid \<Rightarrow> ('r, unit) io" where
  "ak_Delete E i =
     bindE (sql_ak_delete E i) (\<lambda>x. case x of
       None \<Rightarrow> throw ak_not_found | Some akID \<Rightarrow> (\<lambda>r. (Inr (), ak_announce E akID r)))"

text \<open>\<^verbatim>\<open>t.Sub(u)\<close> saturates.\<close>

definition time_Sub :: "int \<Rightarrow> int \<Rightarrow> int" where
  "time_Sub t u = max (- (2 ^ 63)) (min (2 ^ 63 - 1) (t - u))"

definition Resolve :: "('r, 'ip, 'addr) ak_env \<Rightarrow> Application \<Rightarrow> string \<Rightarrow> ('r, 'ip AccessKeyMaterial) io" where
  "Resolve E app accessKeyID =
     bindE (sql_ak_by_key E accessKeyID) (\<lambda>x r. case x of
       None \<Rightarrow> throw (DomainErr ErrUnauthorized ''ACCESS_KEY_INVALID'') r
     | Some k \<Rightarrow>
         let t = ak_now E r
         in case AccessKey_State k (t div ns_per_ms) of
              AccessKeyStateDisabled \<Rightarrow> throw (DomainErr ErrForbidden ''ACCESS_KEY_DISABLED'') r
            | AccessKeyStateExpired \<Rightarrow> throw (DomainErr ErrForbidden ''ACCESS_KEY_EXPIRED'') r
            | AccessKeyStateActive \<Rightarrow>
                let ttl = dur_seconds (TokenCacheTTLSeconds (app_Session app));
                    ttl = (if ExpiresAt k > 0 then min ttl (time_Sub (ExpiresAt k * ns_per_ms) t) else ttl)
                in ret \<lparr>mat_Key = k, mat_CacheTTL = max ttl 0\<rparr> r)"

definition minTime :: "int \<Rightarrow> int \<Rightarrow> int" where
  "minTime a b = (if a > b then b else a)"

definition RecordUsage :: "('r, 'ip, 'addr) ak_env \<Rightarrow> (string \<times> int) list \<Rightarrow> ('r, unit) io" where
  "RecordUsage E usages r =
     (if length usages = 0 then ret () r
      else sql_ak_usage E (map (\<lambda>(i, t). (i, minTime t (ak_now E r))) usages) r)"


section \<open>Identifiers are found\<close>

lemma id_char_Some: "id_char b = Some c \<longleftrightarrow> b < 252 \<and> c = accessKeyIDAlphabet ! (b mod 36)"
  by (auto simp: id_char_def)

lemma id_char_alphabet: "id_char b = Some c \<Longrightarrow> c \<in> set accessKeyIDAlphabet"
proof -
  assume "id_char b = Some c"
  then have "c = accessKeyIDAlphabet ! (b mod 36)" by (simp add: id_char_Some)
  moreover have "b mod 36 < length accessKeyIDAlphabet" by (simp add: accessKeyIDAlphabet_def)
  ultimately show ?thesis by (metis nth_mem)
qed

text \<open>What a block adds: all its accepted bytes, or as many as are missing.\<close>

lemma take_block_spec:
  assumes "length out < 24"
  shows "\<exists>cs. take_block bs out = out @ cs \<and> set cs \<subseteq> set accessKeyIDAlphabet \<and>
    length (out @ cs) = min 24 (length out + length (filter (\<lambda>b. byte b < 252) bs))"
  using assms
proof (induction bs out rule: take_block.induct)
  case (2 b bs out)
  show ?case
  proof (cases "id_char (byte b)")
    case None
    then have "\<not> byte b < 252" by (auto simp: id_char_def)
    then show ?thesis using 2 None by simp
  next
    case (Some c)
    then have b: "byte b < 252" "c \<in> set accessKeyIDAlphabet" by (auto simp: id_char_Some intro: id_char_alphabet)
    show ?thesis
    proof (cases "length (out @ [c]) = 24")
      case True
      then show ?thesis using Some b by (intro exI [of _ "[c]"]) simp
    next
      case False
      then have "length (out @ [c]) < 24" using 2(3) by simp
      from 2(2) [OF Some False this] obtain cs where "take_block bs (out @ [c]) = (out @ [c]) @ cs"
          "set cs \<subseteq> set accessKeyIDAlphabet" "length ((out @ [c]) @ cs) = min 24 (length (out @ [c]) + length (filter (\<lambda>b. byte b < 252) bs))"
        by blast
      then show ?thesis using Some False b by (intro exI [of _ "c # cs"]) simp
    qed
  qed
qed simp

lemma id_loop_returns:
  assumes "\<And>r. \<exists>buf r'. rnd r = (Inr buf, r')" and "length out \<le> 24" and "24 \<le> length out + accepted rnd n r"
  shows "\<exists>cs r'. id_loop rnd out r = Some (Inr (out @ cs), r') \<and> length (out @ cs) = 24 \<and> set cs \<subseteq> set accessKeyIDAlphabet"
  using assms(2,3)
proof (induction n arbitrary: out r)
  case 0
  then have "length out = 24" by simp
  then show ?case by (intro exI [of _ "[]"]) (simp add: id_loop.simps)
next
  case (Suc n)
  show ?case
  proof (cases "length out < 24")
    case False
    then have "length out = 24" using Suc.prems by simp
    then show ?thesis by (intro exI [of _ "[]"]) (simp add: id_loop.simps)
  next
    case True
    obtain buf r1 where b: "rnd r = (Inr buf, r1)" using assms(1) by blast
    obtain cs where cs: "take_block buf out = out @ cs" "set cs \<subseteq> set accessKeyIDAlphabet"
        "length (out @ cs) = min 24 (length out + length (filter (\<lambda>b. byte b < 252) buf))"
      using take_block_spec [OF True] by blast
    have "length (out @ cs) \<le> 24" "24 \<le> length (out @ cs) + accepted rnd n r1"
      using cs(3) Suc.prems(2) b by auto
    from Suc.IH [OF this] obtain ds r' where "id_loop rnd (out @ cs) r1 = Some (Inr ((out @ cs) @ ds), r')"
        "length ((out @ cs) @ ds) = 24" "set ds \<subseteq> set accessKeyIDAlphabet" by blast
    moreover have "id_loop rnd out r = id_loop rnd (out @ cs) r1" using True b cs(1) by (simp add: id_loop.simps [of rnd out])
    ultimately show ?thesis using cs(2) by (intro exI [of _ "cs @ ds"]) simp
  qed
qed

text \<open>Without accepted bytes there is no identifier: the loop does not return.\<close>

lemma id_loop_needs_bytes:
  "id_loop rnd out r = Some y \<Longrightarrow> (\<forall>r. \<exists>buf r'. rnd r = (Inr buf, r') \<and> list_all (\<lambda>b. byte b \<ge> 252) buf) \<longrightarrow>
     24 \<le> length out"
proof (induction rule: id_loop.raw_induct [rotated, consumes 1, case_names step])
  case (step id_loop rnd out r y)
  show ?case
  proof (rule impI, rule ccontr)
    assume h: "\<forall>r. \<exists>buf r'. rnd r = (Inr buf, r') \<and> list_all (\<lambda>b. byte b \<ge> 252) buf"
    assume "\<not> 24 \<le> length out"
    then have l: "length out < 24" by simp
    obtain buf r' where b: "rnd r = (Inr buf, r')" "list_all (\<lambda>b. byte b \<ge> 252) buf" using h by blast
    then have "filter (\<lambda>b. byte b < 252) buf = []" by (auto simp: list_all_iff filter_empty_conv)
    then have "take_block buf out = out" using take_block_spec [OF l, of buf] l by auto
    then have "id_loop rnd out r' = Some y" using step(2) l b by simp
    then have "24 \<le> length out" using step(1) h by blast
    then show False using l by simp
  qed
qed

section \<open>An in-memory world\<close>

record ak_world =
  kw_keys :: "string AccessKey list"
  kw_events :: "RevokeEvent list"
  kw_seed :: nat

definition demo_ak :: "(ak_world, string, string) ak_env" where
  "demo_ak = \<lparr>ak_now = (\<lambda>w. 1000 * ns_per_s),
     ak_rand = (\<lambda>w. (Inr (map (\<lambda>i. char_of ((kw_seed w * 32 + i) mod 256)) [0..<32]), w\<lparr>kw_seed := Suc (kw_seed w)\<rparr>)),
     ak_randomToken = (\<lambda>w. (Inr ''sk'', w)),
     ak_net = \<lparr>px_ParsePrefix = Some, px_Masked = (\<lambda>p. p), px_ParseAddr = Some, px_Unmap = (\<lambda>a. a), px_Single = (\<lambda>a. a @ ''/32'')\<rparr>,
     sql_ak_insert = (\<lambda>akID secret remark role ips expires w.
       let k = \<lparr>ak_ID = akID, AccessKeyID = akID, ak_Secret = secret, Remark = remark,
         ak_RoleKey = (case role of None \<Rightarrow> [] | Some x \<Rightarrow> x), AllowedIPs = ips, ak_Status = AccessKeyStatusActive,
         ExpiresAt = (case expires of None \<Rightarrow> 0 | Some t \<Rightarrow> t div ns_per_ms), LastUsedAt = 0, ak_CreatedAt = 0, ak_UpdatedAt = 0\<rparr>
       in if list_ex (\<lambda>k'. AccessKeyID k' = akID) (kw_keys w) then (Inr UniqueViolation, w)
          else (Inr (Row k), w\<lparr>kw_keys := k # kw_keys w\<rparr>)),
     sql_ak_list = (\<lambda>role w. (Inr (filter (\<lambda>k. case role of None \<Rightarrow> True | Some x \<Rightarrow> ak_RoleKey k = x) (kw_keys w)), w)),
     sql_ak_get = (\<lambda>i w. (Inr (List.find (\<lambda>k. ak_ID k = i) (kw_keys w)), w)),
     sql_ak_update = (\<lambda>i sets w. case List.find (\<lambda>k. ak_ID k = i) (kw_keys w) of None \<Rightarrow> (Inr NoRow, w)
       | Some k \<Rightarrow> (let k' = fold (\<lambda>s k. case s of SetRemark x \<Rightarrow> k\<lparr>Remark := x\<rparr>
             | SetRoleKey x \<Rightarrow> k\<lparr>ak_RoleKey := (case x of None \<Rightarrow> [] | Some y \<Rightarrow> y)\<rparr>
             | SetExpiresAt x \<Rightarrow> k\<lparr>ExpiresAt := (case x of None \<Rightarrow> 0 | Some t \<Rightarrow> t div ns_per_ms)\<rparr>
             | SetAllowedIPs x \<Rightarrow> k\<lparr>AllowedIPs := x\<rparr> | SetStatusColumn x \<Rightarrow> k\<lparr>ak_Status := x\<rparr>) sets k
           in (Inr (Row k'), w\<lparr>kw_keys := map (\<lambda>k0. if ak_ID k0 = i then k' else k0) (kw_keys w)\<rparr>))),
     sql_ak_delete = (\<lambda>i w. case List.find (\<lambda>k. ak_ID k = i) (kw_keys w) of None \<Rightarrow> (Inr None, w)
       | Some k \<Rightarrow> (Inr (Some (AccessKeyID k)), w\<lparr>kw_keys := filter (\<lambda>k0. ak_ID k0 \<noteq> i) (kw_keys w)\<rparr>)),
     sql_ak_by_key = (\<lambda>a w. (Inr (List.find (\<lambda>k. AccessKeyID k = a) (kw_keys w)), w)),
     sql_ak_usage = (\<lambda>us w. (Inr (), w)),
     ak_has_pub = True, ak_Publish = (\<lambda>ev w. (Inr (), w\<lparr>kw_events := kw_events w @ [ev]\<rparr>))\<rparr>"

definition demo_ak_world :: ak_world where
  "demo_ak_world = \<lparr>kw_keys = [], kw_events = [], kw_seed = 0\<rparr>"

definition demo_created :: ak_world where
  "demo_created = \<lparr>kw_keys = [\<lparr>ak_ID = ''k1'', AccessKeyID = ''FPAK1'', ak_Secret = ''sk'', Remark = ''partner'',
     ak_RoleKey = ''reader'', AllowedIPs = [], ak_Status = AccessKeyStatusActive, ExpiresAt = 1030000, LastUsedAt = 0,
     ak_CreatedAt = 0, ak_UpdatedAt = 0\<rparr>], kw_events = [], kw_seed = 0\<rparr>"

definition demo_ak_app :: Application where
  "demo_ak_app = \<lparr>app_ID = ''A'', app_Name = [], app_Code = [], app_AppID = ''shop'', app_Status = [],
     app_Session = DefaultSessionPolicy, CookieDomain = [], DefaultRoleKey = [], RedirectURIs = [], GrantTypes = [],
     app_IM = DefaultIMConfig, app_CreatedAt = 0, app_UpdatedAt = 0\<rparr>"

section \<open>Properties\<close>

text \<open>
  The generation of key ids returns as soon as the random source has given twenty bytes below 252, however
  many it rejects in between: it returns the prefix and twenty characters of the alphabet; and no character is more likely than
  another, the accepted byte values run through the alphabet
  exactly seven times.
\<close>

theorem newAccessKeyID_returns:
  assumes "\<And>r. \<exists>buf r'. rnd r = (Inr buf, r')" and "20 \<le> accepted rnd n r"
  shows "(\<exists>cs r'. newAccessKeyID rnd r = Some (Inr (''FPAK'' @ cs), r') \<and> length cs = 20 \<and> set cs \<subseteq> set accessKeyIDAlphabet) \<and>
    List.map_filter id_char [0..<256] = concat (replicate 7 accessKeyIDAlphabet)"
proof
  have "length ''FPAK'' \<le> 24" "24 \<le> length ''FPAK'' + accepted rnd n r" using assms(2) by simp_all
  from id_loop_returns [OF assms(1) this] obtain cs r' where
    "id_loop rnd ''FPAK'' r = Some (Inr (''FPAK'' @ cs), r')" "length (''FPAK'' @ cs) = 24" "set cs \<subseteq> set accessKeyIDAlphabet" by blast
  then show "\<exists>cs r'. newAccessKeyID rnd r = Some (Inr (''FPAK'' @ cs), r') \<and> length cs = 20 \<and> set cs \<subseteq> set accessKeyIDAlphabet"
    by (intro exI [of _ cs] exI [of _ r']) (simp add: newAccessKeyID_def)
  show "List.map_filter id_char [0..<256] = concat (replicate 7 accessKeyIDAlphabet)"
    by code_simp
qed

theorem newAccessKeyID_returns_witness:
  "\<exists>cs r'. newAccessKeyID (ak_rand demo_ak) demo_ak_world = Some (Inr (''FPAK'' @ cs), r') \<and> length cs = 20"
proof -
  have n: "20 \<le> accepted (ak_rand demo_ak) 1 demo_ak_world" by code_simp
  have "\<exists>buf r'. ak_rand demo_ak r = (Inr buf, r')" for r by (simp add: demo_ak_def)
  from newAccessKeyID_returns [OF this n] show ?thesis by blast
qed

text \<open>
  The SDK gets the material of a key only while the key is usable, and never for longer than it stays usable:
  what \<^verbatim>\<open>Resolve\<close> returns is the stored key with the id asked for, it is not disabled and not expired, and the time it may
  be cached is not negative, at most that of the application, and ends no later than the key does.
\<close>

theorem Resolve_is_sound:
  assumes "Resolve E app accessKeyID r = (Inr m, r')" and "0 \<le> TokenCacheTTLSeconds (app_Session app)"
    and "in_int32 (TokenCacheTTLSeconds (app_Session app))"
  shows "(\<exists>r1. sql_ak_by_key E accessKeyID r = (Inr (Some (mat_Key m)), r1) \<and>
      ak_Status (mat_Key m) \<noteq> AccessKeyStatusDisabled \<and> 0 \<le> mat_CacheTTL m \<and>
      mat_CacheTTL m \<le> TokenCacheTTLSeconds (app_Session app) * ns_per_s \<and>
      (ExpiresAt (mat_Key m) > 0 \<longrightarrow> ak_now E r1 + mat_CacheTTL m \<le> ExpiresAt (mat_Key m) * ns_per_ms))"
proof -
  obtain x r1 where q0: "sql_ak_by_key E accessKeyID r = (Inr x, r1)"
    and f: "(case x of
       None \<Rightarrow> throw (DomainErr ErrUnauthorized ''ACCESS_KEY_INVALID'') r1
     | Some k \<Rightarrow>
         let t = ak_now E r1
         in case AccessKey_State k (t div ns_per_ms) of
              AccessKeyStateDisabled \<Rightarrow> throw (DomainErr ErrForbidden ''ACCESS_KEY_DISABLED'') r1
            | AccessKeyStateExpired \<Rightarrow> throw (DomainErr ErrForbidden ''ACCESS_KEY_EXPIRED'') r1
            | AccessKeyStateActive \<Rightarrow>
                let ttl = dur_seconds (TokenCacheTTLSeconds (app_Session app));
                    ttl = (if ExpiresAt k > 0 then min ttl (time_Sub (ExpiresAt k * ns_per_ms) t) else ttl)
                in ret \<lparr>mat_Key = k, mat_CacheTTL = max ttl 0\<rparr> r1) = (Inr m, r')"
    using assms(1) unfolding Resolve_def by (rule bindE_InrE)
  obtain k where k: "x = Some k" using f by (cases x) simp_all
  have q: "sql_ak_by_key E accessKeyID r = (Inr (Some k), r1)" using q0 k by simp
  have st: "AccessKey_State k (ak_now E r1 div ns_per_ms) = AccessKeyStateActive"
    using f k by (cases "AccessKey_State k (ak_now E r1 div ns_per_ms)") (simp_all add: Let_def)
  have m: "m = \<lparr>mat_Key = k, mat_CacheTTL = max (if ExpiresAt k > 0
        then min (dur_seconds (TokenCacheTTLSeconds (app_Session app))) (time_Sub (ExpiresAt k * ns_per_ms) (ak_now E r1))
        else dur_seconds (TokenCacheTTLSeconds (app_Session app))) 0\<rparr>"
    using f k st by (simp add: Let_def)
  have d: "dur_seconds (TokenCacheTTLSeconds (app_Session app)) = TokenCacheTTLSeconds (app_Session app) * ns_per_s"
    by (rule dur_seconds_int32 [OF assms(3)])
  have nd: "ak_Status k \<noteq> AccessKeyStatusDisabled" using st by (auto simp: AccessKey_State_def split: if_splits)
  have ne: "ExpiresAt k > 0 \<Longrightarrow> ak_now E r1 \<le> ExpiresAt k * ns_per_ms"
  proof -
    assume "ExpiresAt k > 0"
    then have "ak_now E r1 div ns_per_ms < ExpiresAt k" using st nd by (auto simp: AccessKey_State_def split: if_splits)
    then show ?thesis by (simp add: div_less_iff_less_mult)
  qed
  show ?thesis
    using q nd ne assms(2) by (intro exI [of _ r1]) (auto simp: m d time_Sub_def max_def min_def)
qed


lemma demo_created_key:
  "fst (Resolve demo_ak (demo_ak_app) akID demo_created) = Inr m \<Longrightarrow>
     Resolve demo_ak demo_ak_app akID demo_created = (Inr m, snd (Resolve demo_ak demo_ak_app akID demo_created))"
  by (metis prod.collapse)

theorem Resolve_is_sound_witness:
  "\<exists>m. fst (Resolve demo_ak demo_ak_app ''FPAK1'' demo_created) = Inr m \<and> mat_CacheTTL m \<le> 30 * ns_per_s"
proof -
  define run where "run = fst (Resolve demo_ak demo_ak_app ''FPAK1'' demo_created)"
  have "case fst (Resolve demo_ak demo_ak_app ''FPAK1'' demo_created) of Inl e \<Rightarrow> False | Inr m \<Rightarrow> True"
    by code_simp
  then have "case run of Inl e \<Rightarrow> False | Inr m \<Rightarrow> True" by (simp only: run_def)
  then obtain m where "run = Inr m" by (cases run) simp_all
  then have m: "fst (Resolve demo_ak demo_ak_app ''FPAK1'' demo_created) = Inr m" by (simp only: run_def)
  have t: "TokenCacheTTLSeconds (app_Session demo_ak_app) = 30" by (simp add: demo_ak_app_def DefaultSessionPolicy_def)
  have "0 \<le> TokenCacheTTLSeconds (app_Session demo_ak_app)" "in_int32 (TokenCacheTTLSeconds (app_Session demo_ak_app))"
    by (simp_all add: t in_int32_def)
  from Resolve_is_sound [OF demo_created_key [OF m] this]
  have "mat_CacheTTL m \<le> TokenCacheTTLSeconds (app_Session demo_ak_app) * ns_per_s" by blast
  then have "mat_CacheTTL m \<le> 30 * ns_per_s" by (simp only: t)
  then show ?thesis using m by blast
qed

lemma publishEvent_appends:
  assumes "ak_has_pub E" and "\<And>ev r. \<exists>r'. ak_Publish E ev r = (Inr (), r') \<and> published r' = published r @ [ev]"
  shows "published (publishEvent E ev r) = published r @ [ev]"
  using assms(2) [of ev r] assms(1) by (auto simp: publishEvent_def)

lemma afterWrite_Inr:
  assumes "ak_has_pub E" and "\<And>ev r. \<exists>r'. ak_Publish E ev r = (Inr (), r') \<and> published r' = published r @ [ev]"
    and "afterWrite E x r = (Inr k, r')"
  shows "ak_Secret k = [] \<and> (\<exists>ev. published r' = published r @ [ev] \<and> ev_Kind ev = EventKindAccessKeyChanged \<and>
    ev_AccessKeyID ev = AccessKeyID k \<and> ev_AppID ev = nil_uuid)"
  using assms(3) publishEvent_appends [OF assms(1,2)]
  by (auto simp: afterWrite_def ak_announce_def split: sql_res.splits)

lemma keeps_lift_sum: "keeps obs (lift_sum x)"
  by (auto simp: lift_sum_def keeps_def split: sum.split)

text \<open>
  Every successful change of a key, of its status too, is announced to all applications with the id of that
  key, which is what lets their SDKs drop the material they hold; and the secret never comes back from a change.
\<close>

theorem changes_are_announced_without_secret:
  assumes "ak_has_pub E" and "\<And>ev r. \<exists>r'. ak_Publish E ev r = (Inr (), r') \<and> published r' = published r @ [ev]"
    and "\<And>i sets. keeps published (sql_ak_update E i sets)"
    and "ak_SetStatus E i status r = (Inr k, r') \<or> ak_Update E i inp r = (Inr k, r')"
  shows "ak_Secret k = [] \<and> (\<exists>ev. published r' = published r @ [ev] \<and> ev_Kind ev = EventKindAccessKeyChanged \<and>
    ev_AccessKeyID ev = AccessKeyID k \<and> ev_AppID ev = nil_uuid)"
proof -
  obtain sets r0 where u: "bindE (sql_ak_update E i sets) (afterWrite E) r0 = (Inr k, r')" and r0: "published r0 = published r"
  proof (cases "ak_SetStatus E i status r = (Inr k, r')")
    case True
    then have "bindE (sql_ak_update E i [SetStatusColumn status]) (afterWrite E) r = (Inr k, r')"
      by (simp add: ak_SetStatus_def split: if_splits)
    then show ?thesis using that by blast
  next
    case False
    then have a: "ak_Update E i inp r = (Inr k, r')" using assms(4) by blast
    obtain s1 r1 s2 r2 s3 r3 s4 r4 where
      1: "lift_sum (opt_set (uak_Remark inp) checkRemark SetRemark) r = (Inr s1, r1)" and
      2: "lift_sum (opt_set (uak_RoleKey inp) checkRoleKey SetRoleKey) r1 = (Inr s2, r2)" and
      3: "lift_sum (opt_set (uak_ValidDays inp) (expiresAt (ak_now E r2)) SetExpiresAt) r2 = (Inr s3, r3)" and
      4: "lift_sum (opt_set (uak_AllowedIPs inp) (normalizeAllowedIPs (ak_net E)) SetAllowedIPs) r3 = (Inr s4, r4)" and
      5: "(if length (s1 @ s2 @ s3 @ s4) = 0 then throw ak_invalid
           else bindE (sql_ak_update E i (s1 @ s2 @ s3 @ s4)) (afterWrite E)) r4 = (Inr k, r')"
      using a unfolding ak_Update_def bindE_Inr_iff by blast
    have "published r4 = published r"
      using keepsD [OF keeps_lift_sum 1, of published] keepsD [OF keeps_lift_sum 2, of published]
        keepsD [OF keeps_lift_sum 3, of published] keepsD [OF keeps_lift_sum 4, of published] by simp
    moreover have "bindE (sql_ak_update E i (s1 @ s2 @ s3 @ s4)) (afterWrite E) r4 = (Inr k, r')"
    proof -
      have "length (s1 @ s2 @ s3 @ s4) \<noteq> 0" using 5 by (auto simp del: length_0_conv split: if_splits)
      then show ?thesis using 5 by (simp only: if_False)
    qed
    ultimately show ?thesis using that by blast
  qed
  obtain x rx where "sql_ak_update E i sets r0 = (Inr x, rx)" "afterWrite E x rx = (Inr k, r')"
    using u by (rule bindE_InrE)
  then show ?thesis
    using afterWrite_Inr [OF assms(1,2), of x rx k r'] keepsD [OF assms(3)] r0 by simp
qed

theorem changes_are_announced_without_secret_witness:
  "\<exists>ev. kw_events (snd (ak_SetStatus demo_ak ''k1'' AccessKeyStatusDisabled demo_created)) = [ev] \<and>
     ev_Kind ev = EventKindAccessKeyChanged"
proof -
  let ?run = "ak_SetStatus demo_ak ''k1'' AccessKeyStatusDisabled demo_created"
  have "case fst ?run of Inl e \<Rightarrow> False | Inr k \<Rightarrow> True" by code_simp
  then obtain k where "fst ?run = Inr k" by (auto split: sum.splits)
  then have r: "?run = (Inr k, snd ?run)" by (metis prod.collapse)
  have e: "kw_events demo_created = []" by code_simp
  have p: "ak_has_pub demo_ak" "\<exists>r'. ak_Publish demo_ak ev w = (Inr (), r') \<and> kw_events r' = kw_events w @ [ev]"
    "keeps kw_events (sql_ak_update demo_ak i sets)" for ev w i sets
    by (auto simp: demo_ak_def keeps_def Let_def split: option.splits)
  from changes_are_announced_without_secret [where published = kw_events, OF p disjI1 [OF r]]
  obtain ev where "kw_events (snd ?run) = kw_events demo_created @ [ev]" "ev_Kind ev = EventKindAccessKeyChanged" by blast
  then show ?thesis unfolding e append_Nil by blast
qed

text \<open>
  The number of days has no upper bound, and the product wraps around: a key made valid for 106752 days (some 292
  years) has expired before it is created.
\<close>

lemma expiresAt_wraps: "expiresAt t 106752 = Inr (Some (t - 9223371273709551616))"
proof -
  have "wrap64 (106752 * 24 * 3600 * ns_per_s) = - 9223371273709551616" by code_simp
  then show ?thesis by (simp add: expiresAt_def)
qed

end
