(* ===== verification/Im_Model.thy ===== *)
theory Im_Model
  imports Runes "HOL-Library.Word" "HOL-Library.Char_ord" "HOL-Library.List_Lexorder" "HOL-Library.Product_Lexorder"
    "HOL-Library.Multiset"
begin

unbundle bit_operations_syntax

text \<open>
  The pure part of the instant messaging gateway: subjects, keys and application settings
  (\<^verbatim>\<open>internal/im/model\<close>), rendezvous hashing (\<^verbatim>\<open>internal/im/rendezvous\<close>) and the envelopes the nodes
  exchange (\<^verbatim>\<open>internal/im/bus/envelope.go\<close>). The parser of UUIDs is a parameter that gives the version.
\<close>

section \<open>Subjects\<close>

datatype SubjectKind = KindUser | KindGuest | KindBiz

fun kind_str :: "SubjectKind \<Rightarrow> string" where
  "kind_str KindUser = ''u''"
| "kind_str KindGuest = ''g''"
| "kind_str KindBiz = ''b''"

record Subject =
  sub_Kind :: SubjectKind
  sub_ID :: string

definition Subject_User :: "string \<Rightarrow> Subject" where "Subject_User i = \<lparr>sub_Kind = KindUser, sub_ID = i\<rparr>"
definition Subject_Guest :: "string \<Rightarrow> Subject" where "Subject_Guest i = \<lparr>sub_Kind = KindGuest, sub_ID = i\<rparr>"
definition Subject_Biz :: "string \<Rightarrow> Subject" where "Subject_Biz i = \<lparr>sub_Kind = KindBiz, sub_ID = i\<rparr>"

definition Subject_String :: "Subject \<Rightarrow> string" where
  "Subject_String s = kind_str (sub_Kind s) @ '':'' @ sub_ID s"

text \<open>
  \<^verbatim>\<open>strings.ToLower(s) != s\<close> is decided here by the ASCII letters; a byte outside ASCII is no hexadecimal
  digit, so \<^verbatim>\<open>uuid.Parse\<close> refuses it.
\<close>

definition IsUUIDv4 :: "(string \<Rightarrow> nat option) \<Rightarrow> string \<Rightarrow> bool" where
  "IsUUIDv4 uuid_Parse s =
     (if length s \<noteq> 36 \<or> list_ex (byte_in (CHR ''A'') (CHR ''Z'')) s then False else uuid_Parse s = Some 4)"

definition MaxUserIDLen :: nat where "MaxUserIDLen = 128"

definition ErrBadUserID :: goerr where "ErrBadUserID = Wrapped ''model: bad user id''"
definition ErrBadSubject :: goerr where "ErrBadSubject = Wrapped ''model: bad subject''"

definition ValidateUserID :: "string \<Rightarrow> goerr option" where
  "ValidateUserID i =
     (if i = [] then Some ErrBadUserID
      else if length i > MaxUserIDLen then Some ErrBadUserID
      else if CHR 0x00 \<in> set i then Some ErrBadUserID
      else None)"

definition ParseSubject :: "(string \<Rightarrow> nat option) \<Rightarrow> string \<Rightarrow> goerr + Subject" where
  "ParseSubject uuid_Parse s =
     (case str_Cut s (CHR '':'') of (kind, i, ok) \<Rightarrow>
        if \<not> ok \<or> i = [] then Inl ErrBadSubject
        else if kind = kind_str KindUser then Inr (Subject_User i)
        else if kind = kind_str KindGuest
          then (if \<not> IsUUIDv4 uuid_Parse i then Inl ErrBadSubject else Inr (Subject_Guest i))
        else if kind = kind_str KindBiz
          then (if ValidateUserID i \<noteq> None then Inl ErrBadSubject else Inr (Subject_Biz i))
        else Inl ErrBadSubject)"

section \<open>Keys\<close>

definition KeyNodes :: string where "KeyNodes = ''fp:im:node''"
definition SrvKey :: "string \<Rightarrow> string" where "SrvKey app = ''fp:im:srv:'' @ app"
definition ConnKey :: "string \<Rightarrow> string \<Rightarrow> string" where
  "ConnKey app subject = ''fp:im:{'' @ app @ '':'' @ subject @ ''}:conn''"
definition NodeChannel :: "string \<Rightarrow> string" where "NodeChannel nodeID = ''fp:im:node:'' @ nodeID"

section \<open>Settings of an application\<close>

datatype Policy = PolicyReplace | PolicyReject | PolicyLimit | PolicyNone | PolicyOther string

record BizAuth =
  ba_VerifyURL :: string
  ba_Timeout :: int
  ba_CacheSize :: int

record AppConfig =
  ac_AppID :: string
  ac_ConnPolicy :: Policy
  ac_ConnLimit :: int
  ac_AllowGuest :: bool
  ac_GuestIPRate :: int
  ac_BizAuth :: "BizAuth option"

definition AppConfig_Validate :: "AppConfig \<Rightarrow> bool" where
  "AppConfig_Validate c =
     (if ac_AppID c = [] then False
      else if (case ac_ConnPolicy c of
                 PolicyReplace \<Rightarrow> False | PolicyReject \<Rightarrow> False
               | PolicyLimit \<Rightarrow> ac_ConnLimit c < 1
               | _ \<Rightarrow> True) then False
      else if ac_AllowGuest c \<and> ac_GuestIPRate c < 1 then False
      else case ac_BizAuth c of
        None \<Rightarrow> True
      | Some b \<Rightarrow>
          if ba_VerifyURL b = [] then False
          else if ba_Timeout b \<le> 0 then False
          else if ba_CacheSize b \<le> 0 then False
          else True)"

section \<open>Connections\<close>

record ConnMeta =
  cm_Node :: string
  cm_OS :: string
  cm_Mobile :: bool
  cm_At :: int

definition EventConnected :: string where "EventConnected = ''connected''"
definition EventDisconnected :: string where "EventDisconnected = ''disconnected''"

record EventBody =
  eb_Kind :: string
  eb_OS :: string
  eb_Mobile :: bool
  eb_UA :: string
  eb_Reason :: string
  eb_At :: int

definition str_Contains :: "string \<Rightarrow> string \<Rightarrow> bool" where
  "str_Contains s p = (str_Index s p \<noteq> None)"

definition ParseUA :: "string \<Rightarrow> string \<times> bool" where
  "ParseUA ua =
     (if str_Contains ua ''Android'' then (''android'', True)
      else if str_Contains ua ''iPhone'' \<or> str_Contains ua ''iPad'' \<or> str_Contains ua ''iPod'' then (''ios'', True)
      else if str_Contains ua ''Windows'' then (''windows'', str_Contains ua ''Mobile'')
      else if str_Contains ua ''Mac OS X'' \<or> str_Contains ua ''Macintosh'' then (''mac'', False)
      else if str_Contains ua ''Linux'' \<or> str_Contains ua ''X11'' then (''linux'', str_Contains ua ''Mobile'')
      else (''other'', str_Contains ua ''Mobile''))"

definition CloseAuthFailed :: int where "CloseAuthFailed = 4001"
definition ClosePolicyRejected :: int where "ClosePolicyRejected = 4002"
definition CloseKicked :: int where "CloseKicked = 4003"
definition CloseUnavailable :: int where "CloseUnavailable = 4004"
definition CloseIdleTimeout :: int where "CloseIdleTimeout = 4005"
definition CloseBackpressure :: int where "CloseBackpressure = 1013"

definition ReasonClient :: string where "ReasonClient = ''client''"
definition ReasonTimeout :: string where "ReasonTimeout = ''timeout''"
definition ReasonKicked :: string where "ReasonKicked = ''kicked''"
definition ReasonReplaced :: string where "ReasonReplaced = ''replaced''"
definition ReasonRevoked :: string where "ReasonRevoked = ''revoked''"
definition ReasonBackpressure :: string where "ReasonBackpressure = ''backpressure''"
definition ReasonShutdown :: string where "ReasonShutdown = ''shutdown''"

section \<open>Rendezvous hashing\<close>

text \<open>FNV-1a of the standard library, in both widths the gateway uses.\<close>

definition fnv64a :: "string \<Rightarrow> 64 word" where
  "fnv64a s = fold (\<lambda>c h. (h XOR word_of_nat (byte c)) * 1099511628211) s 14695981039346656037"

definition fnv32a :: "string \<Rightarrow> 32 word" where
  "fnv32a s = fold (\<lambda>c h. (h XOR word_of_nat (byte c)) * 16777619) s 2166136261"

definition weight :: "string \<Rightarrow> string \<Rightarrow> 64 word" where
  "weight key n = fnv64a (n @ [CHR 0x00] @ key)"

fun pick_loop :: "string \<Rightarrow> string list \<Rightarrow> (string \<times> 64 word) option \<Rightarrow> (string \<times> 64 word) option" where
  "pick_loop key [] best = best"
| "pick_loop key (n # ns) best =
     (let w = weight key n
      in case best of
           None \<Rightarrow> pick_loop key ns (Some (n, w))
         | Some (b, bw) \<Rightarrow>
             if w > bw \<or> w = bw \<and> n < b then pick_loop key ns (Some (n, w)) else pick_loop key ns (Some (b, bw)))"

definition Pick :: "string list \<Rightarrow> string \<Rightarrow> string option" where
  "Pick nodes key = map_option fst (pick_loop key nodes None)"

text \<open>The comparison handed to \<^verbatim>\<open>sort.Slice\<close>, and sorting by a comparison.\<close>

definition ranks_before :: "string \<Rightarrow> string \<Rightarrow> string \<Rightarrow> bool" where
  "ranks_before key x y =
     (let wi = weight key x; wj = weight key y in if wi \<noteq> wj then wi > wj else x < y)"

fun insert_by :: "('a \<Rightarrow> 'a \<Rightarrow> bool) \<Rightarrow> 'a \<Rightarrow> 'a list \<Rightarrow> 'a list" where
  "insert_by lt x [] = [x]"
| "insert_by lt x (y # ys) = (if lt y x then y # insert_by lt x ys else x # y # ys)"

definition sort_Slice :: "('a \<Rightarrow> 'a \<Rightarrow> bool) \<Rightarrow> 'a list \<Rightarrow> 'a list" where
  "sort_Slice lt xs = foldr (insert_by lt) xs []"

definition Rank :: "string list \<Rightarrow> string \<Rightarrow> string list" where
  "Rank nodes key = sort_Slice (ranks_before key) nodes"

section \<open>Envelopes\<close>

definition TypeMsg :: "8 word" where "TypeMsg = 1"
definition TypeUp :: "8 word" where "TypeUp = 2"
definition TypeEvt :: "8 word" where "TypeEvt = 3"
definition TypeKick :: "8 word" where "TypeKick = 4"

text \<open>A nil \<^verbatim>\<open>Route\<close> is \<^verbatim>\<open>None\<close>: the hub tells it from an empty one.\<close>

record Envelope =
  env_Type :: "8 word"
  env_Hop :: "16 word"
  env_App :: string
  env_Subject :: string
  env_ConnID :: string
  env_Extra :: string
  env_Route :: "string list option"
  env_Payload :: string

definition route_list :: "Envelope \<Rightarrow> string list" where
  "route_list e = (case env_Route e of None \<Rightarrow> [] | Some r \<Rightarrow> r)"

definition char_of_nat :: "nat \<Rightarrow> char" where
  "char_of_nat n = char_of n"

text \<open>\<^verbatim>\<open>binary.AppendUvarint\<close> and \<^verbatim>\<open>binary.Uvarint\<close>; the latter gives no value where it returns no positive length.\<close>

fun PutUvarint :: "nat \<Rightarrow> string" where
  "PutUvarint n = (if n < 128 then [char_of_nat n] else char_of_nat (n mod 128 + 128) # PutUvarint (n div 128))"

declare PutUvarint.simps [simp del]

fun uvarint_loop :: "nat \<Rightarrow> nat \<Rightarrow> string \<Rightarrow> (nat \<times> nat) option" where
  "uvarint_loop i x [] = None"
| "uvarint_loop i x (b # bs) =
     (if i = 10 then None
      else if byte b < 128
        then (if i = 9 \<and> byte b > 1 then None else Some (x + byte b * 2 ^ (7 * i), i + 1))
      else uvarint_loop (i + 1) (x + (byte b - 128) * 2 ^ (7 * i)) bs)"

definition Uvarint :: "string \<Rightarrow> (nat \<times> nat) option" where
  "Uvarint b = uvarint_loop 0 0 b"

definition put_bytes :: "string \<Rightarrow> string" where
  "put_bytes s = PutUvarint (length s) @ s"

definition Encode :: "Envelope \<Rightarrow> string" where
  "Encode e =
     [char_of_nat (unat (env_Type e))]
     @ [char_of_nat (unat (env_Hop e) div 256), char_of_nat (unat (env_Hop e) mod 256)]
     @ concat (map put_bytes [env_App e, env_Subject e, env_ConnID e, env_Extra e])
     @ PutUvarint (length (route_list e))
     @ concat (map put_bytes (route_list e))
     @ put_bytes (env_Payload e)"

definition readBytes :: "string \<Rightarrow> (string \<times> string) option" where
  "readBytes rest =
     (case Uvarint rest of
        None \<Rightarrow> None
      | Some (n, k) \<Rightarrow>
          if length rest - k < n then None
          else Some (take n (drop k rest), drop (k + n) rest))"

fun read_many :: "nat \<Rightarrow> string \<Rightarrow> (string list \<times> string) option" where
  "read_many 0 rest = Some ([], rest)"
| "read_many (Suc n) rest =
     (case readBytes rest of
        None \<Rightarrow> None
      | Some (f, rest1) \<Rightarrow> (case read_many n rest1 of None \<Rightarrow> None | Some (fs, rest2) \<Rightarrow> Some (f # fs, rest2)))"

definition Decode :: "string \<Rightarrow> Envelope option" where
  "Decode b =
     (if length b < 3 then None
      else case read_many 4 (drop 3 b) of
        None \<Rightarrow> None
      | Some (fs4, rest) \<Rightarrow>
          (case Uvarint rest of
             None \<Rightarrow> None
           | Some (routeLen, k) \<Rightarrow>
               if routeLen > length (drop k rest) then None
               else (case read_many routeLen (drop k rest) of
                 None \<Rightarrow> None
               | Some (route, rest2) \<Rightarrow>
                   (case readBytes rest2 of
                      None \<Rightarrow> None
                    | Some (payload, rest3) \<Rightarrow>
                        if rest3 \<noteq> [] then None
                        else Some
                          \<lparr>env_Type = word_of_nat (byte (b ! 0)),
                           env_Hop = word_of_nat (byte (b ! 1) * 256 + byte (b ! 2)),
                           env_App = fs4 ! 0, env_Subject = fs4 ! 1, env_ConnID = fs4 ! 2, env_Extra = fs4 ! 3,
                           env_Route = (if routeLen > 0 then Some route else None),
                           env_Payload = payload\<rparr>))))"

section \<open>Ranking\<close>

lemma ranks_before_trans: "ranks_before key x y \<Longrightarrow> ranks_before key y z \<Longrightarrow> ranks_before key x z"
  by (auto simp: ranks_before_def Let_def split: if_splits)

lemma ranks_before_irrefl: "\<not> ranks_before key x x"
  by (simp add: ranks_before_def)

lemma ranks_before_total: "x \<noteq> y \<Longrightarrow> ranks_before key x y \<or> ranks_before key y x"
  by (auto simp: ranks_before_def Let_def)

lemma mset_insert_by [simp]: "mset (insert_by lt x ys) = add_mset x (mset ys)"
  by (induction ys) auto

lemma mset_sort_Slice [simp]: "mset (sort_Slice lt xs) = mset xs"
  by (induction xs) (auto simp: sort_Slice_def)

lemma set_insert_by [simp]: "set (insert_by lt x ys) = insert x (set ys)"
  by (induction ys) auto

abbreviation rank_le :: "string \<Rightarrow> string \<Rightarrow> string \<Rightarrow> bool" where
  "rank_le key x y \<equiv> \<not> ranks_before key y x"

lemma ranks_before_asym: "ranks_before key x y \<Longrightarrow> rank_le key x y"
  by (auto simp: ranks_before_def Let_def split: if_splits)

lemma rank_le_antisym: "rank_le key x y \<Longrightarrow> rank_le key y x \<Longrightarrow> x = y"
  by (rule ccontr) (use ranks_before_total [of x y key] in simp)

lemma rank_le_trans:
  assumes "rank_le key x y" and "rank_le key y z"
  shows "rank_le key x z"
proof
  assume zx: "ranks_before key z x"
  show False
  proof (cases "x = y")
    case True
    then show False using zx assms(2) by simp
  next
    case False
    then have "ranks_before key x y" using ranks_before_total [OF False, of key] assms(1) by blast
    with zx have "ranks_before key z y" by (rule ranks_before_trans)
    then show False using assms(2) by contradiction
  qed
qed

lemma sorted_insert_by:
  assumes "sorted_wrt (rank_le key) ys"
  shows "sorted_wrt (rank_le key) (insert_by (ranks_before key) x ys)"
  using assms
proof (induction ys)
  case (Cons y ys)
  show ?case
  proof (cases "ranks_before key y x")
    case True
    then show ?thesis using Cons ranks_before_asym [OF True] by simp
  next
    case False
    have "rank_le key x z" if "z \<in> set ys" for z
      using Cons.prems that by (intro rank_le_trans [OF False]) simp
    then show ?thesis using Cons.prems False by simp
  qed
qed simp

lemma sorted_Rank: "sorted_wrt (rank_le key) (Rank nodes key)"
proof -
  have "sorted_wrt (rank_le key) (foldr (insert_by (ranks_before key)) nodes [])"
    by (induction nodes) (simp_all add: sorted_insert_by)
  then show ?thesis by (simp add: Rank_def sort_Slice_def)
qed

lemma mset_Rank [simp]: "mset (Rank nodes key) = mset nodes"
  by (simp add: Rank_def)

lemma set_Rank [simp]: "set (Rank nodes key) = set nodes"
  by (metis mset_Rank set_mset_mset)

text \<open>The order is total, so the sorted arrangement is unique and \<^verbatim>\<open>sort.Slice\<close> need not be stable.\<close>

lemma sorted_unique:
  assumes "sorted_wrt (rank_le key) xs" and "sorted_wrt (rank_le key) ys" and "mset xs = mset ys"
  shows "xs = ys"
  using assms
proof (induction xs arbitrary: ys)
  case (Cons x xs)
  then obtain y ys' where ys: "ys = y # ys'" by (cases ys) auto
  have in_ys: "x \<in> set (y # ys')" and in_xs: "y \<in> set (x # xs)"
    using mset_eq_setD [OF Cons.prems(3)] ys by auto
  have "rank_le key x y" using in_xs Cons.prems(1) ranks_before_irrefl [of key x] by auto
  moreover have "rank_le key y x" using in_ys Cons.prems(2) ys ranks_before_irrefl [of key y] by auto
  ultimately have "x = y" by (rule rank_le_antisym)
  then show ?case using Cons ys by simp
qed simp

lemma Rank_unique: "sorted_wrt (rank_le key) xs \<Longrightarrow> mset xs = mset nodes \<Longrightarrow> xs = Rank nodes key"
  using sorted_unique sorted_Rank by (metis mset_Rank)

lemma Rank_filter: "Rank (filter P nodes) key = filter P (Rank nodes key)"
  by (rule sym, rule Rank_unique) (simp_all add: sorted_wrt_filter sorted_Rank)

lemma pick_loop_best:
  "\<exists>m. pick_loop key ns (Some (b, weight key b)) = Some (m, weight key m) \<and> m \<in> insert b (set ns) \<and>
     (\<forall>z\<in>insert b (set ns). rank_le key m z)"
proof (induction ns arbitrary: b)
  case Nil
  then show ?case by (simp add: ranks_before_irrefl)
next
  case (Cons n ns)
  let ?c = "if ranks_before key n b then n else b"
  have step: "pick_loop key (n # ns) (Some (b, weight key b)) = pick_loop key ns (Some (?c, weight key ?c))"
    by (auto simp: ranks_before_def Let_def)
  obtain m where m: "pick_loop key ns (Some (?c, weight key ?c)) = Some (m, weight key m)"
      "m \<in> insert ?c (set ns)" "\<forall>z\<in>insert ?c (set ns). rank_le key m z"
    using Cons.IH by blast
  have "rank_le key ?c n" "rank_le key ?c b"
    using ranks_before_asym [of key n b] by (auto simp: ranks_before_irrefl)
  moreover have "rank_le key m ?c" using m(3) by blast
  ultimately have "rank_le key m n" "rank_le key m b" using rank_le_trans by blast+
  then show ?case using m step by (intro exI [of _ m]) (auto split: if_splits)
qed

lemma Pick_is_hd_Rank: "nodes \<noteq> [] \<Longrightarrow> Pick nodes key = Some (hd (Rank nodes key))"
proof -
  assume "nodes \<noteq> []"
  then obtain n ns where nodes: "nodes = n # ns" by (cases nodes) auto
  obtain m where m: "pick_loop key ns (Some (n, weight key n)) = Some (m, weight key m)"
      "m \<in> insert n (set ns)" "\<forall>z\<in>insert n (set ns). rank_le key m z"
    using pick_loop_best by blast
  have "set (Rank nodes key) \<noteq> {}" using nodes by simp
  then obtain r rs where r: "Rank nodes key = r # rs" by (cases "Rank nodes key") simp_all
  then have s: "set nodes = insert r (set rs)" using set_Rank [of nodes key] by simp
  have "rank_le key r m"
  proof -
    have "m \<in> insert r (set rs)" using m(2) s unfolding nodes by auto
    then show ?thesis using sorted_Rank [of key nodes] r by (auto simp: ranks_before_irrefl)
  qed
  moreover have "rank_le key m r" using m(3) nodes s by auto
  ultimately have "m = r" by (rule rank_le_antisym [rotated])
  then show ?thesis using m(1) nodes r by (simp add: Pick_def Let_def)
qed

text \<open>
  The candidates of a subject are its live nodes in the order of their weight, the same order whoever computes
  it and however the nodes are listed; \<^verbatim>\<open>Pick\<close> chooses its head; and when nodes drop out the others keep
  their order, so a subject only moves when its own node is gone.
\<close>

theorem ranking_is_stable:
  "mset (Rank nodes key) = mset nodes \<and>
   sorted_wrt (\<lambda>x y. weight key x > weight key y \<or> weight key x = weight key y \<and> x \<le> y) (Rank nodes key) \<and>
   (mset nodes = mset nodes2 \<longrightarrow> Rank nodes key = Rank nodes2 key) \<and>
   (nodes \<noteq> [] \<longrightarrow> Pick nodes key = Some (hd (Rank nodes key))) \<and>
   Rank (filter P nodes) key = filter P (Rank nodes key)"
proof (intro conjI impI)
  show "sorted_wrt (\<lambda>x y. weight key x > weight key y \<or> weight key x = weight key y \<and> x \<le> y) (Rank nodes key)"
    by (rule sorted_wrt_mono_rel [OF _ sorted_Rank]) (auto simp: ranks_before_def Let_def split: if_splits)
  show "Rank nodes key = Rank nodes2 key" if "mset nodes = mset nodes2"
    using Rank_unique [OF sorted_Rank, of nodes key nodes2] that by auto
qed (simp_all add: Pick_is_hd_Rank Rank_filter)

theorem ranking_is_stable_witness:
  "Rank [''im-b'', ''im-a'', ''im-c''] ''u:1'' = Rank [''im-a'', ''im-b'', ''im-c''] ''u:1'' \<and>
   Pick [''im-b'', ''im-a'', ''im-c''] ''u:1'' = Some (hd (Rank [''im-a'', ''im-b'', ''im-c''] ''u:1''))"
proof -
  let ?ns = "[''im-b'', ''im-a'', ''im-c'']" and ?ms = "[''im-a'', ''im-b'', ''im-c'']"
  have "mset ?ns = mset ?ms" by simp
  with ranking_is_stable [of ?ns "''u:1''" ?ms "\<lambda>_. True"]
  have "Rank ?ns ''u:1'' = Rank ?ms ''u:1''" "Pick ?ns ''u:1'' = Some (hd (Rank ?ns ''u:1''))" by blast+
  then show ?thesis by simp
qed

section \<open>Envelopes survive the channel\<close>

lemma byte_char_of_nat [simp]: "n < 256 \<Longrightarrow> byte (char_of_nat n) = n"
  by (simp add: byte_def char_of_nat_def)

lemma shift_digit: "n = a + b * 128 \<Longrightarrow> (x + a * p) + b * (p * 128) = x + n * p" for n :: nat
  by (simp add: algebra_simps)

lemma uvarint_loop_Put:
  assumes "i \<le> 9" and "n < 2 ^ (64 - 7 * i)"
  shows "uvarint_loop i x (PutUvarint n @ r) = Some (x + n * 2 ^ (7 * i), i + length (PutUvarint n))"
  using assms
proof (induction n arbitrary: i x rule: PutUvarint.induct)
  case (1 n)
  show ?case
  proof (cases "n < 128")
    case True
    have "\<not> (i = 9 \<and> n > 1)" using 1(3) by auto
    then show ?thesis using True 1(2) by (subst (1 2) PutUvarint.simps) auto
  next
    case False
    have i: "i < 9"
    proof (rule ccontr)
      assume "\<not> i < 9"
      then have "i = 9" using 1(2) by simp
      then show False using 1(3) False by simp
    qed
    have "64 - 7 * i = (64 - 7 * (i + 1)) + 7" using i by simp
    then have "(2 :: nat) ^ (64 - 7 * i) = 2 ^ (64 - 7 * (i + 1)) * 2 ^ 7" by (simp only: power_add)
    then have "n < 2 ^ (64 - 7 * (i + 1)) * 128" using 1(3) by (simp only:) simp
    then have small: "n div 128 < 2 ^ (64 - 7 * (i + 1))" by (rule less_mult_imp_div_less)
    have val: "(x + (n mod 128) * 2 ^ (7 * i)) + n div 128 * 2 ^ (7 * (i + 1)) = x + n * 2 ^ (7 * i)"
    proof -
      have p: "(2 :: nat) ^ (7 * (i + 1)) = 2 ^ (7 * i) * 128" by (simp add: power_add)
      show ?thesis unfolding p by (rule shift_digit) (rule mod_div_mult_eq [symmetric])
    qed
    have "uvarint_loop i x (PutUvarint n @ r) =
        uvarint_loop (i + 1) (x + (n mod 128) * 2 ^ (7 * i)) (PutUvarint (n div 128) @ r)"
    proof -
      have "PutUvarint n = char_of_nat (n mod 128 + 128) # PutUvarint (n div 128)" using False by (subst PutUvarint.simps) simp
      moreover have "byte (char_of_nat (n mod 128 + 128)) = n mod 128 + 128" by (rule byte_char_of_nat) simp
      ultimately show ?thesis using i by simp
    qed
    also have "\<dots> = Some (x + n * 2 ^ (7 * i), i + 1 + length (PutUvarint (n div 128)))"
      using 1(1) [OF False, of "i + 1" "x + (n mod 128) * 2 ^ (7 * i)"] small i val by simp
    also have "\<dots> = Some (x + n * 2 ^ (7 * i), i + length (PutUvarint n))"
      using False by (subst (2) PutUvarint.simps) simp
    finally show ?thesis .
  qed
qed

lemma Uvarint_Put: "n < 2 ^ 64 \<Longrightarrow> Uvarint (PutUvarint n @ r) = Some (n, length (PutUvarint n))"
  using uvarint_loop_Put [of 0 n 0 r] by (simp add: Uvarint_def)

lemma readBytes_put: "length s < 2 ^ 64 \<Longrightarrow> readBytes (put_bytes s @ r) = Some (s, r)"
  by (simp add: readBytes_def put_bytes_def Uvarint_Put)

lemma read_many_put:
  "\<forall>s\<in>set ss. length s < 2 ^ 64 \<Longrightarrow> read_many (length ss) (concat (map put_bytes ss) @ r) = Some (ss, r)"
  by (induction ss) (simp_all add: readBytes_put)

definition env_fits :: "Envelope \<Rightarrow> bool" where
  "env_fits e \<longleftrightarrow>
     (\<forall>s\<in>set ([env_App e, env_Subject e, env_ConnID e, env_Extra e, env_Payload e] @ route_list e). length s < 2 ^ 63) \<and>
     length (route_list e) < 2 ^ 63"

lemma length_put_bytes: "length ss \<le> length (concat (map put_bytes ss))"
proof (induction ss)
  case (Cons s ss)
  have "1 \<le> length (put_bytes s)" by (subst put_bytes_def, subst PutUvarint.simps) simp
  then show ?case using Cons by simp
qed simp

lemma hop_bytes: "unat (h :: 16 word) div 256 < 256"
proof -
  have "unat h < 2 ^ LENGTH(16)" by (rule unsigned_less)
  then show ?thesis by simp
qed

lemma type_byte: "unat (t :: 8 word) < 256"
proof -
  have "unat t < 2 ^ LENGTH(8)" by (rule unsigned_less)
  then show ?thesis by simp
qed

lemma Decode_Encode:
  assumes "env_fits e"
  shows "Decode (Encode e) = Some (e\<lparr>env_Route := (if route_list e = [] then None else env_Route e)\<rparr>)"
proof -
  let ?fs = "[env_App e, env_Subject e, env_ConnID e, env_Extra e]"
  let ?r3 = "put_bytes (env_Payload e)"
  let ?r2 = "concat (map put_bytes (route_list e)) @ ?r3"
  let ?r1 = "PutUvarint (length (route_list e)) @ ?r2"
  have lt: "length s < 2 ^ 64" if "s \<in> set (?fs @ [env_Payload e] @ route_list e)" for s
  proof -
    have "s \<in> set ([env_App e, env_Subject e, env_ConnID e, env_Extra e, env_Payload e] @ route_list e)" using that by auto
    then have "length s < 2 ^ 63" using assms unfolding env_fits_def by blast
    then show ?thesis by (rule less_le_trans) simp
  qed
  have 1: "read_many 4 (concat (map put_bytes ?fs) @ ?r1) = Some (?fs, ?r1)"
  proof -
    have "read_many (length ?fs) (concat (map put_bytes ?fs) @ ?r1) = Some (?fs, ?r1)"
      using lt by (intro read_many_put ballI) auto
    moreover have "length ?fs = 4" by simp
    ultimately show ?thesis by (simp only:)
  qed
  have "length (route_list e) < 2 ^ 63" using assms by (simp add: env_fits_def)
  then have "length (route_list e) < 2 ^ 64" by (rule less_le_trans) simp
  then have 2: "Uvarint ?r1 = Some (length (route_list e), length (PutUvarint (length (route_list e))))"
    by (rule Uvarint_Put)
  have 3: "\<not> length (route_list e) > length ?r2" using length_put_bytes [of "route_list e"] by simp
  have 4: "read_many (length (route_list e)) ?r2 = Some (route_list e, ?r3)"
    using lt by (intro read_many_put) auto
  have 5: "readBytes ?r3 = Some (env_Payload e, [])"
    using readBytes_put [of "env_Payload e" "[]"] lt by simp
  have enc: "Encode e = char_of_nat (unat (env_Type e)) # char_of_nat (unat (env_Hop e) div 256) #
      char_of_nat (unat (env_Hop e) mod 256) # concat (map put_bytes ?fs) @ ?r1"
    by (simp add: Encode_def)
  have hop: "unat (env_Hop e) div 256 * 256 + unat (env_Hop e) mod 256 = unat (env_Hop e)" by simp
  have route: "(if 0 < length (route_list e) then Some (route_list e) else None) =
      (if route_list e = [] then None else env_Route e)"
    by (auto simp: route_list_def split: option.splits)
  show ?thesis
    unfolding Decode_def enc using 1 2 3 4 5 hop hop_bytes type_byte route
    by (simp del: concat.simps list.map)
qed

lemma uvarint_loop_append:
  "uvarint_loop i x b = Some (n, k) \<Longrightarrow> uvarint_loop i x (b @ r) = Some (n, k) \<and> k \<le> i + length b"
  by (induction i x b rule: uvarint_loop.induct) (auto split: if_splits)

lemma readBytes_append:
  assumes "readBytes b = Some (f, rest)"
  shows "readBytes (b @ r) = Some (f, rest @ r)"
proof -
  obtain n k where u: "Uvarint b = Some (n, k)" and n: "\<not> length b - k < n"
      and f: "f = take n (drop k b)" "rest = drop (k + n) b"
    using assms by (auto simp: readBytes_def split: option.splits if_splits)
  have "Uvarint (b @ r) = Some (n, k)" and k: "k \<le> length b"
    using u uvarint_loop_append [of 0 0 b n k r] by (auto simp: Uvarint_def)
  then show ?thesis using n f by (simp add: readBytes_def)
qed

lemma read_many_append: "read_many n b = Some (fs, rest) \<Longrightarrow> read_many n (b @ r) = Some (fs, rest @ r)"
proof (induction n arbitrary: b fs rest)
  case (Suc n)
  then obtain f b1 fs1 where 1: "readBytes b = Some (f, b1)" and 2: "read_many n b1 = Some (fs1, rest)" and fs: "fs = f # fs1"
    by (auto split: option.splits)
  show ?case using readBytes_append [OF 1, of r] Suc.IH [OF 2] fs by simp
qed simp

lemma Decode_extended:
  assumes "Decode b = Some e" and "r \<noteq> []"
  shows "Decode (b @ r) = None"
proof -
  obtain fs4 rest routeLen k route rest2 payload where
    b: "\<not> length b < 3" and 1: "read_many 4 (drop 3 b) = Some (fs4, rest)" and 2: "Uvarint rest = Some (routeLen, k)" and
    3: "\<not> routeLen > length (drop k rest)" and 4: "read_many routeLen (drop k rest) = Some (route, rest2)" and
    5: "readBytes rest2 = Some (payload, [])"
    using assms(1) by (auto simp: Decode_def split: if_splits option.splits)
  have u2: "Uvarint (rest @ r) = Some (routeLen, k)" and k: "k \<le> length rest"
    using 2 uvarint_loop_append [of 0 0 rest routeLen k r] by (auto simp: Uvarint_def)
  then have d: "drop k (rest @ r) = drop k rest @ r" "drop 3 (b @ r) = drop 3 b @ r" using b by simp_all
  show ?thesis
    unfolding Decode_def d
    using b 3 k read_many_append [OF 1, of r] u2 read_many_append [OF 4, of r] readBytes_append [OF 5, of r] assms(2)
    by (simp add: d)
qed

text \<open>
  C28. An envelope comes out of the channel as it went in (a nil and an empty route are the same on the wire), and a
  message of which any part is missing at its end is recognised as damaged.
\<close>

theorem envelope_roundtrip:
  assumes "env_fits e"
  shows "Decode (Encode e) = Some (e\<lparr>env_Route := (if route_list e = [] then None else env_Route e)\<rparr>) \<and>
    (strict_prefix p (Encode e) \<longrightarrow> Decode p = None)"
proof (intro conjI impI)
  show enc: "Decode (Encode e) = Some (e\<lparr>env_Route := (if route_list e = [] then None else env_Route e)\<rparr>)"
    by (rule Decode_Encode [OF assms])
  assume "strict_prefix p (Encode e)"
  then obtain r where r: "Encode e = p @ r" "r \<noteq> []" by (auto simp: strict_prefix_def prefix_def)
  then show "Decode p = None" using Decode_extended [of p _ r] enc by (cases "Decode p") simp_all
qed

definition demo_env :: Envelope where
  "demo_env = \<lparr>env_Type = TypeUp, env_Hop = 300, env_App = ''a1'', env_Subject = ''u:1'', env_ConnID = ''c1'',
     env_Extra = [], env_Route = Some [''im-b'', ''im-c''], env_Payload = ''{}''\<rparr>"

theorem envelope_roundtrip_witness:
  "Decode (Encode demo_env) = Some demo_env \<and> Decode (take 12 (Encode demo_env)) = None"
proof -
  have f: "env_fits demo_env" by (simp add: env_fits_def demo_env_def route_list_def)
  have "strict_prefix (take 12 (Encode demo_env)) (Encode demo_env)"
    by (simp add: take_is_prefix strict_prefix_def demo_env_def Encode_def put_bytes_def PutUvarint.simps)
  then show ?thesis using envelope_roundtrip [OF f] by (simp add: demo_env_def route_list_def)
qed

section \<open>Subjects and keys\<close>

lemma byte_in_no_colon: "CHR '':'' \<notin> set (kind_str k)"
  by (cases k) simp_all

definition subject_ok :: "(string \<Rightarrow> nat option) \<Rightarrow> Subject \<Rightarrow> bool" where
  "subject_ok U s \<longleftrightarrow> sub_ID s \<noteq> [] \<and>
     (case sub_Kind s of KindUser \<Rightarrow> True | KindGuest \<Rightarrow> IsUUIDv4 U (sub_ID s) | KindBiz \<Rightarrow> ValidateUserID (sub_ID s) = None)"

lemma ParseSubject_Some: "ParseSubject U t = Inr s \<longleftrightarrow> t = Subject_String s \<and> subject_ok U s"
proof (cases "str_Cut t (CHR '':'')")
  case (fields kind i ok)
  show ?thesis
  proof (cases ok)
    case True
    then have t: "t = kind @ CHR '':'' # i \<and> CHR '':'' \<notin> set kind" using str_Cut_found fields by simp
    have inj: "t = Subject_String s \<longleftrightarrow> kind = kind_str (sub_Kind s) \<and> i = sub_ID s"
      using t append_sep_inj [of kind "CHR '':''" i "kind_str (sub_Kind s)" "sub_ID s"] byte_in_no_colon
      by (auto simp: Subject_String_def)
    have eq: "s = \<lparr>sub_Kind = sub_Kind s, sub_ID = sub_ID s\<rparr>" by simp
    show ?thesis
      unfolding inj using fields True
      by (cases "sub_Kind s")
        (auto simp: ParseSubject_def subject_ok_def Subject_User_def Subject_Guest_def Subject_Biz_def)
  next
    case False
    then have "CHR '':'' \<notin> set t" using str_Cut_not_found [of t "CHR '':''"] fields by auto
    then have "t \<noteq> Subject_String s" by (auto simp: Subject_String_def)
    then show ?thesis using fields False by (simp add: ParseSubject_def)
  qed
qed

end
