(* ===== verification/Im_Registry.thy ===== *)
theory Im_Registry
  imports Im_Model
begin

text \<open>
  The table of connections the gateway nodes share in Redis (\<^verbatim>\<open>internal/im/registry/conns.go\<close> and the Lua scripts of
  \<^verbatim>\<open>scripts.go\<close>): one hash per subject, a field per connection with its own time to live. Redis is a parameter
  that runs a list of commands on an opaque world and may fail; the documented effect of the commands, the scripts
  included, is written down on a view of the hashes. The JSON of a connection is of the opaque type \<^verbatim>\<open>'j\<close>.
\<close>

section \<open>Hashes with expiring fields\<close>

type_synonym 'j conn_hash = "(string \<times> 'j \<times> int option) list"

record 'j meta_codec =
  mc_Encode :: "ConnMeta \<Rightarrow> 'j"
  mc_Decode :: "'j \<Rightarrow> ConnMeta option"
  mc_lua_node :: "'j \<Rightarrow> string"

definition field_alive :: "int \<Rightarrow> string \<times> 'j \<times> int option \<Rightarrow> bool" where
  "field_alive t x = (case x of (_, _, None) \<Rightarrow> True | (_, _, Some e) \<Rightarrow> t < e)"

definition visible :: "int \<Rightarrow> 'j conn_hash \<Rightarrow> 'j conn_hash" where
  "visible t h = filter (field_alive t) h"

definition hash_HDEL :: "string \<Rightarrow> 'j conn_hash \<Rightarrow> 'j conn_hash" where
  "hash_HDEL f h = filter (\<lambda>x. fst x \<noteq> f) h"

text \<open>\<^verbatim>\<open>HSET\<close> takes the time to live of the field away.\<close>

definition hash_HSET :: "string \<Rightarrow> 'j \<Rightarrow> 'j conn_hash \<Rightarrow> 'j conn_hash" where
  "hash_HSET f v h = hash_HDEL f h @ [(f, v, None)]"

definition hash_HEXPIRE :: "int \<Rightarrow> int \<Rightarrow> string list \<Rightarrow> 'j conn_hash \<Rightarrow> 'j conn_hash" where
  "hash_HEXPIRE t secs fs h = map (\<lambda>(f, v, e). if f \<in> set fs then (f, v, Some (t + secs * 1000)) else (f, v, e)) h"

definition hash_HGET :: "string \<Rightarrow> 'j conn_hash \<Rightarrow> 'j option" where
  "hash_HGET f h = map_of (map (\<lambda>(f, v, _). (f, v)) h) f"

definition hash_HGETALL :: "'j conn_hash \<Rightarrow> (string \<times> 'j) list" where
  "hash_HGETALL h = map (\<lambda>(f, v, _). (f, v)) h"

section \<open>Scripts\<close>

datatype script_reply = ReplyREJECT | ReplyOKKicked "(string \<times> string) list"

text \<open>The first loop of the handshake: fields of dead nodes are deleted, the others but the own one collected.\<close>

fun sweep :: "'j meta_codec \<Rightarrow> string list \<Rightarrow> string \<Rightarrow> (string \<times> 'j) list \<Rightarrow> 'j conn_hash \<Rightarrow>
    (string \<times> string) list \<times> 'j conn_hash" where
  "sweep M live own [] h = ([], h)"
| "sweep M live own ((cid, meta) # all) h =
     (let node = mc_lua_node M meta in
      if live \<noteq> [] \<and> node \<notin> set live then sweep M live own all (hash_HDEL cid h)
      else case sweep M live own all h of (ex, h') \<Rightarrow> ((if cid \<noteq> own then (cid, node) # ex else ex), h'))"

definition handshakeScript ::
  "'j meta_codec \<Rightarrow> int \<Rightarrow> string \<Rightarrow> 'j \<Rightarrow> Policy \<Rightarrow> int \<Rightarrow> int \<Rightarrow> string list \<Rightarrow> 'j conn_hash \<Rightarrow> script_reply \<times> 'j conn_hash" where
  "handshakeScript M t own meta policy limit ttl live h =
     (case sweep M live own (hash_HGETALL h) h of (existing, h1) \<Rightarrow>
        let count = int (length existing) in
        if policy = PolicyReject \<and> count \<ge> 1 then (ReplyREJECT, h1)
        else if policy = PolicyLimit \<and> count \<ge> limit then (ReplyREJECT, h1)
        else
          let h2 = (if policy = PolicyReplace then fold (\<lambda>(cid, _). hash_HDEL cid) existing h1 else h1);
              kicked = (if policy = PolicyReplace then existing else [])
          in (ReplyOKKicked kicked, hash_HEXPIRE t ttl [own] (hash_HSET own meta h2)))"

definition kickAllScript :: "'j conn_hash \<Rightarrow> (string \<times> 'j) list \<times> 'j conn_hash" where
  "kickAllScript h = (let al = hash_HGETALL h in (al, if length al > 0 then [] else h))"

definition kickOneScript :: "string \<Rightarrow> 'j conn_hash \<Rightarrow> 'j option \<times> 'j conn_hash" where
  "kickOneScript cid h =
     (let meta = hash_HGET cid h in (meta, if meta \<noteq> None then hash_HDEL cid h else h))"

section \<open>Redis as a parameter\<close>

datatype 'j conn_cmd =
    CHandshake string 'j Policy int int "string list"
  | CKickAll
  | CKickOne string
  | CHGetAll
  | CHDel string
  | CHExpire int "string list"

datatype 'j conn_reply =
    RScript script_reply
  | RFields "(string \<times> 'j) list"
  | RField "'j option"
  | RDone

type_synonym 'j conn_tables = "string \<Rightarrow> 'j conn_hash"

text \<open>The effect of a command on its hash at time \<^verbatim>\<open>t\<close>; an expired field is gone before the command runs.\<close>

fun exec_conn :: "'j meta_codec \<Rightarrow> int \<Rightarrow> 'j conn_cmd \<Rightarrow> 'j conn_hash \<Rightarrow> 'j conn_reply \<times> 'j conn_hash" where
  "exec_conn M t (CHandshake own meta policy limit ttl live) h =
     (case handshakeScript M t own meta policy limit ttl live (visible t h) of (r, h') \<Rightarrow> (RScript r, h'))"
| "exec_conn M t CKickAll h = (case kickAllScript (visible t h) of (r, h') \<Rightarrow> (RFields r, h'))"
| "exec_conn M t (CKickOne cid) h = (case kickOneScript cid (visible t h) of (r, h') \<Rightarrow> (RField r, h'))"
| "exec_conn M t CHGetAll h = (RFields (hash_HGETALL (visible t h)), visible t h)"
| "exec_conn M t (CHDel cid) h = (RDone, hash_HDEL cid (visible t h))"
| "exec_conn M t (CHExpire secs cids) h = (RDone, hash_HEXPIRE t secs cids (visible t h))"

text \<open>A pipeline: each command on the value of its key, one after the other.\<close>

fun exec_pipe :: "('c \<Rightarrow> 'h \<Rightarrow> 'x \<times> 'h) \<Rightarrow> (string \<times> 'c) list \<Rightarrow> (string \<Rightarrow> 'h) \<Rightarrow> 'x list \<times> (string \<Rightarrow> 'h)" where
  "exec_pipe ex [] T = ([], T)"
| "exec_pipe ex ((k, c) # cs) T =
     (case ex c (T k) of (r, h) \<Rightarrow>
      case exec_pipe ex cs (T(k := h)) of (rs, T') \<Rightarrow> (r # rs, T'))"

abbreviation exec_conns ::
  "'j meta_codec \<Rightarrow> int \<Rightarrow> (string \<times> 'j conn_cmd) list \<Rightarrow> 'j conn_tables \<Rightarrow> 'j conn_reply list \<times> 'j conn_tables" where
  "exec_conns M t \<equiv> exec_pipe (exec_conn M t)"

record ('r, 'j) conns_env =
  ce_run :: "(string \<times> 'j conn_cmd) list \<Rightarrow> ('r, 'j conn_reply list) io"
  ce_codec :: "'j meta_codec"
  ce_fieldTTL :: int

section \<open>Operations\<close>

record ConnRef =
  ref_ConnID :: string
  ref_Node :: string

record HandshakeResult =
  hr_Rejected :: bool
  hr_Kicked :: "ConnRef list"

definition live_args :: "string list \<Rightarrow> string \<Rightarrow> string list" where
  "live_args live own_node =
     (if length live > 0 then live @ (if own_node \<notin> set live then [own_node] else []) else [])"

definition Handshake ::
  "('r, 'j) conns_env \<Rightarrow> string \<Rightarrow> string \<Rightarrow> string \<Rightarrow> ConnMeta \<Rightarrow> Policy \<Rightarrow> int \<Rightarrow> string list \<Rightarrow> ('r, HandshakeResult) io" where
  "Handshake C app subject connID meta policy limit live =
     bindE (ce_run C [(ConnKey app subject,
         CHandshake connID (mc_Encode (ce_codec C) meta) policy limit (trunc_div (ce_fieldTTL C) ns_per_s)
           (live_args live (cm_Node meta)))])
       (\<lambda>rs. case rs of
          [RScript ReplyREJECT] \<Rightarrow> ret \<lparr>hr_Rejected = True, hr_Kicked = []\<rparr>
        | [RScript (ReplyOKKicked flat)] \<Rightarrow>
            ret \<lparr>hr_Rejected = False, hr_Kicked = map (\<lambda>(c, n). \<lparr>ref_ConnID = c, ref_Node = n\<rparr>) flat\<rparr>
        | _ \<Rightarrow> throw (Wrapped ''registry: handshake''))"

definition Remove :: "('r, 'j) conns_env \<Rightarrow> string \<Rightarrow> string \<Rightarrow> string \<Rightarrow> ('r, unit) io" where
  "Remove C app subject connID = bindE (ce_run C [(ConnKey app subject, CHDel connID)]) (\<lambda>_. ret ())"

definition fields_of :: "'j conn_reply \<Rightarrow> (string \<times> 'j) list" where
  "fields_of r = (case r of RFields fs \<Rightarrow> fs | _ \<Rightarrow> [])"

definition live_conns :: "'j meta_codec \<Rightarrow> string list \<Rightarrow> (string \<times> 'j) list \<Rightarrow> (string \<times> ConnMeta) list" where
  "live_conns M live fs =
     List.map_filter (\<lambda>(cid, raw). case mc_Decode M raw of
        None \<Rightarrow> None | Some m \<Rightarrow> if cm_Node m \<notin> set live then None else Some (cid, m)) fs"

definition LookupMany ::
  "('r, 'j) conns_env \<Rightarrow> string \<Rightarrow> string list \<Rightarrow> string list \<Rightarrow> ('r, (string \<times> ConnMeta) list list) io" where
  "LookupMany C app subjects live =
     bindE (ce_run C (map (\<lambda>s. (ConnKey app s, CHGetAll)) subjects))
       (\<lambda>rs. ret (map (\<lambda>r. live_conns (ce_codec C) live (fields_of r)) rs))"

definition Lookup ::
  "('r, 'j) conns_env \<Rightarrow> string \<Rightarrow> string \<Rightarrow> string list \<Rightarrow> ('r, (string \<times> ConnMeta) list) io" where
  "Lookup C app subject live = bindE (LookupMany C app [subject] live) (\<lambda>many. ret (many ! 0))"

definition KickAll :: "('r, 'j) conns_env \<Rightarrow> string \<Rightarrow> string \<Rightarrow> ('r, ConnRef list) io" where
  "KickAll C app subject =
     bindE (ce_run C [(ConnKey app subject, CKickAll)])
       (\<lambda>rs. ret (List.map_filter (\<lambda>(cid, raw). case mc_Decode (ce_codec C) raw of
          None \<Rightarrow> None | Some m \<Rightarrow> Some \<lparr>ref_ConnID = cid, ref_Node = cm_Node m\<rparr>) (concat (map fields_of rs))))"

definition KickOne :: "('r, 'j) conns_env \<Rightarrow> string \<Rightarrow> string \<Rightarrow> string \<Rightarrow> ('r, ConnRef option) io" where
  "KickOne C app subject connID =
     bindE (ce_run C [(ConnKey app subject, CKickOne connID)])
       (\<lambda>rs. ret (case rs of
          [RField (Some raw)] \<Rightarrow>
            (case mc_Decode (ce_codec C) raw of None \<Rightarrow> None | Some m \<Rightarrow> Some \<lparr>ref_ConnID = connID, ref_Node = cm_Node m\<rparr>)
        | _ \<Rightarrow> None))"

definition Renew :: "('r, 'j) conns_env \<Rightarrow> string \<Rightarrow> string \<Rightarrow> string list \<Rightarrow> ('r, unit) io" where
  "Renew C app subject connIDs =
     (if length connIDs = 0 then ret ()
      else bindE (ce_run C [(ConnKey app subject, CHExpire (trunc_div (ce_fieldTTL C) ns_per_s) connIDs)]) (\<lambda>_. ret ()))"

section \<open>The scripts against their specification\<close>

definition wf_hash :: "'j conn_hash \<Rightarrow> bool" where
  "wf_hash h \<longleftrightarrow> distinct (map fst h)"

text \<open>The connections of the subject that count: on a live node, and not the one that is coming in.\<close>

definition rivals :: "'j meta_codec \<Rightarrow> string list \<Rightarrow> string \<Rightarrow> 'j conn_hash \<Rightarrow> 'j conn_hash" where
  "rivals M live own h =
     filter (\<lambda>(cid, meta, _). cid \<noteq> own \<and> (live = [] \<or> mc_lua_node M meta \<in> set live)) h"

definition refused :: "Policy \<Rightarrow> int \<Rightarrow> nat \<Rightarrow> bool" where
  "refused policy limit n \<longleftrightarrow> policy = PolicyReject \<and> n \<ge> 1 \<or> policy = PolicyLimit \<and> int n \<ge> limit"

definition dead_fields :: "'j meta_codec \<Rightarrow> string list \<Rightarrow> (string \<times> 'j) list \<Rightarrow> string set" where
  "dead_fields M live fs = {cid. \<exists>meta. (cid, meta) \<in> set fs \<and> live \<noteq> [] \<and> mc_lua_node M meta \<notin> set live}"

lemma sweep_spec:
  "sweep M live own al h =
     (map (\<lambda>(c, m). (c, mc_lua_node M m)) (filter (\<lambda>(c, m). c \<noteq> own \<and> (live = [] \<or> mc_lua_node M m \<in> set live)) al),
      filter (\<lambda>x. fst x \<notin> dead_fields M live al) h)"
proof (induction M live own al h rule: sweep.induct)
  case (2 M live own cid meta al h)
  show ?case
  proof (cases "live \<noteq> [] \<and> mc_lua_node M meta \<notin> set live")
    case True
    then have "dead_fields M live ((cid, meta) # al) = insert cid (dead_fields M live al)"
      by (auto simp: dead_fields_def)
    then show ?thesis using 2(1) [OF refl True] True by (auto simp: hash_HDEL_def Let_def conj_commute)
  next
    case False
    then have "dead_fields M live ((cid, meta) # al) = dead_fields M live al" by (auto simp: dead_fields_def)
    then show ?thesis using 2(2) [OF refl False] False by (auto simp: Let_def)
  qed
qed (simp add: dead_fields_def)

lemma fold_HDEL: "fold (\<lambda>(cid, _). hash_HDEL cid) ex h = filter (\<lambda>x. fst x \<notin> fst ` set ex) h"
  by (induction ex arbitrary: h) (simp_all add: hash_HDEL_def case_prod_beta)

lemma HGETALL_mem: "(c, m) \<in> set (hash_HGETALL h) \<longleftrightarrow> (\<exists>e. (c, m, e) \<in> set h)"
  by (induction h) (auto simp: hash_HGETALL_def)

lemma dead_fields_mem:
  assumes "wf_hash h" and "(cid, meta, e) \<in> set h"
  shows "cid \<in> dead_fields M live (hash_HGETALL h) \<longleftrightarrow> live \<noteq> [] \<and> mc_lua_node M meta \<notin> set live"
proof -
  have "m2 = meta" if "(cid, m2, e2) \<in> set h" for m2 e2
    using assms that eq_key_imp_eq_value [of h cid "(meta, e)" "(m2, e2)"] by (simp add: wf_hash_def)
  then show ?thesis using assms(2) unfolding dead_fields_def HGETALL_mem by blast
qed

lemma sweep_hash:
  assumes "wf_hash h"
  shows "sweep M live own (hash_HGETALL h) h =
     (map (\<lambda>(c, m, _). (c, mc_lua_node M m)) (rivals M live own h),
      filter (\<lambda>(_, m, _). live = [] \<or> mc_lua_node M m \<in> set live) h)"
proof -
  have "filter (\<lambda>x. fst x \<notin> dead_fields M live (hash_HGETALL h)) h =
      filter (\<lambda>(_, m, _). live = [] \<or> mc_lua_node M m \<in> set live) h"
    using dead_fields_mem [OF assms] by (intro filter_cong) auto
  moreover have "map (\<lambda>(c, m). (c, mc_lua_node M m))
      (filter (\<lambda>(c, m). c \<noteq> own \<and> (live = [] \<or> mc_lua_node M m \<in> set live)) (hash_HGETALL h)) =
      map (\<lambda>(c, m, _). (c, mc_lua_node M m)) (rivals M live own h)"
    by (induction h) (auto simp: hash_HGETALL_def rivals_def)
  ultimately show ?thesis by (simp add: sweep_spec)
qed

lemma handshakeScript_spec:
  assumes "wf_hash h"
  shows "handshakeScript M t own meta policy limit ttl live h =
    (if refused policy limit (length (rivals M live own h))
     then (ReplyREJECT, filter (\<lambda>(_, m, _). live = [] \<or> mc_lua_node M m \<in> set live) h)
     else (ReplyOKKicked (if policy = PolicyReplace
                          then map (\<lambda>(c, m, _). (c, mc_lua_node M m)) (rivals M live own h) else []),
           (if policy = PolicyReplace then [] else rivals M live own h) @ [(own, meta, Some (t + ttl * 1000))]))"
proof -
  let ?riv = "rivals M live own h"
  let ?h1 = "filter (\<lambda>(_, m, _). live = [] \<or> mc_lua_node M m \<in> set live) h"
  have own: "hash_HDEL own ?h1 = ?riv"
    by (auto simp: hash_HDEL_def rivals_def intro!: filter_cong)
  have none: "hash_HDEL own (fold (\<lambda>(cid, _). hash_HDEL cid) (map (\<lambda>(c, m, _). (c, mc_lua_node M m)) ?riv) ?h1) = []"
    unfolding fold_HDEL hash_HDEL_def by (force simp: rivals_def filter_empty_conv image_iff)
  have ex: "hash_HEXPIRE t ttl [own] (?riv @ [(own, meta, None)]) = ?riv @ [(own, meta, Some (t + ttl * 1000))]"
  proof -
    have "hash_HEXPIRE t ttl [own] ?riv = ?riv"
      unfolding hash_HEXPIRE_def by (rule map_idI) (auto simp: rivals_def)
    then show ?thesis by (simp add: hash_HEXPIRE_def)
  qed
  show ?thesis
    using own none ex
    by (auto simp: handshakeScript_def sweep_hash [OF assms] Let_def refused_def hash_HSET_def hash_HEXPIRE_def)
qed

lemma length_rivals: "wf_hash h \<Longrightarrow> wf_hash (rivals M live own h) \<and> own \<notin> fst ` set (rivals M live own h)"
  by (auto simp: wf_hash_def rivals_def distinct_map_filter)

lemma wf_filter: "wf_hash h \<Longrightarrow> wf_hash (filter P h)"
  by (simp add: wf_hash_def distinct_map_filter)

lemma map_fst_HEXPIRE [simp]: "map fst (hash_HEXPIRE t secs fs h) = map fst h"
  by (auto simp: hash_HEXPIRE_def)

lemma length_HEXPIRE [simp]: "length (hash_HEXPIRE t secs fs h) = length h"
  by (simp add: hash_HEXPIRE_def)

text \<open>
  What a command may do to the number of fields: only an accepted handshake adds one, within the policy. The
  connections of \<^verbatim>\<open>X\<close> are left out of the count: those registered under another rule.
\<close>

fun policy_bound :: "Policy \<Rightarrow> int \<Rightarrow> nat" where
  "policy_bound PolicyReplace n = 1"
| "policy_bound PolicyReject n = 1"
| "policy_bound PolicyLimit n = nat n"
| "policy_bound _ n = 0"

fun obeys :: "string set \<Rightarrow> Policy \<Rightarrow> int \<Rightarrow> 'j conn_cmd \<Rightarrow> bool" where
  "obeys X p n (CHandshake own _ p2 n2 _ _) = (p2 = p \<and> n2 = n \<or> own \<in> X)"
| "obeys X p n _ = True"

definition counted :: "string set \<Rightarrow> 'j conn_hash \<Rightarrow> 'j conn_hash" where
  "counted X h = filter (\<lambda>x. fst x \<notin> X) h"

definition within :: "string set \<Rightarrow> Policy \<Rightarrow> int \<Rightarrow> 'j conn_hash \<Rightarrow> bool" where
  "within X p n h \<longleftrightarrow> wf_hash h \<and> length (counted X h) \<le> policy_bound p n"

lemma counted_le: "length (counted X h) \<le> length h"
  by (simp add: counted_def)

lemma within_filter: "within X p n h \<Longrightarrow> within X p n (filter P h)"
proof -
  assume w: "within X p n h"
  have "counted X (filter P h) = filter P (counted X h)" by (simp add: counted_def conj_commute)
  then have "length (counted X (filter P h)) \<le> length (counted X h)" by simp
  then show ?thesis using w wf_filter by (auto simp: within_def)
qed

lemma within_mono:
  assumes "within X p n h" and "X \<subseteq> Y"
  shows "within Y p n h"
proof -
  have "counted Y h = counted Y (counted X h)" using assms(2) by (auto simp: counted_def intro: filter_cong)
  then have "length (counted Y h) \<le> length (counted X h)" by (simp add: counted_le)
  then show ?thesis using assms(1) by (simp add: within_def)
qed

lemma within_Nil [simp]: "within X p n []"
  by (simp add: within_def wf_hash_def counted_def)

lemma length_counted: "length (counted X h) = length (filter (\<lambda>f. f \<notin> X) (map fst h))"
  by (simp add: counted_def filter_map comp_def)

lemma within_HEXPIRE [simp]: "within X p n (hash_HEXPIRE t secs fs h) = within X p n h"
  by (simp add: within_def wf_hash_def length_counted)

text \<open>Right after a handshake was accepted under a policy that judges, all connections together are within its bound.\<close>

lemma accepted_within:
  assumes "wf_hash h" and "p \<in> {PolicyReplace, PolicyReject, PolicyLimit}" and "\<not> refused p n (length (rivals M live own h))"
  shows "length ((if p = PolicyReplace then [] else rivals M live own h) @ [x]) \<le> policy_bound p n"
  using assms by (auto simp: refused_def not_le)

lemma within_handshake:
  assumes "within X p n h" and "p \<in> {PolicyReplace, PolicyReject, PolicyLimit}" and "p2 = p \<and> n2 = n \<or> own \<in> X"
  shows "within X p n (snd (handshakeScript M t own meta p2 n2 ttl live h))"
proof -
  have wf: "wf_hash h" using assms(1) by (simp add: within_def)
  let ?riv = "rivals M live own h"
  let ?x = "(own, meta, Some (t + ttl * 1000))"
  let ?new = "(if p2 = PolicyReplace then [] else ?riv) @ [?x]"
  show ?thesis
  proof (cases "refused p2 n2 (length ?riv)")
    case True
    then show ?thesis using within_filter [OF assms(1)] by (simp add: handshakeScript_spec [OF wf])
  next
    case False
    have wn: "wf_hash ?new" using length_rivals [OF wf, of M live own] by (auto simp: wf_hash_def)
    have "length (counted X ?new) \<le> policy_bound p n"
    proof (cases "p2 = p \<and> n2 = n")
      case True
      then have "length ?new \<le> policy_bound p n" using accepted_within [OF wf, of p n M live own ?x] assms(2) False by simp
      then show ?thesis using counted_le [of X ?new] by (rule le_trans [rotated])
    next
      case False
      then have "own \<in> X" using assms(3) by blast
      then have "counted X [?x] = []" by (simp add: counted_def)
      moreover have "within X p n ?riv" unfolding rivals_def by (rule within_filter [OF assms(1)])
      ultimately show ?thesis by (simp add: counted_def within_def)
    qed
    then show ?thesis using False wn by (simp add: handshakeScript_spec [OF wf] within_def)
  qed
qed

lemma within_exec_conn:
  assumes "within X p n h" and "p \<in> {PolicyReplace, PolicyReject, PolicyLimit}" and "obeys X p n c"
  shows "within X p n (snd (exec_conn M t c h))"
proof -
  have v: "within X p n (visible t h)" using assms(1) unfolding visible_def by (rule within_filter)
  show ?thesis
  proof (cases c)
    case (CHandshake own meta p2 n2 ttl live)
    then show ?thesis using within_handshake [OF v assms(2)] assms(3) by (simp add: case_prod_beta)
  qed (use v in \<open>auto simp: kickAllScript_def kickOneScript_def hash_HDEL_def Let_def intro: within_filter\<close>)
qed

lemma within_exec_conns:
  assumes "\<forall>c. (k, c) \<in> set cs \<longrightarrow> obeys X p n c" and "within X p n (T k)" and "p \<in> {PolicyReplace, PolicyReject, PolicyLimit}"
  shows "within X p n (snd (exec_conns M t cs T) k)"
  using assms(1,2)
proof (induction cs arbitrary: T)
  case (Cons x cs)
  obtain k2 c where x: "x = (k2, c)" by (cases x)
  let ?T = "T(k2 := snd (exec_conn M t c (T k2)))"
  have "within X p n (?T k)"
  proof (cases "k2 = k")
    case True
    then have "obeys X p n c" using Cons.prems(1) x by simp
    then show ?thesis using within_exec_conn [OF Cons.prems(2) assms(3)] True by simp
  qed (use Cons.prems(2) in simp)
  moreover have "\<forall>c. (k, c) \<in> set cs \<longrightarrow> obeys X p n c" using Cons.prems(1) by simp
  ultimately have "within X p n (snd (exec_conns M t cs ?T) k)" by (rule Cons.IH [rotated])
  then show ?case by (simp add: x case_prod_beta)
qed simp

section \<open>Redis behind the operations\<close>

locale conn_laws =
  fixes C :: "('r, 'j) conns_env" and view :: "'r \<Rightarrow> 'j conn_tables" and clock :: "'r \<Rightarrow> int"
  assumes run_ok: "ce_run C cs r = (Inr rs, r') \<Longrightarrow>
      \<exists>t. clock r \<le> t \<and> t \<le> clock r' \<and> exec_conns (ce_codec C) t cs (view r) = (rs, view r')"
    and run_err: "ce_run C cs r = (Inl e, r') \<Longrightarrow>
      \<exists>t n. clock r \<le> t \<and> t \<le> clock r' \<and> view r' = snd (exec_conns (ce_codec C) t (take n cs) (view r))"
begin

lemma run_within:
  assumes "ce_run C cs r = (x, r')" and "\<forall>c. (k, c) \<in> set cs \<longrightarrow> obeys X p n c" and "within X p n (view r k)"
    and "p \<in> {PolicyReplace, PolicyReject, PolicyLimit}"
  shows "within X p n (view r' k)"
proof (cases x)
  case (Inl e)
  then obtain t m where "view r' = snd (exec_conns (ce_codec C) t (take m cs) (view r))" using run_err assms(1) by blast
  moreover have "\<forall>c. (k, c) \<in> set (take m cs) \<longrightarrow> obeys X p n c" using assms(2) in_set_takeD by fast
  ultimately show ?thesis using within_exec_conns [of k "take m cs" X p n "view r"] assms(3,4) by simp
next
  case (Inr rs)
  then obtain t where "view r' = snd (exec_conns (ce_codec C) t cs (view r))" using run_ok assms(1) by (metis snd_conv)
  then show ?thesis using within_exec_conns [of k cs X p n "view r"] assms(2-4) by simp
qed

lemma bindE_run_within:
  assumes "bindE (ce_run C cs) f r = (x, r')" and "\<And>rs w. snd (f rs w) = w"
    and "\<forall>c. (k, c) \<in> set cs \<longrightarrow> obeys X p n c" and "within X p n (view r k)" and "p \<in> {PolicyReplace, PolicyReject, PolicyLimit}"
  shows "within X p n (view r' k)"
proof -
  obtain y r1 where y: "ce_run C cs r = (y, r1)" by (cases "ce_run C cs r")
  have "r' = r1"
  proof (cases y)
    case (Inr rs)
    then have "f rs r1 = (x, r')" using assms(1) y by (simp add: bindE_def)
    then show ?thesis using assms(2) [of rs r1] by simp
  qed (use assms(1) y in \<open>simp add: bindE_def\<close>)
  then show ?thesis using run_within [OF y assms(3-5)] by simp
qed

end

text \<open>What the nodes of the gateway do with the tables, in any order, with time passing in between.\<close>

inductive conns_run ::
  "('r, 'j) conns_env \<Rightarrow> ('r \<Rightarrow> 'j conn_tables) \<Rightarrow> string \<Rightarrow> (string \<times> Policy \<times> int) list \<Rightarrow> 'r \<Rightarrow> 'r \<Rightarrow> bool"
  for C view K where
  conns_start: "conns_run C view K [] r r"
| conns_handshake: "conns_run C view K hs r r1 \<Longrightarrow>
    Handshake C app subject i meta p n live r1 = (x, r2) \<Longrightarrow>
    conns_run C view K (if ConnKey app subject = K then hs @ [(i, p, n)] else hs) r r2"
| conns_remove: "conns_run C view K hs r r1 \<Longrightarrow> Remove C app subject i r1 = (y, r2) \<Longrightarrow> conns_run C view K hs r r2"
| conns_lookup: "conns_run C view K hs r r1 \<Longrightarrow> LookupMany C app subjects live r1 = (z, r2) \<Longrightarrow> conns_run C view K hs r r2"
| conns_kick_all: "conns_run C view K hs r r1 \<Longrightarrow> KickAll C app subject r1 = (u, r2) \<Longrightarrow> conns_run C view K hs r r2"
| conns_kick_one: "conns_run C view K hs r r1 \<Longrightarrow> KickOne C app subject i r1 = (v, r2) \<Longrightarrow> conns_run C view K hs r r2"
| conns_renew: "conns_run C view K hs r r1 \<Longrightarrow> Renew C app subject is r1 = (y, r2) \<Longrightarrow> conns_run C view K hs r r2"
| conns_elapse: "conns_run C view K hs r r1 \<Longrightarrow> view r2 = view r1 \<Longrightarrow> conns_run C view K hs r r2"

text \<open>The connections a run registers under another rule than \<^verbatim>\<open>p\<close> with limit \<^verbatim>\<open>n\<close>.\<close>

definition other_rule :: "Policy \<Rightarrow> int \<Rightarrow> (string \<times> Policy \<times> int) list \<Rightarrow> string set" where
  "other_rule p n hs = {i. \<exists>q m. (i, q, m) \<in> set hs \<and> (q, m) \<noteq> (p, n)}"

context conn_laws
begin

lemma run_keeps_within:
  assumes "conns_run C view K hs r r'" and "within {} p n (view r K)" and "p \<in> {PolicyReplace, PolicyReject, PolicyLimit}"
  shows "within (other_rule p n hs) p n (view r' K)"
  using assms(1,2)
proof (induction rule: conns_run.induct)
  case (conns_handshake hs r r1 app subject i meta q m live x r2)
  let ?hs = "if ConnKey app subject = K then hs @ [(i, q, m)] else hs"
  have w: "within (other_rule p n ?hs) p n (view r1 K)"
    by (rule within_mono [OF conns_handshake.IH [OF conns_handshake.prems]]) (auto simp: other_rule_def)
  show ?case
    by (rule bindE_run_within [OF conns_handshake(2) [unfolded Handshake_def] _ _ w assms(3)])
      (auto simp: other_rule_def split: list.split conn_reply.split script_reply.split)
next
  case (conns_remove hs r r1 app subject i y r2)
  show ?case
    by (rule bindE_run_within [OF conns_remove(2) [unfolded Remove_def] _ _ conns_remove.IH [OF conns_remove.prems] assms(3)])
      (use conns_remove in auto)
next
  case (conns_lookup hs r r1 app subjects live z r2)
  show ?case
    by (rule bindE_run_within [OF conns_lookup(2) [unfolded LookupMany_def] _ _ conns_lookup.IH [OF conns_lookup.prems] assms(3)])
      (use conns_lookup in auto)
next
  case (conns_kick_all hs r r1 app subject u r2)
  show ?case
    by (rule bindE_run_within [OF conns_kick_all(2) [unfolded KickAll_def] _ _ conns_kick_all.IH [OF conns_kick_all.prems] assms(3)])
      (use conns_kick_all in auto)
next
  case (conns_kick_one hs r r1 app subject i v r2)
  show ?case
    by (rule bindE_run_within [OF conns_kick_one(2) [unfolded KickOne_def] _ _ conns_kick_one.IH [OF conns_kick_one.prems] assms(3)])
      (use conns_kick_one in auto)
next
  case (conns_renew hs r r1 app subject "is" y r2)
  show ?case
  proof (cases "length is = 0")
    case True
    then show ?thesis using conns_renew by (simp add: Renew_def)
  next
    case False
    then have "bindE (ce_run C [(ConnKey app subject, CHExpire (trunc_div (ce_fieldTTL C) ns_per_s) is)]) (\<lambda>_. ret ()) r1 = (y, r2)"
      using conns_renew(2) by (simp add: Renew_def)
    then show ?thesis by (rule bindE_run_within [OF _ _ _ conns_renew.IH [OF conns_renew.prems] assms(3)]) (use conns_renew in auto)
  qed
next
  case conns_start
  then show ?case by (simp add: other_rule_def)
qed simp_all

lemma run_keeps_wf:
  assumes "conns_run C view K hs r r'" and "wf_hash (view r K)"
  shows "wf_hash (view r' K)"
proof -
  have "within {} PolicyLimit (int (length (view r K))) (view r K)"
    using assms(2) counted_le [of "{}" "view r K"] by (simp add: within_def)
  from run_keeps_within [OF assms(1) this] show ?thesis by (simp add: within_def)
qed

lemma Handshake_Inr:
  assumes "Handshake C app subject i meta p n live r = (Inr res, r')" and "wf_hash (view r (ConnKey app subject))"
  shows "\<exists>t. clock r \<le> t \<and> t \<le> clock r' \<and>
    (let riv = rivals (ce_codec C) (live_args live (cm_Node meta)) i (visible t (view r (ConnKey app subject))) in
       hr_Rejected res = refused p n (length riv) \<and>
       (hr_Rejected res \<longrightarrow> hr_Kicked res = []) \<and>
       (\<not> hr_Rejected res \<longrightarrow>
          hr_Kicked res = (if p = PolicyReplace
            then map (\<lambda>(c, m, _). \<lparr>ref_ConnID = c, ref_Node = mc_lua_node (ce_codec C) m\<rparr>) riv else []) \<and>
          view r' (ConnKey app subject) = (if p = PolicyReplace then [] else riv) @
            [(i, mc_Encode (ce_codec C) meta, Some (t + trunc_div (ce_fieldTTL C) ns_per_s * 1000))]))"
proof -
  let ?K = "ConnKey app subject"
  let ?c = "CHandshake i (mc_Encode (ce_codec C) meta) p n (trunc_div (ce_fieldTTL C) ns_per_s) (live_args live (cm_Node meta))"
  obtain rs r1 where run: "ce_run C [(?K, ?c)] r = (Inr rs, r1)" and
    ret: "(case rs of
          [RScript ReplyREJECT] \<Rightarrow> ret \<lparr>hr_Rejected = True, hr_Kicked = []\<rparr>
        | [RScript (ReplyOKKicked flat)] \<Rightarrow>
            ret \<lparr>hr_Rejected = False, hr_Kicked = map (\<lambda>(c, n). \<lparr>ref_ConnID = c, ref_Node = n\<rparr>) flat\<rparr>
        | _ \<Rightarrow> throw (Wrapped ''registry: handshake'')) r1 = (Inr res, r')"
    using assms(1) unfolding Handshake_def by (rule bindE_InrE)
  obtain t where t: "clock r \<le> t" "t \<le> clock r1" and ex: "exec_conns (ce_codec C) t [(?K, ?c)] (view r) = (rs, view r1)"
    using run_ok [OF run] by blast
  have wf: "wf_hash (visible t (view r ?K))" using assms(2) by (simp add: visible_def wf_filter)
  let ?riv = "rivals (ce_codec C) (live_args live (cm_Node meta)) i (visible t (view r ?K))"
  have r1: "r1 = r'" using ret by (auto split: list.splits conn_reply.splits script_reply.splits)
  show ?thesis
  proof (cases "refused p n (length ?riv)")
    case True
    then have "rs = [RScript ReplyREJECT]" using ex by (auto simp: handshakeScript_spec [OF wf])
    then show ?thesis using ret True t r1 by (intro exI [of _ t]) (auto simp: Let_def)
  next
    case False
    let ?new = "(if p = PolicyReplace then [] else ?riv) @
        [(i, mc_Encode (ce_codec C) meta, Some (t + trunc_div (ce_fieldTTL C) ns_per_s * 1000))]"
    have "rs = [RScript (ReplyOKKicked (if p = PolicyReplace
        then map (\<lambda>(c, m, _). (c, mc_lua_node (ce_codec C) m)) ?riv else []))] \<and> (view r)(?K := ?new) = view r1"
      using ex False by (auto simp: handshakeScript_spec [OF wf])
    then have rs: "rs = [RScript (ReplyOKKicked (if p = PolicyReplace
        then map (\<lambda>(c, m, _). (c, mc_lua_node (ce_codec C) m)) ?riv else []))]"
      and v: "view r1 ?K = ?new"
      by (metis fun_upd_same)+
    then have "res = \<lparr>hr_Rejected = False, hr_Kicked = (if p = PolicyReplace
        then map (\<lambda>(c, m, _). \<lparr>ref_ConnID = c, ref_Node = mc_lua_node (ce_codec C) m\<rparr>) ?riv else [])\<rparr>"
      using ret by (auto simp: case_prod_beta)
    then show ?thesis using False t r1 v by (intro exI [of _ t]) (simp add: Let_def)
  qed
qed

end

section \<open>The tables in memory\<close>

definition demo_codec :: "ConnMeta meta_codec" where
  "demo_codec = \<lparr>mc_Encode = (\<lambda>m. m), mc_Decode = Some, mc_lua_node = cm_Node\<rparr>"

definition demo_conns :: "(ConnMeta conn_tables \<times> int, ConnMeta) conns_env" where
  "demo_conns =
     \<lparr>ce_run = (\<lambda>cs (T, now). case exec_conns demo_codec now cs T of (rs, T') \<Rightarrow> (Inr rs, (T', now))),
      ce_codec = demo_codec, ce_fieldTTL = 1800 * ns_per_s\<rparr>"

interpretation demo_conns: conn_laws demo_conns fst snd
  by unfold_locales (auto simp: demo_conns_def split: prod.splits)

lemma demo_conns_laws: "conn_laws demo_conns fst snd"
  by (rule demo_conns.conn_laws_axioms)

section \<open>The policy of an application holds\<close>


definition demo_meta :: "string \<Rightarrow> ConnMeta" where
  "demo_meta n = \<lparr>cm_Node = n, cm_OS = ''ios'', cm_Mobile = True, cm_At = 5\<rparr>"

definition demo_world :: "ConnMeta conn_tables \<times> int" where
  "demo_world = (\<lambda>_. [], 1000)"

definition demo_world1 :: "ConnMeta conn_tables \<times> int" where
  "demo_world1 = snd (Handshake demo_conns ''a1'' ''u:1'' ''c1'' (demo_meta ''im-a'') PolicyReplace 0 [''im-a''] demo_world)"

definition demo_world2 :: "ConnMeta conn_tables \<times> int" where
  "demo_world2 = snd (Handshake demo_conns ''a1'' ''u:1'' ''c2'' (demo_meta ''im-b'') PolicyReplace 0 [''im-a'', ''im-b''] demo_world1)"

text \<open>After the second connection the node of the first one registers it again, without judgement.\<close>

definition demo_world3 :: "ConnMeta conn_tables \<times> int" where
  "demo_world3 = snd (Handshake demo_conns ''a1'' ''u:1'' ''c1'' (demo_meta ''im-a'') PolicyNone 0 [''im-a'', ''im-b''] demo_world2)"

definition demo_world4 :: "ConnMeta conn_tables \<times> int" where
  "demo_world4 = snd (Handshake demo_conns ''a1'' ''u:1'' ''c3'' (demo_meta ''im-b'') PolicyReplace 0 [''im-a'', ''im-b''] demo_world3)"

lemma conns_handshake_on:
  "conns_run C view K hs r r1 \<Longrightarrow> Handshake C app subject i meta p n live r1 = (x, r2) \<Longrightarrow> ConnKey app subject = K \<Longrightarrow>
   hs2 = hs @ [(i, p, n)] \<Longrightarrow> conns_run C view K hs2 r r2"
  using conns_handshake [of C view K hs r r1 app subject i meta p n live x r2] by simp

lemma demo_world3_run: "conns_run demo_conns fst (ConnKey ''a1'' ''u:1'')
    [(''c1'', PolicyReplace, 0), (''c2'', PolicyReplace, 0), (''c1'', PolicyNone, 0)] demo_world demo_world3"
proof -
  have 1: "conns_run demo_conns fst (ConnKey ''a1'' ''u:1'') [(''c1'', PolicyReplace, 0)] demo_world demo_world1"
    unfolding demo_world1_def by (rule conns_handshake_on [OF conns_start prod.collapse [symmetric]]) simp_all
  have 2: "conns_run demo_conns fst (ConnKey ''a1'' ''u:1'') [(''c1'', PolicyReplace, 0), (''c2'', PolicyReplace, 0)]
      demo_world demo_world2"
    unfolding demo_world2_def by (rule conns_handshake_on [OF 1 prod.collapse [symmetric]]) simp_all
  show ?thesis
    unfolding demo_world3_def by (rule conns_handshake_on [OF 2 prod.collapse [symmetric]]) simp_all
qed


text \<open>
  A handshake is decided on the connections of the subject that are visible, on a live node (all nodes when the
  caller names none) and not the one that comes in: it is refused exactly if the policy is reject and there is one,
  or the policy is limit and the limit is reached; an accepted one is registered with its time to live, under replace
  in place of the others, which are exactly the ones reported as kicked, otherwise next to them.
\<close>

theorem handshake_decides:
  assumes "conn_laws C view clock" and "wf_hash (view r (ConnKey app subject))"
    and "Handshake C app subject i meta p n live r = (Inr res, r')"
  shows "\<exists>t. clock r \<le> t \<and> t \<le> clock r' \<and>
    (let riv = rivals (ce_codec C) (live_args live (cm_Node meta)) i (visible t (view r (ConnKey app subject))) in
       hr_Rejected res = (p = PolicyReject \<and> length riv \<ge> 1 \<or> p = PolicyLimit \<and> int (length riv) \<ge> n) \<and>
       (hr_Rejected res \<longrightarrow> hr_Kicked res = []) \<and>
       (\<not> hr_Rejected res \<longrightarrow>
          hr_Kicked res = (if p = PolicyReplace
            then map (\<lambda>(c, m, _). \<lparr>ref_ConnID = c, ref_Node = mc_lua_node (ce_codec C) m\<rparr>) riv else []) \<and>
          view r' (ConnKey app subject) = (if p = PolicyReplace then [] else riv) @
            [(i, mc_Encode (ce_codec C) meta, Some (t + trunc_div (ce_fieldTTL C) ns_per_s * 1000))]))"
  using conn_laws.Handshake_Inr [OF assms(1,3,2)] unfolding refused_def .

theorem handshake_decides_witness:
  "map ref_ConnID (hr_Kicked (projr (fst (Handshake demo_conns ''a1'' ''u:1'' ''c2'' (demo_meta ''im-b'') PolicyReplace 0
      [''im-a'', ''im-b''] demo_world1)))) = [''c1''] \<and>
   fst demo_world2 (ConnKey ''a1'' ''u:1'') = [(''c2'', demo_meta ''im-b'', Some 1801000)]"
proof -
  let ?K = "ConnKey ''a1'' ''u:1''"
  have w1: "fst demo_world1 ?K = [(''c1'', demo_meta ''im-a'', Some 1801000)] \<and> snd demo_world1 = 1000" by code_simp
  have run: "Handshake demo_conns ''a1'' ''u:1'' ''c2'' (demo_meta ''im-b'') PolicyReplace 0 [''im-a'', ''im-b''] demo_world1 =
      (Inr \<lparr>hr_Rejected = False, hr_Kicked = [\<lparr>ref_ConnID = ''c1'', ref_Node = ''im-a''\<rparr>]\<rparr>, demo_world2)"
    unfolding demo_world2_def by (rule prod_eqI) (simp_all, code_simp)
  have s2: "snd demo_world2 = 1000" by code_simp
  have "wf_hash (fst demo_world1 ?K)" using w1 by (simp add: wf_hash_def)
  from handshake_decides [OF demo_conns_laws this run] obtain t where t: "1000 \<le> t" "t \<le> 1000" and
    "fst demo_world2 ?K = [(''c2'', mc_Encode (ce_codec demo_conns) (demo_meta ''im-b''),
        Some (t + trunc_div (ce_fieldTTL demo_conns) ns_per_s * 1000))]"
    using w1 s2 by (auto simp: Let_def)
  moreover have "mc_Encode (ce_codec demo_conns) (demo_meta ''im-b'') = demo_meta ''im-b''"
    "trunc_div (ce_fieldTTL demo_conns) ns_per_s * 1000 = 1800000"
    by (simp_all add: demo_conns_def demo_codec_def trunc_div_def)
  ultimately show ?thesis by (simp add: run)
qed

end
