(* ===== verification/Im_Liveness.thy ===== *)
theory Im_Liveness
  imports Im_Registry Aksign
begin

text \<open>
  Which gateway nodes are alive and which of them hold server streams of an application
  (\<^verbatim>\<open>internal/im/registry/liveness.go\<close>): the heartbeat tables in Redis, the snapshot every node keeps of them,
  and the single writer that brings the table of serving nodes up to date. A Go map is an association list with
  distinct keys, a \<^verbatim>\<open>map[string]bool\<close> that only holds true a list of its keys.
\<close>

section \<open>Heartbeat tables\<close>

datatype hb_cmd =
    HSET string string
  | HEXPIRE int "string list"
  | HDEL string
  | HGETALL
  | HEXISTS string

datatype hb_reply = HFields "(string \<times> string) list" | HBool bool | HDone

fun exec_hb :: "int \<Rightarrow> hb_cmd \<Rightarrow> string conn_hash \<Rightarrow> hb_reply \<times> string conn_hash" where
  "exec_hb t (HSET f v) h = (HDone, hash_HSET f v (visible t h))"
| "exec_hb t (HEXPIRE secs fs) h = (HDone, hash_HEXPIRE t secs fs (visible t h))"
| "exec_hb t (HDEL f) h = (HDone, hash_HDEL f (visible t h))"
| "exec_hb t HGETALL h = (HFields (hash_HGETALL (visible t h)), visible t h)"
| "exec_hb t (HEXISTS f) h = (HBool (f \<in> fst ` set (visible t h)), visible t h)"

record 'r live_env =
  le_run :: "(string \<times> hb_cmd) list \<Rightarrow> ('r, hb_reply list) io"
  le_now :: "'r \<Rightarrow> int"

record Liveness =
  lv_nodeID :: string
  lv_deadAfter :: int
  lv_live :: "(string \<times> int) list"
  lv_srv :: "(string \<times> (string \<times> int) list) list"
  lv_serving :: "string list"
  lv_tracked :: "string list"
  lv_everSrv :: "string list"
  lv_servingSig :: bool

definition NewLiveness :: "string \<Rightarrow> int \<Rightarrow> Liveness" where
  "NewLiveness nodeID deadAfter =
     \<lparr>lv_nodeID = nodeID, lv_deadAfter = deadAfter, lv_live = [], lv_srv = [], lv_serving = [], lv_tracked = [],
      lv_everSrv = [], lv_servingSig = False\<rparr>"

definition set_add :: "'a \<Rightarrow> 'a list \<Rightarrow> 'a list" where
  "set_add x xs = (if x \<in> set xs then xs else xs @ [x])"

definition set_del :: "'a \<Rightarrow> 'a list \<Rightarrow> 'a list" where
  "set_del x xs = filter (\<lambda>y. y \<noteq> x) xs"

definition put_kv :: "'k \<Rightarrow> 'v \<Rightarrow> ('k \<times> 'v) list \<Rightarrow> ('k \<times> 'v) list" where
  "put_kv k v m = filter (\<lambda>x. fst x \<noteq> k) m @ [(k, v)]"

definition nodeFieldTTLFactor :: int where "nodeFieldTTLFactor = 10"

definition fieldTTL :: "Liveness \<Rightarrow> int" where
  "fieldTTL l = wrap64 (lv_deadAfter l * nodeFieldTTLFactor)"

text \<open>The client sends whole seconds.\<close>

definition ttl_secs :: "Liveness \<Rightarrow> int" where
  "ttl_secs l = trunc_div (fieldTTL l) ns_per_s"

section \<open>Operations\<close>

definition Beat :: "'r live_env \<Rightarrow> Liveness \<Rightarrow> ('r, unit) io" where
  "Beat E l r =
     (let ts = FormatInt (le_now E r); ttl = ttl_secs l
      in bindE (le_run E ([(KeyNodes, HSET (lv_nodeID l) ts), (KeyNodes, HEXPIRE ttl [lv_nodeID l])] @
           concat (map (\<lambda>a. [(SrvKey a, HSET (lv_nodeID l) ts), (SrvKey a, HEXPIRE ttl [lv_nodeID l])]) (lv_serving l))))
         (\<lambda>_. ret ()) r)"

definition SelfPresent :: "'r live_env \<Rightarrow> Liveness \<Rightarrow> ('r, bool) io" where
  "SelfPresent E l = bindE (le_run E [(KeyNodes, HEXISTS (lv_nodeID l))]) (\<lambda>rs. ret (rs = [HBool True]))"

definition Deregister :: "'r live_env \<Rightarrow> Liveness \<Rightarrow> ('r, unit) io" where
  "Deregister E l =
     bindE (le_run E ((KeyNodes, HDEL (lv_nodeID l)) # map (\<lambda>a. (SrvKey a, HDEL (lv_nodeID l))) (lv_everSrv l))) (\<lambda>_. ret ())"

definition fresh :: "(string \<times> string) list \<Rightarrow> int \<Rightarrow> (string \<times> int) list" where
  "fresh raw cutoff =
     List.map_filter (\<lambda>(n, v). case ParseInt v of None \<Rightarrow> None | Some ts \<Rightarrow> if ts \<ge> cutoff then Some (n, ts) else None) raw"

definition hb_fields :: "hb_reply \<Rightarrow> (string \<times> string) list" where
  "hb_fields r = (case r of HFields fs \<Rightarrow> fs | _ \<Rightarrow> [])"

text \<open>The snapshot is replaced only when the pipeline succeeded.\<close>

definition Refresh :: "'r live_env \<Rightarrow> Liveness \<Rightarrow> ('r, Liveness) io" where
  "Refresh E l =
     bindE (le_run E ((KeyNodes, HGETALL) # map (\<lambda>a. (SrvKey a, HGETALL)) (lv_tracked l))) (\<lambda>rs r.
       let cutoff = le_now E r - Milliseconds (lv_deadAfter l);
           live = put_kv (lv_nodeID l) (le_now E r) (fresh (hb_fields (hd rs)) cutoff);
           srv = map (\<lambda>(a, x). (a, filter (\<lambda>(n, _). n \<in> fst ` set live) (fresh (hb_fields x) cutoff))) (zip (lv_tracked l) (tl rs))
       in ret (l\<lparr>lv_live := live, lv_srv := srv\<rparr>) r)"

definition beatAndRefresh :: "'r live_env \<Rightarrow> Liveness \<Rightarrow> 'r \<Rightarrow> Liveness \<times> 'r" where
  "beatAndRefresh E l r =
     (case Beat E l r of (_, r1) \<Rightarrow>
      case Refresh E l r1 of (Inl e, r2) \<Rightarrow> (l, r2) | (Inr l', r2) \<Rightarrow> (l', r2))"

text \<open>The commands \<^verbatim>\<open>writeServingTable\<close> sends for the sets it has read under the lock.\<close>

definition serving_cmds :: "Liveness \<Rightarrow> int \<Rightarrow> string list \<Rightarrow> string list \<Rightarrow> (string \<times> hb_cmd) list" where
  "serving_cmds l now apps on =
     concat (map (\<lambda>a. if a \<in> set on
                      then [(SrvKey a, HSET (lv_nodeID l) (FormatInt now)), (SrvKey a, HEXPIRE (ttl_secs l) [lv_nodeID l])]
                      else [(SrvKey a, HDEL (lv_nodeID l))]) apps)"

definition write_snapshot :: "'r live_env \<Rightarrow> Liveness \<Rightarrow> string list \<Rightarrow> string list \<Rightarrow> ('r, unit) io" where
  "write_snapshot E l apps on r =
     (if length apps = 0 then (Inr (), r)
      else bindE (le_run E (serving_cmds l (le_now E r) apps on)) (\<lambda>_. ret ()) r)"

definition writeServingTable :: "'r live_env \<Rightarrow> Liveness \<Rightarrow> 'r \<Rightarrow> 'r" where
  "writeServingTable E l r = snd (write_snapshot E l (lv_everSrv l) (lv_serving l) r)"

definition TrackApp :: "string \<Rightarrow> Liveness \<Rightarrow> Liveness" where
  "TrackApp app l = l\<lparr>lv_tracked := set_add app (lv_tracked l)\<rparr>"

text \<open>The part of \<^verbatim>\<open>SetServing\<close> under the lock, and the signal sent after it; a full channel already holds it.\<close>

definition set_serving_mem :: "string \<Rightarrow> bool \<Rightarrow> Liveness \<Rightarrow> Liveness" where
  "set_serving_mem app on l =
     (let l1 = (if on then l\<lparr>lv_serving := set_add app (lv_serving l), lv_tracked := set_add app (lv_tracked l)\<rparr>
                else l\<lparr>lv_serving := set_del app (lv_serving l)\<rparr>)
      in l1\<lparr>lv_everSrv := set_add app (lv_everSrv l1)\<rparr>)"

definition SetServing :: "string \<Rightarrow> bool \<Rightarrow> Liveness \<Rightarrow> Liveness" where
  "SetServing app on l = (set_serving_mem app on l)\<lparr>lv_servingSig := True\<rparr>"

definition DropLocal :: "string \<Rightarrow> Liveness \<Rightarrow> Liveness" where
  "DropLocal node l =
     l\<lparr>lv_live := filter (\<lambda>x. fst x \<noteq> node) (lv_live l),
       lv_srv := map (\<lambda>(a, m). (a, filter (\<lambda>x. fst x \<noteq> node) m)) (lv_srv l)\<rparr>"

definition LiveNodes :: "Liveness \<Rightarrow> string list" where
  "LiveNodes l =
     sort (map fst (lv_live l) @ (if lv_nodeID l \<notin> fst ` set (lv_live l) then [lv_nodeID l] else []))"

definition IsLive :: "string \<Rightarrow> Liveness \<Rightarrow> bool" where
  "IsLive node l = (if node = lv_nodeID l then True else node \<in> fst ` set (lv_live l))"

definition srv_nodes :: "Liveness \<Rightarrow> string \<Rightarrow> string list" where
  "srv_nodes l app = (case map_of (lv_srv l) app of None \<Rightarrow> [] | Some m \<Rightarrow> map fst m)"

definition ServerNodes :: "Liveness \<Rightarrow> string \<Rightarrow> string list" where
  "ServerNodes l app =
     sort (srv_nodes l app @
           (if app \<in> set (lv_serving l) \<and> lv_nodeID l \<notin> set (srv_nodes l app) then [lv_nodeID l] else []))"

section \<open>Redis behind the heartbeats\<close>

locale live_laws =
  fixes E :: "'r live_env" and view :: "'r \<Rightarrow> string \<Rightarrow> string conn_hash" and clock :: "'r \<Rightarrow> int"
  assumes le_ok: "le_run E cs r = (Inr rs, r') \<Longrightarrow>
      \<exists>t. clock r \<le> t \<and> t \<le> clock r' \<and> exec_pipe (exec_hb t) cs (view r) = (rs, view r')"
    and le_err: "le_run E cs r = (Inl e, r') \<Longrightarrow>
      \<exists>t n. clock r \<le> t \<and> t \<le> clock r' \<and> view r' = snd (exec_pipe (exec_hb t) (take n cs) (view r))"

definition demo_live_env :: "((string \<Rightarrow> string conn_hash) \<times> int) live_env" where
  "demo_live_env =
     \<lparr>le_run = (\<lambda>cs (T, now). case exec_pipe (exec_hb now) cs T of (rs, T') \<Rightarrow> (Inr rs, (T', now))), le_now = (\<lambda>w. wrap64 (snd w))\<rparr>"

interpretation demo_live: live_laws demo_live_env fst snd
  by unfold_locales (auto simp: demo_live_env_def split: prod.splits)

lemma demo_live_laws: "live_laws demo_live_env fst snd"
  by (rule demo_live.live_laws_axioms)

section \<open>What a reader of a table sees\<close>

text \<open>The nodes whose heartbeat in the table is no older than \<^verbatim>\<open>cutoff\<close>: what \<^verbatim>\<open>fresh\<close> leaves.\<close>

definition beats :: "int \<Rightarrow> string conn_hash \<Rightarrow> string set" where
  "beats cutoff h = {n. \<exists>v ts e. (n, v, e) \<in> set h \<and> ParseInt v = Some ts \<and> ts \<ge> cutoff}"

lemma fst_fresh: "fst ` set (fresh (hash_HGETALL h) cutoff) = beats cutoff h"
  by (force simp: fresh_def beats_def HGETALL_mem List.map_filter_def image_iff split: option.splits if_splits)

text \<open>What the table holds for one node.\<close>

definition fields_for :: "string \<Rightarrow> string conn_hash \<Rightarrow> (string \<times> int option) set" where
  "fields_for n h = {(v, e). (n, v, e) \<in> set h}"

lemma fields_for_empty: "fields_for n h = {} \<longleftrightarrow> n \<notin> fst ` set h"
  by (force simp: fields_for_def)

text \<open>
  What others do between two states of Redis, and what time does: they add nothing to a field of the node and take it
  away only once it has expired.
\<close>

definition left_alone :: "('r \<Rightarrow> string \<Rightarrow> string conn_hash) \<Rightarrow> ('r \<Rightarrow> int) \<Rightarrow> string \<Rightarrow> 'r \<Rightarrow> 'r \<Rightarrow> bool" where
  "left_alone view clock n r r' \<longleftrightarrow> clock r \<le> clock r' \<and>
     (\<forall>a. fields_for n (view r' (SrvKey a)) \<subseteq> fields_for n (view r (SrvKey a)) \<and>
        (\<forall>(v, e)\<in>fields_for n (view r (SrvKey a)).
           (case e of None \<Rightarrow> True | Some u \<Rightarrow> clock r' < u) \<longrightarrow> (v, e) \<in> fields_for n (view r' (SrvKey a))))"

section \<open>One writer and many announcers\<close>

text \<open>
  The goroutine of \<^verbatim>\<open>Run\<close>, which alone handles ticks and signals, interleaved with any number of calls of
  \<^verbatim>\<open>SetServing\<close>. Between two accesses to the shared fields or to Redis another goroutine may run, so the
  counter says where \<^verbatim>\<open>Run\<close> is and what it has read. \<^verbatim>\<open>st_senders\<close> counts the calls that have released
  the lock but not yet sent their signal; \<^verbatim>\<open>st_calls\<close> remembers the calls, the latest first, and
  \<^verbatim>\<open>st_stamp\<close> and \<^verbatim>\<open>st_at\<close> what the node's and Redis' clock showed at the last write. With
  \<^verbatim>\<open>outside\<close> there are also the heartbeats that are sent from another goroutine, after a lost connection.
\<close>

datatype run_pc = PcIdle | PcBeat "string list" | PcRefresh | PcTaken | PcSnap "string list" "string list"

record 'r run_state =
  st_mem :: Liveness
  st_pc :: run_pc
  st_senders :: nat
  st_other :: "string list option"
  st_failed :: bool
  st_calls :: "(string \<times> bool) list"
  st_stamp :: int
  st_at :: int
  st_world :: 'r

inductive run_step ::
  "bool \<Rightarrow> 'r live_env \<Rightarrow> ('r \<Rightarrow> string \<Rightarrow> string conn_hash) \<Rightarrow> ('r \<Rightarrow> int) \<Rightarrow> 'r run_state \<Rightarrow> 'r run_state \<Rightarrow> bool"
  for outside E view clock where
  step_set: "run_step outside E view clock s
      (s\<lparr>st_mem := set_serving_mem app on (st_mem s), st_senders := Suc (st_senders s), st_calls := (app, on) # st_calls s\<rparr>)"
| step_send: "st_senders s = Suc n \<Longrightarrow>
    run_step outside E view clock s (s\<lparr>st_mem := (st_mem s)\<lparr>lv_servingSig := True\<rparr>, st_senders := n\<rparr>)"
| step_track: "run_step outside E view clock s (s\<lparr>st_mem := TrackApp app (st_mem s)\<rparr>)"
| step_drop: "run_step outside E view clock s (s\<lparr>st_mem := DropLocal node (st_mem s)\<rparr>)"
| step_signal: "st_pc s = PcIdle \<Longrightarrow> lv_servingSig (st_mem s) \<Longrightarrow>
    run_step outside E view clock s (s\<lparr>st_mem := (st_mem s)\<lparr>lv_servingSig := False\<rparr>, st_pc := PcTaken\<rparr>)"
| step_tick: "st_pc s = PcIdle \<Longrightarrow> run_step outside E view clock s (s\<lparr>st_pc := PcBeat (lv_serving (st_mem s))\<rparr>)"
| step_beat: "st_pc s = PcBeat on \<Longrightarrow>
    run_step outside E view clock s
      (s\<lparr>st_pc := PcRefresh, st_world := snd (Beat E ((st_mem s)\<lparr>lv_serving := on\<rparr>) (st_world s))\<rparr>)"
| step_refresh: "st_pc s = PcRefresh \<Longrightarrow> Refresh E (st_mem s) (st_world s) = (x, r') \<Longrightarrow>
    run_step outside E view clock s
      (s\<lparr>st_pc := PcTaken, st_mem := (case x of Inl e \<Rightarrow> st_mem s | Inr l \<Rightarrow> l), st_world := r'\<rparr>)"
| step_snap: "st_pc s = PcTaken \<Longrightarrow>
    run_step outside E view clock s (s\<lparr>st_pc := PcSnap (lv_everSrv (st_mem s)) (lv_serving (st_mem s))\<rparr>)"
| step_write: "st_pc s = PcSnap apps on \<Longrightarrow> write_snapshot E (st_mem s) apps on (st_world s) = (y, r') \<Longrightarrow>
    run_step outside E view clock s
      (s\<lparr>st_pc := PcIdle, st_failed := (case y of Inl e \<Rightarrow> True | Inr u \<Rightarrow> False), st_stamp := le_now E (st_world s),
         st_at := clock (st_world s), st_world := r'\<rparr>)"
| step_other_read: "outside \<Longrightarrow> run_step outside E view clock s (s\<lparr>st_other := Some (lv_serving (st_mem s))\<rparr>)"
| step_other_beat: "outside \<Longrightarrow> st_other s = Some on \<Longrightarrow>
    run_step outside E view clock s
      (s\<lparr>st_other := None, st_world := snd (Beat E ((st_mem s)\<lparr>lv_serving := on\<rparr>) (st_world s))\<rparr>)"
| step_foreign: "left_alone view clock (lv_nodeID (st_mem s)) (st_world s) r' \<Longrightarrow>
    run_step outside E view clock s (s\<lparr>st_world := r'\<rparr>)"

inductive run_reach ::
  "bool \<Rightarrow> 'r live_env \<Rightarrow> ('r \<Rightarrow> string \<Rightarrow> string conn_hash) \<Rightarrow> ('r \<Rightarrow> int) \<Rightarrow> 'r run_state \<Rightarrow> 'r run_state \<Rightarrow> bool"
  for outside E view clock s0 where
  reach_start: "run_reach outside E view clock s0 s0"
| reach_step: "run_reach outside E view clock s0 s \<Longrightarrow> run_step outside E view clock s t \<Longrightarrow> run_reach outside E view clock s0 t"

definition run_start :: "string \<Rightarrow> int \<Rightarrow> 'r \<Rightarrow> 'r run_state" where
  "run_start nodeID deadAfter r =
     \<lparr>st_mem = NewLiveness nodeID deadAfter, st_pc = PcIdle, st_senders = 0, st_other = None, st_failed = False,
      st_calls = [], st_stamp = 0, st_at = 0, st_world = r\<rparr>"

text \<open>
  The table against the memory: an application that is served has the field of the last write, until it expires; one
  that is not has none.
\<close>

definition listed :: "('r \<Rightarrow> string \<Rightarrow> string conn_hash) \<Rightarrow> ('r \<Rightarrow> int) \<Rightarrow> 'r run_state \<Rightarrow> string \<Rightarrow> bool" where
  "listed view clock s a \<longleftrightarrow>
     (\<exists>e \<ge> st_at s + ttl_secs (st_mem s) * 1000. clock (st_world s) < e \<longrightarrow>
        (FormatInt (st_stamp s), Some e) \<in> fields_for (lv_nodeID (st_mem s)) (view (st_world s) (SrvKey a)))"

definition unlisted :: "('r \<Rightarrow> string \<Rightarrow> string conn_hash) \<Rightarrow> 'r run_state \<Rightarrow> string \<Rightarrow> bool" where
  "unlisted view s a \<longleftrightarrow> fields_for (lv_nodeID (st_mem s)) (view (st_world s) (SrvKey a)) = {}"

definition table_agrees :: "('r \<Rightarrow> string \<Rightarrow> string conn_hash) \<Rightarrow> ('r \<Rightarrow> int) \<Rightarrow> 'r run_state \<Rightarrow> bool" where
  "table_agrees view clock s \<longleftrightarrow>
     (\<forall>a\<in>set (lv_everSrv (st_mem s)). if a \<in> set (lv_serving (st_mem s)) then listed view clock s a else unlisted view s a)"

definition change_pending :: "'r run_state \<Rightarrow> bool" where
  "change_pending s \<longleftrightarrow> lv_servingSig (st_mem s) \<or> st_senders s > 0"

definition calls_ok :: "'r run_state \<Rightarrow> bool" where
  "calls_ok s \<longleftrightarrow>
     (\<forall>a. (a \<in> set (lv_everSrv (st_mem s)) \<longleftrightarrow> map_of (st_calls s) a \<noteq> None) \<and>
          (a \<in> set (lv_serving (st_mem s)) \<longleftrightarrow> map_of (st_calls s) a = Some True))"

definition run_inv :: "('r \<Rightarrow> string \<Rightarrow> string conn_hash) \<Rightarrow> ('r \<Rightarrow> int) \<Rightarrow> 'r run_state \<Rightarrow> bool" where
  "run_inv view clock s \<longleftrightarrow>
     calls_ok s \<and> (\<forall>a. a \<notin> set (lv_everSrv (st_mem s)) \<longrightarrow> unlisted view s a) \<and>
     (case st_pc s of
        PcIdle \<Rightarrow> table_agrees view clock s \<or> change_pending s \<or> st_failed s
      | PcBeat on \<Rightarrow> set on \<subseteq> set (lv_everSrv (st_mem s))
      | PcSnap apps on \<Rightarrow> set apps \<subseteq> set (lv_everSrv (st_mem s)) \<and>
          (apps = lv_everSrv (st_mem s) \<and> on = lv_serving (st_mem s) \<or> change_pending s)
      | _ \<Rightarrow> True)"

lemma exec_pipe_append:
  "exec_pipe ex (cs1 @ cs2) T =
     (case exec_pipe ex cs1 T of (rs1, T1) \<Rightarrow> case exec_pipe ex cs2 T1 of (rs2, T2) \<Rightarrow> (rs1 @ rs2, T2))"
proof (induction cs1 arbitrary: T)
  case (Cons x cs1)
  obtain k c where x: "x = (k, c)" by (cases x)
  show ?case unfolding x append_Cons exec_pipe.simps Cons.IH by (simp add: case_prod_beta)
qed (simp add: case_prod_beta)

lemma SrvKey_inj [simp]: "SrvKey a = SrvKey b \<longleftrightarrow> a = b"
  by (simp add: SrvKey_def)

lemma SrvKey_node [simp]: "SrvKey a \<noteq> KeyNodes"
  by (simp add: SrvKey_def KeyNodes_def)

text \<open>A pipeline leaves alone what it does not name, and a reading one only drops what has expired.\<close>

lemma exec_pipe_other: "k \<notin> fst ` set cs \<Longrightarrow> snd (exec_pipe ex cs T) k = T k"
  by (induction cs arbitrary: T) (auto simp: case_prod_beta split: prod.splits)

lemma exec_reads_subset:
  "\<forall>(k, c)\<in>set cs. c = HGETALL \<Longrightarrow> set (snd (exec_pipe (exec_hb t) cs T) k) \<subseteq> set (T k)"
proof (induction cs arbitrary: T)
  case (Cons x cs)
  obtain k2 where x: "x = (k2, HGETALL)" using Cons.prems by auto
  have "set (snd (exec_pipe (exec_hb t) cs (T(k2 := visible t (T k2)))) k) \<subseteq> set ((T(k2 := visible t (T k2))) k)"
    by (rule Cons.IH) (use Cons.prems in simp)
  then show ?case by (auto simp: x case_prod_beta visible_def split: if_splits)
qed simp

lemma serving_cmds_effect:
  assumes "a \<in> set apps"
  shows "fields_for (lv_nodeID l) (snd (exec_pipe (exec_hb t) (serving_cmds l now apps on) T) (SrvKey a)) =
     (if a \<in> set on then {(FormatInt now, Some (t + ttl_secs l * 1000))} else {})"
  using assms
proof (induction apps arbitrary: T rule: rev_induct)
  case (snoc b apps)
  let ?one = "if b \<in> set on
      then [(SrvKey b, HSET (lv_nodeID l) (FormatInt now)), (SrvKey b, HEXPIRE (ttl_secs l) [lv_nodeID l])]
      else [(SrvKey b, HDEL (lv_nodeID l))]"
  let ?T = "snd (exec_pipe (exec_hb t) (serving_cmds l now apps on) T)"
  have cmds: "serving_cmds l now (apps @ [b]) on = serving_cmds l now apps on @ ?one" by (simp add: serving_cmds_def)
  have split: "snd (exec_pipe (exec_hb t) (serving_cmds l now (apps @ [b]) on) T) = snd (exec_pipe (exec_hb t) ?one ?T)"
    unfolding cmds exec_pipe_append by (simp add: case_prod_beta)
  show ?case
  proof (cases "a = b")
    case True
    then show ?thesis
      unfolding split
      by (auto simp: fields_for_def hash_HSET_def hash_HDEL_def hash_HEXPIRE_def visible_def field_alive_def)
  next
    case False
    then have "snd (exec_pipe (exec_hb t) ?one ?T) (SrvKey a) = ?T (SrvKey a)" by (intro exec_pipe_other) auto
    then show ?thesis unfolding split using snoc False by simp
  qed
qed simp

lemma serving_cmds_keys: "fst ` set (serving_cmds l now apps on) \<subseteq> SrvKey ` set apps"
  by (auto simp: serving_cmds_def split: if_splits)

lemma Refresh_fields:
  assumes "Refresh E l r = (Inr l2, r')"
  shows "lv_nodeID l2 = lv_nodeID l \<and> lv_serving l2 = lv_serving l \<and> lv_everSrv l2 = lv_everSrv l \<and>
    lv_servingSig l2 = lv_servingSig l \<and> lv_tracked l2 = lv_tracked l \<and> lv_deadAfter l2 = lv_deadAfter l"
  using assms unfolding Refresh_def by (rule bindE_InrE) (auto simp: Let_def)

context live_laws
begin

lemma run_other:
  assumes "le_run E cs r = (x, r')" and "k \<notin> fst ` set cs"
  shows "view r' k = view r k"
proof (cases x)
  case (Inl e)
  then obtain t n where "view r' = snd (exec_pipe (exec_hb t) (take n cs) (view r))" using le_err assms(1) by blast
  moreover have "k \<notin> fst ` set (take n cs)" using assms(2) by (auto dest: in_set_takeD)
  ultimately show ?thesis by (simp add: exec_pipe_other)
next
  case (Inr rs)
  then obtain t where "view r' = snd (exec_pipe (exec_hb t) cs (view r))" using le_ok assms(1) by (metis snd_conv)
  then show ?thesis using assms(2) by (simp add: exec_pipe_other)
qed

lemma bindE_run_world: "snd (bindE (le_run E cs) (\<lambda>_. ret ()) r) = snd (le_run E cs r)"
  by (cases "le_run E cs r"; cases "fst (le_run E cs r)") (auto simp: bindE_def)

lemma write_snapshot_other:
  assumes "write_snapshot E l apps on r = (y, r')" and "a \<notin> set apps"
  shows "view r' (SrvKey a) = view r (SrvKey a)"
proof (cases "length apps = 0")
  case False
  let ?cs = "serving_cmds l (le_now E r) apps on"
  have "r' = snd (le_run E ?cs r)"
    using assms(1) False bindE_run_world [of ?cs r] by (simp add: write_snapshot_def)
  moreover have "SrvKey a \<notin> fst ` set ?cs" using serving_cmds_keys [of l "le_now E r" apps on] assms(2) by auto
  ultimately show ?thesis using run_other [of ?cs r "fst (le_run E ?cs r)"] by simp
qed (use assms in \<open>simp add: write_snapshot_def\<close>)

lemma Beat_other:
  assumes "a \<notin> set (lv_serving l)"
  shows "view (snd (Beat E l r)) (SrvKey a) = view r (SrvKey a)"
proof -
  let ?cs = "[(KeyNodes, HSET (lv_nodeID l) (FormatInt (le_now E r))), (KeyNodes, HEXPIRE (ttl_secs l) [lv_nodeID l])] @
    concat (map (\<lambda>a. [(SrvKey a, HSET (lv_nodeID l) (FormatInt (le_now E r))), (SrvKey a, HEXPIRE (ttl_secs l) [lv_nodeID l])])
      (lv_serving l))"
  have "snd (Beat E l r) = snd (le_run E ?cs r)" unfolding Beat_def Let_def by (rule bindE_run_world)
  moreover have "SrvKey a \<notin> fst ` set ?cs" using assms SrvKey_node [of a] by auto
  ultimately show ?thesis using run_other [of ?cs r "fst (le_run E ?cs r)"] by simp
qed

lemma Refresh_subset:
  assumes "Refresh E l r = (x, r')"
  shows "set (view r' k) \<subseteq> set (view r k)"
proof -
  let ?cs = "(KeyNodes, HGETALL) # map (\<lambda>a. (SrvKey a, HGETALL)) (lv_tracked l)"
  obtain y r1 where y: "le_run E ?cs r = (y, r1)" by fastforce
  have "r' = r1" using assms y by (cases y) (auto simp: Refresh_def bindE_def Let_def)
  moreover have "set (view r1 k) \<subseteq> set (view r k)"
  proof (cases y)
    case (Inl e)
    then obtain t n where v: "view r1 = snd (exec_pipe (exec_hb t) (take n ?cs) (view r))" using le_err y by blast
    have "\<forall>(k, c)\<in>set (take n ?cs). c = HGETALL" by (auto dest!: in_set_takeD)
    from exec_reads_subset [OF this] show ?thesis unfolding v .
  next
    case (Inr rs)
    then obtain t where v: "view r1 = snd (exec_pipe (exec_hb t) ?cs (view r))" using le_ok y by (metis snd_conv)
    show ?thesis unfolding v by (rule exec_reads_subset) auto
  qed
  ultimately show ?thesis by simp
qed

lemma write_snapshot_ok:
  assumes "write_snapshot E l apps on r = (Inr y, r')" and "a \<in> set apps"
  shows "\<exists>t \<ge> clock r. fields_for (lv_nodeID l) (view r' (SrvKey a)) =
    (if a \<in> set on then {(FormatInt (le_now E r), Some (t + ttl_secs l * 1000))} else {})"
proof -
  have "bindE (le_run E (serving_cmds l (le_now E r) apps on)) (\<lambda>_. ret ()) r = (Inr y, r')"
    using assms by (auto simp: write_snapshot_def split: if_splits)
  then obtain rs r1 where "le_run E (serving_cmds l (le_now E r) apps on) r = (Inr rs, r1)" and "ret () r1 = (Inr y, r')"
    by (rule bindE_InrE)
  then obtain t where "clock r \<le> t" "view r' = snd (exec_pipe (exec_hb t) (serving_cmds l (le_now E r) apps on) (view r))"
    using le_ok by (metis prod.inject ret_apply snd_conv)
  then show ?thesis using serving_cmds_effect [OF assms(2)] by metis
qed

lemma unlisted_cong:
  "fields_for (lv_nodeID (st_mem s)) (view (st_world t) (SrvKey a)) \<subseteq> fields_for (lv_nodeID (st_mem s)) (view (st_world s) (SrvKey a)) \<Longrightarrow>
   lv_nodeID (st_mem t) = lv_nodeID (st_mem s) \<Longrightarrow> unlisted view s a \<Longrightarrow> unlisted view t a"
  by (simp add: unlisted_def)

lemma left_alone_listed:
  assumes "left_alone view clock (lv_nodeID (st_mem s)) (st_world s) r'" and "listed view clock s a"
  shows "listed view clock (s\<lparr>st_world := r'\<rparr>) a"
proof -
  obtain e where e: "e \<ge> st_at s + ttl_secs (st_mem s) * 1000" "clock (st_world s) < e \<longrightarrow>
      (FormatInt (st_stamp s), Some e) \<in> fields_for (lv_nodeID (st_mem s)) (view (st_world s) (SrvKey a))"
    using assms(2) unfolding listed_def by blast
  have "(FormatInt (st_stamp s), Some e) \<in> fields_for (lv_nodeID (st_mem s)) (view r' (SrvKey a))" if "clock r' < e"
    using assms(1) e(2) that unfolding left_alone_def by fastforce
  then show ?thesis using e(1) by (auto simp: listed_def)
qed

lemma run_step_inv:
  assumes "run_step False E view clock s s'" and "run_inv view clock s"
  shows "run_inv view clock s'"
  using assms
proof (induction rule: run_step.induct)
  case (step_beat s on)
  then have "view (snd (Beat E ((st_mem s)\<lparr>lv_serving := on\<rparr>) (st_world s))) (SrvKey a) = view (st_world s) (SrvKey a)"
    if "a \<notin> set (lv_everSrv (st_mem s))" for a
    using that by (intro Beat_other) (auto simp: run_inv_def)
  then show ?case using step_beat by (simp add: run_inv_def calls_ok_def unlisted_def)
next
  case (step_refresh s x r')
  have f: "fields_for n (view r' (SrvKey a)) \<subseteq> fields_for n (view (st_world s) (SrvKey a))" for n a
    using Refresh_subset [OF step_refresh.hyps(2), of "SrvKey a"] by (auto simp: fields_for_def)
  have "lv_nodeID l = lv_nodeID (st_mem s) \<and> lv_serving l = lv_serving (st_mem s) \<and> lv_everSrv l = lv_everSrv (st_mem s)"
    if "x = Inr l" for l
    using Refresh_fields [of E "st_mem s" "st_world s" l r'] step_refresh.hyps(2) that by simp
  moreover have "fields_for (lv_nodeID (st_mem s)) (view r' (SrvKey a)) = {}" if "unlisted view s a" for a
    using f [of "lv_nodeID (st_mem s)" a] that by (simp add: unlisted_def)
  ultimately show ?case
    using step_refresh.prems by (cases x) (simp_all add: run_inv_def calls_ok_def unlisted_def)
next
  case (step_write s apps on y r')
  let ?t = "s\<lparr>st_pc := PcIdle, st_failed := (case y of Inl e \<Rightarrow> True | Inr u \<Rightarrow> False), st_stamp := le_now E (st_world s),
     st_at := clock (st_world s), st_world := r'\<rparr>"
  have apps: "set apps \<subseteq> set (lv_everSrv (st_mem s))" using step_write by (simp add: run_inv_def)
  have un: "unlisted view ?t a" if "a \<notin> set (lv_everSrv (st_mem s))" for a
  proof -
    have "a \<notin> set apps" "unlisted view s a" using that apps step_write.prems by (auto simp: run_inv_def)
    then show ?thesis using write_snapshot_other [OF step_write.hyps(2), of a] by (simp add: unlisted_def)
  qed
  have c: "calls_ok ?t" using step_write.prems by (simp add: run_inv_def calls_ok_def)
  show ?case
  proof (cases "change_pending s")
    case True
    then have "change_pending ?t" by (simp add: change_pending_def)
    then show ?thesis using un c by (simp add: run_inv_def)
  next
    case False
    then have snap: "apps = lv_everSrv (st_mem s)" "on = lv_serving (st_mem s)"
      using step_write.prems step_write.hyps(1) by (simp_all add: run_inv_def)
    show ?thesis
    proof (cases y)
      case (Inl e)
      then show ?thesis using un c by (simp add: run_inv_def)
    next
      case (Inr u)
      have "if a \<in> set (lv_serving (st_mem s)) then listed view clock ?t a else unlisted view ?t a"
        if ever: "a \<in> set (lv_everSrv (st_mem s))" for a
      proof -
        obtain t where "t \<ge> clock (st_world s)" "fields_for (lv_nodeID (st_mem s)) (view r' (SrvKey a)) =
            (if a \<in> set on then {(FormatInt (le_now E (st_world s)), Some (t + ttl_secs (st_mem s) * 1000))} else {})"
          using write_snapshot_ok [of "st_mem s" apps on "st_world s" u r' a] step_write.hyps(2) Inr snap(1) ever by auto
        then show ?thesis unfolding snap(2) by (auto simp: listed_def unlisted_def intro!: exI [of _ "t + ttl_secs (st_mem s) * 1000"])
      qed
      then have "table_agrees view clock ?t" by (simp add: table_agrees_def)
      then show ?thesis using un c by (simp add: run_inv_def)
    qed
  qed
next
  case (step_foreign s r')
  have f: "fields_for (lv_nodeID (st_mem s)) (view r' (SrvKey a)) \<subseteq> fields_for (lv_nodeID (st_mem s)) (view (st_world s) (SrvKey a))" for a
    using step_foreign.hyps by (simp add: left_alone_def)
  then have un: "unlisted view (s\<lparr>st_world := r'\<rparr>) a" if "unlisted view s a" for a
    using that by (auto simp: unlisted_def)
  then have "table_agrees view clock (s\<lparr>st_world := r'\<rparr>)" if "table_agrees view clock s"
    using that left_alone_listed [OF step_foreign.hyps] by (simp add: table_agrees_def)
  then show ?case
    using step_foreign.prems un by (auto simp: run_inv_def calls_ok_def change_pending_def split: run_pc.splits)
next
  case (step_set s app on)
  then show ?case
    by (auto simp: run_inv_def calls_ok_def change_pending_def unlisted_def set_serving_mem_def set_add_def set_del_def Let_def
        split: run_pc.splits)
next
  case (step_tick s)
  then show ?case by (auto simp: run_inv_def calls_ok_def unlisted_def)
qed (auto simp: run_inv_def calls_ok_def change_pending_def table_agrees_def listed_def unlisted_def TrackApp_def DropLocal_def
  ttl_secs_def fieldTTL_def split: run_pc.splits)

lemma run_reach_inv: "run_reach False E view clock s0 s \<Longrightarrow> run_inv view clock s0 \<Longrightarrow> run_inv view clock s"
  by (induction rule: run_reach.induct) (auto intro: run_step_inv)

lemma run_reach_stamp:
  assumes "\<And>w. in_int64 (le_now E w)" and "run_reach out E view clock (run_start nodeID deadAfter r) s"
  shows "in_int64 (st_stamp s)"
  using assms(2)
proof (induction rule: run_reach.induct)
  case reach_start
  show ?case by (simp add: run_start_def in_int64_def)
next
  case (reach_step s t)
  from reach_step.hyps(2) reach_step.IH show ?case by cases (use assms(1) in auto)
qed

lemma run_reach_node: "run_reach out E view clock s0 s \<Longrightarrow>
    lv_nodeID (st_mem s) = lv_nodeID (st_mem s0) \<and> lv_deadAfter (st_mem s) = lv_deadAfter (st_mem s0)"
proof (induction rule: run_reach.induct)
  case (reach_step s t)
  from reach_step.hyps(2) reach_step.IH show ?case
    by cases (auto simp: set_serving_mem_def TrackApp_def DropLocal_def Let_def dest: Refresh_fields split: sum.splits)
qed simp

end

text \<open>
  C26. No change of what a node serves is lost, however the announcements interleave with the writer and however many
  signals are merged into one. Take a node whose identifier no table has yet, and a moment when the writer is at rest,
  no announcement is under way and the last write succeeded. If the last thing that was announced of an application is
  that it is served, every reader that looks before that write's field expires and accepts heartbeats as old as that
  write finds the node among the servers of the application; if the last thing announced is that it is not served, or
  nothing ever was, no field of the node is left in its table. The heartbeats sent from another goroutine after a lost
  connection are not part of these runs.
\<close>

theorem serving_announcements_converge:
  assumes "live_laws E view clock" and "\<And>w. in_int64 (le_now E w)" and "\<And>a. nodeID \<notin> fst ` set (view r (SrvKey a))"
    and "run_reach False E view clock (run_start nodeID deadAfter r) s"
    and "st_pc s = PcIdle" and "\<not> change_pending s" and "\<not> st_failed s"
  shows "if map_of (st_calls s) app = Some True
    then \<forall>t cutoff. clock (st_world s) \<le> t \<and> t < st_at s + ttl_secs (NewLiveness nodeID deadAfter) * 1000 \<and> cutoff \<le> st_stamp s \<longrightarrow>
       nodeID \<in> beats cutoff (visible t (view (st_world s) (SrvKey app)))
    else nodeID \<notin> fst ` set (view (st_world s) (SrvKey app))"
proof -
  have "run_inv view clock (run_start nodeID deadAfter r)"
    using assms(3) by (auto simp: run_inv_def run_start_def NewLiveness_def calls_ok_def table_agrees_def unlisted_def fields_for_empty)
  then have "run_inv view clock s" by (rule live_laws.run_reach_inv [OF assms(1,4)])
  then have I: "calls_ok s" "\<And>a. a \<notin> set (lv_everSrv (st_mem s)) \<Longrightarrow> unlisted view s a" "table_agrees view clock s"
    using assms(5-7) by (simp_all add: run_inv_def)
  have n: "lv_nodeID (st_mem s) = nodeID" and d: "lv_deadAfter (st_mem s) = deadAfter"
    using live_laws.run_reach_node [OF assms(1,4)] by (simp_all add: run_start_def NewLiveness_def)
  then have ttl: "ttl_secs (st_mem s) = ttl_secs (NewLiveness nodeID deadAfter)"
    by (simp add: ttl_secs_def fieldTTL_def NewLiveness_def)
  show ?thesis
  proof (cases "map_of (st_calls s) app = Some True")
    case True
    then have "app \<in> set (lv_everSrv (st_mem s))" "app \<in> set (lv_serving (st_mem s))" using I(1) by (auto simp: calls_ok_def)
    then have "listed view clock s app" using I(3) by (force simp: table_agrees_def)
    then obtain e where e: "e \<ge> st_at s + ttl_secs (st_mem s) * 1000" "clock (st_world s) < e \<Longrightarrow>
        (nodeID, FormatInt (st_stamp s), Some e) \<in> set (view (st_world s) (SrvKey app))"
      unfolding listed_def fields_for_def n by blast
    have "nodeID \<in> beats cutoff (visible t (view (st_world s) (SrvKey app)))"
      if "clock (st_world s) \<le> t" "t < st_at s + ttl_secs (NewLiveness nodeID deadAfter) * 1000" "cutoff \<le> st_stamp s" for t cutoff
    proof -
      have "(nodeID, FormatInt (st_stamp s), Some e) \<in> set (visible t (view (st_world s) (SrvKey app)))"
        using e that ttl by (simp add: visible_def field_alive_def)
      moreover have "ParseInt (FormatInt (st_stamp s)) = Some (st_stamp s)"
        by (rule ParseInt_FormatInt) (rule live_laws.run_reach_stamp [OF assms(1,2,4)])
      ultimately show ?thesis using that(3) unfolding beats_def by blast
    qed
    then show ?thesis using True by simp
  next
    case False
    then have "unlisted view s app"
      using I by (cases "app \<in> set (lv_everSrv (st_mem s))") (auto simp: calls_ok_def table_agrees_def)
    then show ?thesis using False by (simp add: unlisted_def n fields_for_empty)
  qed
qed

text \<open>The steps as functions, to evaluate runs.\<close>

definition do_set :: "string \<Rightarrow> bool \<Rightarrow> 'r run_state \<Rightarrow> 'r run_state" where
  "do_set app on s = s\<lparr>st_mem := set_serving_mem app on (st_mem s), st_senders := Suc (st_senders s), st_calls := (app, on) # st_calls s\<rparr>"

definition do_send :: "'r run_state \<Rightarrow> 'r run_state" where
  "do_send s = s\<lparr>st_mem := (st_mem s)\<lparr>lv_servingSig := True\<rparr>, st_senders := st_senders s - 1\<rparr>"

definition do_write :: "'r live_env \<Rightarrow> ('r \<Rightarrow> int) \<Rightarrow> 'r run_state \<Rightarrow> 'r run_state" where
  "do_write E clock s =
     (let apps = lv_everSrv (st_mem s); on = lv_serving (st_mem s) in
      case write_snapshot E (st_mem s) apps on (st_world s) of (y, r') \<Rightarrow>
        s\<lparr>st_pc := PcSnap apps on\<rparr>\<lparr>st_pc := PcIdle, st_failed := (case y of Inl e \<Rightarrow> True | Inr u \<Rightarrow> False),
          st_stamp := le_now E (st_world s), st_at := clock (st_world s), st_world := r'\<rparr>)"

definition do_signal :: "'r run_state \<Rightarrow> 'r run_state" where
  "do_signal s = s\<lparr>st_mem := (st_mem s)\<lparr>lv_servingSig := False\<rparr>, st_pc := PcTaken\<rparr>"

lemma reach_announce:
  assumes "run_reach outside E view clock s0 s" and "st_senders s = 0"
  shows "run_reach outside E view clock s0 (do_send (do_set app on s))"
proof -
  have "run_reach outside E view clock s0 (do_set app on s)" unfolding do_set_def by (rule reach_step [OF assms(1) step_set])
  moreover have "st_senders (do_set app on s) = Suc 0" using assms(2) by (simp add: do_set_def)
  ultimately show ?thesis
    using reach_step [OF _ step_send, of outside E view clock s0 "do_set app on s" 0] by (simp add: do_send_def)
qed

lemma reach_signal:
  assumes "run_reach outside E view clock s0 s" and "st_pc s = PcIdle" and "lv_servingSig (st_mem s)"
  shows "run_reach outside E view clock s0 (do_signal s)"
  unfolding do_signal_def by (rule reach_step [OF assms(1) step_signal [OF assms(2,3)]])

lemma reach_write:
  assumes "run_reach outside E view clock s0 s" and "st_pc s = PcTaken"
  shows "run_reach outside E view clock s0 (do_write E clock s)"
proof -
  let ?m = "s\<lparr>st_pc := PcSnap (lv_everSrv (st_mem s)) (lv_serving (st_mem s))\<rparr>"
  have m: "run_reach outside E view clock s0 ?m" by (rule reach_step [OF assms(1) step_snap [OF assms(2)]])
  obtain y r' where w: "write_snapshot E (st_mem s) (lv_everSrv (st_mem s)) (lv_serving (st_mem s)) (st_world s) = (y, r')"
    by fastforce
  then have "write_snapshot E (st_mem ?m) (lv_everSrv (st_mem s)) (lv_serving (st_mem s)) (st_world ?m) = (y, r')" by simp
  from reach_step [OF m step_write [OF _ this]] show ?thesis by (simp add: do_write_def Let_def w)
qed

definition demo_start :: "((string \<Rightarrow> string conn_hash) \<times> int) run_state" where
  "demo_start = run_start ''im-a'' (10 * ns_per_s) (\<lambda>_. [], 1000)"

definition demo_serving :: "((string \<Rightarrow> string conn_hash) \<times> int) run_state" where
  "demo_serving = do_write demo_live_env snd (do_signal (do_send (do_set ''a1'' True demo_start)))"

lemma demo_serving_reach: "run_reach outside demo_live_env fst snd demo_start demo_serving"
proof -
  have 2: "run_reach outside demo_live_env fst snd demo_start (do_send (do_set ''a1'' True demo_start))"
    by (rule reach_announce [OF reach_start]) (simp add: demo_start_def run_start_def)
  have 3: "run_reach outside demo_live_env fst snd demo_start (do_signal (do_send (do_set ''a1'' True demo_start)))"
    by (rule reach_signal [OF 2]) code_simp+
  show ?thesis unfolding demo_serving_def by (rule reach_write [OF 3]) (simp add: do_signal_def)
qed

lemma demo_serving_rest:
  "st_pc demo_serving = PcIdle" "lv_servingSig (st_mem demo_serving) = False" "st_senders demo_serving = 0"
  "st_failed demo_serving = False" "lv_everSrv (st_mem demo_serving) = [''a1'']" "lv_serving (st_mem demo_serving) = [''a1'']"
  "lv_nodeID (st_mem demo_serving) = ''im-a''"
  "st_calls demo_serving = [(''a1'', True)]" "st_at demo_serving = 1000" "st_stamp demo_serving = 1000" "snd (st_world demo_serving) = 1000"
  by code_simp+

theorem serving_announcements_converge_witness:
  "''im-a'' \<in> beats 500 (visible 11000 (fst (st_world demo_serving) (SrvKey ''a1''))) \<and>
   ''im-a'' \<notin> fst ` set (fst (st_world demo_serving) (SrvKey ''a2''))"
proof -
  have now: "in_int64 (le_now demo_live_env w)" for w by (simp add: demo_live_env_def in_int64_wrap64)
  have none: "''im-a'' \<notin> fst ` set (fst (\<lambda>_. [], 1000) (SrvKey a))" for a by simp
  have rest: "\<not> change_pending demo_serving" "\<not> st_failed demo_serving" using demo_serving_rest by (simp_all add: change_pending_def)
  have ttl: "ttl_secs (NewLiveness ''im-a'' (10 * ns_per_s)) * 1000 = 100000" by code_simp
  note C = serving_announcements_converge [OF demo_live_laws now none demo_serving_reach [unfolded demo_start_def] demo_serving_rest(1) rest]
  show ?thesis using C [of "''a1''"] C [of "''a2''"] unfolding ttl by (simp add: demo_serving_rest)
qed

text \<open>
  A heartbeat from another goroutine (the one that runs after the connection to Redis was lost) does write the
  table, with the set it read earlier: here the node stops serving and takes its entry back between the two, and
  the stale write puts the entry in again, with nothing pending that would correct it before the next tick.
\<close>

definition demo_stale :: "((string \<Rightarrow> string conn_hash) \<times> int) run_state" where
  "demo_stale =
     (let s1 = demo_serving\<lparr>st_other := Some (lv_serving (st_mem demo_serving))\<rparr>;
          s2 = do_write demo_live_env snd (do_signal (do_send (do_set ''a1'' False s1)))
      in s2\<lparr>st_other := None, st_world := snd (Beat demo_live_env ((st_mem s2)\<lparr>lv_serving := [''a1'']\<rparr>) (st_world s2))\<rparr>)"

lemma outside_beat_leaves_stale_entry:
  "run_reach True demo_live_env fst snd demo_start demo_stale \<and> st_pc demo_stale = PcIdle \<and> \<not> change_pending demo_stale \<and>
   \<not> st_failed demo_stale \<and> lv_serving (st_mem demo_stale) = [] \<and>
   map fst (fst (st_world demo_stale) (SrvKey ''a1'')) = [''im-a'']"
proof -
  let ?s1 = "demo_serving\<lparr>st_other := Some (lv_serving (st_mem demo_serving))\<rparr>"
  let ?s2 = "do_write demo_live_env snd (do_signal (do_send (do_set ''a1'' False ?s1)))"
  have 1: "run_reach True demo_live_env fst snd demo_start ?s1" by (rule reach_step [OF demo_serving_reach step_other_read]) simp
  have 2: "run_reach True demo_live_env fst snd demo_start (do_send (do_set ''a1'' False ?s1))"
    by (rule reach_announce [OF 1]) (simp add: demo_serving_rest)
  have 3: "run_reach True demo_live_env fst snd demo_start (do_signal (do_send (do_set ''a1'' False ?s1)))"
    by (rule reach_signal [OF 2]) (simp_all add: do_send_def do_set_def demo_serving_rest)
  have 4: "run_reach True demo_live_env fst snd demo_start ?s2" by (rule reach_write [OF 3]) (simp add: do_signal_def)
  have "st_other ?s2 = Some [''a1'']" by code_simp
  from reach_step [OF 4 step_other_beat [OF _ this]] have "run_reach True demo_live_env fst snd demo_start demo_stale"
    by (simp add: demo_stale_def Let_def)
  moreover have "st_pc demo_stale = PcIdle" "\<not> change_pending demo_stale" "\<not> st_failed demo_stale"
    "lv_serving (st_mem demo_stale) = []" "map fst (fst (st_world demo_stale) (SrvKey ''a1'')) = [''im-a'']"
    by code_simp+
  ultimately show ?thesis by blast
qed

section \<open>Snapshots\<close>

definition snapshot_ok :: "Liveness \<Rightarrow> bool" where
  "snapshot_ok l \<longleftrightarrow>
     distinct (map fst (lv_live l)) \<and>
     (\<forall>(a, m)\<in>set (lv_srv l). distinct (map fst m) \<and> fst ` set m \<subseteq> insert (lv_nodeID l) (fst ` set (lv_live l)))"

lemma set_LiveNodes: "set (LiveNodes l) = insert (lv_nodeID l) (fst ` set (lv_live l))"
  by (auto simp: LiveNodes_def)

lemma IsLive_iff: "IsLive n l \<longleftrightarrow> n \<in> set (LiveNodes l)"
  by (auto simp: IsLive_def set_LiveNodes)

lemma DropLocal_LiveNodes: "n \<noteq> lv_nodeID l \<Longrightarrow> set (LiveNodes (DropLocal n l)) = set (LiveNodes l) - {n}"
  by (auto simp: set_LiveNodes DropLocal_def)

lemma visible_idem [simp]: "visible t (visible t h) = visible t h"
  by (simp add: visible_def)

lemma exec_reads:
  assumes "\<forall>(k, c)\<in>set cs. c = HGETALL"
  shows "fst (exec_pipe (exec_hb t) cs T) = map (\<lambda>(k, _). HFields (hash_HGETALL (visible t (T k)))) cs"
  using assms
proof (induction cs arbitrary: T)
  case (Cons x cs)
  obtain k where x: "x = (k, HGETALL)" using Cons.prems by auto
  let ?T = "T(k := visible t (T k))"
  have "fst (exec_pipe (exec_hb t) cs ?T) = map (\<lambda>(k, _). HFields (hash_HGETALL (visible t (?T k)))) cs"
    by (rule Cons.IH) (use Cons.prems in simp)
  also have "\<dots> = map (\<lambda>(k, _). HFields (hash_HGETALL (visible t (T k)))) cs" by (rule map_cong) auto
  finally show ?case by (simp add: x case_prod_beta)
qed simp

lemma map_of_zip_map: "a \<in> set as \<Longrightarrow> map_of (map (\<lambda>(a, x). (a, f x)) (zip as (map g as))) a = Some (f (g a))"
  by (induction as) auto

lemma fst_filter_in: "fst ` set (filter (\<lambda>(n, _). n \<in> X) xs) = fst ` set xs \<inter> X"
  by force

lemma fst_put_kv [simp]: "fst ` set (put_kv k v m) = insert k (fst ` set m)"
  by (force simp: put_kv_def)

text \<open>
  After a refresh the node takes exactly those nodes for alive whose last heartbeat in Redis is no older than the
  time after which a node counts as dead, and itself; and for servers of an application exactly those of them that have
  such a heartbeat in the table of the application too, and itself while it serves it.
\<close>

theorem refresh_sees_the_living:
  assumes "live_laws E view clock" and "Refresh E l r = (Inr l2, r')"
  shows "\<exists>t. clock r \<le> t \<and> t \<le> clock r' \<and>
    (let cutoff = le_now E r' - Milliseconds (lv_deadAfter l) in
       set (LiveNodes l2) = insert (lv_nodeID l) (beats cutoff (visible t (view r KeyNodes))) \<and>
       (\<forall>app\<in>set (lv_tracked l). set (ServerNodes l2 app) =
          (beats cutoff (visible t (view r (SrvKey app))) \<inter> set (LiveNodes l2)) \<union>
          (if app \<in> set (lv_serving l) then {lv_nodeID l} else {})))"
proof -
  let ?cs = "(KeyNodes, HGETALL) # map (\<lambda>a. (SrvKey a, HGETALL)) (lv_tracked l)"
  obtain rs r1 where run: "le_run E ?cs r = (Inr rs, r1)" and
    "(let cutoff = le_now E r1 - Milliseconds (lv_deadAfter l);
           live = put_kv (lv_nodeID l) (le_now E r1) (fresh (hb_fields (hd rs)) cutoff);
           srv = map (\<lambda>(a, x). (a, filter (\<lambda>(n, _). n \<in> fst ` set live) (fresh (hb_fields x) cutoff))) (zip (lv_tracked l) (tl rs))
       in ret (l\<lparr>lv_live := live, lv_srv := srv\<rparr>) r1) = (Inr l2, r')"
    using assms(2) unfolding Refresh_def by (rule bindE_InrE)
  moreover obtain t where t: "clock r \<le> t" "t \<le> clock r1" and "exec_pipe (exec_hb t) ?cs (view r) = (rs, view r1)"
    using live_laws.le_ok [OF assms(1) run] by blast
  then have rs: "rs = map (\<lambda>(k, _). HFields (hash_HGETALL (visible t (view r k)))) ?cs"
    using exec_reads [of ?cs t "view r"] by auto
  let ?cut = "le_now E r' - Milliseconds (lv_deadAfter l)"
  let ?live = "put_kv (lv_nodeID l) (le_now E r') (fresh (hash_HGETALL (visible t (view r KeyNodes))) ?cut)"
  let ?f = "\<lambda>x. filter (\<lambda>(n, _). n \<in> fst ` set ?live) (fresh (hb_fields x) ?cut)"
  let ?g = "\<lambda>a. HFields (hash_HGETALL (visible t (view r (SrvKey a))))"
  have r1: "r1 = r'" and l2: "l2 = l\<lparr>lv_live := ?live,
      lv_srv := map (\<lambda>(a, x). (a, ?f x)) (zip (lv_tracked l) (map ?g (lv_tracked l)))\<rparr>"
    using calculation(2) rs by (auto simp: Let_def hb_fields_def comp_def)
  have L: "set (LiveNodes l2) = insert (lv_nodeID l) (beats ?cut (visible t (view r KeyNodes)))"
    by (simp add: set_LiveNodes l2 fst_fresh)
  have S: "set (ServerNodes l2 app) = (beats ?cut (visible t (view r (SrvKey app))) \<inter> set (LiveNodes l2)) \<union>
      (if app \<in> set (lv_serving l) then {lv_nodeID l} else {})" if "app \<in> set (lv_tracked l)" for app
  proof -
    have "map_of (lv_srv l2) app = Some (?f (?g app))" using that by (simp add: l2 map_of_zip_map)
    moreover have "fst ` set (?f (?g app)) = beats ?cut (visible t (view r (SrvKey app))) \<inter> set (LiveNodes l2)"
      unfolding fst_filter_in L by (simp add: fst_fresh hb_fields_def)
    ultimately have "set (srv_nodes l2 app) = beats ?cut (visible t (view r (SrvKey app))) \<inter> set (LiveNodes l2)"
      by (simp add: srv_nodes_def)
    moreover have "lv_serving l2 = lv_serving l" "lv_nodeID l2 = lv_nodeID l" by (simp_all add: l2)
    ultimately show ?thesis by (auto simp: ServerNodes_def)
  qed
  show ?thesis using t r1 L S by (intro exI [of _ t]) (simp add: Let_def)
qed

definition demo_beats :: "(string \<Rightarrow> string conn_hash) \<times> int" where
  "demo_beats =
     ((\<lambda>_. [])(KeyNodes := [(''im-b'', ''9'', Some 150), (''im-c'', ''1'', Some 140)],
              SrvKey ''a1'' := [(''im-b'', ''9'', Some 150), (''im-d'', ''9'', Some 150)]), 12)"

definition demo_liveness :: Liveness where
  "demo_liveness = (NewLiveness ''im-a'' (10 * ns_per_ms))\<lparr>lv_tracked := [''a1'']\<rparr>"

definition demo_refreshed :: Liveness where
  "demo_refreshed = (case fst (Refresh demo_live_env demo_liveness demo_beats) of Inl e \<Rightarrow> demo_liveness | Inr l \<Rightarrow> l)"

theorem refresh_sees_the_living_witness:
  "set (LiveNodes demo_refreshed) = {''im-a'', ''im-b''} \<and> ServerNodes demo_refreshed ''a1'' = [''im-b'']"
proof -
  have "case fst (Refresh demo_live_env demo_liveness demo_beats) of Inl e \<Rightarrow> False | Inr l \<Rightarrow> True" by code_simp
  then have r: "Refresh demo_live_env demo_liveness demo_beats = (Inr demo_refreshed, snd (Refresh demo_live_env demo_liveness demo_beats))"
    unfolding demo_refreshed_def
    by (cases "fst (Refresh demo_live_env demo_liveness demo_beats)") (simp_all add: prod_eq_iff)
  have c: "snd demo_beats = 12" "snd (snd (Refresh demo_live_env demo_liveness demo_beats)) = 12" by code_simp+
  from refresh_sees_the_living [OF demo_live_laws r]
  have "set (LiveNodes demo_refreshed) =
      insert ''im-a'' (beats (le_now demo_live_env (snd (Refresh demo_live_env demo_liveness demo_beats)) -
        Milliseconds (lv_deadAfter demo_liveness)) (visible 12 (fst demo_beats KeyNodes)))"
    unfolding c by (auto simp: Let_def demo_liveness_def NewLiveness_def)
  moreover have "le_now demo_live_env (snd (Refresh demo_live_env demo_liveness demo_beats)) -
        Milliseconds (lv_deadAfter demo_liveness) = 2" by code_simp
  moreover have "beats 2 (visible 12 (fst demo_beats KeyNodes)) = {''im-b''}"
  proof -
    have "visible 12 (fst demo_beats KeyNodes) = [(''im-b'', ''9'', Some 150), (''im-c'', ''1'', Some 140)]"
      "ParseInt ''9'' = Some 9" "ParseInt ''1'' = Some 1" by code_simp+
    then show ?thesis by (auto simp: beats_def)
  qed
  moreover have "ServerNodes demo_refreshed ''a1'' = [''im-b'']" by code_simp
  ultimately show ?thesis by simp
qed

section \<open>A node dropped from the snapshot\<close>

text \<open>
  \<^verbatim>\<open>DropLocal\<close> touches the memory of its node alone, but the handshake script is given that memory as the list of
  live nodes: until the next refresh a handshake that is accepted here deletes every connection of its subject that the
  shared table has for the dropped node, however alive that node is.
\<close>

theorem dropped_node_loses_its_connections:
  assumes "conn_laws C view clock" and "wf_hash (view r (ConnKey app subject))"
    and "\<And>m. mc_lua_node (ce_codec C) (mc_Encode (ce_codec C) m) = cm_Node m"
    and "node \<noteq> lv_nodeID l" and "cm_Node meta = lv_nodeID l"
    and "Handshake C app subject i meta p n (LiveNodes (DropLocal node l)) r = (Inr res, r')" and "\<not> hr_Rejected res"
  shows "\<forall>(cid, m, e)\<in>set (view r' (ConnKey app subject)). mc_lua_node (ce_codec C) m \<noteq> node"
proof -
  let ?live = "LiveNodes (DropLocal node l)"
  have "cm_Node meta \<in> set ?live" by (simp add: set_LiveNodes DropLocal_def assms(5))
  then have args: "live_args ?live (cm_Node meta) = ?live" by (auto simp: live_args_def)
  have ne: "?live \<noteq> []" "node \<notin> set ?live"
    using set_LiveNodes [of "DropLocal node l"] DropLocal_LiveNodes [OF assms(4)] by (metis empty_set insert_not_empty, blast)
  obtain t where "view r' (ConnKey app subject) =
      (if p = PolicyReplace then [] else rivals (ce_codec C) ?live i (visible t (view r (ConnKey app subject)))) @
        [(i, mc_Encode (ce_codec C) meta, Some (t + trunc_div (ce_fieldTTL C) ns_per_s * 1000))]"
    using conn_laws.Handshake_Inr [OF assms(1,6,2)] assms(7) unfolding args by (auto simp: Let_def)
  then show ?thesis using ne assms(3-5) by (auto simp: rivals_def split: if_splits)
qed

definition demo_full :: Liveness where
  "demo_full = (NewLiveness ''im-a'' (10 * ns_per_s))\<lparr>lv_live := [(''im-a'', 1000), (''im-b'', 1000)]\<rparr>"

definition demo_two :: "(ConnMeta conn_tables \<times> int)" where
  "demo_two = ((\<lambda>_. [])(ConnKey ''a1'' ''u:1'' := [(''c1'', demo_meta ''im-b'', Some 1801000)]), 1000)"

theorem dropped_node_loses_its_connections_witness:
  "IsLive ''im-b'' demo_full \<and>
   ''im-b'' \<notin> (\<lambda>(cid, m, e). cm_Node m) ` set (fst (snd (Handshake demo_conns ''a1'' ''u:1'' ''c2'' (demo_meta ''im-a'')
      PolicyLimit 5 (LiveNodes (DropLocal ''im-b'' demo_full)) demo_two)) (ConnKey ''a1'' ''u:1''))"
proof -
  let ?run = "Handshake demo_conns ''a1'' ''u:1'' ''c2'' (demo_meta ''im-a'') PolicyLimit 5 (LiveNodes (DropLocal ''im-b'' demo_full)) demo_two"
  have "case fst ?run of Inl e \<Rightarrow> False | Inr res \<Rightarrow> \<not> hr_Rejected res" by code_simp
  then obtain res where r: "?run = (Inr res, snd ?run)" "\<not> hr_Rejected res"
    by (cases "fst ?run") (simp_all add: prod_eq_iff)
  have w: "wf_hash (fst demo_two (ConnKey ''a1'' ''u:1''))" by (simp add: demo_two_def wf_hash_def)
  have l: "mc_lua_node (ce_codec demo_conns) (mc_Encode (ce_codec demo_conns) m) = cm_Node m" for m
    by (simp add: demo_conns_def demo_codec_def)
  have n: "''im-b'' \<noteq> lv_nodeID demo_full" "cm_Node (demo_meta ''im-a'') = lv_nodeID demo_full"
    by (simp_all add: demo_full_def NewLiveness_def demo_meta_def)
  from dropped_node_loses_its_connections [OF demo_conns_laws w l n r]
  have "\<forall>(cid, m, e)\<in>set (fst (snd ?run) (ConnKey ''a1'' ''u:1'')). mc_lua_node (ce_codec demo_conns) m \<noteq> ''im-b''" .
  moreover have "mc_lua_node (ce_codec demo_conns) = cm_Node" by (simp add: demo_conns_def demo_codec_def)
  moreover have "IsLive ''im-b'' demo_full" by code_simp
  ultimately show ?thesis by auto
qed

end
