(* ===== verification/Im_Hub.thy ===== *)
theory Im_Hub
  imports Im_Registry
begin

text \<open>
  The router in the memory of a gateway node (\<^verbatim>\<open>internal/im/hub\<close>): its connections and server streams, delivery
  to a server, pushing to clients, kicking. The interfaces it is given (connections, streams, registry, liveness,
  publisher, settings) are parameters acting on an opaque world. A Go map is an association list with distinct keys;
  the entries of connections, which goroutines share by pointer, live in a heap and are referred to by position.
\<close>

section \<open>State\<close>

record Conn =
  cn_ID :: string
  cn_Token :: string

record connEntry =
  en_conn :: Conn
  en_meta :: ConnMeta
  en_established :: bool
  en_delivered :: bool

type_synonym stream = nat

record 'r Hub =
  hb_nodeID :: string
  hb_conns :: "(string \<times> (string \<times> nat) list) list"
  hb_entries :: "connEntry list"
  hb_byToken :: "(string \<times> Conn list) list"
  hb_streams :: "(string \<times> stream list) list"
  hb_teardowns :: nat
  hb_world :: 'r

datatype ProtoKind = EVENT_KIND_CONNECTED | EVENT_KIND_DISCONNECTED

datatype ConnectResponse =
    RespEvent ProtoKind string string string bool string string int
  | RespInbound string string string

record 'r hub_env =
  conn_Send :: "Conn \<Rightarrow> string \<Rightarrow> 'r \<Rightarrow> bool \<times> 'r"
  conn_Close :: "Conn \<Rightarrow> int \<Rightarrow> string \<Rightarrow> 'r \<Rightarrow> 'r"
  stream_Send :: "stream \<Rightarrow> ConnectResponse \<Rightarrow> ('r, unit) io"
  he_Publish :: "string \<Rightarrow> Envelope \<Rightarrow> ('r, int) io"
  he_LookupMany :: "string \<Rightarrow> string list \<Rightarrow> string list \<Rightarrow> ('r, (string \<times> ConnMeta) list list) io"
  he_KickAll :: "string \<Rightarrow> string \<Rightarrow> ('r, ConnRef list) io"
  he_KickOne :: "string \<Rightarrow> string \<Rightarrow> string \<Rightarrow> ('r, ConnRef option) io"
  he_LiveNodes :: "'r \<Rightarrow> string list"
  he_ServerNodes :: "string \<Rightarrow> 'r \<Rightarrow> string list"
  he_TrackApp :: "string \<Rightarrow> 'r \<Rightarrow> 'r"
  he_SetServing :: "string \<Rightarrow> bool \<Rightarrow> 'r \<Rightarrow> 'r"
  he_DropLocal :: "string \<Rightarrow> 'r \<Rightarrow> 'r"
  he_apps :: "string \<Rightarrow> 'r \<Rightarrow> AppConfig option"
  he_nowMs :: "'r \<Rightarrow> int"
  he_Marshal :: "EventBody \<Rightarrow> string"
  he_Unmarshal :: "string \<Rightarrow> EventBody option"

definition hub_New :: "string \<Rightarrow> 'r \<Rightarrow> 'r Hub" where
  "hub_New nodeID r =
     \<lparr>hb_nodeID = nodeID, hb_conns = [], hb_entries = [], hb_byToken = [], hb_streams = [], hb_teardowns = 0, hb_world = r\<rparr>"

definition hub_key :: "string \<Rightarrow> string \<Rightarrow> string" where
  "hub_key app subject = app @ [CHR 0x00] @ subject"

fun splitKey :: "string \<Rightarrow> string \<times> string" where
  "splitKey [] = ([], [])"
| "splitKey (c # k) = (if c = CHR 0x00 then ([], k) else case splitKey k of (a, b) \<Rightarrow> (c # a, b))"

definition hash32 :: "string \<Rightarrow> 32 word" where
  "hash32 s = fnv32a s"

text \<open>Go maps: reading gives the empty value for a missing key.\<close>

definition mget :: "'k \<Rightarrow> ('k \<times> 'v list) list \<Rightarrow> 'v list" where
  "mget k m = (case map_of m k of None \<Rightarrow> [] | Some v \<Rightarrow> v)"

definition mput :: "'k \<Rightarrow> 'v \<Rightarrow> ('k \<times> 'v) list \<Rightarrow> ('k \<times> 'v) list" where
  "mput k v m = (if k \<in> fst ` set m then map (\<lambda>x. if fst x = k then (k, v) else x) m else m @ [(k, v)])"

definition mdel :: "'k \<Rightarrow> ('k \<times> 'v) list \<Rightarrow> ('k \<times> 'v) list" where
  "mdel k m = filter (\<lambda>x. fst x \<noteq> k) m"

text \<open>An operation of an interface, run on the world inside the hub.\<close>

definition on_world :: "('r \<Rightarrow> 'a \<times> 'r) \<Rightarrow> 'r Hub \<Rightarrow> 'a \<times> 'r Hub" where
  "on_world f h = (case f (hb_world h) of (x, r) \<Rightarrow> (x, h\<lparr>hb_world := r\<rparr>))"

definition touch :: "('r \<Rightarrow> 'r) \<Rightarrow> 'r Hub \<Rightarrow> 'r Hub" where
  "touch f h = h\<lparr>hb_world := f (hb_world h)\<rparr>"

section \<open>Delivery to a server\<close>

definition localStream :: "string \<Rightarrow> string \<Rightarrow> 'r Hub \<Rightarrow> stream option" where
  "localStream app subject h =
     (let list = mget app (hb_streams h)
      in if length list = 0 then None
         else Some (list ! unat (hash32 subject mod word_of_nat (length list))))"

definition toResponse :: "'r hub_env \<Rightarrow> Envelope \<Rightarrow> ConnectResponse option" where
  "toResponse E e =
     (if env_Type e = TypeEvt
      then (case he_Unmarshal E (env_Payload e) of
              None \<Rightarrow> None
            | Some b \<Rightarrow>
                let kind = (if eb_Kind b = EventConnected then EVENT_KIND_CONNECTED else EVENT_KIND_DISCONNECTED)
                in Some (RespEvent kind (env_Subject e) (env_ConnID e) (eb_OS b) (eb_Mobile b) (eb_UA b) (eb_Reason b) (eb_At b)))
      else Some (RespInbound (env_Subject e) (env_ConnID e) (env_Payload e)))"

text \<open>The loop over the route from position \<^verbatim>\<open>i\<close> on; \<^verbatim>\<open>Hop\<close> is cut to 16 bits.\<close>

fun deliver_loop :: "'r hub_env \<Rightarrow> Envelope \<Rightarrow> nat \<Rightarrow> string list \<Rightarrow> 'r Hub \<Rightarrow> bool \<times> 'r Hub" where
  "deliver_loop E e i [] h = (False, h)"
| "deliver_loop E e i (target # rest) h =
     (let e1 = e\<lparr>env_Hop := word_of_nat (i + 1)\<rparr> in
      case on_world (he_Publish E target e1) h of
        (Inl err, h1) \<Rightarrow> deliver_loop E e1 (i + 1) rest h1
      | (Inr n, h1) \<Rightarrow>
          if n > 0 then (True, h1)
          else deliver_loop E e1 (i + 1) rest (touch (he_DropLocal E target) h1))"

definition Deliver :: "'r hub_env \<Rightarrow> Envelope \<Rightarrow> 'r Hub \<Rightarrow> bool \<times> 'r Hub" where
  "Deliver E e h =
     (case localStream (env_App e) (env_Subject e) h of
        Some s \<Rightarrow>
          (case toResponse E e of
             None \<Rightarrow> (False, h)
           | Some resp \<Rightarrow>
               (case on_world (stream_Send E s resp) h of
                  (Inl err, h1) \<Rightarrow> (False, h1)
                | (Inr u, h1) \<Rightarrow> (True, h1)))
      | None \<Rightarrow>
          (let h1 = (if env_Route e = None then touch (he_TrackApp E (env_App e)) h else h);
               e1 = (if env_Route e = None
                     then e\<lparr>env_Route := Some (Rank (filter (\<lambda>n. n \<noteq> hb_nodeID h) (he_ServerNodes E (env_App e) (hb_world h1)))
                              (env_Subject e)), env_Hop := 0\<rparr>
                     else e)
           in deliver_loop E e1 (unat (env_Hop e1)) (drop (unat (env_Hop e1)) (route_list e1)) h1))"

definition emit :: "'r hub_env \<Rightarrow> string \<Rightarrow> Subject \<Rightarrow> string \<Rightarrow> EventBody \<Rightarrow> 'r Hub \<Rightarrow> bool \<times> 'r Hub" where
  "emit E app sub connID body h =
     (let body1 = (if eb_At body = 0 then body\<lparr>eb_At := he_nowMs E (hb_world h)\<rparr> else body)
      in Deliver E \<lparr>env_Type = TypeEvt, env_Hop = 0, env_App = app, env_Subject = Subject_String sub, env_ConnID = connID,
                     env_Extra = [], env_Route = None, env_Payload = he_Marshal E body1\<rparr> h)"

section \<open>Connections\<close>

text \<open>\<^verbatim>\<open>AddConn\<close>: the part under the lock, the event, and what the deferred close makes visible.\<close>

definition add_register :: "string \<Rightarrow> Subject \<Rightarrow> Conn \<Rightarrow> ConnMeta \<Rightarrow> 'r Hub \<Rightarrow> nat \<times> 'r Hub" where
  "add_register app sub c meta h =
     (let k = hub_key app (Subject_String sub);
          ref = length (hb_entries h);
          h1 = h\<lparr>hb_entries := hb_entries h @ [\<lparr>en_conn = c, en_meta = meta, en_established = False, en_delivered = False\<rparr>],
                 hb_conns := mput k (mput (cn_ID c) ref (mget k (hb_conns h))) (hb_conns h)\<rparr>
      in (ref, if cn_Token c \<noteq> []
               then h1\<lparr>hb_byToken := mput (hub_key app (cn_Token c)) (mget (hub_key app (cn_Token c)) (hb_byToken h1) @ [c])
                          (hb_byToken h1)\<rparr>
               else h1))"

definition connected_body :: "ConnMeta \<Rightarrow> string \<Rightarrow> EventBody" where
  "connected_body meta ua =
     \<lparr>eb_Kind = EventConnected, eb_OS = cm_OS meta, eb_Mobile = cm_Mobile meta, eb_UA = ua, eb_Reason = [], eb_At = cm_At meta\<rparr>"

text \<open>
  Both operations give \<^verbatim>\<open>emit\<close> to the connection's own goroutine. The call is returned with its result: what was
  handed over (application, subject, identifier of the connection and body) and whether it was delivered.
\<close>

datatype offer = Offer (of_App: string) (of_Subject: string) (of_ConnID: string) (of_Body: EventBody)

definition emit_offer ::
  "'r hub_env \<Rightarrow> string \<Rightarrow> Subject \<Rightarrow> string \<Rightarrow> EventBody \<Rightarrow> 'r Hub \<Rightarrow> (offer \<times> bool) \<times> 'r Hub" where
  "emit_offer E app sub connID body h =
     (case emit E app sub connID body h of (d, h1) \<Rightarrow> ((Offer app (Subject_String sub) connID body, d), h1))"

definition add_emit ::
  "'r hub_env \<Rightarrow> string \<Rightarrow> Subject \<Rightarrow> Conn \<Rightarrow> ConnMeta \<Rightarrow> string \<Rightarrow> 'r Hub \<Rightarrow> (offer \<times> bool) \<times> 'r Hub" where
  "add_emit E app sub c meta ua h = emit_offer E app sub (cn_ID c) (connected_body meta ua) h"

definition add_finish :: "nat \<Rightarrow> bool \<Rightarrow> 'r Hub \<Rightarrow> 'r Hub" where
  "add_finish ref delivered h =
     h\<lparr>hb_entries := (hb_entries h)[ref := ((hb_entries h) ! ref)\<lparr>en_delivered := delivered, en_established := True\<rparr>]\<rparr>"

definition AddConn :: "'r hub_env \<Rightarrow> string \<Rightarrow> Subject \<Rightarrow> Conn \<Rightarrow> ConnMeta \<Rightarrow> string \<Rightarrow> 'r Hub \<Rightarrow> 'r Hub" where
  "AddConn E app sub c meta ua h =
     (case add_register app sub c meta h of (ref, h1) \<Rightarrow>
      case add_emit E app sub c meta ua h1 of ((_, delivered), h2) \<Rightarrow>
        add_finish ref delivered h2)"

text \<open>\<^verbatim>\<open>RemoveConn\<close>: taking the connection out of the tables, and what follows once its entry is established.\<close>

definition remove_unlink :: "string \<Rightarrow> Subject \<Rightarrow> string \<Rightarrow> 'r Hub \<Rightarrow> nat option \<times> 'r Hub" where
  "remove_unlink app sub connID h =
     (let k = hub_key app (Subject_String sub) in
      case map_of (mget k (hb_conns h)) connID of
        None \<Rightarrow> (None, h)
      | Some ref \<Rightarrow>
          (let m = mdel connID (mget k (hb_conns h));
               conns = (if length m = 0 then mdel k (hb_conns h) else mput k m (hb_conns h));
               tok = cn_Token (en_conn (hb_entries h ! ref));
               tk = hub_key app tok;
               list = filter (\<lambda>c. cn_ID c \<noteq> connID) (mget tk (hb_byToken h));
               toks = (if tok = [] then hb_byToken h
                       else if length list = 0 then mdel tk (hb_byToken h) else mput tk list (hb_byToken h))
           in (Some ref, h\<lparr>hb_conns := conns, hb_byToken := toks, hb_teardowns := hb_teardowns h + 1\<rparr>)))"

definition remove_emit :: "'r hub_env \<Rightarrow> string \<Rightarrow> Subject \<Rightarrow> string \<Rightarrow> nat \<Rightarrow> string \<Rightarrow> 'r Hub \<Rightarrow>
    (offer \<times> bool) option \<times> 'r Hub" where
  "remove_emit E app sub connID ref reason h =
     (let en = hb_entries h ! ref in
      if \<not> en_delivered en then (None, h)
      else (case emit_offer E app sub connID
             \<lparr>eb_Kind = EventDisconnected, eb_OS = cm_OS (en_meta en), eb_Mobile = cm_Mobile (en_meta en), eb_UA = [],
              eb_Reason = reason, eb_At = he_nowMs E (hb_world h)\<rparr> h of (x, h1) \<Rightarrow> (Some x, h1)))"

definition remove_done :: "'r Hub \<Rightarrow> 'r Hub" where
  "remove_done h = h\<lparr>hb_teardowns := hb_teardowns h - 1\<rparr>"

text \<open>Run alone, the wait for the entry ends at once or by its time limit.\<close>

definition RemoveConn :: "'r hub_env \<Rightarrow> string \<Rightarrow> Subject \<Rightarrow> string \<Rightarrow> string \<Rightarrow> 'r Hub \<Rightarrow> 'r Hub" where
  "RemoveConn E app sub connID reason h =
     (case remove_unlink app sub connID h of
        (None, h1) \<Rightarrow> h1
      | (Some ref, h1) \<Rightarrow>
          remove_done (if en_established (hb_entries h1 ! ref) then snd (remove_emit E app sub connID ref reason h1) else h1))"

definition localConnCountLocked :: "'r Hub \<Rightarrow> nat" where
  "localConnCountLocked h = sum_list (map (\<lambda>(_, m). length m) (hb_conns h))"

definition UnsettledConns :: "'r Hub \<Rightarrow> nat" where
  "UnsettledConns h = localConnCountLocked h + hb_teardowns h"

section \<open>Streams\<close>

definition AddStream :: "'r hub_env \<Rightarrow> string \<Rightarrow> stream \<Rightarrow> 'r Hub \<Rightarrow> 'r Hub" where
  "AddStream E app s h =
     (let h1 = h\<lparr>hb_streams := mput app (mget app (hb_streams h) @ [s]) (hb_streams h)\<rparr>;
          first = (length (mget app (hb_streams h1)) = 1)
      in if first then touch (he_SetServing E app True) h1 else h1)"

definition remove_stream :: "'r hub_env \<Rightarrow> string \<Rightarrow> stream \<Rightarrow> 'r Hub \<Rightarrow> 'r Hub" where
  "remove_stream E app s h =
     (let list = filter (\<lambda>x. x \<noteq> s) (mget app (hb_streams h));
          last = (length list = 0);
          h1 = h\<lparr>hb_streams := (if last then mdel app (hb_streams h) else mput app list (hb_streams h))\<rparr>
      in if last then touch (he_SetServing E app False) h1 else h1)"

section \<open>Pushing and kicking\<close>

definition local_entries :: "string \<Rightarrow> string \<Rightarrow> 'r Hub \<Rightarrow> connEntry list" where
  "local_entries app subject h = map (\<lambda>(_, ref). hb_entries h ! ref) (mget (hub_key app subject) (hb_conns h))"

fun send_each :: "'r hub_env \<Rightarrow> string \<Rightarrow> connEntry list \<Rightarrow> 'r Hub \<Rightarrow> nat \<times> 'r Hub" where
  "send_each E payload [] h = (0, h)"
| "send_each E payload (e # es) h =
     (case on_world (conn_Send E (en_conn e) payload) h of
        (ok, h1) \<Rightarrow>
          case send_each E payload es
                 (if ok then h1 else touch (conn_Close E (en_conn e) CloseBackpressure ReasonBackpressure) h1) of
            (n, h2) \<Rightarrow> ((if ok then n + 1 else n), h2))"

definition sendLocal :: "'r hub_env \<Rightarrow> string \<Rightarrow> string \<Rightarrow> string \<Rightarrow> 'r Hub \<Rightarrow> nat \<times> 'r Hub" where
  "sendLocal E app subject payload h = send_each E payload (local_entries app subject h) h"

definition closeLocal :: "'r hub_env \<Rightarrow> string \<Rightarrow> string \<Rightarrow> string \<Rightarrow> int \<Rightarrow> string \<Rightarrow> 'r Hub \<Rightarrow> bool \<times> 'r Hub" where
  "closeLocal E app subject connID code reason h =
     (case map_of (mget (hub_key app subject) (hb_conns h)) connID of
        None \<Rightarrow> (False, h)
      | Some ref \<Rightarrow> (True, touch (conn_Close E (en_conn (hb_entries h ! ref)) code reason) h))"

definition HandleEnvelope :: "'r hub_env \<Rightarrow> Envelope \<Rightarrow> 'r Hub \<Rightarrow> 'r Hub" where
  "HandleEnvelope E e h =
     (if env_Type e = TypeMsg then snd (sendLocal E (env_App e) (env_Subject e) (env_Payload e) h)
      else if env_Type e = TypeUp \<or> env_Type e = TypeEvt then snd (Deliver E e h)
      else if env_Type e = TypeKick
        then snd (closeLocal E (env_App e) (env_Subject e) (env_ConnID e) CloseKicked (env_Extra e) h)
      else h)"

definition CloseLocalConns :: "'r hub_env \<Rightarrow> int \<Rightarrow> string \<Rightarrow> 'r Hub \<Rightarrow> nat \<times> 'r Hub" where
  "CloseLocalConns E code reason h =
     (let conns = concat (map (\<lambda>(_, m). map (\<lambda>(_, ref). en_conn (hb_entries h ! ref)) m) (hb_conns h))
      in (length conns, fold (\<lambda>c. touch (conn_Close E c code reason)) conns h))"

datatype PushStatus = PushSent | PushNotOnline | PushUnavailable

record PushResult =
  pr_Subject :: string
  pr_Status :: PushStatus
  pr_Nodes :: nat

definition singleConn :: "'r hub_env \<Rightarrow> string \<Rightarrow> 'r Hub \<Rightarrow> bool" where
  "singleConn E app h =
     (case he_apps E app (hb_world h) of
        None \<Rightarrow> False
      | Some cfg \<Rightarrow> ac_ConnPolicy cfg = PolicyReplace \<or> ac_ConnPolicy cfg = PolicyReject)"

text \<open>First all local connections; what is not settled by them is \<^verbatim>\<open>pending\<close>.\<close>

fun push_local :: "'r hub_env \<Rightarrow> string \<Rightarrow> Subject list \<Rightarrow> string \<Rightarrow> 'r Hub \<Rightarrow> (nat \<times> bool) list \<times> 'r Hub" where
  "push_local E app [] payload h = ([], h)"
| "push_local E app (s # ss) payload h =
     (case sendLocal E app (Subject_String s) payload h of (n, h1) \<Rightarrow>
      case push_local E app ss payload h1 of (rest, h2) \<Rightarrow>
        ((n, \<not> (n > 0 \<and> singleConn E app h1)) # rest, h2))"

text \<open>The other nodes of one subject, each called once.\<close>

fun push_nodes :: "'r hub_env \<Rightarrow> Envelope \<Rightarrow> string list \<Rightarrow> 'r Hub \<Rightarrow> nat \<times> 'r Hub" where
  "push_nodes E e [] h = (0, h)"
| "push_nodes E e (n # ns) h =
     (case on_world (he_Publish E n e) h of
        (Inl err, h1) \<Rightarrow> push_nodes E e ns h1
      | (Inr got, h1) \<Rightarrow>
          if got = 0 then push_nodes E e ns (touch (he_DropLocal E n) h1)
          else (case push_nodes E e ns h1 of (k, h2) \<Rightarrow> (k + 1, h2)))"

definition push_remote :: "'r hub_env \<Rightarrow> string \<Rightarrow> Subject \<Rightarrow> string \<Rightarrow> nat \<Rightarrow> (string \<times> ConnMeta) list \<Rightarrow> 'r Hub \<Rightarrow> PushResult \<times> 'r Hub" where
  "push_remote E app s payload hits metas h =
     (let nodes = remdups (filter (\<lambda>n. n \<noteq> hb_nodeID h) (map (cm_Node \<circ> snd) metas));
          e = \<lparr>env_Type = TypeMsg, env_Hop = 0, env_App = app, env_Subject = Subject_String s, env_ConnID = [], env_Extra = [],
               env_Route = None, env_Payload = payload\<rparr>
      in case push_nodes E e nodes h of (k, h1) \<Rightarrow>
           let total = (if hits > 0 then 1 else 0) + k
           in (\<lparr>pr_Subject = Subject_String s, pr_Status = (if total = 0 then PushNotOnline else PushSent), pr_Nodes = total\<rparr>, h1))"

text \<open>The results in the order of the subjects; \<^verbatim>\<open>None\<close> for the lookups when the registry failed.\<close>

fun push_finish ::
  "'r hub_env \<Rightarrow> string \<Rightarrow> string \<Rightarrow> (Subject \<times> nat \<times> bool) list \<Rightarrow> (string \<times> ConnMeta) list list option \<Rightarrow> 'r Hub \<Rightarrow>
     PushResult list \<times> 'r Hub" where
  "push_finish E app payload [] lookups h = ([], h)"
| "push_finish E app payload ((s, hits, False) # rest) lookups h =
     (case push_finish E app payload rest lookups h of (rs, h1) \<Rightarrow>
        (\<lparr>pr_Subject = Subject_String s, pr_Status = PushSent, pr_Nodes = 1\<rparr> # rs, h1))"
| "push_finish E app payload ((s, hits, True) # rest) None h =
     (case push_finish E app payload rest None h of (rs, h1) \<Rightarrow>
        (\<lparr>pr_Subject = Subject_String s, pr_Status = PushUnavailable, pr_Nodes = 0\<rparr> # rs, h1))"
| "push_finish E app payload ((s, hits, True) # rest) (Some ls) h =
     (case push_remote E app s payload hits (case ls of [] \<Rightarrow> [] | m # _ \<Rightarrow> m) h of (x, h1) \<Rightarrow>
      case push_finish E app payload rest (Some (tl ls)) h1 of (rs, h2) \<Rightarrow> (x # rs, h2))"

definition PushMany :: "'r hub_env \<Rightarrow> string \<Rightarrow> Subject list \<Rightarrow> string \<Rightarrow> 'r Hub \<Rightarrow> PushResult list \<times> 'r Hub" where
  "PushMany E app subs payload h =
     (case push_local E app subs payload h of (hits, h1) \<Rightarrow>
        let all = zip subs hits; pending = filter (\<lambda>(_, _, p). p) all in
        if length pending = 0 then push_finish E app payload all (Some []) h1
        else case on_world (he_LookupMany E app (map (Subject_String \<circ> fst) pending) (he_LiveNodes E (hb_world h1))) h1 of
          (Inl err, h2) \<Rightarrow> push_finish E app payload all None h2
        | (Inr ls, h2) \<Rightarrow> push_finish E app payload all (Some ls) h2)"

definition Push :: "'r hub_env \<Rightarrow> string \<Rightarrow> Subject \<Rightarrow> string \<Rightarrow> 'r Hub \<Rightarrow> PushResult \<times> 'r Hub" where
  "Push E app s payload h = (case PushMany E app [s] payload h of (rs, h1) \<Rightarrow> (rs ! 0, h1))"

record Session =
  se_ConnID :: string
  se_Node :: string
  se_OS :: string
  se_Mobile :: bool
  se_ConnectedAt :: int

definition session_of :: "string \<times> ConnMeta \<Rightarrow> Session" where
  "session_of x = (case x of (cid, m) \<Rightarrow>
     \<lparr>se_ConnID = cid, se_Node = cm_Node m, se_OS = cm_OS m, se_Mobile = cm_Mobile m, se_ConnectedAt = cm_At m\<rparr>)"

definition SessionsMany :: "'r hub_env \<Rightarrow> string \<Rightarrow> Subject list \<Rightarrow> 'r Hub \<Rightarrow> (goerr + Session list list) \<times> 'r Hub" where
  "SessionsMany E app subs h =
     (case on_world (he_LookupMany E app (map Subject_String subs) (he_LiveNodes E (hb_world h))) h of
        (Inl err, h1) \<Rightarrow> (Inl err, h1)
      | (Inr many, h1) \<Rightarrow> (Inr (map (map session_of) many), h1))"

fun Evict :: "'r hub_env \<Rightarrow> string \<Rightarrow> Subject \<Rightarrow> ConnRef list \<Rightarrow> string \<Rightarrow> 'r Hub \<Rightarrow> 'r Hub" where
  "Evict E app sub [] reason h = h"
| "Evict E app sub (r # rs) reason h =
     (if ref_Node r = hb_nodeID h
      then Evict E app sub rs reason (snd (closeLocal E app (Subject_String sub) (ref_ConnID r) CloseKicked reason h))
      else Evict E app sub rs reason
        (snd (on_world (he_Publish E (ref_Node r)
           \<lparr>env_Type = TypeKick, env_Hop = 0, env_App = app, env_Subject = Subject_String sub, env_ConnID = ref_ConnID r,
            env_Extra = reason, env_Route = None, env_Payload = []\<rparr>) h)))"

fun kick_ones :: "'r hub_env \<Rightarrow> string \<Rightarrow> Subject \<Rightarrow> string list \<Rightarrow> 'r Hub \<Rightarrow> (goerr + ConnRef list) \<times> 'r Hub" where
  "kick_ones E app sub [] h = (Inr [], h)"
| "kick_ones E app sub (cid # cids) h =
     (case on_world (he_KickOne E app (Subject_String sub) cid) h of
        (Inl err, h1) \<Rightarrow> (Inl err, h1)
      | (Inr ref, h1) \<Rightarrow>
          (case kick_ones E app sub cids h1 of
             (Inl err, h2) \<Rightarrow> (Inl err, h2)
           | (Inr refs, h2) \<Rightarrow> (Inr ((case ref of None \<Rightarrow> [] | Some x \<Rightarrow> [x]) @ refs), h2)))"

definition Kick :: "'r hub_env \<Rightarrow> string \<Rightarrow> Subject \<Rightarrow> string list \<Rightarrow> 'r Hub \<Rightarrow> (goerr + unit) \<times> 'r Hub" where
  "Kick E app sub connIDs h =
     (case (if length connIDs = 0 then on_world (he_KickAll E app (Subject_String sub)) h
            else kick_ones E app sub connIDs h) of
        (Inl err, h1) \<Rightarrow> (Inl err, h1)
      | (Inr refs, h1) \<Rightarrow> (Inr (), Evict E app sub refs ReasonKicked h1))"

definition OnRevoked :: "'r hub_env \<Rightarrow> string \<Rightarrow> string list \<Rightarrow> 'r Hub \<Rightarrow> 'r Hub" where
  "OnRevoked E app tokens h =
     (let victims = concat (map (\<lambda>t. mget (hub_key app t) (hb_byToken h)) tokens)
      in fold (\<lambda>c. touch (conn_Close E c CloseAuthFailed ReasonRevoked)) victims h)"

definition ForEachConn :: "(string \<Rightarrow> nat option) \<Rightarrow> 'r Hub \<Rightarrow> (string \<times> Subject \<times> string \<times> ConnMeta) list" where
  "ForEachConn U h =
     concat (map (\<lambda>(k, m). case splitKey k of (app, subject) \<Rightarrow>
       List.map_filter (\<lambda>(cid, ref). case ParseSubject U subject of
          Inl e \<Rightarrow> None | Inr sub \<Rightarrow> Some (app, sub, cid, en_meta (hb_entries h ! ref))) m) (hb_conns h))"

end
