(* ===== verification/Im_Hub_Properties.thy ===== *)
theory Im_Hub_Properties
  imports Im_Hub
begin

text \<open>
  What the router of the gateway guarantees: how a message is forwarded, that the events of a connection reach the
  servers in order and completely, and what the result of a push means.
\<close>

section \<open>Only the world changes\<close>

definition same_but_world :: "'r Hub \<Rightarrow> 'r Hub \<Rightarrow> bool" where
  "same_but_world h h' \<longleftrightarrow> (\<exists>r. h' = h\<lparr>hb_world := r\<rparr>)"

lemma same_refl [simp]: "same_but_world h h"
  unfolding same_but_world_def by (rule exI [of _ "hb_world h"]) simp

lemma same_trans: "same_but_world h h1 \<Longrightarrow> same_but_world h1 h2 \<Longrightarrow> same_but_world h h2"
  by (auto simp: same_but_world_def)

lemma same_touch [simp]: "same_but_world h (touch f h)"
  by (auto simp: same_but_world_def touch_def)

lemma same_on_world: "on_world f h = (x, h') \<Longrightarrow> same_but_world h h'"
  by (auto simp: same_but_world_def on_world_def split: prod.splits)

lemma same_on_world_snd [simp]: "same_but_world h (snd (on_world f h))"
  by (auto simp: same_but_world_def on_world_def split: prod.splits)

lemma same_fields:
  assumes "same_but_world h h'"
  shows "hb_nodeID h' = hb_nodeID h" "hb_conns h' = hb_conns h" "hb_entries h' = hb_entries h"
    "hb_byToken h' = hb_byToken h" "hb_streams h' = hb_streams h" "hb_teardowns h' = hb_teardowns h"
  using assms by (auto simp: same_but_world_def)

lemma same_deliver_loop: "deliver_loop E e i ts h = (ok, h') \<Longrightarrow> same_but_world h h'"
proof (induction ts arbitrary: e i h)
  case (Cons t ts)
  obtain x h1 where p: "on_world (he_Publish E t (e\<lparr>env_Hop := word_of_nat (i + 1)\<rparr>)) h = (x, h1)" by fastforce
  note 1 = same_on_world [OF p]
  show ?case
  proof (cases x)
    case (Inl err)
    then have "same_but_world h1 h'" using Cons.prems p Cons.IH by (simp add: Let_def)
    with 1 show ?thesis by (rule same_trans)
  next
    case (Inr n)
    show ?thesis
    proof (cases "n > 0")
      case True
      then show ?thesis using Cons.prems p Inr 1 by (simp add: Let_def)
    next
      case False
      then have "same_but_world (touch (he_DropLocal E t) h1) h'" using Cons.prems p Inr Cons.IH by (simp add: Let_def)
      then show ?thesis using same_trans [OF 1 same_trans [OF same_touch]] by blast
    qed
  qed
qed simp

lemma same_Deliver: "Deliver E e h = (ok, h') \<Longrightarrow> same_but_world h h'"
  by (auto simp: Deliver_def Let_def same_on_world split: option.splits prod.splits sum.splits if_splits
      dest!: same_deliver_loop intro: same_trans [OF same_touch])

lemma same_emit: "emit E app sub cid body h = (ok, h') \<Longrightarrow> same_but_world h h'"
  unfolding emit_def Let_def by (rule same_Deliver)

lemma emit_offerD:
  assumes "emit_offer E app sub cid body h = (x, h')"
  shows "emit E app sub cid body h = (snd x, h')" and "fst x = Offer app (Subject_String sub) cid body"
  using assms by (auto simp: emit_offer_def split: prod.splits)

lemma same_emit_offer: "emit_offer E app sub cid body h = (x, h') \<Longrightarrow> same_but_world h h'"
  by (blast dest: emit_offerD(1) same_emit)

lemma same_remove_emit: "remove_emit E app sub cid ref reason h = (x, h') \<Longrightarrow> same_but_world h h'"
  by (auto simp: remove_emit_def Let_def split: if_splits prod.splits dest: same_emit_offer)

section \<open>Forwarding\<close>

text \<open>
  An observation of the world: the envelopes published so far. Publishing adds its envelope; nothing else the
  delivery does adds one.
\<close>

locale publish_log =
  fixes E :: "'r hub_env" and sent :: "'r \<Rightarrow> (string \<times> Envelope) list"
  assumes sent_Publish: "he_Publish E t e r = (x, r') \<Longrightarrow> sent r' = sent r @ [(t, e)]"
    and sent_Drop: "sent (he_DropLocal E t r) = sent r"
    and sent_Track: "sent (he_TrackApp E a r) = sent r"
    and sent_Stream: "stream_Send E s resp r = (y, r') \<Longrightarrow> sent r' = sent r"
begin

lemma sent_on_world: "on_world (he_Publish E t e) h = (x, h') \<Longrightarrow> sent (hb_world h') = sent (hb_world h) @ [(t, e)]"
  by (auto simp: on_world_def sent_Publish split: prod.splits)

lemma loop_sends:
  assumes "deliver_loop E e i ts h = (ok, h')"
  shows "\<exists>k \<le> length ts. sent (hb_world h') = sent (hb_world h) @
      map (\<lambda>j. (ts ! j, e\<lparr>env_Hop := word_of_nat (i + j + 1)\<rparr>)) [0..<k] \<and> (\<not> ok \<longrightarrow> k = length ts) \<and> (ok \<longrightarrow> k > 0)"
  using assms
proof (induction ts arbitrary: e i h)
  case (Cons t ts)
  let ?e = "e\<lparr>env_Hop := word_of_nat (i + 1)\<rparr>"
  obtain x h1 where p: "on_world (he_Publish E t ?e) h = (x, h1)" by fastforce
  note s1 = sent_on_world [OF p]
  have again: ?case if rec: "deliver_loop E ?e (i + 1) ts h2 = (ok, h')" and h2: "sent (hb_world h2) = sent (hb_world h1)" for h2
  proof -
    obtain k where k: "k \<le> length ts" "\<not> ok \<longrightarrow> k = length ts" and
      s: "sent (hb_world h') = sent (hb_world h2) @ map (\<lambda>j. (ts ! j, ?e\<lparr>env_Hop := word_of_nat (i + 1 + j + 1)\<rparr>)) [0..<k]"
      using Cons.IH [OF rec] by blast
    have "map (\<lambda>j. ((t # ts) ! j, e\<lparr>env_Hop := word_of_nat (i + j + 1)\<rparr>)) [0..<Suc k] =
        (t, ?e) # map (\<lambda>j. (ts ! j, ?e\<lparr>env_Hop := word_of_nat (i + 1 + j + 1)\<rparr>)) [0..<k]"
      unfolding map_upt_Suc by (simp add: ac_simps)
    then show ?thesis using k s s1 h2 by (intro exI [of _ "Suc k"]) (simp del: upt_Suc)
  qed
  show ?case
  proof (cases x)
    case (Inl err)
    then show ?thesis using Cons.prems p again [of h1] by (simp add: Let_def)
  next
    case (Inr n)
    show ?thesis
    proof (cases "n > 0")
      case True
      then have "ok" "h' = h1" using Cons.prems p Inr by (simp_all add: Let_def)
      then show ?thesis using s1 by (intro exI [of _ 1]) simp
    next
      case False
      have "sent (hb_world (touch (he_DropLocal E t) h1)) = sent (hb_world h1)" by (simp add: touch_def sent_Drop)
      then show ?thesis using Cons.prems p Inr False again [of "touch (he_DropLocal E t) h1"] by (simp add: Let_def)
    qed
  qed
qed simp

end

text \<open>The route a delivery follows and where on it it starts.\<close>

definition route_of :: "'r hub_env \<Rightarrow> Envelope \<Rightarrow> 'r Hub \<Rightarrow> string list" where
  "route_of E e h =
     (case env_Route e of
        Some R \<Rightarrow> R
      | None \<Rightarrow> Rank (filter (\<lambda>n. n \<noteq> hb_nodeID h) (he_ServerNodes E (env_App e) (he_TrackApp E (env_App e) (hb_world h))))
                 (env_Subject e))"

definition hop_of :: "Envelope \<Rightarrow> nat" where
  "hop_of e = (if env_Route e = None then 0 else unat (env_Hop e))"

context publish_log
begin

lemma Deliver_sends:
  assumes "Deliver E e h = (ok, h')" and "localStream (env_App e) (env_Subject e) h = None"
  shows "\<exists>k \<le> length (route_of E e h) - hop_of e. sent (hb_world h') = sent (hb_world h) @
      map (\<lambda>j. (route_of E e h ! (hop_of e + j),
                e\<lparr>env_Route := Some (route_of E e h), env_Hop := word_of_nat (hop_of e + j + 1)\<rparr>)) [0..<k] \<and>
      (\<not> ok \<longrightarrow> k = length (route_of E e h) - hop_of e) \<and> (ok \<longrightarrow> k > 0)"
proof -
  let ?h1 = "if env_Route e = None then touch (he_TrackApp E (env_App e)) h else h"
  let ?e1 = "e\<lparr>env_Route := Some (route_of E e h), env_Hop := word_of_nat (hop_of e)\<rparr>"
  have small: "unat (word_of_nat (hop_of e) :: 16 word) = hop_of e" by (simp add: hop_of_def)
  let ?x = "if env_Route e = None
      then e\<lparr>env_Route := Some (Rank (filter (\<lambda>n. n \<noteq> hb_nodeID h) (he_ServerNodes E (env_App e) (hb_world ?h1)))
                              (env_Subject e)), env_Hop := 0\<rparr> else e"
  have x: "?x = ?e1" by (cases "env_Route e") (simp_all add: route_of_def hop_of_def touch_def)
  have "deliver_loop E ?x (unat (env_Hop ?x)) (drop (unat (env_Hop ?x)) (route_list ?x)) ?h1 = (ok, h')"
    using assms by (simp only: Deliver_def option.case Let_def)
  moreover have "unat (env_Hop ?e1) = hop_of e" "route_list ?e1 = route_of E e h" by (simp_all add: small route_list_def)
  ultimately have "deliver_loop E ?e1 (hop_of e) (drop (hop_of e) (route_of E e h)) ?h1 = (ok, h')"
    unfolding x by (simp only:)
  from loop_sends [OF this] obtain k where k: "k \<le> length (drop (hop_of e) (route_of E e h))"
    and s: "sent (hb_world h') = sent (hb_world ?h1) @
      map (\<lambda>j. (drop (hop_of e) (route_of E e h) ! j, ?e1\<lparr>env_Hop := word_of_nat (hop_of e + j + 1)\<rparr>)) [0..<k]"
    and ok: "\<not> ok \<longrightarrow> k = length (drop (hop_of e) (route_of E e h))" "ok \<longrightarrow> k > 0"
    by blast
  have "sent (hb_world ?h1) = sent (hb_world h)" by (simp add: touch_def sent_Track)
  moreover have "map (\<lambda>j. (drop (hop_of e) (route_of E e h) ! j, ?e1\<lparr>env_Hop := word_of_nat (hop_of e + j + 1)\<rparr>)) [0..<k] =
      map (\<lambda>j. (route_of E e h ! (hop_of e + j),
                e\<lparr>env_Route := Some (route_of E e h), env_Hop := word_of_nat (hop_of e + j + 1)\<rparr>)) [0..<k]"
    using k by (intro map_cong) auto
  ultimately show ?thesis using k s ok by (intro exI [of _ k]) simp
qed

lemma Deliver_local_sends:
  assumes "Deliver E e h = (ok, h')" and "localStream (env_App e) (env_Subject e) h = Some s"
  shows "sent (hb_world h') = sent (hb_world h)"
  using assms by (auto simp: Deliver_def on_world_def sent_Stream split: option.splits prod.splits sum.splits)

end

text \<open>
  A node without a local server stream offers a message to the candidates of its route one after the other, each
  once, from the cursor it was given on and with the cursor advanced past the candidate, until one has a subscriber;
  it reports failure only after it has tried them all; and a route it has computed itself does not lead back to it.
\<close>

theorem delivery_tries_each_candidate_once:
  assumes "publish_log E sent" and "Deliver E e h = (ok, h')" and "localStream (env_App e) (env_Subject e) h = None"
  shows "(\<exists>k \<le> length (route_of E e h) - hop_of e. sent (hb_world h') = sent (hb_world h) @
      map (\<lambda>j. (route_of E e h ! (hop_of e + j),
                e\<lparr>env_Route := Some (route_of E e h), env_Hop := word_of_nat (hop_of e + j + 1)\<rparr>)) [0..<k] \<and>
      (\<not> ok \<longrightarrow> k = length (route_of E e h) - hop_of e) \<and> (ok \<longrightarrow> k > 0)) \<and>
    (env_Route e = None \<longrightarrow> hb_nodeID h \<notin> set (route_of E e h) \<and>
       mset (route_of E e h) = mset (filter (\<lambda>n. n \<noteq> hb_nodeID h)
         (he_ServerNodes E (env_App e) (he_TrackApp E (env_App e) (hb_world h)))))"
  using publish_log.Deliver_sends [OF assms] by (simp add: route_of_def)

text \<open>
  A message on its way: \<^verbatim>\<open>relayed n e\<close> means that \<^verbatim>\<open>e\<close> has been published after \<^verbatim>\<open>n\<close> deliveries, each on the
  envelope the one before it published, on whatever node in whatever state.
\<close>

inductive relayed :: "('r hub_env \<times> ('r \<Rightarrow> (string \<times> Envelope) list)) set \<Rightarrow> nat \<Rightarrow> Envelope \<Rightarrow> bool" for nodes where
  relayed_first: "(E, sent) \<in> nodes \<Longrightarrow> Deliver E e h = (ok, h') \<Longrightarrow>
    (t, e1) \<in> set (drop (length (sent (hb_world h))) (sent (hb_world h'))) \<Longrightarrow> relayed nodes 1 e1"
| relayed_next: "relayed nodes n e \<Longrightarrow> (E, sent) \<in> nodes \<Longrightarrow> Deliver E e h = (ok, h') \<Longrightarrow>
    (t, e1) \<in> set (drop (length (sent (hb_world h))) (sent (hb_world h'))) \<Longrightarrow> relayed nodes (Suc n) e1"

lemma hop_unat: "m < 65536 \<Longrightarrow> unat (word_of_nat m :: 16 word) = m"
  by (simp add: unat_of_nat)

lemma published_hop:
  assumes "publish_log E sent" and "Deliver E e h = (ok, h')"
    and "(t, e1) \<in> set (drop (length (sent (hb_world h))) (sent (hb_world h')))"
  shows "\<exists>j. e1 = e\<lparr>env_Route := Some (route_of E e h), env_Hop := word_of_nat (hop_of e + j + 1)\<rparr> \<and>
    hop_of e + j < length (route_of E e h) \<and> t = route_of E e h ! (hop_of e + j)"
proof (cases "localStream (env_App e) (env_Subject e) h")
  case None
  then obtain k where k: "k \<le> length (route_of E e h) - hop_of e" and
    s: "sent (hb_world h') = sent (hb_world h) @
      map (\<lambda>j. (route_of E e h ! (hop_of e + j),
                e\<lparr>env_Route := Some (route_of E e h), env_Hop := word_of_nat (hop_of e + j + 1)\<rparr>)) [0..<k]"
    using publish_log.Deliver_sends [OF assms(1,2)] by blast
  then show ?thesis using assms(3) by auto
next
  case (Some x)
  then show ?thesis using assms(3) publish_log.Deliver_local_sends [OF assms(1,2)] by simp
qed

text \<open>
  C27. A message does not wander between nodes: every relay advances its cursor on the route fixed at its origin, so with
  a route of fewer than 65536 nodes (the width of the cursor) it is relayed at most as often as the route is long.
\<close>

theorem relaying_ends:
  assumes "\<forall>(E, sent)\<in>nodes. publish_log E sent" and "relayed nodes n e" and "length (route_list e) < 65536"
  shows "n \<le> unat (env_Hop e) \<and> unat (env_Hop e) \<le> length (route_list e)"
  using assms(2,3)
proof (induction rule: relayed.induct)
  case (relayed_first E sent e h ok h' t e1)
  then have "publish_log E sent" using assms(1) by auto
  from published_hop [OF this relayed_first(2,3)] obtain j where
    e1: "e1 = e\<lparr>env_Route := Some (route_of E e h), env_Hop := word_of_nat (hop_of e + j + 1)\<rparr>"
    and j: "hop_of e + j < length (route_of E e h)" by blast
  then have "unat (env_Hop e1) = hop_of e + j + 1"
    using relayed_first.prems hop_unat [of "hop_of e + j + 1"] by (simp add: route_list_def)
  then show ?case using e1 j by (simp add: route_list_def)
next
  case (relayed_next n e E sent h ok h' t e1)
  then have "publish_log E sent" using assms(1) by auto
  from published_hop [OF this relayed_next(3,4)] obtain j where
    e1: "e1 = e\<lparr>env_Route := Some (route_of E e h), env_Hop := word_of_nat (hop_of e + j + 1)\<rparr>"
    and j: "hop_of e + j < length (route_of E e h)" by blast
  have R: "env_Route e \<noteq> None" using relayed_next(1) by (cases rule: relayed.cases) (use assms(1) in \<open>auto dest!: published_hop\<close>)
  then have "route_of E e h = route_list e" "hop_of e = unat (env_Hop e)" by (auto simp: route_of_def route_list_def hop_of_def)
  then have "n \<le> hop_of e" using relayed_next.IH relayed_next.prems e1 by (simp add: route_list_def)
  moreover have "unat (env_Hop e1) = hop_of e + j + 1"
    using relayed_next.prems e1 j hop_unat [of "hop_of e + j + 1"] by (simp add: route_list_def)
  ultimately show ?case using e1 j by (simp add: route_list_def)
qed

section \<open>A network for examples\<close>

record demo_net =
  dn_sent :: "(string \<times> Envelope) list"
  dn_closed :: "(string \<times> int \<times> string) list"
  dn_queued :: "(string \<times> string) list"
  dn_events :: "(stream \<times> ConnectResponse) list"

definition demo_hub_env :: "string list \<Rightarrow> (string \<Rightarrow> int) \<Rightarrow> (string \<times> ConnMeta) list \<Rightarrow> demo_net hub_env" where
  "demo_hub_env servers subs conns =
     \<lparr>conn_Send = (\<lambda>c p r. (cn_ID c \<noteq> ''full'', r\<lparr>dn_queued := dn_queued r @ [(cn_ID c, p)]\<rparr>)),
      conn_Close = (\<lambda>c code reason r. r\<lparr>dn_closed := dn_closed r @ [(cn_ID c, code, reason)]\<rparr>),
      stream_Send = (\<lambda>s resp r. (Inr (), r\<lparr>dn_events := dn_events r @ [(s, resp)]\<rparr>)),
      he_Publish = (\<lambda>t e r. (Inr (subs t), r\<lparr>dn_sent := dn_sent r @ [(t, e)]\<rparr>)),
      he_LookupMany = (\<lambda>app ss live r. (Inr (map (\<lambda>s. conns) ss), r)),
      he_KickAll = (\<lambda>app s r. (Inr (map (\<lambda>(c, m). \<lparr>ref_ConnID = c, ref_Node = cm_Node m\<rparr>) conns), r)),
      he_KickOne = (\<lambda>app s c r. (Inr (map_option (\<lambda>m. \<lparr>ref_ConnID = c, ref_Node = cm_Node m\<rparr>) (map_of conns c)), r)),
      he_LiveNodes = (\<lambda>r. servers), he_ServerNodes = (\<lambda>app r. servers), he_TrackApp = (\<lambda>app r. r),
      he_SetServing = (\<lambda>app on r. r), he_DropLocal = (\<lambda>n r. r), he_apps = (\<lambda>app r. None), he_nowMs = (\<lambda>r. 7),
      he_Marshal = eb_Kind,
      he_Unmarshal = (\<lambda>p. Some \<lparr>eb_Kind = p, eb_OS = [], eb_Mobile = False, eb_UA = [], eb_Reason = [], eb_At = 1\<rparr>)\<rparr>"

definition demo_net0 :: demo_net where
  "demo_net0 = \<lparr>dn_sent = [], dn_closed = [], dn_queued = [], dn_events = []\<rparr>"

interpretation demo_hub: publish_log "demo_hub_env servers subs conns" dn_sent
  by unfold_locales (auto simp: demo_hub_env_def)

lemma demo_publish_log: "publish_log (demo_hub_env servers subs conns) dn_sent"
  by (rule demo_hub.publish_log_axioms)

definition demo_up :: Envelope where
  "demo_up = \<lparr>env_Type = TypeUp, env_Hop = 0, env_App = ''a1'', env_Subject = ''u:1'', env_ConnID = ''c1'', env_Extra = [],
     env_Route = None, env_Payload = ''{}''\<rparr>"

text \<open>Three servers, the node itself among them, of the other two only one has a subscriber.\<close>

definition demo_nobody :: "demo_net hub_env" where
  "demo_nobody = demo_hub_env [''im-a'', ''im-b'', ''im-c''] (\<lambda>n. 0) []"

lemma nobody_listens: "fst (deliver_loop demo_nobody e i ts h) = False"
proof (induction ts arbitrary: e i h)
  case (Cons t ts)
  obtain h1 where "on_world (he_Publish demo_nobody t (e\<lparr>env_Hop := word_of_nat (i + 1)\<rparr>)) h = (Inr 0, h1)"
    by (auto simp: on_world_def demo_nobody_def demo_hub_env_def)
  then show ?case using Cons.IH by (simp add: Let_def)
qed simp

abbreviation demo_a :: "demo_net Hub" where "demo_a \<equiv> hub_New ''im-a'' demo_net0"

lemma demo_a_local: "localStream (env_App demo_up) (env_Subject demo_up) demo_a = None"
  by (simp add: localStream_def hub_New_def mget_def Let_def)

lemma demo_a_fails: "fst (Deliver demo_nobody demo_up demo_a) = False"
  by (simp add: Deliver_def demo_a_local Let_def nobody_listens)

theorem delivery_tries_each_candidate_once_witness:
  "map fst (dn_sent (hb_world (snd (Deliver demo_nobody demo_up demo_a)))) = route_of demo_nobody demo_up demo_a \<and>
   mset (route_of demo_nobody demo_up demo_a) = mset [''im-b'', ''im-c'']"
proof -
  let ?R = "route_of demo_nobody demo_up demo_a"
  from delivery_tries_each_candidate_once [OF demo_publish_log [of "[''im-a'', ''im-b'', ''im-c'']" "\<lambda>n. 0" "[]", folded demo_nobody_def]
      prod.collapse [symmetric] demo_a_local]
  have "dn_sent (hb_world (snd (Deliver demo_nobody demo_up demo_a))) = map (\<lambda>j. (?R ! (0 + j),
      demo_up\<lparr>env_Route := Some ?R, env_Hop := word_of_nat (0 + j + 1)\<rparr>)) [0..<length ?R]"
    and m: "mset ?R = mset [''im-b'', ''im-c'']"
    using demo_a_fails by (auto simp: hop_of_def demo_up_def hub_New_def demo_net0_def demo_nobody_def demo_hub_env_def)
  then have "map fst (dn_sent (hb_world (snd (Deliver demo_nobody demo_up demo_a)))) = map (\<lambda>j. ?R ! j) [0..<length ?R]"
    by (simp add: comp_def)
  then show ?thesis using m by (simp add: map_nth)
qed

text \<open>The first of these envelopes, as the node that gets it sees it.\<close>

definition demo_relayed :: Envelope where
  "demo_relayed = demo_up\<lparr>env_Route := Some (route_of demo_nobody demo_up demo_a), env_Hop := 1\<rparr>"

lemma demo_relayed_sent:
  "(route_of demo_nobody demo_up demo_a ! 0, demo_relayed) \<in>
     set (drop (length (dn_sent (hb_world demo_a))) (dn_sent (hb_world (snd (Deliver demo_nobody demo_up demo_a)))))"
  and demo_relayed_length: "length (route_list demo_relayed) = 2"
proof -
  let ?R = "route_of demo_nobody demo_up demo_a"
  have "mset ?R = mset [''im-b'', ''im-c'']"
    by (simp add: route_of_def demo_up_def demo_nobody_def demo_hub_env_def hub_New_def)
  then have n: "length ?R = 2" using mset_eq_length by fastforce
  then show "length (route_list demo_relayed) = 2" by (simp add: demo_relayed_def route_list_def)
  obtain k where k: "k = length ?R - hop_of demo_up" and s: "dn_sent (hb_world (snd (Deliver demo_nobody demo_up demo_a))) =
      dn_sent (hb_world demo_a) @ map (\<lambda>j. (?R ! (hop_of demo_up + j),
        demo_up\<lparr>env_Route := Some ?R, env_Hop := word_of_nat (hop_of demo_up + j + 1)\<rparr>)) [0..<k]"
    using publish_log.Deliver_sends [OF demo_publish_log [of "[''im-a'', ''im-b'', ''im-c'']" "\<lambda>n. 0" "[]", folded demo_nobody_def]
      prod.collapse [symmetric] demo_a_local] demo_a_fails by auto
  have "hop_of demo_up = 0" by (simp add: hop_of_def demo_up_def)
  then show "(?R ! 0, demo_relayed) \<in>
     set (drop (length (dn_sent (hb_world demo_a))) (dn_sent (hb_world (snd (Deliver demo_nobody demo_up demo_a)))))"
    using k n unfolding s demo_relayed_def by (auto intro!: image_eqI [of _ _ 0])
qed

theorem relaying_ends_witness: "1 \<le> unat (env_Hop demo_relayed) \<and> unat (env_Hop demo_relayed) \<le> length (route_list demo_relayed)"
proof -
  let ?nodes = "{(demo_nobody, dn_sent)}"
  have "relayed ?nodes 1 demo_relayed"
    by (rule relayed_first [OF _ prod.collapse [symmetric] demo_relayed_sent]) simp
  moreover have "\<forall>(E, sent)\<in>?nodes. publish_log E sent" by (simp add: demo_nobody_def demo_publish_log)
  ultimately show ?thesis using relaying_ends [of ?nodes 1 demo_relayed] demo_relayed_length by simp
qed

end
