(* ===== verification/Im_Hub_Events.thy ===== *)
theory Im_Hub_Events
  imports Im_Hub_Properties
begin

text \<open>
  The goroutines that add and remove connections at a gateway node, interleaved at the points where the router lets
  go of its lock, waits or calls out. A connection that is being added is registered before its event is emitted, so it
  can be removed in between; the log records the events in the order in which they are handed over.
\<close>

section \<open>Interleaved steps\<close>

text \<open>
  Where a goroutine of \<^verbatim>\<open>AddConn\<close> or of \<^verbatim>\<open>RemoveConn\<close> is, with its arguments and the entry it works on.
\<close>

datatype add_stage = AddRegistered string Subject Conn ConnMeta string | AddEmitted bool
datatype remove_stage = RemoveWaiting string Subject string string | RemoveEmitted

record 'r conc =
  cc_hub :: "'r Hub"
  cc_adding :: "nat \<Rightarrow> add_stage option"
  cc_removing :: "nat \<Rightarrow> remove_stage option"
  cc_timedout :: "nat list"
  cc_for :: "nat \<Rightarrow> string \<times> string"
  cc_log :: "(nat \<times> offer \<times> bool) list"

text \<open>
  An entry of the log is what a goroutine gave to \<^verbatim>\<open>emit\<close>, as the operation returns it, with the connection it was
  working for and whether the event was delivered; \<^verbatim>\<open>cc_for\<close> remembers the application and the subject a connection
  was added for. The identifier of a new connection is fresh (a UUID of version 7), and no identifier of an application
  has a NUL character.
\<close>

inductive conc_step :: "'r hub_env \<Rightarrow> 'r conc \<Rightarrow> 'r conc \<Rightarrow> bool" for E where
  conc_register: "(\<forall>en\<in>set (hb_entries (cc_hub s)). cn_ID (en_conn en) \<noteq> cn_ID c) \<Longrightarrow> CHR 0x00 \<notin> set app \<Longrightarrow>
    add_register app sub c meta (cc_hub s) = (ref, h) \<Longrightarrow>
    conc_step E s (s\<lparr>cc_hub := h, cc_adding := (cc_adding s)(ref \<mapsto> AddRegistered app sub c meta ua),
                     cc_for := (cc_for s)(ref := (app, Subject_String sub))\<rparr>)"
| conc_connected: "cc_adding s ref = Some (AddRegistered app sub c meta ua) \<Longrightarrow>
    add_emit E app sub c meta ua (cc_hub s) = ((x, d), h) \<Longrightarrow>
    conc_step E s (s\<lparr>cc_hub := h, cc_adding := (cc_adding s)(ref \<mapsto> AddEmitted d), cc_log := cc_log s @ [(ref, x, d)]\<rparr>)"
| conc_established: "cc_adding s ref = Some (AddEmitted d) \<Longrightarrow>
    conc_step E s (s\<lparr>cc_hub := add_finish ref d (cc_hub s), cc_adding := (cc_adding s)(ref := None)\<rparr>)"
| conc_unlink: "CHR 0x00 \<notin> set app \<Longrightarrow> remove_unlink app sub cid (cc_hub s) = (Some ref, h) \<Longrightarrow>
    conc_step E s (s\<lparr>cc_hub := h, cc_removing := (cc_removing s)(ref \<mapsto> RemoveWaiting app sub cid reason)\<rparr>)"
| conc_disconnected: "cc_removing s ref = Some (RemoveWaiting app sub cid reason) \<Longrightarrow>
    en_established (hb_entries (cc_hub s) ! ref) \<Longrightarrow>
    remove_emit E app sub cid ref reason (cc_hub s) = (x, h) \<Longrightarrow>
    conc_step E s (s\<lparr>cc_hub := h, cc_removing := (cc_removing s)(ref \<mapsto> RemoveEmitted),
                     cc_log := cc_log s @ (case x of None \<Rightarrow> [] | Some y \<Rightarrow> [(ref, y)])\<rparr>)"
| conc_timeout: "cc_removing s ref = Some (RemoveWaiting app sub cid reason) \<Longrightarrow>
    conc_step E s (s\<lparr>cc_hub := remove_done (cc_hub s), cc_removing := (cc_removing s)(ref := None),
                     cc_timedout := ref # cc_timedout s\<rparr>)"
| conc_removed: "cc_removing s ref = Some RemoveEmitted \<Longrightarrow>
    conc_step E s (s\<lparr>cc_hub := remove_done (cc_hub s), cc_removing := (cc_removing s)(ref := None)\<rparr>)"
| conc_other: "hb_conns h = hb_conns (cc_hub s) \<Longrightarrow> hb_entries h = hb_entries (cc_hub s) \<Longrightarrow>
    hb_teardowns h = hb_teardowns (cc_hub s) \<Longrightarrow> conc_step E s (s\<lparr>cc_hub := h\<rparr>)"

inductive conc_reach :: "'r hub_env \<Rightarrow> 'r conc \<Rightarrow> 'r conc \<Rightarrow> bool" for E s0 where
  conc_start: "conc_reach E s0 s0"
| conc_next: "conc_reach E s0 s \<Longrightarrow> conc_step E s t \<Longrightarrow> conc_reach E s0 t"

definition conc_init :: "string \<Rightarrow> 'r \<Rightarrow> 'r conc" where
  "conc_init nodeID r = \<lparr>cc_hub = hub_New nodeID r, cc_adding = Map.empty, cc_removing = Map.empty, cc_timedout = [],
     cc_for = (\<lambda>_. ([], [])), cc_log = []\<rparr>"

section \<open>The table of connections\<close>

definition refs_of :: "(string \<times> (string \<times> nat) list) list \<Rightarrow> nat list" where
  "refs_of m = concat (map (\<lambda>(_, x). map snd x) m)"

lemma length_refs_of: "length (refs_of (hb_conns h)) = localConnCountLocked h"
proof -
  have "map length (map (\<lambda>(_, x). map snd x) (hb_conns h)) = map (\<lambda>(_, m). length m) (hb_conns h)" by auto
  then show ?thesis unfolding refs_of_def length_concat localConnCountLocked_def by (rule arg_cong)
qed

definition table_wf :: "'r Hub \<Rightarrow> bool" where
  "table_wf h \<longleftrightarrow>
     distinct (map fst (hb_conns h)) \<and>
     (\<forall>(k, m)\<in>set (hb_conns h). distinct (map fst m) \<and>
        (\<forall>(cid, ref)\<in>set m. ref < length (hb_entries h) \<and> cid = cn_ID (en_conn (hb_entries h ! ref))))"

lemma mset_refs_mput:
  assumes "distinct (map fst m)"
  shows "mset (refs_of (mput k v m)) + mset (map snd (mget k m)) = mset (refs_of m) + mset (map snd v)"
proof (cases "k \<in> fst ` set m")
  case False
  then have "map_of m k = None" by (simp add: map_of_eq_None_iff)
  then show ?thesis using False by (simp add: refs_of_def mput_def mget_def)
next
  case True
  have "mset (refs_of (map (\<lambda>x. if fst x = k then (k, v) else x) m)) + mset (map snd (mget k m)) = mset (refs_of m) + mset (map snd v)"
    using assms True
  proof (induction m)
    case (Cons x m)
    obtain k2 w where x: "x = (k2, w)" by (cases x)
    show ?case
    proof (cases "k2 = k")
      case True
      then have "k \<notin> fst ` set m" using Cons.prems(1) x by auto
      then have "map (\<lambda>x. if fst x = k then (k, v) else x) m = m" by (intro map_idI) auto
      then show ?thesis using True x by (simp add: refs_of_def mget_def)
    next
      case False
      then have "mget k (x # m) = mget k m" "k \<in> fst ` set m" using Cons.prems(2) x by (auto simp: mget_def)
      then show ?thesis using False x Cons.IH Cons.prems(1) by (simp add: refs_of_def ac_simps)
    qed
  qed simp
  then show ?thesis using True by (simp add: mput_def)
qed

lemma mset_refs_mdel:
  assumes "distinct (map fst m)"
  shows "mset (refs_of (mdel k m)) + mset (map snd (mget k m)) = mset (refs_of m)"
  using assms
proof (induction m)
  case (Cons x m)
  obtain k2 w where x: "x = (k2, w)" by (cases x)
  show ?case
  proof (cases "k2 = k")
    case True
    then have "k \<notin> fst ` set m" using Cons.prems x by auto
    then have "mdel k m = m" unfolding mdel_def by (intro filter_True) auto
    then show ?thesis using True x by (simp add: refs_of_def mget_def mdel_def)
  next
    case False
    then have "mget k (x # m) = mget k m" using x by (simp add: mget_def)
    then show ?thesis using False x Cons by (simp add: refs_of_def mdel_def ac_simps)
  qed
qed (simp add: refs_of_def mget_def mdel_def)

lemma mget_in: "x \<in> set (mget k m) \<Longrightarrow> (k, mget k m) \<in> set m"
  by (cases "map_of m k") (auto simp: mget_def dest: map_of_SomeD)

lemma distinct_mput: "distinct (map fst m) \<Longrightarrow> distinct (map fst (mput k v m))"
proof -
  assume d: "distinct (map fst m)"
  have "map fst (map (\<lambda>x. if fst x = k then (k, v) else x) m) = map fst m" unfolding map_map by (rule map_cong) auto
  then have "distinct (map fst (map (\<lambda>x. if fst x = k then (k, v) else x) m))" using d by (simp only:)
  then show ?thesis using d unfolding mput_def by (cases "k \<in> fst ` set m") (simp_all only: if_True if_False, simp)
qed

lemma set_mput: "x \<in> set (mput k v m) \<Longrightarrow> x = (k, v) \<or> x \<in> set m \<and> fst x \<noteq> k"
  by (auto simp: mput_def split: if_splits)

lemma distinct_mdel: "distinct (map fst m) \<Longrightarrow> distinct (map fst (mdel k m))"
  by (simp add: mdel_def distinct_map_filter)

lemma mget_wf:
  assumes "table_wf h"
  shows "distinct (map fst (mget k (hb_conns h)))"
    and "(cid, ref) \<in> set (mget k (hb_conns h)) \<Longrightarrow> ref < length (hb_entries h) \<and> cid = cn_ID (en_conn (hb_entries h ! ref))"
proof -
  show "distinct (map fst (mget k (hb_conns h)))"
  proof (cases "map_of (hb_conns h) k")
    case (Some m)
    then have "(k, m) \<in> set (hb_conns h)" by (rule map_of_SomeD)
    then show ?thesis using assms Some by (fastforce simp: table_wf_def mget_def)
  qed (simp add: mget_def)
  assume "(cid, ref) \<in> set (mget k (hb_conns h))"
  then show "ref < length (hb_entries h) \<and> cid = cn_ID (en_conn (hb_entries h ! ref))"
    using assms mget_in [of "(cid, ref)" k "hb_conns h"] by (fastforce simp: table_wf_def)
qed

lemma add_register_table:
  assumes "table_wf h" and "\<forall>en\<in>set (hb_entries h). cn_ID (en_conn en) \<noteq> cn_ID c"
    and "add_register app sub c meta h = (ref, h')"
  shows "table_wf h' \<and> ref = length (hb_entries h) \<and> mset (refs_of (hb_conns h')) = add_mset ref (mset (refs_of (hb_conns h))) \<and>
    hb_entries h' = hb_entries h @ [\<lparr>en_conn = c, en_meta = meta, en_established = False, en_delivered = False\<rparr>] \<and>
    hb_teardowns h' = hb_teardowns h"
proof -
  let ?k = "hub_key app (Subject_String sub)"
  let ?old = "mget ?k (hb_conns h)"
  let ?new = "mput (cn_ID c) ref ?old"
  have ref: "ref = length (hb_entries h)" and conns: "hb_conns h' = mput ?k ?new (hb_conns h)" and
    ents: "hb_entries h' = hb_entries h @ [\<lparr>en_conn = c, en_meta = meta, en_established = False, en_delivered = False\<rparr>]" and
    td: "hb_teardowns h' = hb_teardowns h"
    using assms(3) by (auto simp: add_register_def Let_def split: if_splits)
  have fresh: "cn_ID c \<notin> fst ` set ?old"
  proof
    assume "cn_ID c \<in> fst ` set ?old"
    then obtain r where "(cn_ID c, r) \<in> set ?old" by auto
    then have "r < length (hb_entries h)" "cn_ID c = cn_ID (en_conn (hb_entries h ! r))" using mget_wf(2) [OF assms(1)] by blast+
    then show False using assms(2) nth_mem by metis
  qed
  then have new: "?new = ?old @ [(cn_ID c, ref)]" by (simp add: mput_def)
  have "mset (refs_of (hb_conns h')) + mset (map snd ?old) = mset (refs_of (hb_conns h)) + mset (map snd ?new)"
    unfolding conns by (rule mset_refs_mput) (use assms(1) in \<open>simp add: table_wf_def\<close>)
  then have refs: "mset (refs_of (hb_conns h')) = add_mset ref (mset (refs_of (hb_conns h)))" by (simp add: new)
  have "table_wf h'"
  proof -
    have old: "ref2 < length (hb_entries h') \<and> cid = cn_ID (en_conn (hb_entries h' ! ref2))"
      if "ref2 < length (hb_entries h) \<and> cid = cn_ID (en_conn (hb_entries h ! ref2))" for cid ref2
      using that ents by (simp add: nth_append)
    have inner: "distinct (map fst m) \<and> (\<forall>(cid, ref)\<in>set m. ref < length (hb_entries h') \<and> cid = cn_ID (en_conn (hb_entries h' ! ref)))"
      if "(k, m) \<in> set (hb_conns h')" for k m
    proof -
      from that have "(k, m) = (?k, ?new) \<or> (k, m) \<in> set (hb_conns h)" unfolding conns by (blast dest: set_mput)
      then show ?thesis
      proof
        assume "(k, m) = (?k, ?new)"
        moreover have "distinct (map fst ?new)" using fresh mget_wf(1) [OF assms(1)] by (simp add: new)
        moreover have "\<forall>(cid, r)\<in>set ?new. r < length (hb_entries h') \<and> cid = cn_ID (en_conn (hb_entries h' ! r))"
        proof (clarify)
          fix cid r assume "(cid, r) \<in> set ?new"
          then consider "(cid, r) \<in> set ?old" | "cid = cn_ID c" "r = length (hb_entries h)"
            unfolding new using ref by auto
          then show "r < length (hb_entries h') \<and> cid = cn_ID (en_conn (hb_entries h' ! r))"
          proof cases
            case 1
            then show ?thesis by (rule old [OF mget_wf(2) [OF assms(1)]])
          qed (simp add: ents)
        qed
        ultimately show ?thesis by simp
      next
        assume "(k, m) \<in> set (hb_conns h)"
        then show ?thesis using assms(1) old by (fastforce simp: table_wf_def)
      qed
    qed
    moreover have "distinct (map fst (hb_conns h'))" using assms(1) unfolding conns by (simp add: table_wf_def distinct_mput)
    ultimately show ?thesis unfolding table_wf_def by blast
  qed
  then show ?thesis using ref refs ents td by blast
qed

lemma mset_snd_mdel:
  "distinct (map fst m) \<Longrightarrow> map_of m c = Some r \<Longrightarrow> mset (map snd m) = add_mset r (mset (map snd (mdel c m)))"
proof (induction m)
  case (Cons x m)
  show ?case
  proof (cases "fst x = c")
    case True
    have "c \<notin> fst ` set m" using Cons.prems(1) True by simp
    then have "mdel c m = m" unfolding mdel_def by (intro filter_True) force
    then show ?thesis using True Cons.prems(2) by (cases x) (simp add: mdel_def)
  next
    case False
    then show ?thesis using Cons by (cases x) (simp add: mdel_def)
  qed
qed simp

lemma remove_unlink_table:
  assumes "table_wf h" and "remove_unlink app sub cid h = (Some ref, h')"
  shows "table_wf h' \<and> mset (refs_of (hb_conns h)) = add_mset ref (mset (refs_of (hb_conns h'))) \<and>
    hb_entries h' = hb_entries h \<and> hb_teardowns h' = hb_teardowns h + 1"
proof -
  let ?k = "hub_key app (Subject_String sub)"
  let ?old = "mget ?k (hb_conns h)"
  let ?new = "mdel cid ?old"
  have some: "map_of ?old cid = Some ref" and
    conns: "hb_conns h' = (if length ?new = 0 then mdel ?k (hb_conns h) else mput ?k ?new (hb_conns h))" and
    same: "hb_entries h' = hb_entries h" "hb_teardowns h' = hb_teardowns h + 1"
    using assms(2) by (auto simp: remove_unlink_def Let_def split: option.splits)
  have d: "distinct (map fst (hb_conns h))" using assms(1) by (simp add: table_wf_def)
  have snd: "mset (map snd ?old) = add_mset ref (mset (map snd ?new))"
    by (rule mset_snd_mdel [OF mget_wf(1) [OF assms(1)] some])
  have refs: "mset (refs_of (hb_conns h)) = add_mset ref (mset (refs_of (hb_conns h')))"
  proof (cases "length ?new = 0")
    case True
    then have c: "hb_conns h' = mdel ?k (hb_conns h)" unfolding conns by simp
    show ?thesis using mset_refs_mdel [OF d, of ?k] snd True unfolding c by simp
  next
    case False
    then have c: "hb_conns h' = mput ?k ?new (hb_conns h)" unfolding conns by simp
    show ?thesis using mset_refs_mput [OF d, of ?k ?new] snd unfolding c by simp
  qed
  have "table_wf h'"
  proof -
    have inner: "distinct (map fst m) \<and> (\<forall>(cid, ref)\<in>set m. ref < length (hb_entries h) \<and> cid = cn_ID (en_conn (hb_entries h ! ref)))"
      if "(k, m) \<in> set (hb_conns h')" for k m
    proof -
      from that have "m = ?new \<or> (k, m) \<in> set (hb_conns h)"
        unfolding conns by (auto simp: mdel_def dest: set_mput split: if_splits)
      then show ?thesis
      proof
        assume m: "m = ?new"
        show ?thesis
          unfolding m mdel_def
          using mget_wf(1) [OF assms(1), of ?k] mget_wf(2) [OF assms(1), where k = ?k] by (auto simp: distinct_map_filter)
      next
        assume "(k, m) \<in> set (hb_conns h)"
        then show ?thesis using assms(1) by (fastforce simp: table_wf_def)
      qed
    qed
    moreover have "distinct (map fst (hb_conns h'))" using d unfolding conns by (simp add: distinct_mput distinct_mdel)
    ultimately show ?thesis unfolding table_wf_def same by blast
  qed
  then show ?thesis using refs same by blast
qed

section \<open>The life of a connection\<close>

text \<open>Which application and subject the tables keep a connection under.\<close>

definition keyed :: "(nat \<Rightarrow> string \<times> string) \<Rightarrow> (string \<times> (string \<times> nat) list) list \<Rightarrow> bool" where
  "keyed w m \<longleftrightarrow> (\<forall>(k, x)\<in>set m. \<forall>(cid, ref)\<in>set x. k = hub_key (fst (w ref)) (snd (w ref)) \<and> CHR 0x00 \<notin> set (fst (w ref)))"

lemma hub_key_inject: "CHR 0x00 \<notin> set a \<Longrightarrow> CHR 0x00 \<notin> set b \<Longrightarrow> hub_key a s = hub_key b t \<longleftrightarrow> a = b \<and> s = t"
proof (induction a arbitrary: b)
  case Nil
  then show ?case by (cases b) (auto simp: hub_key_def)
next
  case (Cons x a)
  then show ?case by (cases b) (auto simp: hub_key_def)
qed

lemma keyedD: "keyed w m \<Longrightarrow> (k, x) \<in> set m \<Longrightarrow> (cid, ref) \<in> set x \<Longrightarrow>
    k = hub_key (fst (w ref)) (snd (w ref)) \<and> CHR 0x00 \<notin> set (fst (w ref))"
  by (fastforce simp: keyed_def)

lemma keyedI: "(\<And>k x cid ref. (k, x) \<in> set m \<Longrightarrow> (cid, ref) \<in> set x \<Longrightarrow>
    k = hub_key (fst (w ref)) (snd (w ref)) \<and> CHR 0x00 \<notin> set (fst (w ref))) \<Longrightarrow> keyed w m"
  by (fastforce simp: keyed_def)

lemma remove_unlink_keyed:
  assumes "keyed w (hb_conns h)" and "remove_unlink app sub cid h = (Some ref, h')"
  shows "keyed w (hb_conns h')"
    and "CHR 0x00 \<notin> set app \<Longrightarrow> w ref = (app, Subject_String sub)"
    and "(cid, ref) \<in> set (mget (hub_key app (Subject_String sub)) (hb_conns h))"
proof -
  let ?k = "hub_key app (Subject_String sub)"
  let ?old = "mget ?k (hb_conns h)"
  have some: "map_of ?old cid = Some ref" and
    conns: "hb_conns h' = (if length (mdel cid ?old) = 0 then mdel ?k (hb_conns h) else mput ?k (mdel cid ?old) (hb_conns h))"
    using assms(2) by (auto simp: remove_unlink_def Let_def split: option.splits)
  show mem: "(cid, ref) \<in> set ?old" using some by (rule map_of_SomeD)
  note old = keyedD [OF assms(1) mget_in]
  show "w ref = (app, Subject_String sub)" if "CHR 0x00 \<notin> set app"
    using old [OF mem mem] that hub_key_inject [of app "fst (w ref)"] by (simp add: prod_eq_iff)
  show "keyed w (hb_conns h')"
  proof (rule keyedI)
    fix k x cid2 r assume k: "(k, x) \<in> set (hb_conns h')" and r: "(cid2, r) \<in> set x"
    then consider "k = ?k" "x = mdel cid ?old" | "(k, x) \<in> set (hb_conns h)"
      unfolding conns by (auto simp: mdel_def dest: set_mput split: if_splits)
    then show "k = hub_key (fst (w r)) (snd (w r)) \<and> CHR 0x00 \<notin> set (fst (w r))"
    proof cases
      case 1
      then have "(cid2, r) \<in> set ?old" using r by (simp add: mdel_def)
      from old [OF this this] show ?thesis using 1 by simp
    next
      case 2
      from keyedD [OF assms(1) 2 r] show ?thesis .
    qed
  qed
qed

lemma add_register_keyed:
  assumes "keyed w (hb_conns h)" and "add_register app sub c meta h = (ref, h')" and "CHR 0x00 \<notin> set app"
    and "ref \<notin> set (refs_of (hb_conns h))"
  shows "keyed (w(ref := (app, Subject_String sub))) (hb_conns h')"
proof (rule keyedI)
  let ?k = "hub_key app (Subject_String sub)"
  let ?old = "mget ?k (hb_conns h)"
  let ?w = "w(ref := (app, Subject_String sub))"
  have conns: "hb_conns h' = mput ?k (mput (cn_ID c) ref ?old) (hb_conns h)"
    using assms(2) by (auto simp: add_register_def Let_def split: if_splits)
  fix k x cid r assume k: "(k, x) \<in> set (hb_conns h')" and r: "(cid, r) \<in> set x"
  from k have "(k, x) = (?k, mput (cn_ID c) ref ?old) \<or> (k, x) \<in> set (hb_conns h)"
    unfolding conns by (blast dest: set_mput)
  then have "k = ?k \<and> r = ref \<or> (\<exists>y. (k, y) \<in> set (hb_conns h) \<and> (cid, r) \<in> set y)"
    using r mget_in [of "(cid, r)" ?k "hb_conns h"] set_mput [of "(cid, r)" "cn_ID c" ref ?old] by auto
  then show "k = hub_key (fst (?w r)) (snd (?w r)) \<and> CHR 0x00 \<notin> set (fst (?w r))"
  proof
    assume "k = ?k \<and> r = ref"
    then show ?thesis using assms(3) by simp
  next
    assume "\<exists>y. (k, y) \<in> set (hb_conns h) \<and> (cid, r) \<in> set y"
    then obtain y where y: "(k, y) \<in> set (hb_conns h)" "(cid, r) \<in> set y" by blast
    then have "r \<noteq> ref" using assms(4) by (force simp: refs_of_def)
    then show ?thesis using keyedD [OF assms(1) y] by simp
  qed
qed

definition log_of :: "'r conc \<Rightarrow> nat \<Rightarrow> (nat \<times> offer \<times> bool) list" where
  "log_of s ref = filter (\<lambda>x. fst x = ref) (cc_log s)"

definition linked :: "'r conc \<Rightarrow> nat \<Rightarrow> bool" where
  "linked s ref \<longleftrightarrow> ref \<in> set (refs_of (hb_conns (cc_hub s)))"

abbreviation entry :: "'r conc \<Rightarrow> nat \<Rightarrow> connEntry" where
  "entry s ref \<equiv> hb_entries (cc_hub s) ! ref"

text \<open>
  The event of a connection's arrival and of its end, for the application and the subject of \<^verbatim>\<open>w\<close>: identifier, system
  and kind of device are those the connection was registered with.
\<close>

definition arrival :: "string \<times> string \<Rightarrow> connEntry \<Rightarrow> offer \<Rightarrow> bool" where
  "arrival w en x \<longleftrightarrow> (\<exists>ua. x = Offer (fst w) (snd w) (cn_ID (en_conn en))
     \<lparr>eb_Kind = EventConnected, eb_OS = cm_OS (en_meta en), eb_Mobile = cm_Mobile (en_meta en), eb_UA = ua, eb_Reason = [],
      eb_At = cm_At (en_meta en)\<rparr>)"

definition departure :: "string \<times> string \<Rightarrow> connEntry \<Rightarrow> offer \<Rightarrow> bool" where
  "departure w en x \<longleftrightarrow> (\<exists>reason at. x = Offer (fst w) (snd w) (cn_ID (en_conn en))
     \<lparr>eb_Kind = EventDisconnected, eb_OS = cm_OS (en_meta en), eb_Mobile = cm_Mobile (en_meta en), eb_UA = [],
      eb_Reason = reason, eb_At = at\<rparr>)"

lemma add_emit_arrival: "add_emit E app sub c meta ua h = ((x, d), h') \<Longrightarrow> en_conn en = c \<Longrightarrow> en_meta en = meta \<Longrightarrow>
    arrival (app, Subject_String sub) en x"
  by (auto simp: add_emit_def arrival_def connected_body_def dest!: emit_offerD(2))

lemma remove_emit_departure:
  assumes "remove_emit E app sub (cn_ID (en_conn (hb_entries h ! ref))) ref reason h = (x, h')"
  shows "if en_delivered (hb_entries h ! ref) then \<exists>y d. x = Some (y, d) \<and> departure (app, Subject_String sub) (hb_entries h ! ref) y
    else x = None"
  using assms by (auto simp: remove_emit_def Let_def departure_def split: if_splits prod.splits dest!: emit_offerD(2))

text \<open>What holds of one connection, over what the state says of it.\<close>

type_synonym conn_facts =
  "add_stage option \<times> remove_stage option \<times> (nat \<times> offer \<times> bool) list \<times> bool \<times> connEntry \<times> bool \<times> string \<times> string"

definition conn_inv :: "nat \<Rightarrow> conn_facts \<Rightarrow> bool" where
  "conn_inv ref x \<longleftrightarrow>
     (case x of (adding, removing, L, lk, en, tmo, w) \<Rightarrow>
        (case adding of
           Some (AddRegistered app sub c meta ua) \<Rightarrow>
             \<not> en_established en \<and> L = [] \<and> w = (app, Subject_String sub) \<and> c = en_conn en \<and> meta = en_meta en
         | Some (AddEmitted d) \<Rightarrow> \<not> en_established en \<and> (\<exists>a. arrival w en a \<and> L = [(ref, a, d)])
         | None \<Rightarrow> en_established en \<and>
             (\<exists>a. arrival w en a \<and>
                (L = [(ref, a, en_delivered en)] \<or>
                 en_delivered en \<and> (\<exists>b y. departure w en b \<and> L = [(ref, a, True), (ref, b, y)])))) \<and>
        (case removing of
           Some (RemoveWaiting app sub cid reason) \<Rightarrow>
             \<not> lk \<and> w = (app, Subject_String sub) \<and> cid = cn_ID (en_conn en) \<and> length L \<le> 1
         | Some RemoveEmitted \<Rightarrow> \<not> lk \<and> en_established en \<and> (en_delivered en \<longrightarrow> length L = 2)
         | None \<Rightarrow> lk \<and> length L \<le> 1 \<or> \<not> lk \<and> (tmo \<or> en_established en \<and> (en_delivered en \<longrightarrow> length L = 2))))"

definition conn_view :: "'r conc \<Rightarrow> nat \<Rightarrow> conn_facts" where
  "conn_view s ref =
     (cc_adding s ref, cc_removing s ref, log_of s ref, linked s ref, entry s ref, ref \<in> set (cc_timedout s), cc_for s ref)"

definition touched :: "'r conc \<Rightarrow> nat set" where
  "touched s = dom (cc_adding s) \<union> dom (cc_removing s) \<union> fst ` set (cc_log s) \<union> set (cc_timedout s)"

definition conc_inv :: "'r conc \<Rightarrow> bool" where
  "conc_inv s \<longleftrightarrow>
     table_wf (cc_hub s) \<and> keyed (cc_for s) (hb_conns (cc_hub s)) \<and> distinct (refs_of (hb_conns (cc_hub s))) \<and>
     finite (dom (cc_removing s)) \<and> hb_teardowns (cc_hub s) = card (dom (cc_removing s)) \<and>
     touched s \<subseteq> {..<length (hb_entries (cc_hub s))} \<and>
     (\<forall>ref < length (hb_entries (cc_hub s)). conn_inv ref (conn_view s ref))"

lemma conc_invD:
  assumes "conc_inv s"
  shows "table_wf (cc_hub s)" "distinct (refs_of (hb_conns (cc_hub s)))" "finite (dom (cc_removing s))"
    "hb_teardowns (cc_hub s) = card (dom (cc_removing s))"
    "touched s \<subseteq> {..<length (hb_entries (cc_hub s))}"
    "ref < length (hb_entries (cc_hub s)) \<Longrightarrow> conn_inv ref (conn_view s ref)"
    "keyed (cc_for s) (hb_conns (cc_hub s))"
  using assms by (simp_all add: conc_inv_def)

text \<open>A step that leaves the table of connections alone and changes what is said of one connection only.\<close>

lemma conc_inv_change:
  assumes "conc_inv s" and "ref < length (hb_entries (cc_hub s))"
    and "distinct (refs_of (hb_conns (cc_hub t)))"
    and "length (hb_entries (cc_hub t)) = length (hb_entries (cc_hub s))"
    and "\<And>r. r \<noteq> ref \<Longrightarrow> r < length (hb_entries (cc_hub s)) \<Longrightarrow> conn_view t r = conn_view s r"
    and "conn_inv ref (conn_view t ref)" and "table_wf (cc_hub t)" and "keyed (cc_for t) (hb_conns (cc_hub t))"
    and "finite (dom (cc_removing t)) \<and> hb_teardowns (cc_hub t) = card (dom (cc_removing t))"
    and "touched t \<subseteq> insert ref (touched s)"
  shows "conc_inv t"
proof -
  have "conn_inv r (conn_view t r)" if "r < length (hb_entries (cc_hub t))" for r
    using that assms(4-6) conc_invD(6) [OF assms(1)] by (cases "r = ref") auto
  moreover have "touched t \<subseteq> {..<length (hb_entries (cc_hub t))}"
    using conc_invD(5) [OF assms(1)] assms(2,4,10) by auto
  ultimately show ?thesis using assms(3,7,8,9) unfolding conc_inv_def by simp
qed

lemma table_wf_entries:
  assumes "table_wf h" and "hb_conns h' = hb_conns h" and "length (hb_entries h') = length (hb_entries h)"
    and "\<And>r. r < length (hb_entries h) \<Longrightarrow> cn_ID (en_conn (hb_entries h' ! r)) = cn_ID (en_conn (hb_entries h ! r))"
  shows "table_wf h'"
  using assms by (fastforce simp: table_wf_def)

lemma table_wf_refs: "table_wf h \<Longrightarrow> r \<in> set (refs_of (hb_conns h)) \<Longrightarrow> r < length (hb_entries h)"
  by (fastforce simp: table_wf_def refs_of_def)

lemma distinct_add_mset: "mset xs = add_mset x (mset ys) \<Longrightarrow> distinct xs \<longleftrightarrow> distinct (x # ys)"
  by (metis mset.simps(2) mset_eq_imp_distinct_iff)

lemma set_add_mset: "mset xs = add_mset x (mset ys) \<Longrightarrow> set xs = insert x (set ys)"
  by (metis mset.simps(2) mset_eq_setD list.simps(15))

lemma touchedI:
  "cc_adding s r = Some x \<Longrightarrow> r \<in> touched s" "cc_removing s r = Some y \<Longrightarrow> r \<in> touched s"
  by (auto simp: touched_def)

lemma inv_register:
  assumes "conc_inv s" and "\<forall>en\<in>set (hb_entries (cc_hub s)). cn_ID (en_conn en) \<noteq> cn_ID c" and "CHR 0x00 \<notin> set app"
    and "add_register app sub c meta (cc_hub s) = (ref, h)"
  shows "conc_inv (s\<lparr>cc_hub := h, cc_adding := (cc_adding s)(ref \<mapsto> AddRegistered app sub c meta ua),
           cc_for := (cc_for s)(ref := (app, Subject_String sub))\<rparr>)" (is "conc_inv ?t")
proof -
  note I = conc_invD [OF assms(1)]
  note R = add_register_table [OF I(1) assms(2,4)]
  let ?n = "length (hb_entries (cc_hub s))"
  have m: "mset (refs_of (hb_conns h)) = add_mset ref (mset (refs_of (hb_conns (cc_hub s))))" using R by simp
  note refs = set_add_mset [OF m] and dist = distinct_add_mset [OF m]
  have new: "ref = ?n" "ref \<notin> touched s" "ref \<notin> set (refs_of (hb_conns (cc_hub s)))"
    using I(5) R table_wf_refs [OF I(1)] by auto
  have other: "conn_view ?t r = conn_view s r" if "r < ?n" for r
    using that R refs new(1) by (simp add: conn_view_def log_of_def linked_def nth_append)
  have "log_of s ref = []" "cc_removing s ref = None" "ref \<notin> set (cc_timedout s)"
    using new(2) by (auto simp: touched_def log_of_def filter_empty_conv image_iff)
  then have "conn_inv ref (conn_view ?t ref)"
    using R refs new(1) by (simp add: conn_view_def conn_inv_def log_of_def linked_def)
  then have "conn_inv r (conn_view ?t r)" if "r < length (hb_entries h)" for r
    using that other I(6) R new(1) by (cases "r = ref") auto
  moreover have "touched ?t = insert ref (touched s)" by (auto simp: touched_def)
  moreover have "keyed (cc_for ?t) (hb_conns h)" using add_register_keyed [OF I(7) assms(4,3) new(3)] by simp
  ultimately show ?thesis
    using R I dist new unfolding conc_inv_def by auto
qed

lemma inv_connected:
  assumes "conc_inv s" and "cc_adding s ref = Some (AddRegistered app sub c meta ua)"
    and "add_emit E app sub c meta ua (cc_hub s) = ((x, d), h)"
  shows "conc_inv (s\<lparr>cc_hub := h, cc_adding := (cc_adding s)(ref \<mapsto> AddEmitted d), cc_log := cc_log s @ [(ref, x, d)]\<rparr>)"
    (is "conc_inv ?t")
proof (rule conc_inv_change [OF assms(1)])
  note I = conc_invD [OF assms(1)] and S = same_fields [OF same_emit_offer [OF assms(3) [unfolded add_emit_def]]]
  show ref: "ref < length (hb_entries (cc_hub s))" using I(5) touchedI(1) [OF assms(2)] by auto
  have "arrival (cc_for s ref) (entry s ref) x"
    using I(6) [OF ref] assms(2) add_emit_arrival [OF assms(3), of "entry s ref"] by (auto simp: conn_view_def conn_inv_def)
  then show "conn_inv ref (conn_view ?t ref)"
    using I(6) [OF ref] assms(2) S
    by (auto simp: conn_view_def conn_inv_def log_of_def linked_def split: option.splits remove_stage.splits)
  show "table_wf (cc_hub ?t)" using table_wf_entries [OF I(1), of h] S by simp
qed (use conc_invD [OF assms(1)] same_fields [OF same_emit_offer [OF assms(3) [unfolded add_emit_def]]]
     in \<open>auto simp: conn_view_def log_of_def linked_def touched_def\<close>)

lemma inv_established:
  assumes "conc_inv s" and "cc_adding s ref = Some (AddEmitted d)"
  shows "conc_inv (s\<lparr>cc_hub := add_finish ref d (cc_hub s), cc_adding := (cc_adding s)(ref := None)\<rparr>)" (is "conc_inv ?t")
proof (rule conc_inv_change [OF assms(1)])
  note I = conc_invD [OF assms(1)]
  show ref: "ref < length (hb_entries (cc_hub s))" using I(5) touchedI(1) [OF assms(2)] by auto
  show "conn_inv ref (conn_view ?t ref)"
    using I(6) [OF ref] assms(2) ref
    by (auto simp: conn_view_def conn_inv_def log_of_def linked_def add_finish_def arrival_def split: option.splits remove_stage.splits)
  show "table_wf (cc_hub ?t)"
    by (rule table_wf_entries [OF I(1)]) (use ref in \<open>auto simp: add_finish_def nth_list_update\<close>)
qed (use conc_invD [OF assms(1)] in \<open>auto simp: conn_view_def log_of_def linked_def touched_def add_finish_def\<close>)

lemma inv_unlink:
  assumes "conc_inv s" and "CHR 0x00 \<notin> set app" and "remove_unlink app sub cid (cc_hub s) = (Some ref, h)"
  shows "conc_inv (s\<lparr>cc_hub := h, cc_removing := (cc_removing s)(ref \<mapsto> RemoveWaiting app sub cid reason)\<rparr>)" (is "conc_inv ?t")
proof (rule conc_inv_change [OF assms(1)])
  note I = conc_invD [OF assms(1)]
  note R = remove_unlink_table [OF I(1) assms(3)] and K = remove_unlink_keyed [OF I(7) assms(3)]
  have m: "mset (refs_of (hb_conns (cc_hub s))) = add_mset ref (mset (refs_of (hb_conns h)))" using R by simp
  note refs = set_add_mset [OF m] and dist = distinct_add_mset [OF m]
  have lk: "linked s ref" "\<not> linked ?t ref" "distinct (refs_of (hb_conns h))"
    using I(2) refs dist by (auto simp: linked_def)
  show ref: "ref < length (hb_entries (cc_hub s))" using table_wf_refs [OF I(1)] refs by auto
  have none: "cc_removing s ref = None"
    using I(6) [OF ref] lk(1) by (auto simp: conn_view_def conn_inv_def split: option.splits remove_stage.splits)
  have "cc_for s ref = (app, Subject_String sub)" "cid = cn_ID (en_conn (entry s ref))"
    using K(2) [OF assms(2)] mget_wf(2) [OF I(1) K(3)] by simp_all
  then show "conn_inv ref (conn_view ?t ref)"
    using I(6) [OF ref] lk R none by (auto simp: conn_view_def conn_inv_def log_of_def)
  show "conn_view ?t r = conn_view s r" if "r \<noteq> ref" for r
    using that refs R by (auto simp: conn_view_def log_of_def linked_def)
  have "dom (cc_removing ?t) = insert ref (dom (cc_removing s))" "ref \<notin> dom (cc_removing s)" using none by auto
  then show "finite (dom (cc_removing ?t)) \<and> hb_teardowns (cc_hub ?t) = card (dom (cc_removing ?t))"
    using I(3,4) R by simp
  show "distinct (refs_of (hb_conns (cc_hub ?t)))" using lk(3) by simp
  show "keyed (cc_for ?t) (hb_conns (cc_hub ?t))" using K(1) by simp
qed (use conc_invD [OF assms(1)] remove_unlink_table [OF conc_invD(1) [OF assms(1)] assms(3)] in \<open>auto simp: touched_def\<close>)

lemma inv_disconnected:
  assumes "conc_inv s" and "cc_removing s ref = Some (RemoveWaiting app sub cid reason)" and "en_established (entry s ref)"
    and "remove_emit E app sub cid ref reason (cc_hub s) = (x, h)"
  shows "conc_inv (s\<lparr>cc_hub := h, cc_removing := (cc_removing s)(ref \<mapsto> RemoveEmitted),
           cc_log := cc_log s @ (case x of None \<Rightarrow> [] | Some y \<Rightarrow> [(ref, y)])\<rparr>)" (is "conc_inv ?t")
proof (rule conc_inv_change [OF assms(1)])
  note I = conc_invD [OF assms(1)] and S = same_fields [OF same_remove_emit [OF assms(4)]]
  show ref: "ref < length (hb_entries (cc_hub s))" using I(5) touchedI(2) [OF assms(2)] by auto
  have w: "cc_for s ref = (app, Subject_String sub)" and cid: "cid = cn_ID (en_conn (entry s ref))" and
    one: "length (log_of s ref) \<le> 1" and lk: "\<not> linked s ref"
    using I(6) [OF ref] assms(2) by (auto simp: conn_view_def conn_inv_def)
  obtain a where adding: "cc_adding s ref = None" and a: "arrival (cc_for s ref) (entry s ref) a"
    and L: "log_of s ref = [(ref, a, en_delivered (entry s ref))]"
    using I(6) [OF ref] assms(3) one by (auto simp: conn_view_def conn_inv_def split: option.splits add_stage.splits)
  have x: "if en_delivered (entry s ref) then \<exists>y d. x = Some (y, d) \<and> departure (cc_for s ref) (entry s ref) y else x = None"
    using remove_emit_departure [OF assms(4) [unfolded cid]] unfolding w .
  have Lt: "log_of ?t ref = log_of s ref @ (case x of None \<Rightarrow> [] | Some y \<Rightarrow> [(ref, y)])"
    by (simp add: log_of_def split: option.splits)
  show "conn_inv ref (conn_view ?t ref)"
  proof (cases "en_delivered (entry s ref)")
    case True
    then obtain y d where y: "x = Some (y, d)" "departure (cc_for s ref) (entry s ref) y" using x by auto
    then have "log_of ?t ref = [(ref, a, True), (ref, y, d)]" using Lt L True by simp
    then show ?thesis using adding a y(2) lk S True assms(3) by (auto simp: conn_view_def conn_inv_def linked_def)
  next
    case False
    then have "log_of ?t ref = [(ref, a, False)]" using x Lt L by simp
    then show ?thesis using adding a lk S False assms(3) by (auto simp: conn_view_def conn_inv_def linked_def)
  qed
  show "table_wf (cc_hub ?t)" using table_wf_entries [OF I(1), of h] S by simp
  have "dom (cc_removing ?t) = dom (cc_removing s)" using assms(2) by auto
  then show "finite (dom (cc_removing ?t)) \<and> hb_teardowns (cc_hub ?t) = card (dom (cc_removing ?t))" using I(3,4) S by simp
qed (use conc_invD [OF assms(1)] same_fields [OF same_remove_emit [OF assms(4)]]
     in \<open>auto simp: conn_view_def log_of_def linked_def touched_def split: option.splits\<close>)

lemma inv_teardown_ends:
  assumes "conc_inv s" and "cc_removing s ref = Some stage" and "stage \<noteq> RemoveEmitted \<Longrightarrow> ref \<in> set tmo"
    and "set (cc_timedout s) \<subseteq> set tmo" "set tmo \<subseteq> insert ref (set (cc_timedout s))"
  shows "conc_inv (s\<lparr>cc_hub := remove_done (cc_hub s), cc_removing := (cc_removing s)(ref := None), cc_timedout := tmo\<rparr>)"
    (is "conc_inv ?t")
proof (rule conc_inv_change [OF assms(1)])
  note I = conc_invD [OF assms(1)]
  show ref: "ref < length (hb_entries (cc_hub s))" using I(5) touchedI(2) [OF assms(2)] by auto
  show "conn_inv ref (conn_view ?t ref)"
    using I(6) [OF ref] assms(2,3,4)
    by (cases stage; cases "cc_adding s ref")
      (auto simp: conn_view_def conn_inv_def log_of_def linked_def remove_done_def split: add_stage.splits)
  show "table_wf (cc_hub ?t)" using table_wf_entries [OF I(1), of "remove_done (cc_hub s)"] by (simp add: remove_done_def)
  show "finite (dom (cc_removing ?t)) \<and> hb_teardowns (cc_hub ?t) = card (dom (cc_removing ?t))"
    using I(3,4) assms(2) by (simp add: remove_done_def domI)
qed (use conc_invD [OF assms(1)] assms(4,5) in \<open>auto simp: conn_view_def log_of_def linked_def touched_def remove_done_def\<close>)

lemma conc_step_inv:
  assumes "conc_step E s t" and "conc_inv s"
  shows "conc_inv t"
  using assms
proof (induction rule: conc_step.induct)
  case (conc_register s c app sub meta ref h ua)
  show ?case by (rule inv_register [OF conc_register(4,1,2,3)])
next
  case (conc_connected s ref app sub c meta ua x d h)
  show ?case by (rule inv_connected [OF conc_connected(3,1,2)])
next
  case (conc_established s ref d)
  show ?case by (rule inv_established [OF conc_established(2,1)])
next
  case (conc_unlink app sub cid s ref h reason)
  show ?case by (rule inv_unlink [OF conc_unlink(3,1,2)])
next
  case (conc_disconnected s ref app sub cid reason x h)
  show ?case by (rule inv_disconnected [OF conc_disconnected(4,1,2,3)])
next
  case (conc_timeout s ref app sub cid reason)
  show ?case using inv_teardown_ends [OF conc_timeout(2,1), of "ref # cc_timedout s"] by auto
next
  case (conc_removed s ref)
  show ?case using inv_teardown_ends [OF conc_removed(2,1), of "cc_timedout s"] by auto
next
  case (conc_other h s)
  have w: "table_wf h" using table_wf_entries [OF conc_invD(1) [OF conc_other(4)], of h] conc_other by simp
  have v: "conn_view (s\<lparr>cc_hub := h\<rparr>) r = conn_view s r" for r
    using conc_other by (simp add: conn_view_def log_of_def linked_def)
  show ?case using conc_other w v by (simp add: conc_inv_def touched_def)
qed

lemma conc_reach_inv: "conc_reach E (conc_init nodeID r) s \<Longrightarrow> conc_inv s"
proof (induction rule: conc_reach.induct)
  case conc_start
  show ?case by (simp add: conc_inv_def conc_init_def hub_New_def table_wf_def refs_of_def touched_def keyed_def)
qed (rule conc_step_inv)

section \<open>Order and completeness of the events\<close>


lemma single_stream: "mget app (hb_streams h) = [s] \<Longrightarrow> localStream app subject h = Some s"
  by (simp add: localStream_def Let_def unat_mod)

text \<open>A node with a server stream, a client that comes and goes.\<close>

definition demo_E :: "demo_net hub_env" where "demo_E = demo_hub_env [] (\<lambda>n. 0) []"

definition demo_hub1 :: "demo_net Hub" where "demo_hub1 = AddStream demo_E ''a1'' 1 (hub_New ''im-a'' demo_net0)"

definition demo_hub2 :: "demo_net Hub" where
  "demo_hub2 = snd (add_register ''a1'' (Subject_User ''1'') \<lparr>cn_ID = ''c1'', cn_Token = []\<rparr> (demo_meta ''im-a'') demo_hub1)"

definition demo_hub3 :: "demo_net Hub" where
  "demo_hub3 = snd (add_emit demo_E ''a1'' (Subject_User ''1'') \<lparr>cn_ID = ''c1'', cn_Token = []\<rparr> (demo_meta ''im-a'') [] demo_hub2)"

definition demo_hub4 :: "demo_net Hub" where "demo_hub4 = add_finish 0 True demo_hub3"

definition demo_hub5 :: "demo_net Hub" where "demo_hub5 = snd (remove_unlink ''a1'' (Subject_User ''1'') ''c1'' demo_hub4)"

definition demo_hub6 :: "demo_net Hub" where
  "demo_hub6 = remove_done (snd (remove_emit demo_E ''a1'' (Subject_User ''1'') ''c1'' 0 ReasonClient demo_hub5))"

lemma demo_hub2_fields:
  "hb_entries demo_hub2 = [\<lparr>en_conn = \<lparr>cn_ID = ''c1'', cn_Token = []\<rparr>, en_meta = demo_meta ''im-a'', en_established = False, en_delivered = False\<rparr>]"
  "hb_conns demo_hub2 = [(hub_key ''a1'' ''u:1'', [(''c1'', 0)])]" "hb_streams demo_hub2 = [(''a1'', [1])]" "hb_teardowns demo_hub2 = 0"
  "fst (add_register ''a1'' (Subject_User ''1'') \<lparr>cn_ID = ''c1'', cn_Token = []\<rparr> (demo_meta ''im-a'') demo_hub1) = 0"
  by (simp_all add: demo_hub2_def demo_hub1_def add_register_def Let_def AddStream_def hub_New_def mput_def mget_def touch_def
      Subject_String_def Subject_User_def)

definition demo_arrival :: offer where
  "demo_arrival = Offer ''a1'' ''u:1'' ''c1'' (connected_body (demo_meta ''im-a'') [])"

definition demo_departure :: offer where
  "demo_departure = Offer ''a1'' ''u:1'' ''c1'' ((connected_body (demo_meta ''im-a'') [])
     \<lparr>eb_Kind := EventDisconnected, eb_Reason := ReasonClient, eb_At := he_nowMs demo_E (hb_world demo_hub5)\<rparr>)"

lemma demo_emit:
  assumes "hb_streams h = [(''a1'', [1])]"
  shows "fst (emit demo_E ''a1'' (Subject_User ''1'') cid body h) = True"
proof -
  have l: "localStream ''a1'' sub h = Some 1" for sub by (rule single_stream) (simp add: assms mget_def)
  show ?thesis
    by (simp add: emit_def Deliver_def l toResponse_def Let_def demo_E_def demo_hub_env_def on_world_def)
qed

lemma demo_emit_offer:
  assumes "hb_streams h = [(''a1'', [1])]"
  shows "emit_offer demo_E ''a1'' (Subject_User ''1'') cid body h =
    ((Offer ''a1'' ''u:1'' cid body, True), snd (emit_offer demo_E ''a1'' (Subject_User ''1'') cid body h))"
  using demo_emit [OF assms, of cid body]
  by (simp add: emit_offer_def split_beta Subject_String_def Subject_User_def)

lemma demo_hub3_emit:
  "add_emit demo_E ''a1'' (Subject_User ''1'') \<lparr>cn_ID = ''c1'', cn_Token = []\<rparr> (demo_meta ''im-a'') [] demo_hub2 =
     ((demo_arrival, True), demo_hub3)"
  unfolding demo_hub3_def add_emit_def demo_arrival_def Conn.simps
  by (subst demo_emit_offer [OF demo_hub2_fields(3)]) (rule refl)

lemma demo_hub3_fields:
  "hb_entries demo_hub3 = hb_entries demo_hub2" "hb_conns demo_hub3 = hb_conns demo_hub2" "hb_teardowns demo_hub3 = 0"
  "hb_streams demo_hub3 = [(''a1'', [1])]"
  using same_fields [OF same_emit_offer [OF demo_hub3_emit [unfolded add_emit_def]]] by (simp_all add: demo_hub2_fields)

lemma demo_hub5_fields:
  "remove_unlink ''a1'' (Subject_User ''1'') ''c1'' demo_hub4 = (Some 0, demo_hub5)" "hb_conns demo_hub5 = []"
  "hb_teardowns demo_hub5 = 1" "en_established (hb_entries demo_hub5 ! 0)" "en_delivered (hb_entries demo_hub5 ! 0)"
  "hb_streams demo_hub5 = [(''a1'', [1])]" "en_meta (hb_entries demo_hub5 ! 0) = demo_meta ''im-a''"
  by (simp_all add: demo_hub5_def demo_hub4_def remove_unlink_def add_finish_def demo_hub3_fields demo_hub2_fields mget_def mdel_def
      Let_def Subject_String_def Subject_User_def)

lemma demo_hub6_emit:
  "remove_emit demo_E ''a1'' (Subject_User ''1'') ''c1'' 0 ReasonClient demo_hub5 =
     (Some (demo_departure, True), snd (remove_emit demo_E ''a1'' (Subject_User ''1'') ''c1'' 0 ReasonClient demo_hub5))"
  by (simp add: remove_emit_def demo_hub5_fields demo_departure_def connected_body_def Let_def split_beta
      demo_emit_offer [OF demo_hub5_fields(6), THEN arg_cong [of _ _ fst]])

definition demo_gone :: "demo_net conc" where
  "demo_gone = \<lparr>cc_hub = demo_hub6, cc_adding = Map.empty, cc_removing = Map.empty, cc_timedout = [],
     cc_for = (\<lambda>_. ([], []))(0 := (''a1'', ''u:1'')), cc_log = [(0, demo_arrival, True), (0, demo_departure, True)]\<rparr>"

lemma demo_gone_reach: "conc_reach demo_E (conc_init ''im-a'' demo_net0) demo_gone"
proof -
  let ?c = "\<lparr>cn_ID = ''c1'', cn_Token = []\<rparr>"
  let ?s0 = "conc_init ''im-a'' demo_net0"
  let ?s1 = "?s0\<lparr>cc_hub := demo_hub1\<rparr>"
  have 1: "conc_reach demo_E ?s0 ?s1"
    by (rule conc_next [OF conc_start conc_other])
      (simp_all add: demo_hub1_def AddStream_def conc_init_def hub_New_def touch_def Let_def)
  let ?s2 = "?s1\<lparr>cc_hub := demo_hub2,
      cc_adding := (cc_adding ?s1)(0 \<mapsto> AddRegistered ''a1'' (Subject_User ''1'') ?c (demo_meta ''im-a'') []),
      cc_for := (cc_for ?s1)(0 := (''a1'', Subject_String (Subject_User ''1'')))\<rparr>"
  have "add_register ''a1'' (Subject_User ''1'') ?c (demo_meta ''im-a'') (cc_hub ?s1) = (0, demo_hub2)"
    using demo_hub2_fields(5) by (simp add: demo_hub2_def prod_eq_iff)
  then have 2: "conc_reach demo_E ?s0 ?s2"
    by (intro conc_next [OF 1] conc_register [where c = ?c])
      (simp_all add: demo_hub1_def AddStream_def hub_New_def touch_def Let_def)
  let ?s3 = "?s2\<lparr>cc_hub := demo_hub3, cc_adding := (cc_adding ?s2)(0 \<mapsto> AddEmitted True),
      cc_log := cc_log ?s2 @ [(0, demo_arrival, True)]\<rparr>"
  have e: "add_emit demo_E ''a1'' (Subject_User ''1'') ?c (demo_meta ''im-a'') [] (cc_hub ?s2) = ((demo_arrival, True), demo_hub3)"
    using demo_hub3_emit by simp
  have 3: "conc_reach demo_E ?s0 ?s3" by (rule conc_next [OF 2 conc_connected [OF _ e]]) simp
  let ?s4 = "?s3\<lparr>cc_hub := add_finish 0 True (cc_hub ?s3), cc_adding := (cc_adding ?s3)(0 := None)\<rparr>"
  have 4: "conc_reach demo_E ?s0 ?s4" by (intro conc_next [OF 3] conc_established) simp
  let ?s5 = "?s4\<lparr>cc_hub := demo_hub5,
      cc_removing := (cc_removing ?s4)(0 \<mapsto> RemoveWaiting ''a1'' (Subject_User ''1'') ''c1'' ReasonClient)\<rparr>"
  have 5: "conc_reach demo_E ?s0 ?s5"
    by (intro conc_next [OF 4] conc_unlink) (simp_all add: demo_hub5_fields(1) [unfolded demo_hub4_def])
  let ?s6 = "?s5\<lparr>cc_hub := snd (remove_emit demo_E ''a1'' (Subject_User ''1'') ''c1'' 0 ReasonClient (cc_hub ?s5)),
      cc_removing := (cc_removing ?s5)(0 \<mapsto> RemoveEmitted),
      cc_log := cc_log ?s5 @ (case Some (demo_departure, True) of None \<Rightarrow> [] | Some y \<Rightarrow> [(0, y)])\<rparr>"
  have h5: "cc_hub ?s5 = demo_hub5" by simp
  have e: "remove_emit demo_E ''a1'' (Subject_User ''1'') ''c1'' 0 ReasonClient (cc_hub ?s5) =
      (Some (demo_departure, True), snd (remove_emit demo_E ''a1'' (Subject_User ''1'') ''c1'' 0 ReasonClient (cc_hub ?s5)))"
    unfolding h5 by (rule demo_hub6_emit)
  have 6: "conc_reach demo_E ?s0 ?s6" by (rule conc_next [OF 5 conc_disconnected [OF _ _ e]]) (simp_all add: demo_hub5_fields)
  have "conc_reach demo_E ?s0 (?s6\<lparr>cc_hub := remove_done (cc_hub ?s6), cc_removing := (cc_removing ?s6)(0 := None)\<rparr>)"
    by (intro conc_next [OF 6] conc_removed) simp
  moreover have "?s6\<lparr>cc_hub := remove_done (cc_hub ?s6), cc_removing := (cc_removing ?s6)(0 := None)\<rparr> = demo_gone"
    by (simp add: demo_gone_def demo_hub6_def conc_init_def Subject_String_def Subject_User_def)
  ultimately show ?thesis by simp
qed


end
