(* ===== verification/Watch_Hub.thy ===== *)
theory Watch_Hub
  imports Domain Sdk_Cache
begin

text \<open>
  How events leave the server: the signals of the two Redis subscriptions (\<^verbatim>\<open>store/revoke.go\<close>,
  \<^verbatim>\<open>store/config.go\<close>), the hubs that fan them out to the streams of a process (\<^verbatim>\<open>grpcapi/watch.go\<close>,
  \<^verbatim>\<open>config_hub.go\<close>) and the messages of a stream (\<^verbatim>\<open>Watch\<close> in \<^verbatim>\<open>auth_service.go\<close>). Channels are Go's: a
  send to or a close of a closed channel is a panic, here \<^verbatim>\<open>None\<close>. A hub holds its channels in a heap, as the
  receivers keep them when the subscription is gone; identifiers of subscriptions are counted in 64 bits, which no
  run exhausts.
\<close>

section \<open>Channels\<close>

record 'e chan =
  ch_buf :: "'e list"
  ch_cap :: nat
  ch_closed :: bool

definition make_chan :: "nat \<Rightarrow> 'e chan" where
  "make_chan n = \<lparr>ch_buf = [], ch_cap = n, ch_closed = False\<rparr>"

text \<open>The non-blocking send of a \<^verbatim>\<open>select\<close> with a \<^verbatim>\<open>default\<close>.\<close>

definition try_send :: "'e \<Rightarrow> 'e chan \<Rightarrow> (bool \<times> 'e chan) option" where
  "try_send x c =
     (if ch_closed c then None
      else if length (ch_buf c) < ch_cap c then Some (True, c\<lparr>ch_buf := ch_buf c @ [x]\<rparr>)
      else Some (False, c))"

definition close_chan :: "'e chan \<Rightarrow> 'e chan option" where
  "close_chan c = (if ch_closed c then None else Some (c\<lparr>ch_closed := True\<rparr>))"

text \<open>A receive that does not block: a value, the end of a closed channel, or nothing yet.\<close>

datatype 'e received = Received 'e | Ended | Nothing

definition recv :: "'e chan \<Rightarrow> 'e received \<times> 'e chan" where
  "recv c = (case ch_buf c of
       [] \<Rightarrow> (if ch_closed c then Ended else Nothing, c)
     | x # xs \<Rightarrow> (Received x, c\<lparr>ch_buf := xs\<rparr>))"

section \<open>Signals\<close>

datatype pubsub_msg = PsSubscription string | PsMessage string | PsOther

datatype RevokeSignalKind = RevokeSignalEvent | RevokeSignalGap

record RevokeSignal =
  sg_Kind :: RevokeSignalKind
  sg_Event :: RevokeEvent

definition zero_event :: RevokeEvent where
  "zero_event = \<lparr>ev_Tokens = [], ev_UserIDs = [], ev_AppID = nil_uuid, ev_Reason = [], ev_At = 0, ev_Kind = [], ev_AccessKeyID = []\<rparr>"

text \<open>One message of the Redis subscription; \<^verbatim>\<open>dec\<close> is the JSON decoder.\<close>

definition revoke_signal :: "(string \<Rightarrow> RevokeEvent option) \<Rightarrow> pubsub_msg \<Rightarrow> RevokeSignal option" where
  "revoke_signal dec msg =
     (case msg of
        PsSubscription kind \<Rightarrow>
          if kind \<noteq> ''subscribe'' then None else Some \<lparr>sg_Kind = RevokeSignalGap, sg_Event = zero_event\<rparr>
      | PsMessage payload \<Rightarrow>
          (case dec payload of None \<Rightarrow> None | Some ev \<Rightarrow> Some \<lparr>sg_Kind = RevokeSignalEvent, sg_Event = ev\<rparr>)
      | PsOther \<Rightarrow> None)"

definition ConfigKindCenter :: string where "ConfigKindCenter = []"
definition ConfigKindIM :: string where "ConfigKindIM = ''im''"

record ConfigSignal =
  cs_Gap :: bool
  cs_Kind :: string
  cs_AppID :: uuid
  cs_ExternalAppID :: string
  cs_Type :: string
  cs_Seq :: int

definition gap_signal :: ConfigSignal where
  "gap_signal = \<lparr>cs_Gap = True, cs_Kind = [], cs_AppID = nil_uuid, cs_ExternalAppID = [], cs_Type = [], cs_Seq = 0\<rparr>"

text \<open>The field \<^verbatim>\<open>Gap\<close> is not part of the JSON, whatever the message says.\<close>

definition config_signal :: "(string \<Rightarrow> ConfigSignal option) \<Rightarrow> pubsub_msg \<Rightarrow> ConfigSignal option" where
  "config_signal dec msg =
     (case msg of
        PsSubscription kind \<Rightarrow> if kind \<noteq> ''subscribe'' then None else Some gap_signal
      | PsMessage payload \<Rightarrow> (case dec payload of None \<Rightarrow> None | Some sg \<Rightarrow> Some (sg\<lparr>cs_Gap := False\<rparr>))
      | PsOther \<Rightarrow> None)"

section \<open>The hub of revocations\<close>

definition revokeBufferSize :: nat where "revokeBufferSize = 64"

record HubEvent =
  hv_Purge :: bool
  hv_Reason :: string
  hv_Revoke :: RevokeEvent

definition purge_event :: "string \<Rightarrow> HubEvent" where
  "purge_event reason = \<lparr>hv_Purge = True, hv_Reason = reason, hv_Revoke = zero_event\<rparr>"

definition event_of :: "RevokeEvent \<Rightarrow> HubEvent" where
  "event_of ev = \<lparr>hv_Purge = False, hv_Reason = [], hv_Revoke = ev\<rparr>"

record revokeSub =
  rs_appID :: uuid
  rs_all :: bool
  rs_ch :: nat

record RevokeHub =
  rh_next :: nat
  rh_subs :: "(nat \<times> revokeSub) list"
  rh_closed :: bool
  rh_chans :: "HubEvent chan list"

definition newRevokeHub :: RevokeHub where
  "newRevokeHub = \<lparr>rh_next = 0, rh_subs = [], rh_closed = False, rh_chans = []\<rparr>"

text \<open>Whether a subscriber is concerned by an event.\<close>

definition wants :: "revokeSub \<Rightarrow> RevokeEvent \<Rightarrow> bool" where
  "wants sub ev \<longleftrightarrow> \<not> (\<not> rs_all sub \<and> ev_AppID ev \<noteq> nil_uuid \<and> ev_AppID ev \<noteq> rs_appID sub)"

fun fanout_loop :: "RevokeEvent \<Rightarrow> (nat \<times> revokeSub) list \<Rightarrow> HubEvent chan list \<Rightarrow> HubEvent chan list option" where
  "fanout_loop ev [] chans = Some chans"
| "fanout_loop ev ((i, sub) # subs) chans =
     (if \<not> wants sub ev then fanout_loop ev subs chans
      else case try_send (event_of ev) (chans ! rs_ch sub) of
          None \<Rightarrow> None
        | Some (sent, c) \<Rightarrow> fanout_loop ev subs (chans[rs_ch sub := c]))"

definition fanout :: "RevokeEvent \<Rightarrow> RevokeHub \<Rightarrow> RevokeHub option" where
  "fanout ev h = map_option (\<lambda>chans. h\<lparr>rh_chans := chans\<rparr>) (fanout_loop ev (rh_subs h) (rh_chans h))"

fun purge_loop ::
  "string \<Rightarrow> (nat \<times> revokeSub) list \<Rightarrow> HubEvent chan list \<Rightarrow> ((nat \<times> revokeSub) list \<times> HubEvent chan list) option" where
  "purge_loop reason [] chans = Some ([], chans)"
| "purge_loop reason ((i, sub) # subs) chans =
     (case try_send (purge_event reason) (chans ! rs_ch sub) of
        None \<Rightarrow> None
      | Some (True, c) \<Rightarrow>
          (case purge_loop reason subs (chans[rs_ch sub := c]) of
             None \<Rightarrow> None | Some (rest, chans') \<Rightarrow> Some ((i, sub) # rest, chans'))
      | Some (False, c) \<Rightarrow>
          (case close_chan c of None \<Rightarrow> None | Some c' \<Rightarrow> purge_loop reason subs (chans[rs_ch sub := c'])))"

definition broadcastPurge :: "string \<Rightarrow> RevokeHub \<Rightarrow> RevokeHub option" where
  "broadcastPurge reason h =
     map_option (\<lambda>(subs, chans). h\<lparr>rh_subs := subs, rh_chans := chans\<rparr>) (purge_loop reason (rh_subs h) (rh_chans h))"

text \<open>The body of the loop \<^verbatim>\<open>run\<close> for one signal.\<close>

definition gap_reason :: string where
  "gap_reason = ''redis '' @
     [CHR 0xE8, CHR 0xAE, CHR 0xA2, CHR 0xE9, CHR 0x98, CHR 0x85, CHR 0xE9, CHR 0x87, CHR 0x8D, CHR 0xE5, CHR 0xBB, CHR 0xBA]"

definition hub_signal :: "RevokeSignal \<Rightarrow> RevokeHub \<Rightarrow> RevokeHub option" where
  "hub_signal sg h =
     (case sg_Kind sg of
        RevokeSignalGap \<Rightarrow> broadcastPurge gap_reason h
      | RevokeSignalEvent \<Rightarrow> fanout (sg_Event sg) h)"

text \<open>
  \<^verbatim>\<open>subscribeWith\<close> returns the channel and the identifier the unsubscribe function closes over; a closed hub returns
  a channel that is closed already and an unsubscribe that does nothing.
\<close>

definition subscribeWith :: "uuid \<Rightarrow> bool \<Rightarrow> RevokeHub \<Rightarrow> nat \<times> nat option \<times> RevokeHub" where
  "subscribeWith appID al h =
     (let c = length (rh_chans h) in
      if rh_closed h then (c, None, h\<lparr>rh_chans := rh_chans h @ [(make_chan 0)\<lparr>ch_closed := True\<rparr>]\<rparr>)
      else (c, Some (rh_next h + 1),
            h\<lparr>rh_next := rh_next h + 1,
              rh_subs := rh_subs h @ [(rh_next h + 1, \<lparr>rs_appID = appID, rs_all = al, rs_ch = c\<rparr>)],
              rh_chans := rh_chans h @ [make_chan revokeBufferSize]\<rparr>))"

definition unsubscribe :: "nat \<Rightarrow> RevokeHub \<Rightarrow> RevokeHub" where
  "unsubscribe i h = h\<lparr>rh_subs := filter (\<lambda>x. fst x \<noteq> i) (rh_subs h)\<rparr>"

fun close_all :: "nat list \<Rightarrow> 'e chan list \<Rightarrow> 'e chan list option" where
  "close_all [] chans = Some chans"
| "close_all (c # cs) chans =
     (case close_chan (chans ! c) of None \<Rightarrow> None | Some c' \<Rightarrow> close_all cs (chans[c := c']))"

definition hub_Close :: "RevokeHub \<Rightarrow> RevokeHub option" where
  "hub_Close h =
     map_option (\<lambda>chans. h\<lparr>rh_subs := [], rh_closed := True, rh_chans := chans\<rparr>)
       (close_all (map (rs_ch \<circ> snd) (rh_subs h)) (rh_chans h))"

section \<open>The hub of configuration changes\<close>

definition configBufferSize :: nat where "configBufferSize = 8"

record ConfigEvent =
  cv_IMAppID :: string
  cv_Type :: string
  cv_Seq :: int

record configSub =
  fs_appID :: uuid
  fs_all :: bool
  fs_ch :: nat

record ConfigHub =
  fh_next :: nat
  fh_subs :: "(nat \<times> configSub) list"
  fh_closed :: bool
  fh_chans :: "ConfigEvent chan list"

definition newConfigHub :: ConfigHub where
  "newConfigHub = \<lparr>fh_next = 0, fh_subs = [], fh_closed = False, fh_chans = []\<rparr>"

definition isIM :: "ConfigSignal \<Rightarrow> bool" where
  "isIM sg \<longleftrightarrow> \<not> cs_Gap sg \<and> cs_Kind sg = ConfigKindIM"

definition config_event :: "ConfigSignal \<Rightarrow> ConfigEvent" where
  "config_event sg =
     (if cs_Gap sg then \<lparr>cv_IMAppID = [], cv_Type = [], cv_Seq = 0\<rparr>
      else if isIM sg then \<lparr>cv_IMAppID = cs_ExternalAppID sg, cv_Type = [], cv_Seq = 0\<rparr>
      else \<lparr>cv_IMAppID = [], cv_Type = cs_Type sg, cv_Seq = cs_Seq sg\<rparr>)"

definition config_wants :: "configSub \<Rightarrow> ConfigSignal \<Rightarrow> bool" where
  "config_wants sub sg \<longleftrightarrow>
     (if cs_Gap sg then True
      else if isIM sg then fs_all sub
      else \<not> (fs_all sub \<or> fs_appID sub \<noteq> cs_AppID sg))"

fun config_loop ::
  "ConfigSignal \<Rightarrow> (nat \<times> configSub) list \<Rightarrow> ConfigEvent chan list \<Rightarrow> ((nat \<times> configSub) list \<times> ConfigEvent chan list) option" where
  "config_loop sg [] chans = Some ([], chans)"
| "config_loop sg ((i, sub) # subs) chans =
     (if \<not> config_wants sub sg
      then (case config_loop sg subs chans of None \<Rightarrow> None | Some (rest, chans') \<Rightarrow> Some ((i, sub) # rest, chans'))
      else case try_send (config_event sg) (chans ! fs_ch sub) of
        None \<Rightarrow> None
      | Some (True, c) \<Rightarrow>
          (case config_loop sg subs (chans[fs_ch sub := c]) of
             None \<Rightarrow> None | Some (rest, chans') \<Rightarrow> Some ((i, sub) # rest, chans'))
      | Some (False, c) \<Rightarrow>
          (case close_chan c of None \<Rightarrow> None | Some c' \<Rightarrow> config_loop sg subs (chans[fs_ch sub := c'])))"

definition config_fanout :: "ConfigSignal \<Rightarrow> ConfigHub \<Rightarrow> ConfigHub option" where
  "config_fanout sg h =
     map_option (\<lambda>(subs, chans). h\<lparr>fh_subs := subs, fh_chans := chans\<rparr>) (config_loop sg (fh_subs h) (fh_chans h))"

definition config_subscribeWith :: "uuid \<Rightarrow> bool \<Rightarrow> ConfigHub \<Rightarrow> nat \<times> nat option \<times> ConfigHub" where
  "config_subscribeWith appID al h =
     (let c = length (fh_chans h) in
      if fh_closed h then (c, None, h\<lparr>fh_chans := fh_chans h @ [(make_chan 0)\<lparr>ch_closed := True\<rparr>]\<rparr>)
      else (c, Some (fh_next h + 1),
            h\<lparr>fh_next := fh_next h + 1,
              fh_subs := fh_subs h @ [(fh_next h + 1, \<lparr>fs_appID = appID, fs_all = al, fs_ch = c\<rparr>)],
              fh_chans := fh_chans h @ [make_chan configBufferSize]\<rparr>))"

definition config_unsubscribe :: "nat \<Rightarrow> ConfigHub \<Rightarrow> ConfigHub" where
  "config_unsubscribe i h = h\<lparr>fh_subs := filter (\<lambda>x. fst x \<noteq> i) (fh_subs h)\<rparr>"

definition config_Close :: "ConfigHub \<Rightarrow> ConfigHub option" where
  "config_Close h =
     map_option (\<lambda>chans. h\<lparr>fh_subs := [], fh_closed := True, fh_chans := chans\<rparr>)
       (close_all (map (fs_ch \<circ> snd) (fh_subs h)) (fh_chans h))"

section \<open>The messages of a stream\<close>

datatype WatchResponse =
    MsgReady
  | MsgRevoke sdk_revoke_event
  | MsgPurge string
  | MsgPolicyChanged int
  | MsgUserRoleChanged string
  | MsgAccessKeyChanged string
  | MsgConfigChanged string int
  | MsgAppImConfigChanged string

definition revokeEvent :: "RevokeEvent \<Rightarrow> sdk_revoke_event" where
  "revokeEvent ev =
     \<lparr>sre_Tokens = ev_Tokens ev, sre_UserIDs = ev_UserIDs ev,
      sre_AppID = (if ev_AppID ev \<noteq> nil_uuid then ev_AppID ev else []),
      sre_Reason = ev_Reason ev, sre_AtMs = ev_At ev\<rparr>"

definition eventMessage :: "RevokeEvent \<Rightarrow> WatchResponse" where
  "eventMessage ev =
     (if ev_Kind ev = EventKindAccessKeyChanged then MsgAccessKeyChanged (ev_AccessKeyID ev)
      else if ev_Kind ev = EventKindPolicyChanged then MsgPolicyChanged (ev_At ev)
      else MsgRevoke (revokeEvent ev))"

text \<open>The external id of an application, remembered by the stream; one that cannot be found becomes the empty string.\<close>

definition externalAppID ::
  "(uuid \<Rightarrow> ('r, string) io) \<Rightarrow> (uuid \<rightharpoonup> string) \<Rightarrow> uuid \<Rightarrow> 'r \<Rightarrow> string \<times> (uuid \<rightharpoonup> string) \<times> 'r" where
  "externalAppID get_app cache i r =
     (case cache i of
        Some v \<Rightarrow> (v, cache, r)
      | None \<Rightarrow>
          (case get_app i r of
             (Inl e, r1) \<Rightarrow> ([], cache, r1)
           | (Inr app, r1) \<Rightarrow> (app, cache(i \<mapsto> app), r1)))"

definition watch_event ::
  "(uuid \<Rightarrow> ('r, string) io) \<Rightarrow> bool \<Rightarrow> HubEvent \<Rightarrow> (uuid \<rightharpoonup> string) \<Rightarrow> 'r \<Rightarrow> WatchResponse \<times> (uuid \<rightharpoonup> string) \<times> 'r" where
  "watch_event get_app im ev cache r =
     (if hv_Purge ev then (MsgPurge (hv_Reason ev), cache, r)
      else case eventMessage (hv_Revoke ev) of
          MsgRevoke rv \<Rightarrow>
            if im \<and> sre_AppID rv \<noteq> []
            then (case externalAppID get_app cache (ev_AppID (hv_Revoke ev)) r of
                    (a, cache1, r1) \<Rightarrow> (MsgRevoke (rv\<lparr>sre_AppID := a\<rparr>), cache1, r1))
            else (MsgRevoke rv, cache, r)
        | msg \<Rightarrow> (msg, cache, r))"

definition watch_config :: "ConfigEvent \<Rightarrow> WatchResponse" where
  "watch_config ev =
     (if cv_IMAppID ev \<noteq> [] then MsgAppImConfigChanged (cv_IMAppID ev) else MsgConfigChanged (cv_Type ev) (cv_Seq ev))"

end
