(* ===== verification/Watch_Hub_Properties.thy ===== *)
theory Watch_Hub_Properties
  imports Watch_Hub
begin

text \<open>
  What the hubs promise their streams, in any sequence of subscriptions, signals, receives, unsubscriptions and the
  close at shutdown. Both hubs run the same loop over their subscribers; what a stream sees of a hub is the locale
  \<^verbatim>\<open>fan_hub\<close>, interpreted on both.
\<close>

section \<open>Operations on a hub\<close>

datatype 's hub_op = OpSignal 's | OpSubscribe uuid bool | OpUnsubscribe nat | OpRecv nat | OpClose

definition recv_at :: "nat \<Rightarrow> 'e chan list \<Rightarrow> (nat \<times> 'e) list \<times> 'e chan list" where
  "recv_at c chans =
     (if c < length chans
      then (case recv (chans ! c) of (r, ch) \<Rightarrow> (case r of Received x \<Rightarrow> [(c, x)] | _ \<Rightarrow> [], chans[c := ch]))
      else ([], chans))"

fun revoke_step :: "RevokeSignal hub_op \<Rightarrow> RevokeHub \<Rightarrow> (RevokeHub \<times> (nat \<times> HubEvent) list) option" where
  "revoke_step (OpSignal sg) h = map_option (\<lambda>h'. (h', [])) (hub_signal sg h)"
| "revoke_step (OpSubscribe a al) h = Some (snd (snd (subscribeWith a al h)), [])"
| "revoke_step (OpUnsubscribe i) h = Some (unsubscribe i h, [])"
| "revoke_step (OpRecv c) h = (case recv_at c (rh_chans h) of (g, chans) \<Rightarrow> Some (h\<lparr>rh_chans := chans\<rparr>, g))"
| "revoke_step OpClose h = map_option (\<lambda>h'. (h', [])) (hub_Close h)"

fun config_step :: "ConfigSignal hub_op \<Rightarrow> ConfigHub \<Rightarrow> (ConfigHub \<times> (nat \<times> ConfigEvent) list) option" where
  "config_step (OpSignal sg) h = map_option (\<lambda>h'. (h', [])) (config_fanout sg h)"
| "config_step (OpSubscribe a al) h = Some (snd (snd (config_subscribeWith a al h)), [])"
| "config_step (OpUnsubscribe i) h = Some (config_unsubscribe i h, [])"
| "config_step (OpRecv c) h = (case recv_at c (fh_chans h) of (g, chans) \<Rightarrow> Some (h\<lparr>fh_chans := chans\<rparr>, g))"
| "config_step OpClose h = map_option (\<lambda>h'. (h', [])) (config_Close h)"

text \<open>A run, with everything that was received on the way, each value with its channel.\<close>

fun hub_run :: "('s hub_op \<Rightarrow> 'h \<Rightarrow> ('h \<times> (nat \<times> 'e) list) option) \<Rightarrow> 's hub_op list \<Rightarrow> 'h \<Rightarrow> ('h \<times> (nat \<times> 'e) list) option" where
  "hub_run st [] h = Some (h, [])"
| "hub_run st (op # ops) h =
     (case st op h of
        None \<Rightarrow> None
      | Some (h1, g1) \<Rightarrow> (case hub_run st ops h1 of None \<Rightarrow> None | Some (h2, g2) \<Rightarrow> Some (h2, g1 @ g2)))"

definition got :: "nat \<Rightarrow> (nat \<times> 'e) list \<Rightarrow> 'e list" where
  "got c g = map snd (filter (\<lambda>x. fst x = c) g)"

lemma got_simps [simp]: "got c [] = []" "got c (g @ g') = got c g @ got c g'"
  by (simp_all add: got_def)

fun signals :: "'s hub_op list \<Rightarrow> 's list" where
  "signals [] = []"
| "signals (OpSignal s # ops) = s # signals ops"
| "signals (_ # ops) = signals ops"

section \<open>What a stream relies on\<close>

text \<open>
  \<^verbatim>\<open>role h c\<close> is the application and the wildcard flag under which channel \<^verbatim>\<open>c\<close> is registered,
  \<^verbatim>\<open>offer\<close> the event a signal is for such a subscriber, \<^verbatim>\<open>must\<close> the events that may not be dropped.
\<close>

locale fan_hub =
  fixes step :: "'s hub_op \<Rightarrow> 'h \<Rightarrow> ('h \<times> (nat \<times> 'e) list) option"
    and inv :: "'h \<Rightarrow> bool"
    and size :: "'h \<Rightarrow> nat"
    and buf :: "'h \<Rightarrow> nat \<Rightarrow> 'e list"
    and role :: "'h \<Rightarrow> nat \<Rightarrow> (uuid \<times> bool) option"
    and offer :: "uuid \<times> bool \<Rightarrow> 's \<Rightarrow> 'e option"
    and must :: "'e \<Rightarrow> bool"
    and cap :: nat
  assumes total: "inv h \<Longrightarrow> step op h \<noteq> None"
    and keep: "inv h \<Longrightarrow> step op h = Some (h', g) \<Longrightarrow> inv h' \<and> size h \<le> size h'"
    and full: "inv h \<Longrightarrow> role h c \<noteq> None \<Longrightarrow> length (buf h c) \<le> cap"
    and gone: "inv h \<Longrightarrow> c < size h \<Longrightarrow> role h c = None \<Longrightarrow> step op h = Some (h', g) \<Longrightarrow>
        role h' c = None \<and> got c g @ buf h' c = buf h c"
    and quiet: "inv h \<Longrightarrow> c < size h \<Longrightarrow> role h c = Some ae \<Longrightarrow> step op h = Some (h', g) \<Longrightarrow>
        (\<And>s. op = OpSignal s \<Longrightarrow> offer ae s = None) \<Longrightarrow>
        role h' c \<in> {None, Some ae} \<and> got c g @ buf h' c = buf h c"
    and offered: "inv h \<Longrightarrow> c < size h \<Longrightarrow> role h c = Some ae \<Longrightarrow> step (OpSignal s) h = Some (h', g) \<Longrightarrow>
        offer ae s = Some e \<Longrightarrow>
        (role h' c = Some ae \<and> got c g @ buf h' c = buf h c @ [e] \<and> length (buf h c) < cap) \<or>
        (role h' c \<in> {None, Some ae} \<and> got c g @ buf h' c = buf h c \<and> cap \<le> length (buf h c) \<and> (must e \<longrightarrow> role h' c = None))"
begin

definition offers :: "uuid \<times> bool \<Rightarrow> 's hub_op list \<Rightarrow> 'e list" where
  "offers ae ops = List.map_filter (offer ae) (signals ops)"

lemma run_total: "inv h \<Longrightarrow> \<exists>h' g. hub_run step ops h = Some (h', g) \<and> inv h'"
proof (induction ops arbitrary: h)
  case (Cons op ops)
  obtain h1 g1 where 1: "step op h = Some (h1, g1)" using total [OF Cons.prems, of op] by auto
  then obtain h2 g2 where "hub_run step ops h1 = Some (h2, g2)" "inv h2"
    using Cons.IH [of h1] keep [OF Cons.prems 1] by blast
  then show ?case using 1 by simp
qed simp

lemma run_gone:
  assumes "inv h" and "c < size h" and "role h c = None" and "hub_run step ops h = Some (h', g)"
  shows "role h' c = None \<and> got c g @ buf h' c = buf h c"
  using assms
proof (induction ops arbitrary: h g)
  case (Cons op ops)
  obtain h1 g1 g2 where 1: "step op h = Some (h1, g1)" and 2: "hub_run step ops h1 = Some (h', g2)" and g: "g = g1 @ g2"
    using Cons.prems(4) by (auto split: option.splits)
  note k = keep [OF Cons.prems(1) 1] and q = gone [OF Cons.prems(1-3) 1]
  have "role h' c = None \<and> got c g2 @ buf h' c = buf h1 c" using Cons.IH [OF _ _ _ 2] k q Cons.prems(2) by simp
  then show ?case using q g by simp
qed simp

lemma run_history:
  assumes "inv h" and "c < size h" and "role h c = Some ae" and "hub_run step ops h = Some (h', g)"
  shows "role h' c \<in> {None, Some ae} \<and> subseq (got c g @ buf h' c) (buf h c @ offers ae ops) \<and>
    (role h' c \<noteq> None \<longrightarrow>
       filter must (got c g @ buf h' c) = filter must (buf h c @ offers ae ops) \<and>
       (length (buf h c) + length (offers ae ops) \<le> cap \<longrightarrow> got c g @ buf h' c = buf h c @ offers ae ops))"
  using assms
proof (induction ops arbitrary: h g)
  case (Cons op ops)
  obtain h1 g1 g2 where 1: "step op h = Some (h1, g1)" and 2: "hub_run step ops h1 = Some (h', g2)" and g: "g = g1 @ g2"
    using Cons.prems(4) by (auto split: option.splits)
  note k = keep [OF Cons.prems(1) 1]
  then have c1: "c < size h1" "inv h1" using Cons.prems(2) by simp_all
  have role1: "role h1 c \<in> {None, Some ae}"
    and now: "(\<exists>es. got c g1 @ buf h1 c = buf h c @ es \<and> offers ae (op # ops) = es @ offers ae ops) \<or>
      (\<exists>e. got c g1 @ buf h1 c = buf h c \<and> offers ae (op # ops) = e # offers ae ops \<and> cap \<le> length (buf h c) \<and>
         (must e \<longrightarrow> role h1 c = None))"
  proof -
    consider (sig) s e where "op = OpSignal s" "offer ae s = Some e" | (other) "\<And>s. op = OpSignal s \<Longrightarrow> offer ae s = None"
      by (metis option.exhaust)
    then have "role h1 c \<in> {None, Some ae} \<and>
      ((\<exists>es. got c g1 @ buf h1 c = buf h c @ es \<and> offers ae (op # ops) = es @ offers ae ops) \<or>
      (\<exists>e. got c g1 @ buf h1 c = buf h c \<and> offers ae (op # ops) = e # offers ae ops \<and> cap \<le> length (buf h c) \<and>
         (must e \<longrightarrow> role h1 c = None)))"
    proof cases
      case sig
      then have o: "offers ae (op # ops) = e # offers ae ops" by (simp add: offers_def map_filter_simps)
      show ?thesis using offered [OF Cons.prems(1-3) 1 [unfolded sig(1)] sig(2)] o by auto
    next
      case other
      then have o: "offers ae (op # ops) = offers ae ops"
        by (cases op) (auto simp: offers_def map_filter_simps)
      show ?thesis using quiet [OF Cons.prems(1-3) 1 other] o by auto
    qed
    then show "role h1 c \<in> {None, Some ae}" and "(\<exists>es. got c g1 @ buf h1 c = buf h c @ es \<and> offers ae (op # ops) = es @ offers ae ops) \<or>
      (\<exists>e. got c g1 @ buf h1 c = buf h c \<and> offers ae (op # ops) = e # offers ae ops \<and> cap \<le> length (buf h c) \<and>
         (must e \<longrightarrow> role h1 c = None))" by auto
  qed
  have rest: "role h' c \<in> {None, Some ae} \<and> subseq (got c g2 @ buf h' c) (buf h1 c @ offers ae ops) \<and>
      (role h' c \<noteq> None \<longrightarrow> role h1 c \<noteq> None \<and>
       filter must (got c g2 @ buf h' c) = filter must (buf h1 c @ offers ae ops) \<and>
       (length (buf h1 c) + length (offers ae ops) \<le> cap \<longrightarrow> got c g2 @ buf h' c = buf h1 c @ offers ae ops))"
  proof (cases "role h1 c")
    case None
    then show ?thesis using run_gone [OF c1(2,1) None 2] by (simp add: prefix_imp_subseq)
  next
    case (Some x)
    then show ?thesis using role1 Cons.IH [OF c1(2,1) _ 2] by auto
  qed
  from now show ?case
  proof (elim disjE exE conjE)
    fix es assume es: "got c g1 @ buf h1 c = buf h c @ es" "offers ae (op # ops) = es @ offers ae ops"
    have all: "buf h c @ offers ae (op # ops) = got c g1 @ buf h1 c @ offers ae ops" using es by simp
    have len: "length (buf h1 c) + length (offers ae ops) \<le> cap"
      if "length (buf h c) + length (offers ae (op # ops)) \<le> cap"
      using that arg_cong [OF all, of length] by simp
    have "subseq (got c g @ buf h' c) (got c g1 @ buf h1 c @ offers ae ops)" using rest g by (simp add: subseq_append')
    then show ?thesis unfolding all using rest len g by auto
  next
    fix e assume e: "got c g1 @ buf h1 c = buf h c" "offers ae (op # ops) = e # offers ae ops" "cap \<le> length (buf h c)"
      "must e \<longrightarrow> role h1 c = None"
    have sub: "subseq (got c g @ buf h' c) (buf h c @ offers ae ops)"
      using rest e(1) g by (metis append_assoc got_simps(2) subseq_append')
    have "subseq (buf h c @ offers ae ops) (buf h c @ e # offers ae ops)" by (simp add: subseq_append' list_emb_Cons)
    then have "subseq (got c g @ buf h' c) (buf h c @ offers ae (op # ops))" using sub e(2) by (metis subseq_order.trans)
    moreover have "filter must (got c g @ buf h' c) = filter must (buf h c @ offers ae (op # ops))" if "role h' c \<noteq> None"
      using rest that e(2-4) g by (auto simp: e(1) [symmetric])
    ultimately show ?thesis using rest e(2,3) by auto
  qed
qed (simp add: offers_def map_filter_simps prefix_imp_subseq)

end

section \<open>One loop for both hubs\<close>

definition sub_at :: "('b \<Rightarrow> nat) \<Rightarrow> (nat \<times> 'b) list \<Rightarrow> nat \<Rightarrow> 'b option" where
  "sub_at ch subs c = map_of (map (\<lambda>(i, s). (ch s, s)) subs) c"

lemma sub_at_simps [simp]:
  "sub_at ch [] c = None"
  "sub_at ch ((i, s) # subs) c = (if ch s = c then Some s else sub_at ch subs c)"
  by (auto simp: sub_at_def)

definition subs_ok :: "('b \<Rightarrow> nat) \<Rightarrow> nat \<Rightarrow> nat \<Rightarrow> (nat \<times> 'b) list \<Rightarrow> 'e chan list \<Rightarrow> bool" where
  "subs_ok ch cap nxt subs chans \<longleftrightarrow>
     distinct (map fst subs) \<and> distinct (map (ch \<circ> snd) subs) \<and>
     (\<forall>(i, s)\<in>set subs. i \<le> nxt \<and> ch s < length chans \<and> \<not> ch_closed (chans ! ch s) \<and>
        ch_cap (chans ! ch s) = cap \<and> length (ch_buf (chans ! ch s)) \<le> cap)"

fun send_loop ::
  "('b \<Rightarrow> nat) \<Rightarrow> ('b \<Rightarrow> bool) \<Rightarrow> 'e \<Rightarrow> bool \<Rightarrow> (nat \<times> 'b) list \<Rightarrow> 'e chan list \<Rightarrow> ((nat \<times> 'b) list \<times> 'e chan list) option" where
  "send_loop ch w x cl [] chans = Some ([], chans)"
| "send_loop ch w x cl ((i, s) # subs) chans =
     (if \<not> w s then map_option (apfst (Cons (i, s))) (send_loop ch w x cl subs chans)
      else case try_send x (chans ! ch s) of
        None \<Rightarrow> None
      | Some (sent, c) \<Rightarrow>
          if sent \<or> \<not> cl then map_option (apfst (Cons (i, s))) (send_loop ch w x cl subs (chans[ch s := c]))
          else (case close_chan c of None \<Rightarrow> None | Some c' \<Rightarrow> send_loop ch w x cl subs (chans[ch s := c'])))"

lemma fanout_is_send_loop:
  "fanout_loop ev subs chans = map_option snd (send_loop rs_ch (\<lambda>s. wants s ev) (event_of ev) False subs chans)"
  by (induction ev subs chans rule: fanout_loop.induct)
    (auto simp: option.map_comp comp_def try_send_def split: option.splits)

lemma purge_is_send_loop: "purge_loop reason subs chans = send_loop rs_ch (\<lambda>_. True) (purge_event reason) True subs chans"
  by (induction reason subs chans rule: purge_loop.induct)
    (auto simp: try_send_def split: option.splits if_splits prod.splits)

lemma config_is_send_loop:
  "config_loop sg subs chans = send_loop fs_ch (\<lambda>s. config_wants s sg) (config_event sg) True subs chans"
  by (induction sg subs chans rule: config_loop.induct)
    (auto simp: try_send_def split: option.splits if_splits prod.splits)

lemma subs_ok_Cons:
  "subs_ok ch cap nxt ((i, s) # subs) chans \<longleftrightarrow>
     i \<notin> fst ` set subs \<and> (\<forall>(j, t)\<in>set subs. ch t \<noteq> ch s) \<and> i \<le> nxt \<and> ch s < length chans \<and> \<not> ch_closed (chans ! ch s) \<and>
     ch_cap (chans ! ch s) = cap \<and> length (ch_buf (chans ! ch s)) \<le> cap \<and> subs_ok ch cap nxt subs chans"
  by (force simp: subs_ok_def)

lemma subs_ok_update:
  assumes "subs_ok ch cap nxt subs chans" and "\<forall>(j, t)\<in>set subs. ch t \<noteq> k"
  shows "subs_ok ch cap nxt subs (chans[k := c])"
proof -
  have "chans[k := c] ! ch t = chans ! ch t" if "(j, t) \<in> set subs" for j t using assms(2) that by auto
  then show ?thesis using assms(1) by (fastforce simp: subs_ok_def)
qed

lemma sub_at_notin: "\<forall>(j, t)\<in>set subs. ch t \<noteq> c \<Longrightarrow> sub_at ch subs c = None"
  by (induction subs) auto

lemma sub_at_Some: "sub_at ch subs c = Some s \<Longrightarrow> \<exists>i. (i, s) \<in> set subs \<and> ch s = c"
  by (induction subs) (auto split: if_splits)

lemma subs_ok_at:
  assumes "subs_ok ch cap nxt subs chans" and "sub_at ch subs c = Some s"
  shows "ch s = c \<and> c < length chans \<and> \<not> ch_closed (chans ! c) \<and> ch_cap (chans ! c) = cap \<and> length (ch_buf (chans ! c)) \<le> cap"
  using assms sub_at_Some [OF assms(2)] by (auto simp: subs_ok_def)

text \<open>What the loop does to one channel.\<close>

definition after_send :: "('b \<Rightarrow> bool) \<Rightarrow> 'e \<Rightarrow> bool \<Rightarrow> nat \<Rightarrow> 'b option \<Rightarrow> 'e chan \<Rightarrow> 'b option \<times> 'e chan" where
  "after_send w x cl cap so c =
     (case so of
        None \<Rightarrow> (None, c)
      | Some s \<Rightarrow>
          if \<not> w s then (Some s, c)
          else if length (ch_buf c) < cap then (Some s, c\<lparr>ch_buf := ch_buf c @ [x]\<rparr>)
          else if cl then (None, c\<lparr>ch_closed := True\<rparr>) else (Some s, c))"

lemma send_loop_spec:
  assumes "subs_ok ch cap nxt subs chans"
  shows "\<exists>subs' chans'. send_loop ch w x cl subs chans = Some (subs', chans') \<and> length chans' = length chans \<and>
    set subs' \<subseteq> set subs \<and> subs_ok ch cap nxt subs' chans' \<and>
    (\<forall>c. (sub_at ch subs' c, chans' ! c) = after_send w x cl cap (sub_at ch subs c) (chans ! c))"
  using assms
proof (induction subs arbitrary: chans)
  case Nil
  then show ?case by (simp add: after_send_def subs_ok_def)
next
  case (Cons p subs)
  obtain i s where p: "p = (i, s)" by fastforce
  note ok = Cons.prems [unfolded p subs_ok_Cons]
  have IH: "\<exists>subs' chans'. send_loop ch w x cl subs (chans[ch s := c]) = Some (subs', chans') \<and> length chans' = length chans \<and>
      set subs' \<subseteq> set subs \<and> subs_ok ch cap nxt subs' chans' \<and>
      (\<forall>d. (sub_at ch subs' d, chans' ! d) = after_send w x cl cap (sub_at ch subs d) (chans[ch s := c] ! d))" for c
    using Cons.IH [of "chans[ch s := c]"] subs_ok_update [of ch cap nxt subs chans "ch s" c] ok by simp
  have other: "sub_at ch subs (ch s) = None" by (rule sub_at_notin) (use ok in auto)
  define c where "c = (if \<not> w s then chans ! ch s
     else if length (ch_buf (chans ! ch s)) < cap then (chans ! ch s)\<lparr>ch_buf := ch_buf (chans ! ch s) @ [x]\<rparr>
     else if cl then (chans ! ch s)\<lparr>ch_closed := True\<rparr> else chans ! ch s)"
  obtain subs' chans' where r: "send_loop ch w x cl subs (chans[ch s := c]) = Some (subs', chans')"
    "length chans' = length chans" "set subs' \<subseteq> set subs" "subs_ok ch cap nxt subs' chans'"
    and d: "\<And>d. (sub_at ch subs' d, chans' ! d) = after_send w x cl cap (sub_at ch subs d) (chans[ch s := c] ! d)"
    using IH [of c] by blast
  have here: "sub_at ch subs' (ch s) = None" "chans' ! ch s = c"
    using d [of "ch s"] other ok by (simp_all add: after_send_def)
  show ?case
  proof (cases "w s \<and> \<not> length (ch_buf (chans ! ch s)) < cap \<and> cl")
    case True
    have "send_loop ch w x cl (p # subs) chans = Some (subs', chans')"
      using r(1) True ok by (simp add: p c_def try_send_def close_chan_def)
    moreover have "(sub_at ch subs' e, chans' ! e) = after_send w x cl cap (sub_at ch (p # subs) e) (chans ! e)" for e
      using d [of e] here True by (cases "e = ch s") (auto simp: p after_send_def c_def)
    ultimately show ?thesis using r(2-4) by (intro exI [of _ subs'] exI [of _ chans']) auto
  next
    case False
    have "send_loop ch w x cl (p # subs) chans = Some (p # subs', chans')"
      using r(1) False ok by (auto simp: p c_def try_send_def)
    moreover have "(sub_at ch (p # subs') e, chans' ! e) = after_send w x cl cap (sub_at ch (p # subs) e) (chans ! e)" for e
      using d [of e] here False by (cases "e = ch s") (auto simp: p after_send_def c_def)
    moreover have "subs_ok ch cap nxt (p # subs') chans'"
      unfolding p subs_ok_Cons using ok r(2-4) here False by (auto simp: c_def)
    ultimately show ?thesis using r(2,3) by (intro exI [of _ "p # subs'"] exI [of _ chans']) auto
  qed
qed

lemma send_loop_law:
  assumes "subs_ok ch cap nxt subs chans" and "send_loop ch w x cl subs chans = Some (subs', chans')"
  shows "length chans' = length chans \<and> subs_ok ch cap nxt subs' chans' \<and>
    (sub_at ch subs' c, chans' ! c) = after_send w x cl cap (sub_at ch subs c) (chans ! c)"
  using send_loop_spec [OF assms(1), of w x cl] assms(2) by auto

lemma close_all_spec:
  "distinct cs \<Longrightarrow> \<forall>c\<in>set cs. c < length chans \<and> \<not> ch_closed (chans ! c) \<Longrightarrow>
   \<exists>chans'. close_all cs chans = Some chans' \<and> length chans' = length chans \<and> (\<forall>c. ch_buf (chans' ! c) = ch_buf (chans ! c))"
proof (induction cs arbitrary: chans)
  case (Cons c cs)
  let ?chans = "chans[c := (chans ! c)\<lparr>ch_closed := True\<rparr>]"
  have same: "?chans ! d = chans ! d" if "d \<in> set cs" for d using that Cons.prems(1) by (cases "d = c") auto
  have b: "ch_buf (?chans ! d) = ch_buf (chans ! d)" for d using Cons.prems(2) by (cases "d = c") simp_all
  obtain chans' where "close_all cs ?chans = Some chans'" "length chans' = length ?chans"
    and "\<forall>d. ch_buf (chans' ! d) = ch_buf (?chans ! d)"
    using Cons.IH [of ?chans] Cons.prems same by auto
  then show ?case using Cons.prems(2) b by (simp add: close_chan_def)
qed simp

lemma recv_at_spec:
  assumes "recv_at c chans = (g, chans')"
  shows "length chans' = length chans \<and> ch_closed (chans' ! d) = ch_closed (chans ! d) \<and> ch_cap (chans' ! d) = ch_cap (chans ! d) \<and>
    length (ch_buf (chans' ! d)) \<le> length (ch_buf (chans ! d)) \<and> got d g @ ch_buf (chans' ! d) = ch_buf (chans ! d)"
  using assms by (cases "d = c") (auto simp: recv_at_def recv_def got_def split: if_splits list.splits)

lemma recv_at_subs_ok: "recv_at c chans = (g, chans') \<Longrightarrow> subs_ok ch cap nxt subs chans \<Longrightarrow> subs_ok ch cap nxt subs chans'"
  using recv_at_spec [of c chans g chans'] by (fastforce simp: subs_ok_def)

lemma subs_ok_filter: "subs_ok ch cap nxt subs chans \<Longrightarrow> subs_ok ch cap nxt (filter P subs) chans"
  by (auto simp: subs_ok_def distinct_map_filter comp_def)

lemma sub_at_filter:
  "distinct (map (ch \<circ> snd) subs) \<Longrightarrow> sub_at ch (filter P subs) c \<in> {None, sub_at ch subs c}"
proof (induction subs)
  case (Cons p subs)
  obtain i s where p: "p = (i, s)" by fastforce
  have "sub_at ch (filter P subs) (ch s) = None"
    by (rule sub_at_notin) (use Cons.prems p in \<open>auto simp: image_iff\<close>)
  then show ?case using Cons p by auto
qed simp

lemma sub_at_append: "sub_at ch subs c = None \<or> ch s \<noteq> c \<Longrightarrow> sub_at ch (subs @ [(i, s)]) c = (case sub_at ch subs c of None \<Rightarrow> if ch s = c then Some s else None | x \<Rightarrow> x)"
  by (induction subs) auto

lemma subs_ok_append:
  assumes "subs_ok ch cap nxt subs chans" and "ch s = length chans"
  shows "subs_ok ch cap (Suc nxt) (subs @ [(Suc nxt, s)]) (chans @ [make_chan cap])"
proof -
  have "Suc nxt \<notin> fst ` set subs" "length chans \<notin> (ch \<circ> snd) ` set subs" using assms(1) by (fastforce simp: subs_ok_def)+
  then show ?thesis using assms by (fastforce simp: subs_ok_def make_chan_def nth_append)
qed

section \<open>The hub of revocations\<close>

definition revoke_inv :: "RevokeHub \<Rightarrow> bool" where
  "revoke_inv h \<longleftrightarrow> subs_ok rs_ch revokeBufferSize (rh_next h) (rh_subs h) (rh_chans h)"

definition revoke_role :: "RevokeHub \<Rightarrow> nat \<Rightarrow> (uuid \<times> bool) option" where
  "revoke_role h c = map_option (\<lambda>s. (rs_appID s, rs_all s)) (sub_at rs_ch (rh_subs h) c)"

definition revoke_buf :: "RevokeHub \<Rightarrow> nat \<Rightarrow> HubEvent list" where
  "revoke_buf h c = ch_buf (rh_chans h ! c)"

text \<open>The event a signal is for a subscriber of application \<^verbatim>\<open>a\<close>, or of all.\<close>

definition revoke_offer :: "uuid \<times> bool \<Rightarrow> RevokeSignal \<Rightarrow> HubEvent option" where
  "revoke_offer ae sg =
     (if sg_Kind sg = RevokeSignalGap then Some (purge_event gap_reason)
      else if snd ae \<or> ev_AppID (sg_Event sg) = nil_uuid \<or> ev_AppID (sg_Event sg) = fst ae then Some (event_of (sg_Event sg))
      else None)"

lemma subs_ok_close:
  assumes "subs_ok ch cap nxt subs chans"
  shows "\<exists>chans'. close_all (map (ch \<circ> snd) subs) chans = Some chans' \<and> length chans' = length chans \<and>
    (\<forall>c. ch_buf (chans' ! c) = ch_buf (chans ! c))"
  by (rule close_all_spec) (use assms in \<open>auto simp: subs_ok_def\<close>)

lemma hub_signal_loop:
  "hub_signal sg h = map_option (\<lambda>(subs, chans). h\<lparr>rh_subs := subs, rh_chans := chans\<rparr>)
     (if sg_Kind sg = RevokeSignalGap then send_loop rs_ch (\<lambda>_. True) (purge_event gap_reason) True (rh_subs h) (rh_chans h)
      else map_option (\<lambda>(_, chans). (rh_subs h, chans))
        (send_loop rs_ch (\<lambda>s. wants s (sg_Event sg)) (event_of (sg_Event sg)) False (rh_subs h) (rh_chans h)))"
  by (cases "sg_Kind sg")
    (auto simp: hub_signal_def broadcastPurge_def fanout_def purge_is_send_loop fanout_is_send_loop option.map_comp comp_def
      split_beta intro!: option.map_cong)

text \<open>When nothing is closed the loop keeps all subscribers.\<close>

lemma send_loop_keeps: "send_loop ch w x False subs chans = Some (subs', chans') \<Longrightarrow> subs' = subs"
  by (induction subs arbitrary: chans subs' chans') (auto split: if_splits option.splits)

lemma hub_signal_law:
  assumes "revoke_inv h"
  shows "\<exists>h'. hub_signal sg h = Some h' \<and> revoke_inv h' \<and> length (rh_chans h') = length (rh_chans h) \<and>
    (\<forall>c. (sub_at rs_ch (rh_subs h') c, rh_chans h' ! c) =
       (if sg_Kind sg = RevokeSignalGap
        then after_send (\<lambda>_. True) (purge_event gap_reason) True revokeBufferSize (sub_at rs_ch (rh_subs h) c) (rh_chans h ! c)
        else after_send (\<lambda>s. wants s (sg_Event sg)) (event_of (sg_Event sg)) False revokeBufferSize
          (sub_at rs_ch (rh_subs h) c) (rh_chans h ! c)))"
proof (cases "sg_Kind sg = RevokeSignalGap")
  case True
  obtain subs' chans' where "send_loop rs_ch (\<lambda>_. True) (purge_event gap_reason) True (rh_subs h) (rh_chans h) = Some (subs', chans')"
    using send_loop_spec [OF assms [unfolded revoke_inv_def]] by blast
  with send_loop_law [OF assms [unfolded revoke_inv_def] this] True show ?thesis
    by (simp add: hub_signal_loop revoke_inv_def)
next
  case False
  obtain subs' chans' where r: "send_loop rs_ch (\<lambda>s. wants s (sg_Event sg)) (event_of (sg_Event sg)) False (rh_subs h) (rh_chans h) =
      Some (subs', chans')"
    using send_loop_spec [OF assms [unfolded revoke_inv_def]] by blast
  with send_loop_law [OF assms [unfolded revoke_inv_def] r] send_loop_keeps [OF r] False show ?thesis
    by (simp add: hub_signal_loop revoke_inv_def)
qed

lemma subs_ok_grow: "subs_ok ch cap nxt subs chans \<Longrightarrow> subs_ok ch cap nxt subs (chans @ cs)"
  by (fastforce simp: subs_ok_def nth_append)

lemma revoke_step_law:
  assumes "revoke_inv h" and "revoke_step op h = Some (h', g)"
  shows "revoke_inv h' \<and> length (rh_chans h) \<le> length (rh_chans h')"
    and "c < length (rh_chans h) \<Longrightarrow> (\<And>sg. op \<noteq> OpSignal sg) \<Longrightarrow>
       revoke_role h' c \<in> {None, revoke_role h c} \<and> got c g @ revoke_buf h' c = revoke_buf h c"
proof -
  note inv = assms(1) [unfolded revoke_inv_def]
  have d: "distinct (map (rs_ch \<circ> snd) (rh_subs h))" using inv by (simp add: subs_ok_def)
  have "(revoke_inv h' \<and> length (rh_chans h) \<le> length (rh_chans h')) \<and>
    (c < length (rh_chans h) \<longrightarrow> (\<forall>sg. op \<noteq> OpSignal sg) \<longrightarrow>
       revoke_role h' c \<in> {None, revoke_role h c} \<and> got c g @ revoke_buf h' c = revoke_buf h c)"
  proof (cases op)
    case (OpSignal sg)
    then show ?thesis using hub_signal_law [OF assms(1), of sg] assms(2) by auto
  next
    case (OpSubscribe a al)
    show ?thesis
    proof (cases "rh_closed h")
      case True
      then show ?thesis using OpSubscribe assms(2) subs_ok_grow [OF inv]
        by (auto simp: subscribeWith_def revoke_inv_def revoke_role_def revoke_buf_def nth_append)
    next
      case False
      let ?s = "\<lparr>rs_appID = a, rs_all = al, rs_ch = length (rh_chans h)\<rparr>"
      have "sub_at rs_ch (rh_subs h @ [(Suc (rh_next h), ?s)]) c = sub_at rs_ch (rh_subs h) c" if "c < length (rh_chans h)"
        using that by (subst sub_at_append) (auto split: option.split)
      then show ?thesis using False OpSubscribe assms(2) subs_ok_append [OF inv, of ?s]
        by (auto simp: subscribeWith_def Let_def revoke_inv_def revoke_role_def revoke_buf_def nth_append)
    qed
  next
    case (OpUnsubscribe i)
    then show ?thesis using assms(2) subs_ok_filter [OF inv] sub_at_filter [OF d, of _ c]
      by (force simp: unsubscribe_def revoke_inv_def revoke_role_def revoke_buf_def)
  next
    case (OpRecv k)
    obtain chans where r: "recv_at k (rh_chans h) = (g, chans)" and h': "h' = h\<lparr>rh_chans := chans\<rparr>"
      using assms(2) OpRecv by (auto split: prod.splits)
    show ?thesis using recv_at_spec [OF r, of c] recv_at_subs_ok [OF r inv] h'
      by (simp add: revoke_inv_def revoke_role_def revoke_buf_def)
  next
    case OpClose
    then show ?thesis using assms(2) subs_ok_close [OF inv]
      by (auto simp: hub_Close_def revoke_inv_def revoke_role_def revoke_buf_def subs_ok_def)
  qed
  then show "revoke_inv h' \<and> length (rh_chans h) \<le> length (rh_chans h')"
    and "c < length (rh_chans h) \<Longrightarrow> (\<And>sg. op \<noteq> OpSignal sg) \<Longrightarrow>
       revoke_role h' c \<in> {None, revoke_role h c} \<and> got c g @ revoke_buf h' c = revoke_buf h c" by auto
qed

lemma revoke_signal_at:
  assumes "revoke_inv h" and "revoke_step (OpSignal sg) h = Some (h', g)"
  shows "g = [] \<and> (case revoke_role h c of
      None \<Rightarrow> revoke_role h' c = None \<and> revoke_buf h' c = revoke_buf h c
    | Some ae \<Rightarrow>
        (case revoke_offer ae sg of
           None \<Rightarrow> revoke_role h' c = Some ae \<and> revoke_buf h' c = revoke_buf h c
         | Some e \<Rightarrow>
             if length (revoke_buf h c) < revokeBufferSize
             then revoke_role h' c = Some ae \<and> revoke_buf h' c = revoke_buf h c @ [e]
             else revoke_role h' c = (if hv_Purge e then None else Some ae) \<and> revoke_buf h' c = revoke_buf h c))"
proof -
  obtain h1 where 1: "hub_signal sg h = Some h1"
    "(sub_at rs_ch (rh_subs h1) c, rh_chans h1 ! c) =
       (if sg_Kind sg = RevokeSignalGap
        then after_send (\<lambda>_. True) (purge_event gap_reason) True revokeBufferSize (sub_at rs_ch (rh_subs h) c) (rh_chans h ! c)
        else after_send (\<lambda>s. wants s (sg_Event sg)) (event_of (sg_Event sg)) False revokeBufferSize
          (sub_at rs_ch (rh_subs h) c) (rh_chans h ! c))"
    using hub_signal_law [OF assms(1), of sg] by blast
  then have "h' = h1" "g = []" using assms(2) by auto
  then show ?thesis using 1(2)
    by (cases "sub_at rs_ch (rh_subs h) c")
      (auto simp: after_send_def revoke_role_def revoke_buf_def revoke_offer_def wants_def purge_event_def event_of_def split: if_splits)
qed

interpretation revoke_hub: fan_hub revoke_step revoke_inv "\<lambda>h. length (rh_chans h)" revoke_buf revoke_role revoke_offer
  hv_Purge revokeBufferSize
proof
  fix h :: RevokeHub and op
  assume inv: "revoke_inv h"
  show "revoke_step op h \<noteq> None"
  proof (cases op)
    case (OpSignal sg)
    then show ?thesis using hub_signal_law [OF inv, of sg] by auto
  next
    case OpClose
    then show ?thesis using subs_ok_close [of rs_ch] inv by (fastforce simp: hub_Close_def revoke_inv_def)
  qed (simp_all split: prod.split)
  show "revoke_role h c \<noteq> None \<Longrightarrow> length (revoke_buf h c) \<le> revokeBufferSize" for c
    using subs_ok_at [OF inv [unfolded revoke_inv_def]] by (auto simp: revoke_role_def revoke_buf_def)
  fix h' g
  assume st: "revoke_step op h = Some (h', g)"
  show "revoke_inv h' \<and> length (rh_chans h) \<le> length (rh_chans h')" by (rule revoke_step_law(1) [OF inv st])
  fix c
  assume c: "c < length (rh_chans h)"
  show "revoke_role h' c = None \<and> got c g @ revoke_buf h' c = revoke_buf h c" if "revoke_role h c = None"
  proof (cases "\<exists>sg. op = OpSignal sg")
    case True
    then obtain sg where sg: "op = OpSignal sg" by blast
    show ?thesis using revoke_signal_at [OF inv st [unfolded sg], of c] that sg by auto
  next
    case False
    then show ?thesis using revoke_step_law(2) [OF inv st c] that by auto
  qed
  show "revoke_role h' c \<in> {None, Some ae} \<and> got c g @ revoke_buf h' c = revoke_buf h c"
    if "revoke_role h c = Some ae" and "\<And>sg. op = OpSignal sg \<Longrightarrow> revoke_offer ae sg = None" for ae
  proof (cases "\<exists>sg. op = OpSignal sg")
    case True
    then obtain sg where sg: "op = OpSignal sg" by blast
    show ?thesis using revoke_signal_at [OF inv st [unfolded sg], of c] that sg by auto
  next
    case False
    then show ?thesis using revoke_step_law(2) [OF inv st c] that by auto
  qed
next
  fix h :: RevokeHub and c ae sg h' g e
  assume "revoke_inv h" "revoke_role h c = Some ae" "revoke_step (OpSignal sg) h = Some (h', g)" "revoke_offer ae sg = Some e"
  then show "(revoke_role h' c = Some ae \<and> got c g @ revoke_buf h' c = revoke_buf h c @ [e] \<and> length (revoke_buf h c) < revokeBufferSize) \<or>
     (revoke_role h' c \<in> {None, Some ae} \<and> got c g @ revoke_buf h' c = revoke_buf h c \<and> revokeBufferSize \<le> length (revoke_buf h c) \<and>
        (hv_Purge e \<longrightarrow> revoke_role h' c = None))"
    using revoke_signal_at [of h sg h' g c] by (auto split: if_splits)
qed

section \<open>The hub of configuration changes\<close>

definition config_inv :: "ConfigHub \<Rightarrow> bool" where
  "config_inv h \<longleftrightarrow> subs_ok fs_ch configBufferSize (fh_next h) (fh_subs h) (fh_chans h)"

definition config_role :: "ConfigHub \<Rightarrow> nat \<Rightarrow> (uuid \<times> bool) option" where
  "config_role h c = map_option (\<lambda>s. (fs_appID s, fs_all s)) (sub_at fs_ch (fh_subs h) c)"

definition config_buf :: "ConfigHub \<Rightarrow> nat \<Rightarrow> ConfigEvent list" where
  "config_buf h c = ch_buf (fh_chans h ! c)"

text \<open>The event a signal is for a subscriber of application \<^verbatim>\<open>a\<close>, or for the gateway.\<close>

definition config_offer :: "uuid \<times> bool \<Rightarrow> ConfigSignal \<Rightarrow> ConfigEvent option" where
  "config_offer ae sg =
     (if cs_Gap sg \<or> (if cs_Kind sg = ConfigKindIM then snd ae else \<not> snd ae \<and> fst ae = cs_AppID sg)
      then Some (config_event sg) else None)"

lemma config_fanout_at:
  assumes "config_inv h"
  shows "\<exists>h'. config_fanout sg h = Some h' \<and> config_inv h' \<and> length (fh_chans h') = length (fh_chans h) \<and>
    (\<forall>c. case config_role h c of
      None \<Rightarrow> config_role h' c = None \<and> config_buf h' c = config_buf h c
    | Some ae \<Rightarrow>
        (case config_offer ae sg of
           None \<Rightarrow> config_role h' c = Some ae \<and> config_buf h' c = config_buf h c
         | Some e \<Rightarrow>
             if length (config_buf h c) < configBufferSize
             then config_role h' c = Some ae \<and> config_buf h' c = config_buf h c @ [e]
             else config_role h' c = None \<and> config_buf h' c = config_buf h c))"
proof -
  note inv = assms [unfolded config_inv_def]
  obtain subs' chans' where r: "send_loop fs_ch (\<lambda>s. config_wants s sg) (config_event sg) True (fh_subs h) (fh_chans h) = Some (subs', chans')"
    using send_loop_spec [OF inv] by blast
  note l = send_loop_law [OF inv r]
  let ?h' = "h\<lparr>fh_subs := subs', fh_chans := chans'\<rparr>"
  have "case config_role h c of
      None \<Rightarrow> config_role ?h' c = None \<and> config_buf ?h' c = config_buf h c
    | Some ae \<Rightarrow>
        (case config_offer ae sg of
           None \<Rightarrow> config_role ?h' c = Some ae \<and> config_buf ?h' c = config_buf h c
         | Some e \<Rightarrow>
             if length (config_buf h c) < configBufferSize
             then config_role ?h' c = Some ae \<and> config_buf ?h' c = config_buf h c @ [e]
             else config_role ?h' c = None \<and> config_buf ?h' c = config_buf h c)" for c
    using l [of c]
    by (cases "sub_at fs_ch (fh_subs h) c")
      (auto simp: after_send_def config_role_def config_buf_def config_offer_def config_wants_def isIM_def split: if_splits)
  then show ?thesis using r l by (auto simp: config_fanout_def config_is_send_loop config_inv_def)
qed

lemma config_step_law:
  assumes "config_inv h" and "config_step op h = Some (h', g)"
  shows "config_inv h' \<and> length (fh_chans h) \<le> length (fh_chans h')"
    and "c < length (fh_chans h) \<Longrightarrow> (\<And>sg. op \<noteq> OpSignal sg) \<Longrightarrow>
       config_role h' c \<in> {None, config_role h c} \<and> got c g @ config_buf h' c = config_buf h c"
proof -
  note inv = assms(1) [unfolded config_inv_def]
  have d: "distinct (map (fs_ch \<circ> snd) (fh_subs h))" using inv by (simp add: subs_ok_def)
  have "(config_inv h' \<and> length (fh_chans h) \<le> length (fh_chans h')) \<and>
    (c < length (fh_chans h) \<longrightarrow> (\<forall>sg. op \<noteq> OpSignal sg) \<longrightarrow>
       config_role h' c \<in> {None, config_role h c} \<and> got c g @ config_buf h' c = config_buf h c)"
  proof (cases op)
    case (OpSignal sg)
    then show ?thesis using config_fanout_at [OF assms(1), of sg] assms(2) by auto
  next
    case (OpSubscribe a al)
    show ?thesis
    proof (cases "fh_closed h")
      case True
      then show ?thesis using OpSubscribe assms(2) subs_ok_grow [OF inv]
        by (auto simp: config_subscribeWith_def config_inv_def config_role_def config_buf_def nth_append)
    next
      case False
      let ?s = "\<lparr>fs_appID = a, fs_all = al, fs_ch = length (fh_chans h)\<rparr>"
      have "sub_at fs_ch (fh_subs h @ [(Suc (fh_next h), ?s)]) c = sub_at fs_ch (fh_subs h) c" if "c < length (fh_chans h)"
        using that by (subst sub_at_append) (auto split: option.split)
      then show ?thesis using False OpSubscribe assms(2) subs_ok_append [OF inv, of ?s]
        by (auto simp: config_subscribeWith_def Let_def config_inv_def config_role_def config_buf_def nth_append)
    qed
  next
    case (OpUnsubscribe i)
    then show ?thesis using assms(2) subs_ok_filter [OF inv] sub_at_filter [OF d, of _ c]
      by (force simp: config_unsubscribe_def config_inv_def config_role_def config_buf_def)
  next
    case (OpRecv k)
    obtain chans where r: "recv_at k (fh_chans h) = (g, chans)" and h': "h' = h\<lparr>fh_chans := chans\<rparr>"
      using assms(2) OpRecv by (auto split: prod.splits)
    show ?thesis using recv_at_spec [OF r, of c] recv_at_subs_ok [OF r inv] h'
      by (simp add: config_inv_def config_role_def config_buf_def)
  next
    case OpClose
    then show ?thesis using assms(2) subs_ok_close [OF inv]
      by (auto simp: config_Close_def config_inv_def config_role_def config_buf_def subs_ok_def)
  qed
  then show "config_inv h' \<and> length (fh_chans h) \<le> length (fh_chans h')"
    and "c < length (fh_chans h) \<Longrightarrow> (\<And>sg. op \<noteq> OpSignal sg) \<Longrightarrow>
       config_role h' c \<in> {None, config_role h c} \<and> got c g @ config_buf h' c = config_buf h c" by auto
qed

lemma config_signal_at:
  assumes "config_inv h" and "config_step (OpSignal sg) h = Some (h', g)"
  shows "g = [] \<and> (case config_role h c of
      None \<Rightarrow> config_role h' c = None \<and> config_buf h' c = config_buf h c
    | Some ae \<Rightarrow>
        (case config_offer ae sg of
           None \<Rightarrow> config_role h' c = Some ae \<and> config_buf h' c = config_buf h c
         | Some e \<Rightarrow>
             if length (config_buf h c) < configBufferSize
             then config_role h' c = Some ae \<and> config_buf h' c = config_buf h c @ [e]
             else config_role h' c = None \<and> config_buf h' c = config_buf h c))"
  using config_fanout_at [OF assms(1), of sg] assms(2) by auto

interpretation config_hub: fan_hub config_step config_inv "\<lambda>h. length (fh_chans h)" config_buf config_role config_offer
  "\<lambda>_. True" configBufferSize
proof
  fix h :: ConfigHub and op
  assume inv: "config_inv h"
  show "config_step op h \<noteq> None"
  proof (cases op)
    case (OpSignal sg)
    then show ?thesis using config_fanout_at [OF inv, of sg] by auto
  next
    case OpClose
    then show ?thesis using subs_ok_close [of fs_ch] inv by (fastforce simp: config_Close_def config_inv_def)
  qed (simp_all split: prod.split)
  show "config_role h c \<noteq> None \<Longrightarrow> length (config_buf h c) \<le> configBufferSize" for c
    using subs_ok_at [OF inv [unfolded config_inv_def]] by (auto simp: config_role_def config_buf_def)
  fix h' g
  assume st: "config_step op h = Some (h', g)"
  show "config_inv h' \<and> length (fh_chans h) \<le> length (fh_chans h')" by (rule config_step_law(1) [OF inv st])
  fix c
  assume c: "c < length (fh_chans h)"
  show "config_role h' c = None \<and> got c g @ config_buf h' c = config_buf h c" if "config_role h c = None"
  proof (cases "\<exists>sg. op = OpSignal sg")
    case True
    then obtain sg where sg: "op = OpSignal sg" by blast
    show ?thesis using config_signal_at [OF inv st [unfolded sg], of c] that sg by auto
  next
    case False
    then show ?thesis using config_step_law(2) [OF inv st c] that by auto
  qed
  show "config_role h' c \<in> {None, Some ae} \<and> got c g @ config_buf h' c = config_buf h c"
    if "config_role h c = Some ae" and "\<And>sg. op = OpSignal sg \<Longrightarrow> config_offer ae sg = None" for ae
  proof (cases "\<exists>sg. op = OpSignal sg")
    case True
    then obtain sg where sg: "op = OpSignal sg" by blast
    show ?thesis using config_signal_at [OF inv st [unfolded sg], of c] that sg by auto
  next
    case False
    then show ?thesis using config_step_law(2) [OF inv st c] that by auto
  qed
next
  fix h :: ConfigHub and c ae sg h' g e
  assume "config_inv h" "config_role h c = Some ae" "config_step (OpSignal sg) h = Some (h', g)" "config_offer ae sg = Some e"
  then show "(config_role h' c = Some ae \<and> got c g @ config_buf h' c = config_buf h c @ [e] \<and> length (config_buf h c) < configBufferSize) \<or>
     (config_role h' c \<in> {None, Some ae} \<and> got c g @ config_buf h' c = config_buf h c \<and> configBufferSize \<le> length (config_buf h c) \<and>
        (True \<longrightarrow> config_role h' c = None))"
    using config_signal_at [of h sg h' g c] by (auto split: if_splits)
qed

section \<open>What a stream gets\<close>

lemma new_hubs_ok: "revoke_inv newRevokeHub" "config_inv newConfigHub"
  by (simp_all add: revoke_inv_def newRevokeHub_def config_inv_def newConfigHub_def subs_ok_def)

text \<open>
  However subscriptions, signals, receives, unsubscriptions and the shutdown follow on each other, neither hub ever
  sends to or closes a channel that is closed: the process does not panic.
\<close>

theorem hubs_never_panic:
  "hub_run revoke_step ops newRevokeHub \<noteq> None \<and> hub_run config_step cops newConfigHub \<noteq> None"
  using revoke_hub.run_total [OF new_hubs_ok(1), of ops] config_hub.run_total [OF new_hubs_ok(2), of cops] by auto

lemma sub_at_eq_None: "sub_at ch subs c = None \<longleftrightarrow> c \<notin> (ch \<circ> snd) ` set subs"
  by (force simp: sub_at_def map_of_eq_None_iff image_iff)

lemma subscribed_role:
  assumes "revoke_inv h" and "subscribeWith appID al h = (c, Some i, h1)"
  shows "c < length (rh_chans h1) \<and> revoke_role h1 c = Some (appID, al) \<and> revoke_buf h1 c = []"
proof -
  have "sub_at rs_ch (rh_subs h) (length (rh_chans h)) = None"
    using assms(1) by (auto simp: revoke_inv_def subs_ok_def sub_at_eq_None)
  then show ?thesis using assms(2)
    by (auto simp: subscribeWith_def Let_def revoke_role_def revoke_buf_def sub_at_append make_chan_def split: if_splits)
qed

lemma config_subscribed_role:
  assumes "config_inv h" and "config_subscribeWith appID al h = (c, Some i, h1)"
  shows "c < length (fh_chans h1) \<and> config_role h1 c = Some (appID, al) \<and> config_buf h1 c = []"
proof -
  have "sub_at fs_ch (fh_subs h) (length (fh_chans h)) = None"
    using assms(1) by (auto simp: config_inv_def subs_ok_def sub_at_eq_None)
  then show ?thesis using assms(2)
    by (auto simp: config_subscribeWith_def Let_def config_role_def config_buf_def sub_at_append make_chan_def split: if_splits)
qed

text \<open>
  What a stream has received and still finds in its buffer is, in order, part of what concerns it: the events of its
  application, those of no particular application, and the purges; a stream that is still subscribed has missed no
  purge, and nothing at all unless more than 64 events came after its subscription.
\<close>

theorem revocations_reach_their_streams:
  assumes "hub_run revoke_step ops1 newRevokeHub = Some (h, g1)" and "subscribeWith appID al h = (c, Some i, h1)"
    and "hub_run revoke_step ops2 h1 = Some (h2, g2)"
  shows "let seen = got c g2 @ ch_buf (rh_chans h2 ! c);
             due = List.map_filter (revoke_offer (appID, al)) (signals ops2)
         in subseq seen due \<and>
            (c \<in> (rs_ch \<circ> snd) ` set (rh_subs h2) \<longrightarrow>
               filter hv_Purge seen = filter hv_Purge due \<and> (length due \<le> 64 \<longrightarrow> seen = due))"
proof -
  have h: "revoke_inv h" using revoke_hub.run_total [OF new_hubs_ok(1), of ops1] assms(1) by auto
  have st: "revoke_step (OpSubscribe appID al) h = Some (h1, [])" using assms(2) by simp
  have h1: "revoke_inv h1" by (rule revoke_step_law(1) [OF h st, THEN conjunct1])
  have c: "c < length (rh_chans h1)" "revoke_role h1 c = Some (appID, al)" "revoke_buf h1 c = []"
    using subscribed_role [OF h assms(2)] by auto
  have "c \<in> (rs_ch \<circ> snd) ` set (rh_subs h2) \<Longrightarrow> revoke_role h2 c \<noteq> None"
    by (auto simp: revoke_role_def sub_at_eq_None)
  then show ?thesis
    using revoke_hub.run_history [OF h1 c(1,2) assms(3)] c(3)
    by (simp add: revoke_hub.offers_def revoke_buf_def revokeBufferSize_def Let_def)
qed

text \<open>A purge that meets a full buffer ends the stream; an event that does is dropped.\<close>

definition demo_sub :: "nat \<times> nat option \<times> RevokeHub" where
  "demo_sub = subscribeWith ''A'' False newRevokeHub"

definition demo_revocation :: "uuid \<Rightarrow> RevokeSignal" where
  "demo_revocation a = \<lparr>sg_Kind = RevokeSignalEvent, sg_Event = zero_event\<lparr>ev_AppID := a, ev_Tokens := [''t'']\<rparr>\<rparr>"

definition demo_gap :: RevokeSignal where "demo_gap = \<lparr>sg_Kind = RevokeSignalGap, sg_Event = zero_event\<rparr>"

theorem revocations_reach_their_streams_witness:
  "(case hub_run revoke_step [OpSignal (demo_revocation ''A''), OpRecv 0, OpSignal (demo_revocation ''B''), OpSignal demo_gap]
      (snd (snd demo_sub)) of
      Some (h2, g2) \<Rightarrow> got 0 g2 @ ch_buf (rh_chans h2 ! 0) =
        [event_of (sg_Event (demo_revocation ''A'')), purge_event gap_reason]
    | None \<Rightarrow> False)"
proof -
  let ?ops = "[OpSignal (demo_revocation ''A''), OpRecv 0, OpSignal (demo_revocation ''B''), OpSignal demo_gap]"
  have s: "subscribeWith ''A'' False newRevokeHub = (0, Some 1, snd (snd demo_sub))" by code_simp
  have "case hub_run revoke_step ?ops (snd (snd demo_sub)) of Some (h2, g2) \<Rightarrow> map (rs_ch \<circ> snd) (rh_subs h2) = [0] | None \<Rightarrow> False"
    by code_simp
  then obtain h2 g2 where r: "hub_run revoke_step ?ops (snd (snd demo_sub)) = Some (h2, g2)"
    and m: "0 \<in> (rs_ch \<circ> snd) ` set (rh_subs h2)"
    by (auto split: option.splits prod.splits)
  have "List.map_filter (revoke_offer (''A'', False)) (signals ?ops) =
      [event_of (sg_Event (demo_revocation ''A'')), purge_event gap_reason]" by code_simp
  then show ?thesis
    using revocations_reach_their_streams [of "[]" _ "[]", OF _ s r] m r by (simp add: Let_def)
qed

text \<open>
  A stream that is still subscribed has been given, or still has in its buffer, every change of the configuration
  that concerns it, in order: where the buffer is full the stream is ended rather than a change dropped.
\<close>

theorem configuration_changes_are_complete:
  assumes "hub_run config_step ops1 newConfigHub = Some (h, g1)" and "config_subscribeWith appID al h = (c, Some i, h1)"
    and "hub_run config_step ops2 h1 = Some (h2, g2)"
  shows "let seen = got c g2 @ ch_buf (fh_chans h2 ! c);
             due = List.map_filter (config_offer (appID, al)) (signals ops2)
         in subseq seen due \<and> (c \<in> (fs_ch \<circ> snd) ` set (fh_subs h2) \<longrightarrow> seen = due)"
proof -
  have h: "config_inv h" using config_hub.run_total [OF new_hubs_ok(2), of ops1] assms(1) by auto
  have st: "config_step (OpSubscribe appID al) h = Some (h1, [])" using assms(2) by simp
  have h1: "config_inv h1" by (rule config_step_law(1) [OF h st, THEN conjunct1])
  have c: "c < length (fh_chans h1)" "config_role h1 c = Some (appID, al)" "config_buf h1 c = []"
    using config_subscribed_role [OF h assms(2)] by auto
  have "c \<in> (fs_ch \<circ> snd) ` set (fh_subs h2) \<Longrightarrow> config_role h2 c \<noteq> None"
    by (auto simp: config_role_def sub_at_eq_None)
  then show ?thesis
    using config_hub.run_history [OF h1 c(1,2) assms(3)] c(3)
    by (simp add: config_hub.offers_def config_buf_def Let_def)
qed

theorem configuration_changes_are_complete_witness:
  "(case hub_run config_step [OpSignal gap_signal, OpRecv 0, OpSignal (gap_signal\<lparr>cs_Gap := False, cs_AppID := ''A'', cs_Seq := 7\<rparr>)]
      (snd (snd (config_subscribeWith ''A'' False newConfigHub))) of
      Some (h2, g2) \<Rightarrow> got 0 g2 @ ch_buf (fh_chans h2 ! 0) =
        [config_event gap_signal, \<lparr>cv_IMAppID = [], cv_Type = [], cv_Seq = 7\<rparr>]
    | None \<Rightarrow> False)"
proof -
  let ?ops = "[OpSignal gap_signal, OpRecv 0, OpSignal (gap_signal\<lparr>cs_Gap := False, cs_AppID := ''A'', cs_Seq := 7\<rparr>)]"
  let ?h1 = "snd (snd (config_subscribeWith ''A'' False newConfigHub))"
  have s: "config_subscribeWith ''A'' False newConfigHub = (0, Some 1, ?h1)" by code_simp
  have "case hub_run config_step ?ops ?h1 of Some (h2, g2) \<Rightarrow> map (fs_ch \<circ> snd) (fh_subs h2) = [0] | None \<Rightarrow> False"
    by code_simp
  then obtain h2 g2 where r: "hub_run config_step ?ops ?h1 = Some (h2, g2)" and m: "0 \<in> (fs_ch \<circ> snd) ` set (fh_subs h2)"
    by (auto split: option.splits prod.splits)
  have "List.map_filter (config_offer (''A'', False)) (signals ?ops) =
      [config_event gap_signal, \<lparr>cv_IMAppID = [], cv_Type = [], cv_Seq = 7\<rparr>]" by code_simp
  then show ?thesis
    using configuration_changes_are_complete [of "[]" _ "[]", OF _ s r] m r by (simp add: Let_def)
qed

end
