(* ===== verification/Sdk_Watch.thy ===== *)
theory Sdk_Watch
  imports Watch_Hub Authzcore
begin

text \<open>
  The background work of an SDK client (\<^verbatim>\<open>sdk/client.go\<close>): the watch loop with its back-off and what it does with
  each message, the policy snapshot (\<^verbatim>\<open>sdk/authz.go\<close>) and the reload of bound configuration
  (\<^verbatim>\<open>sdk/config.go\<close>). The answers of the server are parameters.
\<close>

section \<open>The policy snapshot\<close>

record AppPolicy =
  ap_Roles :: "RolePolicy list"
  ap_Version :: int

record Authz =
  az_version :: int
  az_compiled :: "Snapshot option"
  az_ready :: bool

definition newAuthz :: Authz where
  "newAuthz = \<lparr>az_version = 0, az_compiled = None, az_ready = False\<rparr>"

definition setPolicy :: "AppPolicy \<Rightarrow> Authz \<Rightarrow> Authz" where
  "setPolicy p a = a\<lparr>az_compiled := Some (Compile (ap_Roles p)), az_version := ap_Version p, az_ready := True\<rparr>"

datatype authz_err = ErrPolicyUnavailable | ErrNoIdentity

definition IsAccessKey :: "Identity \<Rightarrow> bool" where
  "IsAccessKey i \<longleftrightarrow> id_AccessKeyID i \<noteq> []"

definition Authz_Allow :: "Authz \<Rightarrow> Identity option \<Rightarrow> string \<Rightarrow> string \<Rightarrow> authz_err + bool" where
  "Authz_Allow a who meth pattern =
     (case who of
        None \<Rightarrow> Inl ErrNoIdentity
      | Some i \<Rightarrow>
          if HasAdmin (id_Roles i) then Inr True
          else if \<not> az_ready a then Inl ErrPolicyUnavailable
          else (let extra = (if IsAccessKey i then [] else GuestRoleKey)
                in Inr (AllowWith (az_compiled a) (id_Roles i) extra (PermissionKey meth pattern))))"

definition AllowRoles :: "Authz \<Rightarrow> string list \<Rightarrow> string \<Rightarrow> string \<Rightarrow> authz_err + bool" where
  "AllowRoles a rs meth pattern =
     (if HasAdmin rs then Inr True
      else if \<not> az_ready a then Inl ErrPolicyUnavailable
      else Inr (Snapshot_Allow (az_compiled a) rs (PermissionKey meth pattern)))"

section \<open>The messages of the watch stream\<close>

record 'l Client =
  cl_cache :: "'l cache"
  cl_authz :: Authz
  cl_streamUp :: bool
  cl_cfgReload :: bool

definition requestConfigReload :: "'l Client \<Rightarrow> 'l Client" where
  "requestConfigReload c = c\<lparr>cl_cfgReload := True\<rparr>"

text \<open>\<^verbatim>\<open>refreshPolicy\<close> with the answer of \<^verbatim>\<open>GetPolicy\<close>; a client of the gateway does not ask.\<close>

definition refreshPolicy :: "bool \<Rightarrow> grpc_status + AppPolicy \<Rightarrow> 'l Client \<Rightarrow> 'l Client" where
  "refreshPolicy im res c =
     (if im then c
      else case res of
          Inl st \<Rightarrow> c
        | Inr p \<Rightarrow> c\<lparr>cl_authz := setPolicy p (cl_authz c)\<rparr>)"

text \<open>
  The body of the loop of \<^verbatim>\<open>watchOnce\<close> for one message: the new state, whether it was a ready, and the event for
  \<^verbatim>\<open>Options.OnRevoke\<close>. \<^verbatim>\<open>pol\<close> is what \<^verbatim>\<open>GetPolicy\<close> answers if it is asked. A message the SDK
  has no case for is ignored.
\<close>

definition handle_msg ::
  "('l, 'ip entry) lru_ops \<Rightarrow> bool \<Rightarrow> bool \<Rightarrow> grpc_status + AppPolicy \<Rightarrow> WatchResponse \<Rightarrow> 'l Client \<Rightarrow>
     'l Client \<times> bool \<times> sdk_revoke_event option" where
  "handle_msg L im cb pol msg c =
     (case msg of
        MsgReady \<Rightarrow>
          (let c1 = c\<lparr>cl_cache := onPurge L (cl_cache c)\<rparr>;
               c2 = c1\<lparr>cl_streamUp := True\<rparr>
           in (requestConfigReload (refreshPolicy im pol c2), True, None))
      | MsgRevoke ev \<Rightarrow> (case onRevoke L cb ev (cl_cache c) of (ca, out) \<Rightarrow> (c\<lparr>cl_cache := ca\<rparr>, False, out))
      | MsgPurge reason \<Rightarrow> (refreshPolicy im pol (c\<lparr>cl_cache := onPurge L (cl_cache c)\<rparr>), False, None)
      | MsgPolicyChanged v \<Rightarrow> (refreshPolicy im pol c, False, None)
      | MsgUserRoleChanged u \<Rightarrow> (c\<lparr>cl_cache := dropUser L u (cl_cache c)\<rparr>, False, None)
      | MsgAccessKeyChanged k \<Rightarrow> (c\<lparr>cl_cache := drop L [accessKeyCacheKey k] (cl_cache c)\<rparr>, False, None)
      | MsgConfigChanged ty v \<Rightarrow> (requestConfigReload c, False, None)
      | _ \<Rightarrow> (c, False, None))"

text \<open>The event about the settings of an application that the server sends to the gateway changes nothing.\<close>

lemma gateway_ignores_config_changes: "handle_msg L im cb pol (MsgAppImConfigChanged a) c = (c, False, None)"
  by (simp add: handle_msg_def)

text \<open>The policy that arrives last wins, whatever its version.\<close>

lemma setPolicy_ignores_versions:
  "az_version (setPolicy \<lparr>ap_Roles = [], ap_Version = 1\<rparr> (setPolicy \<lparr>ap_Roles = [], ap_Version = 2\<rparr> newAuthz)) = 1"
  by (simp add: setPolicy_def)

text \<open>
  \<^verbatim>\<open>watchOnce\<close> reads until the stream ends; \<^verbatim>\<open>runWatch\<close> then takes the stream for down. \<^verbatim>\<open>pols\<close>
  gives the answer to the \<^verbatim>\<open>i\<close>-th question.
\<close>

fun watchOnce ::
  "('l, 'ip entry) lru_ops \<Rightarrow> bool \<Rightarrow> bool \<Rightarrow> (nat \<Rightarrow> grpc_status + AppPolicy) \<Rightarrow> nat \<Rightarrow> WatchResponse list \<Rightarrow> bool \<Rightarrow>
     'l Client \<Rightarrow> bool \<times> 'l Client" where
  "watchOnce L im cb pols i [] ready c = (ready, c)"
| "watchOnce L im cb pols i (m # ms) ready c =
     (case handle_msg L im cb (pols i) m c of (c1, r, _) \<Rightarrow> watchOnce L im cb pols (i + 1) ms (ready \<or> r) c1)"

definition stream_ended :: "'l Client \<Rightarrow> 'l Client" where
  "stream_ended c = c\<lparr>cl_streamUp := False\<rparr>"

section \<open>Back-off\<close>

definition minBackoff :: int where "minBackoff = 200 * ns_per_ms"
definition maxBackoff :: int where "maxBackoff = 30 * ns_per_s"
definition healthyConnDuration :: int where "healthyConnDuration = 5 * ns_per_s"

text \<open>
  The waits of \<^verbatim>\<open>runWatch\<close>: each attempt is whether a ready came and how long it lasted; the wait after it, and
  the back-off the next attempt starts with.
\<close>

fun watch_waits :: "int \<Rightarrow> (bool \<times> int) list \<Rightarrow> int list" where
  "watch_waits backoff [] = []"
| "watch_waits backoff ((gotReady, lasted) # as) =
     (let healthy = (gotReady \<and> lasted \<ge> healthyConnDuration);
          b = (if healthy then minBackoff else backoff);
          b2 = (if \<not> healthy then (if b * 2 > maxBackoff then maxBackoff else b * 2) else b)
      in b # watch_waits b2 as)"

definition runWatch_waits :: "(bool \<times> int) list \<Rightarrow> int list" where
  "runWatch_waits as = watch_waits minBackoff as"

definition healthy_attempt :: "bool \<times> int \<Rightarrow> bool" where
  "healthy_attempt a \<longleftrightarrow> fst a \<and> snd a \<ge> healthyConnDuration"

text \<open>How many attempts at the end of a list were not healthy.\<close>

definition failures :: "(bool \<times> int) list \<Rightarrow> nat" where
  "failures as = length (takeWhile (\<lambda>a. \<not> healthy_attempt a) (rev as))"

definition backoff_after :: "nat \<Rightarrow> int" where
  "backoff_after k = min (minBackoff * 2 ^ k) maxBackoff"

lemma backoff_after_Suc: "min (backoff_after k * 2) maxBackoff = backoff_after (Suc k)"
  by (auto simp: backoff_after_def min_def minBackoff_def maxBackoff_def)

lemma ex_take: "n \<le> length as \<Longrightarrow> (\<exists>x\<in>set (take n as). P x) \<longleftrightarrow> (\<exists>j<n. P (as ! j))"
  by (force simp: in_set_conv_nth)

lemma failures_Cons:
  "failures (a # as) = (if \<exists>x\<in>set as. healthy_attempt x then failures as
     else if healthy_attempt a then length as else Suc (length as))"
proof (cases "\<exists>x\<in>set as. healthy_attempt x")
  case True
  then obtain x where "x \<in> set (rev as)" "healthy_attempt x" by auto
  then have "takeWhile (\<lambda>a. \<not> healthy_attempt a) (rev as @ [a]) = takeWhile (\<lambda>a. \<not> healthy_attempt a) (rev as)"
    by (intro takeWhile_append1) auto
  then show ?thesis using True by (simp add: failures_def)
next
  case False
  then have "takeWhile (\<lambda>a. \<not> healthy_attempt a) (rev as @ [a]) = rev as @ takeWhile (\<lambda>a. \<not> healthy_attempt a) [a]"
    by (intro takeWhile_append2) auto
  then show ?thesis using False by (simp add: failures_def)
qed

lemma watch_waits_spec:
  "i < length as \<Longrightarrow> watch_waits (backoff_after k) as ! i =
     (if healthy_attempt (as ! i) then minBackoff
      else backoff_after (if \<exists>j<i. healthy_attempt (as ! j) then failures (take i as) else k + i))"
proof (induction as arbitrary: i k)
  case (Cons a as)
  obtain r l where a: "a = (r, l)" by fastforce
  have zero: "backoff_after 0 = minBackoff" by (simp add: backoff_after_def minBackoff_def maxBackoff_def)
  show ?case
  proof (cases i)
    case 0
    then show ?thesis by (simp add: a healthy_attempt_def Let_def)
  next
    case (Suc n)
    then have n: "n < length as" "n \<le> length as" using Cons.prems by simp_all
    have ex: "(\<exists>j<i. healthy_attempt ((a # as) ! j)) \<longleftrightarrow> healthy_attempt a \<or> (\<exists>j<n. healthy_attempt (as ! j))"
      unfolding Suc by (metis less_Suc_eq_0_disj nth_Cons_0 nth_Cons_Suc)
    have f: "failures (take i (a # as)) = (if \<exists>j<n. healthy_attempt (as ! j) then failures (take n as)
        else if healthy_attempt a then n else Suc n)"
      using n ex_take [OF n(2), of healthy_attempt] by (auto simp: Suc failures_Cons)
    have "watch_waits (backoff_after k) (a # as) ! i =
        watch_waits (backoff_after (if healthy_attempt a then 0 else Suc k)) as ! n"
      using backoff_after_Suc [of k] zero by (auto simp: a Suc Let_def healthy_attempt_def min_def)
    then show ?thesis using Cons.IH [OF n(1)] unfolding ex f by (auto simp: Suc)
  qed
qed simp

text \<open>
  The wait before reconnecting is always between 200 ms and 30 s; after \<^verbatim>\<open>k\<close> attempts in a row that were
  not healthy it is 200 ms doubled \<^verbatim>\<open>k\<close> times, capped at 30 s, and an attempt that was ready and lasted five
  seconds starts it over.
\<close>

theorem backoff_is_bounded:
  assumes "i < length as"
  shows "runWatch_waits as ! i = (if healthy_attempt (as ! i) then 200 * ns_per_ms
      else min (200 * ns_per_ms * 2 ^ failures (take i as)) (30 * ns_per_s)) \<and>
    200 * ns_per_ms \<le> runWatch_waits as ! i \<and> runWatch_waits as ! i \<le> 30 * ns_per_s"
proof -
  have "failures (take i as) = i" if "\<not> (\<exists>j<i. healthy_attempt (as ! j))"
  proof -
    have "takeWhile (\<lambda>a. \<not> healthy_attempt a) (rev (take i as)) = rev (take i as)"
      using that assms ex_take [of i as healthy_attempt] by (intro takeWhile_eq_all_conv [THEN iffD2]) auto
    then show ?thesis unfolding failures_def using assms by (simp only: length_rev length_take)
  qed
  then have "runWatch_waits as ! i = (if healthy_attempt (as ! i) then minBackoff else backoff_after (failures (take i as)))"
    using watch_waits_spec [OF assms, of 0]
    by (simp add: runWatch_waits_def backoff_after_def minBackoff_def maxBackoff_def)
  moreover have "200 * ns_per_ms \<le> 200 * ns_per_ms * 2 ^ failures (take i as)"
    by (simp add: mult_le_cancel_left1)
  ultimately show ?thesis by (auto simp: backoff_after_def minBackoff_def maxBackoff_def)
qed

theorem backoff_is_bounded_witness:
  "map (\<lambda>i. runWatch_waits [(False, 0), (False, 0), (True, 6 * ns_per_s), (True, 0), (False, 0)] ! i) [0, 1, 2, 3, 4] =
     [200 * ns_per_ms, 400 * ns_per_ms, 200 * ns_per_ms, 200 * ns_per_ms, 400 * ns_per_ms]"
  using backoff_is_bounded [of 0 "[(False, 0), (False, 0), (True, 6 * ns_per_s), (True, 0), (False, 0)]"]
    backoff_is_bounded [of 1 "[(False, 0), (False, 0), (True, 6 * ns_per_s), (True, 0), (False, 0)]"]
    backoff_is_bounded [of 2 "[(False, 0), (False, 0), (True, 6 * ns_per_s), (True, 0), (False, 0)]"]
    backoff_is_bounded [of 3 "[(False, 0), (False, 0), (True, 6 * ns_per_s), (True, 0), (False, 0)]"]
    backoff_is_bounded [of 4 "[(False, 0), (False, 0), (True, 6 * ns_per_s), (True, 0), (False, 0)]"]
  by (simp add: failures_def healthy_attempt_def healthyConnDuration_def)

end
