(* ===== verification/Watch_Pipeline.thy ===== *)
theory Watch_Pipeline
  imports Watch_Hub_Properties Sdk_Watch
begin

text \<open>
  From the announcement of a revocation to the cache of a client: the hub of a server process, one watch stream and the
  SDK behind it, composed. Steps are the atomic sections of the goroutines: the hub handles a signal, the stream's
  handler moves an event from its channel to the connection, the SDK handles a message, its other goroutines validate
  and log out, streams come and go. The history variables count the signals the hub has handled: \<^verbatim>\<open>pl_rev\<close> is
  the count at which a token was last revoked, \<^verbatim>\<open>pl_at n\<close> the count when the SDK made its \<^verbatim>\<open>n\<close>-th
  invalidation, \<^verbatim>\<open>pl_missed\<close> the tokens whose event met a full buffer of the current stream.
\<close>

section \<open>Messages and what they invalidate\<close>

definition msg_of :: "HubEvent \<Rightarrow> WatchResponse" where
  "msg_of e = (if hv_Purge e then MsgPurge (hv_Reason e) else eventMessage (hv_Revoke e))"

lemma watch_event_business: "watch_event get_app False e cache r = (msg_of e, cache, r)"
  by (simp add: watch_event_def msg_of_def split: WatchResponse.split)

fun covers :: "string \<Rightarrow> WatchResponse \<Rightarrow> bool" where
  "covers t MsgReady = True"
| "covers t (MsgPurge reason) = True"
| "covers t (MsgRevoke ev) = (t \<in> set (sre_Tokens ev))"
| "covers t (MsgAccessKeyChanged k) = (t = accessKeyCacheKey k)"
| "covers t _ = False"

fun invalidates :: "WatchResponse \<Rightarrow> bool" where
  "invalidates (MsgPolicyChanged v) = False"
| "invalidates (MsgUserRoleChanged u) = False"
| "invalidates (MsgConfigChanged ty v) = False"
| "invalidates (MsgAppImConfigChanged a) = False"
| "invalidates _ = True"

text \<open>A signal that revokes \<^verbatim>\<open>t\<close> as far as application \<^verbatim>\<open>A\<close> is concerned.\<close>

definition revokes :: "uuid \<Rightarrow> string \<Rightarrow> RevokeSignal \<Rightarrow> bool" where
  "revokes A t sg = (case revoke_offer (A, False) sg of None \<Rightarrow> False | Some e \<Rightarrow> covers t (msg_of e))"

section \<open>The composed system\<close>

record 'l pipe =
  pl_hub :: RevokeHub
  pl_sys :: "'l sys"
  pl_link :: "nat option"
  pl_wire :: "WatchResponse list"
  pl_clock :: nat
  pl_rev :: "string \<Rightarrow> nat"
  pl_at :: "nat \<Rightarrow> nat"
  pl_missed :: "string \<Rightarrow> bool"

text \<open>The SDK's state after it has handled a message, as the cache system of \<^verbatim>\<open>Sdk_Cache\<close>.\<close>

definition sdk_handles :: "('l, 'ip entry) lru_ops \<Rightarrow> bool \<Rightarrow> grpc_status + AppPolicy \<Rightarrow> WatchResponse \<Rightarrow> 'l Client \<Rightarrow> 'l sys \<Rightarrow> 'l sys" where
  "sdk_handles L cb pol m cl y =
     y\<lparr>s_cache := cl_cache (fst (handle_msg L False cb pol m (cl\<lparr>cl_cache := s_cache y\<rparr>))),
       s_inval := (if invalidates m then Suc (s_inval y) else s_inval y),
       s_last := (\<lambda>t. if covers t m then Suc (s_inval y) else s_last y t)\<rparr>"

definition tick :: "nat \<Rightarrow> 'l sys \<Rightarrow> 'l sys \<Rightarrow> (nat \<Rightarrow> nat) \<Rightarrow> nat \<Rightarrow> nat" where
  "tick now y y' at = (if s_inval y' = s_inval y then at else at(s_inval y' := now))"

inductive pipe_step :: "('l, 'ip entry) lru_ops \<Rightarrow> uuid \<Rightarrow> 'l pipe \<Rightarrow> 'l pipe \<Rightarrow> bool" for L A where
  pipe_signal:
    "revoke_step (OpSignal sg) (pl_hub s) = Some (h, g) \<Longrightarrow>
     pipe_step L A s (s\<lparr>pl_hub := h, pl_clock := Suc (pl_clock s),
       pl_rev := (\<lambda>t. if revokes A t sg then Suc (pl_clock s) else pl_rev s t),
       pl_missed := (case pl_link s of
           None \<Rightarrow> pl_missed s
         | Some c \<Rightarrow> if revoke_buf h c = revoke_buf (pl_hub s) c then (\<lambda>t. pl_missed s t \<or> revokes A t sg) else pl_missed s)\<rparr>)"
| pipe_connect:
    "pl_link s = None \<Longrightarrow> subscribeWith A False (pl_hub s) = (c, Some i, h) \<Longrightarrow>
     pipe_step L A s (s\<lparr>pl_hub := h, pl_link := Some c, pl_wire := [MsgReady], pl_missed := (\<lambda>_. False)\<rparr>)"
| pipe_forward:
    "pl_link s = Some c \<Longrightarrow> revoke_step (OpRecv c) (pl_hub s) = Some (h, [(c, e)]) \<Longrightarrow>
     watch_event (get_app :: uuid \<Rightarrow> (unit, string) io) False e cache r = (m, cache', r') \<Longrightarrow>
     pipe_step L A s (s\<lparr>pl_hub := h, pl_wire := pl_wire s @ [m]\<rparr>)"
| pipe_hub:
    "revoke_step op (pl_hub s) = Some (h, g) \<Longrightarrow> (\<And>sg. op \<noteq> OpSignal sg) \<Longrightarrow> (\<And>c. pl_link s = Some c \<Longrightarrow> op \<noteq> OpRecv c) \<Longrightarrow>
     pipe_step L A s (s\<lparr>pl_hub := h\<rparr>)"
| pipe_receive:
    "pl_wire s = m # ms \<Longrightarrow> y = sdk_handles L cb pol m cl (pl_sys s) \<Longrightarrow>
     pipe_step L A s (s\<lparr>pl_wire := ms, pl_sys := y, pl_at := tick (pl_clock s) (pl_sys s) y (pl_at s)\<rparr>)"
| pipe_local:
    "sys_step L (pl_sys s) y \<Longrightarrow>
     pipe_step L A s (s\<lparr>pl_sys := y, pl_at := tick (pl_clock s) (pl_sys s) y (pl_at s)\<rparr>)"
| pipe_disconnect:
    "pipe_step L A s (s\<lparr>pl_link := None, pl_wire := []\<rparr>)"

definition pipe_init :: "'l \<Rightarrow> 'l pipe" where
  "pipe_init l = \<lparr>pl_hub = newRevokeHub, pl_sys = sys_init l, pl_link = None, pl_wire = [], pl_clock = 0, pl_rev = (\<lambda>_. 0),
     pl_at = (\<lambda>_. 0), pl_missed = (\<lambda>_. False)\<rparr>"

section \<open>The invariant\<close>

definition pending :: "'l pipe \<Rightarrow> nat \<Rightarrow> WatchResponse list" where
  "pending s c = pl_wire s @ map msg_of (revoke_buf (pl_hub s) c)"

definition pipe_inv :: "('l, 'ip entry) lru_ops \<Rightarrow> uuid \<Rightarrow> 'l pipe \<Rightarrow> bool" where
  "pipe_inv L A s \<longleftrightarrow> sys_inv L (pl_sys s) \<and> (\<forall>t. s_birth (pl_sys s) t \<le> s_inval (pl_sys s)) \<and>
     revoke_inv (pl_hub s) \<and> (\<forall>t. pl_rev s t \<le> pl_clock s) \<and>
     (\<forall>n \<le> s_inval (pl_sys s). pl_at s n \<le> pl_clock s \<and> (\<forall>m \<le> n. pl_at s m \<le> pl_at s n)) \<and>
     (\<forall>c. pl_link s = Some c \<longrightarrow> c < length (rh_chans (pl_hub s)) \<and> revoke_role (pl_hub s) c \<in> {None, Some (A, False)} \<and>
        (revoke_role (pl_hub s) c \<noteq> None \<longrightarrow> (\<forall>t. \<not> pl_missed s t \<longrightarrow>
           (\<exists>m\<in>set (pending s c). covers t m) \<or> pl_rev s t \<le> pl_at s (s_last (pl_sys s) t))))"

lemma pipe_invD:
  assumes "pipe_inv L A s"
  shows "sys_inv L (pl_sys s)" and "s_birth (pl_sys s) t \<le> s_inval (pl_sys s)" and "revoke_inv (pl_hub s)"
    and "pl_rev s t \<le> pl_clock s"
    and "n \<le> s_inval (pl_sys s) \<Longrightarrow> pl_at s n \<le> pl_clock s"
    and "n \<le> s_inval (pl_sys s) \<Longrightarrow> m \<le> n \<Longrightarrow> pl_at s m \<le> pl_at s n"
    and "pl_link s = Some c \<Longrightarrow> c < length (rh_chans (pl_hub s))"
    and "pl_link s = Some c \<Longrightarrow> revoke_role (pl_hub s) c \<in> {None, Some (A, False)}"
    and "pl_link s = Some c \<Longrightarrow> revoke_role (pl_hub s) c \<noteq> None \<Longrightarrow> \<not> pl_missed s t \<Longrightarrow>
      (\<exists>m\<in>set (pending s c). covers t m) \<or> pl_rev s t \<le> pl_at s (s_last (pl_sys s) t)"
  using assms by (auto simp: pipe_inv_def)

lemma pipe_invI:
  assumes "sys_inv L (pl_sys s)" and "\<And>t. s_birth (pl_sys s) t \<le> s_inval (pl_sys s)" and "revoke_inv (pl_hub s)"
    and "\<And>t. pl_rev s t \<le> pl_clock s"
    and "\<And>n. n \<le> s_inval (pl_sys s) \<Longrightarrow> pl_at s n \<le> pl_clock s"
    and "\<And>n m. n \<le> s_inval (pl_sys s) \<Longrightarrow> m \<le> n \<Longrightarrow> pl_at s m \<le> pl_at s n"
    and "\<And>c. pl_link s = Some c \<Longrightarrow> c < length (rh_chans (pl_hub s)) \<and> revoke_role (pl_hub s) c \<in> {None, Some (A, False)}"
    and "\<And>c t. pl_link s = Some c \<Longrightarrow> revoke_role (pl_hub s) c \<noteq> None \<Longrightarrow> \<not> pl_missed s t \<Longrightarrow>
      (\<exists>m\<in>set (pending s c). covers t m) \<or> pl_rev s t \<le> pl_at s (s_last (pl_sys s) t)"
  shows "pipe_inv L A s"
  using assms by (fastforce simp: pipe_inv_def)

lemma sys_step_shape:
  assumes "sys_step L y y'" and "sys_inv L y"
  shows "s_inval y' \<in> {s_inval y, Suc (s_inval y)}" and "s_inval y' = s_inval y \<Longrightarrow> s_last y' t = s_last y t"
    and "s_last y' t \<in> {s_last y t, s_inval y'}"
    and "s_birth y' t = s_birth y t \<or> s_birth y' t \<le> s_inval y"
  using assms sys_invD(2) [OF assms(2)] by (cases rule: sys_step.cases; auto)+

text \<open>A message is one step of the cache system, or none.\<close>

lemma sdk_handles_step:
  "sdk_handles L cb pol m cl y = y \<or> sys_step L y (sdk_handles L cb pol m cl y)"
proof (cases m)
  case MsgReady
  have "sys_step L y (y\<lparr>s_cache := onPurge L (s_cache y), s_inval := Suc (s_inval y), s_last := (\<lambda>_. Suc (s_inval y))\<rparr>)"
    by (rule sys_step.purged)
  then show ?thesis
    by (simp add: MsgReady sdk_handles_def handle_msg_def Let_def requestConfigReload_def refreshPolicy_def split: sum.split)
next
  case (MsgRevoke ev)
  have "sys_step L y (y\<lparr>s_cache := fst (onRevoke L cb ev (s_cache y)), s_inval := Suc (s_inval y),
                     s_last := (\<lambda>t. if t \<in> set (sre_Tokens ev) then Suc (s_inval y) else s_last y t)\<rparr>)"
    by (rule sys_step.revoked)
  then show ?thesis by (simp add: MsgRevoke sdk_handles_def handle_msg_def onRevoke_def)
next
  case (MsgPurge reason)
  have "sys_step L y (y\<lparr>s_cache := onPurge L (s_cache y), s_inval := Suc (s_inval y), s_last := (\<lambda>_. Suc (s_inval y))\<rparr>)"
    by (rule sys_step.purged)
  then show ?thesis
    by (simp add: MsgPurge sdk_handles_def handle_msg_def refreshPolicy_def split: sum.split)
next
  case (MsgAccessKeyChanged k)
  let ?ev = "\<lparr>sre_Tokens = [accessKeyCacheKey k], sre_UserIDs = [], sre_AppID = [], sre_Reason = [], sre_AtMs = 0\<rparr>"
  have "sys_step L y (y\<lparr>s_cache := fst (onRevoke L cb ?ev (s_cache y)), s_inval := Suc (s_inval y),
                     s_last := (\<lambda>t. if t \<in> set (sre_Tokens ?ev) then Suc (s_inval y) else s_last y t)\<rparr>)"
    by (rule sys_step.revoked)
  then show ?thesis by (simp add: MsgAccessKeyChanged sdk_handles_def handle_msg_def onRevoke_def)
next
  case (MsgUserRoleChanged u)
  have "sys_step L y (y\<lparr>s_cache := dropUser L u (s_cache y)\<rparr>)" by (rule sys_step.roles_changed)
  then show ?thesis by (simp add: MsgUserRoleChanged sdk_handles_def handle_msg_def)
qed (simp_all add: sdk_handles_def handle_msg_def requestConfigReload_def refreshPolicy_def split: sum.split)

lemma got_other: "revoke_step op h = Some (h', g) \<Longrightarrow> op \<noteq> OpRecv c \<Longrightarrow> got c g = []"
  by (cases op) (auto simp: recv_at_def got_def split: prod.splits if_splits received.splits)

lemma tick_inv:
  assumes inv: "pipe_inv L A s" and st: "y = pl_sys s \<or> sys_step L (pl_sys s) y"
  shows "s_birth y t \<le> s_inval y"
    and "n \<le> s_inval y \<Longrightarrow> tick (pl_clock s) (pl_sys s) y (pl_at s) n \<le> pl_clock s"
    and "n \<le> s_inval y \<Longrightarrow> m \<le> n \<Longrightarrow> tick (pl_clock s) (pl_sys s) y (pl_at s) m \<le> tick (pl_clock s) (pl_sys s) y (pl_at s) n"
    and "pl_rev s t \<le> pl_at s (s_last (pl_sys s) t) \<Longrightarrow> pl_rev s t \<le> tick (pl_clock s) (pl_sys s) y (pl_at s) (s_last y t)"
    and "s_last y t = Suc (s_inval (pl_sys s)) \<Longrightarrow> s_inval y = Suc (s_inval (pl_sys s)) \<Longrightarrow>
      pl_rev s t \<le> tick (pl_clock s) (pl_sys s) y (pl_at s) (s_last y t)"
proof -
  let ?y = "pl_sys s" and ?at = "tick (pl_clock s) (pl_sys s) y (pl_at s)"
  note I = pipe_invD [OF inv]
  have shape: "s_inval y \<in> {s_inval ?y, Suc (s_inval ?y)}" "s_inval y = s_inval ?y \<Longrightarrow> s_last y t = s_last ?y t"
      "s_last y t \<in> {s_last ?y t, s_inval y}" "s_birth y t = s_birth ?y t \<or> s_birth y t \<le> s_inval ?y" for t
  proof -
    from st consider "y = ?y" | (stp) "sys_step L ?y y" by blast
    then have "s_inval y \<in> {s_inval ?y, Suc (s_inval ?y)} \<and> (s_inval y = s_inval ?y \<longrightarrow> s_last y t = s_last ?y t) \<and>
      s_last y t \<in> {s_last ?y t, s_inval y} \<and> (s_birth y t = s_birth ?y t \<or> s_birth y t \<le> s_inval ?y)"
    proof cases
      case stp
      then show ?thesis using sys_step_shape(1) [OF stp I(1)] sys_step_shape(2-4) [OF stp I(1), of t] by blast
    qed simp
    then show "s_inval y \<in> {s_inval ?y, Suc (s_inval ?y)}" "s_inval y = s_inval ?y \<Longrightarrow> s_last y t = s_last ?y t"
      "s_last y t \<in> {s_last ?y t, s_inval y}" "s_birth y t = s_birth ?y t \<or> s_birth y t \<le> s_inval ?y" by blast+
  qed
  have last: "s_last ?y t \<le> s_inval ?y" for t by (rule sys_invD(3) [OF I(1)])
  have old: "?at n = pl_at s n" if "n \<le> s_inval ?y" for n using that shape(1) by (auto simp: tick_def)
  have new: "?at (s_inval y) = pl_clock s" if "s_inval y = Suc (s_inval ?y)" using that by (simp add: tick_def)
  show "s_birth y t \<le> s_inval y" using shape(1) shape(4) [of t] I(2) [of t] by auto
  show bound: "?at n \<le> pl_clock s" if "n \<le> s_inval y" for n
    using that shape(1) old [of n] new I(5) [of n] le_Suc_eq by auto
  show "?at m \<le> ?at n" if "n \<le> s_inval y" "m \<le> n"
  proof (cases "n \<le> s_inval ?y")
    case True
    then show ?thesis using old I(6) [OF True that(2)] that by simp
  next
    case False
    then have "n = s_inval y" "s_inval y = Suc (s_inval ?y)" using that shape(1) by auto
    then show ?thesis using new bound [of m] that by simp
  qed
  show "pl_rev s t \<le> ?at (s_last y t)" if "pl_rev s t \<le> pl_at s (s_last ?y t)"
  proof (cases "s_last y t = s_last ?y t")
    case True
    then show ?thesis using old [OF last [of t]] that by simp
  next
    case False
    then have "s_last y t = s_inval y" "s_inval y = Suc (s_inval ?y)" using shape(1) shape(2,3) [of t] by auto
    then show ?thesis using new I(4) [of t] by simp
  qed
  show "pl_rev s t \<le> ?at (s_last y t)" if "s_last y t = Suc (s_inval ?y)" "s_inval y = Suc (s_inval ?y)"
    using new that I(4) [of t] by simp
qed

lemma pipe_signal_inv:
  assumes inv: "pipe_inv L A s" and st: "revoke_step (OpSignal sg) (pl_hub s) = Some (h, g)"
  shows "pipe_inv L A (s\<lparr>pl_hub := h, pl_clock := Suc (pl_clock s),
       pl_rev := (\<lambda>t. if revokes A t sg then Suc (pl_clock s) else pl_rev s t),
       pl_missed := (case pl_link s of
           None \<Rightarrow> pl_missed s
         | Some c \<Rightarrow> if revoke_buf h c = revoke_buf (pl_hub s) c then (\<lambda>t. pl_missed s t \<or> revokes A t sg) else pl_missed s)\<rparr>)"
    (is "pipe_inv L A ?s")
proof (rule pipe_invI)
  note I = pipe_invD [OF inv]
  have k: "revoke_inv h \<and> length (rh_chans (pl_hub s)) \<le> length (rh_chans h)" by (rule revoke_hub.keep [OF I(3) st])
  show "sys_inv L (pl_sys ?s)" "revoke_inv (pl_hub ?s)" using I(1) k by simp_all
  show "s_birth (pl_sys ?s) t \<le> s_inval (pl_sys ?s)" "pl_rev ?s t \<le> pl_clock ?s" for t using I(2,4) [of t] by simp_all
  show "pl_at ?s n \<le> pl_clock ?s" if "n \<le> s_inval (pl_sys ?s)" for n using I(5) [of n] that by simp
  show "pl_at ?s m \<le> pl_at ?s n" if "n \<le> s_inval (pl_sys ?s)" "m \<le> n" for n m using I(6) [of n m] that by simp
  fix c
  assume "pl_link ?s = Some c"
  then have c: "pl_link s = Some c" by simp
  note at = revoke_signal_at [OF I(3) st, of c]
  show "c < length (rh_chans (pl_hub ?s)) \<and> revoke_role (pl_hub ?s) c \<in> {None, Some (A, False)}"
    using I(7,8) [OF c] k at by (auto split: option.splits if_splits)
  fix t
  assume r: "revoke_role (pl_hub ?s) c \<noteq> None" and t: "\<not> pl_missed ?s t"
  have role: "revoke_role (pl_hub s) c = Some (A, False)" using r at I(8) [OF c] by auto
  have old: "(\<exists>m\<in>set (pending s c). covers t m) \<or> pl_rev s t \<le> pl_at s (s_last (pl_sys s) t)"
    using I(9) [OF c, of t] role t c by (auto split: if_splits)
  consider (none) "revoke_offer (A, False) sg = None" "revoke_buf h c = revoke_buf (pl_hub s) c"
    | (sent) e where "revoke_offer (A, False) sg = Some e" "revoke_buf h c = revoke_buf (pl_hub s) c @ [e]"
    | (full) "revoke_buf h c = revoke_buf (pl_hub s) c" "\<not> revokes A t sg"
    using at role r t c by (auto split: option.splits if_splits)
  then show "(\<exists>m\<in>set (pending ?s c). covers t m) \<or> pl_rev ?s t \<le> pl_at ?s (s_last (pl_sys ?s) t)"
  proof cases
    case none
    then show ?thesis using old by (simp add: pending_def revokes_def)
  next
    case sent
    then show ?thesis using old by (auto simp: pending_def revokes_def)
  next
    case full
    then show ?thesis using old by (simp add: pending_def)
  qed
qed

lemma pipe_sys_inv:
  assumes inv: "pipe_inv L A s" and st: "y = pl_sys s \<or> sys_step L (pl_sys s) y" and ok: "sys_inv L y"
    and wire: "\<And>t m. m \<in> set (pl_wire s) \<Longrightarrow> covers t m \<Longrightarrow> (\<exists>x\<in>set ms. covers t x) \<or>
      (s_last y t = Suc (s_inval (pl_sys s)) \<and> s_inval y = Suc (s_inval (pl_sys s)))"
  shows "pipe_inv L A (s\<lparr>pl_wire := ms, pl_sys := y, pl_at := tick (pl_clock s) (pl_sys s) y (pl_at s)\<rparr>)"
    (is "pipe_inv L A ?s")
proof (rule pipe_invI)
  note I = pipe_invD [OF inv] and T = tick_inv [OF inv st]
  show "sys_inv L (pl_sys ?s)" "revoke_inv (pl_hub ?s)" using ok I(3) by simp_all
  show "s_birth (pl_sys ?s) t \<le> s_inval (pl_sys ?s)" "pl_rev ?s t \<le> pl_clock ?s" for t using T(1) I(4) [of t] by simp_all
  show "pl_at ?s n \<le> pl_clock ?s" if "n \<le> s_inval (pl_sys ?s)" for n using T(2) [of n] that by simp
  show "pl_at ?s m \<le> pl_at ?s n" if "n \<le> s_inval (pl_sys ?s)" "m \<le> n" for n m using T(3) [of n m] that by simp
  fix c
  assume "pl_link ?s = Some c"
  then have c: "pl_link s = Some c" by simp
  show "c < length (rh_chans (pl_hub ?s)) \<and> revoke_role (pl_hub ?s) c \<in> {None, Some (A, False)}"
    using I(7,8) [OF c] by simp
  fix t
  assume "revoke_role (pl_hub ?s) c \<noteq> None" and "\<not> pl_missed ?s t"
  then consider m where "m \<in> set (pl_wire s)" "covers t m" | m where "m \<in> set (map msg_of (revoke_buf (pl_hub s) c))" "covers t m"
    | "pl_rev s t \<le> pl_at s (s_last (pl_sys s) t)"
    using I(9) [OF c, of t] by (auto simp: pending_def)
  then show "(\<exists>m\<in>set (pending ?s c). covers t m) \<or> pl_rev ?s t \<le> pl_at ?s (s_last (pl_sys ?s) t)"
  proof cases
    case 1
    then show ?thesis using wire [OF 1] T(5) [of t] by (auto simp: pending_def)
  next
    case 2
    then show ?thesis by (auto simp: pending_def)
  next
    case 3
    then show ?thesis using T(4) [of t] by simp
  qed
qed

text \<open>Operations of the hub that are neither a signal nor a receive of the stream in question.\<close>

lemma pipe_hub_inv:
  assumes inv: "pipe_inv L A s" and st: "revoke_step op (pl_hub s) = Some (h, g)" and "\<And>sg. op \<noteq> OpSignal sg"
    and mine: "\<And>c. pl_link s = Some c \<Longrightarrow> op \<noteq> OpRecv c"
  shows "pipe_inv L A (s\<lparr>pl_hub := h\<rparr>)" (is "pipe_inv L A ?s")
proof (rule pipe_invI)
  note I = pipe_invD [OF inv]
  have k: "revoke_inv h \<and> length (rh_chans (pl_hub s)) \<le> length (rh_chans h)" by (rule revoke_hub.keep [OF I(3) st])
  show "sys_inv L (pl_sys ?s)" "revoke_inv (pl_hub ?s)" using I(1) k by simp_all
  show "s_birth (pl_sys ?s) t \<le> s_inval (pl_sys ?s)" "pl_rev ?s t \<le> pl_clock ?s" for t using I(2,4) [of t] by simp_all
  show "pl_at ?s n \<le> pl_clock ?s" if "n \<le> s_inval (pl_sys ?s)" for n using I(5) [of n] that by simp
  show "pl_at ?s m \<le> pl_at ?s n" if "n \<le> s_inval (pl_sys ?s)" "m \<le> n" for n m using I(6) [of n m] that by simp
  fix c
  assume "pl_link ?s = Some c"
  then have c: "pl_link s = Some c" by simp
  have law: "revoke_role h c \<in> {None, revoke_role (pl_hub s) c} \<and> revoke_buf h c = revoke_buf (pl_hub s) c"
    using revoke_step_law(2) [OF I(3) st I(7) [OF c] assms(3)] got_other [OF st mine [OF c]] by simp
  then show "c < length (rh_chans (pl_hub ?s)) \<and> revoke_role (pl_hub ?s) c \<in> {None, Some (A, False)}"
    using I(7,8) [OF c] k by auto
  fix t
  assume "revoke_role (pl_hub ?s) c \<noteq> None" and "\<not> pl_missed ?s t"
  then show "(\<exists>m\<in>set (pending ?s c). covers t m) \<or> pl_rev ?s t \<le> pl_at ?s (s_last (pl_sys ?s) t)"
    using I(9) [OF c, of t] law by (auto simp: pending_def)
qed

lemma covers_invalidates: "covers t m \<Longrightarrow> invalidates m"
  by (cases m) simp_all

lemma pipe_step_inv:
  assumes "pipe_step L A s s'" and inv: "pipe_inv L A s" and "lru_laws L" and "s_inval (pl_sys s') < 2 ^ 64"
  shows "pipe_inv L A s'"
  using assms(1)
proof cases
  case (pipe_signal sg h g)
  then show ?thesis using pipe_signal_inv [OF inv pipe_signal(2)] by simp
next
  case (pipe_connect c i h)
  note I = pipe_invD [OF inv]
  have "revoke_step (OpSubscribe A False) (pl_hub s) = Some (h, [])" using pipe_connect(3) by simp
  from revoke_hub.keep [OF I(3) this] have k: "revoke_inv h" by blast
  note r = subscribed_role [OF I(3) pipe_connect(3)]
  show ?thesis unfolding pipe_connect(1)
    by (rule pipe_invI) (use I k r in \<open>auto simp: pending_def\<close>)
next
  case (pipe_forward c h e get_app cache r m cache' r')
  note I = pipe_invD [OF inv] and st = pipe_forward(3)
  have k: "revoke_inv h \<and> length (rh_chans (pl_hub s)) \<le> length (rh_chans h)" by (rule revoke_hub.keep [OF I(3) st])
  have law: "revoke_role h c \<in> {None, revoke_role (pl_hub s) c} \<and> e # revoke_buf h c = revoke_buf (pl_hub s) c"
    using revoke_step_law(2) [OF I(3) st I(7) [OF pipe_forward(2)]] by (simp add: got_def)
  have m: "m = msg_of e" using pipe_forward(4) by (simp add: watch_event_business)
  have p: "pending (s\<lparr>pl_hub := h, pl_wire := pl_wire s @ [m]\<rparr>) c = pending s c"
    using law m by (simp add: pending_def flip: conjunct2 [OF law])
  show ?thesis unfolding pipe_forward(1)
  proof (rule pipe_invI)
    fix d t
    assume "pl_link (s\<lparr>pl_hub := h, pl_wire := pl_wire s @ [m]\<rparr>) = Some d"
    then have d: "d = c" using pipe_forward(2) by simp
    show "d < length (rh_chans (pl_hub (s\<lparr>pl_hub := h, pl_wire := pl_wire s @ [m]\<rparr>))) \<and>
        revoke_role (pl_hub (s\<lparr>pl_hub := h, pl_wire := pl_wire s @ [m]\<rparr>)) d \<in> {None, Some (A, False)}"
      using I(7,8) [OF pipe_forward(2)] k law d by auto
    show "(\<exists>x\<in>set (pending (s\<lparr>pl_hub := h, pl_wire := pl_wire s @ [m]\<rparr>) d). covers t x) \<or>
        pl_rev (s\<lparr>pl_hub := h, pl_wire := pl_wire s @ [m]\<rparr>) t \<le>
        pl_at (s\<lparr>pl_hub := h, pl_wire := pl_wire s @ [m]\<rparr>) (s_last (pl_sys (s\<lparr>pl_hub := h, pl_wire := pl_wire s @ [m]\<rparr>)) t)"
      if "revoke_role (pl_hub (s\<lparr>pl_hub := h, pl_wire := pl_wire s @ [m]\<rparr>)) d \<noteq> None"
        "\<not> pl_missed (s\<lparr>pl_hub := h, pl_wire := pl_wire s @ [m]\<rparr>) t"
      using I(9) [OF pipe_forward(2), of t] that law d unfolding d p by auto
  qed (use I k in auto)
next
  case (pipe_hub op h g)
  then show ?thesis using pipe_hub_inv [OF inv pipe_hub(2-4)] by simp
next
  case (pipe_receive m ms y cb pol cl)
  have st: "y = pl_sys s \<or> sys_step L (pl_sys s) y" using sdk_handles_step pipe_receive(3) by blast
  have ok: "sys_inv L y"
    using st lru_laws.sys_step_inv [OF assms(3)] pipe_invD(1) [OF inv] assms(4) pipe_receive(1) by auto
  show ?thesis unfolding pipe_receive(1)
    by (rule pipe_sys_inv [OF inv st ok]) (use pipe_receive(2,3) covers_invalidates in \<open>auto simp: sdk_handles_def\<close>)
next
  case (pipe_local y)
  have ok: "sys_inv L y"
    using lru_laws.sys_step_inv [OF assms(3) pipe_local(2) pipe_invD(1) [OF inv]] assms(4) pipe_local(1) by simp
  have "pipe_inv L A (s\<lparr>pl_wire := pl_wire s, pl_sys := y, pl_at := tick (pl_clock s) (pl_sys s) y (pl_at s)\<rparr>)"
    by (rule pipe_sys_inv [OF inv _ ok]) (use pipe_local(2) in auto)
  then show ?thesis unfolding pipe_local(1) by simp
next
  case pipe_disconnect
  show ?thesis unfolding pipe_disconnect by (rule pipe_invI) (use pipe_invD [OF inv] in auto)
qed

lemma sys_inval_mono_pipe: "pipe_step L A s s' \<Longrightarrow> lru_laws L \<Longrightarrow> s_inval (pl_sys s) \<le> s_inval (pl_sys s')"
  by (cases rule: pipe_step.cases) (auto simp: sdk_handles_def lru_laws.sys_step_inval_mono)

lemma pipe_init_inv:
  assumes "\<And>k. lru_Peek L k l = None"
  shows "pipe_inv L A (pipe_init l)"
  by (rule pipe_invI) (use assms new_hubs_ok(1) in \<open>auto simp: pipe_init_def sys_inv_def sys_init_def\<close>)

lemma pipe_run_inv:
  assumes "(pipe_step L A)\<^sup>*\<^sup>* (pipe_init l) s" and "lru_laws L" and "\<And>k. lru_Peek L k l = None" and "s_inval (pl_sys s) < 2 ^ 64"
  shows "pipe_inv L A s"
  using assms(1,4)
proof (induction rule: rtranclp_induct)
  case base
  show ?case by (rule pipe_init_inv [OF assms(3)])
next
  case (step s s')
  then have "s_inval (pl_sys s) < 2 ^ 64" using sys_inval_mono_pipe [OF _ assms(2)] by fastforce
  with step pipe_step_inv [OF _ _ assms(2)] show ?case by blast
qed

section \<open>Revocations arrive\<close>


text \<open>The steps as functions, to evaluate a run.\<close>

definition do_signal :: "uuid \<Rightarrow> RevokeSignal \<Rightarrow> 'l pipe \<Rightarrow> 'l pipe" where
  "do_signal A sg s =
     (let h = fst (the (revoke_step (OpSignal sg) (pl_hub s))) in
      s\<lparr>pl_hub := h, pl_clock := Suc (pl_clock s),
       pl_rev := (\<lambda>t. if revokes A t sg then Suc (pl_clock s) else pl_rev s t),
       pl_missed := (case pl_link s of
           None \<Rightarrow> pl_missed s
         | Some c \<Rightarrow> if revoke_buf h c = revoke_buf (pl_hub s) c then (\<lambda>t. pl_missed s t \<or> revokes A t sg) else pl_missed s)\<rparr>)"

definition do_connect :: "uuid \<Rightarrow> 'l pipe \<Rightarrow> 'l pipe" where
  "do_connect A s = (case subscribeWith A False (pl_hub s) of
     (c, i, h) \<Rightarrow> s\<lparr>pl_hub := h, pl_link := Some c, pl_wire := [MsgReady], pl_missed := (\<lambda>_. False)\<rparr>)"

definition do_forward :: "'l pipe \<Rightarrow> 'l pipe" where
  "do_forward s = (case pl_link s of
     Some c \<Rightarrow> (case revoke_step (OpRecv c) (pl_hub s) of
         Some (h, [(d, e)]) \<Rightarrow> s\<lparr>pl_hub := h, pl_wire := pl_wire s @ [msg_of e]\<rparr> | _ \<Rightarrow> s) | None \<Rightarrow> s)"

definition do_local :: "'l sys \<Rightarrow> 'l pipe \<Rightarrow> 'l pipe" where
  "do_local y s = s\<lparr>pl_sys := y, pl_at := tick (pl_clock s) (pl_sys s) y (pl_at s)\<rparr>"

definition do_receive :: "('l, 'ip entry) lru_ops \<Rightarrow> 'l pipe \<Rightarrow> 'l pipe" where
  "do_receive L s = (case pl_wire s of [] \<Rightarrow> s | m # ms \<Rightarrow>
     (do_local (sdk_handles L False (Inl \<lparr>st_code = Unimplemented, st_detail = None\<rparr>) m
        \<lparr>cl_cache = s_cache (pl_sys s), cl_authz = newAuthz, cl_streamUp = True, cl_cfgReload = False\<rparr> (pl_sys s)) s)\<lparr>pl_wire := ms\<rparr>)"

definition do_launch :: "string \<Rightarrow> 'l pipe \<Rightarrow> 'l pipe" where
  "do_launch t s = do_local ((pl_sys s)\<lparr>s_flights := (t, generation (s_cache (pl_sys s)), s_inval (pl_sys s)) # s_flights (pl_sys s)\<rparr>) s"

definition do_land :: "('l, 'ip entry) lru_ops \<Rightarrow> 'ip entry \<Rightarrow> int \<Rightarrow> 'l pipe \<Rightarrow> 'l pipe" where
  "do_land L e ttl s = (let y = pl_sys s in case s_flights y of [] \<Rightarrow> s | (t, g, n) # fs \<Rightarrow>
     do_local (y\<lparr>s_cache := putIfGen L 0 t e ttl g (s_cache y), s_flights := remove1 (t, g, n) (s_flights y),
       s_birth := (if gen (s_cache y) = g \<and> 0 < ttl then (s_birth y)(t := n) else s_birth y)\<rparr>) s)"

lemma pipe_more:
  assumes "(pipe_step L A)\<^sup>*\<^sup>* s0 s"
  shows "revoke_step (OpSignal sg) (pl_hub s) \<noteq> None \<Longrightarrow> (pipe_step L A)\<^sup>*\<^sup>* s0 (do_signal A sg s)"
    and "pl_link s = None \<Longrightarrow> \<not> rh_closed (pl_hub s) \<Longrightarrow> (pipe_step L A)\<^sup>*\<^sup>* s0 (do_connect A s)"
    and "(pipe_step L A)\<^sup>*\<^sup>* s0 (do_forward s)"
    and "(pipe_step L A)\<^sup>*\<^sup>* s0 (do_receive L s)"
    and "(pipe_step L A)\<^sup>*\<^sup>* s0 (do_launch t s)"
    and "(pipe_step L A)\<^sup>*\<^sup>* s0 (do_land L e ttl s)"
proof -
  note more = rtranclp.rtrancl_into_rtrancl [OF assms]
  show "(pipe_step L A)\<^sup>*\<^sup>* s0 (do_signal A sg s)" if ok: "revoke_step (OpSignal sg) (pl_hub s) \<noteq> None"
  proof -
    from ok obtain p where p: "revoke_step (OpSignal sg) (pl_hub s) = Some p" by blast
    then have "revoke_step (OpSignal sg) (pl_hub s) = Some (fst p, snd p)" by (simp only: prod.collapse)
    from more [OF pipe_signal [OF this]] show ?thesis by (simp only: do_signal_def Let_def p option.sel)
  qed
  show "(pipe_step L A)\<^sup>*\<^sup>* s0 (do_connect A s)" if "pl_link s = None" "\<not> rh_closed (pl_hub s)"
    using more [OF pipe_connect [OF that(1)]] that(2) by (simp add: do_connect_def subscribeWith_def Let_def)
  show "(pipe_step L A)\<^sup>*\<^sup>* s0 (do_forward s)"
  proof (cases "\<exists>c h e. pl_link s = Some c \<and> revoke_step (OpRecv c) (pl_hub s) = Some (h, [(c, e)])")
    case True
    then obtain c h e where c: "pl_link s = Some c" "revoke_step (OpRecv c) (pl_hub s) = Some (h, [(c, e)])" by blast
    have "do_forward s = s\<lparr>pl_hub := h, pl_wire := pl_wire s @ [msg_of e]\<rparr>" using c by (simp add: do_forward_def)
    then show ?thesis using more [OF pipe_forward [OF c watch_event_business]] by simp
  next
    case False
    then have "do_forward s = s"
      by (auto simp: do_forward_def recv_at_def split: option.splits prod.splits list.splits received.splits if_splits)
    then show ?thesis using assms by simp
  qed
  show "(pipe_step L A)\<^sup>*\<^sup>* s0 (do_receive L s)"
  proof (cases "pl_wire s")
    case (Cons m ms)
    let ?y = "sdk_handles L False (Inl \<lparr>st_code = Unimplemented, st_detail = None\<rparr>) m
        \<lparr>cl_cache = s_cache (pl_sys s), cl_authz = newAuthz, cl_streamUp = True, cl_cfgReload = False\<rparr> (pl_sys s)"
    have "do_receive L s = s\<lparr>pl_wire := ms, pl_sys := ?y, pl_at := tick (pl_clock s) (pl_sys s) ?y (pl_at s)\<rparr>"
      by (simp add: do_receive_def do_local_def Cons)
    then show ?thesis using more [OF pipe_receive [OF Cons HOL.refl]] by (simp only:)
  qed (use assms in \<open>simp add: do_receive_def\<close>)
  show "(pipe_step L A)\<^sup>*\<^sup>* s0 (do_launch t s)"
    unfolding do_launch_def do_local_def by (intro more pipe_local sys_step.launch)
  show "(pipe_step L A)\<^sup>*\<^sup>* s0 (do_land L e ttl s)"
  proof (cases "s_flights (pl_sys s)")
    case (Cons f fs)
    obtain t g n where f: "f = (t, g, n)" by (cases f) auto
    have "(t, g, n) \<in> set (s_flights (pl_sys s))" using Cons f by simp
    from more [OF pipe_local [OF sys_step.land [OF this]]] show ?thesis
      by (simp add: do_land_def do_local_def Cons f Let_def)
  qed (use assms in \<open>simp add: do_land_def\<close>)
qed

text \<open>A token is cached, revoked while a stream is up, and validated again (for another session) afterwards.\<close>

definition demo_L :: "((string \<times> unit entry) list, unit entry) lru_ops" where "demo_L = list_lru 3"

definition demo_pipe1 :: "(string \<times> unit entry) list pipe" where
  "demo_pipe1 = do_land demo_L (demo_entry ''u'' []) 5 (do_launch ''t'' (do_receive demo_L (do_connect ''A'' (pipe_init []))))"

definition demo_pipe2 :: "(string \<times> unit entry) list pipe" where
  "demo_pipe2 = do_receive demo_L (do_forward (do_signal ''A'' (demo_revocation ''A'') demo_pipe1))"

definition demo_pipe3 :: "(string \<times> unit entry) list pipe" where
  "demo_pipe3 = do_land demo_L (demo_entry ''u'' []) 5 (do_launch ''t'' demo_pipe2)"

lemma demo_pipe_reached: "(pipe_step demo_L ''A'')\<^sup>*\<^sup>* (pipe_init []) demo_pipe3"
proof -
  let ?reached = "(pipe_step demo_L ''A'')\<^sup>*\<^sup>* (pipe_init [])"
  have "?reached (pipe_init [])" by simp
  moreover have "pl_link (pipe_init [] :: (string \<times> unit entry) list pipe) = None"
    and "\<not> rh_closed (pl_hub (pipe_init [] :: (string \<times> unit entry) list pipe))"
    by (simp_all add: pipe_init_def newRevokeHub_def)
  ultimately have "?reached (do_connect ''A'' (pipe_init []))" by (rule pipe_more(2))
  note p1 = pipe_more(6) [OF pipe_more(5) [OF pipe_more(4) [OF this]]]
  then have "?reached demo_pipe1" by (simp only: demo_pipe1_def)
  moreover have "revoke_step (OpSignal (demo_revocation ''A'')) (pl_hub demo_pipe1) \<noteq> None" by code_simp
  ultimately have "?reached (do_signal ''A'' (demo_revocation ''A'') demo_pipe1)" by (rule pipe_more(1))
  from pipe_more(4) [OF pipe_more(3) [OF this]] have "?reached demo_pipe2" by (simp only: demo_pipe2_def)
  from pipe_more(6) [OF pipe_more(5) [OF this]] show ?thesis by (simp only: demo_pipe3_def)
qed

lemma demo_pipe3_evaluated:
  "pl_link demo_pipe3 = Some 0" "s_inval (pl_sys demo_pipe3) = 2" "map (rs_ch \<circ> snd) (rh_subs (pl_hub demo_pipe3)) = [0]"
  "pending demo_pipe3 0 = []" "pl_rev demo_pipe3 ''t'' = 1"
  "\<not> pl_missed demo_pipe3 ''t''"
  "lru_Peek demo_L ''t'' (lru (s_cache (pl_sys demo_pipe3))) \<noteq> None"
  by code_simp+


end
