(* ===== verification/Session_Store.thy ===== *)
theory Session_Store
  imports Redis Domain
begin

text \<open>
  The Redis-backed stores of \<^verbatim>\<open>internal/store\<close>: sessions and their per-user index, rotation
  mappings and locks (\<^verbatim>\<open>session.go\<close>), user epochs (\<^verbatim>\<open>epoch.go\<close>), the rate limiter
  (\<^verbatim>\<open>ratelimit.go\<close>) and the publishing side of the revocation channel (\<^verbatim>\<open>revoke.go\<close>). The JSON
  codec is a parameter of the opaque document type.
\<close>

section \<open>Parameters\<close>

record ('r, 'j) store_env =
  rd :: "('r, 'j) redis"
  marshal_sess :: "Session \<Rightarrow> 'j option"
  unmarshal_sess :: "'j \<Rightarrow> Session option"
  marshal_event :: "RevokeEvent \<Rightarrow> 'j option"

definition sessionKeyPrefix :: string where "sessionKeyPrefix = ''fp:sess:''"
definition userSessionsPrefix :: string where "userSessionsPrefix = ''fp:usess:''"
definition sessionLockPrefix :: string where "sessionLockPrefix = ''fp:lock:''"
definition rotationPrefix :: string where "rotationPrefix = ''fp:rot:''"

definition CodeSessionNotFound :: string where "CodeSessionNotFound = ''SESSION_NOT_FOUND''"

abbreviation internal_error :: goerr where
  "internal_error \<equiv> DomainErr ErrInternal CodeInternal"

abbreviation session_not_found :: goerr where
  "session_not_found \<equiv> DomainErr ErrNotFound CodeSessionNotFound"

section \<open>Sessions (\<^verbatim>\<open>session.go\<close>)\<close>

definition Put :: "('r, 'j, 'z) store_env_scheme \<Rightarrow> Session \<Rightarrow> int \<Rightarrow> ('r, unit) io" where
  "Put E sess ttl =
     (if ttl \<le> 0 then throw internal_error
      else case marshal_sess E sess of
        None \<Rightarrow> throw (Wrapped ''store: marshal session'')
      | Some raw \<Rightarrow>
          let indexTTL = (if ttl < 7 * 24 * 3600 * ns_per_s then 7 * 24 * 3600 * ns_per_s else ttl)
          in bindE (rd E [SET (sessionKeyPrefix @ Token sess) (RJson raw) ttl,
                          SADD (userSessionsPrefix @ sess_UserID sess) (Token sess),
                          EXPIRE (userSessionsPrefix @ sess_UserID sess) indexTTL])
               (\<lambda>_. ret ()))"

definition Get :: "('r, 'j, 'z) store_env_scheme \<Rightarrow> string \<Rightarrow> ('r, Session) io" where
  "Get E token =
     bindE (cmd1 (rd E) (GET (sessionKeyPrefix @ token))) (\<lambda>x. case x of
       ReplyNil \<Rightarrow> throw session_not_found
     | ReplyVal (RJson raw) \<Rightarrow>
         (case unmarshal_sess E raw of None \<Rightarrow> throw (Wrapped ''store: parse session'') | Some sess \<Rightarrow> ret sess)
     | _ \<Rightarrow> throw (Wrapped ''store: parse session''))"

definition Delete :: "('r, 'j, 'z) store_env_scheme \<Rightarrow> string \<Rightarrow> ('r, unit) io" where
  "Delete E token =
     tryE (Get E token) (\<lambda>res.
       case res of
         Inl e \<Rightarrow>
           if errors_Is e ErrNotFound
           then bindE (rd E [DEL [sessionKeyPrefix @ token]]) (\<lambda>_. ret ())
           else throw e
       | Inr sess \<Rightarrow>
           bindE (rd E [DEL [sessionKeyPrefix @ token],
                        SREM (userSessionsPrefix @ sess_UserID sess) [token]]) (\<lambda>_. ret ()))"

definition redisBatchSize :: nat where "redisBatchSize = 500"

text \<open>
  \<^verbatim>\<open>chunkStrings\<close> and \<^verbatim>\<open>chunkAny\<close>: the loop cuts off \<^verbatim>\<open>size\<close> elements while more than \<^verbatim>\<open>size\<close>
  are left. Every caller passes \<^verbatim>\<open>redisBatchSize\<close>; with size 0 the Go loop would not end, which the
  guard \<^verbatim>\<open>0 < sz\<close> excludes here.
\<close>

function chunkStrings :: "'a list \<Rightarrow> nat \<Rightarrow> 'a list list" where
  "chunkStrings xs sz =
     (if 0 < sz \<and> sz < length xs then take sz xs # chunkStrings (List.drop sz xs) sz
      else if xs \<noteq> [] then [xs] else [])"
  by pat_completeness auto
termination by (relation "measure (\<lambda>(xs, sz). length xs)") auto

declare chunkStrings.simps [simp del]

definition chunkAny :: "'a list \<Rightarrow> nat \<Rightarrow> 'a list list" where
  "chunkAny = chunkStrings"

text \<open>\<^verbatim>\<open>ListUserTokens\<close>: the first loop reads the batches, the second removes dangling members.\<close>

fun scan_batches ::
  "('r, 'j, 'z) store_env_scheme \<Rightarrow> string list list \<Rightarrow> string list \<Rightarrow> string list \<Rightarrow>
     ('r, string list \<times> string list) io" where
  "scan_batches E [] alive dangling = ret (alive, dangling)"
| "scan_batches E (batch # bs) alive dangling =
     bindE (cmd1 (rd E) (MGET (map (\<lambda>t. sessionKeyPrefix @ t) batch))) (\<lambda>x.
       case x of
         ReplyVals vs \<Rightarrow>
           scan_batches E bs
             (alive @ map fst (filter (\<lambda>p. snd p \<noteq> None) (zip batch vs)))
             (dangling @ map fst (filter (\<lambda>p. snd p = None) (zip batch vs)))
       | _ \<Rightarrow> throw (Wrapped ''store: mget''))"

fun srem_batches ::
  "('r, 'j, 'z) store_env_scheme \<Rightarrow> string \<Rightarrow> string list list \<Rightarrow> ('r, unit) io" where
  "srem_batches E indexKey [] = ret ()"
| "srem_batches E indexKey (batch # bs) =
     tryE (cmd1 (rd E) (SREM indexKey batch)) (\<lambda>res.
       case res of Inl _ \<Rightarrow> ret () | Inr _ \<Rightarrow> srem_batches E indexKey bs)"

definition ListUserTokens :: "('r, 'j, 'z) store_env_scheme \<Rightarrow> uuid \<Rightarrow> ('r, string list) io" where
  "ListUserTokens E userID =
     (let indexKey = userSessionsPrefix @ userID
      in bindE (cmd1 (rd E) (SMEMBERS indexKey)) (\<lambda>x. case x of
           ReplyMembers tokens \<Rightarrow>
             if tokens = [] then ret []
             else bindE (scan_batches E (chunkStrings tokens redisBatchSize) [] []) (\<lambda>(alive, dangling).
                    bindE (srem_batches E indexKey (chunkAny dangling redisBatchSize)) (\<lambda>_. ret alive))
         | _ \<Rightarrow> throw (Wrapped ''store: smembers'')))"

text \<open>\<^verbatim>\<open>DeleteUserTokens\<close> returns the count and the error side by side.\<close>

fun delete_batches ::
  "('r, 'j, 'z) store_env_scheme \<Rightarrow> uuid \<Rightarrow> string list list \<Rightarrow> int \<Rightarrow> 'r \<Rightarrow> (int \<times> goerr option) \<times> 'r" where
  "delete_batches E userID [] deleted w = ((deleted, None), w)"
| "delete_batches E userID (batch # bs) deleted w =
     (case rd E [DEL (map (\<lambda>t. sessionKeyPrefix @ t) batch), SREM (userSessionsPrefix @ userID) batch] w of
        (Inl e, w1) \<Rightarrow> ((deleted, Some e), w1)
      | (Inr rs, w1) \<Rightarrow>
          delete_batches E userID bs (deleted + (case rs of ReplyInt n # _ \<Rightarrow> n | _ \<Rightarrow> 0)) w1)"

definition DeleteUserTokens ::
  "('r, 'j, 'z) store_env_scheme \<Rightarrow> uuid \<Rightarrow> 'r \<Rightarrow> (int \<times> goerr option) \<times> 'r" where
  "DeleteUserTokens E userID w =
     (case ListUserTokens E userID w of
        (Inl e, w1) \<Rightarrow> ((0, Some e), w1)
      | (Inr tokens, w1) \<Rightarrow>
          if tokens = [] then ((0, None), w1)
          else delete_batches E userID (chunkStrings tokens redisBatchSize) 0 w1)"

definition TryLock :: "('r, 'j, 'z) store_env_scheme \<Rightarrow> string \<Rightarrow> int \<Rightarrow> ('r, bool) io" where
  "TryLock E key ttl =
     bindE (cmd1 (rd E) (SETNX (sessionLockPrefix @ key) (RStr ''1'') ttl)) (\<lambda>x. ret (x = ReplyInt 1))"

definition PutRotation :: "('r, 'j, 'z) store_env_scheme \<Rightarrow> string \<Rightarrow> string \<Rightarrow> int \<Rightarrow> ('r, unit) io" where
  "PutRotation E oldToken newToken ttl =
     (if ttl \<le> 0 then throw internal_error
      else bindE (cmd1 (rd E) (SET (rotationPrefix @ oldToken) (RStr newToken) ttl)) (\<lambda>_. ret ()))"

definition RotatedTo :: "('r, 'j, 'z) store_env_scheme \<Rightarrow> string \<Rightarrow> ('r, string) io" where
  "RotatedTo E oldToken =
     bindE (cmd1 (rd E) (GET (rotationPrefix @ oldToken))) (\<lambda>x. case x of
       ReplyNil \<Rightarrow> ret []
     | ReplyVal (RStr v) \<Rightarrow> ret v
     | _ \<Rightarrow> throw (Wrapped ''store: rotation''))"

section \<open>Epochs (\<^verbatim>\<open>epoch.go\<close>)\<close>

definition epochKey :: "uuid \<Rightarrow> string" where
  "epochKey userID = ''fp:epoch:'' @ userID"

definition Current :: "('r, 'j, 'z) store_env_scheme \<Rightarrow> uuid \<Rightarrow> ('r, int) io" where
  "Current E userID =
     bindE (cmd1 (rd E) (GET (epochKey userID))) (\<lambda>x. case x of
       ReplyNil \<Rightarrow> ret 0
     | ReplyVal (RStr v) \<Rightarrow>
         (case ParseInt v of None \<Rightarrow> throw (Wrapped ''store: epoch'') | Some n \<Rightarrow> ret n)
     | _ \<Rightarrow> throw (Wrapped ''store: epoch''))"

definition Bump :: "('r, 'j, 'z) store_env_scheme \<Rightarrow> uuid \<Rightarrow> ('r, int) io" where
  "Bump E userID =
     bindE (cmd1 (rd E) (INCR (epochKey userID))) (\<lambda>x. case x of
       ReplyInt n \<Rightarrow> ret n | _ \<Rightarrow> throw (Wrapped ''store: epoch''))"

section \<open>Rate limiting (\<^verbatim>\<open>ratelimit.go\<close>)\<close>

text \<open>The Lua script: \<^verbatim>\<open>INCR\<close>, on the first hit \<^verbatim>\<open>PEXPIRE\<close>, then \<^verbatim>\<open>PTTL\<close>.\<close>

definition allowScript :: "string \<Rightarrow> int \<Rightarrow> 'j redis_state \<Rightarrow> 'j redis_reply list \<times> 'j redis_state" where
  "allowScript key window_ms s =
     (case exec_cmd (INCR key) s of (c, s1) \<Rightarrow>
        if c = ReplyErr then ([ReplyErr], s1)
        else let s2 = (if c = ReplyInt 1 then snd (exec_cmd (EXPIRE key (window_ms * ns_per_ms)) s1) else s1)
             in case exec_cmd (PTTL key) s2 of (t, s3) \<Rightarrow> ([c, t], s3))"

definition RateLimiter_Allow ::
  "('r, 'j, 'z) store_env_scheme \<Rightarrow> string \<Rightarrow> int \<Rightarrow> int \<Rightarrow> ('r, bool \<times> int) io" where
  "RateLimiter_Allow E key window limit =
     bindE (cmd1 (rd E) (EVAL (allowScript (''fp:rl:'' @ key) (Milliseconds window)))) (\<lambda>x.
       case x of
         ReplyArr [c, t] \<Rightarrow>
           let count = (case c of ReplyInt n \<Rightarrow> n | _ \<Rightarrow> 0);
               pttl = (case t of ReplyInt n \<Rightarrow> n | _ \<Rightarrow> 0)
           in if count > limit
              then let retryAfter = dur_millis pttl in ret (False, if retryAfter < 0 then 0 else retryAfter)
              else ret (True, 0)
       | _ \<Rightarrow> throw (Wrapped ''store: rate limit''))"

section \<open>Revocation channel (\<^verbatim>\<open>revoke.go\<close>)\<close>

definition revokeChannel :: string where "revokeChannel = ''fp:revoke''"

definition Publish :: "('r, 'j, 'z) store_env_scheme \<Rightarrow> RevokeEvent \<Rightarrow> ('r, unit) io" where
  "Publish E ev =
     (case marshal_event E ev of
        None \<Rightarrow> throw (Wrapped ''store: marshal event'')
      | Some raw \<Rightarrow> bindE (cmd1 (rd E) (PUBLISH revokeChannel raw)) (\<lambda>_. ret ()))"

section \<open>What the stores observe and keep\<close>

definition sess_at :: "('r, 'j, 'z) store_env_scheme \<Rightarrow> 'j redis_state \<Rightarrow> string \<Rightarrow> Session option" where
  "sess_at E st t =
     (case rs_kv st (sessionKeyPrefix @ t) of Some (RJson j, _) \<Rightarrow> unmarshal_sess E j | _ \<Rightarrow> None)"

definition user_index :: "'j redis_state \<Rightarrow> uuid \<Rightarrow> string set" where
  "user_index st u =
     (case set_members (rs_kv st (userSessionsPrefix @ u)) of Some ms \<Rightarrow> set ms | None \<Rightarrow> {})"

definition epoch_at :: "'j redis_state \<Rightarrow> uuid \<Rightarrow> int option" where
  "epoch_at st u = counter_value (rs_kv st (epochKey u))"

definition rotation_at :: "'j redis_state \<Rightarrow> string \<Rightarrow> string option" where
  "rotation_at st t =
     (case rs_kv st (rotationPrefix @ t) of Some (RStr v, _) \<Rightarrow> Some v | _ \<Rightarrow> None)"

lemmas key_defs = sessionKeyPrefix_def userSessionsPrefix_def sessionLockPrefix_def rotationPrefix_def epochKey_def

lemma key_spaces_disjoint [simp]:
  "sessionKeyPrefix @ a \<noteq> userSessionsPrefix @ b" "userSessionsPrefix @ b \<noteq> sessionKeyPrefix @ a"
  "sessionKeyPrefix @ a \<noteq> sessionLockPrefix @ b" "sessionLockPrefix @ b \<noteq> sessionKeyPrefix @ a"
  "sessionKeyPrefix @ a \<noteq> rotationPrefix @ b" "rotationPrefix @ b \<noteq> sessionKeyPrefix @ a"
  "sessionKeyPrefix @ a \<noteq> epochKey b" "epochKey b \<noteq> sessionKeyPrefix @ a"
  "userSessionsPrefix @ a \<noteq> sessionLockPrefix @ b" "sessionLockPrefix @ b \<noteq> userSessionsPrefix @ a"
  "userSessionsPrefix @ a \<noteq> rotationPrefix @ b" "rotationPrefix @ b \<noteq> userSessionsPrefix @ a"
  "userSessionsPrefix @ a \<noteq> epochKey b" "epochKey b \<noteq> userSessionsPrefix @ a"
  "rotationPrefix @ a \<noteq> sessionLockPrefix @ b" "sessionLockPrefix @ b \<noteq> rotationPrefix @ a"
  "rotationPrefix @ a \<noteq> epochKey b" "epochKey b \<noteq> rotationPrefix @ a"
  "sessionLockPrefix @ a \<noteq> epochKey b" "epochKey b \<noteq> sessionLockPrefix @ a"
  "epochKey a = epochKey b \<longleftrightarrow> a = b"
  "rotationPrefix \<noteq> sessionKeyPrefix" "sessionKeyPrefix \<noteq> rotationPrefix"
  "userSessionsPrefix \<noteq> sessionKeyPrefix" "sessionKeyPrefix \<noteq> userSessionsPrefix"
  by (simp_all add: key_defs)

text \<open>
  The invariant of the store: every stored session decodes, sits under its own token and is in the
  index of its user; index keys hold sets and epoch keys hold counters.
\<close>

definition store_wf :: "('r, 'j, 'z) store_env_scheme \<Rightarrow> 'j redis_state \<Rightarrow> bool" where
  "store_wf E st \<longleftrightarrow>
     (\<forall>t v ttl. rs_kv st (sessionKeyPrefix @ t) = Some (v, ttl) \<longrightarrow>
        (\<exists>s. sess_at E st t = Some s \<and> Token s = t \<and> t \<in> user_index st (sess_UserID s))) \<and>
     (\<forall>u. set_members (rs_kv st (userSessionsPrefix @ u)) \<noteq> None) \<and>
     (\<forall>u. epoch_at st u \<noteq> None)"

lemma store_wfI:
  assumes "\<And>t v ttl. rs_kv st (sessionKeyPrefix @ t) = Some (v, ttl) \<Longrightarrow>
      \<exists>s. sess_at E st t = Some s \<and> Token s = t \<and> t \<in> user_index st (sess_UserID s)"
    and "\<And>u. set_members (rs_kv st (userSessionsPrefix @ u)) \<noteq> None" and "\<And>u. epoch_at st u \<noteq> None"
  shows "store_wf E st"
  using assms unfolding store_wf_def by blast

lemma store_wfD:
  assumes "store_wf E st"
  shows "rs_kv st (sessionKeyPrefix @ t) = Some (v, ttl) \<Longrightarrow>
      \<exists>s. sess_at E st t = Some s \<and> Token s = t \<and> t \<in> user_index st (sess_UserID s)"
    and "\<exists>ms. set_members (rs_kv st (userSessionsPrefix @ u)) = Some ms" and "\<exists>n. epoch_at st u = Some n"
  using assms unfolding store_wf_def by blast+

subsection \<open>Chunks\<close>

lemma chunkStrings_concat: "concat (chunkStrings xs n) = xs"
  by (induction xs n rule: chunkStrings.induct) (subst chunkStrings.simps, simp)

lemma chunkStrings_sizes:
  "0 < n \<Longrightarrow> b \<in> set (chunkStrings xs n) \<Longrightarrow> b \<noteq> [] \<and> length b \<le> n"
proof (induction xs n rule: chunkStrings.induct)
  case (1 xs n)
  from 1(3) have "b \<in> set (if 0 < n \<and> n < length xs then take n xs # chunkStrings (List.drop n xs) n
      else if xs \<noteq> [] then [xs] else [])"
    by (subst (asm) chunkStrings.simps)
  then show ?case using 1(1,2) by (auto split: if_splits)
qed

subsection \<open>Transactions on the observers\<close>

definition put_cmds :: "Session \<Rightarrow> 'j \<Rightarrow> int \<Rightarrow> 'j redis_cmd list" where
  "put_cmds s raw ttl =
     [SET (sessionKeyPrefix @ Token s) (RJson raw) ttl, SADD (userSessionsPrefix @ sess_UserID s) (Token s),
      EXPIRE (userSessionsPrefix @ sess_UserID s) (max ttl (7 * 24 * 3600 * ns_per_s))]"

definition put_state :: "Session \<Rightarrow> 'j \<Rightarrow> int \<Rightarrow> 'j redis_state \<Rightarrow> 'j redis_state" where
  "put_state s raw ttl st = snd (exec_tx (put_cmds s raw ttl) st)"

lemma put_state_eq:
  assumes "set_members (rs_kv st (userSessionsPrefix @ sess_UserID s)) = Some ms" and "0 < ttl"
  shows "put_state s raw ttl st = st\<lparr>rs_kv := (rs_kv st)(sessionKeyPrefix @ Token s \<mapsto> (RJson raw, Some ttl),
     userSessionsPrefix @ sess_UserID s \<mapsto>
       (RSet (if Token s \<in> set ms then ms else ms @ [Token s]), Some (max ttl (7 * 24 * 3600 * ns_per_s))))\<rparr>"
  using assms
  by (auto simp: put_state_def put_cmds_def set_members_def fun_upd_twist max_def
      split: option.splits rval.splits prod.splits)

text \<open>What a successful or half-successful \<^verbatim>\<open>Put\<close> does to each observer.\<close>

lemma put_state_obs:
  assumes "set_members (rs_kv st (userSessionsPrefix @ sess_UserID s)) = Some ms" and "0 < ttl"
    and "unmarshal_sess E raw = Some s"
  shows "sess_at E (put_state s raw ttl st) = (sess_at E st)(Token s \<mapsto> s)"
    and "user_index (put_state s raw ttl st) =
      (user_index st)(sess_UserID s := insert (Token s) (user_index st (sess_UserID s)))"
    and "epoch_at (put_state s raw ttl st) = epoch_at st"
    and "rotation_at (put_state s raw ttl st) = rotation_at st"
    and "rs_pub (put_state s raw ttl st) = rs_pub st"
  using assms
  by (auto simp: put_state_eq fun_eq_iff sess_at_def user_index_def epoch_at_def rotation_at_def set_members_def)

lemma put_state_wf:
  assumes "store_wf E st" and "0 < ttl" and "unmarshal_sess E raw = Some s"
  shows "store_wf E (put_state s raw ttl st)"
proof -
  obtain ms where ms: "set_members (rs_kv st (userSessionsPrefix @ sess_UserID s)) = Some ms"
    using store_wfD(2) [OF assms(1)] by blast
  note obs = put_state_obs [OF ms assms(2,3)]
  show ?thesis
  proof (rule store_wfI)
    fix t v ttl' assume "rs_kv (put_state s raw ttl st) (sessionKeyPrefix @ t) = Some (v, ttl')"
    then have "t \<noteq> Token s \<Longrightarrow> rs_kv st (sessionKeyPrefix @ t) = Some (v, ttl')"
      by (auto simp: put_state_eq [OF ms assms(2)] split: if_splits)
    then obtain s' where "t = Token s \<and> s' = s \<or>
        t \<noteq> Token s \<and> sess_at E st t = Some s' \<and> Token s' = t \<and> t \<in> user_index st (sess_UserID s')"
      using store_wfD(1) [OF assms(1), of t] by blast
    then show "\<exists>s'. sess_at E (put_state s raw ttl st) t = Some s' \<and> Token s' = t \<and>
        t \<in> user_index (put_state s raw ttl st) (sess_UserID s')"
      unfolding obs by (intro exI [of _ s']) auto
  next
    fix u
    show "set_members (rs_kv (put_state s raw ttl st) (userSessionsPrefix @ u)) \<noteq> None"
      using store_wfD(2) [OF assms(1), of u] by (auto simp: put_state_eq [OF ms assms(2)] set_members_def)
    show "epoch_at (put_state s raw ttl st) u \<noteq> None" using store_wfD(3) [OF assms(1)] by (simp add: obs)
  qed
qed

definition del_cmds :: "string \<Rightarrow> uuid option \<Rightarrow> 'j redis_cmd list" where
  "del_cmds t u = DEL [sessionKeyPrefix @ t] # (case u of None \<Rightarrow> [] | Some u \<Rightarrow> [SREM (userSessionsPrefix @ u) [t]])"

definition del_state :: "string \<Rightarrow> uuid option \<Rightarrow> 'j redis_state \<Rightarrow> 'j redis_state" where
  "del_state t u st = snd (exec_tx (del_cmds t u) st)"

lemma del_state_kv:
  "rs_kv (del_state t u st) =
     (let kv = (rs_kv st)(sessionKeyPrefix @ t := None)
      in case u of
           None \<Rightarrow> kv
         | Some v \<Rightarrow>
             (case set_members (rs_kv st (userSessionsPrefix @ v)) of
                None \<Rightarrow> kv
              | Some ms \<Rightarrow>
                  let left = filter (\<lambda>m. m \<noteq> t) ms
                  in kv(userSessionsPrefix @ v :=
                       (if left = [] then None else Some (RSet left, ttl_of (rs_kv st (userSessionsPrefix @ v)))))))"
  by (auto simp: del_state_def del_cmds_def Let_def fun_eq_iff split: option.split)

lemma del_state_obs:
  shows "rs_kv (del_state t u st) (sessionKeyPrefix @ k) = (if k = t then None else rs_kv st (sessionKeyPrefix @ k))"
    and "sess_at E (del_state t u st) = (sess_at E st)(t := None)"
    and "epoch_at (del_state t u st) = epoch_at st"
    and "rotation_at (del_state t u st) = rotation_at st"
    and "rs_pub (del_state t u st) = rs_pub st"
    and "set_members (rs_kv (del_state t u st) (userSessionsPrefix @ v)) =
      (if u = Some v then map_option (filter (\<lambda>m. m \<noteq> t)) (set_members (rs_kv st (userSessionsPrefix @ v)))
       else set_members (rs_kv st (userSessionsPrefix @ v)))"
proof -
  show k: "rs_kv (del_state t u st) (sessionKeyPrefix @ k) = (if k = t then None else rs_kv st (sessionKeyPrefix @ k))" for k
    by (simp add: del_state_kv Let_def split: option.split)
  show "sess_at E (del_state t u st) = (sess_at E st)(t := None)"
    by (simp add: fun_eq_iff sess_at_def k)
  show "epoch_at (del_state t u st) = epoch_at st"
    by (simp add: fun_eq_iff epoch_at_def del_state_kv Let_def split: option.split)
  show "rotation_at (del_state t u st) = rotation_at st"
    by (simp add: fun_eq_iff rotation_at_def del_state_kv Let_def split: option.split)
  show "rs_pub (del_state t u st) = rs_pub st"
    by (simp add: del_state_def del_cmds_def Let_def split: option.split)
  have m: "set_members (if left = [] then None else Some (RSet left, tt)) = Some left" for left tt
    by (simp add: set_members_def)
  show "set_members (rs_kv (del_state t u st) (userSessionsPrefix @ v)) =
      (if u = Some v then map_option (filter (\<lambda>m. m \<noteq> t)) (set_members (rs_kv st (userSessionsPrefix @ v)))
       else set_members (rs_kv st (userSessionsPrefix @ v)))"
    by (simp add: del_state_kv Let_def m split: option.split)
qed

lemma del_state_index:
  "user_index (del_state t u st) v = (if u = Some v then user_index st v - {t} else user_index st v)"
  by (auto simp: user_index_def del_state_obs split: option.split)

lemma del_state_wf:
  assumes "store_wf E st"
  shows "store_wf E (del_state t u st)"
proof (rule store_wfI)
  fix k v ttl assume "rs_kv (del_state t u st) (sessionKeyPrefix @ k) = Some (v, ttl)"
  then show "\<exists>s. sess_at E (del_state t u st) k = Some s \<and> Token s = k \<and> k \<in> user_index (del_state t u st) (sess_UserID s)"
    using store_wfD(1) [OF assms, of k v ttl] by (auto simp: del_state_obs(1,2) del_state_index split: if_splits)
next
  fix v
  show "set_members (rs_kv (del_state t u st) (userSessionsPrefix @ v)) \<noteq> None"
    using store_wfD(2) [OF assms, of v] by (auto simp: del_state_obs(6))
  show "epoch_at (del_state t u st) v \<noteq> None" using store_wfD(3) [OF assms] by (simp add: del_state_obs)
qed

text \<open>Removing members without a session from one index, as \<^verbatim>\<open>ListUserTokens\<close> does on the side.\<close>

definition pruned :: "uuid \<Rightarrow> 'j redis_state \<Rightarrow> 'j redis_state \<Rightarrow> bool" where
  "pruned u st st' \<longleftrightarrow> rs_pub st' = rs_pub st \<and>
     (\<forall>k. k \<noteq> userSessionsPrefix @ u \<longrightarrow> rs_kv st' k = rs_kv st k) \<and>
     (\<exists>ms ms'. set_members (rs_kv st (userSessionsPrefix @ u)) = Some ms \<and>
        set_members (rs_kv st' (userSessionsPrefix @ u)) = Some ms' \<and> set ms' \<subseteq> set ms \<and>
        (\<forall>t \<in> set ms - set ms'. rs_kv st (sessionKeyPrefix @ t) = None))"

lemma pruned_refl: "store_wf E st \<Longrightarrow> pruned u st st"
  using store_wfD(2) [of E st u] by (auto simp: pruned_def)

lemma pruned_trans: "pruned u a b \<Longrightarrow> pruned u b c \<Longrightarrow> pruned u a c"
  unfolding pruned_def by (auto 0 3)

lemma pruned_obs:
  assumes "pruned u st st'"
  shows "sess_at E st' = sess_at E st" and "epoch_at st' = epoch_at st" and "rotation_at st' = rotation_at st"
    and "rs_pub st' = rs_pub st" and "rs_kv st' (sessionKeyPrefix @ t) = rs_kv st (sessionKeyPrefix @ t)"
    and "user_index st' v \<subseteq> user_index st v"
    and "t \<in> user_index st v \<Longrightarrow> rs_kv st (sessionKeyPrefix @ t) \<noteq> None \<Longrightarrow> t \<in> user_index st' v"
proof -
  show "user_index st' v \<subseteq> user_index st v"
    using assms by (cases "v = u") (auto simp: pruned_def user_index_def)
  show "t \<in> user_index st' v" if "t \<in> user_index st v" "rs_kv st (sessionKeyPrefix @ t) \<noteq> None"
  proof (cases "v = u")
    case True
    obtain ms ms' where "set_members (rs_kv st (userSessionsPrefix @ u)) = Some ms"
        "set_members (rs_kv st' (userSessionsPrefix @ u)) = Some ms'"
        "\<And>t. t \<in> set ms - set ms' \<Longrightarrow> rs_kv st (sessionKeyPrefix @ t) = None"
      using assms by (auto simp: pruned_def)
    then show ?thesis using True that by (fastforce simp: user_index_def)
  qed (use assms that in \<open>auto simp: pruned_def user_index_def\<close>)
qed (use assms in \<open>auto simp: pruned_def fun_eq_iff sess_at_def epoch_at_def rotation_at_def\<close>)

lemma pruned_wf:
  assumes "pruned u st st'" and "store_wf E st"
  shows "store_wf E st'"
proof (rule store_wfI)
  note obs = pruned_obs [OF assms(1)]
  fix t v ttl assume *: "rs_kv st' (sessionKeyPrefix @ t) = Some (v, ttl)"
  then obtain s where "sess_at E st t = Some s" "Token s = t" "t \<in> user_index st (sess_UserID s)"
    using store_wfD(1) [OF assms(2)] obs(5) by metis
  then show "\<exists>s. sess_at E st' t = Some s \<and> Token s = t \<and> t \<in> user_index st' (sess_UserID s)"
    using * obs(1,5,7) by (metis option.distinct(1))
next
  fix v
  show "set_members (rs_kv st' (userSessionsPrefix @ v)) \<noteq> None"
    using assms(1) store_wfD(2) [OF assms(2), of v] by (cases "v = u") (auto simp: pruned_def)
  show "epoch_at st' v \<noteq> None" using store_wfD(3) [OF assms(2)] by (simp add: pruned_obs(2) [OF assms(1)])
qed

lemma srem_pruned:
  assumes "store_wf E st" and "\<And>t. t \<in> set ts \<Longrightarrow> rs_kv st (sessionKeyPrefix @ t) = None"
  shows "pruned u st (snd (exec_cmd (SREM (userSessionsPrefix @ u) ts) st))"
proof -
  obtain ms where ms: "set_members (rs_kv st (userSessionsPrefix @ u)) = Some ms"
    using store_wfD(2) [OF assms(1)] by blast
  have "set_members (rs_kv (snd (exec_cmd (SREM (userSessionsPrefix @ u) ts) st)) (userSessionsPrefix @ u)) =
      Some (filter (\<lambda>m. m \<notin> set ts) ms)"
    using ms by (simp add: Let_def set_members_def)
  then show ?thesis using ms assms(2) by (auto simp: pruned_def Let_def)
qed

lemma string_value_wf:
  assumes "store_wf E st"
  shows "string_value (rs_kv st (sessionKeyPrefix @ t)) = None \<longleftrightarrow> rs_kv st (sessionKeyPrefix @ t) = None"
  using store_wfD(1) [OF assms, of t]
  by (auto simp: sess_at_def split: option.splits rval.splits elim: string_value.elims)

locale session_store = redis_laws "rd E" view
  for E :: "('r, 'j, 'z) store_env_scheme" and view :: "'r \<Rightarrow> 'j redis_state" +
  assumes codec: "marshal_sess E s = Some j \<Longrightarrow> unmarshal_sess E j = Some s"
begin

lemmas reads_keep = cmd1_reads [OF reads_simps(1)] cmd1_reads [OF reads_simps(2)]
  cmd1_reads [OF reads_simps(3)] cmd1_reads [OF reads_simps(4)]

lemma Get_cases:
  assumes "Get E t r = (res, r')"
  shows "view r' = view r \<and>
    (case res of
       Inr s \<Rightarrow> sess_at E (view r) t = Some s
     | Inl e \<Rightarrow> errors_Is e ErrNotFound = (e = session_not_found) \<and>
         (e = session_not_found \<longrightarrow> rs_kv (view r) (sessionKeyPrefix @ t) = None))"
proof -
  obtain x r1 where c: "cmd1 (rd E) (GET (sessionKeyPrefix @ t)) r = (x, r1)" by fastforce
  have v: "view r1 = view r" by (rule keepsD [OF reads_keep(1) c])
  show ?thesis
  proof (cases x)
    case (Inl e)
    then show ?thesis using assms c v cmd1_err [of "GET (sessionKeyPrefix @ t)" r e r1 ErrNotFound]
      by (auto simp: Get_def bindE_def)
  next
    case (Inr y)
    with c have "exec_cmd (GET (sessionKeyPrefix @ t)) (view r) = (y, view r1)" using cmd1_ok by blast
    then show ?thesis using assms c v Inr
      by (auto simp: Get_def bindE_def sess_at_def split: option.splits redis_reply.splits rval.splits prod.splits)
  qed
qed

lemma Get_hit:
  assumes "Get E t r = (Inr s, r')"
  shows "view r' = view r" and "sess_at E (view r) t = Some s"
  using Get_cases [OF assms] by auto

lemma Put_cases:
  assumes "Put E s ttl r = (res, r')"
  shows "(view r' = view r \<and> (\<exists>e. res = Inl e)) \<or>
    (0 < ttl \<and> (\<exists>raw. marshal_sess E s = Some raw \<and> view r' = put_state s raw ttl (view r) \<and>
       (res \<in> range Inr \<longrightarrow> set_members (rs_kv (view r) (userSessionsPrefix @ sess_UserID s)) \<noteq> None)))"
proof (cases "ttl \<le> 0 \<or> marshal_sess E s = None")
  case True
  then show ?thesis using assms by (auto simp: Put_def split: if_splits)
next
  case False
  then obtain raw where raw: "marshal_sess E s = Some raw" "0 < ttl" by auto
  obtain x r1 where c: "rd E (put_cmds s raw ttl) r = (x, r1)" by fastforce
  have P: "Put E s ttl = bindE (rd E (put_cmds s raw ttl)) (\<lambda>_. ret ())"
    using raw by (simp add: Put_def put_cmds_def Let_def max_def)
  have r1: "r1 = r'" and res: "res \<in> range Inr \<longleftrightarrow> x \<in> range Inr"
    using assms c P by (auto simp: bindE_def split: sum.splits)
  show ?thesis
  proof (cases x)
    case (Inl e)
    then show ?thesis using rd_err [of "put_cmds s raw ttl" r e r'] c raw r1 res
      by (cases res) (auto simp: put_state_def)
  next
    case (Inr rs)
    then have "exec_tx (put_cmds s raw ttl) (view r) = (rs, view r')" "ReplyErr \<notin> set rs"
      using rd_ok c r1 by blast+
    then have "view r' = put_state s raw ttl (view r)"
        "set_members (rs_kv (view r) (userSessionsPrefix @ sess_UserID s)) \<noteq> None"
      by (auto simp: put_state_def put_cmds_def split: option.splits prod.splits if_splits)
    then show ?thesis using raw by auto
  qed
qed

lemma Put_ok:
  assumes "Put E s ttl r = (Inr x, r')"
  shows "\<exists>raw ms. marshal_sess E s = Some raw \<and> 0 < ttl \<and>
    set_members (rs_kv (view r) (userSessionsPrefix @ sess_UserID s)) = Some ms \<and>
    view r' = put_state s raw ttl (view r)"
  using Put_cases [OF assms] by auto

lemma Delete_cases:
  assumes "Delete E t r = (res, r')"
  shows "(view r' = view r \<and> (\<exists>e. res = Inl e)) \<or>
    (\<exists>u. view r' = del_state t u (view r) \<and>
       (case u of None \<Rightarrow> rs_kv (view r) (sessionKeyPrefix @ t) = None
        | Some v \<Rightarrow> \<exists>s. sess_at E (view r) t = Some s \<and> sess_UserID s = v))"
proof -
  obtain g r1 where g: "Get E t r = (g, r1)" by fastforce
  note gc = Get_cases [OF g]
  have tx: "view r' \<in> {view r1, del_state t u (view r1)} \<and> (view r' = view r1 \<longrightarrow> view r' = del_state t u (view r1) \<or> (\<exists>e. res = Inl e))"
    if "bindE (rd E (del_cmds t u)) (\<lambda>_. ret ()) r1 = (res, r')" for u
    using that rd_ok [of "del_cmds t u" r1] rd_err [of "del_cmds t u" r1]
    by (auto simp: bindE_def del_state_def split: prod.splits sum.splits)
  show ?thesis
  proof (cases g)
    case (Inr s)
    then have "bindE (rd E (del_cmds t (Some (sess_UserID s)))) (\<lambda>_. ret ()) r1 = (res, r')"
      using assms g by (simp add: Delete_def tryE_def del_cmds_def)
    from tx [OF this] show ?thesis using gc Inr by (auto intro: exI [of _ "Some (sess_UserID s)"])
  next
    case (Inl e)
    show ?thesis
    proof (cases "errors_Is e ErrNotFound")
      case True
      then have "bindE (rd E (del_cmds t None)) (\<lambda>_. ret ()) r1 = (res, r')"
        using assms g Inl by (simp add: Delete_def tryE_def del_cmds_def)
      from tx [OF this] show ?thesis using gc Inl True by (auto intro: exI [of _ None])
    next
      case False
      then show ?thesis using assms g gc Inl by (auto simp: Delete_def tryE_def)
    qed
  qed
qed

lemma scan_batches_ok:
  assumes "scan_batches E bs alive dangling r = (res, r')" and "store_wf E (view r)"
  shows "view r' = view r \<and>
    (case res of
       Inl e \<Rightarrow> \<not> errors_Is e ErrNotFound
     | Inr (a, d) \<Rightarrow>
         a = alive @ filter (\<lambda>t. rs_kv (view r) (sessionKeyPrefix @ t) \<noteq> None) (concat bs) \<and>
         d = dangling @ filter (\<lambda>t. rs_kv (view r) (sessionKeyPrefix @ t) = None) (concat bs))"
  using assms
proof (induction bs arbitrary: alive dangling r)
  case Nil
  then show ?case by auto
next
  case (Cons b bs)
  let ?ks = "map (\<lambda>t. sessionKeyPrefix @ t) b"
  obtain x r1 where c: "cmd1 (rd E) (MGET ?ks) r = (x, r1)" by fastforce
  have v: "view r1 = view r" by (rule keepsD [OF reads_keep(4) c])
  let ?f = "\<lambda>t. string_value (rs_kv (view r) (sessionKeyPrefix @ t))"
  have z: "map fst (filter (\<lambda>p. snd p \<noteq> None) (zip b (map ?f b))) = filter (\<lambda>t. rs_kv (view r) (sessionKeyPrefix @ t) \<noteq> None) b"
    "map fst (filter (\<lambda>p. snd p = None) (zip b (map ?f b))) = filter (\<lambda>t. rs_kv (view r) (sessionKeyPrefix @ t) = None) b"
    by (induction b) (auto simp: string_value_wf [OF Cons.prems(2)] simp del: not_None_eq)
  show ?case
  proof (cases x)
    case (Inl e)
    then show ?thesis using Cons.prems(1) c v cmd1_err [of "MGET ?ks" r e r1 ErrNotFound] by (auto simp: bindE_def)
  next
    case (Inr y)
    then have "y = ReplyVals (map ?f b)"
      using c v cmd1_ok [of "MGET ?ks" r y r1] by (auto simp: comp_def)
    then have "scan_batches E bs (alive @ filter (\<lambda>t. rs_kv (view r) (sessionKeyPrefix @ t) \<noteq> None) b)
        (dangling @ filter (\<lambda>t. rs_kv (view r) (sessionKeyPrefix @ t) = None) b) r1 = (res, r')"
      using Cons.prems(1) c Inr by (simp add: bindE_eq_Inr z del: not_None_eq)
    from Cons.IH [OF this, unfolded v, OF Cons.prems(2)] show ?thesis by (auto split: sum.splits)
  qed
qed

lemma srem_batches_ok:
  assumes "srem_batches E (userSessionsPrefix @ u) bs r = (res, r')" and "store_wf E (view r)"
    and "\<And>t. t \<in> set (concat bs) \<Longrightarrow> rs_kv (view r) (sessionKeyPrefix @ t) = None"
  shows "pruned u (view r) (view r') \<and> res = Inr ()"
  using assms
proof (induction bs arbitrary: r)
  case Nil
  then show ?case by (simp add: pruned_refl)
next
  case (Cons b bs)
  obtain x r1 where c: "cmd1 (rd E) (SREM (userSessionsPrefix @ u) b) r = (x, r1)" by fastforce
  have p: "pruned u (view r) (snd (exec_cmd (SREM (userSessionsPrefix @ u) b) (view r)))"
    using Cons.prems by (intro srem_pruned) auto
  have p1: "pruned u (view r) (view r1)"
    using p c cmd1_ok [of _ r _ r1] cmd1_err [of _ r _ r1] pruned_refl [OF Cons.prems(2), of u]
    by (cases x) fastforce+
  show ?case
  proof (cases x)
    case (Inl e)
    then show ?thesis using Cons.prems(1) c p1 by (simp add: tryE_def)
  next
    case (Inr y)
    have "pruned u (view r1) (view r') \<and> res = Inr ()"
      using Cons.prems c Inr p1 pruned_obs(5) [OF p1] pruned_wf [OF p1]
      by (intro Cons.IH) (auto simp: tryE_def)
    then show ?thesis using p1 pruned_trans by blast
  qed
qed

lemma ListUserTokens_cases:
  assumes "ListUserTokens E u r = (res, r')" and wf: "store_wf E (view r)"
  shows "pruned u (view r) (view r') \<and>
    (case res of
       Inl e \<Rightarrow> \<not> errors_Is e ErrNotFound
     | Inr ts \<Rightarrow> set ts = {t \<in> user_index (view r) u. rs_kv (view r) (sessionKeyPrefix @ t) \<noteq> None})"
proof -
  obtain ms where ms: "set_members (rs_kv (view r) (userSessionsPrefix @ u)) = Some ms"
    using store_wfD(2) [OF wf] by blast
  obtain x r1 where c: "cmd1 (rd E) (SMEMBERS (userSessionsPrefix @ u)) r = (x, r1)" by fastforce
  have v: "view r1 = view r" by (rule keepsD [OF reads_keep(3) c])
  show ?thesis
  proof (cases x)
    case (Inl e)
    then have "ListUserTokens E u r = (Inl e, r1)" using c by (simp add: ListUserTokens_def Let_def bindE_eq_Inl)
    then show ?thesis using assms(1) Inl c v cmd1_err [of _ r e r1 ErrNotFound] pruned_refl [OF wf] by auto
  next
    case (Inr y)
    then have y: "y = ReplyMembers ms" using c cmd1_ok [of "SMEMBERS (userSessionsPrefix @ u)" r y r1] ms by auto
    show ?thesis
    proof (cases "ms = []")
      case True
      then have "ListUserTokens E u r = (Inr [], r1)" using c Inr y by (simp add: ListUserTokens_def Let_def bindE_eq_Inr)
      then show ?thesis using assms(1) v True ms pruned_refl [OF wf] by (auto simp: user_index_def)
    next
      case False
      obtain z r2 where s: "scan_batches E (chunkStrings ms redisBatchSize) [] [] r1 = (z, r2)" by fastforce
      note sc = scan_batches_ok [OF s, unfolded v, OF wf]
      show ?thesis
      proof (cases z)
        case (Inl e)
        then have "ListUserTokens E u r = (Inl e, r2)"
          using c Inr y False s by (simp add: ListUserTokens_def Let_def bindE_eq_Inr bindE_eq_Inl)
        then show ?thesis using assms(1) sc \<open>z = Inl e\<close> pruned_refl [OF wf] by auto
      next
        case (Inr ad)
        obtain a d where ad: "ad = (a, d)" by fastforce
        obtain q r3 where q: "srem_batches E (userSessionsPrefix @ u) (chunkAny d redisBatchSize) r2 = (q, r3)" by fastforce
        have d: "set d = {t \<in> set ms. rs_kv (view r) (sessionKeyPrefix @ t) = None}"
          and a: "set a = {t \<in> set ms. rs_kv (view r) (sessionKeyPrefix @ t) \<noteq> None}"
          using sc Inr ad by (auto simp: chunkStrings_concat)
        have v2: "view r2 = view r" using sc by blast
        have "pruned u (view r2) (view r3) \<and> q = Inr ()"
        proof (rule srem_batches_ok [OF q])
          show "store_wf E (view r2)" using v2 wf by simp
          show "rs_kv (view r2) (sessionKeyPrefix @ t) = None"
            if "t \<in> set (concat (chunkAny d redisBatchSize))" for t
            using that d v2 by (simp add: chunkAny_def chunkStrings_concat)
        qed
        moreover have "ListUserTokens E u r = (Inr a, r3)"
          using c \<open>x = Inr y\<close> y False s Inr ad q calculation by (simp add: ListUserTokens_def Let_def bindE_eq_Inr)
        ultimately show ?thesis using assms(1) v2 a ms by (auto simp: user_index_def)
      qed
    qed
  qed
qed

lemma Current_cases:
  assumes "Current E u r = (res, r')"
  shows "view r' = view r \<and> (case res of Inl e \<Rightarrow> \<not> errors_Is e s | Inr n \<Rightarrow> epoch_at (view r) u \<in> {Some n, None})"
proof -
  obtain x r1 where c: "cmd1 (rd E) (GET (epochKey u)) r = (x, r1)" by fastforce
  have v: "view r1 = view r" by (rule keepsD [OF reads_keep(1) c])
  show ?thesis
  proof (cases x)
    case (Inl e)
    then show ?thesis using assms c v cmd1_err [of _ r e r1 s] by (auto simp: Current_def bindE_def)
  next
    case (Inr y)
    with c have "exec_cmd (GET (epochKey u)) (view r) = (y, view r1)" using cmd1_ok by blast
    then show ?thesis using assms c v Inr
      by (auto simp: Current_def bindE_def epoch_at_def counter_value_def
          split: option.splits redis_reply.splits rval.splits prod.splits)
  qed
qed

lemma Current_wf:
  assumes "Current E u r = (res, r')" and "store_wf E (view r)"
  shows "view r' = view r \<and> (case res of Inl e \<Rightarrow> \<not> errors_Is e s | Inr n \<Rightarrow> epoch_at (view r) u = Some n)"
  using Current_cases [OF assms(1), of s] store_wfD(3) [OF assms(2), of u] by (cases res) auto

lemma Bump_cases:
  assumes "Bump E u r = (res, r')"
  shows "view r' = view r \<and> (\<exists>e. res = Inl e) \<or>
    (\<exists>n. epoch_at (view r) u = Some n \<and> in_int64 (n + 1) \<and> res \<in> {Inr (n + 1)} \<union> range Inl \<and>
       view r' = (view r)\<lparr>rs_kv := (rs_kv (view r))(epochKey u \<mapsto> (RStr (FormatInt (n + 1)), ttl_of (rs_kv (view r) (epochKey u))))\<rparr>)"
proof -
  obtain x r1 where c: "cmd1 (rd E) (INCR (epochKey u)) r = (x, r1)" by fastforce
  show ?thesis
  proof (cases x)
    case (Inl e)
    then have "res = Inl e" "r1 = r'" using assms c by (auto simp: Bump_def bindE_eq_Inl)
    then show ?thesis using cmd1_effect [OF c]
      by (auto simp: epoch_at_def split: option.splits if_splits)
  next
    case (Inr y)
    then have "exec_cmd (INCR (epochKey u)) (view r) = (y, view r1)" "y \<noteq> ReplyErr"
      using c cmd1_ok by blast+
    then show ?thesis using assms c Inr
      by (auto simp: Bump_def bindE_eq_Inr epoch_at_def split: option.splits if_splits)
  qed
qed

lemma TryLock_cases:
  assumes "TryLock E k ttl r = (res, r')"
  shows "(view r' = view r \<or> (rs_kv (view r) (sessionLockPrefix @ k) = None \<and>
      view r' = (view r)\<lparr>rs_kv := (rs_kv (view r))(sessionLockPrefix @ k \<mapsto> (RStr ''1'', if ttl > 0 then Some ttl else None))\<rparr>)) \<and>
    (case res of Inl e \<Rightarrow> \<not> errors_Is e s | Inr b \<Rightarrow> b = (rs_kv (view r) (sessionLockPrefix @ k) = None))"
proof -
  obtain x r1 where c: "cmd1 (rd E) (SETNX (sessionLockPrefix @ k) (RStr ''1'') ttl) r = (x, r1)" by fastforce
  show ?thesis
  proof (cases x)
    case (Inl e)
    then have "res = Inl e" "r1 = r'" using assms c by (auto simp: TryLock_def bindE_eq_Inl)
    then show ?thesis using c Inl cmd1_err [of "SETNX (sessionLockPrefix @ k) (RStr ''1'') ttl" r e r1 s]
      by (auto split: option.splits)
  next
    case (Inr y)
    then have "exec_cmd (SETNX (sessionLockPrefix @ k) (RStr ''1'') ttl) (view r) = (y, view r1)"
      using c cmd1_ok by blast
    moreover have "res = Inr (y = ReplyInt 1)" "r1 = r'" using assms c Inr by (auto simp: TryLock_def bindE_eq_Inr)
    ultimately show ?thesis by (auto split: option.splits)
  qed
qed

lemma PutRotation_cases:
  assumes "PutRotation E old new ttl r = (res, r')"
  shows "(view r' = view r \<and> (\<exists>e. res = Inl e)) \<or>
    (0 < ttl \<and> view r' = (view r)\<lparr>rs_kv := (rs_kv (view r))(rotationPrefix @ old \<mapsto> (RStr new, Some ttl))\<rparr>)"
proof (cases "ttl \<le> 0")
  case True
  then show ?thesis using assms by (auto simp: PutRotation_def)
next
  case False
  obtain x r1 where c: "cmd1 (rd E) (SET (rotationPrefix @ old) (RStr new) ttl) r = (x, r1)" by fastforce
  have "r1 = r'" "res \<in> range Inr \<longleftrightarrow> x \<in> range Inr"
    using assms False c by (auto simp: PutRotation_def bindE_def split: sum.splits)
  then show ?thesis using False cmd1_effect [OF c] by (cases res) auto
qed

lemma RotatedTo_cases:
  assumes "RotatedTo E old r = (res, r')"
  shows "view r' = view r \<and>
    (case res of Inl e \<Rightarrow> \<not> errors_Is e s | Inr v \<Rightarrow> rotation_at (view r) old = (if v = [] then rotation_at (view r) old else Some v))"
proof -
  obtain x r1 where c: "cmd1 (rd E) (GET (rotationPrefix @ old)) r = (x, r1)" by fastforce
  have v: "view r1 = view r" by (rule keepsD [OF reads_keep(1) c])
  show ?thesis
  proof (cases x)
    case (Inl e)
    then show ?thesis using assms c v cmd1_err [of "GET (rotationPrefix @ old)" r e r1 s]
      by (auto simp: RotatedTo_def bindE_eq_Inl)
  next
    case (Inr y)
    with c have "exec_cmd (GET (rotationPrefix @ old)) (view r) = (y, view r1)" using cmd1_ok by blast
    then show ?thesis using assms c v Inr
      by (auto simp: RotatedTo_def bindE_eq_Inr rotation_at_def
          split: option.splits redis_reply.splits rval.splits prod.splits if_splits)
  qed
qed

lemma Publish_cases:
  assumes "Publish E ev r = (res, r')"
  shows "rs_kv (view r') = rs_kv (view r) \<and>
    (rs_pub (view r') = rs_pub (view r) \<and> (\<exists>e. res = Inl e) \<or>
     (\<exists>raw. marshal_event E ev = Some raw \<and> rs_pub (view r') = rs_pub (view r) @ [(revokeChannel, raw)]))"
proof (cases "marshal_event E ev")
  case None
  then show ?thesis using assms by (auto simp: Publish_def)
next
  case (Some raw)
  obtain x r1 where c: "cmd1 (rd E) (PUBLISH revokeChannel raw) r = (x, r1)" by fastforce
  have "r1 = r'" "res \<in> range Inr \<longleftrightarrow> x \<in> range Inr"
    using assms Some c by (auto simp: Publish_def bindE_def split: sum.splits)
  then show ?thesis using Some cmd1_effect [OF c] by (cases res) auto
qed

end

end
