(* ===== verification/Session_Service.thy ===== *)
theory Session_Service
  imports Session_Store
begin

text \<open>
  The session service (\<^verbatim>\<open>internal/service/session.go\<close>): issuing, validating, extending and
  rotating tokens, and revoking them with their announcements. Its clock, its sources of randomness
  and the iteration order of a Go map are parameters beside the ones of the stores.
\<close>

section \<open>Parameters and data\<close>

record ('r, 'j) session_env = "('r, 'j) store_env" +
  now :: "'r \<Rightarrow> int \<times> 'r"
  randomToken :: "('r, string) io"
  newUUID :: "'r \<Rightarrow> string \<times> 'r"
  has_pub :: bool
  range_keys :: "uuid list \<Rightarrow> uuid list"

text \<open>A call that cannot fail, as a fallible one.\<close>

definition lift :: "('r \<Rightarrow> 'a \<times> 'r) \<Rightarrow> ('r, 'a) io" where
  "lift f r = (case f r of (x, r') \<Rightarrow> (Inr x, r'))"

record IssueInput =
  in_UserID :: uuid
  in_App :: "Application option"
  in_IP :: string
  in_UA :: string
  in_Mobile :: bool
  in_Roles :: "string list"

record ValidateResult =
  vres_Session :: Session
  CacheTTL :: int
  Rotated :: bool
  NewToken :: string

definition CodeTokenInvalid :: string where "CodeTokenInvalid = ''TOKEN_INVALID''"

abbreviation token_invalid :: goerr where
  "token_invalid \<equiv> DomainErr ErrUnauthorized CodeTokenInvalid"

definition MinRotateGrace :: int where "MinRotateGrace = 15 * ns_per_s"
definition extendLockTTL :: int where "extendLockTTL = 10 * ns_per_s"
definition maxTokensPerEvent :: nat where "maxTokensPerEvent = 1000"

section \<open>Issuing and validating\<close>

definition Issue :: "('r, 'j) session_env \<Rightarrow> IssueInput \<Rightarrow> ('r, Session) io" where
  "Issue E i =
     (case in_App i of
        None \<Rightarrow> throw internal_error
      | Some app \<Rightarrow>
          bindE (randomToken E) (\<lambda>token.
          bindE (Current E (in_UserID i)) (\<lambda>epoch.
          bindE (lift (now E)) (\<lambda>t.
          bindE (lift (newUUID E)) (\<lambda>sid.
            let idle = IdleTimeoutFor (app_Session app) (in_Mobile i);
                sess = \<lparr>sess_ID = sid, Token = token, sess_UserID = in_UserID i, sess_AppID = app_ID app,
                        FirstAuthAt = t, IssuedAt = t, LastExtendedAt = t,
                        IdleExpiresAt = wrap64 (t + Milliseconds idle),
                        sess_IP = in_IP i, sess_UA = in_UA i, Mobile = in_Mobile i, Roles = in_Roles i,
                        Epoch = epoch\<rparr>
            in bindE (Put E sess idle) (\<lambda>_. ret sess))))))"

definition GraceDuration :: "SessionPolicy \<Rightarrow> int" where
  "GraceDuration p =
     (let c = dur_seconds (TokenCacheTTLSeconds p) in if c > MinRotateGrace then c else MinRotateGrace)"

definition cacheTTL :: "int \<Rightarrow> SessionPolicy \<Rightarrow> int" where
  "cacheTTL remaining p =
     (let configured = dur_seconds (TokenCacheTTLSeconds p)
      in if remaining < configured then remaining else configured)"

definition tryExtend ::
  "('r, 'j) session_env \<Rightarrow> Session \<Rightarrow> Application \<Rightarrow> int \<Rightarrow> ('r, Session option) io" where
  "tryExtend E sess app t =
     bindE (TryLock E (''ext:'' @ Token sess) extendLockTTL) (\<lambda>ok.
       if \<not> ok then ret None
       else
         let idle = IdleTimeoutFor (app_Session app) (Mobile sess);
             updated = sess\<lparr>LastExtendedAt := t, IdleExpiresAt := wrap64 (t + Milliseconds idle)\<rparr>
         in bindE (Put E updated (RemainingAt updated t (app_Session app))) (\<lambda>_. ret (Some updated)))"

definition tryRotate ::
  "('r, 'j) session_env \<Rightarrow> Session \<Rightarrow> Application \<Rightarrow> int \<Rightarrow> ('r, string \<times> Session option) io" where
  "tryRotate E sess app t =
     (let grace = GraceDuration (app_Session app)
      in bindE (TryLock E (''rot:'' @ sess_ID sess) grace) (\<lambda>ok.
           if \<not> ok then bindE (RotatedTo E (Token sess)) (\<lambda>newToken. ret (newToken, None))
           else bindE (randomToken E) (\<lambda>newToken.
             let idle = IdleTimeoutFor (app_Session app) (Mobile sess);
                 newSess = sess\<lparr>Token := newToken, IssuedAt := t, LastExtendedAt := t,
                                IdleExpiresAt := wrap64 (t + Milliseconds idle)\<rparr>;
                 oldSess = sess\<lparr>IdleExpiresAt := wrap64 (t + Milliseconds grace)\<rparr>
             in bindE (Put E newSess (RemainingAt newSess t (app_Session app))) (\<lambda>_.
                bindE (PutRotation E (Token sess) newToken grace) (\<lambda>_.
                bindE (Put E oldSess grace) (\<lambda>_. ret (newToken, Some newSess)))))))"

text \<open>The part of \<^verbatim>\<open>Validate\<close> after all checks have passed, and its last lines.\<close>

definition finish ::
  "('r, 'j) session_env \<Rightarrow> SessionPolicy \<Rightarrow> Session \<Rightarrow> bool \<Rightarrow> string \<Rightarrow> ('r, ValidateResult) io" where
  "finish E p s rotated new =
     bindE (lift (now E)) (\<lambda>t.
       ret \<lparr>vres_Session = s, CacheTTL = cacheTTL (RemainingAt s t p) p, Rotated = rotated, NewToken = new\<rparr>)"

definition refresh ::
  "('r, 'j) session_env \<Rightarrow> Session \<Rightarrow> Application \<Rightarrow> int \<Rightarrow> ('r, ValidateResult) io" where
  "refresh E sess app t =
     (let p = app_Session app
      in if wrap64 (t - IssuedAt sess) \<ge> Milliseconds (RotateInterval p) then
           bindE (tryRotate E sess app t) (\<lambda>(newToken, newSess).
             if newToken \<noteq> [] then finish E p (case newSess of Some s \<Rightarrow> s | None \<Rightarrow> sess) True newToken
             else finish E p sess False [])
         else if wrap64 (t - LastExtendedAt sess) \<ge> Milliseconds (ExtendInterval p) then
           bindE (tryExtend E sess app t) (\<lambda>ext.
             finish E p (case ext of Some s \<Rightarrow> s | None \<Rightarrow> sess) False [])
         else finish E p sess False [])"

definition Validate ::
  "('r, 'j) session_env \<Rightarrow> string \<Rightarrow> Application option \<Rightarrow> ('r, ValidateResult) io" where
  "Validate E token app_opt =
     (case app_opt of
        None \<Rightarrow> throw internal_error
      | Some app \<Rightarrow>
          if token = [] then throw token_invalid
          else tryE (Get E token) (\<lambda>g. case g of
            Inl e \<Rightarrow> if errors_Is e ErrNotFound then throw token_invalid else throw e
          | Inr sess \<Rightarrow>
              if sess_AppID sess \<noteq> app_ID app then throw token_invalid
              else bindE (Current E (sess_UserID sess)) (\<lambda>epoch.
                if epoch \<noteq> Epoch sess
                then tryE (Delete E (Token sess)) (\<lambda>_. throw token_invalid)
                else bindE (lift (now E)) (\<lambda>t.
                  if RemainingAt sess t (app_Session app) \<le> 0 then throw token_invalid
                  else refresh E sess app t))))"

definition SessionByToken :: "('r, 'j) session_env \<Rightarrow> string \<Rightarrow> ('r, Session) io" where
  "SessionByToken E token = Get E token"

fun list_sessions :: "('r, 'j) session_env \<Rightarrow> string list \<Rightarrow> Session list \<Rightarrow> ('r, Session list) io" where
  "list_sessions E [] out = ret out"
| "list_sessions E (tok # toks) out =
     tryE (Get E tok) (\<lambda>g. case g of
       Inl e \<Rightarrow> if errors_Is e ErrNotFound then list_sessions E toks out else throw e
     | Inr sess \<Rightarrow> list_sessions E toks (out @ [sess]))"

definition ListByUser :: "('r, 'j) session_env \<Rightarrow> uuid \<Rightarrow> ('r, Session list) io" where
  "ListByUser E userID = bindE (ListUserTokens E userID) (\<lambda>toks. list_sessions E toks [])"

section \<open>Revocation\<close>

record appGroup =
  ag_tokens :: "string list"
  ag_users :: "uuid list"

text \<open>
  The groups by application, keys in order of first use; the users of a group are a Go map used as a set,
  here a list without repetition.
\<close>

type_synonym groups = "(uuid \<times> appGroup) list"

fun add_token :: "uuid \<Rightarrow> string \<Rightarrow> uuid \<Rightarrow> groups \<Rightarrow> groups" where
  "add_token app tok u [] = [(app, \<lparr>ag_tokens = [tok], ag_users = [u]\<rparr>)]"
| "add_token app tok u ((a, g) # gs) =
     (if a = app
      then (a, g\<lparr>ag_tokens := ag_tokens g @ [tok], ag_users := List.insert u (ag_users g)\<rparr>) # gs
      else (a, g) # add_token app tok u gs)"

definition revokedCount :: "groups \<Rightarrow> nat" where
  "revokedCount gs = sum_list (map (\<lambda>(a, g). length (ag_tokens g)) gs)"

text \<open>\<^verbatim>\<open>revokeUserTokens\<close> updates the groups it was given also when it returns an error.\<close>

fun revoke_tokens ::
  "('r, 'j) session_env \<Rightarrow> uuid \<Rightarrow> (Session \<Rightarrow> bool) \<Rightarrow> string list \<Rightarrow> groups \<Rightarrow> 'r \<Rightarrow> (goerr option \<times> groups) \<times> 'r" where
  "revoke_tokens E u match [] gs r = ((None, gs), r)"
| "revoke_tokens E u match (tok # toks) gs r =
     (case Get E tok r of
        (Inl e, r1) \<Rightarrow>
          if errors_Is e ErrNotFound then revoke_tokens E u match toks gs r1 else ((Some e, gs), r1)
      | (Inr sess, r1) \<Rightarrow>
          if \<not> match sess then revoke_tokens E u match toks gs r1
          else case Delete E tok r1 of
                 (Inl e, r2) \<Rightarrow> ((Some e, gs), r2)
               | (Inr _, r2) \<Rightarrow> revoke_tokens E u match toks (add_token (sess_AppID sess) tok u gs) r2)"

definition revokeUserTokens ::
  "('r, 'j) session_env \<Rightarrow> uuid \<Rightarrow> (Session \<Rightarrow> bool) \<Rightarrow> groups \<Rightarrow> 'r \<Rightarrow> (goerr option \<times> groups) \<times> 'r" where
  "revokeUserTokens E u match gs r =
     (case ListUserTokens E u r of
        (Inl e, r1) \<Rightarrow> ((Some e, gs), r1)
      | (Inr toks, r1) \<Rightarrow> revoke_tokens E u match toks gs r1)"

fun revoke_users ::
  "('r, 'j) session_env \<Rightarrow> uuid list \<Rightarrow> (Session \<Rightarrow> bool) \<Rightarrow> groups \<Rightarrow> 'r \<Rightarrow> (goerr option \<times> groups) \<times> 'r" where
  "revoke_users E [] match gs r = ((None, gs), r)"
| "revoke_users E (u # us) match gs r =
     (case revokeUserTokens E u match gs r of
        ((Some e, gs1), r1) \<Rightarrow> ((Some e, gs1), r1)
      | ((None, gs1), r1) \<Rightarrow> revoke_users E us match gs1 r1)"

definition announce :: "('r, 'j) session_env \<Rightarrow> RevokeEvent \<Rightarrow> 'r \<Rightarrow> 'r" where
  "announce E ev r = (if \<not> has_pub E then r else snd (Publish E ev r))"

function announce_from ::
  "('r, 'j) session_env \<Rightarrow> nat \<Rightarrow> string list \<Rightarrow> uuid list \<Rightarrow> uuid \<Rightarrow> string \<Rightarrow> 'r \<Rightarrow> 'r" where
  "announce_from E start tokens us app reason r =
     (if start < length tokens then
        let e = min (start + maxTokensPerEvent) (length tokens);
            (t, r1) = now E r;
            ev = \<lparr>ev_Tokens = take (e - start) (List.drop start tokens), ev_UserIDs = us, ev_AppID = app,
                  ev_Reason = reason, ev_At = t, ev_Kind = [], ev_AccessKeyID = []\<rparr>
        in announce_from E (start + maxTokensPerEvent) tokens us app reason (announce E ev r1)
      else r)"
  by pat_completeness auto
termination
  by (relation "measure (\<lambda>(E, start, tokens, _). length tokens - start)") (auto simp: maxTokensPerEvent_def)

declare announce_from.simps [simp del]

definition announceBatch ::
  "('r, 'j) session_env \<Rightarrow> string list \<Rightarrow> uuid list \<Rightarrow> uuid \<Rightarrow> string \<Rightarrow> 'r \<Rightarrow> 'r" where
  "announceBatch E tokens us app reason r = announce_from E 0 tokens us app reason r"

text \<open>The deferred loop of \<^verbatim>\<open>revokeMatching\<close> over the applications, in the order Go picks.\<close>

fun announce_groups :: "('r, 'j) session_env \<Rightarrow> uuid list \<Rightarrow> groups \<Rightarrow> string \<Rightarrow> 'r \<Rightarrow> 'r" where
  "announce_groups E [] gs reason r = r"
| "announce_groups E (app # apps) gs reason r =
     (case map_of gs app of
        None \<Rightarrow> announce_groups E apps gs reason r
      | Some g \<Rightarrow>
          if ag_tokens g = [] then announce_groups E apps gs reason r
          else announce_groups E apps gs reason
                 (announceBatch E (ag_tokens g) (range_keys E (ag_users g)) app reason r))"

definition revokeMatching ::
  "('r, 'j) session_env \<Rightarrow> uuid list \<Rightarrow> string \<Rightarrow> (Session \<Rightarrow> bool) \<Rightarrow> 'r \<Rightarrow> (nat \<times> goerr option) \<times> 'r" where
  "revokeMatching E us reason match r =
     (case revoke_users E us match [] r of
        ((err, gs), r1) \<Rightarrow> ((revokedCount gs, err), announce_groups E (range_keys E (map fst gs)) gs reason r1))"

definition RevokeSession ::
  "('r, 'j) session_env \<Rightarrow> uuid \<Rightarrow> string \<Rightarrow> string \<Rightarrow> 'r \<Rightarrow> (nat \<times> goerr option) \<times> 'r" where
  "RevokeSession E u sid reason = revokeMatching E [u] reason (\<lambda>s. sess_ID s = sid)"

definition RevokeUsers ::
  "('r, 'j) session_env \<Rightarrow> uuid list \<Rightarrow> string \<Rightarrow> 'r \<Rightarrow> (nat \<times> goerr option) \<times> 'r" where
  "RevokeUsers E us reason = revokeMatching E us reason (\<lambda>_. True)"

definition RevokeUser ::
  "('r, 'j) session_env \<Rightarrow> uuid \<Rightarrow> string \<Rightarrow> 'r \<Rightarrow> (nat \<times> goerr option) \<times> 'r" where
  "RevokeUser E u reason = RevokeUsers E [u] reason"

definition RevokeUserInApp ::
  "('r, 'j) session_env \<Rightarrow> uuid \<Rightarrow> uuid \<Rightarrow> string \<Rightarrow> 'r \<Rightarrow> (nat \<times> goerr option) \<times> 'r" where
  "RevokeUserInApp E u app reason = revokeMatching E [u] reason (\<lambda>s. sess_AppID s = app)"

definition Revoke :: "('r, 'j) session_env \<Rightarrow> string \<Rightarrow> string \<Rightarrow> 'r \<Rightarrow> goerr option \<times> 'r" where
  "Revoke E token reason r =
     (case Get E token r of
        (Inl e, r1) \<Rightarrow> (if errors_Is e ErrNotFound then None else Some e, r1)
      | (Inr sess, r1) \<Rightarrow>
          (case revokeMatching E [sess_UserID sess] reason (\<lambda>x. sess_ID x = sess_ID sess) r1 of
             ((n, err), r2) \<Rightarrow> (err, r2)))"

section \<open>Every operation keeps the store well formed and the epochs growing\<close>

definition epoch_le :: "'j redis_state \<Rightarrow> 'j redis_state \<Rightarrow> bool" where
  "epoch_le st st' \<longleftrightarrow> (\<forall>u n. epoch_at st u = Some n \<longrightarrow> (\<exists>m \<ge> n. epoch_at st' u = Some m))"

definition safe :: "('r, 'j) session_env \<Rightarrow> ('r \<Rightarrow> 'j redis_state) \<Rightarrow> ('r \<Rightarrow> 'a \<times> 'r) \<Rightarrow> bool" where
  "safe E view m \<longleftrightarrow> (\<forall>r. store_wf E (view r) \<longrightarrow>
     store_wf E (view (snd (m r))) \<and> epoch_le (view r) (view (snd (m r))))"

lemma epoch_le_refl [simp]: "epoch_le st st"
  by (auto simp: epoch_le_def)

lemma epoch_le_trans: "epoch_le a b \<Longrightarrow> epoch_le b c \<Longrightarrow> epoch_le a c"
  unfolding epoch_le_def by (meson order_trans)

lemma epoch_le_same: "epoch_at st' = epoch_at st \<Longrightarrow> epoch_le st st'"
  by (simp add: epoch_le_def)

lemma safeI:
  assumes "\<And>r x r'. m r = (x, r') \<Longrightarrow> store_wf E (view r) \<Longrightarrow> store_wf E (view r') \<and> epoch_le (view r) (view r')"
  shows "safe E view m"
  unfolding safe_def
proof (intro allI impI)
  fix r assume "store_wf E (view r)"
  then show "store_wf E (view (snd (m r))) \<and> epoch_le (view r) (view (snd (m r)))"
    using assms [of r "fst (m r)" "snd (m r)"] by simp
qed

lemma safeD:
  assumes "safe E view m" and "m r = (x, r')" and "store_wf E (view r)"
  shows "store_wf E (view r')" and "epoch_le (view r) (view r')"
  using assms by (metis safe_def snd_conv)+

lemma safe_ret [intro]: "safe E view (ret x)" and safe_throw [intro]: "safe E view (throw e)"
  by (auto simp: safe_def)

lemma safe_comp:
  assumes "safe E view m" and "\<And>x. safe E view (f x)"
  shows "safe E view (\<lambda>r. case m r of (x, r') \<Rightarrow> f x r')"
proof (rule safeI)
  fix r y r2 assume *: "(case m r of (x, r') \<Rightarrow> f x r') = (y, r2)" and wf: "store_wf E (view r)"
  obtain x r1 where m: "m r = (x, r1)" by fastforce
  have "store_wf E (view r1)" "epoch_le (view r) (view r1)" using safeD [OF assms(1) m wf] by auto
  moreover have "store_wf E (view r2)" "epoch_le (view r1) (view r2)"
    using safeD [OF assms(2), of x r1 y r2] * m calculation(1) by auto
  ultimately show "store_wf E (view r2) \<and> epoch_le (view r) (view r2)" using epoch_le_trans by blast
qed

lemma safe_bindE [intro]:
  assumes "safe E view m" and "\<And>x. safe E view (f x)"
  shows "safe E view (bindE m f)"
proof -
  have "bindE m f = (\<lambda>r. case m r of (x, r') \<Rightarrow> (case x of Inl e \<Rightarrow> throw e | Inr y \<Rightarrow> f y) r')"
    by (auto simp: bindE_def fun_eq_iff split: prod.splits sum.splits)
  then show ?thesis using assms by (auto intro!: safe_comp split: sum.split)
qed

lemma safe_tryE [intro]: "safe E view m \<Longrightarrow> (\<And>x. safe E view (k x)) \<Longrightarrow> safe E view (tryE m k)"
  unfolding tryE_def by (rule safe_comp)

text \<open>The sessions a validation may hand back differ from the stored one in token and times only.\<close>

definition same_session :: "Session \<Rightarrow> Session \<Rightarrow> bool" where
  "same_session a b \<longleftrightarrow> sess_ID a = sess_ID b \<and> sess_UserID a = sess_UserID b \<and> sess_AppID a = sess_AppID b \<and>
     FirstAuthAt a = FirstAuthAt b \<and> Epoch a = Epoch b \<and> Mobile a = Mobile b \<and> Roles a = Roles b"

definition group_of :: "groups \<Rightarrow> uuid \<Rightarrow> string set" where
  "group_of gs app = (case map_of gs app of None \<Rightarrow> {} | Some g \<Rightarrow> set (ag_tokens g))"

lemma group_of_add: "group_of (add_token a t u gs) app = group_of gs app \<union> (if app = a then {t} else {})"
proof (induction gs)
  case (Cons p gs)
  obtain b g where "p = (b, g)" by fastforce
  then show ?case using Cons by (cases "b = a"; cases "b = app") (simp_all add: group_of_def)
qed (simp add: group_of_def)

text \<open>
  What a sweep from \<^verbatim>\<open>st\<close> to \<^verbatim>\<open>st'\<close> did: sessions only disappear, only matching ones do, and the
  groups grew by tokens of deleted sessions of that application.
\<close>

definition swept ::
  "('r, 'j) session_env \<Rightarrow> (Session \<Rightarrow> bool) \<Rightarrow> groups \<Rightarrow> groups \<Rightarrow> 'j redis_state \<Rightarrow> 'j redis_state \<Rightarrow> bool" where
  "swept E match gs gs' st st' \<longleftrightarrow>
     (\<forall>t s. sess_at E st' t = Some s \<longrightarrow> sess_at E st t = Some s) \<and>
     (\<forall>t s. sess_at E st t = Some s \<longrightarrow> sess_at E st' t = None \<longrightarrow> match s) \<and>
     (\<forall>app. group_of gs app \<subseteq> group_of gs' app) \<and>
     (\<forall>app. \<forall>t \<in> group_of gs' app - group_of gs app.
        \<exists>s. sess_at E st t = Some s \<and> sess_AppID s = app \<and> match s \<and> sess_at E st' t = None) \<and>
     rs_pub st' = rs_pub st"

text \<open>Without an error, everything that disappeared is in the group of its application.\<close>

definition recorded :: "('r, 'j) session_env \<Rightarrow> groups \<Rightarrow> 'j redis_state \<Rightarrow> 'j redis_state \<Rightarrow> bool" where
  "recorded E gs' st st' \<longleftrightarrow>
     (\<forall>t s. sess_at E st t = Some s \<longrightarrow> sess_at E st' t = None \<longrightarrow> t \<in> group_of gs' (sess_AppID s))"

text \<open>The events that went out between two states, and a channel on which publishing never fails.\<close>

definition published :: "('r, 'j) session_env \<Rightarrow> 'j redis_state \<Rightarrow> 'j redis_state \<Rightarrow> RevokeEvent list \<Rightarrow> bool" where
  "published E st st' evs \<longleftrightarrow>
     (\<exists>raws. list_all2 (\<lambda>ev raw. marshal_event E ev = Some raw) evs raws \<and>
        rs_pub st' = rs_pub st @ map (Pair revokeChannel) raws)"

definition pub_works :: "('r, 'j) session_env \<Rightarrow> bool" where
  "pub_works E \<longleftrightarrow> has_pub E \<and> (\<forall>ev r. \<exists>r'. Publish E ev r = (Inr (), r'))"

lemma published_Nil: "rs_pub st' = rs_pub st \<Longrightarrow> published E st st' []"
  by (simp add: published_def)

lemma published_append:
  assumes "published E a b xs" and "published E b c ys"
  shows "published E a c (xs @ ys)"
proof -
  obtain rx ry where "list_all2 (\<lambda>ev raw. marshal_event E ev = Some raw) xs rx" "rs_pub b = rs_pub a @ map (Pair revokeChannel) rx"
    "list_all2 (\<lambda>ev raw. marshal_event E ev = Some raw) ys ry" "rs_pub c = rs_pub b @ map (Pair revokeChannel) ry"
    using assms by (auto simp: published_def)
  then show ?thesis unfolding published_def by (intro exI [of _ "rx @ ry"]) (auto intro: list_all2_appendI)
qed

text \<open>Events for one application, drawn from one list of tokens, each of bounded size.\<close>

definition events_ok :: "uuid \<Rightarrow> string \<Rightarrow> string set \<Rightarrow> RevokeEvent list \<Rightarrow> bool" where
  "events_ok app reason tokens evs \<longleftrightarrow>
     (\<forall>ev \<in> set evs. ev_AppID ev = app \<and> ev_Reason ev = reason \<and> ev_Kind ev = [] \<and> set (ev_Tokens ev) \<subseteq> tokens \<and>
        length (ev_Tokens ev) \<le> maxTokensPerEvent)"

lemma events_ok_append: "events_ok app reason ts (xs @ ys) \<longleftrightarrow> events_ok app reason ts xs \<and> events_ok app reason ts ys"
  by (auto simp: events_ok_def)

locale session_service = session_store E view
  for E :: "('r, 'j) session_env" and view :: "'r \<Rightarrow> 'j redis_state" +
  assumes now_view: "view (snd (now E r)) = view r"
    and random_view: "view (snd (randomToken E r)) = view r"
    and random_err: "randomToken E r = (Inl e, r') \<Longrightarrow> \<not> errors_Is e s"
    and uuid_view: "view (snd (newUUID E r)) = view r"
    and range_set: "set (range_keys E us) = set us"
begin

lemma now_eq: "now E r = (t, r1) \<Longrightarrow> view r1 = view r"
  using now_view [of r] by simp

lemma random_eq: "randomToken E r = (x, r1) \<Longrightarrow> view r1 = view r"
  using random_view [of r] by simp

lemma safe_same_view: "(\<And>r. view (snd (m r)) = view r) \<Longrightarrow> safe E view m"
  by (auto simp: safe_def)

lemma safe_lift: "safe E view m \<Longrightarrow> safe E view (lift m)"
  by (auto simp: safe_def lift_def split: prod.splits)

lemma safe_Get: "safe E view (Get E t)"
  using Get_cases by (intro safeI) fastforce

lemma safe_Current: "safe E view (Current E u)"
  using Current_cases by (intro safeI) fastforce

lemma safe_RotatedTo: "safe E view (RotatedTo E t)"
  using RotatedTo_cases by (intro safeI) fastforce

lemma safe_Put: "safe E view (Put E s ttl)"
proof (rule safeI)
  fix r x r' assume p: "Put E s ttl r = (x, r')" and wf: "store_wf E (view r)"
  obtain ms where ms: "set_members (rs_kv (view r) (userSessionsPrefix @ sess_UserID s)) = Some ms"
    using store_wfD(2) [OF wf] by blast
  from Put_cases [OF p] show "store_wf E (view r') \<and> epoch_le (view r) (view r')"
  proof
    assume "0 < ttl \<and> (\<exists>raw. marshal_sess E s = Some raw \<and> view r' = put_state s raw ttl (view r) \<and>
       (x \<in> range Inr \<longrightarrow> set_members (rs_kv (view r) (userSessionsPrefix @ sess_UserID s)) \<noteq> None))"
    then obtain raw where "0 < ttl" and raw: "unmarshal_sess E raw = Some s" and v: "view r' = put_state s raw ttl (view r)"
      using codec by blast
    then show ?thesis using put_state_wf [OF wf \<open>0 < ttl\<close> raw] put_state_obs(3) [OF ms \<open>0 < ttl\<close> raw]
      by (auto intro: epoch_le_same)
  qed (use wf in auto)
qed

lemma safe_Delete: "safe E view (Delete E t)"
proof (rule safeI)
  fix r x r' assume "Delete E t r = (x, r')" and wf: "store_wf E (view r)"
  from Delete_cases [OF this(1)] show "store_wf E (view r') \<and> epoch_le (view r) (view r')"
    using del_state_wf [OF wf] wf by (auto intro: epoch_le_same simp: del_state_obs(3))
qed

lemma safe_ListUserTokens: "safe E view (ListUserTokens E u)"
  using ListUserTokens_cases pruned_wf pruned_obs(2) by (intro safeI) (blast intro: epoch_le_same)

lemma safe_upd_key:
  assumes "store_wf E st" and "\<And>t. k \<noteq> sessionKeyPrefix @ t" and "\<And>u. k \<noteq> userSessionsPrefix @ u"
    and "\<And>u. k \<noteq> epochKey u"
  shows "store_wf E (st\<lparr>rs_kv := (rs_kv st)(k := v)\<rparr>) \<and> epoch_le st (st\<lparr>rs_kv := (rs_kv st)(k := v)\<rparr>)"
  using assms
  by (simp add: store_wf_def sess_at_def user_index_def epoch_at_def epoch_le_def [abs_def] not_sym)

lemma safe_TryLock: "safe E view (TryLock E k ttl)"
proof (rule safeI)
  fix r x r' assume t: "TryLock E k ttl r = (x, r')" and wf: "store_wf E (view r)"
  show "store_wf E (view r') \<and> epoch_le (view r) (view r')"
    using TryLock_cases [OF t, of ErrNotFound] wf safe_upd_key [OF wf, of "sessionLockPrefix @ k"] by auto
qed

lemma safe_PutRotation: "safe E view (PutRotation E a b ttl)"
proof (rule safeI)
  fix r x r' assume t: "PutRotation E a b ttl r = (x, r')" and wf: "store_wf E (view r)"
  show "store_wf E (view r') \<and> epoch_le (view r) (view r')"
    using PutRotation_cases [OF t] wf safe_upd_key [OF wf, of "rotationPrefix @ a"] by auto
qed

lemma safe_Bump: "safe E view (Bump E u)"
proof (rule safeI)
  fix r x r' assume b: "Bump E u r = (x, r')" and wf: "store_wf E (view r)"
  show "store_wf E (view r') \<and> epoch_le (view r) (view r')"
  proof (cases "view r' = view r")
    case False
    then obtain n where n: "epoch_at (view r) u = Some n" "in_int64 (n + 1)" and
      v: "view r' = (view r)\<lparr>rs_kv := (rs_kv (view r))(epochKey u \<mapsto> (RStr (FormatInt (n + 1)), ttl_of (rs_kv (view r) (epochKey u))))\<rparr>"
      using Bump_cases [OF b] by auto
    have e: "epoch_at (view r') = (epoch_at (view r))(u \<mapsto> n + 1)"
      using n by (auto simp: v fun_eq_iff epoch_at_def counter_value_def ParseInt_FormatInt)
    have "store_wf E (view r')"
      using wf e by (auto simp: store_wf_def v sess_at_def user_index_def)
    then show ?thesis using e n(1) by (auto simp: epoch_le_def)
  qed (use wf in auto)
qed

lemmas safe_ops = safe_Get safe_Current safe_RotatedTo safe_Put safe_Delete safe_ListUserTokens safe_TryLock
  safe_PutRotation safe_Bump safe_lift [OF safe_same_view [OF now_view]] safe_lift [OF safe_same_view [OF uuid_view]]
  safe_same_view [OF random_view] safe_ret safe_throw

lemma safe_Issue: "safe E view (Issue E i)"
  unfolding Issue_def Let_def by (cases "in_App i") (auto intro!: safe_ops safe_bindE)

lemma safe_tryExtend: "safe E view (tryExtend E s app t)"
  unfolding tryExtend_def Let_def by (auto intro!: safe_ops safe_bindE)

lemma safe_tryRotate: "safe E view (tryRotate E s app t)"
  unfolding tryRotate_def Let_def by (auto intro!: safe_ops safe_bindE)

lemma safe_refresh: "safe E view (refresh E s app t)"
  unfolding refresh_def finish_def Let_def by (auto intro!: safe_ops safe_tryRotate safe_tryExtend safe_bindE)

lemma safe_Validate: "safe E view (Validate E t app)"
  unfolding Validate_def
  by (auto intro!: safe_ops safe_refresh safe_bindE safe_tryE split: option.split sum.split)

lemma safe_list_sessions: "safe E view (list_sessions E ts out)"
proof (induction ts arbitrary: out)
  case (Cons t ts)
  then show ?case by (auto intro!: safe_ops safe_tryE split: sum.split)
qed (simp only: list_sessions.simps safe_ret)

lemma safe_ListByUser: "safe E view (ListByUser E u)"
  unfolding ListByUser_def by (auto intro!: safe_ops safe_bindE safe_list_sessions)

lemma safe_revoke_tokens: "safe E view (revoke_tokens E u match ts gs)"
proof (induction ts arbitrary: gs)
  case Nil
  then show ?case by (simp add: safe_def)
next
  case (Cons t ts)
  have D: "safe E view (\<lambda>r. case Delete E t r of
      (x, r2) \<Rightarrow> (case x of Inl e \<Rightarrow> \<lambda>r. ((Some e, gs), r) | Inr _ \<Rightarrow> revoke_tokens E u match ts gs') r2)" for gs'
    by (rule safe_comp [OF safe_Delete]) (auto simp: safe_def [where m = "\<lambda>r. (_, r)"] Cons split: sum.split)
  have "safe E view (\<lambda>r. case Get E t r of
      (x, r1) \<Rightarrow> (case x of
         Inl e \<Rightarrow> if errors_Is e ErrNotFound then revoke_tokens E u match ts gs else (\<lambda>r. ((Some e, gs), r))
       | Inr s \<Rightarrow> if \<not> match s then revoke_tokens E u match ts gs
           else (\<lambda>r. case Delete E t r of (x, r2) \<Rightarrow>
             (case x of Inl e \<Rightarrow> \<lambda>r. ((Some e, gs), r)
              | Inr _ \<Rightarrow> revoke_tokens E u match ts (add_token (sess_AppID s) t u gs)) r2)) r1)"
    by (rule safe_comp [OF safe_Get])
       (auto simp: safe_def [where m = "\<lambda>r. (_, r)"] Cons D split: sum.split)
  moreover have "revoke_tokens E u match (t # ts) gs = (\<lambda>r. case Get E t r of
      (x, r1) \<Rightarrow> (case x of
         Inl e \<Rightarrow> if errors_Is e ErrNotFound then revoke_tokens E u match ts gs else (\<lambda>r. ((Some e, gs), r))
       | Inr s \<Rightarrow> if \<not> match s then revoke_tokens E u match ts gs
           else (\<lambda>r. case Delete E t r of (x, r2) \<Rightarrow>
             (case x of Inl e \<Rightarrow> \<lambda>r. ((Some e, gs), r)
              | Inr _ \<Rightarrow> revoke_tokens E u match ts (add_token (sess_AppID s) t u gs)) r2)) r1)"
    by (auto simp: fun_eq_iff split: prod.split sum.split)
  ultimately show ?case by simp
qed

lemma safe_revokeUserTokens: "safe E view (revokeUserTokens E u match gs)"
proof -
  have "revokeUserTokens E u match gs = (\<lambda>r. case ListUserTokens E u r of
      (x, r1) \<Rightarrow> (case x of Inl e \<Rightarrow> (\<lambda>r. ((Some e, gs), r)) | Inr ts \<Rightarrow> revoke_tokens E u match ts gs) r1)"
    by (auto simp: revokeUserTokens_def fun_eq_iff split: prod.split sum.split)
  then show ?thesis using safe_revoke_tokens
    by (auto intro!: safe_comp safe_ListUserTokens simp: safe_def [where m = "\<lambda>r. (_, r)"] split: sum.split)
qed

lemma safe_revoke_users: "safe E view (revoke_users E us match gs)"
proof (induction us arbitrary: gs)
  case Nil
  then show ?case by (simp add: safe_def)
next
  case (Cons u us)
  have "revoke_users E (u # us) match gs = (\<lambda>r. case revokeUserTokens E u match gs r of
      (x, r1) \<Rightarrow> (case x of (Some e, gs1) \<Rightarrow> (\<lambda>r. ((Some e, gs1), r)) | (None, gs1) \<Rightarrow> revoke_users E us match gs1) r1)"
    by (auto simp: fun_eq_iff split: prod.split option.split)
  then show ?case using Cons
    by (auto intro!: safe_comp safe_revokeUserTokens simp: safe_def [where m = "\<lambda>r. (_, r)"] split: prod.split option.split)
qed

text \<open>Announcing only publishes.\<close>

lemma announce_kv: "rs_kv (view (announce E ev r)) = rs_kv (view r)"
  using Publish_cases [of ev r "fst (Publish E ev r)" "snd (Publish E ev r)"] by (simp add: announce_def)

lemma announce_from_kv: "rs_kv (view (announce_from E start ts us app reason r)) = rs_kv (view r)"
proof (induction "length ts - start" arbitrary: start r rule: less_induct)
  case less
  show ?case
    by (subst announce_from.simps)
       (auto simp: Let_def less maxTokensPerEvent_def announce_kv now_eq split: prod.split)
qed

lemma announce_groups_kv: "rs_kv (view (announce_groups E apps gs reason r)) = rs_kv (view r)"
  by (induction apps arbitrary: r) (auto simp: announceBatch_def announce_from_kv split: option.split)

lemma kv_obs:
  assumes "rs_kv st' = rs_kv st"
  shows "store_wf E st' = store_wf E st" and "epoch_at st' = epoch_at st" and "sess_at E st' = sess_at E st"
  using assms by (simp_all add: store_wf_def epoch_at_def sess_at_def user_index_def fun_eq_iff)

lemma safe_revokeMatching: "safe E view (revokeMatching E us reason match)"
proof (rule safeI)
  fix r x r' assume m: "revokeMatching E us reason match r = (x, r')" and wf: "store_wf E (view r)"
  obtain err gs r1 where u: "revoke_users E us match [] r = ((err, gs), r1)" by (metis prod.exhaust)
  then have "r' = announce_groups E (range_keys E (map fst gs)) gs reason r1"
    using m by (simp add: revokeMatching_def)
  then have "rs_kv (view r') = rs_kv (view r1)" by (simp add: announce_groups_kv)
  then show "store_wf E (view r') \<and> epoch_le (view r) (view r')"
    using safeD [OF safe_revoke_users u wf] kv_obs [of "view r'" "view r1"] by (simp add: epoch_le_def)
qed

lemma safe_Revoke: "safe E view (Revoke E token reason)"
proof -
  have "Revoke E token reason = (\<lambda>r. case Get E token r of (x, r1) \<Rightarrow>
      (case x of Inl e \<Rightarrow> (\<lambda>r. (if errors_Is e ErrNotFound then None else Some e, r))
       | Inr s \<Rightarrow> (\<lambda>r. case revokeMatching E [sess_UserID s] reason (\<lambda>x. sess_ID x = sess_ID s) r of
            (y, r2) \<Rightarrow> (snd y, r2))) r1)"
    by (auto simp: Revoke_def fun_eq_iff split: prod.split sum.split)
  moreover have "safe E view (\<lambda>r. case revokeMatching E us reason m r of (y, r2) \<Rightarrow> (snd y, r2))" for us m
    by (rule safe_comp [OF safe_revokeMatching]) (simp add: safe_def)
  ultimately show ?thesis
    by (auto intro!: safe_comp safe_Get simp: safe_def [where m = "\<lambda>r. (_, r)"] split: sum.split)
qed

subsection \<open>Validation\<close>

lemma lift_eq: "lift f r = (x, r') \<longleftrightarrow> (\<exists>y. f r = (y, r') \<and> x = Inr y)"
  by (auto simp: lift_def split: prod.splits)

lemma cacheTTL_le: "cacheTTL rem p \<le> rem" "cacheTTL rem p \<le> dur_seconds (TokenCacheTTLSeconds p)"
  by (auto simp: cacheTTL_def Let_def)

lemma Grace_ge: "dur_seconds (TokenCacheTTLSeconds p) \<le> GraceDuration p" "MinRotateGrace \<le> GraceDuration p"
  by (auto simp: GraceDuration_def Let_def)

lemma refresh_sound:
  assumes "refresh E sess app t r = (Inr res, r')"
  shows "\<exists>r1 t2. now E r1 = (t2, r') \<and> same_session (vres_Session res) sess \<and>
    CacheTTL res = cacheTTL (RemainingAt (vres_Session res) t2 (app_Session app)) (app_Session app)"
proof -
  have ext: "same_session s sess" if "tryExtend E sess app t r = (Inr (Some s), r1)" for s r1
    using that by (auto simp: tryExtend_def bindE_Inr_iff same_session_def Let_def split: if_splits)
  have rot: "same_session s sess" if "tryRotate E sess app t r = (Inr (n, Some s), r1)" for s n r1
    using that by (auto simp: tryRotate_def bindE_Inr_iff same_session_def Let_def split: if_splits)
  have same: "same_session sess sess" by (simp add: same_session_def)
  have "\<exists>s rotated new r1. same_session s sess \<and> finish E (app_Session app) s rotated new r1 = (Inr res, r')"
    using assms ext rot same
    by (auto simp: refresh_def Let_def bindE_Inr_iff split: if_splits option.splits) blast+
  then show ?thesis by (auto simp: finish_def bindE_Inr_iff lift_eq) blast
qed

lemma Validate_accepts:
  assumes "Validate E token (Some app) r = (Inr res, r')" and wf: "store_wf E (view r)"
  shows "\<exists>s r1 t. token \<noteq> [] \<and> sess_at E (view r) token = Some s \<and> sess_AppID s = app_ID app \<and>
    epoch_at (view r) (sess_UserID s) = Some (Epoch s) \<and>
    fst (now E r1) = t \<and> 0 < RemainingAt s t (app_Session app) \<and> view r1 = view r \<and>
    refresh E s app t (snd (now E r1)) = (Inr res, r')"
proof -
  obtain g r0 where g: "Get E token r = (g, r0)" by fastforce
  note gc = Get_cases [OF g]
  have ne: "token \<noteq> []" using assms(1) by (auto simp: Validate_def)
  obtain s where s: "g = Inr s"
    using assms(1) g ne by (cases g) (auto simp: Validate_def tryE_def split: if_splits)
  obtain ep r1 where c: "Current E (sess_UserID s) r0 = (ep, r1)" by fastforce
  have v: "view r0 = view r" using gc by blast
  note cc = Current_wf [OF c, unfolded v, OF wf]
  have app: "sess_AppID s = app_ID app" using assms(1) g ne s by (auto simp: Validate_def tryE_def split: if_splits)
  obtain n where n: "ep = Inr n"
    using assms(1) g ne s app c by (cases ep) (auto simp: Validate_def tryE_def bindE_def)
  have e: "n = Epoch s"
    using assms(1) g ne s app c n by (auto simp: Validate_def tryE_def bindE_def split: if_splits prod.splits)
  obtain t r2 where t: "now E r1 = (t, r2)" by fastforce
  have "0 < RemainingAt s t (app_Session app)" "refresh E s app t r2 = (Inr res, r')"
    using assms(1) g ne s app c n e t
    by (auto simp: Validate_def tryE_def bindE_def lift_def split: if_splits)
  then show ?thesis using ne s app n e t cc gc v
    by (intro exI [of _ s] exI [of _ r1] exI [of _ t]) auto
qed

subsection \<open>Rotation\<close>

lemma tryRotate_done:
  assumes "tryRotate E sess app t r = (Inr (tok, Some ns), r')" and wf: "store_wf E (view r)"
    and ne: "tok \<noteq> Token sess"
  defines "grace \<equiv> GraceDuration (app_Session app)"
  shows "Token ns = tok \<and> same_session ns sess \<and> IssuedAt ns = t \<and>
    IdleExpiresAt ns = wrap64 (t + Milliseconds (IdleTimeoutFor (app_Session app) (Mobile sess)))"
    and "sess_at E (view r') tok = Some ns"
    and "sess_at E (view r') (Token sess) = Some (sess\<lparr>IdleExpiresAt := wrap64 (t + Milliseconds grace)\<rparr>)"
    and "rotation_at (view r') (Token sess) = Some tok"
    and "\<exists>v. rs_kv (view r') (sessionKeyPrefix @ tok) = Some (v, Some (RemainingAt ns t (app_Session app)))"
    and "\<exists>v. rs_kv (view r') (userSessionsPrefix @ sess_UserID sess) = Some (v, Some (max grace (7 * 24 * 3600 * ns_per_s)))"
proof -
  let ?p = "app_Session app"
  let ?new = "sess\<lparr>Token := tok, IssuedAt := t, LastExtendedAt := t,
      IdleExpiresAt := wrap64 (t + Milliseconds (IdleTimeoutFor ?p (Mobile sess)))\<rparr>"
  let ?old = "sess\<lparr>IdleExpiresAt := wrap64 (t + Milliseconds grace)\<rparr>"
  obtain r1 r2 r3 r4 where l: "TryLock E (''rot:'' @ sess_ID sess) grace r = (Inr True, r1)"
    and rt: "randomToken E r1 = (Inr tok, r2)"
    and p1: "Put E ?new (RemainingAt ?new t ?p) r2 = (Inr (), r3)"
    and pr: "PutRotation E (Token sess) tok grace r3 = (Inr (), r4)"
    and p2: "Put E ?old grace r4 = (Inr (), r')"
    and ns: "ns = ?new"
    using assms(1) by (auto simp: tryRotate_def bindE_Inr_iff Let_def grace_def split: if_splits)
  show "Token ns = tok \<and> same_session ns sess \<and> IssuedAt ns = t \<and>
      IdleExpiresAt ns = wrap64 (t + Milliseconds (IdleTimeoutFor ?p (Mobile sess)))"
    by (simp add: ns same_session_def)
  obtain raw1 ms1 where raw1: "unmarshal_sess E raw1 = Some ?new" and ttl1: "0 < RemainingAt ?new t ?p"
    and ms1: "set_members (rs_kv (view r2) (userSessionsPrefix @ sess_UserID ?new)) = Some ms1"
    and v3: "view r3 = put_state ?new raw1 (RemainingAt ?new t ?p) (view r2)"
    using Put_ok [OF p1] codec by blast
  have v4: "view r4 = (view r3)\<lparr>rs_kv := (rs_kv (view r3))(rotationPrefix @ Token sess \<mapsto> (RStr tok, Some grace))\<rparr>"
    using PutRotation_cases [OF pr] by auto
  obtain raw2 ms2 where raw2: "unmarshal_sess E raw2 = Some ?old" and ttl2: "0 < grace"
    and ms2: "set_members (rs_kv (view r4) (userSessionsPrefix @ sess_UserID ?old)) = Some ms2"
    and v5: "view r' = put_state ?old raw2 grace (view r4)"
    using Put_ok [OF p2] codec by blast
  note all = trans [OF v5 put_state_eq [OF ms2 ttl2]] v4 trans [OF v3 put_state_eq [OF ms1 ttl1]] raw1 raw2
  show "sess_at E (view r') tok = Some ns" using ne by (simp add: all sess_at_def ns)
  show "sess_at E (view r') (Token sess) = Some ?old" by (simp add: all sess_at_def)
  show "rotation_at (view r') (Token sess) = Some tok" by (simp add: all rotation_at_def)
  show "\<exists>v. rs_kv (view r') (sessionKeyPrefix @ tok) = Some (v, Some (RemainingAt ns t ?p))"
    using ne by (simp add: all ns)
  show "\<exists>v. rs_kv (view r') (userSessionsPrefix @ sess_UserID sess) = Some (v, Some (max grace (7 * 24 * 3600 * ns_per_s)))"
    by (simp add: all)
qed

subsection \<open>Revocation\<close>

lemma revokedCount_add: "revokedCount (add_token a t u gs) = Suc (revokedCount gs)"
  by (induction gs) (auto simp: revokedCount_def)

lemma swept_refl: "swept E match gs gs st st"
  by (simp add: swept_def)

lemma swept_mono: "swept E match gs gs' st st' \<Longrightarrow> sess_at E st' t = Some s \<Longrightarrow> sess_at E st t = Some s"
  by (simp add: swept_def)

lemma swept_trans:
  assumes "swept E match a b x y" and "swept E match b c y z"
  shows "swept E match a c x z"
  unfolding swept_def
proof (intro conjI allI impI ballI)
  note A = assms(1)[unfolded swept_def] and B = assms(2)[unfolded swept_def]
  show "sess_at E x t = Some s" if "sess_at E z t = Some s" for t s using A B that by blast
  show "match s" if "sess_at E x t = Some s" "sess_at E z t = None" for t s
    using A B that by (cases "sess_at E y t") fastforce+
  show "group_of a app \<subseteq> group_of c app" for app using A B by blast
  show "\<exists>s. sess_at E x t = Some s \<and> sess_AppID s = app \<and> match s \<and> sess_at E z t = None"
    if "t \<in> group_of c app - group_of a app" for app t
  proof (cases "t \<in> group_of b app")
    case True
    then show ?thesis using A B that by (metis DiffD2 DiffI option.exhaust)
  next
    case False
    then show ?thesis using A B that by (metis DiffD1 DiffI)
  qed
  show "rs_pub z = rs_pub x" using A B by simp
qed

lemma recorded_trans:
  assumes "swept E match a b x y" and "recorded E b x y" and "swept E match b c y z" and "recorded E c y z"
  shows "recorded E c x z"
  unfolding recorded_def
proof (intro allI impI)
  fix t s assume *: "sess_at E x t = Some s" "sess_at E z t = None"
  show "t \<in> group_of c (sess_AppID s)"
  proof (cases "sess_at E y t")
    case None
    then have "t \<in> group_of b (sess_AppID s)" using * assms(2) by (simp add: recorded_def)
    then show ?thesis using assms(3) by (auto simp: swept_def)
  next
    case (Some s')
    then have "s' = s" using * assms(1) by (auto simp: swept_def)
    then show ?thesis using * Some assms(4) by (auto simp: recorded_def)
  qed
qed

lemma swept_pruned: "pruned u st st' \<Longrightarrow> swept E match gs gs st st' \<and> recorded E gs st st'"
  by (simp add: swept_def recorded_def pruned_obs)

lemma swept_delete:
  assumes "Delete E t r = (res, r')" and "sess_at E (view r) t = Some s" and "match s"
  shows "swept E match gs gs (view r) (view r')"
    and "res = Inr () \<Longrightarrow> swept E match gs (add_token (sess_AppID s) t u gs) (view r) (view r') \<and>
           recorded E (add_token (sess_AppID s) t u gs) (view r) (view r') \<and> sess_at E (view r') t = None"
  using Delete_cases [OF assms(1)] assms(2,3)
  by (auto simp: swept_def recorded_def del_state_obs group_of_add split: if_splits)

text \<open>A sweep over a set of tokens or users, finished without an error, has got all of them.\<close>

definition cleared :: "(Session \<Rightarrow> bool) \<Rightarrow> goerr option \<Rightarrow> groups \<Rightarrow> groups \<Rightarrow> 'r \<Rightarrow> 'r \<Rightarrow> (string \<Rightarrow> Session \<Rightarrow> bool) \<Rightarrow> bool" where
  "cleared match err gs gs' r r' P \<longleftrightarrow> swept E match gs gs' (view r) (view r') \<and>
     (err = None \<longrightarrow> recorded E gs' (view r) (view r') \<and>
        (\<forall>t s. sess_at E (view r') t = Some s \<longrightarrow> P t s \<longrightarrow> \<not> match s))"

lemma cleared_trans:
  assumes "cleared match None gs gs1 r r1 P" and "cleared match err gs1 gs' r1 r' Q"
  shows "cleared match err gs gs' r r' (\<lambda>t s. P t s \<or> Q t s)"
  using assms swept_trans [of match gs gs1 "view r" "view r1" gs' "view r'"]
    recorded_trans [of match gs gs1 "view r" "view r1" gs' "view r'"]
    swept_mono [of match gs1 gs' "view r1" "view r'"]
  unfolding cleared_def by blast

lemma cleared_stop: "cleared match (Some e) gs gs r r' P" if "swept E match gs gs (view r) (view r')"
  using that by (simp add: cleared_def)

lemma revoke_tokens_done:
  assumes "revoke_tokens E u match ts gs r = ((err, gs'), r')" and "store_wf E (view r)"
  shows "cleared match err gs gs' r r' (\<lambda>t s. t \<in> set ts)"
  using assms
proof (induction ts arbitrary: gs r)
  case Nil
  then show ?case by (auto simp: cleared_def swept_refl recorded_def)
next
  case (Cons t ts)
  obtain g r1 where g: "Get E t r = (g, r1)" by fastforce
  have v: "view r1 = view r" using Get_cases [OF g] by simp
  have skip: "cleared match err gs gs' r r' (\<lambda>k s. k \<in> set (t # ts))"
    if "revoke_tokens E u match ts gs r1 = ((err, gs'), r')" "\<And>s. sess_at E (view r) t = Some s \<Longrightarrow> \<not> match s"
  proof -
    have "cleared match None gs gs r r1 (\<lambda>k s. k = t)"
      using that(2) by (auto simp: cleared_def v swept_refl recorded_def)
    from cleared_trans [OF this Cons.IH [OF that(1)]] show ?thesis using Cons.prems(2) v by simp
  qed
  show ?case
  proof (cases g)
    case (Inl e)
    show ?thesis
    proof (cases "errors_Is e ErrNotFound")
      case True
      then have "sess_at E (view r) t = None" using Get_cases [OF g] Inl by (simp add: sess_at_def)
      then show ?thesis using Cons.prems(1) g Inl True by (intro skip) auto
    next
      case False
      then show ?thesis using Cons.prems(1) g Inl v by (auto simp: cleared_stop swept_refl)
    qed
  next
    case (Inr s)
    then have s: "sess_at E (view r) t = Some s" using Get_cases [OF g] by simp
    show ?thesis
    proof (cases "match s")
      case False
      then show ?thesis using Cons.prems(1) g Inr s by (intro skip) auto
    next
      case True
      obtain d r2 where d: "Delete E t r1 = (d, r2)" by fastforce
      note sd = swept_delete [OF d, unfolded v, OF s, of match]
      show ?thesis
      proof (cases d)
        case (Inl e)
        then show ?thesis using Cons.prems(1) g Inr True d sd(1) v by (auto simp: cleared_stop)
      next
        case (Inr x)
        let ?gs = "add_token (sess_AppID s) t u gs"
        have "cleared match None gs ?gs r r2 (\<lambda>k s. k = t)"
          using sd(2) True Inr by (auto simp: cleared_def)
        moreover have "cleared match err ?gs gs' r2 r' (\<lambda>k s. k \<in> set ts)"
          using Cons.prems g \<open>g = Inr s\<close> True d Inr safeD(1) [OF safe_Delete d] v by (intro Cons.IH) auto
        ultimately show ?thesis using cleared_trans by fastforce
      qed
    qed
  qed
qed

lemma revokeUserTokens_done:
  assumes "revokeUserTokens E u match gs r = ((err, gs'), r')" and wf: "store_wf E (view r)"
  shows "cleared match err gs gs' r r' (\<lambda>t s. sess_UserID s = u)"
proof -
  obtain x r1 where l: "ListUserTokens E u r = (x, r1)" by fastforce
  note lc = ListUserTokens_cases [OF l wf]
  have p: "swept E match gs gs (view r) (view r1)" "recorded E gs (view r) (view r1)"
    using lc swept_pruned by blast+
  show ?thesis
  proof (cases x)
    case (Inl e)
    then show ?thesis using assms(1) l p(1) by (auto simp: revokeUserTokens_def cleared_stop)
  next
    case (Inr ts)
    have "cleared match None gs gs r r1 (\<lambda>t s. False)" using p by (simp add: cleared_def)
    moreover have "cleared match err gs gs' r1 r' (\<lambda>t s. t \<in> set ts)"
      using assms(1) l Inr safeD(1) [OF safe_ListUserTokens l wf]
      by (intro revoke_tokens_done) (auto simp: revokeUserTokens_def)
    ultimately have D: "cleared match err gs gs' r r' (\<lambda>t s. t \<in> set ts)" using cleared_trans by fastforce
    have "t \<in> set ts" if "sess_at E (view r) t = Some s" "sess_UserID s = u" for t s
      using that lc Inr store_wfD(1) [OF wf, of t]
      by (auto simp: sess_at_def split: option.splits rval.splits prod.splits)
    then show ?thesis using D swept_mono [of match gs gs' "view r" "view r'"] unfolding cleared_def by blast
  qed
qed

lemma revoke_users_done:
  assumes "revoke_users E us match gs r = ((err, gs'), r')" and "store_wf E (view r)"
  shows "cleared match err gs gs' r r' (\<lambda>t s. sess_UserID s \<in> set us)"
  using assms
proof (induction us arbitrary: gs r)
  case Nil
  then show ?case by (auto simp: cleared_def swept_refl recorded_def)
next
  case (Cons u us)
  obtain e1 gs1 r1 where u: "revokeUserTokens E u match gs r = ((e1, gs1), r1)" by (metis prod.exhaust)
  note d = revokeUserTokens_done [OF u Cons.prems(2)]
  show ?case
  proof (cases e1)
    case (Some e)
    then show ?thesis using Cons.prems(1) u d by (auto simp: cleared_def)
  next
    case None
    then have "cleared match err gs1 gs' r1 r' (\<lambda>t s. sess_UserID s \<in> set us)"
      using Cons.prems u safeD(1) [OF safe_revokeUserTokens u] by (intro Cons.IH) auto
    with d None show ?thesis using cleared_trans by fastforce
  qed
qed

lemma announce_published:
  "\<exists>evs. set evs \<subseteq> {ev} \<and> published E (view r) (view (announce E ev r)) evs \<and> (pub_works E \<longrightarrow> evs = [ev])"
proof (cases "has_pub E")
  case False
  then show ?thesis by (auto simp: announce_def pub_works_def intro!: exI [of _ "[]"] published_Nil)
next
  case True
  obtain res r' where p: "Publish E ev r = (res, r')" by fastforce
  then have a: "announce E ev r = r'" using True by (simp add: announce_def)
  have w: "pub_works E \<Longrightarrow> res = Inr ()" using p unfolding pub_works_def by (metis prod.inject)
  from Publish_cases [OF p] consider
    (no) "rs_pub (view r') = rs_pub (view r)" "\<exists>e. res = Inl e"
  | (yes) raw where "marshal_event E ev = Some raw" "rs_pub (view r') = rs_pub (view r) @ [(revokeChannel, raw)]"
    by blast
  then show ?thesis
  proof cases
    case no
    then show ?thesis using a w by (auto intro!: exI [of _ "[]"] published_Nil)
  next
    case yes
    then show ?thesis using a by (intro exI [of _ "[ev]"]) (auto simp: published_def intro!: exI [of _ "[raw]"])
  qed
qed

lemma announce_from_published:
  "\<exists>evs. published E (view r) (view (announce_from E start ts us app reason r)) evs \<and>
     events_ok app reason (set ts) evs \<and>
     (pub_works E \<longrightarrow> set (List.drop start ts) \<subseteq> (\<Union>ev \<in> set evs. set (ev_Tokens ev)))"
proof (induction "length ts - start" arbitrary: start r rule: less_induct)
  case less
  show ?case
  proof (cases "start < length ts")
    case False
    then show ?thesis
      by (subst announce_from.simps) (auto intro!: exI [of _ "[]"] simp: published_def events_ok_def)
  next
    case True
    obtain t r1 where n: "now E r = (t, r1)" by fastforce
    define ev where "ev = \<lparr>ev_Tokens = take (min (start + maxTokensPerEvent) (length ts) - start) (List.drop start ts),
      ev_UserIDs = us, ev_AppID = app, ev_Reason = reason, ev_At = t, ev_Kind = [], ev_AccessKeyID = []\<rparr>"
    have step: "announce_from E start ts us app reason r =
        announce_from E (start + maxTokensPerEvent) ts us app reason (announce E ev r1)"
      using True n by (subst announce_from.simps) (simp add: Let_def ev_def)
    have evt: "ev_Tokens ev = take maxTokensPerEvent (List.drop start ts)"
      by (simp add: ev_def min_def)
    obtain xs where xs: "set xs \<subseteq> {ev}" "published E (view r1) (view (announce E ev r1)) xs" "pub_works E \<longrightarrow> xs = [ev]"
      using announce_published by blast
    have "length ts - (start + maxTokensPerEvent) < length ts - start"
      using True by (simp add: maxTokensPerEvent_def)
    from less [OF this, of "announce E ev r1"] obtain ys
      where ys: "published E (view (announce E ev r1)) (view (announce_from E start ts us app reason r)) ys"
        "events_ok app reason (set ts) ys"
        "pub_works E \<longrightarrow> set (List.drop (start + maxTokensPerEvent) ts) \<subseteq> (\<Union>ev \<in> set ys. set (ev_Tokens ev))"
      unfolding step by blast
    have "set (ev_Tokens ev) \<subseteq> set ts" unfolding evt by (meson in_set_dropD in_set_takeD subsetI)
    moreover have "ev_AppID ev = app" "ev_Reason ev = reason" "ev_Kind ev = []" by (simp_all add: ev_def)
    moreover have "length (ev_Tokens ev) \<le> maxTokensPerEvent" by (simp add: evt)
    ultimately have "events_ok app reason (set ts) xs" using xs(1) unfolding events_ok_def by blast
    moreover have "set (List.drop start ts) = set (ev_Tokens ev) \<union> set (List.drop (start + maxTokensPerEvent) ts)"
      unfolding evt by (metis add.commute append_take_drop_id drop_drop set_append)
    ultimately show ?thesis
      using published_append [OF xs(2) ys(1)] ys(2,3) xs(3) now_eq [OF n]
      by (intro exI [of _ "xs @ ys"]) (auto simp: events_ok_append)
  qed
qed

lemma announce_groups_published:
  "\<exists>evs. published E (view r) (view (announce_groups E apps gs reason r)) evs \<and>
     (\<forall>ev \<in> set evs. ev_Kind ev = [] \<and> ev_Reason ev = reason \<and> length (ev_Tokens ev) \<le> maxTokensPerEvent \<and>
        set (ev_Tokens ev) \<subseteq> group_of gs (ev_AppID ev)) \<and>
     (pub_works E \<longrightarrow> (\<forall>app \<in> set apps. \<forall>t \<in> group_of gs app. \<exists>ev \<in> set evs. ev_AppID ev = app \<and> t \<in> set (ev_Tokens ev)))"
proof (induction apps arbitrary: r)
  case Nil
  then show ?case by (auto intro!: exI [of _ "[]"] published_Nil)
next
  case (Cons app apps)
  show ?case
  proof (cases "group_of gs app = {}")
    case True
    then have "announce_groups E (app # apps) gs reason r = announce_groups E apps gs reason r"
      by (auto simp: group_of_def split: option.splits)
    then show ?thesis using Cons [of r] True by simp
  next
    case False
    then obtain g where g: "map_of gs app = Some g" "ag_tokens g \<noteq> []" "group_of gs app = set (ag_tokens g)"
      by (auto simp: group_of_def split: option.splits)
    define r1 where "r1 = announceBatch E (ag_tokens g) (range_keys E (ag_users g)) app reason r"
    obtain xs where xs: "published E (view r) (view r1) xs" "events_ok app reason (set (ag_tokens g)) xs"
        "pub_works E \<longrightarrow> set (ag_tokens g) \<subseteq> (\<Union>ev \<in> set xs. set (ev_Tokens ev))"
      using announce_from_published [of r 0 "ag_tokens g"] unfolding r1_def announceBatch_def by (metis drop0)
    obtain ys where ys: "published E (view r1) (view (announce_groups E apps gs reason r1)) ys"
      "\<forall>ev \<in> set ys. ev_Kind ev = [] \<and> ev_Reason ev = reason \<and> length (ev_Tokens ev) \<le> maxTokensPerEvent \<and>
        set (ev_Tokens ev) \<subseteq> group_of gs (ev_AppID ev)"
      "pub_works E \<longrightarrow> (\<forall>app \<in> set apps. \<forall>t \<in> group_of gs app. \<exists>ev \<in> set ys. ev_AppID ev = app \<and> t \<in> set (ev_Tokens ev))"
      using Cons [of r1] by blast
    have "announce_groups E (app # apps) gs reason r = announce_groups E apps gs reason r1"
      using g by (simp add: r1_def)
    then show ?thesis
      using published_append [OF xs(1) ys(1)] xs(2,3) ys(2,3) g(3)
      by (intro exI [of _ "xs @ ys"]) (auto simp: events_ok_def, blast+)
  qed
qed

end

end
