(* ===== verification/Session_Properties.thy ===== *)
theory Session_Properties
  imports Session_Service
begin

text \<open>
  What the session layer promises, on every world that satisfies the laws of \<^verbatim>\<open>session_service\<close>:
  soundness of \<^verbatim>\<open>Validate\<close>, uniform rejections, rotation, the epoch fence over arbitrary
  sequences of operations, complete revocation with announcements that stay within their application. The laws are
  discharged for an in-memory world, which the witnesses run on.
\<close>

section \<open>An in-memory world\<close>

datatype jdoc = JSess Session | JEvent RevokeEvent

record mem_world =
  mw_redis :: "jdoc redis_state"
  mw_clock :: int
  mw_seed :: nat

definition mem_env :: "('z mem_world_scheme, jdoc) session_env" where
  "mem_env =
     \<lparr>rd = (\<lambda>cs w. case mem_redis cs (mw_redis w) of (res, s) \<Rightarrow> (res, w\<lparr>mw_redis := s\<rparr>)),
      marshal_sess = (\<lambda>s. Some (JSess s)),
      unmarshal_sess = (\<lambda>j. case j of JSess s \<Rightarrow> Some s | JEvent _ \<Rightarrow> None),
      marshal_event = (\<lambda>ev. Some (JEvent ev)),
      now = (\<lambda>w. (mw_clock w, w)),
      randomToken = (\<lambda>w. (Inr (''tok'' @ nat_digits (mw_seed w)), w\<lparr>mw_seed := Suc (mw_seed w)\<rparr>)),
      newUUID = (\<lambda>w. (''id'' @ nat_digits (mw_seed w), w\<lparr>mw_seed := Suc (mw_seed w)\<rparr>)),
      has_pub = True,
      range_keys = (\<lambda>ks. ks)\<rparr>"

interpretation mem: session_service "mem_env :: ('z mem_world_scheme, jdoc) session_env" mw_redis
proof unfold_locales
  fix cs w rs w' assume "rd mem_env cs w = (Inr rs, w')"
  then show "exec_tx cs (mw_redis w) = (rs, mw_redis w') \<and> ReplyErr \<notin> set rs"
    using mem_redis.rd_ok [of cs "mw_redis w" rs] by (auto simp: mem_env_def split: prod.splits)
next
  fix cs w e w' s assume "rd mem_env cs w = (Inl e, w')"
  then show "mw_redis w' \<in> {mw_redis w, snd (exec_tx cs (mw_redis w))} \<and> \<not> errors_Is e s"
    using mem_redis.rd_err [of cs "mw_redis w" e _ s] by (auto simp: mem_env_def split: prod.splits)
qed (auto simp: mem_env_def)

abbreviation menv :: "(mem_world, jdoc) session_env" where
  "menv \<equiv> mem_env"

definition empty_world :: "int \<Rightarrow> mem_world" where
  "empty_world t = \<lparr>mw_redis = \<lparr>rs_kv = (\<lambda>_. None), rs_pub = []\<rparr>, mw_clock = t, mw_seed = 0\<rparr>"

lemma empty_wf: "store_wf menv (mw_redis (empty_world t))"
  by (simp add: store_wf_def empty_world_def set_members_def epoch_at_def counter_value_def)

section \<open>Runs\<close>

text \<open>
  The operations that reach the store, with the arguments they take. \<^verbatim>\<open>OpPut\<close> is the write at the
  end of an \<^verbatim>\<open>Issue\<close> whose earlier steps, among them the read of the epoch, happened before.
\<close>

datatype svc_op =
    OpIssue IssueInput
  | OpPut Session int
  | OpValidate string "Application option"
  | OpListByUser uuid
  | OpRevoke string string
  | OpRevokeSession uuid string string
  | OpRevokeUsers "uuid list" string
  | OpRevokeUserInApp uuid uuid string
  | OpBump uuid

fun svc_run :: "('r, 'j) session_env \<Rightarrow> svc_op \<Rightarrow> 'r \<Rightarrow> 'r" where
  "svc_run E (OpIssue i) r = snd (Issue E i r)"
| "svc_run E (OpPut s ttl) r = snd (Put E s ttl r)"
| "svc_run E (OpValidate t app) r = snd (Validate E t app r)"
| "svc_run E (OpListByUser u) r = snd (ListByUser E u r)"
| "svc_run E (OpRevoke t reason) r = snd (Revoke E t reason r)"
| "svc_run E (OpRevokeSession u sid reason) r = snd (RevokeSession E u sid reason r)"
| "svc_run E (OpRevokeUsers us reason) r = snd (RevokeUsers E us reason r)"
| "svc_run E (OpRevokeUserInApp u app reason) r = snd (RevokeUserInApp E u app reason r)"
| "svc_run E (OpBump u) r = snd (Bump E u r)"

text \<open>The domain errors a computation can return; an infrastructure error carries no sentinel.\<close>

definition fails_with :: "goerr set \<Rightarrow> ('r, 'a) io \<Rightarrow> bool" where
  "fails_with S m \<longleftrightarrow> (\<forall>r e r'. m r = (Inl e, r') \<longrightarrow> (\<exists>s. errors_Is e s) \<longrightarrow> e \<in> S)"

lemma fails_with_ret [intro]: "fails_with S (ret x)"
  by (simp add: fails_with_def)

lemma fails_with_throw [intro]: "e \<in> S \<or> (\<forall>s. \<not> errors_Is e s) \<Longrightarrow> fails_with S (throw e)"
  by (auto simp: fails_with_def)

lemma fails_with_bindE [intro]: "fails_with S m \<Longrightarrow> (\<And>x. fails_with S (f x)) \<Longrightarrow> fails_with S (bindE m f)"
  unfolding fails_with_def bindE_Inl_iff by blast

lemma fails_with_tryE:
  "(\<And>r e r'. m r = (Inl e, r') \<Longrightarrow> fails_with S (k (Inl e))) \<Longrightarrow> (\<And>x. fails_with S (k (Inr x))) \<Longrightarrow>
     fails_with S (tryE m k)"
  unfolding fails_with_def tryE_def by (auto split: prod.splits) (metis (no_types) sum.exhaust)

context session_service
begin

lemma svc_run_safe:
  assumes "store_wf E (view r)"
  shows "store_wf E (view (svc_run E op r)) \<and> epoch_le (view r) (view (svc_run E op r))"
  by (cases op)
     (use assms safe_Issue safe_Put safe_Validate safe_ListByUser safe_Revoke safe_revokeMatching safe_Bump in
        \<open>simp_all add: RevokeSession_def RevokeUsers_def RevokeUserInApp_def safe_def\<close>)

lemma svc_runs_safe:
  "store_wf E (view r) \<Longrightarrow>
     store_wf E (view (fold (svc_run E) ops r)) \<and> epoch_le (view r) (view (fold (svc_run E) ops r))"
proof (induction ops arbitrary: r)
  case (Cons op ops)
  have "store_wf E (view (svc_run E op r))" "epoch_le (view r) (view (svc_run E op r))"
    using svc_run_safe [OF Cons.prems] by auto
  then show ?case using Cons.IH [of "svc_run E op r"] epoch_le_trans by auto
qed simp

lemma Bump_epoch:
  assumes "Bump E u r = (Inr n, r')"
  shows "epoch_at (view r') u = Some n"
  using Bump_cases [OF assms] by (auto simp: epoch_at_def counter_value_def ParseInt_FormatInt)

lemma fence:
  assumes "store_wf E (view r)" and "Bump E u r = (Inr n, r1)"
    and "sess_at E (view (fold (svc_run E) ops r1)) tok = Some s" and "sess_UserID s = u" and "Epoch s < n"
  shows "\<exists>e. fst (Validate E tok (Some app) (fold (svc_run E) ops r1)) = Inl e"
proof -
  let ?r2 = "fold (svc_run E) ops r1"
  have wf1: "store_wf E (view r1)" by (rule safeD(1) [OF safe_Bump assms(2,1)])
  have run: "store_wf E (view ?r2)" "epoch_le (view r1) (view ?r2)" using svc_runs_safe [OF wf1] by auto
  obtain m where m: "epoch_at (view ?r2) u = Some m" "n \<le> m"
    using run(2) Bump_epoch [OF assms(2)] by (auto simp: epoch_le_def)
  obtain x r3 where v: "Validate E tok (Some app) ?r2 = (x, r3)" by fastforce
  show ?thesis
  proof (cases x)
    case (Inr res)
    with v have "epoch_at (view ?r2) u = Some (Epoch s)"
      using Validate_accepts [of tok app ?r2 res r3] run(1) assms(3,4) by auto
    then show ?thesis using m assms(5) by simp
  qed (use v in simp)
qed

lemma Validate_sound:
  assumes "Validate E token (Some app) r = (Inr res, r')" and "store_wf E (view r)"
  shows "\<exists>s r1 t r2 t2. sess_at E (view r) token = Some s \<and> sess_AppID s = app_ID app \<and>
    epoch_at (view r) (sess_UserID s) = Some (Epoch s) \<and>
    now E r1 = (t, r2) \<and> 0 < RemainingAt s t (app_Session app) \<and>
    same_session (vres_Session res) s \<and>
    (\<exists>r3 r4. now E r3 = (t2, r4) \<and> CacheTTL res \<le> RemainingAt (vres_Session res) t2 (app_Session app)) \<and>
    CacheTTL res \<le> dur_seconds (TokenCacheTTLSeconds (app_Session app)) \<and>
    CacheTTL res \<le> GraceDuration (app_Session app)"
proof -
  obtain s r1 t where s: "sess_at E (view r) token = Some s" "sess_AppID s = app_ID app"
      "epoch_at (view r) (sess_UserID s) = Some (Epoch s)" "fst (now E r1) = t"
      "0 < RemainingAt s t (app_Session app)" and f: "refresh E s app t (snd (now E r1)) = (Inr res, r')"
    using Validate_accepts [OF assms] by blast
  obtain r3 t2 where t2: "now E r3 = (t2, r')" and same: "same_session (vres_Session res) s"
    and c: "CacheTTL res = cacheTTL (RemainingAt (vres_Session res) t2 (app_Session app)) (app_Session app)"
    using refresh_sound [OF f] by blast
  have "CacheTTL res \<le> RemainingAt (vres_Session res) t2 (app_Session app)"
      "CacheTTL res \<le> dur_seconds (TokenCacheTTLSeconds (app_Session app))"
    unfolding c by (rule cacheTTL_le)+
  then show ?thesis
    using s same t2 Grace_ge(1) [of "app_Session app"] prod.collapse [of "now E r1"]
    by (intro exI [of _ s] exI [of _ r1] exI [of _ t] exI [of _ "snd (now E r1)"] exI [of _ t2]) auto
qed

lemma fails_rd: "fails_with S (rd E cs)"
  using rd_err by (auto simp: fails_with_def)

lemma fails_cmd1: "fails_with S (cmd1 (rd E) c)"
  using cmd1_err by (auto simp: fails_with_def)

lemma fails_lift: "fails_with S (lift f)"
  by (auto simp: fails_with_def lift_def split: prod.splits)

lemma fails_random: "fails_with S (randomToken E)"
  using random_err by (auto simp: fails_with_def)

lemmas fails_base = fails_rd fails_cmd1 fails_lift fails_random fails_with_bindE fails_with_ret fails_with_throw

lemma fails_Current: "fails_with S (Current E u)"
  unfolding Current_def by (auto intro!: fails_base split: redis_reply.split rval.split option.split)

lemma fails_Put: "fails_with {token_invalid, internal_error} (Put E s ttl)"
  unfolding Put_def Let_def by (auto intro!: fails_base split: option.split)

lemma fails_PutRotation: "fails_with {token_invalid, internal_error} (PutRotation E a b ttl)"
  unfolding PutRotation_def by (auto intro!: fails_base)

lemma fails_TryLock: "fails_with S (TryLock E k ttl)"
  unfolding TryLock_def by (auto intro!: fails_base)

lemma fails_RotatedTo: "fails_with S (RotatedTo E t)"
  unfolding RotatedTo_def by (auto intro!: fails_base split: redis_reply.split rval.split)

lemmas fails_ops = fails_base fails_Current fails_Put fails_PutRotation fails_TryLock fails_RotatedTo

lemma fails_Get:
  assumes "Get E t r = (Inl e, r')" and "\<not> errors_Is e ErrNotFound"
  shows "\<not> errors_Is e s"
proof -
  have "fails_with {session_not_found} (Get E t)"
    unfolding Get_def by (auto intro!: fails_base split: redis_reply.split rval.split option.split)
  then show ?thesis using assms unfolding fails_with_def by fastforce
qed

lemma fails_refresh: "fails_with {token_invalid, internal_error} (refresh E s app t)"
  unfolding refresh_def tryRotate_def tryExtend_def finish_def Let_def by (auto intro!: fails_ops)

lemma fails_Validate: "fails_with {token_invalid, internal_error} (Validate E token app)"
proof (cases app)
  case None
  then show ?thesis by (auto simp: Validate_def intro!: fails_ops)
next
  case (Some a)
  show ?thesis
    unfolding Validate_def Some
    by (auto intro!: fails_with_tryE fails_ops fails_refresh dest: fails_Get)
qed

lemma revokeMatching_effect:
  assumes "revokeMatching E us reason match r = ((n, err), r')" and wf: "store_wf E (view r)"
  shows "\<exists>evs. published E (view r) (view r') evs \<and>
    (\<forall>t s. sess_at E (view r') t = Some s \<longrightarrow> sess_at E (view r) t = Some s) \<and>
    (\<forall>t s. sess_at E (view r) t = Some s \<longrightarrow> sess_at E (view r') t = None \<longrightarrow> match s) \<and>
    (\<forall>ev \<in> set evs. length (ev_Tokens ev) \<le> maxTokensPerEvent \<and> ev_Reason ev = reason \<and>
       (\<forall>t \<in> set (ev_Tokens ev). \<exists>s. sess_at E (view r) t = Some s \<and> sess_AppID s = ev_AppID ev \<and> match s \<and>
          sess_at E (view r') t = None)) \<and>
    (err = None \<longrightarrow>
       (\<forall>t s. sess_at E (view r') t = Some s \<longrightarrow> sess_UserID s \<in> set us \<longrightarrow> \<not> match s) \<and>
       (pub_works E \<longrightarrow> (\<forall>t s. sess_at E (view r) t = Some s \<longrightarrow> sess_at E (view r') t = None \<longrightarrow>
          (\<exists>ev \<in> set evs. ev_AppID ev = sess_AppID s \<and> t \<in> set (ev_Tokens ev)))))"
proof -
  obtain gs r1 where u: "revoke_users E us match [] r = ((err, gs), r1)"
    and r': "r' = announce_groups E (range_keys E (map fst gs)) gs reason r1"
    using assms(1) by (auto simp: revokeMatching_def split: prod.splits)
  note c = revoke_users_done [OF u wf, unfolded cleared_def]
  have kv: "sess_at E (view r') = sess_at E (view r1)"
    using kv_obs(3) [of "view r'" "view r1"] by (simp add: r' announce_groups_kv)
  obtain evs where evs: "published E (view r1) (view r') evs"
    "\<forall>ev \<in> set evs. ev_Kind ev = [] \<and> ev_Reason ev = reason \<and> length (ev_Tokens ev) \<le> maxTokensPerEvent \<and>
        set (ev_Tokens ev) \<subseteq> group_of gs (ev_AppID ev)"
    "pub_works E \<longrightarrow> (\<forall>app \<in> set (range_keys E (map fst gs)). \<forall>t \<in> group_of gs app. \<exists>ev \<in> set evs. ev_AppID ev = app \<and> t \<in> set (ev_Tokens ev))"
    using announce_groups_published [of r1 "range_keys E (map fst gs)" gs reason] unfolding r' by blast
  have sw: "swept E match [] gs (view r) (view r1)" using c by blast
  have p: "published E (view r) (view r') evs"
    using published_append [OF published_Nil evs(1), of "view r"] sw by (simp add: swept_def)
  have grp: "\<exists>s. sess_at E (view r) t = Some s \<and> sess_AppID s = app \<and> match s \<and> sess_at E (view r') t = None"
    if "t \<in> group_of gs app" for t app
    using that sw kv by (simp add: swept_def group_of_def [of "[]"])
  have key: "app \<in> set (range_keys E (map fst gs))" if "t \<in> group_of gs app" for t app
    using that unfolding range_set group_of_def
    by (metis empty_iff map_of_eq_None_iff option.simps(4) set_map)
  have rec: "err = None \<Longrightarrow> sess_at E (view r) t = Some s \<Longrightarrow> sess_at E (view r') t = None \<Longrightarrow>
      t \<in> group_of gs (sess_AppID s)" for t s
    using c kv by (simp add: recorded_def)
  show ?thesis
  proof (intro exI [of _ evs] conjI)
    show "\<forall>t s. sess_at E (view r') t = Some s \<longrightarrow> sess_at E (view r) t = Some s"
      "\<forall>t s. sess_at E (view r) t = Some s \<longrightarrow> sess_at E (view r') t = None \<longrightarrow> match s"
      using sw kv by (simp_all add: swept_def)
    show "\<forall>ev \<in> set evs. length (ev_Tokens ev) \<le> maxTokensPerEvent \<and> ev_Reason ev = reason \<and>
       (\<forall>t \<in> set (ev_Tokens ev). \<exists>s. sess_at E (view r) t = Some s \<and> sess_AppID s = ev_AppID ev \<and> match s \<and>
          sess_at E (view r') t = None)"
      using evs(2) grp by (meson subsetD)
    show "err = None \<longrightarrow>
       (\<forall>t s. sess_at E (view r') t = Some s \<longrightarrow> sess_UserID s \<in> set us \<longrightarrow> \<not> match s) \<and>
       (pub_works E \<longrightarrow> (\<forall>t s. sess_at E (view r) t = Some s \<longrightarrow> sess_at E (view r') t = None \<longrightarrow>
          (\<exists>ev \<in> set evs. ev_AppID ev = sess_AppID s \<and> t \<in> set (ev_Tokens ev))))"
      using c kv evs(3) key rec by (metis (no_types, lifting))
  qed (rule p)
qed

end

section \<open>Properties\<close>

definition demo_app :: Application where
  "demo_app = \<lparr>app_ID = ''A'', app_Name = [], app_Code = [], app_AppID = ''shop'', app_Status = [],
     app_Session = DefaultSessionPolicy, CookieDomain = [], DefaultRoleKey = [], RedirectURIs = [], GrantTypes = [],
     app_IM = DefaultIMConfig, app_CreatedAt = 0, app_UpdatedAt = 0\<rparr>"

definition demo_world :: mem_world where
  "demo_world = fold (svc_run menv)
     [OpPut (demo_session\<lparr>sess_AppID := ''A'', Mobile := True\<rparr>) (600 * ns_per_s),
      OpPut (demo_session\<lparr>sess_ID := ''s2'', Token := ''t2'', sess_AppID := ''B''\<rparr>) (600 * ns_per_s)] (empty_world 2000)"

lemma demo_world_wf: "store_wf menv (mw_redis demo_world)"
  unfolding demo_world_def using mem.svc_runs_safe [OF empty_wf] by blast

text \<open>
  C10. \<^verbatim>\<open>Validate\<close> accepts a token only if a session is stored under it that belongs to the calling application,
  carries the user's current epoch and has life left on the service's clock; the session it returns is that
  one up to token and times; and the time the SDK may cache the decision is at most the remaining life of
  the returned session, at most the configured cache time, and at most the grace period a rotated token lives.
\<close>

theorem Validate_is_sound:
  assumes "session_service E view" and "store_wf E (view r)"
    and "Session_Service.Validate E token (Some app) r = (Inr res, r')"
  shows "\<exists>s r1 t r2 t2. sess_at E (view r) token = Some s \<and> sess_AppID s = app_ID app \<and>
    epoch_at (view r) (sess_UserID s) = Some (Epoch s) \<and>
    now E r1 = (t, r2) \<and> 0 < RemainingAt s t (app_Session app) \<and>
    same_session (vres_Session res) s \<and>
    (\<exists>r3 r4. now E r3 = (t2, r4) \<and> CacheTTL res \<le> RemainingAt (vres_Session res) t2 (app_Session app)) \<and>
    CacheTTL res \<le> dur_seconds (TokenCacheTTLSeconds (app_Session app)) \<and>
    CacheTTL res \<le> GraceDuration (app_Session app)"
  by (rule session_service.Validate_sound [OF assms(1,3,2)])

definition is_Inr :: "'a + 'b \<Rightarrow> bool" where
  "is_Inr x = (case x of Inl _ \<Rightarrow> False | Inr _ \<Rightarrow> True)"

lemma is_InrE: "is_Inr (fst p) \<Longrightarrow> \<exists>x y. p = (Inr x, y)"
  by (cases p; cases "fst p") (auto simp: is_Inr_def)

lemma demo_accepts: "is_Inr (fst (Session_Service.Validate menv ''t'' (Some demo_app) demo_world))"
  by code_simp

theorem Validate_is_sound_witness:
  "\<exists>res r'. Session_Service.Validate menv ''t'' (Some demo_app) demo_world = (Inr res, r') \<and>
     CacheTTL res \<le> dur_seconds (TokenCacheTTLSeconds (app_Session demo_app))"
proof -
  obtain res r' where v: "Session_Service.Validate menv ''t'' (Some demo_app) demo_world = (Inr res, r')"
    using is_InrE [OF demo_accepts] by blast
  from Validate_is_sound [OF mem.session_service_axioms demo_world_wf v] v show ?thesis by blast
qed

text \<open>
  C11. Rejections are uniform: whatever Redis holds or does, the only domain errors \<^verbatim>\<open>Validate\<close> returns are
  \<^verbatim>\<open>TOKEN_INVALID\<close> and the internal error; in particular an unknown token, an expired one, one of another
  application and one of an earlier epoch are told apart by nothing, and no not-found error leaks out.
\<close>

theorem Validate_rejects_uniformly:
  assumes "session_service E view" and "Session_Service.Validate E token app r = (Inl e, r')" and "errors_Is e s"
  shows "e = DomainErr ErrUnauthorized CodeTokenInvalid \<or> e = DomainErr ErrInternal CodeInternal"
  using session_service.fails_Validate [OF assms(1), of token app] assms(2,3)
  unfolding fails_with_def by blast

theorem Validate_rejects_uniformly_witness:
  "\<exists>e. fst (Session_Service.Validate menv ''t2'' (Some demo_app) demo_world) = Inl e \<and>
     fst (Session_Service.Validate menv ''nosuch'' (Some demo_app) demo_world) = Inl e \<and> e = token_invalid"
proof -
  have 1: "fst (Session_Service.Validate menv ''t2'' (Some demo_app) demo_world) = Inl token_invalid" by code_simp
  have 2: "fst (Session_Service.Validate menv ''nosuch'' (Some demo_app) demo_world) = Inl token_invalid" by code_simp
  have 3: "Session_Service.Validate menv ''t2'' (Some demo_app) demo_world =
      (Inl token_invalid, snd (Session_Service.Validate menv ''t2'' (Some demo_app) demo_world))"
    using 1 by (metis prod.collapse)
  show ?thesis
    using Validate_rejects_uniformly [OF mem.session_service_axioms 3, of ErrUnauthorized] 1 2 by simp
qed



text \<open>
  C13. The epoch fence. Once \<^verbatim>\<open>Bump\<close> has returned a user's new epoch, no session of that user that
  carries an older one is ever accepted again, whatever operations follow: also not one whose write
  reached Redis only after the bump and the sweep, as a login that was under way produces.
\<close>

theorem epoch_fence_holds:
  assumes "session_service E view" and "store_wf E (view r)" and "Bump E u r = (Inr n, r1)"
    and "sess_at E (view (fold (svc_run E) ops r1)) tok = Some s" and "sess_UserID s = u" and "Epoch s < n"
  shows "\<exists>e. fst (Session_Service.Validate E tok (Some app) (fold (svc_run E) ops r1)) = Inl e"
  by (rule session_service.fence [OF assms])

definition late_session :: Session where
  "late_session = demo_session\<lparr>sess_ID := ''s3'', Token := ''t3'', sess_AppID := ''A''\<rparr>"

theorem epoch_fence_holds_witness:
  "\<exists>e. fst (Session_Service.Validate menv ''t3'' (Some demo_app)
     (fold (svc_run menv) [OpRevokeUsers [''u''] ''freeze'', OpPut late_session (600 * ns_per_s)]
        (snd (Bump menv ''u'' demo_world)))) = Inl e"
proof -
  have "fst (Bump menv ''u'' demo_world) = Inr 1" by code_simp
  then have b: "Bump menv ''u'' demo_world = (Inr 1, snd (Bump menv ''u'' demo_world))" by (metis prod.collapse)
  have s: "sess_at menv (mw_redis (fold (svc_run menv)
      [OpRevokeUsers [''u''] ''freeze'', OpPut late_session (600 * ns_per_s)] (snd (Bump menv ''u'' demo_world)))) ''t3'' =
      Some late_session" by code_simp
  show ?thesis
    by (rule epoch_fence_holds [OF mem.session_service_axioms demo_world_wf b s])
       (simp_all add: late_session_def demo_session_def)
qed

text \<open>
  A request that wins the rotation lock hands the session over without a gap and without prolonging it:
  the new token carries the same session (id, user, application, first login, epoch), the old one still
  works until the grace period ends, and the mapping from the old token to the new one is in place for requests
  that come later with the old token.
\<close>

theorem rotation_hands_over:
  assumes "session_service E view" and "store_wf E (view r)"
    and "tryRotate E sess app t r = (Inr (tok, Some ns), r')" and "tok \<noteq> Token sess"
  shows "Token ns = tok \<and> same_session ns sess \<and> IssuedAt ns = t \<and>
    sess_at E (view r') tok = Some ns \<and>
    sess_at E (view r') (Token sess) =
      Some (sess\<lparr>IdleExpiresAt := wrap64 (t + Milliseconds (GraceDuration (app_Session app)))\<rparr>) \<and>
    rotation_at (view r') (Token sess) = Some tok"
  using session_service.tryRotate_done [OF assms(1,3,2,4)] by blast

definition old_session :: Session where
  "old_session = demo_session\<lparr>sess_AppID := ''A'', Mobile := True\<rparr>"

definition rotated :: "(string \<times> Session option) \<times> mem_world" where
  "rotated = (case tryRotate menv old_session demo_app (86401 * 1000) demo_world of
     (Inr x, w) \<Rightarrow> (x, w) | (Inl _, w) \<Rightarrow> (([], None), w))"

definition new_session :: Session where
  "new_session = old_session\<lparr>Token := ''tok0'', IssuedAt := 86401000, LastExtendedAt := 86401000, IdleExpiresAt := 2678401000\<rparr>"

lemma rotated_eq:
  "tryRotate menv old_session demo_app (86401 * 1000) demo_world = (Inr (''tok0'', Some new_session), snd rotated)"
proof -
  have 1: "fst (tryRotate menv old_session demo_app (86401 * 1000) demo_world) = Inr (''tok0'', Some new_session)"
    by code_simp
  then show ?thesis unfolding rotated_def by (cases "tryRotate menv old_session demo_app (86401 * 1000) demo_world") auto
qed

lemma rotated_ne: "''tok0'' \<noteq> Token old_session"
  by (simp add: old_session_def demo_session_def)

theorem rotation_hands_over_witness:
  "rotation_at (mw_redis (snd rotated)) ''t'' = Some ''tok0'' \<and>
   sess_at menv (mw_redis (snd rotated)) ''tok0'' = Some new_session"
  using rotation_hands_over [OF mem.session_service_axioms demo_world_wf rotated_eq rotated_ne]
  by (simp add: old_session_def demo_session_def)

text \<open>
  The index of a user can expire before a session in it. Rotation writes the new session first and the
  shortened old one last, and every write sets the index to the larger of its own ttl and seven days;
  so whenever the new session lives longer than seven days (the default for mobile devices is thirty), the
  index key is left with a shorter ttl than the session key.
\<close>

theorem rotation_leaves_index_to_expire_first:
  assumes "session_service E view" and "store_wf E (view r)"
    and "tryRotate E sess app t r = (Inr (tok, Some ns), r')" and "tok \<noteq> Token sess"
    and "GraceDuration (app_Session app) \<le> 7 * 24 * 3600 * ns_per_s"
    and "7 * 24 * 3600 * ns_per_s < RemainingAt ns t (app_Session app)"
  shows "\<exists>session_ttl index_ttl. ttl_of (rs_kv (view r') (sessionKeyPrefix @ tok)) = Some session_ttl \<and>
    ttl_of (rs_kv (view r') (userSessionsPrefix @ sess_UserID sess)) = Some index_ttl \<and> index_ttl < session_ttl"
  using session_service.tryRotate_done(5,6) [OF assms(1,3,2,4)] assms(5,6)
  by (auto simp: ttl_of_def max_def)

theorem rotation_leaves_index_to_expire_first_witness:
  "\<exists>session_ttl index_ttl. ttl_of (rs_kv (mw_redis (snd rotated)) ''fp:sess:tok0'') = Some session_ttl \<and>
    ttl_of (rs_kv (mw_redis (snd rotated)) ''fp:usess:u'') = Some index_ttl \<and> index_ttl < session_ttl"
proof -
  have g: "GraceDuration (app_Session demo_app) \<le> 7 * 24 * 3600 * ns_per_s" by code_simp
  have l: "7 * 24 * 3600 * ns_per_s < RemainingAt new_session (86401 * 1000) (app_Session demo_app)" by code_simp
  show ?thesis
    using rotation_leaves_index_to_expire_first [OF mem.session_service_axioms demo_world_wf rotated_eq rotated_ne g l]
    by (simp add: old_session_def demo_session_def sessionKeyPrefix_def userSessionsPrefix_def)
qed



text \<open>
  The two answers of a rotation are not cached alike. The comment on \<^verbatim>\<open>tryRotate\<close> says that the cache times
  computed from the new and from the shortened old session always agree; a valid policy whose mobile idle
  timeout is below the cache time makes them differ (ten seconds against sixty).
\<close>

theorem rotation_cache_times_differ:
  "\<exists>p s t. SessionPolicy_Validate p = None \<and>
     cacheTTL (RemainingAt (s\<lparr>IdleExpiresAt := wrap64 (t + Milliseconds (IdleTimeoutFor p (Mobile s)))\<rparr>) t p) p = 10 * ns_per_s \<and>
     cacheTTL (RemainingAt (s\<lparr>IdleExpiresAt := wrap64 (t + Milliseconds (GraceDuration p))\<rparr>) t p) p = 60 * ns_per_s"
proof -
  define p where "p = DefaultSessionPolicy\<lparr>IdleTimeoutMobileSeconds := 10, TokenCacheTTLSeconds := 60\<rparr>"
  define s where "s = demo_session\<lparr>Mobile := True\<rparr>"
  have "SessionPolicy_Validate p = None" unfolding p_def by code_simp
  moreover have "cacheTTL (RemainingAt (s\<lparr>IdleExpiresAt := wrap64 (2000 + Milliseconds (IdleTimeoutFor p (Mobile s)))\<rparr>) 2000 p) p = 10 * ns_per_s"
    unfolding p_def s_def by code_simp
  moreover have "cacheTTL (RemainingAt (s\<lparr>IdleExpiresAt := wrap64 (2000 + Milliseconds (GraceDuration p))\<rparr>) 2000 p) p = 60 * ns_per_s"
    unfolding p_def s_def by code_simp
  ultimately show ?thesis by blast
qed

section \<open>The rate limiter\<close>

lemma allowScript_eq:
  assumes "counter_value (rs_kv st k) = Some n" and "0 < window"
  shows "\<exists>t. in_int64 (n + 1) \<longrightarrow> allowScript k window st = ([ReplyInt (n + 1), ReplyInt t],
    st\<lparr>rs_kv := (rs_kv st)(k \<mapsto> (RStr (FormatInt (n + 1)), if n = 0 then Some (window * ns_per_ms) else ttl_of (rs_kv st k)))\<rparr>)"
proof (cases "n = 0")
  case True
  then show ?thesis using assms by (simp add: allowScript_def)
next
  case False
  then show ?thesis using assms by (cases "ttl_of (rs_kv st k)") (simp_all add: allowScript_def)
qed

context session_store
begin

lemma Allow_effect:
  assumes "RateLimiter_Allow E key window limit r = (Inr (ok, retry), r')"
    and n: "counter_value (rs_kv (view r) (''fp:rl:'' @ key)) = Some n" and "0 \<le> n"
    and w: "0 < Milliseconds window"
  defines "k \<equiv> ''fp:rl:'' @ key"
  shows "ok = (n + 1 \<le> limit)" and "counter_value (rs_kv (view r') k) = Some (n + 1)"
    and "ttl_of (rs_kv (view r') k) =
      (if n = 0 then Some (Milliseconds window * ns_per_ms) else ttl_of (rs_kv (view r) k))"
    and "ok \<Longrightarrow> retry = 0"
proof -
  obtain x r1 where c: "cmd1 (rd E) (EVAL (allowScript k (Milliseconds window))) r = (Inr x, r1)"
    and f: "(case x of
         ReplyArr [c, t] \<Rightarrow>
           let count = (case c of ReplyInt n \<Rightarrow> n | _ \<Rightarrow> 0); pttl = (case t of ReplyInt n \<Rightarrow> n | _ \<Rightarrow> 0)
           in if count > limit
              then let retryAfter = dur_millis pttl in ret (False, if retryAfter < 0 then 0 else retryAfter)
              else ret (True, 0)
       | _ \<Rightarrow> throw (Wrapped ''store: rate limit'')) r1 = (Inr (ok, retry), r')"
    using assms(1) unfolding RateLimiter_Allow_def k_def bindE_Inr_iff by blast
  have ex: "exec_cmd (EVAL (allowScript k (Milliseconds window))) (view r) = (x, view r1)" "x \<noteq> ReplyErr"
    using cmd1_ok [OF c] by auto
  have n': "counter_value (rs_kv (view r) k) = Some n" using n by (simp add: k_def)
  let ?st = "(view r)\<lparr>rs_kv := (rs_kv (view r))(k \<mapsto> (RStr (FormatInt (n + 1)),
      if n = 0 then Some (Milliseconds window * ns_per_ms) else ttl_of (rs_kv (view r) k)))\<rparr>"
  obtain t where sc: "in_int64 (n + 1) \<Longrightarrow> allowScript k (Milliseconds window) (view r) = ([ReplyInt (n + 1), ReplyInt t], ?st)"
    using allowScript_eq [OF n' w] by blast
  have i: "in_int64 (n + 1)" using ex n' by (auto simp: allowScript_def split: if_splits)
  have x: "x = ReplyArr [ReplyInt (n + 1), ReplyInt t]" and v: "view r1 = ?st"
    using ex(1) sc [OF i] by auto
  have "r1 = r'" and ok: "ok = (n + 1 \<le> limit)" and "ok \<Longrightarrow> retry = 0"
    using f x by (auto simp: Let_def split: if_splits)
  then show "ok = (n + 1 \<le> limit)" "ok \<Longrightarrow> retry = 0" "counter_value (rs_kv (view r') k) = Some (n + 1)"
      "ttl_of (rs_kv (view r') k) =
        (if n = 0 then Some (Milliseconds window * ns_per_ms) else ttl_of (rs_kv (view r) k))"
    using v i by (auto simp: counter_value_def ParseInt_FormatInt ttl_of_def)
qed

end

text \<open>
  The rate limiter counts exactly: with \<^verbatim>\<open>n\<close> hits in the current window, one more is allowed
  precisely if \<^verbatim>\<open>n + 1\<close> is within the limit, and it is counted either way; the first hit starts the window and
  later hits, allowed or refused, never move its end.
\<close>

theorem rate_limiter_counts_exactly:
  assumes "session_store E view" and "RateLimiter_Allow E key window limit r = (Inr (ok, retry), r')"
    and "counter_value (rs_kv (view r) (''fp:rl:'' @ key)) = Some n" and "0 \<le> n" and "0 < Milliseconds window"
  shows "ok = (n + 1 \<le> limit) \<and> counter_value (rs_kv (view r') (''fp:rl:'' @ key)) = Some (n + 1) \<and>
    ttl_of (rs_kv (view r') (''fp:rl:'' @ key)) =
      (if n = 0 then Some (Milliseconds window * ns_per_ms) else ttl_of (rs_kv (view r) (''fp:rl:'' @ key)))"
  using session_store.Allow_effect(1,2,3) [OF assms] by blast

theorem rate_limiter_counts_exactly_witness:
  "\<exists>retry r'. RateLimiter_Allow menv ''k'' (30 * ns_per_s) 1 demo_world = (Inr (True, retry), r') \<and>
     ttl_of (rs_kv (mw_redis r') ''fp:rl:k'') = Some (30 * ns_per_s)"
proof -
  let ?run = "RateLimiter_Allow menv ''k'' (30 * ns_per_s) 1 demo_world"
  have "is_Inr (fst ?run)" by code_simp
  from is_InrE [OF this] obtain p r' where "?run = (Inr p, r')" by blast
  then obtain ok retry where r: "?run = (Inr (ok, retry), r')" by (cases p) blast
  have c: "counter_value (rs_kv (mw_redis demo_world) (''fp:rl:'' @ ''k'')) = Some 0" by code_simp
  have m: "0 < Milliseconds (30 * ns_per_s)" "Milliseconds (30 * ns_per_s) * ns_per_ms = 30 * ns_per_s" by code_simp+
  have "ok = (0 + 1 \<le> (1 :: int))" "ttl_of (rs_kv (mw_redis r') (''fp:rl:'' @ ''k'')) = Some (30 * ns_per_s)"
    using rate_limiter_counts_exactly [OF mem.session_store_axioms r c _ m(1)] m(2) by simp_all
  with r show ?thesis by auto
qed

end
