(* ===== verification/Account.thy ===== *)
theory Account
  imports Session_Properties Runes
begin

text \<open>
  Operations that change an account and must log it out (\<^verbatim>\<open>internal/service/account.go\<close>), with the
  parts of \<^verbatim>\<open>UserService\<close> (\<^verbatim>\<open>user.go\<close>) and \<^verbatim>\<open>LoginLogService\<close> (\<^verbatim>\<open>loginlog.go\<close>) they call.
  PostgreSQL is a parameter: one function per SQL statement; bcrypt is one too.
\<close>

section \<open>Parameters\<close>

record LoginLog =
  log_UserID :: "uuid option"
  log_ApplicationID :: "uuid option"
  log_IdentityType :: string
  log_Subject :: string
  log_Event :: string
  log_Success :: bool
  log_Reason :: string
  log_IP :: string
  log_UA :: string
  log_SessionID :: string

record ('r, 'j) account_env =
  sessions :: "('r, 'j) session_env"
  has_logs :: bool
  sql_select_user :: "uuid \<Rightarrow> ('r, User option) io"
  sql_update_status :: "uuid \<Rightarrow> string \<Rightarrow> bool \<Rightarrow> ('r, User option) io"
  sql_update_password :: "uuid \<Rightarrow> string \<Rightarrow> ('r, nat) io"
  sql_select_password :: "uuid \<Rightarrow> ('r, string option) io"
  sql_insert_log :: "LoginLog \<Rightarrow> ('r, unit) io"
  bcrypt_generate :: "string \<Rightarrow> string option"
  bcrypt_matches :: "string \<Rightarrow> string \<Rightarrow> bool"

definition CodeUserNotFound :: string where "CodeUserNotFound = ''USER_NOT_FOUND''"
definition CodePasswordTooShort :: string where "CodePasswordTooShort = ''PASSWORD_TOO_SHORT''"
definition CodePasswordTooLong :: string where "CodePasswordTooLong = ''PASSWORD_TOO_LONG''"
definition CodeCredentialInvalid :: string where "CodeCredentialInvalid = ''CREDENTIAL_INVALID''"

definition RevokeReasonKick :: string where "RevokeReasonKick = ''kick''"
definition RevokeReasonFreeze :: string where "RevokeReasonFreeze = ''freeze''"
definition RevokeReasonPasswordChanged :: string where "RevokeReasonPasswordChanged = ''password_changed''"
definition LoginEventRevoke :: string where "LoginEventRevoke = ''revoke''"

definition minPasswordLength :: nat where "minPasswordLength = 8"
definition maxPasswordBytes :: nat where "maxPasswordBytes = 72"

section \<open>Users (\<^verbatim>\<open>user.go\<close>)\<close>

definition GetByID :: "('r, 'j) account_env \<Rightarrow> uuid \<Rightarrow> ('r, User) io" where
  "GetByID A u =
     bindE (sql_select_user A u) (\<lambda>x. case x of
       None \<Rightarrow> throw (DomainErr ErrNotFound CodeUserNotFound) | Some usr \<Rightarrow> ret usr)"

text \<open>The flag of \<^verbatim>\<open>sql_update_status\<close> tells \<^verbatim>\<open>delete_submitted_at = now()\<close> from \<^verbatim>\<open>= NULL\<close>.\<close>

definition users_SetStatus :: "('r, 'j) account_env \<Rightarrow> uuid \<Rightarrow> string \<Rightarrow> ('r, User) io" where
  "users_SetStatus A u status =
     bindE (GetByID A u) (\<lambda>current.
       if user_Status current = status then ret current
       else if \<not> CanTransitionUserStatus (user_Status current) status then throw invalid_argument
       else bindE (sql_update_status A u status (status = UserStatusPendingDelete)) (\<lambda>x. case x of
              None \<Rightarrow> throw (Wrapped ''service: update status'') | Some usr \<Rightarrow> ret usr))"

definition SetPassword :: "('r, 'j) account_env \<Rightarrow> uuid \<Rightarrow> string \<Rightarrow> ('r, unit) io" where
  "SetPassword A u plain =
     (if RuneCount plain < minPasswordLength then throw (DomainErr ErrInvalidArgument CodePasswordTooShort)
      else if length plain > maxPasswordBytes then throw (DomainErr ErrInvalidArgument CodePasswordTooLong)
      else case bcrypt_generate A plain of
        None \<Rightarrow> throw (Wrapped ''service: bcrypt'')
      | Some hash \<Rightarrow>
          bindE (sql_update_password A u hash) (\<lambda>n.
            if n = 0 then throw (DomainErr ErrNotFound CodeUserNotFound) else ret ()))"

text \<open>The comparison against a fixed hash for an unknown account only takes time.\<close>

definition VerifyPassword :: "('r, 'j) account_env \<Rightarrow> uuid \<Rightarrow> string \<Rightarrow> ('r, unit) io" where
  "VerifyPassword A u plain =
     bindE (sql_select_password A u) (\<lambda>x. case x of
       None \<Rightarrow> throw (DomainErr ErrInvalidCredential CodeCredentialInvalid)
     | Some hash \<Rightarrow>
         if hash = [] then throw (DomainErr ErrInvalidCredential CodeCredentialInvalid)
         else if \<not> bcrypt_matches A hash plain then throw (DomainErr ErrInvalidCredential CodeCredentialInvalid)
         else ret ())"

section \<open>Account operations (\<^verbatim>\<open>account.go\<close>)\<close>

definition writeRevokeLog :: "('r, 'j) account_env \<Rightarrow> uuid \<Rightarrow> string \<Rightarrow> string \<Rightarrow> ('r, unit) io" where
  "writeRevokeLog A u reason sid =
     (if \<not> has_logs A then ret ()
      else tryE (sql_insert_log A
             \<lparr>log_UserID = Some u, log_ApplicationID = None, log_IdentityType = [], log_Subject = [],
              log_Event = LoginEventRevoke, log_Success = True, log_Reason = reason, log_IP = [], log_UA = [],
              log_SessionID = sid\<rparr>) (\<lambda>_. ret ()))"

text \<open>A revocation whose count the caller drops.\<close>

definition revoked :: "('r \<Rightarrow> (nat \<times> goerr option) \<times> 'r) \<Rightarrow> ('r, nat) io" where
  "revoked m r = (case m r of ((n, None), r') \<Rightarrow> (Inr n, r') | ((n, Some e), r') \<Rightarrow> (Inl e, r'))"

definition SetStatus :: "('r, 'j) account_env \<Rightarrow> uuid \<Rightarrow> string \<Rightarrow> ('r, User) io" where
  "SetStatus A u status =
     bindE (users_SetStatus A u status) (\<lambda>usr.
       if \<not> CanLogin usr then
         bindE (Bump (sessions A) u) (\<lambda>_.
         bindE (revoked (RevokeUser (sessions A) u RevokeReasonFreeze)) (\<lambda>_.
         bindE (writeRevokeLog A u RevokeReasonFreeze []) (\<lambda>_. ret usr)))
       else ret usr)"

definition ResetPassword :: "('r, 'j) account_env \<Rightarrow> uuid \<Rightarrow> string \<Rightarrow> ('r, unit) io" where
  "ResetPassword A u plain =
     bindE (SetPassword A u plain) (\<lambda>_.
     bindE (Bump (sessions A) u) (\<lambda>_.
     bindE (revoked (RevokeUser (sessions A) u RevokeReasonPasswordChanged)) (\<lambda>_.
       writeRevokeLog A u RevokeReasonPasswordChanged [])))"

fun bump_all :: "('r, 'j) account_env \<Rightarrow> uuid list \<Rightarrow> ('r, unit) io" where
  "bump_all A [] = ret ()"
| "bump_all A (u # us) = bindE (Bump (sessions A) u) (\<lambda>_. bump_all A us)"

fun log_all :: "('r, 'j) account_env \<Rightarrow> uuid list \<Rightarrow> string \<Rightarrow> ('r, unit) io" where
  "log_all A [] reason = ret ()"
| "log_all A (u # us) reason = bindE (writeRevokeLog A u reason []) (\<lambda>_. log_all A us reason)"

text \<open>\<^verbatim>\<open>RevokeUsersSessions\<close> and \<^verbatim>\<open>RevokeSession\<close> return count and error side by side.\<close>

definition RevokeUsersSessions :: "('r, 'j) account_env \<Rightarrow> uuid list \<Rightarrow> 'r \<Rightarrow> (nat \<times> goerr option) \<times> 'r" where
  "RevokeUsersSessions A us r =
     (case bump_all A us r of
        (Inl e, r1) \<Rightarrow> ((0, Some e), r1)
      | (Inr _, r1) \<Rightarrow>
          (case RevokeUsers (sessions A) us RevokeReasonKick r1 of
             ((n, Some e), r2) \<Rightarrow> ((n, Some e), r2)
           | ((n, None), r2) \<Rightarrow> ((n, None), snd (log_all A us RevokeReasonKick r2))))"

definition RevokeAllSessions :: "('r, 'j) account_env \<Rightarrow> uuid \<Rightarrow> 'r \<Rightarrow> (nat \<times> goerr option) \<times> 'r" where
  "RevokeAllSessions A u = RevokeUsersSessions A [u]"

definition account_RevokeSession ::
  "('r, 'j) account_env \<Rightarrow> uuid \<Rightarrow> string \<Rightarrow> 'r \<Rightarrow> (nat \<times> goerr option) \<times> 'r" where
  "account_RevokeSession A u sid r =
     (case RevokeSession (sessions A) u sid RevokeReasonKick r of
        ((n, Some e), r1) \<Rightarrow> ((n, Some e), r1)
      | ((n, None), r1) \<Rightarrow>
          if n = 0 then ((0, None), r1)
          else ((n, None), snd (writeRevokeLog A u RevokeReasonKick sid r1)))"

section \<open>Logging out\<close>

text \<open>Logged out for good: no session of the user is left and every older epoch is behind.\<close>

definition logged_out ::
  "('r, 'j) account_env \<Rightarrow> ('r \<Rightarrow> 'j redis_state) \<Rightarrow> 'r \<Rightarrow> 'r \<Rightarrow> uuid \<Rightarrow> bool" where
  "logged_out A view r r' u \<longleftrightarrow> store_wf (sessions A) (view r') \<and>
     (\<forall>t s. sess_at (sessions A) (view r') t = Some s \<longrightarrow> sess_UserID s \<noteq> u) \<and>
     (\<forall>n. epoch_at (view r) u = Some n \<longrightarrow> (\<exists>m > n. epoch_at (view r') u = Some m))"

lemma logged_outI:
  assumes "store_wf (sessions A) (view r')"
    and "\<And>t s. sess_at (sessions A) (view r') t = Some s \<Longrightarrow> sess_UserID s \<noteq> u"
    and "\<And>n. epoch_at (view r) u = Some n \<Longrightarrow> \<exists>m > n. epoch_at (view r') u = Some m"
  shows "logged_out A view r r' u"
  using assms by (simp add: logged_out_def)

locale account_world = session_service "sessions A" view
  for A :: "('r, 'j) account_env" and view :: "'r \<Rightarrow> 'j redis_state" +
  assumes sql_keep: "keeps view (sql_select_user A u)" "keeps view (sql_update_status A u st b)"
      "keeps view (sql_update_password A u h)" "keeps view (sql_insert_log A l)"
    and update_status: "sql_update_status A u st b r = (Inr (Some usr), r') \<Longrightarrow> user_Status usr = st"
begin

lemma users_SetStatus_keeps: "keeps view (users_SetStatus A u st)"
proof -
  have "keeps view (GetByID A u)"
    unfolding GetByID_def by (rule keeps_bindE [OF sql_keep(1)]) (auto split: option.split)
  moreover have "keeps view (case x of None \<Rightarrow> throw e | Some usr \<Rightarrow> ret usr)" for x :: "User option" and e
    by (auto split: option.split)
  ultimately show ?thesis
    unfolding users_SetStatus_def by (auto intro!: keeps_bindE sql_keep(2))
qed

lemma SetPassword_keeps: "keeps view (SetPassword A u p)"
  unfolding SetPassword_def by (auto intro!: keeps_bindE sql_keep(3) split: option.split)

lemma writeRevokeLog_keeps: "keeps view (writeRevokeLog A u reason sid)"
  unfolding writeRevokeLog_def by (auto intro!: keeps_tryE sql_keep(4))

lemma bump_sweep:
  assumes b: "Bump (sessions A) u r = (Inr n, r1)" and wf: "store_wf (sessions A) (view r)"
    and s: "revoked (RevokeUser (sessions A) u reason) r1 = (Inr k, r2)"
  shows "logged_out A view r r2 u"
proof -
  have m: "revokeMatching (sessions A) [u] reason (\<lambda>_. True) r1 = ((k, None), r2)"
    using s by (auto simp: revoked_def RevokeUser_def RevokeUsers_def split: prod.splits option.splits)
  have wf1: "store_wf (sessions A) (view r1)" by (rule safeD(1) [OF safe_Bump b wf])
  have n: "epoch_at (view r) u = Some x \<Longrightarrow> n = x + 1" for x
    using Bump_cases [OF b] by auto
  have le: "epoch_le (view r1) (view r2)" and wf2: "store_wf (sessions A) (view r2)"
    using safeD [OF safe_revokeMatching m wf1] by auto
  obtain k' where k': "epoch_at (view r2) u = Some k'" "n \<le> k'"
    using le Bump_epoch [OF b] by (auto simp: epoch_le_def)
  show ?thesis
  proof (rule logged_outI [where r = r])
    show "sess_UserID s \<noteq> u" if "sess_at (sessions A) (view r2) t = Some s" for t s
      using revokeMatching_effect [OF m wf1] that by auto
    show "\<exists>m > x. epoch_at (view r2) u = Some m" if "epoch_at (view r) u = Some x" for x
      using n [OF that] k' by auto
  qed (rule wf2)
qed

lemma logged_out_same: "view r0 = view r \<Longrightarrow> view r2 = view r' \<Longrightarrow> logged_out A view r0 r2 u \<Longrightarrow> logged_out A view r r' u"
  by (simp add: logged_out_def)

lemma SetStatus_logs_out:
  assumes "SetStatus A u st r = (Inr usr, r')" and "\<not> CanLogin usr" and wf: "store_wf (sessions A) (view r)"
  shows "logged_out A view r r' u"
proof -
  obtain r0 n r1 k r2 where s: "users_SetStatus A u st r = (Inr usr, r0)"
    and b: "Bump (sessions A) u r0 = (Inr n, r1)"
    and rv: "revoked (RevokeUser (sessions A) u RevokeReasonFreeze) r1 = (Inr k, r2)"
    and w: "writeRevokeLog A u RevokeReasonFreeze [] r2 = (Inr (), r')"
    using assms(1,2) by (auto simp: SetStatus_def bindE_Inr_iff split: if_splits)
  have v: "view r0 = view r" "view r2 = view r'"
    using keepsD [OF users_SetStatus_keeps s] keepsD [OF writeRevokeLog_keeps w] by auto
  from bump_sweep [OF b _ rv] wf v show ?thesis by (intro logged_out_same [OF v]) auto
qed

lemma ResetPassword_logs_out:
  assumes "ResetPassword A u plain r = (Inr x, r')" and wf: "store_wf (sessions A) (view r)"
  shows "logged_out A view r r' u"
proof -
  obtain r0 n r1 k r2 where s: "SetPassword A u plain r = (Inr (), r0)"
    and b: "Bump (sessions A) u r0 = (Inr n, r1)"
    and rv: "revoked (RevokeUser (sessions A) u RevokeReasonPasswordChanged) r1 = (Inr k, r2)"
    and w: "writeRevokeLog A u RevokeReasonPasswordChanged [] r2 = (Inr (), r')"
    using assms(1) by (auto simp: ResetPassword_def bindE_Inr_iff)
  have v: "view r0 = view r" "view r2 = view r'"
    using keepsD [OF SetPassword_keeps s] keepsD [OF writeRevokeLog_keeps w] by auto
  from bump_sweep [OF b _ rv] wf v show ?thesis by (intro logged_out_same [OF v]) auto
qed

lemma kick_effect:
  assumes "account_RevokeSession A u sid r = ((n, None), r')" and wf: "store_wf (sessions A) (view r)"
  shows "(\<forall>t s. sess_at (sessions A) (view r') t = Some s \<longrightarrow> sess_UserID s = u \<longrightarrow> sess_ID s \<noteq> sid) \<and>
    (\<forall>t s. sess_at (sessions A) (view r) t = Some s \<longrightarrow> sess_ID s \<noteq> sid \<longrightarrow> sess_at (sessions A) (view r') t = Some s)"
proof -
  obtain r1 where m: "revokeMatching (sessions A) [u] RevokeReasonKick (\<lambda>s. sess_ID s = sid) r = ((n, None), r1)"
    and v: "view r' = view r1"
    using assms(1) keepsD [OF writeRevokeLog_keeps, of u RevokeReasonKick sid]
    by (auto simp: account_RevokeSession_def RevokeSession_def split: prod.splits option.splits if_splits)
       (metis prod.collapse)
  note e = revokeMatching_effect [OF m wf, folded v]
  show ?thesis
  proof (intro conjI allI impI)
    show "sess_ID s \<noteq> sid" if "sess_at (sessions A) (view r') t = Some s" "sess_UserID s = u" for t s
      using e that by auto
    show "sess_at (sessions A) (view r') t = Some s" if "sess_at (sessions A) (view r) t = Some s" "sess_ID s \<noteq> sid" for t s
      using e that by (cases "sess_at (sessions A) (view r') t") fastforce+
  qed
qed

end

section \<open>Properties\<close>

text \<open>An in-memory database beside the in-memory Redis.\<close>

record acc_world = mem_world +
  aw_users :: "uuid \<Rightarrow> User option"
  aw_logs :: "LoginLog list"

definition mem_account :: "(acc_world, jdoc) account_env" where
  "mem_account =
     \<lparr>sessions = mem_env, has_logs = True,
      sql_select_user = (\<lambda>u w. (Inr (aw_users w u), w)),
      sql_update_status = (\<lambda>u st b w. case aw_users w u of
         None \<Rightarrow> (Inr None, w)
       | Some usr \<Rightarrow> (let usr' = usr\<lparr>user_Status := st, DeleteSubmittedAt := (if b then mw_clock w else 0)\<rparr>
                      in (Inr (Some usr'), w\<lparr>aw_users := (aw_users w)(u \<mapsto> usr')\<rparr>))),
      sql_update_password = (\<lambda>u h w. case aw_users w u of
         None \<Rightarrow> (Inr 0, w)
       | Some usr \<Rightarrow> (Inr 1, w\<lparr>aw_users := (aw_users w)(u \<mapsto> usr\<lparr>PasswordHash := h\<rparr>)\<rparr>)),
      sql_select_password = (\<lambda>u w. (Inr (map_option PasswordHash (aw_users w u)), w)),
      sql_insert_log = (\<lambda>l w. (Inr (), w\<lparr>aw_logs := aw_logs w @ [l]\<rparr>)),
      bcrypt_generate = Some, bcrypt_matches = (=)\<rparr>"

lemma sessions_mem_account [simp]: "sessions mem_account = mem_env"
  by (simp add: mem_account_def)

interpretation mem_account: account_world mem_account mw_redis
proof -
  have "session_service (mem_env :: (acc_world, jdoc) session_env) mw_redis" by (rule mem.session_service_axioms)
  moreover have "account_world_axioms mem_account mw_redis"
    by unfold_locales (auto simp: mem_account_def keeps_def Let_def split: option.splits)
  ultimately show "account_world mem_account mw_redis" by (simp add: account_world_def)
qed

definition acc_empty :: acc_world where
  "acc_empty = \<lparr>mw_redis = \<lparr>rs_kv = (\<lambda>_. None), rs_pub = []\<rparr>, mw_clock = 2000, mw_seed = 0,
     aw_users = [''u'' \<mapsto> \<lparr>user_ID = ''u'', PasswordHash = [], Nickname = [], AvatarURL = [], user_AvatarHash = [],
        Gender = [], user_Status = UserStatusActive, DeleteSubmittedAt = 0, user_CreatedAt = 0, user_UpdatedAt = 0\<rparr>],
     aw_logs = []\<rparr>"

definition acc_demo :: acc_world where
  "acc_demo = fold (svc_run (sessions mem_account))
     [OpPut demo_session (600 * ns_per_s),
      OpPut (demo_session\<lparr>sess_ID := ''s2'', Token := ''t2''\<rparr>) (600 * ns_per_s)] acc_empty"

lemma acc_demo_wf: "store_wf (sessions mem_account) (mw_redis acc_demo)"
proof -
  have "store_wf (sessions mem_account) (mw_redis acc_empty)"
    by (simp add: store_wf_def acc_empty_def set_members_def epoch_at_def counter_value_def)
  then show ?thesis unfolding acc_demo_def using mem_account.svc_runs_safe by blast
qed



text \<open>
  Resetting a password logs the user out for good in the same way, so whoever held a session under the old
  password has lost it when \<^verbatim>\<open>ResetPassword\<close> returns without an error; a password that is too short, or too long
  for bcrypt, is refused before anything is touched.
\<close>

theorem password_reset_logs_out_everywhere:
  assumes "account_world A view" and "store_wf (sessions A) (view r)"
    and "ResetPassword A u plain r = (Inr x, r')"
  shows "(\<forall>t s. sess_at (sessions A) (view r') t = Some s \<longrightarrow> sess_UserID s \<noteq> u) \<and>
    (\<forall>n. epoch_at (view r) u = Some n \<longrightarrow> (\<exists>m > n. epoch_at (view r') u = Some m)) \<and>
    8 \<le> RuneCount plain \<and> length plain \<le> 72"
proof -
  have "8 \<le> RuneCount plain \<and> length plain \<le> 72"
    using assms(3) by (auto simp: ResetPassword_def SetPassword_def bindE_Inr_iff minPasswordLength_def
        maxPasswordBytes_def split: if_splits)
  then show ?thesis
    using account_world.ResetPassword_logs_out [OF assms(1,3,2)] by (simp add: logged_out_def)
qed

theorem password_reset_logs_out_everywhere_witness:
  "{t. \<exists>s. sess_at (sessions mem_account) (mw_redis (snd (ResetPassword mem_account ''u'' ''correct horse'' acc_demo))) t = Some s
     \<and> sess_UserID s = ''u''} = {}"
proof -
  let ?run = "ResetPassword mem_account ''u'' ''correct horse'' acc_demo"
  have "fst ?run = Inr ()" by code_simp
  then have "?run = (Inr (), snd ?run)" by (metis prod.collapse)
  from password_reset_logs_out_everywhere [OF mem_account.account_world_axioms acc_demo_wf this] show ?thesis by blast
qed

text \<open>
  Kicking one device removes every token of that session, the one kept through a rotation included, and
  leaves all other sessions as they were.
\<close>

theorem kick_spares_other_devices:
  assumes "account_world A view" and "store_wf (sessions A) (view r)"
    and "account_RevokeSession A u sid r = ((n, None), r')"
  shows "(\<forall>t s. sess_at (sessions A) (view r') t = Some s \<longrightarrow> sess_UserID s = u \<longrightarrow> sess_ID s \<noteq> sid) \<and>
    (\<forall>t s. sess_at (sessions A) (view r) t = Some s \<longrightarrow> sess_ID s \<noteq> sid \<longrightarrow>
       sess_at (sessions A) (view r') t = Some s)"
  by (rule account_world.kick_effect [OF assms(1,3,2)])

theorem kick_spares_other_devices_witness:
  "sess_at (sessions mem_account) (mw_redis (snd (account_RevokeSession mem_account ''u'' ''s'' acc_demo))) ''t2'' =
     Some (demo_session\<lparr>sess_ID := ''s2'', Token := ''t2''\<rparr>)"
proof -
  let ?run = "account_RevokeSession mem_account ''u'' ''s'' acc_demo"
  have "fst ?run = (1, None)" by code_simp
  then have r: "?run = ((1, None), snd ?run)" by (metis prod.collapse)
  have "sess_at (sessions mem_account) (mw_redis acc_demo) ''t2'' = Some (demo_session\<lparr>sess_ID := ''s2'', Token := ''t2''\<rparr>)"
    by code_simp
  moreover have "sess_ID (demo_session\<lparr>sess_ID := ''s2'', Token := ''t2''\<rparr>) \<noteq> ''s''" by simp
  ultimately show ?thesis
    using kick_spares_other_devices [OF mem_account.account_world_axioms acc_demo_wf r] by blast
qed

end
