(* ===== verification/Confirmed_Cache.thy ===== *)
theory Confirmed_Cache
  imports Prelude
begin

text \<open>
  The interface shared by the caches of confirmed answers: the application and gateway credentials of the server
  (\<^verbatim>\<open>grpcapi/auth_interceptor.go\<close>), those of the gateway (\<^verbatim>\<open>imgrpc/appauth.go\<close>) and the identities
  business servers vouch for (\<^verbatim>\<open>bizauth\<close>). Each looks up a key, asks someone else on a miss, and remembers the
  answer for some time only when it is positive. What all of them promise follows from three laws.
\<close>

section \<open>Asking through a cache\<close>

text \<open>
  A question has a key, an instant and the answer the backend gives if it is asked: a refusal, or a value and until
  when and how it may be remembered (\<^verbatim>\<open>None\<close>: not at all).
\<close>

type_synonym ('k, 'e, 'v, 'x) question = "'k \<times> int \<times> ('e + 'v \<times> (int \<times> 'x) option)"

definition ask ::
  "('k \<Rightarrow> int \<Rightarrow> 's \<Rightarrow> 'v option) \<Rightarrow> ('k \<Rightarrow> 's \<Rightarrow> 's) \<Rightarrow> ('x \<Rightarrow> 'k \<Rightarrow> 'v \<Rightarrow> int \<Rightarrow> int \<Rightarrow> 's \<Rightarrow> 's) \<Rightarrow>
     ('k, 'e, 'v, 'x) question \<Rightarrow> 's \<Rightarrow> ('e + 'v) \<times> 's" where
  "ask lookup touched store q s =
     (case q of (k, now, ans) \<Rightarrow>
        case lookup k now s of
          Some v \<Rightarrow> (Inr v, touched k s)
        | None \<Rightarrow>
            (case ans of
               Inl e \<Rightarrow> (Inl e, touched k s)
             | Inr (v, None) \<Rightarrow> (Inr v, touched k s)
             | Inr (v, Some (e, x)) \<Rightarrow> (Inr v, store x k v e now (touched k s))))"

fun asked :: "('q \<Rightarrow> 's \<Rightarrow> 'r \<times> 's) \<Rightarrow> 'q list \<Rightarrow> 's \<Rightarrow> 's" where
  "asked f [] s = s"
| "asked f (q # qs) s = asked f qs (snd (f q s))"

lemma asked_append: "asked f (qs @ qs') s = asked f qs' (asked f qs s)"
  by (induction qs arbitrary: s) simp_all

text \<open>An operation that asks under a translated question does the same to the cache.\<close>

lemma asked_map:
  assumes "\<And>q s. snd (f q s) = snd (g (h q) s)"
  shows "asked f qs s = asked g (map h qs) s"
  by (induction qs arbitrary: s) (simp_all add: assms)

locale confirmed_cache =
  fixes lookup :: "'k \<Rightarrow> int \<Rightarrow> 's \<Rightarrow> 'v option"
    and touched :: "'k \<Rightarrow> 's \<Rightarrow> 's"
    and store :: "'x \<Rightarrow> 'k \<Rightarrow> 'v \<Rightarrow> int \<Rightarrow> int \<Rightarrow> 's \<Rightarrow> 's"
    and entries :: "'s \<Rightarrow> 'k set"
    and cache_ok :: "'s \<Rightarrow> bool"
    and fresh_cache :: 's
  assumes ok_fresh: "cache_ok fresh_cache"
    and ok_touched: "cache_ok s \<Longrightarrow> cache_ok (touched k s)"
    and ok_store: "cache_ok s \<Longrightarrow> cache_ok (store x k v e t s)"
    and entries_fresh: "entries fresh_cache = {}"
    and lookup_entry: "lookup k now s = Some v \<Longrightarrow> k \<in> entries s"
    and entries_touched: "entries (touched k s) \<subseteq> entries s"
    and lookup_touched: "lookup k' now (touched k s) = Some v \<Longrightarrow> lookup k' now s = Some v"
    and entries_store: "entries (store x k v e t s) \<subseteq> insert k (entries s)"
    and lookup_store: "cache_ok s \<Longrightarrow> lookup k' now (store x k v e t s) = Some v' \<Longrightarrow>
      k' = k \<and> v' = v \<and> now < e \<or> lookup k' now s = Some v'"
begin

abbreviation "asks \<equiv> ask lookup touched store"

definition backed :: "('k, 'e, 'v, 'x) question list \<Rightarrow> 's \<Rightarrow> bool" where
  "backed qs s \<longleftrightarrow> cache_ok s \<and>
     (\<forall>k now v. lookup k now s = Some v \<longrightarrow> (\<exists>t e x. (k, t, Inr (v, Some (e, x))) \<in> set qs \<and> now < e)) \<and>
     (\<forall>k \<in> entries s. \<exists>t v e x. (k, t, Inr (v, Some (e, x))) \<in> set qs)"

lemma backedI:
  assumes "cache_ok s"
    and "\<And>k now v. lookup k now s = Some v \<Longrightarrow> \<exists>t e x. (k, t, Inr (v, Some (e, x))) \<in> set qs \<and> now < e"
    and "\<And>k. k \<in> entries s \<Longrightarrow> \<exists>t v e x. (k, t, Inr (v, Some (e, x))) \<in> set qs"
  shows "backed qs s"
  using assms by (simp add: backed_def)

lemma backedD:
  assumes "backed qs s"
  shows "lookup k now s = Some v \<Longrightarrow> \<exists>t e x. (k, t, Inr (v, Some (e, x))) \<in> set qs \<and> now < e"
    and "k \<in> entries s \<Longrightarrow> \<exists>t v e x. (k, t, Inr (v, Some (e, x))) \<in> set qs"
    and "cache_ok s"
  using assms by (auto simp: backed_def)

lemma backed_fresh: "backed qs fresh_cache"
  by (rule backedI) (auto simp: entries_fresh ok_fresh dest: lookup_entry)

lemma backed_touched:
  assumes "backed qs s"
  shows "backed (qs @ qs') (touched k s)"
proof (rule backedI)
  show "cache_ok (touched k s)" using backedD(3) [OF assms] by (rule ok_touched)
next
  fix k' now v
  assume "lookup k' now (touched k s) = Some v"
  from backedD(1) [OF assms lookup_touched [OF this]]
  show "\<exists>t e x. (k', t, Inr (v, Some (e, x))) \<in> set (qs @ qs') \<and> now < e" by auto
next
  fix k'
  assume "k' \<in> entries (touched k s)"
  then have "k' \<in> entries s" using entries_touched by blast
  from backedD(2) [OF assms this] show "\<exists>t v e x. (k', t, Inr (v, Some (e, x))) \<in> set (qs @ qs')" by auto
qed

lemma backed_ask:
  assumes "backed qs s"
  shows "backed (qs @ [q]) (snd (asks q s))"
proof -
  obtain k now ans where q: "q = (k, now, ans)" by (cases q)
  note t = backed_touched [OF assms, of "[q]" k]
  have "backed (qs @ [q]) (store x k v e now (touched k s))" if "ans = Inr (v, Some (e, x))" for v e x
  proof (rule backedI)
    show "cache_ok (store x k v e now (touched k s))" using backedD(3) [OF t] by (rule ok_store)
  next
    fix k' now' v'
    assume "lookup k' now' (store x k v e now (touched k s)) = Some v'"
    from lookup_store [OF backedD(3) [OF t] this] show "\<exists>t e x. (k', t, Inr (v', Some (e, x))) \<in> set (qs @ [q]) \<and> now' < e"
      using backedD(1) [OF t, of k' now' v'] q that by auto
  next
    fix k'
    assume "k' \<in> entries (store x k v e now (touched k s))"
    then have "k' = k \<or> k' \<in> entries (touched k s)" using entries_store by blast
    then show "\<exists>t v e x. (k', t, Inr (v, Some (e, x))) \<in> set (qs @ [q])"
      using backedD(2) [OF t, of k'] q that by auto
  qed
  then show ?thesis using t by (auto simp: ask_def q split: option.splits sum.splits)
qed

lemma backed_asked: "backed qs s \<Longrightarrow> backed (qs @ qs') (asked asks qs' s)"
proof (induction qs' arbitrary: qs s)
  case (Cons q qs')
  from Cons.IH [OF backed_ask [OF Cons.prems]] show ?case by simp
qed simp

text \<open>
  A positive answer is the one the backend gives now, or one it gave under the same key and may still be remembered.
\<close>

lemma answers_confirmed:
  assumes "fst (asks (k, now, ans) (asked asks qs fresh_cache)) = Inr v"
  shows "(\<exists>m. ans = Inr (v, m)) \<or> (\<exists>t e x. (k, t, Inr (v, Some (e, x))) \<in> set qs \<and> now < e)"
proof (cases "lookup k now (asked asks qs fresh_cache)")
  case None
  then show ?thesis using assms by (auto simp: ask_def split: sum.splits prod.splits option.splits)
next
  case (Some w)
  have "backed qs (asked asks qs fresh_cache)" using backed_asked [OF backed_fresh, of "[]" qs] by simp
  from backedD(1) [OF this Some] have "\<exists>t e x. (k, t, Inr (w, Some (e, x))) \<in> set qs \<and> now < e" .
  then show ?thesis using assms Some by (simp add: ask_def)
qed

text \<open>Refusals leave nothing behind: whoever is refused cannot make the cache grow.\<close>

lemma entries_confirmed:
  "entries (asked asks qs fresh_cache) \<subseteq> {k. \<exists>t v e x. (k, t, Inr (v, Some (e, x))) \<in> set qs}"
  using backedD(2) [OF backed_asked [OF backed_fresh, of "[]" qs]] by auto

end

section \<open>The two shapes of a cache of credentials\<close>

text \<open>
  A Go map from keys to a value and its end, as an association list; when it holds 256 entries the ended ones are
  dropped before another is added.
\<close>

definition live_lookup :: "'k \<Rightarrow> int \<Rightarrow> ('k \<times> 'v \<times> int) list \<Rightarrow> 'v option" where
  "live_lookup k now c = (case map_of c k of Some (v, e) \<Rightarrow> if e > now then Some v else None | None \<Rightarrow> None)"

definition swept_store :: "nat \<Rightarrow> 'k \<Rightarrow> 'v \<Rightarrow> int \<Rightarrow> int \<Rightarrow> ('k \<times> 'v \<times> int) list \<Rightarrow> ('k \<times> 'v \<times> int) list" where
  "swept_store lim k v e now c =
     (let c1 = (if length c \<ge> lim then filter (\<lambda>(_, _, x). \<not> x \<le> now) c else c)
      in (k, v, e) # filter (\<lambda>x. fst x \<noteq> k) c1)"

lemma map_of_filter_other: "map_of (filter (\<lambda>x. fst x \<noteq> k) c) k' = (if k' = k then None else map_of c k')"
  by (induction c) auto

lemma map_of_filter_sub:
  assumes "distinct (map fst c)" and "map_of (filter P c) k = Some v"
  shows "map_of c k = Some v"
  using assms by (auto dest!: map_of_SomeD intro!: map_of_is_SomeI)

lemma distinct_filter_keys: "distinct (map fst c) \<Longrightarrow> distinct (map fst (filter P c))"
  by (induction c) auto

lemma live_lookup_Some: "live_lookup k now c = Some v \<longleftrightarrow> (\<exists>e. map_of c k = Some (v, e) \<and> e > now)"
  by (auto simp: live_lookup_def split: option.splits)

lemma live_lookup_swept:
  assumes "distinct (map fst s)" and "live_lookup k' now (swept_store lim k v e t s) = Some v'"
  shows "k' = k \<and> v' = v \<and> now < e \<or> live_lookup k' now s = Some v'"
proof (cases "k' = k")
  case True
  then show ?thesis using assms(2) by (auto simp: live_lookup_Some swept_store_def Let_def)
next
  case False
  then obtain x where "map_of (if length s \<ge> lim then filter (\<lambda>(_, _, x). \<not> x \<le> t) s else s) k' = Some (v', x)" "x > now"
    using assms(2) by (auto simp: live_lookup_Some swept_store_def Let_def map_of_filter_other)
  then show ?thesis using map_of_filter_sub [OF assms(1)] by (auto simp: live_lookup_Some split: if_splits)
qed

interpretation map_cache: confirmed_cache live_lookup "\<lambda>k s. s" "\<lambda>u::unit. swept_store lim" "\<lambda>s. fst ` set s" "\<lambda>s. distinct (map fst s)" "[]"
  for lim
proof unfold_locales
  show "live_lookup k now s = Some v \<Longrightarrow> k \<in> fst ` set s" for k now v and s :: "('k \<times> 'v \<times> int) list"
    by (force simp: live_lookup_Some dest: map_of_SomeD)
  show "k' = k \<and> v' = v \<and> now < e \<or> live_lookup k' now s = Some v'"
    if "distinct (map fst s)" "live_lookup k' now (swept_store lim k v e t s) = Some v'"
    for k' k v' v now e t and s :: "('k \<times> 'v \<times> int) list"
    using that by (rule live_lookup_swept)
qed (auto simp: swept_store_def Let_def distinct_filter_keys)

text \<open>A single slot: the hash that was accepted last and until when.\<close>

definition slot_lookup :: "'k \<Rightarrow> int \<Rightarrow> ('k \<times> int) option \<Rightarrow> unit option" where
  "slot_lookup k now s = (case s of Some (h, e) \<Rightarrow> if h = k \<and> e > now then Some () else None | None \<Rightarrow> None)"

definition slot_store :: "'k \<Rightarrow> unit \<Rightarrow> int \<Rightarrow> int \<Rightarrow> ('k \<times> int) option \<Rightarrow> ('k \<times> int) option" where
  "slot_store k v e now s = Some (k, e)"

interpretation slot_cache: confirmed_cache slot_lookup "\<lambda>k s. s" "\<lambda>u::unit. slot_store" "\<lambda>s. fst ` set_option s" "\<lambda>s. True" None
  by unfold_locales (auto simp: slot_lookup_def slot_store_def split: option.splits if_splits)

end
