(* ===== verification/Application_Service.thy ===== *)
theory Application_Service
  imports Domain Field_Schema Runes "HOL-Library.Char_ord" "HOL-Library.List_Lexorder"
begin

text \<open>
  The applications of the platform (\<^verbatim>\<open>internal/service/application.go\<close>) and the credential of the messaging
  gateway (\<^verbatim>\<open>internal/service/imcred.go\<close>). The tables are part of the state and a statement is the function
  on them its text describes, with the constraints of \<^verbatim>\<open>store/migrations\<close>; it may fail at any point
  (\<^verbatim>\<open>db_faults\<close>). bcrypt, the random source, JSON and the publisher are parameters.
\<close>

definition ApplicationStatusActive :: string where "ApplicationStatusActive = ''ACTIVE''"
definition ApplicationStatusDisabled :: string where "ApplicationStatusDisabled = ''DISABLED''"

section \<open>Tables and statements\<close>

record app_row =
  row_app :: Application
  row_hash :: string

record conn_row =
  cr_app :: uuid
  cr_type :: string
  cr_enabled :: bool
  cr_config :: config

record app_db =
  db_apps :: "app_row list"
  db_connectors :: "conn_row list"
  db_roles :: "string list"
  db_im_cred :: "string option"
  db_now :: int
  db_faults :: "bool list"

definition stmt :: "(app_db \<Rightarrow> 'a \<times> app_db) \<Rightarrow> (app_db, 'a) io" where
  "stmt f w =
     (case db_faults w of
        [] \<Rightarrow> (case f w of (x, w') \<Rightarrow> (Inr x, w'))
      | b # bs \<Rightarrow>
          if b then (Inl (Wrapped ''service: sql''), w\<lparr>db_faults := bs\<rparr>)
          else (case f (w\<lparr>db_faults := bs\<rparr>) of (x, w') \<Rightarrow> (Inr x, w')))"

abbreviation query :: "(app_db \<Rightarrow> 'a) \<Rightarrow> (app_db, 'a) io" where
  "query f \<equiv> stmt (\<lambda>w. (f w, w))"

text \<open>\<^verbatim>\<open>UPDATE application SET \<dots> WHERE id = $1 RETURNING \<dots>\<close>; \<^verbatim>\<open>None\<close> stands for no row.\<close>

definition update_app :: "uuid \<Rightarrow> (Application \<Rightarrow> Application) \<Rightarrow> (app_db, Application option) io" where
  "update_app i f =
     stmt (\<lambda>w. let touch = (\<lambda>a. (f a)\<lparr>app_UpdatedAt := db_now w\<rparr>)
               in (map_option (\<lambda>r. touch (row_app r)) (find (\<lambda>r. app_ID (row_app r) = i) (db_apps w)),
                   w\<lparr>db_apps := map (\<lambda>r. if app_ID (row_app r) = i then r\<lparr>row_app := touch (row_app r)\<rparr> else r) (db_apps w)\<rparr>))"

record app_env =
  ae_newID :: "app_db \<Rightarrow> uuid"
  ae_randomToken :: "(app_db, string) io"
  ae_randByte :: "(app_db, nat) io"
  ae_bcryptGenerate :: "string \<Rightarrow> (app_db, string) io"
  ae_bcryptMatches :: "string \<Rightarrow> string \<Rightarrow> bool"
  ae_schemas :: "(string \<rightharpoonup> Field list) option"
  ae_stored :: "config \<Rightarrow> config option"
  ae_PublishIM :: "(uuid \<Rightarrow> string \<Rightarrow> (app_db, unit) io) option"

definition CodeAppNotFound :: string where "CodeAppNotFound = ''APP_NOT_FOUND''"
definition CodeAppDisabled :: string where "CodeAppDisabled = ''APP_DISABLED''"
definition CodeAppCredentialInvalid :: string where "CodeAppCredentialInvalid = ''APP_CREDENTIAL_INVALID''"
definition CodeAppMustBeDisabled :: string where "CodeAppMustBeDisabled = ''APP_MUST_BE_DISABLED''"
definition CodeCodeTaken :: string where "CodeCodeTaken = ''CODE_TAKEN''"
definition CodeConnectorUnknown :: string where "CodeConnectorUnknown = ''CONNECTOR_UNKNOWN''"
definition CodeConnectorNotConfigured :: string where "CodeConnectorNotConfigured = ''CONNECTOR_NOT_CONFIGURED''"
definition CodeRoleNotFound :: string where "CodeRoleNotFound = ''ROLE_NOT_FOUND''"

abbreviation (input) app_not_found :: goerr where "app_not_found \<equiv> DomainErr ErrNotFound CodeAppNotFound"
abbreviation (input) bad_app_credential :: goerr where
  "bad_app_credential \<equiv> DomainErr ErrInvalidCredential CodeAppCredentialInvalid"

text \<open>The row an operation returns, or that there is no such application.\<close>

definition found_app :: "Application option \<Rightarrow> (app_db, Application) io" where
  "found_app r = (case r of None \<Rightarrow> throw app_not_found | Some a \<Rightarrow> ret a)"

section \<open>Creating\<close>

definition maxAppCodeLen :: nat where "maxAppCodeLen = 24"

definition appIDAlphabet :: string where
  "appIDAlphabet = ''ABCDEFGHIJKLMNOPQRSTUVWXYZabcdefghijklmnopqrstuvwxyz0123456789''"

definition maxByte :: nat where "maxByte = 256 - 256 mod length appIDAlphabet"

text \<open>The loop ends when enough random bytes are below \<^verbatim>\<open>maxByte\<close>; it has no bound.\<close>

partial_function (option) app_id_loop :: "(app_db, nat) io \<Rightarrow> string \<Rightarrow> app_db \<Rightarrow> ((goerr + string) \<times> app_db) option" where
  "app_id_loop rnd out w =
     (if length out < 28
      then (case rnd w of
              (Inl e, w') \<Rightarrow> Some (Inl (Wrapped ''service: rand''), w')
            | (Inr b, w') \<Rightarrow>
                if b \<ge> maxByte then app_id_loop rnd out w'
                else app_id_loop rnd (out @ [appIDAlphabet ! (b mod length appIDAlphabet)]) w')
      else Some (Inr (''FPID'' @ out), w))"

definition randomAppID :: "app_env \<Rightarrow> app_db \<Rightarrow> ((goerr + string) \<times> app_db) option" where
  "randomAppID E w = app_id_loop (ae_randByte E) [] w"

text \<open>At most \<^verbatim>\<open>n\<close> more attempts to find an identifier that is no application's code.\<close>

fun unused_loop :: "app_env \<Rightarrow> nat \<Rightarrow> app_db \<Rightarrow> ((goerr + string) \<times> app_db) option" where
  "unused_loop E 0 w = Some (Inl (Wrapped ''service: appId''), w)"
| "unused_loop E (Suc n) w =
     (case randomAppID E w of
        None \<Rightarrow> None
      | Some (Inl e, w1) \<Rightarrow> Some (Inl e, w1)
      | Some (Inr i, w1) \<Rightarrow>
          (case query (\<lambda>v. i \<in> (app_Code \<circ> row_app) ` set (db_apps v)) w1 of
             (Inl e, w2) \<Rightarrow> Some (Inl e, w2)
           | (Inr taken, w2) \<Rightarrow> if \<not> taken then Some (Inr i, w2) else unused_loop E n w2))"

definition unusedAppID :: "app_env \<Rightarrow> app_db \<Rightarrow> ((goerr + string) \<times> app_db) option" where
  "unusedAppID E w = unused_loop E 5 w"

text \<open>The row of an \<^verbatim>\<open>INSERT\<close>: the columns not named have their defaults.\<close>

definition new_app :: "uuid \<Rightarrow> int \<Rightarrow> string \<Rightarrow> string \<Rightarrow> string \<Rightarrow> Application" where
  "new_app i now name code appID =
     \<lparr>app_ID = i, app_Name = name, app_Code = code, app_AppID = appID, app_Status = ApplicationStatusActive,
      app_Session = DefaultSessionPolicy, CookieDomain = [], DefaultRoleKey = [], RedirectURIs = [], GrantTypes = [],
      app_IM = \<lparr>im_Enabled = False, ConnPolicy = IMConnPolicyReplace, ConnLimit = 5, AllowGuest = False, GuestIPRate = 20,
        BizAuth = None\<rparr>, app_CreatedAt = now, app_UpdatedAt = now\<rparr>"

text \<open>\<^verbatim>\<open>INSERT\<close>: \<^verbatim>\<open>None\<close> is the violation of one of the three keys: the identifier, the code, the external identifier.\<close>

definition insert_row :: "app_env \<Rightarrow> string \<Rightarrow> string \<Rightarrow> string \<Rightarrow> string \<Rightarrow> app_db \<Rightarrow> Application option \<times> app_db" where
  "insert_row E name code appID hash w =
     (let i = ae_newID E w; a = new_app i (db_now w) name code appID; as = map row_app (db_apps w) in
       if code \<in> app_Code ` set as \<or> appID \<in> app_AppID ` set as \<or> i \<in> app_ID ` set as then (None, w)
       else (Some a, w\<lparr>db_apps := db_apps w @ [\<lparr>row_app = a, row_hash = hash\<rparr>]\<rparr>))"

definition app_Create :: "app_env \<Rightarrow> string \<Rightarrow> string \<Rightarrow> app_db \<Rightarrow> ((goerr + Application \<times> string) \<times> app_db) option" where
  "app_Create E name code w =
     (if name = [] \<or> code = [] then Some (Inl invalid_argument, w)
      else if RuneCount code > maxAppCodeLen then Some (Inl invalid_argument, w)
      else case query (\<lambda>v. code \<in> (app_AppID \<circ> row_app) ` set (db_apps v)) w of
        (Inl e, w1) \<Rightarrow> Some (Inl e, w1)
      | (Inr taken, w1) \<Rightarrow>
          if taken then Some (Inl (DomainErr ErrConflict CodeCodeTaken), w1)
          else case unusedAppID E w1 of
            None \<Rightarrow> None
          | Some (Inl e, w2) \<Rightarrow> Some (Inl e, w2)
          | Some (Inr appID, w2) \<Rightarrow> Some (
              bindE (ae_randomToken E) (\<lambda>secret.
              bindE (ae_bcryptGenerate E secret) (\<lambda>hash.
              bindE (stmt (insert_row E name code appID hash)) (\<lambda>r.
                case r of None \<Rightarrow> throw (DomainErr ErrConflict CodeCodeTaken) | Some a \<Rightarrow> ret (a, secret)))) w2))"

section \<open>Reading\<close>

text \<open>\<^verbatim>\<open>ORDER BY created_at DESC\<close>; rows of the same instant keep an order the database does not promise.\<close>

definition app_List :: "(app_db, Application list) io" where
  "app_List = query (\<lambda>w. rev (sort_key app_CreatedAt (rev (map row_app (db_apps w)))))"

definition app_GetByID :: "uuid \<Rightarrow> (app_db, Application) io" where
  "app_GetByID i =
     bindE (query (\<lambda>w. map_option row_app (find (\<lambda>r. app_ID (row_app r) = i) (db_apps w)))) found_app"

text \<open>\<^verbatim>\<open>WHERE app_id = $1 OR code = $1 ORDER BY (app_id = $1) DESC LIMIT 1\<close>\<close>

definition appByExternalID :: "string \<Rightarrow> app_row list \<Rightarrow> app_row option" where
  "appByExternalID x rows =
     (case find (\<lambda>r. app_AppID (row_app r) = x) rows of
        Some r \<Rightarrow> Some r
      | None \<Rightarrow> find (\<lambda>r. app_Code (row_app r) = x) rows)"

definition GetByAppID :: "string \<Rightarrow> (app_db, Application) io" where
  "GetByAppID x = bindE (query (\<lambda>w. map_option row_app (appByExternalID x (db_apps w)))) found_app"

definition GetActiveByAppID :: "string \<Rightarrow> (app_db, Application) io" where
  "GetActiveByAppID x =
     bindE (GetByAppID x) (\<lambda>a.
       if app_Status a \<noteq> ApplicationStatusActive then throw (DomainErr ErrForbidden CodeAppDisabled) else ret a)"

definition VerifySecret :: "app_env \<Rightarrow> string \<Rightarrow> string \<Rightarrow> (app_db, Application) io" where
  "VerifySecret E x secret =
     bindE (query (\<lambda>w. map_option (\<lambda>r. (app_ID (row_app r), row_hash r)) (appByExternalID x (db_apps w)))) (\<lambda>r.
       case r of
         None \<Rightarrow> throw bad_app_credential
       | Some (i, hash) \<Rightarrow>
           if \<not> ae_bcryptMatches E hash secret then throw bad_app_credential
           else app_GetByID i)"

section \<open>Changing\<close>

definition UpdateSessionPolicy :: "uuid \<Rightarrow> SessionPolicy \<Rightarrow> (app_db, Application) io" where
  "UpdateSessionPolicy i p =
     (case SessionPolicy_Validate p of
        Some e \<Rightarrow> throw e
      | None \<Rightarrow> bindE (update_app i (\<lambda>a. a\<lparr>app_Session := p\<rparr>)) found_app)"

definition app_Update :: "uuid \<Rightarrow> string option \<Rightarrow> string option \<Rightarrow> (app_db, Application) io" where
  "app_Update i name cookieDomain =
     (if name = None \<and> cookieDomain = None then throw invalid_argument
      else if name = Some [] then throw invalid_argument
      else bindE (update_app i (\<lambda>a. a\<lparr>app_Name := case_option (app_Name a) id name,
                                       CookieDomain := case_option (CookieDomain a) id cookieDomain\<rparr>)) found_app)"

definition app_SetStatus :: "uuid \<Rightarrow> string \<Rightarrow> (app_db, Application) io" where
  "app_SetStatus i status =
     (if status \<notin> {ApplicationStatusActive, ApplicationStatusDisabled} then throw invalid_argument
      else bindE (update_app i (\<lambda>a. a\<lparr>app_Status := status\<rparr>)) found_app)"

text \<open>The delete cascades to the connectors.\<close>

definition app_Delete :: "uuid \<Rightarrow> (app_db, unit) io" where
  "app_Delete i =
     bindE (query (\<lambda>w. map_option (app_Status \<circ> row_app) (find (\<lambda>r. app_ID (row_app r) = i) (db_apps w)))) (\<lambda>st.
       case st of
         None \<Rightarrow> throw app_not_found
       | Some status \<Rightarrow>
           if status \<noteq> ApplicationStatusDisabled then throw (DomainErr ErrConflict CodeAppMustBeDisabled)
           else stmt (\<lambda>w. ((), w\<lparr>db_apps := filter (\<lambda>r. app_ID (row_app r) \<noteq> i) (db_apps w),
                                  db_connectors := filter (\<lambda>c. cr_app c \<noteq> i) (db_connectors w)\<rparr>)))"

definition SetDefaultRole :: "uuid \<Rightarrow> string \<Rightarrow> (app_db, Application) io" where
  "SetDefaultRole i roleKey =
     bindE (if roleKey \<noteq> []
            then bindE (query (\<lambda>w. count_list (db_roles w) roleKey))
                   (\<lambda>n. if n = 0 then throw (DomainErr ErrNotFound CodeRoleNotFound) else ret ())
            else ret ())
       (\<lambda>_. bindE (update_app i (\<lambda>a. a\<lparr>DefaultRoleKey := roleKey\<rparr>)) found_app)"

text \<open>\<^verbatim>\<open>CHECK (im_conn_policy IN \<dots>)\<close> fails the statement.\<close>

definition update_im :: "uuid \<Rightarrow> IMConfig \<Rightarrow> (app_db, Application option) io" where
  "update_im i c =
     (if ConnPolicy c \<in> {IMConnPolicyReplace, IMConnPolicyReject, IMConnPolicyLimit}
      then update_app i (\<lambda>a. a\<lparr>app_IM := c\<rparr>)
      else (\<lambda>w. if find (\<lambda>r. app_ID (row_app r) = i) (db_apps w) = None
                then update_app i (\<lambda>a. a\<lparr>app_IM := c\<rparr>) w
                else bindE (stmt (\<lambda>v. ((), v))) (\<lambda>_. throw (Wrapped ''service: check violation'')) w))"

definition SetIMConfig :: "app_env \<Rightarrow> uuid \<Rightarrow> IMConfig \<Rightarrow> (app_db, Application) io" where
  "SetIMConfig E i c =
     (case IMConfig_Validate c of
        Some e \<Rightarrow> throw e
      | None \<Rightarrow>
          bindE (bindE (update_im i c) found_app) (\<lambda>a.
            case ae_PublishIM E of
              None \<Rightarrow> ret a
            | Some publish \<Rightarrow> tryE (publish (app_ID a) (app_AppID a)) (\<lambda>_. ret a)))"

section \<open>Connectors\<close>

text \<open>\<^verbatim>\<open>n != math.Trunc(n)\<close> for a \<^verbatim>\<open>float64\<close>: whether there is a fractional part.\<close>

definition checkFieldValue :: "Field \<Rightarrow> gval \<Rightarrow> goerr option" where
  "checkFieldValue f v =
     (case fType f of
        FieldTypeBool \<Rightarrow> (case v of VBool b \<Rightarrow> None | _ \<Rightarrow> Some invalid_argument)
      | FieldTypeInt \<Rightarrow>
          (case v of
             VFloat m e \<Rightarrow> if e < 0 \<and> \<not> 2 ^ nat (- e) dvd m then Some invalid_argument else None
           | VGoInt n \<Rightarrow> None
           | VInt64 n \<Rightarrow> None
           | _ \<Rightarrow> Some invalid_argument)
      | FieldTypeOther t \<Rightarrow> Some (Wrapped ''service: field type'')
      | _ \<Rightarrow> (case v of
                VString s \<Rightarrow> if fRequired f \<and> s = [] then Some invalid_argument else None
              | _ \<Rightarrow> Some invalid_argument))"

fun check_required :: "Field list \<Rightarrow> config \<Rightarrow> goerr option" where
  "check_required [] c = None"
| "check_required (f # fs) c =
     (case c (fKey f) of
        None \<Rightarrow> if fRequired f then Some invalid_argument else check_required fs c
      | Some v \<Rightarrow> (case checkFieldValue f v of Some e \<Rightarrow> Some e | None \<Rightarrow> check_required fs c))"

text \<open>\<^verbatim>\<open>ks\<close> is the order in which the loop visits the keys of the map.\<close>

definition validateConnectorConfig :: "app_env \<Rightarrow> string list \<Rightarrow> string \<Rightarrow> config \<Rightarrow> goerr option" where
  "validateConnectorConfig E ks ty c =
     (case ae_schemas E of
        None \<Rightarrow> Some (Wrapped ''service: schemas'')
      | Some all \<Rightarrow>
          (case all ty of
             None \<Rightarrow> Some (DomainErr ErrNotFound CodeConnectorUnknown)
           | Some flds \<Rightarrow>
               (case first_unknown (set (map fKey flds)) (filter (\<lambda>k. c k \<noteq> None) ks) of
                  Some k \<Rightarrow> Some invalid_argument
                | None \<Rightarrow> check_required flds c)))"

definition GetConnector :: "uuid \<Rightarrow> string \<Rightarrow> (app_db, conn_row) io" where
  "GetConnector i ty =
     bindE (query (\<lambda>w. find (\<lambda>c. cr_app c = i \<and> cr_type c = ty) (db_connectors w)))
       (\<lambda>r. case r of None \<Rightarrow> throw (DomainErr ErrNotFound CodeConnectorNotConfigured) | Some c \<Rightarrow> ret c)"

text \<open>
  \<^verbatim>\<open>INSERT \<dots> ON CONFLICT DO UPDATE\<close>; an application that does not exist violates the foreign key. What is
  written is what JSON makes of the map.
\<close>

definition upsert_connector :: "conn_row \<Rightarrow> (app_db, unit) io" where
  "upsert_connector c =
     bindE (stmt (\<lambda>v. if cr_app c \<notin> (app_ID \<circ> row_app) ` set (db_apps v) then (False, v)
        else (True, v\<lparr>db_connectors := (if \<exists>x \<in> set (db_connectors v). cr_app x = cr_app c \<and> cr_type x = cr_type c
            then map (\<lambda>x. if cr_app x = cr_app c \<and> cr_type x = cr_type c then c else x) (db_connectors v)
            else db_connectors v @ [c])\<rparr>)))
       (\<lambda>ok. if ok then ret () else throw (Wrapped ''service: connector''))"

definition SetConnector :: "app_env \<Rightarrow> string list \<Rightarrow> uuid \<Rightarrow> string \<Rightarrow> bool \<Rightarrow> config \<Rightarrow> (app_db, unit) io" where
  "SetConnector E ks i ty enabled conf =
     (if ty = [] then throw invalid_argument
      else bindE (case ae_schemas E of
            None \<Rightarrow> ret conf
          | Some all \<Rightarrow>
              (case all ty of
                 None \<Rightarrow> ret conf
               | Some flds \<Rightarrow>
                   tryE (GetConnector i ty) (\<lambda>cur.
                     case cur of
                       Inr c \<Rightarrow> ret (MergeSecrets flds conf (cr_config c))
                     | Inl e \<Rightarrow> if errors_Is e ErrNotFound then ret (MergeSecrets flds conf Map.empty) else throw e)))
        (\<lambda>merged.
          case validateConnectorConfig E ks ty merged of
            Some e \<Rightarrow> throw e
          | None \<Rightarrow>
              (case ae_stored E merged of
                 None \<Rightarrow> throw (DomainErr ErrInternal CodeInternal)
               | Some stored \<Rightarrow>
                   upsert_connector \<lparr>cr_app = i, cr_type = ty, cr_enabled = enabled, cr_config = stored\<rparr>)))"

text \<open>A type whose schema is not known is shown without any value.\<close>

definition maskConnectorConfig :: "app_env \<Rightarrow> string \<Rightarrow> config \<Rightarrow> config" where
  "maskConnectorConfig E ty c =
     (case ae_schemas E of
        None \<Rightarrow> Map.empty
      | Some all \<Rightarrow> (case all ty of None \<Rightarrow> Map.empty | Some flds \<Rightarrow> MaskSecrets flds c))"

definition ListConnectors :: "app_env \<Rightarrow> uuid \<Rightarrow> (app_db, conn_row list) io" where
  "ListConnectors E i =
     bindE (query (\<lambda>w. sort_key cr_type (filter (\<lambda>c. cr_app c = i) (db_connectors w))))
       (\<lambda>rows. ret (map (\<lambda>c. c\<lparr>cr_config := maskConnectorConfig E (cr_type c) (cr_config c)\<rparr>) rows))"

section \<open>The credential of the gateway (\<^verbatim>\<open>imcred.go\<close>)\<close>

definition im_Rotate :: "app_env \<Rightarrow> (app_db, string) io" where
  "im_Rotate E =
     bindE (ae_randomToken E) (\<lambda>secret.
     bindE (ae_bcryptGenerate E secret) (\<lambda>hash.
     bindE (stmt (\<lambda>w. ((), w\<lparr>db_im_cred := Some hash\<rparr>))) (\<lambda>_. ret secret)))"

definition im_Verify :: "app_env \<Rightarrow> string \<Rightarrow> (app_db, unit) io" where
  "im_Verify E secret =
     (if secret = [] then throw bad_app_credential
      else bindE (query db_im_cred) (\<lambda>r.
        case r of
          None \<Rightarrow> throw bad_app_credential
        | Some hash \<Rightarrow> if \<not> ae_bcryptMatches E hash secret then throw bad_app_credential else ret ()))"

definition im_Exists :: "(app_db, bool) io" where
  "im_Exists = query (\<lambda>w. db_im_cred w \<noteq> None)"

section \<open>Well-formed tables\<close>

definition tables :: "app_db \<Rightarrow> app_row list \<times> conn_row list \<times> string list \<times> string option" where
  "tables w = (db_apps w, db_connectors w, db_roles w, db_im_cred w)"

definition names_ok :: "Application list \<Rightarrow> bool" where
  "names_ok as \<longleftrightarrow> distinct (map app_ID as) \<and> distinct (map app_Code as) \<and> distinct (map app_AppID as) \<and>
     app_Code ` set as \<inter> app_AppID ` set as = {}"

definition app_ok :: "Application \<Rightarrow> bool" where
  "app_ok a \<longleftrightarrow> app_Code a \<noteq> [] \<and> app_AppID a \<noteq> [] \<and> app_Name a \<noteq> [] \<and> app_Status a \<in> {ApplicationStatusActive, ApplicationStatusDisabled} \<and>
     SessionPolicy_Validate (app_Session a) = None \<and> IMConfig_Validate (app_IM a) = None \<and>
     ConnPolicy (app_IM a) \<in> {IMConnPolicyReplace, IMConnPolicyReject, IMConnPolicyLimit}"

definition connector_ok :: "app_env \<Rightarrow> conn_row \<Rightarrow> bool" where
  "connector_ok E c \<longleftrightarrow> (\<exists>all flds m. ae_schemas E = Some all \<and> all (cr_type c) = Some flds \<and>
     check_required flds m = None \<and> ae_stored E m = Some (cr_config c))"

definition apps_wf :: "app_env \<Rightarrow> app_db \<Rightarrow> bool" where
  "apps_wf E w \<longleftrightarrow>
     names_ok (map row_app (db_apps w)) \<and> (\<forall>r \<in> set (db_apps w). app_ok (row_app r)) \<and>
     distinct (map (\<lambda>c. (cr_app c, cr_type c)) (db_connectors w)) \<and>
     (\<forall>c \<in> set (db_connectors w). cr_app c \<in> (app_ID \<circ> row_app) ` set (db_apps w) \<and> connector_ok E c)"

lemma apps_wf_tables: "tables w' = tables w \<Longrightarrow> apps_wf E w' = apps_wf E w"
  by (simp add: tables_def apps_wf_def)

lemma stmt_Inr:
  assumes "stmt f w = (Inr x, w')"
  obtains bs where "f (w\<lparr>db_faults := bs\<rparr>) = (x, w')"
proof (cases "db_faults w")
  case Nil
  then have "w\<lparr>db_faults := []\<rparr> = w" by (cases w) simp
  moreover have "f w = (x, w')" using assms Nil by (simp add: stmt_def split: prod.splits)
  ultimately show ?thesis using that [of "[]"] by simp
next
  case (Cons b bs)
  then show ?thesis using assms that [of bs] by (simp add: stmt_def split: prod.splits if_splits)
qed

lemma stmt_Inl: "stmt f w = (Inl e, w') \<Longrightarrow> e = Wrapped ''service: sql'' \<and> tables w' = tables w"
  by (auto simp: stmt_def tables_def split: list.splits prod.splits if_splits)

lemma keeps_query [intro]: "keeps tables (query f)"
  by (rule keepsI) (auto simp: stmt_def tables_def split: list.splits if_splits)

text \<open>Rows replaced by rows of the same names, and rows removed.\<close>

lemma apps_wf_map:
  assumes "apps_wf E w" and names: "\<And>r. app_ID (row_app (g r)) = app_ID (row_app r)"
    "\<And>r. app_Code (row_app (g r)) = app_Code (row_app r)" "\<And>r. app_AppID (row_app (g r)) = app_AppID (row_app r)"
    and ok: "\<And>r. app_ok (row_app r) \<Longrightarrow> app_ok (row_app (g r))"
  shows "apps_wf E (w\<lparr>db_apps := map g (db_apps w)\<rparr>)"
  using assms(1) unfolding apps_wf_def names_ok_def by (simp add: image_image comp_def names ok)

lemma distinct_map_filterI: "distinct (map f xs) \<Longrightarrow> distinct (map f (filter P xs))"
  by (induction xs) auto

lemma names_ok_filter:
  assumes "names_ok (map row_app rows)"
  shows "names_ok (map row_app (filter P rows))"
  using assms unfolding names_ok_def list.set_map map_map set_filter by (auto intro: distinct_map_filterI)

lemma apps_wf_delete:
  assumes "apps_wf E w"
  shows "apps_wf E (w\<lparr>db_apps := filter (\<lambda>r. app_ID (row_app r) \<noteq> i) (db_apps w),
      db_connectors := filter (\<lambda>c. cr_app c \<noteq> i) (db_connectors w)\<rparr>)"
  using assms unfolding apps_wf_def by (auto intro: names_ok_filter distinct_map_filterI)

text \<open>What the model relies on: the parameters do not write the tables.\<close>

locale app_service =
  fixes E :: app_env
  assumes token_keeps: "keeps tables (ae_randomToken E)"
    and bytes_keep: "keeps tables (ae_randByte E)"
    and hash_keeps: "keeps tables (ae_bcryptGenerate E s)"
    and publish_keeps: "ae_PublishIM E = Some f \<Longrightarrow> keeps tables (f i x)"
begin

definition writes :: "(app_db, 'a) io \<Rightarrow> bool" where
  "writes m \<longleftrightarrow> (\<forall>w. apps_wf E w \<longrightarrow> apps_wf E (snd (m w)))"

lemma writesD:
  assumes "writes m" and "apps_wf E w" and "m w = (r, w')"
  shows "apps_wf E w'"
proof -
  have "apps_wf E (snd (m w))" using assms(1,2) by (simp add: writes_def)
  then show ?thesis by (simp add: assms(3))
qed

lemma writes_keeps: "keeps tables m \<Longrightarrow> writes m"
  unfolding writes_def keeps_def using apps_wf_tables by blast

lemma writes_ret: "writes (ret x)" and writes_throw: "writes (throw e)"
  by (rule writes_keeps, simp)+

lemma writesI:
  assumes "\<And>w r w'. apps_wf E w \<Longrightarrow> m w = (r, w') \<Longrightarrow> apps_wf E w'"
  shows "writes m"
  unfolding writes_def
proof (intro allI impI)
  fix w
  assume "apps_wf E w"
  then show "apps_wf E (snd (m w))" using assms [of w "fst (m w)" "snd (m w)"] by simp
qed

lemma writes_bindE:
  assumes "writes m" and "\<And>x. writes (f x)"
  shows "writes (bindE m f)"
proof (rule writesI)
  fix w r w'
  assume "apps_wf E w" and r: "bindE m f w = (r, w')"
  then have "apps_wf E (snd (m w))" using assms(1) by (simp add: writes_def)
  with r assms(2) show "apps_wf E w'" by (auto simp: bindE_def split: prod.splits sum.splits dest: writesD)
qed

lemma writes_tryE:
  assumes "writes m" and "\<And>x. writes (k x)"
  shows "writes (tryE m k)"
proof (rule writesI)
  fix w r w'
  assume "apps_wf E w" and r: "tryE m k w = (r, w')"
  then have "apps_wf E (snd (m w))" using assms(1) by (simp add: writes_def)
  with r assms(2) show "apps_wf E w'" by (auto simp: tryE_def split: prod.splits dest: writesD)
qed

lemma writes_stmt:
  assumes "\<And>w. apps_wf E w \<Longrightarrow> apps_wf E (snd (f w))"
  shows "writes (stmt f)"
proof -
  have "apps_wf E (w\<lparr>db_faults := bs\<rparr>) = apps_wf E w" for w bs by (rule apps_wf_tables) (simp add: tables_def)
  then have f: "apps_wf E (snd (f (w\<lparr>db_faults := bs\<rparr>)))" if "apps_wf E w" for w bs using assms that by simp
  show ?thesis
  proof (rule writesI)
    fix w r w'
    assume "apps_wf E w" and r: "stmt f w = (r, w')"
    then show "apps_wf E w'"
    proof (cases r)
      case (Inl e)
      with r have "tables w' = tables w" using stmt_Inl by blast
      from apps_wf_tables [OF this] show ?thesis using \<open>apps_wf E w\<close> by simp
    next
      case (Inr x)
      with r obtain bs where "f (w\<lparr>db_faults := bs\<rparr>) = (x, w')" by (auto elim: stmt_Inr)
      then show ?thesis using f [OF \<open>apps_wf E w\<close>, of bs] by simp
    qed
  qed
qed

lemmas writes_intros = writes_ret writes_throw writes_bindE writes_tryE writes_keeps [OF keeps_query] writes_keeps [OF token_keeps]
  writes_keeps [OF hash_keeps]

text \<open>An update of one row that leaves its three names alone.\<close>

lemma writes_update_app:
  assumes "\<And>a. app_ok a \<Longrightarrow> app_ok (f a)"
    and "\<And>a. app_ID (f a) = app_ID a \<and> app_Code (f a) = app_Code a \<and> app_AppID (f a) = app_AppID a"
  shows "writes (update_app i f)"
  unfolding update_app_def Let_def snd_conv
  by (rule writes_stmt, simp only: snd_conv, rule apps_wf_map) (use assms in \<open>auto simp: app_ok_def\<close>)

lemma writes_found: "writes (found_app r)"
  by (simp add: found_app_def writes_ret writes_throw split: option.split)

lemma writes_if: "(b \<Longrightarrow> writes m) \<Longrightarrow> (\<not> b \<Longrightarrow> writes m') \<Longrightarrow> writes (if b then m else m')"
  by simp

lemma writes_option: "writes m \<Longrightarrow> (\<And>x. writes (f x)) \<Longrightarrow> writes (case r of None \<Rightarrow> m | Some x \<Rightarrow> f x)"
  by (simp split: option.split)

lemma writes_changes:
  "writes (UpdateSessionPolicy i p)" "writes (app_Update i name cd)" "writes (app_SetStatus i status)" "writes (SetDefaultRole i rk)"
proof -
  show "writes (UpdateSessionPolicy i p)"
    unfolding UpdateSessionPolicy_def
    by (auto intro!: writes_intros writes_found writes_update_app simp: app_ok_def split: option.splits)
  show "writes (app_Update i name cd)"
    unfolding app_Update_def
    by (auto intro!: writes_intros writes_found writes_update_app simp: app_ok_def split: option.splits)
  show "writes (app_SetStatus i status)"
    unfolding app_SetStatus_def by (auto intro!: writes_intros writes_found writes_update_app simp: app_ok_def)
  show "writes (SetDefaultRole i rk)"
    unfolding SetDefaultRole_def
    by (intro writes_intros writes_if writes_found writes_update_app) (auto simp: app_ok_def)
qed

lemma writes_SetIMConfig: "writes (SetIMConfig E i c)"
proof (cases "IMConfig_Validate c")
  case None
  have u: "writes (update_app i (\<lambda>a. a\<lparr>app_IM := c\<rparr>))"
    if "ConnPolicy c \<in> {IMConnPolicyReplace, IMConnPolicyReject, IMConnPolicyLimit}"
    by (rule writes_update_app) (use None that in \<open>auto simp: app_ok_def\<close>)
  have "writes (update_im i c)"
  proof (cases "ConnPolicy c \<in> {IMConnPolicyReplace, IMConnPolicyReject, IMConnPolicyLimit}")
    case False
    have "writes (bindE (stmt (\<lambda>v. ((), v))) (\<lambda>_. throw (Wrapped ''service: check violation'')) :: (app_db, Application option) io)"
      by (intro writes_bindE writes_stmt writes_throw) simp
    moreover have "apps_wf E (snd (update_app i (\<lambda>a. a\<lparr>app_IM := c\<rparr>) w))"
      if "apps_wf E w" "find (\<lambda>r. app_ID (row_app r) = i) (db_apps w) = None" for w
    proof -
      have "map (\<lambda>r. if app_ID (row_app r) = i then r\<lparr>row_app := x r\<rparr> else r) (db_apps w) = db_apps w" for x
        using that(2) by (intro map_idI) (auto simp: find_None_iff)
      then have "tables (snd (update_app i (\<lambda>a. a\<lparr>app_IM := c\<rparr>) w)) = tables w"
        by (auto simp: update_app_def stmt_def tables_def Let_def split: list.splits)
      then show ?thesis using that(1) apps_wf_tables by blast
    qed
    ultimately show ?thesis using False by (simp add: update_im_def writes_def)
  qed (simp add: update_im_def u)
  then show ?thesis unfolding SetIMConfig_def None
    by (auto intro!: writes_bindE writes_found writes_tryE writes_ret writes_keeps [OF publish_keeps] split: option.splits)
qed (simp add: SetIMConfig_def writes_throw)

lemma writes_Delete: "writes (app_Delete i)"
proof -
  have "writes (stmt (\<lambda>w. ((), w\<lparr>db_apps := filter (\<lambda>r. app_ID (row_app r) \<noteq> i) (db_apps w),
      db_connectors := filter (\<lambda>c. cr_app c \<noteq> i) (db_connectors w)\<rparr>)))"
    by (rule writes_stmt) (simp only: snd_conv, rule apps_wf_delete)
  then show ?thesis unfolding app_Delete_def
    by (intro writes_intros writes_option writes_if)
qed

lemma writes_upsert:
  assumes "connector_ok E c"
  shows "writes (upsert_connector c)"
proof -
  let ?key = "\<lambda>x. (cr_app x, cr_type x)"
  have "apps_wf E (v\<lparr>db_connectors := (if \<exists>x \<in> set (db_connectors v). cr_app x = cr_app c \<and> cr_type x = cr_type c
      then map (\<lambda>x. if cr_app x = cr_app c \<and> cr_type x = cr_type c then c else x) (db_connectors v)
      else db_connectors v @ [c])\<rparr>)"
    if w: "apps_wf E v" and i: "cr_app c \<in> (app_ID \<circ> row_app) ` set (db_apps v)" for v
  proof -
    have "map ?key (map (\<lambda>x. if cr_app x = cr_app c \<and> cr_type x = cr_type c then c else x) (db_connectors v)) =
      map ?key (db_connectors v)" by auto
    then have "distinct (map ?key (map (\<lambda>x. if cr_app x = cr_app c \<and> cr_type x = cr_type c then c else x) (db_connectors v)))"
      using w by (simp only: apps_wf_def)
    then show ?thesis using w i assms unfolding apps_wf_def by auto
  qed
  then show ?thesis unfolding upsert_connector_def
    by (intro writes_bindE writes_if writes_ret writes_throw writes_stmt) (simp split: if_split)
qed

lemma writes_SetConnector: "writes (SetConnector E ks i ty enabled c)"
proof -
  have "writes (upsert_connector \<lparr>cr_app = i, cr_type = ty, cr_enabled = enabled, cr_config = st\<rparr>)"
    if "validateConnectorConfig E ks ty m = None" "ae_stored E m = Some st" for m st
    by (rule writes_upsert)
      (use that in \<open>auto simp: validateConnectorConfig_def connector_ok_def split: option.splits\<close>)
  then have wr: "writes (case validateConnectorConfig E ks ty m of Some e \<Rightarrow> throw e
      | None \<Rightarrow> (case ae_stored E m of None \<Rightarrow> throw (DomainErr ErrInternal CodeInternal)
         | Some st \<Rightarrow> upsert_connector \<lparr>cr_app = i, cr_type = ty, cr_enabled = enabled, cr_config = st\<rparr>))" for m
    by (cases "validateConnectorConfig E ks ty m"; cases "ae_stored E m") (simp_all only: option.case writes_throw)
  have get: "writes (GetConnector i ty)"
    unfolding GetConnector_def by (intro writes_intros writes_option)
  have "writes (case cur of Inr c' \<Rightarrow> ret (f c') | Inl e \<Rightarrow> if errors_Is e ErrNotFound then ret y else throw e)" for cur f y
    by (cases cur) (simp_all only: sum.case writes_ret writes_throw if_split simp_thms imp_refl)
  then show ?thesis unfolding SetConnector_def
    by (intro writes_if writes_throw writes_bindE writes_option writes_ret writes_tryE get wr)
qed

lemma writes_Rotate: "writes (im_Rotate E)"
  unfolding im_Rotate_def by (intro writes_intros writes_stmt) (auto simp: apps_wf_def)

end

lemma alphabet_nth: "appIDAlphabet ! (n mod length appIDAlphabet) \<in> set appIDAlphabet"
proof -
  have "length appIDAlphabet > 0" by (simp add: appIDAlphabet_def)
  then show ?thesis by (intro nth_mem) simp
qed

lemma prefix_alphabet: "set ''FPID'' \<subseteq> set appIDAlphabet"
  by code_simp

lemma app_id_loop_spec:
  "app_id_loop rnd out w = Some (r, w') \<Longrightarrow> keeps tables rnd \<and> set out \<subseteq> set appIDAlphabet \<and> length out \<le> 28 \<longrightarrow>
    tables w' = tables w \<and> (\<forall>i. r = Inr i \<longrightarrow> length i = 32 \<and> set i \<subseteq> set appIDAlphabet)"
proof (induction rnd out w "(r, w')" rule: app_id_loop.raw_induct [rotated, consumes 1, case_names step])
  case (step lp rnd out w)
  show ?case
  proof (rule impI, elim conjE)
    assume k: "keeps tables rnd" and o: "set out \<subseteq> set appIDAlphabet" and l: "length out \<le> 28"
    show "tables w' = tables w \<and> (\<forall>i. r = Inr i \<longrightarrow> length i = 32 \<and> set i \<subseteq> set appIDAlphabet)"
    proof (cases "length out < 28")
      case True
      obtain x w1 where b: "rnd w = (x, w1)" by (cases "rnd w")
      have t: "tables w1 = tables w" using k b by (rule keepsD)
      show ?thesis
      proof (cases x)
        case (Inl e)
        then show ?thesis using step(2) True b t by auto
      next
        case (Inr n)
        show ?thesis
        proof (cases "n \<ge> maxByte")
          case True
          with step(2) \<open>length out < 28\<close> b Inr have "lp rnd out w1 = Some (r, w')" by simp
          from step(1) [OF this] k o l t show ?thesis by simp
        next
          case False
          with step(2) \<open>length out < 28\<close> b Inr
          have "lp rnd (out @ [appIDAlphabet ! (n mod length appIDAlphabet)]) w1 = Some (r, w')" by simp
          from step(1) [OF this] k o t True alphabet_nth [of n] show ?thesis by simp
        qed
      qed
    next
      case False
      then have "r = Inr (''FPID'' @ out)" "w' = w" "length out = 28" using step(2) l by auto
      then show ?thesis using o prefix_alphabet by (auto simp del: insert_subset)
    qed
  qed
qed

lemma app_id_loop_other:
  "app_id_loop rnd out w = Some (r, w') \<Longrightarrow> keeps tables rnd \<Longrightarrow> out = [] \<Longrightarrow> r = Inr i \<Longrightarrow> RuneCount i = 32"
proof -
  assume "app_id_loop rnd out w = Some (r, w')" "keeps tables rnd" "out = []" "r = Inr i"
  then have i: "length i = 32" "set i \<subseteq> set appIDAlphabet" using app_id_loop_spec by fastforce+
  have "list_all (\<lambda>c. byte c < 0x80) appIDAlphabet" by code_simp
  then have "list_all (\<lambda>c. byte c < 0x80) i" using i(2) by (auto simp: list_all_iff)
  then show ?thesis using i(1) by (simp add: RuneCount_def runes_ascii)
qed

context app_service begin

lemma unused_loop_spec:
  "unused_loop E n w = Some (r, w') \<Longrightarrow>
     tables w' = tables w \<and> (\<forall>i. r = Inr i \<longrightarrow> RuneCount i = 32 \<and> i \<notin> (app_Code \<circ> row_app) ` set (db_apps w))"
proof (induction n arbitrary: w)
  case (Suc n)
  obtain x w1 where x: "randomAppID E w = Some (x, w1)" using Suc(2) by (cases "randomAppID E w") auto
  have t: "tables w1 = tables w"
    using app_id_loop_spec bytes_keep x unfolding randomAppID_def by fastforce
  show ?case
  proof (cases x)
    case (Inr i)
    obtain y w2 where y: "query (\<lambda>v. i \<in> (app_Code \<circ> row_app) ` set (db_apps v)) w1 = (y, w2)" by fastforce
    have t2: "tables w2 = tables w" using keepsD [OF keeps_query y] t by simp
    have n: "RuneCount i = 32" using app_id_loop_other x Inr bytes_keep unfolding randomAppID_def by blast
    show ?thesis
    proof (cases y)
      case (Inr taken)
      then have "taken = (i \<in> (app_Code \<circ> row_app) ` set (db_apps w1))"
        using y by (auto simp: stmt_def split: list.splits if_splits)
      then show ?thesis using Suc(2) x \<open>x = Inr i\<close> y Inr t t2 n Suc.IH [of w2]
        by (auto simp: tables_def split: if_splits)
    qed (use Suc(2) x Inr y t2 in auto)
  qed (use Suc(2) x t in auto)
qed auto

lemma new_app_ok: "name \<noteq> [] \<Longrightarrow> code \<noteq> [] \<Longrightarrow> appID \<noteq> [] \<Longrightarrow> app_ok (new_app i now name code appID)"
  by (simp add: app_ok_def new_app_def DefaultSessionPolicy_valid IMConfig_Validate_def)

lemma names_ok_snoc:
  "names_ok as \<Longrightarrow> app_ID a \<notin> app_ID ` set as \<Longrightarrow> app_Code a \<notin> app_Code ` set as \<Longrightarrow> app_AppID a \<notin> app_AppID ` set as \<Longrightarrow>
     app_Code a \<notin> app_AppID ` set as \<Longrightarrow> app_AppID a \<notin> app_Code ` set as \<Longrightarrow> app_Code a \<noteq> app_AppID a \<Longrightarrow> names_ok (as @ [a])"
  by (auto simp: names_ok_def)

lemma insert_row_wf:
  assumes w: "apps_wf E w" and n: "name \<noteq> []" "code \<noteq> []" "code \<noteq> appID" "appID \<noteq> []"
    and c: "code \<notin> (app_AppID \<circ> row_app) ` set (db_apps w)" "appID \<notin> (app_Code \<circ> row_app) ` set (db_apps w)"
  shows "apps_wf E (snd (insert_row E name code appID hash w))"
proof (cases "fst (insert_row E name code appID hash w)")
  case None
  then show ?thesis using w by (auto simp: insert_row_def Let_def split: if_splits)
next
  case (Some a)
  then have a: "a = new_app (ae_newID E w) (db_now w) name code appID" and
    k: "code \<notin> app_Code ` set (map row_app (db_apps w))" "appID \<notin> app_AppID ` set (map row_app (db_apps w))"
      "ae_newID E w \<notin> app_ID ` set (map row_app (db_apps w))"
    by (auto simp: insert_row_def Let_def split: if_splits)
  have "names_ok (map row_app (db_apps w) @ [a])"
    by (rule names_ok_snoc) (use w k c n a in \<open>auto simp: apps_wf_def new_app_def\<close>)
  moreover have "insert_row E name code appID hash w = (Some a, w\<lparr>db_apps := db_apps w @ [\<lparr>row_app = a, row_hash = hash\<rparr>]\<rparr>)"
    using k a by (simp add: insert_row_def Let_def)
  ultimately show ?thesis using w new_app_ok [OF n(1,2,4)] a unfolding apps_wf_def by auto
qed

text \<open>The last part of \<^verbatim>\<open>Create\<close>, from tables where both names are free.\<close>

lemma Create_tail_wf:
  assumes w: "apps_wf E w" and n: "name \<noteq> []" "code \<noteq> []" "code \<noteq> appID" "appID \<noteq> []"
    and c: "code \<notin> (app_AppID \<circ> row_app) ` set (db_apps w)" "appID \<notin> (app_Code \<circ> row_app) ` set (db_apps w)"
  shows "apps_wf E (snd (bindE (ae_randomToken E) (\<lambda>secret. bindE (ae_bcryptGenerate E secret) (\<lambda>hash.
     bindE (stmt (insert_row E name code appID hash)) (\<lambda>r.
       case r of None \<Rightarrow> throw (DomainErr ErrConflict CodeCodeTaken) | Some a \<Rightarrow> ret (a, secret)))) w))"
proof -
  have wf: "apps_wf E v" if "tables v = tables w" for v using w apps_wf_tables [OF that] by simp
  have ins: "apps_wf E (snd (stmt (insert_row E name code appID hash) v))" if t: "tables v = tables w" for v hash
  proof (cases "stmt (insert_row E name code appID hash) v")
    case (Pair r v')
    show ?thesis
    proof (cases r)
      case (Inl e)
      then show ?thesis using Pair stmt_Inl wf t by fastforce
    next
      case (Inr x)
      then obtain bs where "insert_row E name code appID hash (v\<lparr>db_faults := bs\<rparr>) = (x, v')"
        using Pair by (auto elim: stmt_Inr)
      moreover have "tables (v\<lparr>db_faults := bs\<rparr>) = tables w" using t by (simp add: tables_def)
      ultimately show ?thesis
        using insert_row_wf [OF wf n, of "v\<lparr>db_faults := bs\<rparr>" hash] c Pair by (simp add: tables_def)
    qed
  qed
  have fin: "apps_wf E (snd (bindE (stmt (insert_row E name code appID hash)) (\<lambda>r.
       case r of None \<Rightarrow> throw (DomainErr ErrConflict CodeCodeTaken) | Some a \<Rightarrow> ret (a, secret)) v))"
    if t: "tables v = tables w" for v secret hash
    using ins [OF t, of hash] by (auto simp: bindE_def split: prod.splits sum.splits option.splits)
  obtain s w1 where 1: "ae_randomToken E w = (s, w1)" by fastforce
  then have t1: "tables w1 = tables w" using token_keeps by (rule keepsD [rotated])
  show ?thesis
  proof (cases s)
    case (Inl e)
    then show ?thesis using 1 wf [OF t1] by (simp add: bindE_def)
  next
    case (Inr secret)
    obtain h w2 where 2: "ae_bcryptGenerate E secret w1 = (h, w2)" by fastforce
    then have "tables w2 = tables w1" using hash_keeps by (rule keepsD [rotated])
    then have t2: "tables w2 = tables w" using t1 by simp
    show ?thesis using 1 2 Inr wf [OF t2] fin [OF t2]
      by (cases h) (simp_all add: bindE_eq_Inr bindE_eq_Inl)
  qed
qed

lemma Create_wf:
  assumes w: "apps_wf E w" and r: "app_Create E name code w = Some (r, w')"
  shows "apps_wf E w'"
proof (cases "name = [] \<or> code = [] \<or> RuneCount code > maxAppCodeLen")
  case True
  then show ?thesis using assms by (auto simp: app_Create_def split: if_splits)
next
  case False
  obtain t w1 where q: "query (\<lambda>v. code \<in> (app_AppID \<circ> row_app) ` set (db_apps v)) w = (t, w1)" by fastforce
  have t1: "tables w1 = tables w" using keepsD [OF keeps_query q] .
  have wf1: "apps_wf E w1" using w apps_wf_tables [OF t1] by simp
  show ?thesis
  proof (cases "t = Inr False")
    case fresh: True
    have code: "code \<notin> (app_AppID \<circ> row_app) ` set (db_apps w)"
      using q fresh by (auto simp: stmt_def split: list.splits if_splits)
    obtain u w2 where u: "unusedAppID E w1 = Some (u, w2)"
      using r False q fresh by (cases "unusedAppID E w1") (auto simp: app_Create_def)
    have u2: "tables w2 = tables w" "\<And>i. u = Inr i \<Longrightarrow> RuneCount i = 32 \<and> i \<notin> (app_Code \<circ> row_app) ` set (db_apps w)"
      using unused_loop_spec [of 5 w1 u w2] u t1 by (auto simp: unusedAppID_def tables_def)
    have wf2: "apps_wf E w2" using w apps_wf_tables [OF u2(1)] by simp
    show ?thesis
    proof (cases u)
      case (Inl e)
      then show ?thesis using r False q fresh u wf2 by (auto simp: app_Create_def)
    next
      case (Inr appID)
      have ne: "code \<noteq> appID" using False u2(2) [OF Inr] by (auto simp: maxAppCodeLen_def)
      have "RuneCount [] = 0" by code_simp
      then have full: "appID \<noteq> []" using u2(2) [OF Inr] by auto
      have "w' = snd (bindE (ae_randomToken E) (\<lambda>secret. bindE (ae_bcryptGenerate E secret) (\<lambda>hash.
          bindE (stmt (insert_row E name code appID hash)) (\<lambda>r.
            case r of None \<Rightarrow> throw (DomainErr ErrConflict CodeCodeTaken) | Some a \<Rightarrow> ret (a, secret)))) w2)"
        using r False q fresh u Inr by (simp add: app_Create_def)
      then show ?thesis
        using Create_tail_wf [OF wf2 _ _ ne full] False code u2(2) [OF Inr] u2(1) by (simp add: tables_def)
    qed
  next
    case False
    then show ?thesis using r q wf1 \<open>\<not> (name = [] \<or> code = [] \<or> RuneCount code > maxAppCodeLen)\<close>
      by (auto simp: app_Create_def split: sum.splits if_splits)
  qed
qed

end

section \<open>Runs\<close>

datatype app_op =
    AppCreate string string
  | AppSession uuid SessionPolicy
  | AppUpdate uuid "string option" "string option"
  | AppStatus uuid string
  | AppDelete uuid
  | AppRole uuid string
  | AppIM uuid IMConfig
  | AppConnector "string list" uuid string bool config
  | AppRotate

text \<open>\<^verbatim>\<open>None\<close>: the search for an identifier does not end.\<close>

fun app_exec :: "app_env \<Rightarrow> app_op \<Rightarrow> app_db \<Rightarrow> app_db option" where
  "app_exec E (AppCreate name code) w = map_option snd (app_Create E name code w)"
| "app_exec E (AppSession i p) w = Some (snd (UpdateSessionPolicy i p w))"
| "app_exec E (AppUpdate i n c) w = Some (snd (app_Update i n c w))"
| "app_exec E (AppStatus i st) w = Some (snd (app_SetStatus i st w))"
| "app_exec E (AppDelete i) w = Some (snd (app_Delete i w))"
| "app_exec E (AppRole i r) w = Some (snd (SetDefaultRole i r w))"
| "app_exec E (AppIM i c) w = Some (snd (SetIMConfig E i c w))"
| "app_exec E (AppConnector ks i ty en c) w = Some (snd (SetConnector E ks i ty en c w))"
| "app_exec E AppRotate w = Some (snd (im_Rotate E w))"

fun app_run :: "app_env \<Rightarrow> app_op list \<Rightarrow> app_db \<Rightarrow> app_db option" where
  "app_run E [] w = Some w"
| "app_run E (x # xs) w = (case app_exec E x w of None \<Rightarrow> None | Some w' \<Rightarrow> app_run E xs w')"

context app_service begin

lemma exec_wf: "apps_wf E w \<Longrightarrow> app_exec E x w = Some w' \<Longrightarrow> apps_wf E w'"
  using writes_changes writes_SetIMConfig writes_Delete writes_SetConnector writes_Rotate
  by (cases x) (auto simp: writes_def intro: Create_wf)

lemma run_wf: "apps_wf E w \<Longrightarrow> app_run E xs w = Some w' \<Longrightarrow> apps_wf E w'"
  by (induction xs arbitrary: w) (auto split: option.splits intro: exec_wf)

end

text \<open>In well-formed tables a name belongs to one application.\<close>

lemma find_distinct: "distinct (map f xs) \<Longrightarrow> x \<in> set xs \<Longrightarrow> find (\<lambda>y. f y = f x) xs = Some x"
  by (induction xs) auto

lemma appByExternalID_iff:
  assumes "names_ok (map row_app rows)"
  shows "appByExternalID x rows = Some r \<longleftrightarrow> r \<in> set rows \<and> (app_AppID (row_app r) = x \<or> app_Code (row_app r) = x)"
proof
  assume "appByExternalID x rows = Some r"
  then show "r \<in> set rows \<and> (app_AppID (row_app r) = x \<or> app_Code (row_app r) = x)"
    by (auto simp: appByExternalID_def find_Some_iff split: option.splits)
next
  assume r: "r \<in> set rows \<and> (app_AppID (row_app r) = x \<or> app_Code (row_app r) = x)"
  have d: "distinct (map (app_AppID \<circ> row_app) rows)" "distinct (map (app_Code \<circ> row_app) rows)"
    and j: "\<And>r r'. r \<in> set rows \<Longrightarrow> r' \<in> set rows \<Longrightarrow> app_Code (row_app r) \<noteq> app_AppID (row_app r')"
    using assms by (auto simp: names_ok_def)
  show "appByExternalID x rows = Some r"
  proof (cases "app_AppID (row_app r) = x")
    case True
    then show ?thesis using find_distinct [OF d(1), of r] r by (auto simp: appByExternalID_def)
  next
    case False
    then have x: "app_Code (row_app r) = x" using r by blast
    have "app_AppID (row_app q) \<noteq> x" if "q \<in> set rows" for q using j [OF _ that, of r] r x by blast
    then have "find (\<lambda>r. app_AppID (row_app r) = x) rows = None" unfolding find_None_iff by blast
    moreover have "find (\<lambda>q. app_Code (row_app q) = x) rows = Some r"
      using find_distinct [OF d(2), of r] r x by (simp only: comp_def)
    ultimately show ?thesis by (simp only: appByExternalID_def option.case)
  qed
qed

section \<open>An executable environment\<close>

definition demo_apps :: app_env where
  "demo_apps =
     \<lparr>ae_newID = (\<lambda>w. replicate (length (db_apps w) + 1) (CHR ''i'')),
      ae_randomToken = (\<lambda>w. (Inr ''secret'', w\<lparr>db_now := db_now w + 1\<rparr>)),
      ae_randByte = (\<lambda>w. (Inr (nat (db_now w) mod 62), w)),
      ae_bcryptGenerate = (\<lambda>s. ret (''h:'' @ s)),
      ae_bcryptMatches = (\<lambda>h s. h = ''h:'' @ s),
      ae_schemas = Some [''wx'' \<mapsto> [\<lparr>fKey = ''id'', fLabel = [], fType = FieldTypeString, fRequired = True, fDefault = VNil, fHelp = []\<rparr>]],
      ae_stored = Some,
      ae_PublishIM = None\<rparr>"

interpretation demo_apps: app_service demo_apps
  by unfold_locales (auto simp: demo_apps_def keeps_def tables_def)

definition no_apps :: app_db where
  "no_apps = \<lparr>db_apps = [], db_connectors = [], db_roles = [''clerk''], db_im_cred = None, db_now = 0, db_faults = []\<rparr>"

lemma no_apps_wf: "apps_wf E no_apps"
  by (simp add: apps_wf_def no_apps_def names_ok_def)

lemma demo_app_id:
  "length out \<le> 28 \<Longrightarrow> app_id_loop (ae_randByte demo_apps) out w =
     Some (Inr (''FPID'' @ out @ replicate (28 - length out) (appIDAlphabet ! (nat (db_now w) mod 62))), w)"
proof (induction "28 - length out" arbitrary: out)
  case 0
  then show ?case by (subst app_id_loop.simps) simp
next
  case (Suc n)
  let ?c = "appIDAlphabet ! (nat (db_now w) mod 62)"
  have l: "length appIDAlphabet = 62" "maxByte = 248" by (simp_all add: maxByte_def appIDAlphabet_def)
  have lt: "length out < 28" using Suc(2) by simp
  have "nat (db_now w) mod 62 < 62" by simp
  then have b: "\<not> maxByte \<le> nat (db_now w) mod 62" using l(2) by linarith
  have "app_id_loop (ae_randByte demo_apps) out w = app_id_loop (ae_randByte demo_apps) (out @ [?c]) w"
    by (subst app_id_loop.simps) (use b in \<open>simp add: demo_apps_def l(1) lt\<close>)
  moreover have "replicate (28 - length out) ?c = ?c # replicate (28 - length (out @ [?c])) ?c"
    using Suc(2) by (metis length_append_singleton Suc_diff_Suc replicate_Suc zero_less_Suc zero_less_diff)
  ultimately show ?case using Suc(1) [of "out @ [?c]"] Suc(2) by (simp del: replicate.simps)
qed

definition demo_id :: "int \<Rightarrow> string" where
  "demo_id now = ''FPID'' @ replicate 28 (appIDAlphabet ! (nat now mod 62))"

lemma demo_unused: "unusedAppID demo_apps w =
  (case query (\<lambda>v. demo_id (db_now w) \<in> (app_Code \<circ> row_app) ` set (db_apps v)) w of
     (Inl e, w2) \<Rightarrow> Some (Inl e, w2)
   | (Inr taken, w2) \<Rightarrow> if \<not> taken then Some (Inr (demo_id (db_now w)), w2) else unused_loop demo_apps 4 w2)"
proof -
  have five: "(5::nat) = Suc 4" by simp
  have i: "app_id_loop (ae_randByte demo_apps) [] w = Some (Inr (demo_id (db_now w)), w)"
    by (simp add: demo_app_id demo_id_def)
  show ?thesis unfolding unusedAppID_def five unused_loop.simps randomAppID_def
    by (simp only: i option.case prod.case sum.case)
qed

text \<open>
  C22. Whatever is created, changed and deleted, and wherever a statement fails: identifiers, codes and external
  identifiers stay unique, no application's code is the external identifier of one, so a name given by a caller belongs
  to at most one application and the lookup finds it; every stored policy and setting is valid, and every stored
  connector belongs to an application and fits the schema of its type.
\<close>

theorem applications_stay_addressable:
  assumes "app_service E" and "apps_wf E w" and "app_run E xs w = Some w'"
  shows "apps_wf E w' \<and>
    (appByExternalID x (db_apps w') = Some r \<longleftrightarrow>
       r \<in> set (db_apps w') \<and> (app_AppID (row_app r) = x \<or> app_Code (row_app r) = x))"
proof
  show wf: "apps_wf E w'" using app_service.run_wf [OF assms] .
  show "appByExternalID x (db_apps w') = Some r \<longleftrightarrow>
       r \<in> set (db_apps w') \<and> (app_AppID (row_app r) = x \<or> app_Code (row_app r) = x)"
    by (rule appByExternalID_iff) (use wf in \<open>simp add: apps_wf_def\<close>)
qed

text \<open>
  A secret is accepted only for an application stored under the given name, and only if it matches the hash kept
  for that application; an unknown name and a wrong secret are refused with the same error.
\<close>

theorem VerifySecret_is_sound:
  assumes "names_ok (map row_app (db_apps w))" and "VerifySecret E x secret w = (res, w')"
  shows "(\<forall>a. res = Inr a \<longrightarrow> (\<exists>r \<in> set (db_apps w). row_app r = a \<and> x \<in> {app_AppID a, app_Code a} \<and>
      ae_bcryptMatches E (row_hash r) secret)) \<and>
    (db_faults w = [] \<and> \<not> (\<exists>r \<in> set (db_apps w). x \<in> {app_AppID (row_app r), app_Code (row_app r)} \<and>
        ae_bcryptMatches E (row_hash r) secret) \<longrightarrow> res = Inl bad_app_credential)"
proof (cases "appByExternalID x (db_apps w)")
  case None
  then have "res = Inl bad_app_credential \<or> res = Inl (Wrapped ''service: sql'')"
    and "db_faults w = [] \<longrightarrow> res = Inl bad_app_credential"
    using assms(2) by (auto simp: VerifySecret_def bindE_def stmt_def split: list.splits if_splits)
  then show ?thesis by auto
next
  case (Some r)
  then have r: "r \<in> set (db_apps w)" "x \<in> {app_AppID (row_app r), app_Code (row_app r)}"
    using appByExternalID_iff [OF assms(1)] by auto
  have d: "distinct (map (\<lambda>r. app_ID (row_app r)) (db_apps w))" using assms(1) by (simp add: names_ok_def comp_def)
  have f: "find (\<lambda>q. app_ID (row_app q) = app_ID (row_app r)) (db_apps w) = Some r" by (rule find_distinct [OF d r(1)])
  show ?thesis
  proof (cases "ae_bcryptMatches E (row_hash r) secret")
    case True
    then show ?thesis using assms(2) Some f r
      by (auto simp: VerifySecret_def app_GetByID_def found_app_def bindE_def stmt_def split: list.splits if_splits)
  next
    case False
    then have "res = Inl bad_app_credential \<or> res = Inl (Wrapped ''service: sql'')"
      and "db_faults w = [] \<longrightarrow> res = Inl bad_app_credential"
      using assms(2) Some by (auto simp: VerifySecret_def bindE_def stmt_def split: list.splits if_splits)
    then show ?thesis by auto
  qed
qed

text \<open>Two applications are created; one gets a connector and settings, the other is disabled and deleted.\<close>

definition demo_row :: "uuid \<Rightarrow> int \<Rightarrow> string \<Rightarrow> string \<Rightarrow> app_row" where
  "demo_row i now name code = \<lparr>row_app = new_app i now name code (demo_id (now - 1)), row_hash = ''h:secret''\<rparr>"

definition two_apps :: app_db where
  "two_apps = no_apps\<lparr>db_apps := [demo_row ''i'' 1 ''Shop'' ''shop'', demo_row ''ii'' 2 ''Blog'' ''blog''], db_now := 2\<rparr>"

definition demo_ops :: "app_op list" where
  "demo_ops = [AppIM ''i'' \<lparr>im_Enabled = True, ConnPolicy = ''limit'', ConnLimit = 2, AllowGuest = False, GuestIPRate = 0,
     BizAuth = None\<rparr>, AppConnector [''id''] ''i'' ''wx'' True [''id'' \<mapsto> VString ''1''], AppStatus ''ii'' ''DISABLED'', AppDelete ''ii'']"

lemma demo_creates: "app_run demo_apps [AppCreate ''Shop'' ''shop'', AppCreate ''Blog'' ''blog''] no_apps = Some two_apps"
proof -
  have r: "RuneCount ''shop'' = 4" "RuneCount ''blog'' = 4" by code_simp+
  have d: "demo_id 0 \<noteq> demo_id 1" "''shop'' \<noteq> demo_id 0" "''blog'' \<noteq> demo_id 0" "demo_id 1 \<noteq> ''shop''" by code_simp+
  have sel: "ae_newID demo_apps w = replicate (length (db_apps w) + 1) (CHR ''i'')"
    "ae_randomToken demo_apps w = (Inr ''secret'', w\<lparr>db_now := db_now w + 1\<rparr>)"
    "ae_bcryptGenerate demo_apps s = ret (''h:'' @ s)" for w s
    by (simp_all add: demo_apps_def)
  show ?thesis
    using d by (simp add: app_Create_def demo_unused r maxAppCodeLen_def stmt_def no_apps_def bindE_def insert_row_def Let_def
      two_apps_def demo_row_def new_app_def sel ret_def)
qed

lemma app_run_append: "app_run E (xs @ ys) w = Option.bind (app_run E xs w) (app_run E ys)"
  by (induction xs arbitrary: w) (auto split: option.split)

theorem applications_stay_addressable_witness:
  "case app_run demo_apps ([AppCreate ''Shop'' ''shop'', AppCreate ''Blog'' ''blog''] @ demo_ops) no_apps of
     None \<Rightarrow> False
   | Some w \<Rightarrow> apps_wf demo_apps w \<and> map cr_type (db_connectors w) = [''wx''] \<and>
       appByExternalID ''shop'' (db_apps w) = Some (hd (db_apps w)) \<and>
       appByExternalID (demo_id 0) (db_apps w) = Some (hd (db_apps w)) \<and> appByExternalID ''blog'' (db_apps w) = None"
proof -
  have "case app_run demo_apps demo_ops two_apps of None \<Rightarrow> False | Some w \<Rightarrow>
      map (\<lambda>r. (app_Code (row_app r), app_AppID (row_app r))) (db_apps w) = [(''shop'', demo_id 0)] \<and>
      map cr_type (db_connectors w) = [''wx'']" by code_simp
  then obtain w r where w: "app_run demo_apps demo_ops two_apps = Some w" and r: "db_apps w = [r]"
    "app_Code (row_app r) = ''shop''" "app_AppID (row_app r) = demo_id 0" "map cr_type (db_connectors w) = [''wx'']"
    by (auto split: option.splits)
  have run: "app_run demo_apps ([AppCreate ''Shop'' ''shop'', AppCreate ''Blog'' ''blog''] @ demo_ops) no_apps = Some w"
    by (simp only: app_run_append demo_creates w bind.simps)
  have "demo_id 0 \<noteq> ''blog''" "''shop'' \<noteq> ''blog''" by code_simp+
  then have "appByExternalID ''blog'' (db_apps w) = None" using r by (simp add: appByExternalID_def)
  then show ?thesis
    using applications_stay_addressable [OF demo_apps.app_service_axioms no_apps_wf run, of "''shop''" r]
      applications_stay_addressable [OF demo_apps.app_service_axioms no_apps_wf run, of "demo_id 0" r] r run
    by simp
qed

theorem VerifySecret_is_sound_witness:
  "fst (VerifySecret demo_apps ''shop'' ''secret'' two_apps) = Inr (row_app (hd (db_apps two_apps))) \<and>
   fst (VerifySecret demo_apps ''shop'' ''guess'' two_apps) = Inl bad_app_credential \<and>
   fst (VerifySecret demo_apps ''nobody'' ''secret'' two_apps) = Inl bad_app_credential"
proof -
  have n: "names_ok (map row_app (db_apps two_apps))" by code_simp
  have "fst (VerifySecret demo_apps ''shop'' ''secret'' two_apps) = Inr (row_app (hd (db_apps two_apps)))" by code_simp
  moreover have "fst (VerifySecret demo_apps ''shop'' ''guess'' two_apps) = Inl bad_app_credential"
    "fst (VerifySecret demo_apps ''nobody'' ''secret'' two_apps) = Inl bad_app_credential"
    using VerifySecret_is_sound [OF n prod.collapse [symmetric], of demo_apps "''shop''" "''guess''"]
      VerifySecret_is_sound [OF n prod.collapse [symmetric], of demo_apps "''nobody''" "''secret''"]
    by (simp_all add: two_apps_def no_apps_def demo_row_def demo_apps_def new_app_def demo_id_def)
  ultimately show ?thesis by simp
qed

text \<open>
  Settings that are switched off are stored without being checked, but the table only takes the three known policies: an
  unknown one ends in an internal error instead of a refusal that names the field.
\<close>

lemma disabled_settings_hit_the_constraint:
  "fst (SetIMConfig demo_apps ''i'' \<lparr>im_Enabled = False, ConnPolicy = [], ConnLimit = 5, AllowGuest = False, GuestIPRate = 20,
     BizAuth = None\<rparr> two_apps) = Inl (Wrapped ''service: check violation'')"
  by code_simp

end
