(* ===== verification/Grpc_Auth.thy ===== *)
theory Grpc_Auth
  imports Confirmed_Cache Application_Service
begin

text \<open>
  Who may call the server over gRPC: the credentials in the metadata of a call and the cache of those that were
  accepted (\<^verbatim>\<open>internal/grpcapi/auth_interceptor.go\<close>), the guards of the methods
  (\<^verbatim>\<open>auth_service.go\<close>) and the methods of the messaging gateway (\<^verbatim>\<open>im_service.go\<close>). The hash
  SHA-256, in hexadecimal, is the parameter \<^verbatim>\<open>H\<close>; instants are milliseconds.
\<close>

section \<open>The credentials of a call\<close>

definition MDCallerType :: string where "MDCallerType = ''fp-caller-type''"
definition mdAppID :: string where "mdAppID = ''fp-app-id''"
definition mdAppSecret :: string where "mdAppSecret = ''fp-app-secret''"
definition CallerTypeIM :: string where "CallerTypeIM = ''im''"

record appVerifier =
  av_ttl :: int
  av_cache :: "(string \<times> unit \<times> int) list"
  av_imTTL :: int
  av_im :: "(string \<times> int) option"

definition DefaultIMSecretCacheTTL :: int where "DefaultIMSecretCacheTTL = 10 * ns_per_s"

definition newAppVerifier :: "int \<Rightarrow> int \<Rightarrow> appVerifier" where
  "newAppVerifier ttl imTTL = \<lparr>av_ttl = ttl, av_cache = [], av_imTTL = imTTL, av_im = None\<rparr>"

definition maxCacheEntries :: nat where "maxCacheEntries = 256"

definition verifierCacheKey :: "(string \<Rightarrow> string) \<Rightarrow> string \<Rightarrow> string \<Rightarrow> string" where
  "verifierCacheKey H appID secret = appID @ '':'' @ H secret"

text \<open>
  \<^verbatim>\<open>verify\<close> and \<^verbatim>\<open>verifyIM\<close>: the error, the verifier and the database after the call. An empty
  \<^verbatim>\<open>imHash\<close> is \<^verbatim>\<open>None\<close>.
\<close>

definition av_verify ::
  "app_env \<Rightarrow> (string \<Rightarrow> string) \<Rightarrow> string \<Rightarrow> string \<Rightarrow> int \<Rightarrow> appVerifier \<Rightarrow> app_db \<Rightarrow> goerr option \<times> appVerifier \<times> app_db" where
  "av_verify E H appID secret now v w =
     (if appID = [] \<or> secret = [] then (Some bad_app_credential, v, w)
      else
        let key = verifierCacheKey H appID secret
        in case live_lookup key now (av_cache v) of
             Some u \<Rightarrow> (None, v, w)
           | None \<Rightarrow>
               (case VerifySecret E appID secret w of
                  (Inl e, w') \<Rightarrow> (Some e, v, w')
                | (Inr a, w') \<Rightarrow>
                    (None, v\<lparr>av_cache := swept_store maxCacheEntries key () (now + Milliseconds (av_ttl v)) now (av_cache v)\<rparr>, w')))"

definition av_verifyIM ::
  "app_env \<Rightarrow> (string \<Rightarrow> string) \<Rightarrow> string \<Rightarrow> int \<Rightarrow> appVerifier \<Rightarrow> app_db \<Rightarrow> goerr option \<times> appVerifier \<times> app_db" where
  "av_verifyIM E H secret now v w =
     (if secret = [] then (Some bad_app_credential, v, w)
      else
        let h = H secret
        in case slot_lookup h now (av_im v) of
             Some u \<Rightarrow> (None, v, w)
           | None \<Rightarrow>
               (case im_Verify E secret w of
                  (Inl e, w') \<Rightarrow> (Some e, v, w')
                | (Inr u, w') \<Rightarrow> (None, v\<lparr>av_im := slot_store h () (now + Milliseconds (av_imTTL v)) now (av_im v)\<rparr>, w')))"

type_synonym metadata = "string \<Rightarrow> string list"

definition md_first :: "metadata \<Rightarrow> string \<Rightarrow> string" where
  "md_first md key = (case md key of [] \<Rightarrow> [] | v # vs \<Rightarrow> v)"

text \<open>What \<^verbatim>\<open>authenticate\<close> puts into the context of a call.\<close>

record caller =
  call_appID :: string
  call_type :: string

definition authenticate ::
  "app_env \<Rightarrow> (string \<Rightarrow> string) \<Rightarrow> metadata option \<Rightarrow> int \<Rightarrow> appVerifier \<Rightarrow> app_db \<Rightarrow> (goerr + caller) \<times> appVerifier \<times> app_db" where
  "authenticate E H md now v w =
     (case md of
        None \<Rightarrow> (Inl bad_app_credential, v, w)
      | Some m \<Rightarrow>
          let appID = md_first m mdAppID; secret = md_first m mdAppSecret; callerType = md_first m MDCallerType
          in if callerType = [] then
               (case av_verify E H appID secret now v w of
                  (Some e, v', w') \<Rightarrow> (Inl e, v', w')
                | (None, v', w') \<Rightarrow> (Inr \<lparr>call_appID = appID, call_type = []\<rparr>, v', w'))
             else if callerType = CallerTypeIM then
               (case av_verifyIM E H secret now v w of
                  (Some e, v', w') \<Rightarrow> (Inl e, v', w')
                | (None, v', w') \<Rightarrow> (Inr \<lparr>call_appID = appID, call_type = CallerTypeIM\<rparr>, v', w'))
             else (Inl bad_app_credential, v, w))"

text \<open>The interceptors of unary and of streaming calls: only an authenticated call reaches its handler.\<close>

definition intercept ::
  "app_env \<Rightarrow> (string \<Rightarrow> string) \<Rightarrow> metadata option \<Rightarrow> int \<Rightarrow> (caller \<Rightarrow> app_db \<Rightarrow> (grpc_status + 'a) \<times> app_db) \<Rightarrow>
     appVerifier \<Rightarrow> app_db \<Rightarrow> (grpc_status + 'a) \<times> appVerifier \<times> app_db" where
  "intercept E H md now handler v w =
     (case authenticate E H md now v w of
        (Inl e, v', w') \<Rightarrow> (Inl (the (StatusFrom True (Some e))), v', w')
      | (Inr c, v', w') \<Rightarrow> (case handler c w' of (res, w'') \<Rightarrow> (res, v', w'')))"

section \<open>The guards of the methods\<close>

abbreviation (input) bare_status :: "grpc_code \<Rightarrow> grpc_status" where
  "bare_status c \<equiv> \<lparr>st_code = c, st_detail = None\<rparr>"

text \<open>A method of the server: it answers or fails with a status.\<close>

definition status_of :: "(app_db, 'a) io \<Rightarrow> app_db \<Rightarrow> (grpc_status + 'a) \<times> app_db" where
  "status_of m w = (case m w of (Inl e, w') \<Rightarrow> (Inl (the (StatusFrom True (Some e))), w') | (Inr x, w') \<Rightarrow> (Inr x, w'))"

definition requireNotIM :: "caller \<Rightarrow> grpc_status option" where
  "requireNotIM c = (if call_type c = CallerTypeIM then Some (bare_status PermissionDenied) else None)"

definition callerAppID :: "caller \<Rightarrow> grpc_status + string" where
  "callerAppID c = (if call_appID c = [] then Inl (bare_status Internal) else Inr (call_appID c))"

definition requireIMEnabled :: "caller \<Rightarrow> string \<Rightarrow> app_db \<Rightarrow> grpc_status option \<times> app_db" where
  "requireIMEnabled c appID w =
     (if call_type c \<noteq> CallerTypeIM then (None, w)
      else case status_of (GetActiveByAppID appID) w of
          (Inl st, w') \<Rightarrow> (Some st, w')
        | (Inr a, w') \<Rightarrow> (if \<not> im_Enabled (app_IM a) then Some (bare_status FailedPrecondition) else None, w'))"

definition requireIM :: "caller \<Rightarrow> grpc_status option" where
  "requireIM c = (if call_type c \<noteq> CallerTypeIM then Some (bare_status PermissionDenied) else None)"

text \<open>A business method: first no gateway, then an application, then the work.\<close>

definition business :: "caller \<Rightarrow> (string \<Rightarrow> app_db \<Rightarrow> (grpc_status + 'a) \<times> app_db) \<Rightarrow> app_db \<Rightarrow> (grpc_status + 'a) \<times> app_db" where
  "business c work w =
     (case requireNotIM c of
        Some st \<Rightarrow> (Inl st, w)
      | None \<Rightarrow> (case callerAppID c of Inl st \<Rightarrow> (Inl st, w) | Inr appID \<Rightarrow> work appID w))"

text \<open>The admission to \<^verbatim>\<open>ValidateToken\<close>, and that to \<^verbatim>\<open>Watch\<close>: the application whose events the stream gets, none for the gateway.\<close>

definition admit_ValidateToken :: "caller \<Rightarrow> app_db \<Rightarrow> (grpc_status + string) \<times> app_db" where
  "admit_ValidateToken c w =
     (case callerAppID c of
        Inl st \<Rightarrow> (Inl st, w)
      | Inr appID \<Rightarrow> (case requireIMEnabled c appID w of (Some st, w') \<Rightarrow> (Inl st, w') | (None, w') \<Rightarrow> (Inr appID, w')))"

definition admit_Watch :: "caller \<Rightarrow> app_db \<Rightarrow> (grpc_status + Application option) \<times> app_db" where
  "admit_Watch c w =
     (if call_type c = CallerTypeIM then (Inr None, w)
      else case callerAppID c of
          Inl st \<Rightarrow> (Inl st, w)
        | Inr appID \<Rightarrow> (case status_of (GetActiveByAppID appID) w of
              (Inl st, w') \<Rightarrow> (Inl st, w') | (Inr a, w') \<Rightarrow> (Inr (Some a), w')))"

section \<open>The methods of the gateway (\<^verbatim>\<open>im_service.go\<close>)\<close>

definition imApp :: "caller \<Rightarrow> app_db \<Rightarrow> (grpc_status + Application) \<times> app_db" where
  "imApp c w =
     (if call_appID c = [] then (Inl (bare_status Unauthenticated), w)
      else case GetActiveByAppID (call_appID c) w of
          (Inl e, w') \<Rightarrow> (Inl (bare_status FailedPrecondition), w')
        | (Inr a, w') \<Rightarrow> (if \<not> im_Enabled (app_IM a) then Inl (bare_status FailedPrecondition) else Inr a, w'))"

record im_config_resp =
  icr_AppId :: string
  icr_AllowGuest :: bool
  icr_ConnPolicy :: string
  icr_ConnLimit :: int
  icr_GuestIpRate :: int
  icr_BizAuth :: "IMBizAuth option"

definition srv_GetAppIMConfig :: "caller \<Rightarrow> app_db \<Rightarrow> (grpc_status + im_config_resp) \<times> app_db" where
  "srv_GetAppIMConfig c w =
     (case requireIM c of
        Some st \<Rightarrow> (Inl st, w)
      | None \<Rightarrow>
          (case imApp c w of
             (Inl st, w') \<Rightarrow> (Inl st, w')
           | (Inr a, w') \<Rightarrow>
               (let im = app_IM a
                in (Inr \<lparr>icr_AppId = app_AppID a, icr_AllowGuest = AllowGuest im, icr_ConnPolicy = ConnPolicy im,
                      icr_ConnLimit = ConnLimit im, icr_GuestIpRate = GuestIPRate im, icr_BizAuth = BizAuth im\<rparr>, w'))))"

definition srv_VerifyAppCredential :: "app_env \<Rightarrow> caller \<Rightarrow> string \<Rightarrow> app_db \<Rightarrow> (grpc_status + string) \<times> app_db" where
  "srv_VerifyAppCredential E c secret w =
     (case requireIM c of
        Some st \<Rightarrow> (Inl st, w)
      | None \<Rightarrow>
          if call_appID c = [] then (Inl (bare_status Unauthenticated), w)
          else case VerifySecret E (call_appID c) secret w of
              (Inl e, w') \<Rightarrow> (Inl (bare_status Unauthenticated), w')
            | (Inr a, w') \<Rightarrow>
                (if app_Status a \<noteq> ApplicationStatusActive then Inl (bare_status Unauthenticated)
                 else if \<not> im_Enabled (app_IM a) then Inl (bare_status FailedPrecondition)
                 else Inr (app_AppID a), w'))"

section \<open>Accepted credentials were confirmed\<close>

text \<open>A call as the verifier sees it: the metadata, the instant, the database at that instant.\<close>

type_synonym grpc_call = "metadata option \<times> int \<times> app_db"

definition call :: "app_env \<Rightarrow> (string \<Rightarrow> string) \<Rightarrow> grpc_call \<Rightarrow> appVerifier \<Rightarrow> (goerr + caller) \<times> appVerifier" where
  "call E H q v = (case q of (md, now, w) \<Rightarrow> case authenticate E H md now v w of (r, v', w') \<Rightarrow> (r, v'))"

definition app_question :: "app_env \<Rightarrow> (string \<Rightarrow> string) \<Rightarrow> int \<Rightarrow> grpc_call \<Rightarrow> (string, goerr, unit, unit) question list" where
  "app_question E H ttl q = (case q of (None, now, w) \<Rightarrow> [] | (Some m, now, w) \<Rightarrow>
     let appID = md_first m mdAppID; secret = md_first m mdAppSecret in
     if md_first m MDCallerType \<noteq> [] \<or> appID = [] \<or> secret = [] then []
     else [(verifierCacheKey H appID secret, now,
       case fst (VerifySecret E appID secret w) of Inl e \<Rightarrow> Inl e | Inr a \<Rightarrow> Inr ((), Some (now + Milliseconds ttl, ())))])"

definition im_question :: "app_env \<Rightarrow> (string \<Rightarrow> string) \<Rightarrow> int \<Rightarrow> grpc_call \<Rightarrow> (string, goerr, unit, unit) question list" where
  "im_question E H ttl q = (case q of (None, now, w) \<Rightarrow> [] | (Some m, now, w) \<Rightarrow>
     let secret = md_first m mdAppSecret in
     if md_first m MDCallerType \<noteq> CallerTypeIM \<or> secret = [] then []
     else [(H secret, now,
       case fst (im_Verify E secret w) of Inl e \<Rightarrow> Inl e | Inr u \<Rightarrow> Inr ((), Some (now + Milliseconds ttl, ())))])"

lemma CallerTypeIM_ne [simp]: "CallerTypeIM \<noteq> []"
  by (simp add: CallerTypeIM_def)

abbreviation "ask_app \<equiv> ask live_lookup (\<lambda>k s. s) (\<lambda>u. swept_store maxCacheEntries)"
abbreviation "ask_im \<equiv> ask slot_lookup (\<lambda>k s. s) (\<lambda>u. slot_store)"

lemma call_caches:
  "av_cache (snd (call E H q v)) = asked ask_app (app_question E H (av_ttl v) q) (av_cache v)"
  "av_im (snd (call E H q v)) = asked ask_im (im_question E H (av_imTTL v) q) (av_im v)"
  "av_ttl (snd (call E H q v)) = av_ttl v" "av_imTTL (snd (call E H q v)) = av_imTTL v"
  by (auto simp: call_def authenticate_def app_question_def im_question_def av_verify_def av_verifyIM_def ask_def Let_def
      split: option.splits prod.splits sum.splits)

lemma calls_caches:
  "av_cache (asked (call E H) qs v) = asked ask_app (concat (map (app_question E H (av_ttl v)) qs)) (av_cache v) \<and>
   av_im (asked (call E H) qs v) = asked ask_im (concat (map (im_question E H (av_imTTL v)) qs)) (av_im v) \<and>
   av_ttl (asked (call E H) qs v) = av_ttl v \<and> av_imTTL (asked (call E H) qs v) = av_imTTL v"
  by (induction qs arbitrary: v) (simp_all add: asked_append call_caches)

abbreviation (input) is_err :: "goerr + 'a \<Rightarrow> bool" where "is_err x \<equiv> isl x"

text \<open>What the database says of the credentials of a call.\<close>

definition genuine :: "app_env \<Rightarrow> metadata \<Rightarrow> app_db \<Rightarrow> bool" where
  "genuine E m w =
     (if md_first m MDCallerType = [] then \<not> is_err (fst (VerifySecret E (md_first m mdAppID) (md_first m mdAppSecret) w))
      else if md_first m MDCallerType = CallerTypeIM then \<not> is_err (fst (im_Verify E (md_first m mdAppSecret) w))
      else False)"

lemma key_inj: "length (H s) = length (H s') \<Longrightarrow> verifierCacheKey H a s = verifierCacheKey H a' s' \<longleftrightarrow> a = a' \<and> H s = H s'"
  by (auto simp: verifierCacheKey_def append_eq_append_conv)

lemma accepted_app_call:
  assumes "fst (call E H (Some m, now, w) v) = Inr c" and "md_first m MDCallerType = []"
  shows "call_appID c = md_first m mdAppID \<and> call_type c = [] \<and>
    (\<exists>x. app_question E H (av_ttl v) (Some m, now, w) = [x] \<and> fst (ask_app x (av_cache v)) = Inr ())"
  using assms
  by (auto simp: call_def authenticate_def app_question_def av_verify_def ask_def Let_def
      split: option.splits prod.splits sum.splits if_splits)

lemma accepted_im_call:
  assumes "fst (call E H (Some m, now, w) v) = Inr c" and "md_first m MDCallerType \<noteq> []"
  shows "md_first m MDCallerType = CallerTypeIM \<and> call_appID c = md_first m mdAppID \<and> call_type c = CallerTypeIM \<and>
    (\<exists>x. im_question E H (av_imTTL v) (Some m, now, w) = [x] \<and> fst (ask_im x (av_im v)) = Inr ())"
proof -
  have im: "md_first m MDCallerType = CallerTypeIM"
    using assms by (auto simp: call_def authenticate_def Let_def split: if_splits)
  show ?thesis
    using assms im
    by (cases "av_verifyIM E H (md_first m mdAppSecret) now v w")
      (auto simp: call_def authenticate_def im_question_def av_verifyIM_def ask_def Let_def
        split: option.splits prod.splits sum.splits if_splits)
qed

text \<open>The call of \<^verbatim>\<open>qs\<close> that confirmed the credentials of a later one.\<close>

definition confirmed_at :: "app_env \<Rightarrow> (string \<Rightarrow> string) \<Rightarrow> int \<Rightarrow> metadata \<Rightarrow> int \<Rightarrow> grpc_call \<Rightarrow> bool" where
  "confirmed_at E H ttl m now q =
     (case q of (None, t, w) \<Rightarrow> False
      | (Some m', t, w) \<Rightarrow> genuine E m' w \<and> md_first m' MDCallerType = md_first m MDCallerType \<and>
          H (md_first m' mdAppSecret) = H (md_first m mdAppSecret) \<and>
          (md_first m MDCallerType = [] \<longrightarrow> md_first m' mdAppID = md_first m mdAppID) \<and> now < t + Milliseconds ttl)"

lemma app_answer_genuine:
  assumes "(k, t, Inr ((), Some (e, ()))) \<in> set (app_question E H ttl q)"
  shows "\<exists>m w. q = (Some m, t, w) \<and> genuine E m w \<and> md_first m MDCallerType = [] \<and>
    k = verifierCacheKey H (md_first m mdAppID) (md_first m mdAppSecret) \<and> e = t + Milliseconds ttl"
  using assms by (cases q) (auto simp: app_question_def genuine_def Let_def split: if_splits sum.splits option.splits)

lemma im_answer_genuine:
  assumes "(k, t, Inr ((), Some (e, ()))) \<in> set (im_question E H ttl q)"
  shows "\<exists>m w. q = (Some m, t, w) \<and> genuine E m w \<and> md_first m MDCallerType = CallerTypeIM \<and>
    k = H (md_first m mdAppSecret) \<and> e = t + Milliseconds ttl"
  using assms by (cases q) (auto simp: im_question_def genuine_def Let_def split: if_splits sum.splits option.splits)

lemma app_call_confirmed:
  assumes hash: "\<And>s. length (H s) = 64"
    and ok: "fst (call E H (Some m, now, w) v) = Inr c" and ty: "md_first m MDCallerType = []"
    and v: "av_cache v = asked ask_app (concat (map (app_question E H (av_ttl v)) qs)) []"
  shows "genuine E m w \<or> (\<exists>q \<in> set qs. confirmed_at E H (av_ttl v) m now q)"
proof -
  obtain x where "app_question E H (av_ttl v) (Some m, now, w) = [x]" "fst (ask_app x (av_cache v)) = Inr ()"
    using accepted_app_call [OF ok ty] by blast
  then obtain k ans where x: "app_question E H (av_ttl v) (Some m, now, w) = [(k, now, ans)]"
    "fst (ask_app (k, now, ans) (av_cache v)) = Inr ()" "k = verifierCacheKey H (md_first m mdAppID) (md_first m mdAppSecret)"
    by (auto simp: app_question_def Let_def split: if_splits)
  let ?qs = "concat (map (app_question E H (av_ttl v)) qs)"
  from map_cache.answers_confirmed [OF x(2) [unfolded v]]
  consider (new) mm where "ans = Inr ((), mm)" | (old) t e where "(k, t, Inr ((), Some (e, ()))) \<in> set ?qs" "now < e"
    by (auto simp: v [symmetric])
  then show ?thesis
  proof cases
    case new
    then show ?thesis using x(1) ty by (auto simp: app_question_def genuine_def Let_def split: if_splits sum.splits)
  next
    case old
    then obtain q where q: "q \<in> set qs" "(k, t, Inr ((), Some (e, ()))) \<in> set (app_question E H (av_ttl v) q)" by auto
    from app_answer_genuine [OF q(2)] obtain m' w' where m': "q = (Some m', t, w')" "genuine E m' w'"
      "md_first m' MDCallerType = []" "k = verifierCacheKey H (md_first m' mdAppID) (md_first m' mdAppSecret)"
      "e = t + Milliseconds (av_ttl v)" by blast
    have "verifierCacheKey H (md_first m' mdAppID) (md_first m' mdAppSecret) =
        verifierCacheKey H (md_first m mdAppID) (md_first m mdAppSecret)" using m'(4) x(3) by simp
    moreover have "length (H (md_first m' mdAppSecret)) = length (H (md_first m mdAppSecret))" by (simp add: hash)
    ultimately have "confirmed_at E H (av_ttl v) m now q"
      using m'(1-3,5) ty old(2) key_inj by (simp add: confirmed_at_def)
    then show ?thesis using q(1) by blast
  qed
qed

lemma im_call_confirmed:
  assumes ok: "fst (call E H (Some m, now, w) v) = Inr c" and ty: "md_first m MDCallerType \<noteq> []"
    and v: "av_im v = asked ask_im (concat (map (im_question E H (av_imTTL v)) qs)) None"
  shows "genuine E m w \<or> (\<exists>q \<in> set qs. confirmed_at E H (av_imTTL v) m now q)"
proof -
  have im: "md_first m MDCallerType = CallerTypeIM" using accepted_im_call [OF ok ty] by blast
  obtain x where "im_question E H (av_imTTL v) (Some m, now, w) = [x]" "fst (ask_im x (av_im v)) = Inr ()"
    using accepted_im_call [OF ok ty] by blast
  then obtain k ans where x: "im_question E H (av_imTTL v) (Some m, now, w) = [(k, now, ans)]"
    "fst (ask_im (k, now, ans) (av_im v)) = Inr ()" "k = H (md_first m mdAppSecret)"
    by (auto simp: im_question_def Let_def split: if_splits)
  let ?qs = "concat (map (im_question E H (av_imTTL v)) qs)"
  from slot_cache.answers_confirmed [OF x(2) [unfolded v]]
  consider (new) mm where "ans = Inr ((), mm)" | (old) t e where "(k, t, Inr ((), Some (e, ()))) \<in> set ?qs" "now < e"
    by (auto simp: v [symmetric])
  then show ?thesis
  proof cases
    case new
    then show ?thesis using x(1) im by (auto simp: im_question_def genuine_def Let_def split: if_splits sum.splits)
  next
    case old
    then obtain q where q: "q \<in> set qs" "(k, t, Inr ((), Some (e, ()))) \<in> set (im_question E H (av_imTTL v) q)" by auto
    from im_answer_genuine [OF q(2)] obtain m' w' where m': "q = (Some m', t, w')" "genuine E m' w'"
      "md_first m' MDCallerType = CallerTypeIM" "k = H (md_first m' mdAppSecret)" "e = t + Milliseconds (av_imTTL v)" by blast
    have "confirmed_at E H (av_imTTL v) m now q"
      using m' im ty old(2) x(3) by (simp add: confirmed_at_def)
    then show ?thesis using q(1) by blast
  qed
qed

text \<open>
  C23. A call is let in only with credentials the database confirmed: those of the application it names, or those of the
  gateway if it calls as the gateway, confirmed in this call or in an earlier one with the same name and a secret of the
  same hash, less than the time to live of the cache ago. No other type of caller is let in.
\<close>

theorem credentials_are_confirmed:
  assumes hash: "\<And>s. length (H s) = 64"
    and ok: "fst (call E H (Some m, now, w) (asked (call E H) qs (newAppVerifier ttl imTTL))) = Inr c"
  shows "call_appID c = md_first m mdAppID \<and> call_type c = md_first m MDCallerType \<and> call_type c \<in> {[], CallerTypeIM} \<and>
    (genuine E m w \<or> (\<exists>q \<in> set qs. confirmed_at E H (if call_type c = [] then ttl else imTTL) m now q))"
proof -
  let ?v = "asked (call E H) qs (newAppVerifier ttl imTTL)"
  have v: "av_cache ?v = asked ask_app (concat (map (app_question E H (av_ttl ?v)) qs)) []"
    "av_im ?v = asked ask_im (concat (map (im_question E H (av_imTTL ?v)) qs)) None" "av_ttl ?v = ttl" "av_imTTL ?v = imTTL"
    using calls_caches [of E H qs "newAppVerifier ttl imTTL"] by (simp_all add: newAppVerifier_def)
  show ?thesis
  proof (cases "md_first m MDCallerType = []")
    case True
    then show ?thesis using accepted_app_call [OF ok True] app_call_confirmed [OF hash ok True v(1)] v(3) by simp
  next
    case False
    then show ?thesis using accepted_im_call [OF ok False] im_call_confirmed [OF ok False v(2)] v(4) by simp
  qed
qed

definition demo_hash :: "string \<Rightarrow> string" where "demo_hash s = take 64 (s @ replicate 64 (CHR ''x''))"

definition creds :: "string \<Rightarrow> string \<Rightarrow> string \<Rightarrow> metadata" where
  "creds appID secret ty k =
     (if k = mdAppID then [appID] else if k = mdAppSecret then [secret] else if k = MDCallerType \<and> ty \<noteq> [] then [ty] else [])"

text \<open>The second call of the shop finds an empty database: the cache lets it in, for a minute.\<close>

theorem credentials_are_confirmed_witness:
  "(let m = creds ''shop'' ''secret'' []; qs = [(Some m, 0, two_apps)];
        v = asked (call demo_apps demo_hash) qs (newAppVerifier 60000000000 DefaultIMSecretCacheTTL)
    in fst (call demo_apps demo_hash (Some m, 1000, no_apps) v) = Inr \<lparr>call_appID = ''shop'', call_type = []\<rparr> \<and>
       \<not> genuine demo_apps m no_apps \<and> list_ex (confirmed_at demo_apps demo_hash 60000000000 m 1000) qs \<and>
       isl (fst (call demo_apps demo_hash (Some m, 60000, no_apps) v)) \<and>
       isl (fst (call demo_apps demo_hash (Some (creds ''blog'' ''secret'' []), 1000, no_apps) v)))"
proof -
  let ?m = "creds ''shop'' ''secret'' []"
  let ?v = "asked (call demo_apps demo_hash) [(Some ?m, 0, two_apps)] (newAppVerifier 60000000000 DefaultIMSecretCacheTTL)"
  have h: "length (demo_hash s) = 64" for s by (simp add: demo_hash_def)
  have c: "fst (call demo_apps demo_hash (Some ?m, 1000, no_apps) ?v) = Inr \<lparr>call_appID = ''shop'', call_type = []\<rparr>"
    by code_simp
  have g: "\<not> genuine demo_apps ?m no_apps" by code_simp
  have r: "isl (fst (call demo_apps demo_hash (Some ?m, 60000, no_apps) ?v))"
    "isl (fst (call demo_apps demo_hash (Some (creds ''blog'' ''secret'' []), 1000, no_apps) ?v))" by code_simp+
  from credentials_are_confirmed [OF h c] g c r show ?thesis by (simp add: Let_def)
qed

section \<open>What a gateway is told\<close>

lemma GetActiveByAppID_Inr:
  assumes "GetActiveByAppID x w = (Inr a, w')"
  shows "\<exists>r. appByExternalID x (db_apps w) = Some r \<and> a = row_app r \<and> app_Status a = ApplicationStatusActive"
  using assms
  by (auto simp: GetActiveByAppID_def GetByAppID_def found_app_def bindE_def stmt_def ret_def throw_def
      split: list.splits if_splits option.splits prod.splits sum.splits)

lemma imApp_Inr:
  assumes "imApp c w = (Inr a, w')"
  shows "call_appID c \<noteq> [] \<and> im_Enabled (app_IM a) \<and>
    (\<exists>r. appByExternalID (call_appID c) (db_apps w) = Some r \<and> a = row_app r \<and> app_Status a = ApplicationStatusActive)"
  using assms GetActiveByAppID_Inr [of "call_appID c" w]
  by (auto simp: imApp_def split: if_splits prod.splits sum.splits)

text \<open>
  The settings a gateway gets are those of the application it names, which is active and has messaging enabled; a
  business client gets none, and a gateway reaches no business method.
\<close>

theorem gateway_settings_are_current:
  assumes "srv_GetAppIMConfig c w = (Inr r, w')"
  shows "call_type c = CallerTypeIM \<and> fst (business c work w) = Inl (bare_status PermissionDenied) \<and>
    (\<exists>row. appByExternalID (call_appID c) (db_apps w) = Some row \<and> app_Status (row_app row) = ApplicationStatusActive \<and>
       im_Enabled (app_IM (row_app row)) \<and> icr_AppId r = app_AppID (row_app row) \<and>
       icr_AllowGuest r = AllowGuest (app_IM (row_app row)) \<and> icr_ConnPolicy r = ConnPolicy (app_IM (row_app row)) \<and>
       icr_ConnLimit r = ConnLimit (app_IM (row_app row)) \<and> icr_GuestIpRate r = GuestIPRate (app_IM (row_app row)) \<and>
       icr_BizAuth r = BizAuth (app_IM (row_app row)))"
proof -
  have im: "call_type c = CallerTypeIM"
    using assms by (auto simp: srv_GetAppIMConfig_def requireIM_def split: if_splits)
  obtain a where a: "imApp c w = (Inr a, w')" and r: "icr_AppId r = app_AppID a" "icr_AllowGuest r = AllowGuest (app_IM a)"
    "icr_ConnPolicy r = ConnPolicy (app_IM a)" "icr_ConnLimit r = ConnLimit (app_IM a)"
    "icr_GuestIpRate r = GuestIPRate (app_IM a)" "icr_BizAuth r = BizAuth (app_IM a)"
    using assms im by (auto simp: srv_GetAppIMConfig_def requireIM_def Let_def split: prod.splits sum.splits)
  from imApp_Inr [OF a] r im show ?thesis by (auto simp: business_def requireNotIM_def)
qed

end
