(* ===== verification/Im_Access.thy ===== *)
theory Im_Access
  imports Im_Hub Grpc_Auth Sdk_Cache "HOL-Library.AList"
begin

text \<open>
  What the messaging gateway asks the server and keeps: the errors of \<^verbatim>\<open>internal/im/auth\<close>, the client of the
  gateway methods (\<^verbatim>\<open>sdk/imgateway.go\<close>), identities, settings and revocations by way of the SDK
  (\<^verbatim>\<open>internal/im/fpauth\<close>), the settings of the applications in memory (\<^verbatim>\<open>internal/im/fpappcfg\<close>) and
  the dispatch on the kind of a token (\<^verbatim>\<open>internal/im/multiauth\<close>).
\<close>

section \<open>Errors and requests (\<^verbatim>\<open>auth/auth.go\<close>)\<close>

text \<open>
  \<^verbatim>\<open>AuthRejected\<close> is the \<^verbatim>\<open>*RejectedError\<close> with its code and the body of the business server;
  \<^verbatim>\<open>AuthBadConfig\<close> the plain error of \<^verbatim>\<open>AppConfig.Validate\<close>.
\<close>

datatype auth_err = AuthUnauthorized | AuthUnavailable | AuthIMNotEnabled | AuthRejected string string | AuthBadConfig

fun is_unauthorized :: "auth_err \<Rightarrow> bool" where
  "is_unauthorized AuthUnauthorized = True"
| "is_unauthorized (AuthRejected code body) = True"
| "is_unauthorized _ = False"

record VerifyRequest =
  vq_App :: string
  vq_Kind :: string
  vq_Token :: string
  vq_Raw :: string
  vq_IP :: string

type_synonym ('r, 'a) access = "'r \<Rightarrow> (auth_err + 'a) \<times> 'r"

section \<open>The client of the gateway methods (\<^verbatim>\<open>sdk/imgateway.go\<close>)\<close>

record AppIMBizAuth =
  aib_VerifyURL :: string
  aib_TimeoutMs :: int
  aib_CacheSize :: int

record AppIMConfig =
  aic_AppID :: string
  aic_AllowGuest :: bool
  aic_ConnPolicy :: string
  aic_ConnLimit :: int
  aic_GuestIPRate :: int
  aic_BizAuth :: "AppIMBizAuth option"

definition cmp_Or :: "string \<Rightarrow> string \<Rightarrow> string" where
  "cmp_Or a b = (if a \<noteq> [] then a else b)"

definition GetAppIMConfig :: "(string \<Rightarrow> 'r \<Rightarrow> (grpc_status + im_config_resp) \<times> 'r) \<Rightarrow> string \<Rightarrow> 'r \<Rightarrow> (sdk_err + AppIMConfig) \<times> 'r" where
  "GetAppIMConfig rpc appID r =
     (case rpc appID r of
        (Inl st, r') \<Rightarrow> (Inl (the (translateIM (Some st))), r')
      | (Inr resp, r') \<Rightarrow>
          (Inr \<lparr>aic_AppID = cmp_Or (icr_AppId resp) appID, aic_AllowGuest = icr_AllowGuest resp,
             aic_ConnPolicy = icr_ConnPolicy resp, aic_ConnLimit = icr_ConnLimit resp,
             aic_GuestIPRate = icr_GuestIpRate resp,
             aic_BizAuth = map_option (\<lambda>b. \<lparr>aib_VerifyURL = VerifyURL b, aib_TimeoutMs = TimeoutMs b,
               aib_CacheSize = CacheSize b\<rparr>) (icr_BizAuth resp)\<rparr>, r'))"

definition gw_VerifyAppCredential ::
  "(string \<Rightarrow> string \<Rightarrow> 'r \<Rightarrow> (grpc_status + string) \<times> 'r) \<Rightarrow> string \<Rightarrow> string \<Rightarrow> 'r \<Rightarrow> (sdk_err + string) \<times> 'r" where
  "gw_VerifyAppCredential rpc appID secret r =
     (case rpc appID secret r of
        (Inl st, r') \<Rightarrow> (Inl (the (translateIM (Some st))), r')
      | (Inr i, r') \<Rightarrow> (Inr (cmp_Or i appID), r'))"

text \<open>The application a call is about: what the caller attached to the context, or that of the connection.\<close>

definition effectiveAppID :: "metadata option \<Rightarrow> string \<Rightarrow> string" where
  "effectiveAppID md appID =
     (case md of
        None \<Rightarrow> appID
      | Some m \<Rightarrow> (case m mdAppID of [] \<Rightarrow> appID | v # vs \<Rightarrow> if v \<noteq> [] then v else appID))"

section \<open>Identities, settings and credentials (\<^verbatim>\<open>fpauth\<close>)\<close>

definition fp_translate :: "sdk_err \<Rightarrow> auth_err" where
  "fp_translate e =
     (if sdk_err_sentinel e = Some SdkUnauthorized \<or> e = SdkIMNotAvailable then AuthUnauthorized
      else if sdk_err_sentinel e = Some SdkUnavailable then AuthUnavailable
      else AuthUnavailable)"

definition translateVerify :: "sdk_err \<Rightarrow> auth_err" where
  "translateVerify e = (if e = SdkIMNotAvailable then AuthIMNotEnabled else fp_translate e)"

definition translate_validate :: "validate_err \<Rightarrow> auth_err" where
  "translate_validate e =
     (case e of ErrNoToken \<Rightarrow> AuthUnauthorized | Translated x \<Rightarrow> fp_translate x | ErrUnavailable c \<Rightarrow> AuthUnavailable)"

text \<open>\<^verbatim>\<open>validate\<close> is \<^verbatim>\<open>Auth.Validate\<close> of the SDK under the application of the call.\<close>

definition fp_Verify ::
  "(string \<Rightarrow> string \<Rightarrow> 'r \<Rightarrow> (validate_err + Identity) \<times> 'r) \<Rightarrow> VerifyRequest \<Rightarrow> ('r, Subject) access" where
  "fp_Verify validate req r =
     (case validate (vq_App req) (vq_Token req) r of
        (Inl e, r') \<Rightarrow> (Inl (translate_validate e), r')
      | (Inr i, r') \<Rightarrow> (Inr (Subject_User (id_UserID i)), r'))"

definition policy_of :: "string \<Rightarrow> Policy" where
  "policy_of s =
     (if s = ''replace'' then PolicyReplace else if s = ''reject'' then PolicyReject
      else if s = ''limit'' then PolicyLimit else if s = ''none'' then PolicyNone else PolicyOther s)"

definition app_config_of :: "AppIMConfig \<Rightarrow> AppConfig" where
  "app_config_of c =
     \<lparr>ac_AppID = aic_AppID c, ac_ConnPolicy = policy_of (aic_ConnPolicy c), ac_ConnLimit = aic_ConnLimit c,
      ac_AllowGuest = aic_AllowGuest c, ac_GuestIPRate = aic_GuestIPRate c,
      ac_BizAuth = map_option (\<lambda>b. \<lparr>ba_VerifyURL = aib_VerifyURL b, ba_Timeout = dur_millis (aib_TimeoutMs b),
        ba_CacheSize = aib_CacheSize b\<rparr>) (aic_BizAuth c)\<rparr>"

definition Fetch :: "(string \<Rightarrow> 'r \<Rightarrow> (grpc_status + im_config_resp) \<times> 'r) \<Rightarrow> string \<Rightarrow> ('r, AppConfig) access" where
  "Fetch rpc app r =
     (case GetAppIMConfig rpc app r of
        (Inl e, r') \<Rightarrow> (Inl (fp_translate e), r')
      | (Inr c, r') \<Rightarrow> (if AppConfig_Validate (app_config_of c) then Inr (app_config_of c) else Inl AuthBadConfig, r'))"

definition VerifyAppCredential ::
  "(string \<Rightarrow> string \<Rightarrow> 'r \<Rightarrow> (grpc_status + string) \<times> 'r) \<Rightarrow> string \<Rightarrow> string \<Rightarrow> ('r, string) access" where
  "VerifyAppCredential rpc app secret r =
     (case gw_VerifyAppCredential rpc app secret r of
        (Inl e, r') \<Rightarrow> (Inl (translateVerify e), r')
      | (Inr i, r') \<Rightarrow> (Inr i, r'))"

text \<open>
  A revocation: with an application for that one, without for all of which this node has settings. Both callbacks may
  be missing.
\<close>

definition dispatchRevoke ::
  "(string \<Rightarrow> string list \<Rightarrow> 'r \<Rightarrow> 'r) option \<Rightarrow> ('r \<Rightarrow> string list) option \<Rightarrow> sdk_revoke_event \<Rightarrow> 'r \<Rightarrow> 'r" where
  "dispatchRevoke closer allApps ev r =
     (case closer of
        None \<Rightarrow> r
      | Some f \<Rightarrow>
          if length (sre_Tokens ev) = 0 then r
          else if sre_AppID ev \<noteq> [] then f (sre_AppID ev) (sre_Tokens ev) r
          else (case allApps of
                  None \<Rightarrow> r
                | Some all \<Rightarrow> fold (\<lambda>app. f app (sre_Tokens ev)) (all r) r))"

section \<open>The kind of a token (\<^verbatim>\<open>multiauth\<close>)\<close>

definition TokenKindFP :: string where "TokenKindFP = ''fp''"
definition TokenKindBiz :: string where "TokenKindBiz = ''biz''"

definition multi_Verify ::
  "(VerifyRequest \<Rightarrow> ('r, Subject) access) \<Rightarrow> (VerifyRequest \<Rightarrow> ('r, Subject) access) option \<Rightarrow> VerifyRequest \<Rightarrow>
     ('r, Subject) access" where
  "multi_Verify fp biz req r =
     (if vq_Kind req = [] \<or> vq_Kind req = TokenKindFP then fp req r
      else if vq_Kind req = TokenKindBiz
        then (case biz of None \<Rightarrow> (Inl AuthUnauthorized, r) | Some f \<Rightarrow> f req r)
      else (Inl AuthUnauthorized, r))"

section \<open>Settings in memory (\<^verbatim>\<open>fpappcfg\<close>)\<close>

text \<open>The Go map from names to settings, as an association list; \<^verbatim>\<open>src_store\<close> is the locked section of \<^verbatim>\<open>Load\<close>
  and gives the application to be announced by \<^verbatim>\<open>onLoad\<close>.\<close>

type_synonym app_source = "(string \<times> AppConfig) list"

definition src_Get :: "string \<Rightarrow> app_source \<Rightarrow> AppConfig option" where
  "src_Get app m = map_of m app"

definition src_Apps :: "app_source \<Rightarrow> string list" where
  "src_Apps m = map fst (filter (\<lambda>(k, c). k = ac_AppID c) m)"

definition src_Invalidate :: "string \<Rightarrow> app_source \<Rightarrow> app_source" where
  "src_Invalidate app m = filter (\<lambda>(k, c). \<not> ac_AppID c = app) m"

definition src_InvalidateAll :: "app_source \<Rightarrow> app_source" where
  "src_InvalidateAll m = []"

definition src_store :: "string \<Rightarrow> AppConfig \<Rightarrow> app_source \<Rightarrow> string option \<times> app_source" where
  "src_store app cfg m =
     (let known = map_of m (ac_AppID cfg) \<noteq> None;
          m1 = AList.update app cfg m;
          m2 = AList.update (ac_AppID cfg) cfg m1
      in (if known then None else Some (ac_AppID cfg), m2))"

definition src_Load ::
  "(string \<Rightarrow> ('r, AppConfig) access) \<Rightarrow> (string \<Rightarrow> 'r \<Rightarrow> 'r) option \<Rightarrow> string \<Rightarrow> app_source \<Rightarrow> 'r \<Rightarrow>
     auth_err option \<times> app_source \<times> 'r" where
  "src_Load fetch onLoad app m r =
     (case map_of m app of
        Some c \<Rightarrow> (None, m, r)
      | None \<Rightarrow>
          (case fetch app r of
             (Inl e, r') \<Rightarrow> (Some e, m, r')
           | (Inr cfg, r') \<Rightarrow>
               (case src_store app cfg m of
                  (new, m') \<Rightarrow> (None, m', (case (onLoad, new) of (Some f, Some a) \<Rightarrow> f a r' | _ \<Rightarrow> r')))))"

section \<open>What the server stores is what the gateway uses\<close>

lemma translateIM_cases:
  "translateIM (Some st) = Some SdkIMNotAvailable \<longleftrightarrow> st_code st = FailedPrecondition"
  by (auto simp: translateIM_def translate_def translate_with_def errorFrom_def split: option.splits)

text \<open>A call of the gateway as the server executes it: the name is in the metadata, the type is that of the gateway.\<close>

definition gw_call :: "(caller \<Rightarrow> app_db \<Rightarrow> 'a) \<Rightarrow> string \<Rightarrow> app_db \<Rightarrow> 'a" where
  "gw_call method app w = method \<lparr>call_appID = app, call_type = CallerTypeIM\<rparr> w"

definition stored_config :: "Application \<Rightarrow> AppConfig" where
  "stored_config a =
     \<lparr>ac_AppID = app_AppID a, ac_ConnPolicy = policy_of (ConnPolicy (app_IM a)), ac_ConnLimit = ConnLimit (app_IM a),
      ac_AllowGuest = AllowGuest (app_IM a), ac_GuestIPRate = GuestIPRate (app_IM a),
      ac_BizAuth = map_option (\<lambda>b. \<lparr>ba_VerifyURL = VerifyURL b, ba_Timeout = dur_millis (TimeoutMs b),
        ba_CacheSize = CacheSize b\<rparr>) (BizAuth (app_IM a))\<rparr>"

definition int32_settings :: "IMConfig \<Rightarrow> bool" where
  "int32_settings c = (case BizAuth c of None \<Rightarrow> True | Some b \<Rightarrow> in_int32 (TimeoutMs b))"

lemma dur_millis_pos: "in_int32 n \<Longrightarrow> dur_millis n \<le> 0 \<longleftrightarrow> n \<le> 0" "in_int32 n \<Longrightarrow> 0 < dur_millis n \<longleftrightarrow> 0 < n"
  unfolding dur_millis_def by (subst wrap64_id; force simp: in_int32_def in_int64_def)+

text \<open>The two checks, of the server on saving and of the gateway on loading, agree on settings that are switched on.\<close>

lemma checks_agree:
  assumes "im_Enabled (app_IM a)" and "int32_settings (app_IM a)" and "app_AppID a \<noteq> []"
  shows "AppConfig_Validate (stored_config a) \<longleftrightarrow> IMConfig_Validate (app_IM a) = None"
  using assms dur_millis_pos
  by (auto simp: AppConfig_Validate_def stored_config_def IMConfig_Validate_def policy_of_def int32_settings_def not_less not_le
      IMConnPolicyReplace_def IMConnPolicyReject_def IMConnPolicyLimit_def split: option.splits)

lemma GetActiveByAppID_now:
  assumes "db_faults w = []"
  shows "GetActiveByAppID x w =
    ((case appByExternalID x (db_apps w) of
        None \<Rightarrow> Inl app_not_found
      | Some r \<Rightarrow> if app_Status (row_app r) \<noteq> ApplicationStatusActive then Inl (DomainErr ErrForbidden CodeAppDisabled)
                  else Inr (row_app r)), w)"
  using assms
  by (auto simp: GetActiveByAppID_def GetByAppID_def found_app_def bindE_def stmt_def ret_def throw_def split: option.splits)

lemma srv_config_now:
  assumes "db_faults w = []" and "x \<noteq> []"
  shows "gw_call srv_GetAppIMConfig x w =
    (case appByExternalID x (db_apps w) of
       None \<Rightarrow> (Inl (bare_status FailedPrecondition), w)
     | Some r \<Rightarrow>
         if app_Status (row_app r) = ApplicationStatusActive \<and> im_Enabled (app_IM (row_app r))
         then (let im = app_IM (row_app r)
               in (Inr \<lparr>icr_AppId = app_AppID (row_app r), icr_AllowGuest = AllowGuest im, icr_ConnPolicy = ConnPolicy im,
                    icr_ConnLimit = ConnLimit im, icr_GuestIpRate = GuestIPRate im, icr_BizAuth = BizAuth im\<rparr>, w))
         else (Inl (bare_status FailedPrecondition), w))"
  using assms
  by (auto simp: gw_call_def srv_GetAppIMConfig_def requireIM_def imApp_def GetActiveByAppID_now Let_def
      split: option.splits)

lemma translate_precondition: "fp_translate (the (translateIM (Some (bare_status FailedPrecondition)))) = AuthUnauthorized"
  by (simp add: translateIM_def fp_translate_def)

text \<open>
  C29. By either of its names the gateway loads exactly the settings stored for an application that is active and has
  messaging switched on: whatever the server accepted passes the check of the gateway too. For any other name it gets
  the answer that the application is not to be had.
\<close>

theorem gateway_loads_what_is_stored:
  assumes "apps_wf E w" and "db_faults w = []" and "x \<noteq> []"
    and "\<And>r. r \<in> set (db_apps w) \<Longrightarrow> int32_settings (app_IM (row_app r))"
  shows "fst (Fetch (gw_call srv_GetAppIMConfig) x w) =
    (case appByExternalID x (db_apps w) of
       None \<Rightarrow> Inl AuthUnauthorized
     | Some r \<Rightarrow> if app_Status (row_app r) = ApplicationStatusActive \<and> im_Enabled (app_IM (row_app r))
                 then Inr (stored_config (row_app r)) else Inl AuthUnauthorized)"
proof (cases "appByExternalID x (db_apps w)")
  case None
  then show ?thesis using assms(2,3) translate_precondition by (simp add: Fetch_def GetAppIMConfig_def srv_config_now)
next
  case (Some r)
  then have "r \<in> set (db_apps w)" using appByExternalID_iff [of "db_apps w" x r] assms(1) by (simp add: apps_wf_def)
  then have ok: "app_AppID (row_app r) \<noteq> []" "IMConfig_Validate (app_IM (row_app r)) = None" "int32_settings (app_IM (row_app r))"
    using assms(1,4) by (auto simp: apps_wf_def app_ok_def)
  show ?thesis
  proof (cases "app_Status (row_app r) = ApplicationStatusActive \<and> im_Enabled (app_IM (row_app r))")
    case True
    let ?im = "app_IM (row_app r)"
    have c: "app_config_of \<lparr>aic_AppID = cmp_Or (app_AppID (row_app r)) x, aic_AllowGuest = AllowGuest ?im,
        aic_ConnPolicy = ConnPolicy ?im, aic_ConnLimit = ConnLimit ?im, aic_GuestIPRate = GuestIPRate ?im,
        aic_BizAuth = map_option (\<lambda>b. \<lparr>aib_VerifyURL = VerifyURL b, aib_TimeoutMs = TimeoutMs b, aib_CacheSize = CacheSize b\<rparr>)
          (BizAuth ?im)\<rparr> = stored_config (row_app r)"
      using ok(1) by (simp add: app_config_of_def stored_config_def cmp_Or_def option.map_comp comp_def)
    have "AppConfig_Validate (stored_config (row_app r))" using checks_agree [OF _ ok(3,1)] True ok(2) by simp
    moreover have "gw_call srv_GetAppIMConfig x w =
        (Inr \<lparr>icr_AppId = app_AppID (row_app r), icr_AllowGuest = AllowGuest ?im, icr_ConnPolicy = ConnPolicy ?im,
           icr_ConnLimit = ConnLimit ?im, icr_GuestIpRate = GuestIPRate ?im, icr_BizAuth = BizAuth ?im\<rparr>, w)"
      using srv_config_now [OF assms(2,3)] Some True by (simp add: Let_def)
    ultimately show ?thesis using Some True c by (simp add: Fetch_def GetAppIMConfig_def)
  next
    case False
    then have "gw_call srv_GetAppIMConfig x w = (Inl (bare_status FailedPrecondition), w)"
      using srv_config_now [OF assms(2,3)] Some by auto
    then show ?thesis using Some False translate_precondition by (auto simp: Fetch_def GetAppIMConfig_def)
  qed
qed

definition chat_settings :: IMConfig where
  "chat_settings = \<lparr>im_Enabled = True, ConnPolicy = ''limit'', ConnLimit = 2, AllowGuest = True, GuestIPRate = 5,
     BizAuth = Some \<lparr>VerifyURL = ''https://b'', TimeoutMs = 1500, CacheSize = 10\<rparr>\<rparr>"

definition chat_apps :: app_db where
  "chat_apps = two_apps\<lparr>db_apps := map (\<lambda>r. if app_ID (row_app r) = ''i'' then r\<lparr>row_app := (row_app r)\<lparr>app_IM := chat_settings\<rparr>\<rparr> else r)
     (db_apps two_apps)\<rparr>"

theorem gateway_loads_what_is_stored_witness:
  "fst (Fetch (gw_call srv_GetAppIMConfig) ''shop'' chat_apps) =
     Inr \<lparr>ac_AppID = demo_id 0, ac_ConnPolicy = PolicyLimit, ac_ConnLimit = 2, ac_AllowGuest = True, ac_GuestIPRate = 5,
       ac_BizAuth = Some \<lparr>ba_VerifyURL = ''https://b'', ba_Timeout = 1500000000, ba_CacheSize = 10\<rparr>\<rparr> \<and>
   fst (Fetch (gw_call srv_GetAppIMConfig) ''blog'' chat_apps) = Inl AuthUnauthorized"
proof -
  have n: "names_ok (map row_app (db_apps chat_apps))" "list_all (\<lambda>r. app_ok (row_app r)) (db_apps chat_apps)"
    "db_connectors chat_apps = []" "db_faults chat_apps = []"
    "list_all (\<lambda>r. int32_settings (app_IM (row_app r))) (db_apps chat_apps)" by code_simp+
  then have wf: "apps_wf demo_apps chat_apps" by (auto simp: apps_wf_def list_all_iff)
  have i: "r \<in> set (db_apps chat_apps) \<Longrightarrow> int32_settings (app_IM (row_app r))" for r using n(5) by (auto simp: list_all_iff)
  have "(case appByExternalID ''shop'' (db_apps chat_apps) of None \<Rightarrow> False | Some r \<Rightarrow>
      app_Status (row_app r) = ApplicationStatusActive \<and> im_Enabled (app_IM (row_app r)) \<and> stored_config (row_app r) =
       \<lparr>ac_AppID = demo_id 0, ac_ConnPolicy = PolicyLimit, ac_ConnLimit = 2, ac_AllowGuest = True, ac_GuestIPRate = 5,
       ac_BizAuth = Some \<lparr>ba_VerifyURL = ''https://b'', ba_Timeout = 1500000000, ba_CacheSize = 10\<rparr>\<rparr>)" by code_simp
  moreover have "(case appByExternalID ''blog'' (db_apps chat_apps) of None \<Rightarrow> False | Some r \<Rightarrow>
      \<not> im_Enabled (app_IM (row_app r)))" by code_simp
  ultimately show ?thesis
    using gateway_loads_what_is_stored [OF wf n(4) _ i, of "''shop''"] gateway_loads_what_is_stored [OF wf n(4) _ i, of "''blog''"]
    by (auto split: option.splits)
qed

text \<open>
  A statement that fails on the server reaches the gateway as the same answer as an application that does not exist:
  the client is told not to come back.
\<close>

lemma failing_statement_looks_like_missing_application:
  "fst (Fetch (gw_call srv_GetAppIMConfig) ''shop'' (chat_apps\<lparr>db_faults := [True]\<rparr>)) = Inl AuthUnauthorized"
  by code_simp

section \<open>Revocations\<close>

definition victims :: "string list \<Rightarrow> string list \<Rightarrow> 'r Hub \<Rightarrow> Conn list" where
  "victims apps tokens h = concat (map (\<lambda>a. concat (map (\<lambda>t. mget (hub_key a t) (hb_byToken h)) tokens)) apps)"

lemma victims_no_tokens [simp]: "victims apps [] h = []"
  by (induction apps) (simp_all add: victims_def)

lemma fold_touch: "fold (\<lambda>c. touch (f c)) cs h = h\<lparr>hb_world := fold f cs (hb_world h)\<rparr>"
  by (induction cs arbitrary: h) (simp_all add: touch_def)

lemma OnRevoked_world:
  "OnRevoked E app tokens h = h\<lparr>hb_world := fold (\<lambda>c. conn_Close E c CloseAuthFailed ReasonRevoked) (victims [app] tokens h) (hb_world h)\<rparr>"
  by (simp add: OnRevoked_def Let_def fold_touch victims_def)

lemma OnRevoked_all:
  "fold (\<lambda>a. OnRevoked E a tokens) apps h =
     h\<lparr>hb_world := fold (\<lambda>c. conn_Close E c CloseAuthFailed ReasonRevoked) (victims apps tokens h) (hb_world h)\<rparr>"
proof (induction apps arbitrary: h)
  case Nil
  then show ?case by (simp add: victims_def)
next
  case (Cons a apps)
  then show ?case by (simp add: OnRevoked_world victims_def)
qed

text \<open>The targets of a revocation: the application it names, or all with settings in memory.\<close>

definition revoked_apps :: "sdk_revoke_event \<Rightarrow> app_source \<Rightarrow> string list" where
  "revoked_apps ev m = (if sre_AppID ev \<noteq> [] then [sre_AppID ev] else src_Apps m)"

text \<open>
  A revocation closes, with the code for failed authentication, exactly the connections of this node that were opened
  with one of its tokens, in the application it names or, when it is for all, in each with settings in memory; nothing
  else of the router changes.
\<close>

theorem revocation_closes_connections:
  "dispatchRevoke (Some (OnRevoked E)) (Some (\<lambda>h. src_Apps m)) ev h =
     h\<lparr>hb_world := fold (\<lambda>c. conn_Close E c CloseAuthFailed ReasonRevoked) (victims (revoked_apps ev m) (sre_Tokens ev) h) (hb_world h)\<rparr>"
proof (cases "sre_Tokens ev")
  case Nil
  then show ?thesis by (simp add: dispatchRevoke_def)
next
  case (Cons t ts)
  then show ?thesis by (simp add: dispatchRevoke_def revoked_apps_def OnRevoked_world OnRevoked_all)
qed

text \<open>
  Dropping the settings of an application, which every change of them does, takes it from the list a revocation for all
  applications goes through: its open connections stay, until the next handshake loads the settings again.
\<close>

definition chat_source :: app_source where
  "chat_source = snd (src_store ''shop'' (stored_config (row_app (hd (db_apps chat_apps)))) [])"

definition freeze_event :: sdk_revoke_event where
  "freeze_event = \<lparr>sre_Tokens = [''t''], sre_UserIDs = [''u''], sre_AppID = [], sre_Reason = ''freeze'', sre_AtMs = 5\<rparr>"

lemma revocation_misses_dropped_settings:
  assumes "hb_byToken h = [(hub_key (demo_id 0) ''t'', [\<lparr>cn_ID = ''c'', cn_Token = ''t''\<rparr>])]"
  shows "victims (revoked_apps freeze_event chat_source) [''t''] h = [\<lparr>cn_ID = ''c'', cn_Token = ''t''\<rparr>]"
    and "dispatchRevoke (Some (OnRevoked E)) (Some (\<lambda>h. src_Apps (src_Invalidate (demo_id 0) chat_source))) freeze_event h = h"
proof -
  have a: "revoked_apps freeze_event chat_source = [demo_id 0]" "src_Apps (src_Invalidate (demo_id 0) chat_source) = []"
    "sre_AppID freeze_event = []"
    by code_simp+
  show "victims (revoked_apps freeze_event chat_source) [''t''] h = [\<lparr>cn_ID = ''c'', cn_Token = ''t''\<rparr>]"
    using assms by (simp add: a victims_def mget_def)
  show "dispatchRevoke (Some (OnRevoked E)) (Some (\<lambda>h. src_Apps (src_Invalidate (demo_id 0) chat_source))) freeze_event h = h"
    by (simp add: dispatchRevoke_def a)
qed

section \<open>Loading, changing and dropping, interleaved\<close>

text \<open>
  Handshakes load settings while the server changes them and the owner of the source drops what it was told of: the
  source is a state machine whose steps are the locked sections of \<^verbatim>\<open>Load\<close>, \<^verbatim>\<open>Invalidate\<close> and
  \<^verbatim>\<open>InvalidateAll\<close> and, on the other side, the answers and changes of the server. A flight is a name with the answer
  once it is there; at most one flies for a name (singleflight). A change needs no notice, and a drop no change: a status
  change and a deletion publish nothing, a failed publication is only logged, and whether a published notice arrives is up
  to the client of the platform. History: \<^verbatim>\<open>ss_hist\<close> holds what the server had under the names, the
  present last; \<^verbatim>\<open>ss_dropped\<close> where in it the last drop of an application fell; \<^verbatim>\<open>ss_overtaken\<close> and
  \<^verbatim>\<open>ss_raced\<close> the names of flights and of entries whose answer was on its way when its application was dropped.
\<close>

record src_state =
  ss_apps :: app_source
  ss_flights :: "(string \<times> AppConfig option) list"
  ss_toAnnounce :: "string set"
  ss_announced :: "string set"
  ss_hist :: "(string \<rightharpoonup> AppConfig) list"
  ss_dropped :: "string \<Rightarrow> nat"
  ss_overtaken :: "string set"
  ss_raced :: "string set"

definition ss_server :: "src_state \<Rightarrow> string \<rightharpoonup> AppConfig" where
  "ss_server s = last (ss_hist s)"

definition ss_now :: "src_state \<Rightarrow> nat" where
  "ss_now s = length (ss_hist s) - 1"

text \<open>
  What the server has under names: the identifier in the settings stands for itself, and no identifier is a code
  (identifiers have 32 characters, codes at most 24).
\<close>

definition names_agree :: "(string \<Rightarrow> bool) \<Rightarrow> (string \<rightharpoonup> AppConfig) \<Rightarrow> bool" where
  "names_agree is_id server \<longleftrightarrow> (\<forall>k c. server k = Some c \<longrightarrow>
     is_id (ac_AppID c) \<and> (is_id k \<longrightarrow> ac_AppID c = k) \<and> server (ac_AppID c) = Some c)"

definition answered :: "(string \<times> AppConfig option) list \<Rightarrow> string \<Rightarrow> AppConfig \<Rightarrow> bool" where
  "answered fs k c \<longleftrightarrow> (k, Some c) \<in> set fs"

inductive src_step :: "(string \<Rightarrow> bool) \<Rightarrow> src_state \<Rightarrow> src_state \<Rightarrow> bool" for is_id where
  start: "src_step is_id s (s\<lparr>ss_flights := (k, None) # ss_flights s, ss_overtaken := ss_overtaken s - {k}\<rparr>)"
    if "map_of (ss_apps s) k = None" and "k \<notin> fst ` set (ss_flights s)"
| answer: "src_step is_id s (s\<lparr>ss_flights := AList.update k (Some c) (ss_flights s)\<rparr>)"
    if "(k, None) \<in> set (ss_flights s)" and "ss_server s k = Some c"
| fail: "src_step is_id s (s\<lparr>ss_flights := filter (\<lambda>f. fst f \<noteq> k) (ss_flights s)\<rparr>)"
    if "(k, None) \<in> set (ss_flights s)"
| store: "src_step is_id s (s\<lparr>ss_apps := snd (src_store k c (ss_apps s)),
      ss_flights := filter (\<lambda>f. fst f \<noteq> k) (ss_flights s),
      ss_toAnnounce := set_option (fst (src_store k c (ss_apps s))) \<union> ss_toAnnounce s,
      ss_raced := (if k \<in> ss_overtaken s then ss_raced s \<union> {k, ac_AppID c} else ss_raced s - {k, ac_AppID c})\<rparr>)"
    if "(k, Some c) \<in> set (ss_flights s)"
| announce: "src_step is_id s (s\<lparr>ss_toAnnounce := ss_toAnnounce s - {a}, ss_announced := insert a (ss_announced s)\<rparr>)"
    if "a \<in> ss_toAnnounce s"
| change: "src_step is_id s (s\<lparr>ss_hist := ss_hist s @ [server]\<rparr>)"
    if "names_agree is_id server"
| invalidate: "src_step is_id s (s\<lparr>ss_apps := src_Invalidate a (ss_apps s), ss_dropped := (ss_dropped s)(a := ss_now s),
      ss_overtaken := ss_overtaken s \<union> {k. \<exists>c. answered (ss_flights s) k c \<and> ac_AppID c = a}\<rparr>)"
| purge: "src_step is_id s (s\<lparr>ss_apps := src_InvalidateAll (ss_apps s), ss_dropped := (\<lambda>a. ss_now s),
      ss_overtaken := ss_overtaken s \<union> {k. \<exists>c. answered (ss_flights s) k c}\<rparr>)"

definition src_init :: "(string \<rightharpoonup> AppConfig) \<Rightarrow> src_state" where
  "src_init server = \<lparr>ss_apps = [], ss_flights = [], ss_toAnnounce = {}, ss_announced = {}, ss_hist = [server],
     ss_dropped = (\<lambda>a. 0), ss_overtaken = {}, ss_raced = {}\<rparr>"

text \<open>Settings under a name that the server had there, at a time no earlier than the last drop of their application.\<close>

definition seen :: "src_state \<Rightarrow> nat \<Rightarrow> string \<Rightarrow> AppConfig \<Rightarrow> bool" where
  "seen s n k c \<longleftrightarrow> n < length (ss_hist s) \<and> (ss_hist s ! n) k = Some c"

definition recent :: "src_state \<Rightarrow> string set \<Rightarrow> string \<Rightarrow> AppConfig \<Rightarrow> bool" where
  "recent s late k c \<longleftrightarrow> (\<exists>n. seen s n k c \<and> (ss_dropped s (ac_AppID c) \<le> n \<or> k \<in> late))"

definition entries_inv :: "src_state \<Rightarrow> bool" where
  "entries_inv s \<longleftrightarrow> distinct (map fst (ss_apps s)) \<and>
     (\<forall>k c. map_of (ss_apps s) k = Some c \<longrightarrow> recent s (ss_raced s) k c \<and> map_of (ss_apps s) (ac_AppID c) \<noteq> None)"

definition flights_inv :: "src_state \<Rightarrow> bool" where
  "flights_inv s \<longleftrightarrow> distinct (map fst (ss_flights s)) \<and>
     (\<forall>k c. (k, Some c) \<in> set (ss_flights s) \<longrightarrow> recent s (ss_overtaken s) k c)"

definition hist_inv :: "(string \<Rightarrow> bool) \<Rightarrow> src_state \<Rightarrow> bool" where
  "hist_inv is_id s \<longleftrightarrow> ss_hist s \<noteq> [] \<and> (\<forall>server\<in>set (ss_hist s). names_agree is_id server) \<and> (\<forall>a. ss_dropped s a \<le> ss_now s)"

definition announced_inv :: "(string \<Rightarrow> bool) \<Rightarrow> src_state \<Rightarrow> bool" where
  "announced_inv is_id s \<longleftrightarrow> (\<forall>i. is_id i \<and> map_of (ss_apps s) i \<noteq> None \<longrightarrow> i \<in> ss_toAnnounce s \<union> ss_announced s)"

definition src_inv :: "(string \<Rightarrow> bool) \<Rightarrow> src_state \<Rightarrow> bool" where
  "src_inv is_id s \<longleftrightarrow> hist_inv is_id s \<and> entries_inv s \<and> flights_inv s \<and> announced_inv is_id s"

lemma names_agreeD:
  assumes "names_agree is_id server" and "server k = Some c"
  shows "is_id (ac_AppID c)" and "is_id k \<Longrightarrow> ac_AppID c = k" and "server (ac_AppID c) = Some c"
  using assms by (auto simp: names_agree_def)

lemma entriesD:
  assumes "entries_inv s"
  shows "distinct (map fst (ss_apps s))" and "map_of (ss_apps s) k = Some c \<Longrightarrow> recent s (ss_raced s) k c"
    and "map_of (ss_apps s) k = Some c \<Longrightarrow> map_of (ss_apps s) (ac_AppID c) \<noteq> None"
  using assms by (auto simp: entries_inv_def)

lemma flightsD:
  assumes "flights_inv s"
  shows "distinct (map fst (ss_flights s))" and "(k, Some c) \<in> set (ss_flights s) \<Longrightarrow> recent s (ss_overtaken s) k c"
  using assms by (auto simp: flights_inv_def)

lemma src_invD:
  assumes "src_inv is_id s"
  shows "hist_inv is_id s" and "entries_inv s" and "flights_inv s" and "announced_inv is_id s"
  using assms by (auto simp: src_inv_def)

lemma seen_names:
  assumes "hist_inv is_id s" and "seen s n k c"
  shows "is_id (ac_AppID c)" and "is_id k \<Longrightarrow> ac_AppID c = k" and "seen s n (ac_AppID c) c"
  using assms names_agreeD [of is_id "ss_hist s ! n" k c] by (auto simp: hist_inv_def seen_def)

lemma recent_names:
  assumes "hist_inv is_id s" and "recent s late k c"
  shows "is_id (ac_AppID c)" and "is_id k \<Longrightarrow> ac_AppID c = k"
  using assms(2) seen_names [OF assms(1)] unfolding recent_def by blast+

lemma recent_id:
  assumes "hist_inv is_id s" and "recent s late k c" and "k \<in> late \<Longrightarrow> ac_AppID c \<in> late2"
  shows "recent s late2 (ac_AppID c) c"
  using assms(2,3) seen_names(3) [OF assms(1)] unfolding recent_def by blast

lemma recent_cong:
  assumes "recent s late k c" and "ss_hist s' = ss_hist s" and "ss_dropped s' (ac_AppID c) = ss_dropped s (ac_AppID c)"
    and "k \<in> late \<Longrightarrow> k \<in> late2"
  shows "recent s' late2 k c"
  using assms by (auto simp: recent_def seen_def)

lemma recent_change:
  assumes "recent s late k c"
  shows "recent (s\<lparr>ss_hist := ss_hist s @ [server]\<rparr>) late k c"
  using assms by (auto simp: recent_def seen_def nth_append)

lemma recent_late:
  assumes "recent s late k c" and "ss_hist s' = ss_hist s" and "k \<in> late2"
  shows "recent s' late2 k c"
  using assms by (auto simp: recent_def seen_def)

lemma map_of_filter_keep:
  assumes "distinct (map fst m)" and "map_of m k = Some v" and "P (k, v)"
  shows "map_of (filter P m) k = Some v"
  using assms by (auto dest!: map_of_SomeD intro!: map_of_is_SomeI distinct_filter_keys)

lemma map_of_store:
  "map_of (snd (src_store k c m)) k' = (if k' = ac_AppID c \<or> k' = k then Some c else map_of m k')"
  by (auto simp: src_store_def Let_def update_conv')

lemma distinct_store: "distinct (map fst m) \<Longrightarrow> distinct (map fst (snd (src_store k c m)))"
  by (simp add: src_store_def Let_def distinct_update)

lemma map_of_invalidated:
  assumes "distinct (map fst m)"
  shows "map_of (src_Invalidate a m) k = (case map_of m k of Some c \<Rightarrow> if ac_AppID c = a then None else Some c | None \<Rightarrow> None)"
proof (cases "map_of (src_Invalidate a m) k")
  case None
  then show ?thesis using map_of_filter_keep [OF assms, of k _ "\<lambda>(k, c). ac_AppID c \<noteq> a"]
    by (auto simp: src_Invalidate_def split: option.splits)
next
  case (Some c)
  then have "map_of m k = Some c" "ac_AppID c \<noteq> a"
    using map_of_filter_sub [OF assms] by (auto simp: src_Invalidate_def dest: map_of_SomeD)
  then show ?thesis using Some by simp
qed

lemma in_update:
  assumes "distinct (map fst fs)" and "(k', x) \<in> set (AList.update k v fs)"
  shows "k' = k \<and> x = v \<or> (k', x) \<in> set fs"
proof -
  have "map_of (AList.update k v fs) k' = Some x"
    using assms distinct_update by (intro map_of_is_SomeI) auto
  then show ?thesis by (auto simp: update_conv' split: if_splits dest: map_of_SomeD)
qed

lemma entries_inv_store:
  assumes "src_inv is_id s" and "(k, Some c) \<in> set (ss_flights s)"
    and s': "ss_apps s' = snd (src_store k c (ss_apps s))" "ss_hist s' = ss_hist s" "ss_dropped s' = ss_dropped s"
      "ss_raced s' = (if k \<in> ss_overtaken s then ss_raced s \<union> {k, ac_AppID c} else ss_raced s - {k, ac_AppID c})"
  shows "entries_inv s'"
  unfolding entries_inv_def
proof (intro conjI allI impI)
  note D = src_invD [OF assms(1)]
  note E = entriesD [OF D(2)]
  have c: "recent s (ss_overtaken s) k c" using flightsD [OF D(3)] assms(2) by auto
  show "distinct (map fst (ss_apps s'))" using s'(1) E(1) by (simp add: distinct_store)
  fix k' c'
  assume k': "map_of (ss_apps s') k' = Some c'"
  show "map_of (ss_apps s') (ac_AppID c') \<noteq> None" using k' s'(1) E(3) by (auto simp: map_of_store split: if_splits)
  show "recent s' (ss_raced s') k' c'"
  proof (cases "k' = k \<or> k' = ac_AppID c")
    case True
    then have c': "c' = c" using k' s'(1) by (auto simp: map_of_store)
    have "recent s (ss_raced s') k c"
      by (rule recent_cong [OF c]) (use s'(4) in auto)
    moreover have "recent s (ss_raced s') (ac_AppID c) c"
      by (rule recent_id [OF D(1) c]) (use s'(4) in auto)
    ultimately have "recent s (ss_raced s') k' c" using True by blast
    then show ?thesis unfolding c' by (rule recent_cong) (use s' in auto)
  next
    case False
    then have "map_of (ss_apps s) k' = Some c'" using k' s'(1) by (auto simp: map_of_store)
    from E(2) [OF this] show ?thesis by (rule recent_cong) (use s' False in auto)
  qed
qed

lemma entries_inv_invalidate:
  assumes "src_inv is_id s" and s': "ss_apps s' = src_Invalidate a (ss_apps s)" "ss_hist s' = ss_hist s"
    "ss_dropped s' = (ss_dropped s)(a := d)" "ss_raced s' = ss_raced s"
  shows "entries_inv s'"
  unfolding entries_inv_def
proof (intro conjI allI impI)
  note D = src_invD [OF assms(1)]
  note E = entriesD [OF D(2)]
  note m = map_of_invalidated [OF E(1)]
  show "distinct (map fst (ss_apps s'))" using s'(1) E(1) by (simp add: src_Invalidate_def distinct_filter_keys)
  fix k c
  assume k: "map_of (ss_apps s') k = Some c"
  then have k2: "map_of (ss_apps s) k = Some c" "ac_AppID c \<noteq> a" by (auto simp: s'(1) m split: option.splits if_splits)
  from E(2) [OF k2(1)] show "recent s' (ss_raced s') k c" by (rule recent_cong) (use s' k2(2) in auto)
  obtain c2 where c2: "map_of (ss_apps s) (ac_AppID c) = Some c2" using E(3) [OF k2(1)] by auto
  have "ac_AppID c2 = ac_AppID c"
    by (rule recent_names(2) [OF D(1) E(2) [OF c2] recent_names(1) [OF D(1) E(2) [OF k2(1)]]])
  then show "map_of (ss_apps s') (ac_AppID c) \<noteq> None" using c2 k2(2) by (simp add: s'(1) m)
qed

lemma same_entries:
  assumes "entries_inv s" and "ss_apps s' = ss_apps s" and "\<And>k c. recent s (ss_raced s) k c \<Longrightarrow> recent s' (ss_raced s') k c"
  shows "entries_inv s'"
  unfolding entries_inv_def assms(2) using assms(3) entriesD [OF assms(1)] by blast

lemma fewer_flights:
  assumes "flights_inv s" and "distinct (map fst (ss_flights s'))"
    and "\<And>k c. (k, Some c) \<in> set (ss_flights s') \<Longrightarrow> (k, Some c) \<in> set (ss_flights s)"
    and "\<And>k c. (k, Some c) \<in> set (ss_flights s') \<Longrightarrow> recent s (ss_overtaken s) k c \<Longrightarrow> recent s' (ss_overtaken s') k c"
  shows "flights_inv s'"
  using assms by (auto simp: flights_inv_def)

lemma src_step_inv:
  assumes "src_step is_id s s'" and "src_inv is_id s"
  shows "src_inv is_id s'"
proof -
  note D = src_invD [OF assms(2)]
  note E = entriesD [OF D(2)]
  note F = flightsD [OF D(3)]
  show ?thesis
    using assms(1)
  proof cases
    case (start k)
    have "flights_inv s'"
    proof (rule fewer_flights [OF D(3)])
      show "distinct (map fst (ss_flights s'))" using start F(1) by simp
      fix k' c
      assume k': "(k', Some c) \<in> set (ss_flights s')"
      then show "(k', Some c) \<in> set (ss_flights s)" using start(1) by simp
      then have "k' \<noteq> k" using start(3) by force
      moreover assume "recent s (ss_overtaken s) k' c"
      ultimately show "recent s' (ss_overtaken s') k' c" by (elim recent_cong) (use start(1) in auto)
    qed
    moreover have "entries_inv s'" by (rule same_entries [OF D(2)]) (use start(1) in \<open>auto simp: recent_def seen_def\<close>)
    ultimately show ?thesis using start(1) D by (simp add: src_inv_def hist_inv_def announced_inv_def ss_now_def)
  next
    case (answer k c)
    have now: "seen s (ss_now s) k c"
      using answer(3) D(1) by (simp add: seen_def ss_now_def ss_server_def hist_inv_def last_conv_nth)
    then have "recent s (ss_overtaken s) k c" using D(1) by (auto simp: recent_def hist_inv_def)
    then have "flights_inv s'"
      using answer(1) F in_update [OF F(1)] by (fastforce simp: flights_inv_def recent_def seen_def distinct_update)
    moreover have "entries_inv s'" by (rule same_entries [OF D(2)]) (use answer(1) in \<open>auto simp: recent_def seen_def\<close>)
    ultimately show ?thesis using answer(1) D by (simp add: src_inv_def hist_inv_def announced_inv_def ss_now_def)
  next
    case (fail k)
    have "flights_inv s'"
      by (rule fewer_flights [OF D(3)]) (use fail(1) F(1) in \<open>auto simp: recent_def seen_def distinct_filter_keys\<close>)
    moreover have "entries_inv s'" by (rule same_entries [OF D(2)]) (use fail(1) in \<open>auto simp: recent_def seen_def\<close>)
    ultimately show ?thesis using fail(1) D by (simp add: src_inv_def hist_inv_def announced_inv_def ss_now_def)
  next
    case (store k c)
    have "flights_inv s'"
      by (rule fewer_flights [OF D(3)]) (use store(1) F(1) in \<open>auto simp: recent_def seen_def distinct_filter_keys\<close>)
    moreover have "entries_inv s'" by (rule entries_inv_store [OF assms(2) store(2)]) (simp_all add: store(1))
    moreover have "announced_inv is_id s'"
      unfolding announced_inv_def
    proof (intro allI impI)
      fix i
      assume i: "is_id i \<and> map_of (ss_apps s') i \<noteq> None"
      have "is_id k \<Longrightarrow> ac_AppID c = k" by (rule recent_names(2) [OF D(1) F(2) [OF store(2)]])
      then consider "map_of (ss_apps s) i \<noteq> None" | "map_of (ss_apps s) i = None" "i = ac_AppID c"
        using i store(1) by (auto simp: map_of_store split: if_splits)
      then show "i \<in> ss_toAnnounce s' \<union> ss_announced s'"
      proof cases
        case 1
        then show ?thesis using D(4) i store(1) by (auto simp: announced_inv_def)
      next
        case 2
        then show ?thesis using store(1) by (simp add: src_store_def Let_def)
      qed
    qed
    ultimately show ?thesis using store(1) D by (simp add: src_inv_def hist_inv_def ss_now_def)
  next
    case (announce a)
    have "flights_inv s'" by (rule fewer_flights [OF D(3)]) (use announce(1) F(1) in \<open>auto simp: recent_def seen_def\<close>)
    moreover have "entries_inv s'" by (rule same_entries [OF D(2)]) (use announce(1) in \<open>auto simp: recent_def seen_def\<close>)
    moreover have "announced_inv is_id s'" using D(4) announce by (auto simp: announced_inv_def)
    ultimately show ?thesis using announce(1) D by (simp add: src_inv_def hist_inv_def ss_now_def)
  next
    case (change server)
    have "flights_inv s'"
      by (rule fewer_flights [OF D(3)]) (use change(1) F(1) recent_change in \<open>auto simp: recent_def seen_def nth_append\<close>)
    moreover have "entries_inv s'" by (rule same_entries [OF D(2)]) (use change(1) in \<open>auto simp: recent_def seen_def nth_append\<close>)
    moreover have "hist_inv is_id s'"
      using change D(1) by (auto simp: hist_inv_def ss_now_def intro: le_trans)
    ultimately show ?thesis using change(1) D by (simp add: src_inv_def announced_inv_def)
  next
    case (invalidate a)
    have "flights_inv s'"
    proof (rule fewer_flights [OF D(3)])
      show "distinct (map fst (ss_flights s'))" using invalidate F(1) by simp
      fix k c
      assume k: "(k, Some c) \<in> set (ss_flights s')"
      then show "(k, Some c) \<in> set (ss_flights s)" using invalidate by simp
      assume r: "recent s (ss_overtaken s) k c"
      show "recent s' (ss_overtaken s') k c"
      proof (cases "ac_AppID c = a")
        case True
        then show ?thesis using k invalidate by (intro recent_late [OF r]) (auto simp: answered_def)
      next
        case False
        then show ?thesis using invalidate by (intro recent_cong [OF r]) auto
      qed
    qed
    moreover have "entries_inv s'" by (rule entries_inv_invalidate [OF assms(2)]) (simp_all add: invalidate)
    moreover have "announced_inv is_id s'"
      using D(4) invalidate by (auto simp: announced_inv_def map_of_invalidated [OF E(1)] split: option.splits)
    ultimately show ?thesis using invalidate D by (simp add: src_inv_def hist_inv_def ss_now_def)
  next
    case purge
    have "flights_inv s'"
      by (rule fewer_flights [OF D(3)]) (use purge F(1) in \<open>auto simp: answered_def recent_def seen_def\<close>)
    moreover have "entries_inv s'" using purge by (simp add: entries_inv_def src_InvalidateAll_def)
    ultimately show ?thesis using purge D by (simp add: src_inv_def hist_inv_def announced_inv_def ss_now_def src_InvalidateAll_def)
  qed
qed

lemma src_init_inv: "names_agree is_id server \<Longrightarrow> src_inv is_id (src_init server)"
  by (simp add: src_inv_def src_init_def entries_inv_def flights_inv_def hist_inv_def announced_inv_def)

lemma src_reachable_inv:
  assumes "(src_step is_id)\<^sup>*\<^sup>* (src_init server) s" and "names_agree is_id server"
  shows "src_inv is_id s"
  using assms by (induction rule: rtranclp_induct) (auto intro: src_step_inv src_init_inv)


definition demo_id_of :: "string \<Rightarrow> bool" where "demo_id_of k \<longleftrightarrow> k = ''A''"

definition demo_cfg :: "int \<Rightarrow> AppConfig" where
  "demo_cfg n = \<lparr>ac_AppID = ''A'', ac_ConnPolicy = PolicyLimit, ac_ConnLimit = n, ac_AllowGuest = False, ac_GuestIPRate = 0,
     ac_BizAuth = None\<rparr>"

definition demo_server :: "int \<Rightarrow> string \<Rightarrow> AppConfig option" where
  "demo_server n k = (if k = ''A'' \<or> k = ''shop'' then Some (demo_cfg n) else None)"

lemma demo_names: "names_agree demo_id_of (demo_server n)"
  by (auto simp: names_agree_def demo_server_def demo_id_of_def demo_cfg_def)

lemmas demo_src = src_init_def src_store_def Let_def demo_cfg_def src_Invalidate_def answered_def

text \<open>A load by code, and the same load overtaken by a change and its notice.\<close>

definition loaded :: src_state where
  "loaded = (src_init (demo_server 1))\<lparr>ss_apps := [(''shop'', demo_cfg 1), (''A'', demo_cfg 1)], ss_toAnnounce := {''A''}\<rparr>"

definition asking :: src_state where
  "asking = (src_init (demo_server 1))\<lparr>ss_flights := [(''shop'', Some (demo_cfg 1))]\<rparr>"

definition overtaken :: src_state where
  "overtaken = (src_init (demo_server 1))\<lparr>ss_apps := [(''shop'', demo_cfg 1), (''A'', demo_cfg 1)], ss_toAnnounce := {''A''},
     ss_hist := [demo_server 1, demo_server 2], ss_dropped := (\<lambda>a. 0)(''A'' := 1),
     ss_overtaken := {''shop''}, ss_raced := {''shop'', ''A''}\<rparr>"

lemma asking_reached: "(src_step demo_id_of)\<^sup>*\<^sup>* (src_init (demo_server 1)) asking"
proof -
  let ?s0 = "src_init (demo_server 1)"
  have 1: "src_step demo_id_of ?s0 (?s0\<lparr>ss_flights := [(''shop'', None)]\<rparr>)"
    using src_step.start [of ?s0 "''shop''" demo_id_of] by (simp add: src_init_def)
  have 2: "src_step demo_id_of (?s0\<lparr>ss_flights := [(''shop'', None)]\<rparr>) asking"
    using src_step.answer [of "''shop''" "?s0\<lparr>ss_flights := [(''shop'', None)]\<rparr>" "demo_cfg 1" demo_id_of]
    by (simp add: src_init_def ss_server_def demo_server_def asking_def)
  from 1 2 show ?thesis by (meson r_into_rtranclp rtranclp.rtrancl_into_rtrancl)
qed

lemma loaded_reached: "(src_step demo_id_of)\<^sup>*\<^sup>* (src_init (demo_server 1)) loaded"
proof -
  have "src_step demo_id_of asking loaded"
    using src_step.store [of "''shop''" "demo_cfg 1" asking demo_id_of] by (simp add: asking_def loaded_def demo_src)
  with asking_reached show ?thesis by (rule rtranclp.rtrancl_into_rtrancl)
qed

text \<open>
  \<^verbatim>\<open>Invalidate\<close> does not wait for a load under way: its answer, from before the change, is stored after the notice,
  and nothing is left to drop it.
\<close>

lemma notice_overtakes_load:
  "(src_step demo_id_of)\<^sup>*\<^sup>* (src_init (demo_server 1)) overtaken \<and> src_Get ''A'' (ss_apps overtaken) = Some (demo_cfg 1) \<and>
   ss_server overtaken ''A'' = Some (demo_cfg 2) \<and> ss_dropped overtaken ''A'' = ss_now overtaken \<and> ss_flights overtaken = []"
proof -
  let ?s1 = "asking\<lparr>ss_hist := [demo_server 1, demo_server 2]\<rparr>"
  let ?s2 = "?s1\<lparr>ss_dropped := (\<lambda>a. 0)(''A'' := 1), ss_overtaken := {''shop''}\<rparr>"
  have 1: "src_step demo_id_of asking ?s1"
    using src_step.change [OF demo_names, of asking 2] by (simp add: asking_def src_init_def)
  have ans: "{k. \<exists>c. answered (ss_flights ?s1) k c \<and> ac_AppID c = ''A''} = {''shop''}"
    by (auto simp: answered_def asking_def demo_cfg_def)
  have 2: "src_step demo_id_of ?s1 ?s2"
    using src_step.invalidate [of demo_id_of ?s1 "''A''"] unfolding ans by (simp add: asking_def src_init_def src_Invalidate_def ss_now_def)
  have 3: "src_step demo_id_of ?s2 overtaken"
    using src_step.store [of "''shop''" "demo_cfg 1" ?s2 demo_id_of] by (simp add: asking_def overtaken_def demo_src insert_commute)
  have "(src_step demo_id_of)\<^sup>*\<^sup>* (src_init (demo_server 1)) overtaken"
    using asking_reached 1 2 3 by (meson rtranclp.rtrancl_into_rtrancl)
  then show ?thesis by (simp add: overtaken_def src_Get_def src_init_def ss_server_def ss_now_def demo_server_def)
qed

text \<open>
  A change of which the gateway is not told leaves what it has loaded. In the program as it stands the client of the
  platform ignores the notice of changed settings, so the source is never told.
\<close>

lemma untold_change_is_not_seen:
  "(src_step demo_id_of)\<^sup>*\<^sup>* (src_init (demo_server 1)) (loaded\<lparr>ss_hist := [demo_server 1, demo_server 2]\<rparr>) \<and>
   src_Get ''shop'' (ss_apps (loaded\<lparr>ss_hist := [demo_server 1, demo_server 2]\<rparr>)) = Some (demo_cfg 1)"
proof -
  have "src_step demo_id_of loaded (loaded\<lparr>ss_hist := [demo_server 1, demo_server 2]\<rparr>)"
    using src_step.change [OF demo_names, of loaded 2] by (simp add: loaded_def src_init_def)
  with loaded_reached show ?thesis by (auto simp: loaded_def src_Get_def intro: rtranclp.rtrancl_into_rtrancl)
qed


text \<open>Another handshake finds the settings before their application is announced.\<close>

lemma settings_visible_before_announced:
  "src_Get ''A'' (ss_apps loaded) \<noteq> None \<and> ''A'' \<in> ss_toAnnounce loaded \<and> ''A'' \<notin> ss_announced loaded"
  by (simp add: loaded_def src_Get_def src_init_def)

end
