(* ===== verification/Im_Biz_Auth.thy ===== *)
theory Im_Biz_Auth
  imports Im_Access Confirmed_Cache
begin

text \<open>
  Tokens a business server issued itself (\<^verbatim>\<open>internal/im/bizauth\<close>): the gateway posts the handshake to the address
  of the application's settings and believes the answer, which may be remembered for as long as the answer says. The
  LRU container of \<^verbatim>\<open>hashicorp/golang-lru\<close>, the HTTP client and the decoder of JSON are parameters.
\<close>

section \<open>The cache (\<^verbatim>\<open>cache.go\<close>)\<close>

record biz_key =
  bk_app :: string
  bk_token :: string
  bk_verifyURL :: string

text \<open>The container: \<^verbatim>\<open>New\<close> refuses a size that is not positive; \<^verbatim>\<open>Peek\<close> is for the laws only.\<close>

record 'l biz_lru =
  bl_New :: "int \<Rightarrow> 'l option"
  bl_Add :: "biz_key \<Rightarrow> Subject \<times> int \<Rightarrow> 'l \<Rightarrow> 'l"
  bl_Get :: "biz_key \<Rightarrow> 'l \<Rightarrow> (Subject \<times> int) option \<times> 'l"
  bl_Peek :: "biz_key \<Rightarrow> 'l \<Rightarrow> (Subject \<times> int) option"

type_synonym 'l cacheSet = "(string \<times> 'l) list"

definition cs_get :: "'l biz_lru \<Rightarrow> biz_key \<Rightarrow> int \<Rightarrow> 'l cacheSet \<Rightarrow> Subject option \<times> 'l cacheSet" where
  "cs_get L k now s =
     (case map_of s (bk_app k) of
        None \<Rightarrow> (None, s)
      | Some c \<Rightarrow>
          (case bl_Get L k c of (e, c') \<Rightarrow>
             (case e of None \<Rightarrow> None | Some (sub, expiresAt) \<Rightarrow> if \<not> now < expiresAt then None else Some sub,
              AList.update (bk_app k) c' s)))"

text \<open>The write, for a positive time to live; \<^verbatim>\<open>expiresAt\<close> is the instant of writing plus that time.\<close>

definition cs_add :: "'l biz_lru \<Rightarrow> int \<Rightarrow> biz_key \<Rightarrow> Subject \<Rightarrow> int \<Rightarrow> 'l cacheSet \<Rightarrow> 'l cacheSet" where
  "cs_add L cap k sub expiresAt s =
     (case map_of s (bk_app k) of
        Some c \<Rightarrow> AList.update (bk_app k) (bl_Add L k (sub, expiresAt) c) s
      | None \<Rightarrow>
          (case bl_New L cap of
             None \<Rightarrow> s
           | Some c \<Rightarrow> AList.update (bk_app k) (bl_Add L k (sub, expiresAt) c) s))"

definition cs_put :: "'l biz_lru \<Rightarrow> biz_key \<Rightarrow> Subject \<Rightarrow> int \<Rightarrow> int \<Rightarrow> int \<Rightarrow> 'l cacheSet \<Rightarrow> 'l cacheSet" where
  "cs_put L k sub ttl cap now s = (if ttl \<le> 0 then s else cs_add L cap k sub (now + ttl) s)"

section \<open>Verifying (\<^verbatim>\<open>bizauth.go\<close>)\<close>

definition maxRespBody :: nat where "maxRespBody = 65536"

definition CodeSuccess :: string where "CodeSuccess = ''success''"

record verifyResponse =
  vf_Code :: string
  vf_UID :: string
  vf_CacheSeconds :: int

text \<open>What the request came to: no response, or a status and the body, if it can be read.\<close>

datatype http_outcome = NoResponse | Responded nat "string option"

record 'r biz_env =
  be_Get :: "string \<Rightarrow> 'r \<Rightarrow> AppConfig option"
  be_Do :: "string \<Rightarrow> int \<Rightarrow> string \<Rightarrow> string option \<Rightarrow> 'r \<Rightarrow> http_outcome \<times> 'r"
  be_Unmarshal :: "string \<Rightarrow> verifyResponse option"
  be_now :: "'r \<Rightarrow> int"

text \<open>The request and what its answer means: the subject and for how long it may be remembered.\<close>

definition callback :: "'r biz_env \<Rightarrow> BizAuth \<Rightarrow> VerifyRequest \<Rightarrow> 'r \<Rightarrow> (auth_err + Subject \<times> int) \<times> 'r" where
  "callback E b req r =
     (case be_Do E (ba_VerifyURL b) (ba_Timeout b) (vq_Raw req) (if vq_IP req \<noteq> [] then Some (vq_IP req) else None) r of
        (NoResponse, r') \<Rightarrow> (Inl AuthUnavailable, r')
      | (Responded status body, r') \<Rightarrow>
          (if status \<noteq> 200 then (Inl AuthUnavailable, r')
           else case body of
             None \<Rightarrow> (Inl AuthUnavailable, r')
           | Some full \<Rightarrow>
               (let data = take maxRespBody full
                in case be_Unmarshal E data of
                     None \<Rightarrow> (Inl AuthUnavailable, r')
                   | Some vr \<Rightarrow>
                       if vf_Code vr = [] then (Inl AuthUnavailable, r')
                       else if vf_Code vr \<noteq> CodeSuccess then (Inl (AuthRejected (vf_Code vr) data), r')
                       else if ValidateUserID (vf_UID vr) \<noteq> None then (Inl AuthUnavailable, r')
                       else (Inr (Subject_Biz (vf_UID vr), dur_seconds (vf_CacheSeconds vr)), r'))))"

definition biz_Verify ::
  "'r biz_env \<Rightarrow> 'l biz_lru \<Rightarrow> VerifyRequest \<Rightarrow> 'l cacheSet \<Rightarrow> 'r \<Rightarrow> (auth_err + Subject) \<times> 'l cacheSet \<times> 'r" where
  "biz_Verify E L req s r =
     (case be_Get E (vq_App req) r of
        None \<Rightarrow> (Inl AuthUnauthorized, s, r)
      | Some cfg \<Rightarrow>
          (case ac_BizAuth cfg of
             None \<Rightarrow> (Inl AuthUnauthorized, s, r)
           | Some b \<Rightarrow>
               (let k = \<lparr>bk_app = vq_App req, bk_token = vq_Token req, bk_verifyURL = ba_VerifyURL b\<rparr>
                in case cs_get L k (be_now E r) s of
                     (Some sub, s') \<Rightarrow> (Inr sub, s', r)
                   | (None, s') \<Rightarrow>
                       (case callback E b req r of
                          (Inl e, r') \<Rightarrow> (Inl e, s', r')
                        | (Inr (sub, ttl), r') \<Rightarrow>
                            (Inr sub, cs_put L k sub ttl (ba_CacheSize b) (be_now E r') s', r')))))"

section \<open>The container as a cache of confirmed answers\<close>

locale biz_lru_laws =
  fixes L :: "'l biz_lru"
  assumes New_empty: "bl_New L n = Some l \<Longrightarrow> bl_Peek L k l = None"
    and Get_result: "fst (bl_Get L k l) = bl_Peek L k l"
    and Get_keeps: "bl_Peek L k' (snd (bl_Get L k l)) = bl_Peek L k' l"
    and Add_other: "bl_Peek L k' (bl_Add L k e l) \<in> {if k' = k then Some e else bl_Peek L k' l, None}"

definition cs_peek :: "'l biz_lru \<Rightarrow> biz_key \<Rightarrow> 'l cacheSet \<Rightarrow> (Subject \<times> int) option" where
  "cs_peek L k s = (case map_of s (bk_app k) of None \<Rightarrow> None | Some c \<Rightarrow> bl_Peek L k c)"

definition cs_lookup :: "'l biz_lru \<Rightarrow> biz_key \<Rightarrow> int \<Rightarrow> 'l cacheSet \<Rightarrow> Subject option" where
  "cs_lookup L k now s = fst (cs_get L k now s)"

definition cs_touched :: "'l biz_lru \<Rightarrow> biz_key \<Rightarrow> 'l cacheSet \<Rightarrow> 'l cacheSet" where
  "cs_touched L k s = snd (cs_get L k 0 s)"

definition cs_keys :: "'l biz_lru \<Rightarrow> 'l cacheSet \<Rightarrow> biz_key set" where
  "cs_keys L s = {k. cs_peek L k s \<noteq> None}"

lemma cs_get_split: "cs_get L k now s = (cs_lookup L k now s, cs_touched L k s)"
  by (auto simp: cs_lookup_def cs_touched_def cs_get_def split: option.splits prod.splits)

context biz_lru_laws begin

lemma lookup_iff: "cs_lookup L k now s = Some v \<longleftrightarrow> (\<exists>e. cs_peek L k s = Some (v, e) \<and> now < e)"
proof (cases "map_of s (bk_app k)")
  case (Some c)
  obtain e c' where g: "bl_Get L k c = (e, c')" by fastforce
  then have "e = bl_Peek L k c" using Get_result [of k c] by simp
  then show ?thesis using Some g by (auto simp: cs_lookup_def cs_get_def cs_peek_def split: option.splits if_splits)
qed (simp add: cs_lookup_def cs_get_def cs_peek_def)

lemma peek_touched: "cs_peek L k' (cs_touched L k s) = cs_peek L k' s"
proof (cases "map_of s (bk_app k)")
  case (Some c)
  obtain e c' where g: "bl_Get L k c = (e, c')" by fastforce
  then have "bl_Peek L k' c' = bl_Peek L k' c" using Get_keeps [of k' k c] by simp
  then show ?thesis using Some g by (simp add: cs_touched_def cs_get_def cs_peek_def update_conv')
qed (simp add: cs_touched_def cs_get_def)

lemma peek_add: "cs_peek L k' (cs_add L n k v e s) \<in> {if k' = k then Some (v, e) else cs_peek L k' s, cs_peek L k' s, None}"
proof (cases "map_of s (bk_app k)")
  case (Some c)
  then show ?thesis using Add_other [of k' k "(v, e)" c]
    by (auto simp: cs_add_def cs_peek_def update_conv' split: if_splits)
next
  case None
  then show ?thesis
  proof (cases "bl_New L n")
    case (Some c)
    then show ?thesis using None Add_other [of k' k "(v, e)" c] New_empty [OF Some, of k']
      by (auto simp: cs_add_def cs_peek_def update_conv' split: if_splits option.splits)
  qed (simp add: cs_add_def)
qed

end

sublocale biz_lru_laws \<subseteq> biz_cache: confirmed_cache "cs_lookup L" "cs_touched L" "\<lambda>n k v e t. cs_add L n k v e" "cs_keys L" "\<lambda>s. True" "[]"
proof unfold_locales
  show "cs_keys L [] = {}" by (simp add: cs_keys_def cs_peek_def)
  show "k \<in> cs_keys L s" if "cs_lookup L k now s = Some v" for k now s v
    using that by (auto simp: cs_keys_def lookup_iff)
  show "cs_keys L (cs_touched L k s) \<subseteq> cs_keys L s" for k s by (simp add: cs_keys_def peek_touched)
  show "cs_lookup L k' now s = Some v" if "cs_lookup L k' now (cs_touched L k s) = Some v" for k' now k s v
    using that by (simp add: lookup_iff peek_touched)
  show "cs_keys L (cs_add L x k v e s) \<subseteq> insert k (cs_keys L s)" for x k v e s
  proof
    fix k'
    assume "k' \<in> cs_keys L (cs_add L x k v e s)"
    then show "k' \<in> insert k (cs_keys L s)" using peek_add [of k' x k v e s] by (auto simp: cs_keys_def)
  qed
  show "k' = k \<and> v' = v \<and> now < e \<or> cs_lookup L k' now s = Some v'"
    if "cs_lookup L k' now (cs_add L x k v e s) = Some v'" for k' now x k v e s v'
  proof -
    from that obtain e' where e': "cs_peek L k' (cs_add L x k v e s) = Some (v', e')" "now < e'" by (auto simp: lookup_iff)
    then have "k' = k \<and> v' = v \<and> e' = e \<or> cs_peek L k' s = Some (v', e')"
      using peek_add [of k' x k v e s] by (auto split: if_splits)
    then show ?thesis using e'(2) by (auto simp: lookup_iff)
  qed
qed simp_all

text \<open>A list as the container.\<close>

definition list_biz :: "(nat \<times> (biz_key \<times> Subject \<times> int) list) biz_lru" where
  "list_biz =
     \<lparr>bl_New = (\<lambda>n. if n \<le> 0 then None else Some (nat n, [])),
      bl_Add = (\<lambda>k e (n, l). (n, take n ((k, e) # filter (\<lambda>p. fst p \<noteq> k) l))),
      bl_Get = (\<lambda>k (n, l). case map_of l k of None \<Rightarrow> (None, (n, l)) | Some e \<Rightarrow> (Some e, (n, (k, e) # filter (\<lambda>p. fst p \<noteq> k) l))),
      bl_Peek = (\<lambda>k (n, l). map_of l k)\<rparr>"

lemma map_of_take_sub: "map_of (take n l) k \<in> {map_of l k, None}"
proof (induction l arbitrary: n)
  case (Cons p l)
  then show ?case by (cases n; cases p) auto
qed simp

interpretation list_biz: biz_lru_laws list_biz
proof unfold_locales
  show "bl_Peek list_biz k' (bl_Add list_biz k e l) \<in> {if k' = k then Some e else bl_Peek list_biz k' l, None}"
    for k' k e and l :: "nat \<times> (biz_key \<times> Subject \<times> int) list"
  proof -
    obtain n m where l: "l = (n, m)" by (cases l)
    show ?thesis
      using map_of_take_sub [of n "(k, e) # filter (\<lambda>p. fst p \<noteq> k) m" k'] l
      by (auto simp: list_biz_def map_of_filter_other split: if_splits)
  qed
qed (auto simp: list_biz_def map_of_filter_other split: if_splits option.splits prod.splits)

section \<open>Who vouched for an accepted token\<close>

text \<open>A verification, with the world it starts in; and the question it puts to the cache.\<close>

type_synonym 'r biz_call = "VerifyRequest \<times> 'r"

definition biz_call :: "'r biz_env \<Rightarrow> 'l biz_lru \<Rightarrow> 'r biz_call \<Rightarrow> 'l cacheSet \<Rightarrow> (auth_err + Subject) \<times> 'l cacheSet" where
  "biz_call E L q s = (case biz_Verify E L (fst q) s (snd q) of (res, s', r') \<Rightarrow> (res, s'))"

definition biz_settings :: "'r biz_env \<Rightarrow> 'r biz_call \<Rightarrow> BizAuth option" where
  "biz_settings E q = Option.bind (be_Get E (vq_App (fst q)) (snd q)) ac_BizAuth"

definition biz_key_of :: "VerifyRequest \<Rightarrow> BizAuth \<Rightarrow> biz_key" where
  "biz_key_of req b = \<lparr>bk_app = vq_App req, bk_token = vq_Token req, bk_verifyURL = ba_VerifyURL b\<rparr>"

definition biz_question :: "'r biz_env \<Rightarrow> 'r biz_call \<Rightarrow> (biz_key, auth_err, Subject, int) question list" where
  "biz_question E q =
     (case biz_settings E q of
        None \<Rightarrow> []
      | Some b \<Rightarrow> [(biz_key_of (fst q) b, be_now E (snd q),
          case callback E b (fst q) (snd q) of
            (Inl e, r') \<Rightarrow> Inl e
          | (Inr (sub, ttl), r') \<Rightarrow> Inr (sub, if ttl \<le> 0 then None else Some (be_now E r' + ttl, ba_CacheSize b)))])"

abbreviation "ask_biz L \<equiv> ask (cs_lookup L) (cs_touched L) (\<lambda>n k v e t. cs_add L n k v e)"

lemma biz_call_asks:
  "snd (biz_call E L q s) = asked (ask_biz L) (biz_question E q) s"
  "fst (biz_call E L q s) = Inr sub \<longleftrightarrow> (\<exists>x. biz_question E q = [x] \<and> fst (ask_biz L x s) = Inr sub)"
  by (auto simp: biz_call_def biz_Verify_def biz_question_def biz_settings_def biz_key_of_def cs_get_split cs_put_def ask_def Let_def
      split: option.splits prod.splits sum.splits)

lemma biz_calls_ask: "asked (biz_call E L) qs s = asked (ask_biz L) (concat (map (biz_question E) qs)) s"
  by (induction qs arbitrary: s) (simp_all add: asked_append biz_call_asks(1))

context biz_lru_laws begin

lemma lru_confirmed:
  assumes "fst (ask_biz L (k, now, ans) (asked (ask_biz L) qs [])) = Inr v"
  shows "(\<exists>m. ans = Inr (v, m)) \<or> (\<exists>t e x. (k, t, Inr (v, Some (e, x))) \<in> set qs \<and> now < e)"
  by (rule biz_cache.answers_confirmed [OF assms])

end

text \<open>
  The business server at the address of the key vouches for the token, in this call: it got the client's frame, answered with
  status 200, the code \<^verbatim>\<open>success\<close> and a valid identifier, and for \<^verbatim>\<open>until\<close> the instant asked about it allowed to
  remember that.
\<close>

definition vouched :: "'r biz_env \<Rightarrow> biz_key \<Rightarrow> Subject \<Rightarrow> 'r biz_call \<Rightarrow> int option \<Rightarrow> bool" where
  "vouched E k sub q until \<longleftrightarrow>
     (\<exists>b full r' vr. biz_settings E q = Some b \<and>
        k = \<lparr>bk_app = vq_App (fst q), bk_token = vq_Token (fst q), bk_verifyURL = ba_VerifyURL b\<rparr> \<and>
        be_Do E (ba_VerifyURL b) (ba_Timeout b) (vq_Raw (fst q)) (if vq_IP (fst q) = [] then None else Some (vq_IP (fst q))) (snd q) =
          (Responded 200 (Some full), r') \<and>
        be_Unmarshal E (take 65536 full) = Some vr \<and> vf_Code vr = ''success'' \<and>
        sub = \<lparr>sub_Kind = KindBiz, sub_ID = vf_UID vr\<rparr> \<and> ValidateUserID (vf_UID vr) = None \<and>
        (case until of
           None \<Rightarrow> True
         | Some t \<Rightarrow> 0 < dur_seconds (vf_CacheSeconds vr) \<and> t < be_now E r' + dur_seconds (vf_CacheSeconds vr)))"

lemma callback_Inr:
  "callback E b req r = (Inr (sub, ttl), r') \<longleftrightarrow>
     (\<exists>full vr. be_Do E (ba_VerifyURL b) (ba_Timeout b) (vq_Raw req) (if vq_IP req = [] then None else Some (vq_IP req)) r =
          (Responded 200 (Some full), r') \<and>
        be_Unmarshal E (take 65536 full) = Some vr \<and> vf_Code vr = ''success'' \<and>
        sub = \<lparr>sub_Kind = KindBiz, sub_ID = vf_UID vr\<rparr> \<and> ValidateUserID (vf_UID vr) = None \<and> ttl = dur_seconds (vf_CacheSeconds vr))"
proof -
  obtain o1 r1 where d: "be_Do E (ba_VerifyURL b) (ba_Timeout b) (vq_Raw req) (if vq_IP req = [] then None else Some (vq_IP req)) r = (o1, r1)"
    by fastforce
  have ip: "(if vq_IP req \<noteq> [] then Some (vq_IP req) else None) = (if vq_IP req = [] then None else Some (vq_IP req))" by simp
  show ?thesis
  proof (cases o1)
    case NoResponse
    then show ?thesis using d by (simp add: callback_def ip)
  next
    case (Responded status body)
    show ?thesis
    proof (cases body)
      case None
      then show ?thesis using d Responded by (simp add: callback_def ip)
    next
      case (Some full)
      then show ?thesis using d Responded
        by (cases "be_Unmarshal E (take 65536 full)")
          (auto simp: callback_def ip Let_def maxRespBody_def CodeSuccess_def Subject_Biz_def)
    qed
  qed
qed

lemma vouched_callback:
  "vouched E k sub q until \<longleftrightarrow>
     (\<exists>b ttl r'. biz_settings E q = Some b \<and> biz_key_of (fst q) b = k \<and> callback E b (fst q) (snd q) = (Inr (sub, ttl), r') \<and>
        (case until of None \<Rightarrow> True | Some t \<Rightarrow> ttl > 0 \<and> t < be_now E r' + ttl))"
  unfolding vouched_def callback_Inr biz_key_of_def by (cases until; simp) blast+

lemma vouched_subject: "vouched E k sub q until \<Longrightarrow> sub_Kind sub = KindBiz \<and> ValidateUserID (sub_ID sub) = None"
  by (auto simp: vouched_def)

lemma question_vouched:
  assumes "biz_question E q = [(k, now, Inr (sub, m))]"
  shows "vouched E k sub q None"
  using assms by (auto simp: biz_question_def vouched_callback split: option.splits prod.splits sum.splits if_splits)

lemma question_vouched_until:
  assumes "(k, t, Inr (sub, Some (e, n))) \<in> set (biz_question E q)" and "now < e"
  shows "vouched E k sub q (Some now)"
proof (cases "biz_settings E q")
  case (Some b)
  obtain x r' where x: "callback E b (fst q) (snd q) = (x, r')" by fastforce
  then show ?thesis using assms Some by (cases x) (auto simp: biz_question_def vouched_callback split: if_splits)
qed (use assms in \<open>simp add: biz_question_def\<close>)

text \<open>
  C31. A token of the business kind is accepted only when the server at the address now configured for the application
  vouches for it, in this call or in an earlier one with the same application, token and address, less ago than that
  answer allowed; the subject is the one it named, of the business kind and with a valid identifier.
\<close>

theorem business_server_vouched:
  assumes "biz_lru_laws L" and "fst (biz_call E L q (asked (biz_call E L) qs [])) = Inr sub"
  shows "sub_Kind sub = KindBiz \<and> ValidateUserID (sub_ID sub) = None \<and>
    (\<exists>b. biz_settings E q = Some b \<and>
       (vouched E (biz_key_of (fst q) b) sub q None \<or>
        (\<exists>p \<in> set qs. vouched E (biz_key_of (fst q) b) sub p (Some (be_now E (snd q))))))"
proof -
  let ?qs = "concat (map (biz_question E) qs)"
  obtain x where x: "biz_question E q = [x]" "fst (ask_biz L x (asked (ask_biz L) ?qs [])) = Inr sub"
    using assms(2) unfolding biz_call_asks(2) biz_calls_ask by blast
  obtain k now ans where a: "x = (k, now, ans)" by (cases x)
  obtain b where b: "biz_settings E q = Some b" "k = biz_key_of (fst q) b" "now = be_now E (snd q)"
    using x(1) a by (auto simp: biz_question_def split: option.splits)
  from x(2) have "fst (ask_biz L (k, now, ans) (asked (ask_biz L) ?qs [])) = Inr sub" by (simp add: a)
  from biz_lru_laws.lru_confirmed [OF assms(1) this]
  consider m where "ans = Inr (sub, m)" | t e n p where "p \<in> set qs" "(k, t, Inr (sub, Some (e, n))) \<in> set (biz_question E p)" "now < e"
    by auto
  then have v: "vouched E k sub q None \<or> (\<exists>p \<in> set qs. vouched E k sub p (Some now))"
  proof cases
    case 1
    then show ?thesis using x(1) a question_vouched by blast
  next
    case 2
    then show ?thesis using question_vouched_until by blast
  qed
  then have "sub_Kind sub = KindBiz \<and> ValidateUserID (sub_ID sub) = None" using vouched_subject by blast
  then show ?thesis using v b by auto
qed

text \<open>A business server that answers by what it is sent, as long as it is up; the world is the clock and whether it is.\<close>

definition demo_biz :: "(int \<times> bool) biz_env" where
  "demo_biz =
     \<lparr>be_Get = (\<lambda>app r. if app = ''A'' then Some \<lparr>ac_AppID = ''A'', ac_ConnPolicy = PolicyReplace, ac_ConnLimit = 0,
        ac_AllowGuest = False, ac_GuestIPRate = 0,
        ac_BizAuth = Some \<lparr>ba_VerifyURL = ''https://b'', ba_Timeout = 1500000000, ba_CacheSize = 10\<rparr>\<rparr> else None),
      be_Do = (\<lambda>url t raw ip (now, up). (if up then Responded 200 (Some raw) else NoResponse, (now + 5, up))),
      be_Unmarshal = (\<lambda>s. if s = ''ok'' then Some \<lparr>vf_Code = ''success'', vf_UID = ''u1'', vf_CacheSeconds = 60\<rparr>
        else if s = ''no'' then Some \<lparr>vf_Code = ''banned'', vf_UID = [], vf_CacheSeconds = 60\<rparr> else None),
      be_now = fst\<rparr>"

definition biz_req :: "string \<Rightarrow> string \<Rightarrow> VerifyRequest" where
  "biz_req token raw = \<lparr>vq_App = ''A'', vq_Kind = TokenKindBiz, vq_Token = token, vq_Raw = raw, vq_IP = []\<rparr>"

lemma demo_callback:
  "callback demo_biz b (biz_req t ''ok'') (now, True) = (Inr (Subject_Biz ''u1'', 60000000000), (now + 5, True))"
  "callback demo_biz b (biz_req t ''no'') (now, True) = (Inl (AuthRejected ''banned'' ''no''), (now + 5, True))"
proof -
  have d: "dur_seconds 60 = 60000000000" "ValidateUserID ''u1'' = None" by code_simp+
  show "callback demo_biz b (biz_req t ''ok'') (now, True) = (Inr (Subject_Biz ''u1'', 60000000000), (now + 5, True))"
    "callback demo_biz b (biz_req t ''no'') (now, True) = (Inl (AuthRejected ''banned'' ''no''), (now + 5, True))"
    by (simp_all add: callback_def demo_biz_def biz_req_def maxRespBody_def CodeSuccess_def d Let_def)
qed

definition demo_key :: biz_key where
  "demo_key = \<lparr>bk_app = ''A'', bk_token = ''t'', bk_verifyURL = ''https://b''\<rparr>"

definition demo_entries :: "(nat \<times> (biz_key \<times> Subject \<times> int) list) cacheSet" where
  "demo_entries = [(''A'', (10, [(demo_key, (Subject_Biz ''u1'', 60000000005))]))]"

lemma demo_calls:
  "biz_call demo_biz list_biz (biz_req ''t'' ''ok'', (0, True)) [] = (Inr (Subject_Biz ''u1''), demo_entries)"
  "biz_call demo_biz list_biz (biz_req ''x'' ''no'', (n, True)) demo_entries = (Inl (AuthRejected ''banned'' ''no''), demo_entries)"
proof -
  have g: "be_Get demo_biz ''A'' r = Some \<lparr>ac_AppID = ''A'', ac_ConnPolicy = PolicyReplace, ac_ConnLimit = 0,
        ac_AllowGuest = False, ac_GuestIPRate = 0,
        ac_BizAuth = Some \<lparr>ba_VerifyURL = ''https://b'', ba_Timeout = 1500000000, ba_CacheSize = 10\<rparr>\<rparr>" "be_now demo_biz r = fst r" for r
    by (simp_all add: demo_biz_def)
  have q: "vq_App (biz_req t raw) = ''A''" "vq_Token (biz_req t raw) = t" for t raw by (simp_all add: biz_req_def)
  show "biz_call demo_biz list_biz (biz_req ''t'' ''ok'', (0, True)) [] = (Inr (Subject_Biz ''u1''), demo_entries)"
    by (simp add: biz_call_def biz_Verify_def demo_callback g q cs_get_def cs_put_def cs_add_def list_biz_def demo_entries_def demo_key_def Let_def)
  show "biz_call demo_biz list_biz (biz_req ''x'' ''no'', (n, True)) demo_entries = (Inl (AuthRejected ''banned'' ''no''), demo_entries)"
    by (simp add: biz_call_def biz_Verify_def demo_callback g q cs_get_def list_biz_def demo_entries_def demo_key_def Let_def)
qed

theorem business_server_vouched_witness:
  "(let qs = [(biz_req ''t'' ''ok'', (0, True)), (biz_req ''x'' ''no'', (1, True))];
        s = asked (biz_call demo_biz list_biz) qs []; q = (biz_req ''t'' ''ok'', (7, False))
    in fst (biz_call demo_biz list_biz q s) = Inr (Subject_Biz ''u1'') \<and> ValidateUserID ''u1'' = None \<and>
       (vouched demo_biz demo_key (Subject_Biz ''u1'') q None \<or> list_ex (\<lambda>p. vouched demo_biz demo_key (Subject_Biz ''u1'') p (Some 7)) qs) \<and>
       fst (biz_call demo_biz list_biz (biz_req ''t'' ''ok'', (60000000005, False)) s) = Inl AuthUnavailable \<and>
       fst (biz_call demo_biz list_biz (biz_req ''x'' ''no'', (7, True)) s) = Inl (AuthRejected ''banned'' ''no''))"
proof -
  let ?qs = "[(biz_req ''t'' ''ok'', (0, True)), (biz_req ''x'' ''no'', (1, True))]"
  let ?q = "(biz_req ''t'' ''ok'', (7::int, False))"
  have s: "asked (biz_call demo_biz list_biz) ?qs [] = demo_entries" by (simp add: demo_calls)
  have e: "fst (biz_call demo_biz list_biz ?q demo_entries) = Inr (Subject_Biz ''u1'')"
    "fst (biz_call demo_biz list_biz (biz_req ''t'' ''ok'', (60000000005, False)) demo_entries) = Inl AuthUnavailable"
    "biz_settings demo_biz ?q = Some \<lparr>ba_VerifyURL = ''https://b'', ba_Timeout = 1500000000, ba_CacheSize = 10\<rparr>"
    "be_now demo_biz (snd ?q) = 7" "sub_ID (Subject_Biz ''u1'') = ''u1''" by code_simp+
  have k: "biz_key_of (fst ?q) \<lparr>ba_VerifyURL = ''https://b'', ba_Timeout = 1500000000, ba_CacheSize = 10\<rparr> = demo_key"
    by (simp add: biz_key_of_def biz_req_def demo_key_def)
  have a: "fst (biz_call demo_biz list_biz ?q (asked (biz_call demo_biz list_biz) ?qs [])) = Inr (Subject_Biz ''u1'')"
    unfolding s by (rule e(1))
  from business_server_vouched [OF list_biz.biz_lru_laws_axioms a] a e k s demo_calls(2) [of 7] show ?thesis
    by (simp add: Let_def del: asked.simps)
qed

section \<open>Refusals\<close>

definition refused_by :: "'r biz_env \<Rightarrow> BizAuth \<Rightarrow> VerifyRequest \<Rightarrow> 'r \<Rightarrow> string \<Rightarrow> string \<Rightarrow> bool" where
  "refused_by E b req r code body =
     (case fst (be_Do E (ba_VerifyURL b) (ba_Timeout b) (vq_Raw req) (if vq_IP req \<noteq> [] then Some (vq_IP req) else None) r) of
        Responded status (Some full) \<Rightarrow> status = 200 \<and> body = take maxRespBody full \<and> code \<noteq> [] \<and> code \<noteq> CodeSuccess \<and>
          map_option vf_Code (be_Unmarshal E body) = Some code
      | _ \<Rightarrow> False)"

lemma callback_refusal:
  assumes "callback E b req r = (Inl e, r')"
  shows "e = AuthUnavailable \<or> (\<exists>code body. e = AuthRejected code body \<and> refused_by E b req r code body)"
proof -
  obtain o1 r1 where d: "be_Do E (ba_VerifyURL b) (ba_Timeout b) (vq_Raw req) (if vq_IP req \<noteq> [] then Some (vq_IP req) else None) r = (o1, r1)"
    by fastforce
  show ?thesis
  proof (cases o1)
    case NoResponse
    then show ?thesis using assms d by (auto simp: callback_def)
  next
    case (Responded status body)
    show ?thesis
    proof (cases body)
      case None
      then show ?thesis using assms d Responded by (auto simp: callback_def split: if_splits)
    next
      case (Some full)
      then show ?thesis using assms d Responded
        by (cases "be_Unmarshal E (take maxRespBody full)") (auto simp: callback_def refused_by_def Let_def split: if_splits)
    qed
  qed
qed

text \<open>
  The body of a refusal reaches the client only when the business server itself refused: with status 200 and a code of
  its own; anything else that goes wrong tells the client to try again, or that this application takes no such tokens.
\<close>

theorem refusals_come_from_the_business_server:
  assumes "biz_Verify E L req s r = (Inl e, s', r')"
  shows "(case e of
      AuthRejected code body \<Rightarrow> \<exists>b. biz_settings E (req, r) = Some b \<and> refused_by E b req r code body
    | AuthUnauthorized \<Rightarrow> biz_settings E (req, r) = None
    | _ \<Rightarrow> e = AuthUnavailable)"
proof (cases "biz_settings E (req, r)")
  case None
  then show ?thesis using assms by (auto simp: biz_Verify_def biz_settings_def split: option.splits)
next
  case (Some b)
  then have "\<exists>r0. callback E b req r = (Inl e, r0)"
    using assms by (auto simp: biz_Verify_def biz_settings_def cs_get_split Let_def split: option.splits prod.splits sum.splits)
  then show ?thesis using callback_refusal [of E b req r e] Some by auto
qed

end
