(* ===== verification/Im_Ws_Conn.thy ===== *)
theory Im_Ws_Conn
  imports Im_Model "HOL-Library.AList" "HOL-Library.Sublist"
begin

text \<open>
  Two parts of the WebSocket side of the gateway (\<^verbatim>\<open>internal/im/wsapi\<close>): the limit on new guests
  (\<^verbatim>\<open>guestlimit.go\<close>) and a connection with its queue of frames and its closing (\<^verbatim>\<open>conn.go\<close>).
\<close>

section \<open>The limit on new guests\<close>

definition minute :: int where "minute = 60 * ns_per_s"

record guestBucket =
  gb_start :: int
  gb_ids :: "string list"

type_synonym guestLimiter = "(string \<times> guestBucket) list"

definition NewGuestLimiter :: guestLimiter where "NewGuestLimiter = []"

definition guest_key :: "string \<Rightarrow> string \<Rightarrow> string" where
  "guest_key app ip = app @ [CHR 0x00] @ ip"

definition guest_bucket :: "string \<Rightarrow> int \<Rightarrow> guestLimiter \<Rightarrow> guestBucket" where
  "guest_bucket k now g =
     (case map_of g k of
        None \<Rightarrow> \<lparr>gb_start = now, gb_ids = []\<rparr>
      | Some b \<Rightarrow> if now - gb_start b \<ge> minute then \<lparr>gb_start = now, gb_ids = []\<rparr> else b)"

definition guest_Allow :: "string \<Rightarrow> string \<Rightarrow> string \<Rightarrow> int \<Rightarrow> int \<Rightarrow> guestLimiter \<Rightarrow> bool \<times> guestLimiter" where
  "guest_Allow app ip guestID rate now g =
     (let k = guest_key app ip; b = guest_bucket k now g; g1 = AList.update k b g
      in if guestID \<in> set (gb_ids b) then (True, g1)
         else if int (length (gb_ids b)) \<ge> rate then (False, g1)
         else (True, AList.update k (b\<lparr>gb_ids := guestID # gb_ids b\<rparr>) g1))"

definition guest_Sweep :: "int \<Rightarrow> guestLimiter \<Rightarrow> guestLimiter" where
  "guest_Sweep now g = filter (\<lambda>(k, b). \<not> now - gb_start b \<ge> minute) g"

text \<open>Runs: requests of guests and sweeps, each at an instant.\<close>

datatype guest_op = GuestAllow string string string int int | GuestSweep int

fun guest_at :: "guest_op \<Rightarrow> int" where
  "guest_at (GuestAllow app ip i rate now) = now"
| "guest_at (GuestSweep now) = now"

fun guest_exec :: "guest_op \<Rightarrow> guestLimiter \<Rightarrow> bool \<times> guestLimiter" where
  "guest_exec (GuestAllow app ip i rate now) g = guest_Allow app ip i rate now g"
| "guest_exec (GuestSweep now) g = (False, guest_Sweep now g)"

text \<open>The guests let in under a key in the minute from \<^verbatim>\<open>t0\<close> on.\<close>

fun guests_of :: "string \<Rightarrow> int \<Rightarrow> guest_op list \<Rightarrow> guestLimiter \<Rightarrow> string set" where
  "guests_of k t0 [] g = {}"
| "guests_of k t0 (x # xs) g =
     (case x of
        GuestAllow app ip i rate now \<Rightarrow>
          (if guest_key app ip = k \<and> t0 \<le> now \<and> now < t0 + minute \<and> fst (guest_exec x g) then {i} else {})
      | GuestSweep now \<Rightarrow> {}) \<union> guests_of k t0 xs (snd (guest_exec x g))"

definition rate_is :: "string \<Rightarrow> int \<Rightarrow> guest_op \<Rightarrow> bool" where
  "rate_is k R x = (case x of GuestAllow app ip i rate now \<Rightarrow> guest_key app ip = k \<longrightarrow> rate = R | GuestSweep now \<Rightarrow> True)"

definition ids_at :: "string \<Rightarrow> guestLimiter \<Rightarrow> string set" where
  "ids_at k g = (case map_of g k of None \<Rightarrow> {} | Some b \<Rightarrow> set (gb_ids b))"

definition in_limit :: "int \<Rightarrow> guestBucket \<Rightarrow> bool" where
  "in_limit R b \<longleftrightarrow> distinct (gb_ids b) \<and> int (length (gb_ids b)) \<le> max 0 R"

definition bucket_ok :: "string \<Rightarrow> int \<Rightarrow> guestLimiter \<Rightarrow> bool" where
  "bucket_ok k R g \<longleftrightarrow> distinct (map fst g) \<and> (case map_of g k of None \<Rightarrow> True | Some b \<Rightarrow> in_limit R b)"

definition bucket_started :: "string \<Rightarrow> int \<Rightarrow> guestLimiter \<Rightarrow> bool" where
  "bucket_started k t0 g = (case map_of g k of None \<Rightarrow> True | Some b \<Rightarrow> t0 \<le> gb_start b)"

lemma map_of_sweep:
  assumes "distinct (map fst g)"
  shows "map_of (guest_Sweep now g) k = (case map_of g k of None \<Rightarrow> None | Some b \<Rightarrow> if now - gb_start b \<ge> minute then None else Some b)"
proof (cases "map_of g k")
  case None
  then have "k \<notin> fst ` set g" by (simp add: map_of_eq_None_iff)
  then have "k \<notin> fst ` set (guest_Sweep now g)" by (auto simp: guest_Sweep_def)
  then show ?thesis using None by (simp add: map_of_eq_None_iff [THEN iffD2])
next
  case (Some b)
  have d: "distinct (map fst (guest_Sweep now g))" using assms by (simp add: guest_Sweep_def distinct_map_filter)
  have "map_of (guest_Sweep now g) k = Some b" if "\<not> now - gb_start b \<ge> minute"
    using map_of_SomeD [OF Some] that by (intro map_of_is_SomeI [OF d]) (simp add: guest_Sweep_def)
  moreover have "map_of (guest_Sweep now g) k = None" if "now - gb_start b \<ge> minute"
  proof (rule ccontr)
    assume "map_of (guest_Sweep now g) k \<noteq> None"
    then obtain b' where "(k, b') \<in> set g" "\<not> now - gb_start b' \<ge> minute"
      by (auto simp: guest_Sweep_def dest!: map_of_SomeD)
    then show False using map_of_is_SomeI [OF assms, of k b'] Some that by simp
  qed
  ultimately show ?thesis using Some by simp
qed

lemma map_of_allow:
  "map_of (snd (guest_Allow app ip i rate now g)) k =
     (let b = guest_bucket (guest_key app ip) now g in
      if k \<noteq> guest_key app ip then map_of g k
      else if fst (guest_Allow app ip i rate now g) \<and> i \<notin> set (gb_ids b) then Some (b\<lparr>gb_ids := i # gb_ids b\<rparr>) else Some b)"
  by (auto simp: guest_Allow_def Let_def update_conv')

lemma allow_iff: "fst (guest_Allow app ip i rate now g) \<longleftrightarrow>
   i \<in> set (gb_ids (guest_bucket (guest_key app ip) now g)) \<or> int (length (gb_ids (guest_bucket (guest_key app ip) now g))) < rate"
  by (simp add: guest_Allow_def Let_def)

lemma bucketD:
  assumes "bucket_ok k R g"
  shows "distinct (map fst g)" and "map_of g k = Some b \<Longrightarrow> in_limit R b"
  using assms by (simp_all add: bucket_ok_def)

lemma bucket_in_limit:
  assumes "bucket_ok k R g"
  shows "in_limit R (guest_bucket k now g)"
proof (cases "map_of g k")
  case None
  then show ?thesis by (simp add: guest_bucket_def in_limit_def)
next
  case (Some b)
  then show ?thesis using bucketD(2) [OF assms Some] by (simp add: guest_bucket_def in_limit_def)
qed

lemma in_limit_card: "in_limit R b \<Longrightarrow> card (set (gb_ids b)) \<le> nat R"
  using distinct_card [of "gb_ids b"] by (auto simp: in_limit_def le_nat_iff max_def split: if_splits)

lemma ids_limit: "bucket_ok k R g \<Longrightarrow> finite (ids_at k g) \<and> card (ids_at k g) \<le> nat R"
  by (cases "map_of g k") (auto simp: ids_at_def bucket_ok_def intro: in_limit_card)

lemma bucket_ok_step:
  assumes "bucket_ok k R g" and "rate_is k R x"
  shows "bucket_ok k R (snd (guest_exec x g))"
proof (cases x)
  case (GuestAllow app ip i rate now)
  have d: "distinct (map fst (snd (guest_Allow app ip i rate now g)))"
    using assms(1) by (simp add: bucket_ok_def guest_Allow_def Let_def distinct_update)
  show ?thesis
  proof (cases "k = guest_key app ip")
    case True
    then have r: "rate = R" using assms(2) GuestAllow by (simp add: rate_is_def)
    have b: "in_limit R (guest_bucket k now g)" using bucket_in_limit [OF assms(1)] .
    have "in_limit R ((guest_bucket k now g)\<lparr>gb_ids := i # gb_ids (guest_bucket k now g)\<rparr>)"
      if "fst (guest_Allow app ip i rate now g)" "i \<notin> set (gb_ids (guest_bucket k now g))"
      using that b r True by (simp add: in_limit_def allow_iff)
    then show ?thesis using d b True GuestAllow by (simp add: bucket_ok_def map_of_allow Let_def)
  next
    case False
    then show ?thesis using d assms(1) GuestAllow by (simp add: bucket_ok_def map_of_allow Let_def)
  qed
next
  case (GuestSweep now)
  have "distinct (map fst (guest_Sweep now g))"
    using bucketD(1) [OF assms(1)] by (simp add: guest_Sweep_def distinct_map_filter)
  then show ?thesis using GuestSweep assms(1) map_of_sweep [OF bucketD(1) [OF assms(1)], of now k]
    by (cases "map_of g k") (simp_all add: bucket_ok_def)
qed

lemma no_guests_later: "\<forall>x \<in> set xs. t0 + minute \<le> guest_at x \<Longrightarrow> guests_of k t0 xs g = {}"
  by (induction xs arbitrary: g) (auto split: guest_op.splits)

lemma guests_step: "guests_of k t0 (x # xs) g \<subseteq> ids_at k (snd (guest_exec x g)) \<union> guests_of k t0 xs (snd (guest_exec x g))"
proof (cases x)
  case (GuestAllow app ip i rate now)
  have "i \<in> ids_at k (snd (guest_exec x g))" if "guest_key app ip = k" "fst (guest_exec x g)"
    using that GuestAllow by (auto simp: ids_at_def map_of_allow Let_def)
  then show ?thesis using GuestAllow by (auto simp del: guest_exec.simps)
qed auto

text \<open>A bucket that begins inside the minute serves the rest of it.\<close>

lemma one_bucket:
  assumes "bucket_ok k R g" and "bucket_started k t0 g" and "\<And>x. x \<in> set xs \<Longrightarrow> rate_is k R x"
    and "sorted (map guest_at xs)" and "\<And>x. x \<in> set xs \<Longrightarrow> t0 \<le> guest_at x"
  shows "\<exists>S. finite S \<and> card S \<le> nat R \<and> ids_at k g \<subseteq> S \<and> guests_of k t0 xs g \<subseteq> S"
  using assms
proof (induction xs arbitrary: g)
  case Nil
  then show ?case using ids_limit [of k R g] by (intro exI [of _ "ids_at k g"]) simp
next
  case (Cons x xs)
  show ?case
  proof (cases "guest_at x < t0 + minute")
    case False
    then have "guests_of k t0 (x # xs) g = {}" using Cons.prems(4) by (intro no_guests_later) auto
    then show ?thesis using ids_limit [OF Cons.prems(1)] by (intro exI [of _ "ids_at k g"]) (simp del: guests_of.simps)
  next
    case True
    let ?g = "snd (guest_exec x g)"
    have ok: "bucket_ok k R ?g" using Cons.prems(1,3) by (intro bucket_ok_step) simp_all
    have d: "distinct (map fst g)" using Cons.prems(1) by (simp add: bucket_ok_def)
    have step: "bucket_started k t0 ?g \<and> ids_at k g \<subseteq> ids_at k ?g"
    proof (cases x)
      case (GuestAllow app ip i rate now)
      have now: "t0 \<le> now" "now < t0 + minute" using GuestAllow True Cons.prems(5) [of x] by auto
      show ?thesis
      proof (cases "map_of g k")
        case None
        then show ?thesis using GuestAllow now
          by (auto simp: bucket_started_def ids_at_def map_of_allow guest_bucket_def Let_def)
      next
        case (Some b)
        then have "guest_bucket k now g = b" "t0 \<le> gb_start b"
          using Cons.prems(2) now by (auto simp: bucket_started_def guest_bucket_def)
        then show ?thesis using GuestAllow Some
          by (auto simp: bucket_started_def ids_at_def map_of_allow Let_def)
      qed
    next
      case (GuestSweep now)
      have "now < t0 + minute" using GuestSweep True by simp
      then show ?thesis using GuestSweep Cons.prems(2) map_of_sweep [OF d, of now k]
        by (auto simp: bucket_started_def ids_at_def split: option.splits)
    qed
    have "\<exists>S. finite S \<and> card S \<le> nat R \<and> ids_at k ?g \<subseteq> S \<and> guests_of k t0 xs ?g \<subseteq> S"
      by (rule Cons.IH [OF ok step [THEN conjunct1]]) (use Cons.prems(3-5) in simp_all)
    then obtain S where S: "finite S" "card S \<le> nat R" "ids_at k ?g \<subseteq> S" "guests_of k t0 xs ?g \<subseteq> S" by blast
    then have "guests_of k t0 (x # xs) g \<subseteq> S" using guests_step [of k t0 x xs g] by blast
    then show ?thesis using S step by blast
  qed
qed

lemma two_buckets:
  assumes "bucket_ok k R g" and "\<And>x. x \<in> set xs \<Longrightarrow> rate_is k R x" and "sorted (map guest_at xs)"
    and "\<And>x. x \<in> set xs \<Longrightarrow> t0 \<le> guest_at x"
  shows "\<exists>S1 S2. finite S1 \<and> finite S2 \<and> card S1 \<le> nat R \<and> card S2 \<le> nat R \<and> ids_at k g \<subseteq> S1 \<and> guests_of k t0 xs g \<subseteq> S1 \<union> S2"
  using assms
proof (induction xs arbitrary: g)
  case Nil
  then show ?case using ids_limit [of k R g] by (intro exI [of _ "ids_at k g"] exI [of _ "{}"]) simp
next
  case (Cons x xs)
  let ?g = "snd (guest_exec x g)"
  have ok: "bucket_ok k R ?g" using Cons.prems(1,2) by (intro bucket_ok_step) simp_all
  have d: "distinct (map fst g)" using Cons.prems(1) by (simp add: bucket_ok_def)
  note lim = ids_limit [OF Cons.prems(1)]
  show ?case
  proof (cases "ids_at k g \<subseteq> ids_at k ?g")
    case True
    have "\<exists>S1 S2. finite S1 \<and> finite S2 \<and> card S1 \<le> nat R \<and> card S2 \<le> nat R \<and> ids_at k ?g \<subseteq> S1 \<and> guests_of k t0 xs ?g \<subseteq> S1 \<union> S2"
      by (rule Cons.IH [OF ok]) (use Cons.prems(2-4) in simp_all)
    then obtain S1 S2 where S: "finite S1" "finite S2" "card S1 \<le> nat R" "card S2 \<le> nat R" "ids_at k ?g \<subseteq> S1" "guests_of k t0 xs ?g \<subseteq> S1 \<union> S2"
      by blast
    have "guests_of k t0 (x # xs) g \<subseteq> S1 \<union> S2" using S guests_step [of k t0 x xs g] by blast
    then show ?thesis using S True by blast
  next
    case False
    have "bucket_started k t0 ?g"
    proof (cases x)
      case (GuestAllow app ip i rate now)
      then show ?thesis using False Cons.prems(4) [of x]
        by (cases "map_of g k") (auto simp: ids_at_def bucket_started_def map_of_allow guest_bucket_def Let_def split: if_splits)
    next
      case (GuestSweep now)
      then show ?thesis using False map_of_sweep [OF d, of now k]
        by (cases "map_of g k") (auto simp: ids_at_def bucket_started_def split: if_splits)
    qed
    then have "\<exists>S. finite S \<and> card S \<le> nat R \<and> ids_at k ?g \<subseteq> S \<and> guests_of k t0 xs ?g \<subseteq> S"
      by (rule one_bucket [OF ok]) (use Cons.prems(2-4) in simp_all)
    then obtain S where S: "finite S" "card S \<le> nat R" "ids_at k ?g \<subseteq> S" "guests_of k t0 xs ?g \<subseteq> S" by blast
    have "guests_of k t0 (x # xs) g \<subseteq> ids_at k g \<union> S" using S guests_step [of k t0 x xs g] by blast
    then show ?thesis using S lim by blast
  qed
qed

lemma guests_in_a_minute:
  assumes "bucket_ok k R g" and "\<And>x. x \<in> set xs \<Longrightarrow> rate_is k R x" and "sorted (map guest_at xs)"
  shows "finite (guests_of k t0 xs g) \<and> card (guests_of k t0 xs g) \<le> 2 * nat R"
  using assms
proof (induction xs arbitrary: g)
  case (Cons x xs)
  show ?case
  proof (cases "t0 \<le> guest_at x")
    case True
    have "\<exists>S1 S2. finite S1 \<and> finite S2 \<and> card S1 \<le> nat R \<and> card S2 \<le> nat R \<and> ids_at k g \<subseteq> S1 \<and> guests_of k t0 (x # xs) g \<subseteq> S1 \<union> S2"
      using Cons.prems True by (intro two_buckets) fastforce+
    then obtain S1 S2 where S: "finite S1" "finite S2" "card S1 \<le> nat R" "card S2 \<le> nat R" "guests_of k t0 (x # xs) g \<subseteq> S1 \<union> S2" by blast
    have f: "finite (guests_of k t0 (x # xs) g)" using S(1,2,5) finite_subset by blast
    have "card (guests_of k t0 (x # xs) g) \<le> card (S1 \<union> S2)" using S(1,2,5) by (simp add: card_mono)
    also have "\<dots> \<le> card S1 + card S2" by (rule card_Un_le)
    finally show ?thesis using S(3,4) f by simp
  next
    case False
    then have "guests_of k t0 (x # xs) g = guests_of k t0 xs (snd (guest_exec x g))" by (auto split: guest_op.splits)
    moreover have "bucket_ok k R (snd (guest_exec x g))" using Cons.prems(1,2) by (intro bucket_ok_step) simp_all
    ultimately show ?thesis using Cons.IH Cons.prems by simp
  qed
qed simp

text \<open>
  C32. However requests and sweeps mix, in no minute, wherever it begins, does one address bring more than twice the
  configured number of different guests to an application; with a number that is not positive it brings none.
\<close>

theorem guests_are_limited:
  assumes "\<And>x. x \<in> set xs \<Longrightarrow> rate_is (guest_key app ip) R x" and "sorted (map guest_at xs)"
  shows "finite (guests_of (guest_key app ip) t0 xs NewGuestLimiter) \<and>
    int (card (guests_of (guest_key app ip) t0 xs NewGuestLimiter)) \<le> 2 * max 0 R"
proof -
  have "bucket_ok (guest_key app ip) R NewGuestLimiter" by (simp add: bucket_ok_def NewGuestLimiter_def)
  then have "finite (guests_of (guest_key app ip) t0 xs NewGuestLimiter) \<and>
      card (guests_of (guest_key app ip) t0 xs NewGuestLimiter) \<le> 2 * nat R" using assms by (rule guests_in_a_minute)
  then show ?thesis by (auto simp: max_def)
qed

definition demo_guests :: "guest_op list" where
  "demo_guests = [GuestAllow ''A'' ''1.1.1.1'' ''a'' 1 0, GuestAllow ''A'' ''1.1.1.1'' ''b'' 1 59000000000,
     GuestAllow ''A'' ''1.1.1.1'' ''a'' 1 59000000001, GuestSweep 60000000000, GuestAllow ''A'' ''1.1.1.1'' ''b'' 1 61000000000,
     GuestAllow ''A'' ''1.1.1.1'' ''c'' 1 62000000000]"

text \<open>The bound is reached: two guests within two seconds around the end of a bucket of one.\<close>

theorem guests_are_limited_witness:
  "guests_of (guest_key ''A'' ''1.1.1.1'') 59000000000 demo_guests NewGuestLimiter = {''a'', ''b''} \<and>
   int (card (guests_of (guest_key ''A'' ''1.1.1.1'') 59000000000 demo_guests NewGuestLimiter)) \<le> 2"
proof -
  have g: "guests_of (guest_key ''A'' ''1.1.1.1'') 59000000000 demo_guests NewGuestLimiter = {''a'', ''b''}" by code_simp
  have "rate_is (guest_key ''A'' ''1.1.1.1'') 1 x" if "x \<in> set demo_guests" for x
    using that by (auto simp: demo_guests_def rate_is_def)
  moreover have "sorted (map guest_at demo_guests)" by code_simp
  ultimately show ?thesis using guests_are_limited [of demo_guests "''A''" "''1.1.1.1''" 1 59000000000] g by simp
qed

section \<open>A connection\<close>

text \<open>The queue is a channel of capacity \<^verbatim>\<open>wc_cap\<close>, which \<^verbatim>\<open>New\<close> makes positive.\<close>

record wsConn =
  wc_id :: string
  wc_token :: string
  wc_cap :: nat
  wc_sendq :: "string list"
  wc_closed :: "(int \<times> string) option"

definition newWsConn :: "string \<Rightarrow> string \<Rightarrow> nat \<Rightarrow> wsConn" where
  "newWsConn i token queue = \<lparr>wc_id = i, wc_token = token, wc_cap = queue, wc_sendq = [], wc_closed = None\<rparr>"

definition msgFrame :: "string \<Rightarrow> string" where
  "msgFrame payload = ''{'' @ [CHR 0x22] @ ''t'' @ [CHR 0x22] @ '':3,'' @ [CHR 0x22] @ ''p'' @ [CHR 0x22] @ '':'' @ payload @ ''}''"

definition pongFrame :: string where
  "pongFrame = ''{'' @ [CHR 0x22] @ ''t'' @ [CHR 0x22] @ '':5}''"

definition enqueue :: "string \<Rightarrow> wsConn \<Rightarrow> bool \<times> wsConn" where
  "enqueue frame c =
     (if length (wc_sendq c) < wc_cap c then (True, c\<lparr>wc_sendq := wc_sendq c @ [frame]\<rparr>) else (False, c))"

definition ws_Send :: "string \<Rightarrow> wsConn \<Rightarrow> bool \<times> wsConn" where
  "ws_Send payload c = enqueue (msgFrame payload) c"

definition ws_Close :: "int \<Rightarrow> string \<Rightarrow> wsConn \<Rightarrow> wsConn" where
  "ws_Close code reason c = (case wc_closed c of None \<Rightarrow> c\<lparr>wc_closed := Some (code, reason)\<rparr> | Some x \<Rightarrow> c)"

definition closure :: "wsConn \<Rightarrow> (int \<times> string) option" where
  "closure c = wc_closed c"

text \<open>
  The goroutines of a connection: anyone may send and close, the writer takes frames off the queue and, once it sees the
  closing, ends the WebSocket and itself; which of the two it sees first is open. History: the frames that were
  taken into the queue and the calls of \<^verbatim>\<open>Close\<close>.
\<close>

record ws_sys =
  wy_conn :: wsConn
  wy_writing :: bool
  wy_written :: "string list"
  wy_wsClosed :: "(int \<times> string) option"
  wy_taken :: "string list"
  wy_closes :: "(int \<times> string) list"

inductive ws_step :: "ws_sys \<Rightarrow> ws_sys \<Rightarrow> bool" where
  ws_send: "ws_step s (s\<lparr>wy_conn := snd (enqueue f (wy_conn s)),
      wy_taken := (if fst (enqueue f (wy_conn s)) then wy_taken s @ [f] else wy_taken s)\<rparr>)"
    if "f = pongFrame \<or> f = msgFrame payload"
| ws_close: "ws_step s (s\<lparr>wy_conn := ws_Close code reason (wy_conn s), wy_closes := wy_closes s @ [(code, reason)]\<rparr>)"
| ws_write: "ws_step s (s\<lparr>wy_conn := (wy_conn s)\<lparr>wc_sendq := fs\<rparr>, wy_written := wy_written s @ [f]\<rparr>)"
    if "wy_writing s" and "wc_sendq (wy_conn s) = f # fs"
| ws_write_fails: "ws_step s (s\<lparr>wy_conn := (wy_conn s)\<lparr>wc_sendq := fs\<rparr>, wy_writing := False\<rparr>)"
    if "wy_writing s" and "wc_sendq (wy_conn s) = f # fs"
| ws_close_seen: "ws_step s (s\<lparr>wy_wsClosed := closure (wy_conn s), wy_writing := False\<rparr>)"
    if "wy_writing s" and "closure (wy_conn s) \<noteq> None"
| ws_cancelled: "ws_step s (s\<lparr>wy_writing := False\<rparr>)"
    if "wy_writing s"

definition ws_start :: "string \<Rightarrow> string \<Rightarrow> nat \<Rightarrow> ws_sys" where
  "ws_start i token queue = \<lparr>wy_conn = newWsConn i token queue, wy_writing = True, wy_written = [], wy_wsClosed = None,
     wy_taken = [], wy_closes = []\<rparr>"

definition ws_inv :: "nat \<Rightarrow> ws_sys \<Rightarrow> bool" where
  "ws_inv n s \<longleftrightarrow>
     (wy_writing s \<longrightarrow> wy_taken s = wy_written s @ wc_sendq (wy_conn s) \<and> wy_wsClosed s = None) \<and>
     prefix (wy_written s) (wy_taken s) \<and> wc_cap (wy_conn s) = n \<and> length (wc_sendq (wy_conn s)) \<le> n \<and>
     wc_closed (wy_conn s) = (case wy_closes s of [] \<Rightarrow> None | x # xs \<Rightarrow> Some x) \<and>
     (\<forall>x. wy_wsClosed s = Some x \<longrightarrow> wc_closed (wy_conn s) = Some x)"

lemma ws_step_inv:
  assumes "ws_step s s'" and "ws_inv n s"
  shows "ws_inv n s'"
  using assms
proof cases
  case (ws_send f payload)
  then show ?thesis using assms(2) by (auto simp: ws_inv_def enqueue_def intro: prefix_order.trans)
next
  case (ws_close code reason)
  then show ?thesis using assms(2) by (auto simp: ws_inv_def ws_Close_def split: list.splits)
next
  case (ws_write f fs)
  then show ?thesis using assms(2) by (auto simp: ws_inv_def)
next
  case (ws_write_fails f fs)
  then show ?thesis using assms(2) by (auto simp: ws_inv_def)
next
  case ws_close_seen
  then show ?thesis using assms(2) by (auto simp: ws_inv_def closure_def)
next
  case ws_cancelled
  then show ?thesis using assms(2) by (auto simp: ws_inv_def)
qed

text \<open>
  Whatever is sent and closed at the same time: the client gets a prefix of the frames taken into the queue, in their
  order, all but those still queued while the writer runs; the queue keeps its bound; and the WebSocket ends with the code
  and reason of the first call of \<^verbatim>\<open>Close\<close>.
\<close>

theorem frames_in_order_and_first_close_wins:
  assumes "ws_step\<^sup>*\<^sup>* (ws_start i token n) s"
  shows "prefix (wy_written s) (wy_taken s) \<and> length (wc_sendq (wy_conn s)) \<le> n \<and>
    (wy_writing s \<longrightarrow> wy_taken s = wy_written s @ wc_sendq (wy_conn s)) \<and>
    (wy_wsClosed s = None \<or> wy_wsClosed s = Some (hd (wy_closes s)) \<and> wy_closes s \<noteq> [])"
proof -
  have "ws_inv n s"
    using assms
  proof (induction rule: rtranclp_induct)
    case base
    then show ?case by (simp add: ws_inv_def ws_start_def newWsConn_def)
  next
    case (step y z)
    then show ?case by (blast intro: ws_step_inv)
  qed
  then show ?thesis by (cases "wy_wsClosed s") (auto simp: ws_inv_def split: list.splits)
qed

text \<open>A message, a pong and a close by the hub, another by the idle timer.\<close>

lemma frames_in_order_and_first_close_wins_witness:
  "\<exists>s. ws_step\<^sup>*\<^sup>* (ws_start ''c'' ''t'' 1) s \<and> wy_written s = [msgFrame ''1''] \<and> wy_taken s = [msgFrame ''1'', pongFrame] \<and>
     wy_wsClosed s = Some (CloseKicked, ReasonKicked) \<and> prefix (wy_written s) (wy_taken s)"
proof -
  let ?s0 = "ws_start ''c'' ''t'' 1"
  let ?s1 = "?s0\<lparr>wy_conn := (wy_conn ?s0)\<lparr>wc_sendq := [msgFrame ''1'']\<rparr>, wy_taken := [msgFrame ''1'']\<rparr>"
  let ?s2 = "?s0\<lparr>wy_written := [msgFrame ''1''], wy_taken := [msgFrame ''1'']\<rparr>"
  let ?s3 = "?s2\<lparr>wy_conn := (wy_conn ?s0)\<lparr>wc_sendq := [pongFrame]\<rparr>, wy_taken := [msgFrame ''1'', pongFrame]\<rparr>"
  let ?s4 = "?s3\<lparr>wy_conn := (wy_conn ?s0)\<lparr>wc_sendq := [pongFrame], wc_closed := Some (CloseKicked, ReasonKicked)\<rparr>, wy_closes := [(CloseKicked, ReasonKicked)]\<rparr>"
  let ?s5 = "?s4\<lparr>wy_closes := [(CloseKicked, ReasonKicked), (CloseIdleTimeout, ReasonTimeout)]\<rparr>"
  let ?s6 = "?s5\<lparr>wy_wsClosed := Some (CloseKicked, ReasonKicked), wy_writing := False\<rparr>"
  note d = ws_start_def newWsConn_def enqueue_def ws_Close_def closure_def
  have 1: "ws_step ?s0 ?s1" using ws_send [of "msgFrame ''1''" "''1''" ?s0] by (simp add: d)
  have 2: "ws_step ?s1 ?s2" using ws_write [of ?s1 "msgFrame ''1''" "[]"] by (simp add: d)
  have 3: "ws_step ?s2 ?s3" using ws_send [of pongFrame "[]" ?s2] by (simp add: d)
  have 4: "ws_step ?s3 ?s4" using ws_close [of ?s3 CloseKicked ReasonKicked] by (simp add: d)
  have 5: "ws_step ?s4 ?s5" using ws_close [of ?s4 CloseIdleTimeout ReasonTimeout] by (simp add: d)
  have 6: "ws_step ?s5 ?s6" using ws_close_seen [of ?s5] by (simp add: d)
  have r: "ws_step\<^sup>*\<^sup>* ?s0 ?s6" using 1 2 3 4 5 6 by (meson rtranclp.rtrancl_into_rtrancl rtranclp.rtrancl_refl)
  from frames_in_order_and_first_close_wins [OF r] r show ?thesis
    by (intro exI [of _ ?s6]) (simp add: ws_start_def)
qed

end
