(* ===== verification/Im_Ws.thy ===== *)
theory Im_Ws
  imports Im_Access Im_Ws_Conn Im_Hub_Properties
begin

text \<open>
  The way of a client into the gateway (\<^verbatim>\<open>internal/im/wsapi/handler.go\<close>): the first frame, the settings of its
  application, who it is, the verdict of the registry, and what happens until the connection is taken down. The WebSocket
  library, JSON and the generator of identifiers are parameters; all of them, and the registry, act on the world of the hub.
\<close>

section \<open>Frames and results\<close>

definition FrameAuth :: int where "FrameAuth = 1"
definition FrameMsg :: int where "FrameMsg = 3"
definition FramePing :: int where "FramePing = 4"

definition CodeBadRequest :: string where "CodeBadRequest = ''bad_request''"
definition CodeAuthFailed :: string where "CodeAuthFailed = ''auth_failed''"
definition CodeAuthUnavailable :: string where "CodeAuthUnavailable = ''auth_unavailable''"
definition CodeAppUnavailable :: string where "CodeAppUnavailable = ''app_unavailable''"
definition CodeConnLimited :: string where "CodeConnLimited = ''conn_limited''"
definition CodeRateLimited :: string where "CodeRateLimited = ''rate_limited''"

record AuthFrame =
  af_T :: int
  af_App :: string
  af_Token :: string
  af_Guest :: string
  af_Kind :: string
  af_UA :: string
  af_OS :: string
  af_Mobile :: "bool option"

text \<open>A result is one of the gateway's own codes or the bytes of a business server.\<close>

datatype ws_result = OwnResult string | BizResult string

record rejection =
  rj_closeCode :: int
  rj_result :: ws_result

definition fail :: "int \<Rightarrow> string \<Rightarrow> rejection" where
  "fail closeCode code = \<lparr>rj_closeCode = closeCode, rj_result = OwnResult code\<rparr>"

definition unavailable :: rejection where
  "unavailable = fail CloseUnavailable CodeAuthUnavailable"

text \<open>What comes first: a frame, an error of the read, or the end of the time for it.\<close>

datatype first_read = FirstData string | FirstError | FirstTimeout

datatype frameStatus = frameBad | frameBroken

record 'r ws_env =
  we_hub :: "'r hub_env"
  we_fetch :: "string \<Rightarrow> ('r, AppConfig) access"
  we_onLoad :: "(string \<Rightarrow> 'r \<Rightarrow> 'r) option"
  we_Verify :: "VerifyRequest \<Rightarrow> ('r, Subject) access"
  we_uuid_Parse :: "string \<Rightarrow> nat option"
  we_Handshake :: "string \<Rightarrow> string \<Rightarrow> string \<Rightarrow> ConnMeta \<Rightarrow> Policy \<Rightarrow> int \<Rightarrow> string list \<Rightarrow> ('r, HandshakeResult) io"
  we_Remove :: "string \<Rightarrow> string \<Rightarrow> string \<Rightarrow> ('r, unit) io"
  we_NodeID :: string
  we_LiveNodes :: "'r \<Rightarrow> string list"
  we_NewV7 :: "'r \<Rightarrow> string option \<times> 'r"
  we_now :: "'r \<Rightarrow> int"
  we_AuthFrame :: "string \<Rightarrow> AuthFrame option"
  we_Frame :: "string \<Rightarrow> (int \<times> string) option"
  we_writeResult :: "Conn \<Rightarrow> 'r \<Rightarrow> bool \<times> 'r"
  we_pong :: "Conn \<Rightarrow> 'r \<Rightarrow> 'r"
  we_closure :: "Conn \<Rightarrow> 'r \<Rightarrow> (int \<times> string) option"
  we_wsClose :: "Conn \<Rightarrow> int \<Rightarrow> string \<Rightarrow> 'r \<Rightarrow> 'r"

record 'r gateway =
  gw_hub :: "'r Hub"
  gw_guests :: guestLimiter
  gw_apps :: app_source

definition gw_world :: "('r \<Rightarrow> 'a \<times> 'r) \<Rightarrow> 'r gateway \<Rightarrow> 'a \<times> 'r gateway" where
  "gw_world f g = (case on_world f (gw_hub g) of (x, h) \<Rightarrow> (x, g\<lparr>gw_hub := h\<rparr>))"

section \<open>The address of the client\<close>

fun last_hop :: "string list \<Rightarrow> string" where
  "last_hop [] = []"
| "last_hop (hop # hops) = (let later = last_hop hops in if later \<noteq> [] then later else TrimSpace hop)"

text \<open>\<^verbatim>\<open>strings.Split(s, ",")\<close>\<close>

fun split_commas :: "string \<Rightarrow> string list" where
  "split_commas [] = [[]]"
| "split_commas (c # s) =
     (if c = CHR '','' then [] # split_commas s
      else case split_commas s of [] \<Rightarrow> [[c]] | x # xs \<Rightarrow> (c # x) # xs)"

fun rightmostForwarded :: "string list \<Rightarrow> string" where
  "rightmostForwarded [] = []"
| "rightmostForwarded (v # vs) =
     (let later = rightmostForwarded vs in if later \<noteq> [] then later else last_hop (split_commas v))"

definition ws_clientIP :: "(string \<Rightarrow> string option) \<Rightarrow> bool \<Rightarrow> string list \<Rightarrow> string \<Rightarrow> string" where
  "ws_clientIP splitHost trustProxy forwarded remoteAddr =
     (if trustProxy \<and> rightmostForwarded forwarded \<noteq> [] then rightmostForwarded forwarded
      else case splitHost remoteAddr of None \<Rightarrow> remoteAddr | Some host \<Rightarrow> host)"

section \<open>Admission\<close>

definition readAuthFrame :: "'r ws_env \<Rightarrow> first_read \<Rightarrow> frameStatus + AuthFrame \<times> string" where
  "readAuthFrame E first =
     (case first of
        FirstError \<Rightarrow> Inl frameBroken
      | FirstTimeout \<Rightarrow> Inl frameBad
      | FirstData raw \<Rightarrow>
          (case we_AuthFrame E raw of
             None \<Rightarrow> Inl frameBad
           | Some af \<Rightarrow> if af_T af \<noteq> FrameAuth \<or> af_App af = [] then Inl frameBad else Inr (af, raw)))"

definition resolveSubject ::
  "'r ws_env \<Rightarrow> AuthFrame \<Rightarrow> string \<Rightarrow> AppConfig \<Rightarrow> string \<Rightarrow> 'r gateway \<Rightarrow> (rejection + Subject) \<times> 'r gateway" where
  "resolveSubject E af raw cfg ip g =
     (if af_Token af \<noteq> [] then
        (case gw_world (we_Verify E \<lparr>vq_App = af_App af, vq_Kind = af_Kind af, vq_Token = af_Token af, vq_Raw = raw, vq_IP = ip\<rparr>) g of
           (Inr sub, g1) \<Rightarrow> (Inr sub, g1)
         | (Inl e, g1) \<Rightarrow>
             (Inl (case e of
                AuthRejected code body \<Rightarrow> \<lparr>rj_closeCode = CloseAuthFailed, rj_result = BizResult body\<rparr>
              | AuthUnavailable \<Rightarrow> unavailable
              | _ \<Rightarrow> fail CloseAuthFailed CodeAuthFailed), g1))
      else if af_Guest af \<noteq> [] then
        if \<not> ac_AllowGuest cfg then (Inl (fail CloseAuthFailed CodeAuthFailed), g)
        else if \<not> IsUUIDv4 (we_uuid_Parse E) (af_Guest af) then (Inl (fail CloseAuthFailed CodeAuthFailed), g)
        else (case guest_Allow (af_App af) ip (af_Guest af) (ac_GuestIPRate cfg) (we_now E (hb_world (gw_hub g))) (gw_guests g) of
                (ok, gs) \<Rightarrow>
                  (if \<not> ok then Inl (fail CloseAuthFailed CodeRateLimited) else Inr (Subject_Guest (af_Guest af)),
                   g\<lparr>gw_guests := gs\<rparr>))
      else (Inl (fail CloseAuthFailed CodeBadRequest), g))"

text \<open>The teardown of a connection: the registry, the hub, and the last close of the WebSocket.\<close>

definition teardown :: "'r ws_env \<Rightarrow> string \<Rightarrow> Subject \<Rightarrow> Conn \<Rightarrow> string \<Rightarrow> 'r gateway \<Rightarrow> 'r gateway" where
  "teardown E app sub c reason g =
     (let h1 = snd (on_world (we_Remove E app (Subject_String sub) (cn_ID c)) (gw_hub g));
          h2 = RemoveConn (we_hub E) app sub (cn_ID c) reason h1;
          code = (case we_closure E c (hb_world h2) of Some (code, r) \<Rightarrow> code | None \<Rightarrow> 1000)
      in g\<lparr>gw_hub := touch (we_wsClose E c code reason) h2\<rparr>)"

datatype ws_outcome =
    WsBroken
  | WsRejected rejection
  | WsGone string Subject Conn
  | WsOpen string Subject Conn

definition ws_register ::
  "'r ws_env \<Rightarrow> AuthFrame \<Rightarrow> Subject \<Rightarrow> AppConfig \<Rightarrow> 'r gateway \<Rightarrow> ws_outcome \<times> 'r gateway" where
  "ws_register E af sub cfg g =
     (let (osName, mobile) = (if af_OS af = [] then ParseUA (af_UA af) else (af_OS af, af_Mobile af = Some True))
      in case gw_world (we_NewV7 E) g of
           (None, g1) \<Rightarrow> (WsRejected unavailable, g1)
         | (Some connID, g1) \<Rightarrow>
             (let w = hb_world (gw_hub g1);
                  meta = \<lparr>cm_Node = we_NodeID E, cm_OS = osName, cm_Mobile = mobile, cm_At = Milliseconds (we_now E w)\<rparr>
              in case gw_world (we_Handshake E (af_App af) (Subject_String sub) connID meta (ac_ConnPolicy cfg) (ac_ConnLimit cfg)
                       (we_LiveNodes E w)) g1 of
                   (Inl e, g2) \<Rightarrow> (WsRejected unavailable, g2)
                 | (Inr res, g2) \<Rightarrow>
                     if hr_Rejected res then (WsRejected (fail ClosePolicyRejected CodeConnLimited), g2)
                     else
                       (let c = \<lparr>cn_ID = connID, cn_Token = af_Token af\<rparr>;
                            h3 = Evict (we_hub E) (af_App af) sub (hr_Kicked res) ReasonReplaced (gw_hub g2);
                            h4 = AddConn (we_hub E) (af_App af) sub c meta (af_UA af) h3
                        in case on_world (we_writeResult E c) h4 of
                             (ok, h5) \<Rightarrow>
                               if \<not> ok then (WsGone (af_App af) sub c, teardown E (af_App af) sub c ReasonClient (g2\<lparr>gw_hub := h5\<rparr>))
                               else (WsOpen (af_App af) sub c, g2\<lparr>gw_hub := h5\<rparr>))))"

definition ws_load :: "'r ws_env \<Rightarrow> string \<Rightarrow> 'r gateway \<Rightarrow> auth_err option \<times> 'r gateway" where
  "ws_load E app g =
     (case src_Load (we_fetch E) (we_onLoad E) app (gw_apps g) (hb_world (gw_hub g)) of
        (err, m, r) \<Rightarrow> (err, g\<lparr>gw_apps := m, gw_hub := (gw_hub g)\<lparr>hb_world := r\<rparr>\<rparr>))"

text \<open>\<^verbatim>\<open>ServeHTTP\<close> up to the start of its loops.\<close>

definition ws_admit :: "'r ws_env \<Rightarrow> first_read \<Rightarrow> string \<Rightarrow> 'r gateway \<Rightarrow> ws_outcome \<times> 'r gateway" where
  "ws_admit E first ip g =
     (case readAuthFrame E first of
        Inl frameBroken \<Rightarrow> (WsBroken, g)
      | Inl frameBad \<Rightarrow> (WsRejected (fail CloseAuthFailed CodeBadRequest), g)
      | Inr (af, raw) \<Rightarrow>
          (case ws_load E (af_App af) g of
             (Some e, g1) \<Rightarrow> (WsRejected (fail ClosePolicyRejected CodeAppUnavailable), g1)
           | (None, g1) \<Rightarrow>
               (case src_Get (af_App af) (gw_apps g1) of
                  None \<Rightarrow> (WsRejected (fail ClosePolicyRejected CodeAppUnavailable), g1)
                | Some cfg \<Rightarrow>
                    (let af1 = af\<lparr>af_App := ac_AppID cfg\<rparr>
                     in case resolveSubject E af1 raw cfg ip g1 of
                          (Inl rej, g2) \<Rightarrow> (WsRejected rej, g2)
                        | (Inr sub, g2) \<Rightarrow> ws_register E af1 sub cfg g2))))"

section \<open>The life of a connection\<close>

datatype ws_event = WsFrame string | WsReadError | WsIdle

text \<open>
  \<^verbatim>\<open>readLoop\<close> over what arrives, to the reason of the end; after the last element the read fails, as it does once
  the WebSocket is closed.
\<close>

definition end_reason :: "'r ws_env \<Rightarrow> Conn \<Rightarrow> 'r gateway \<Rightarrow> string" where
  "end_reason E c g = (case we_closure E c (hb_world (gw_hub g)) of Some (code, reason) \<Rightarrow> reason | None \<Rightarrow> ReasonClient)"

fun readLoop :: "'r ws_env \<Rightarrow> string \<Rightarrow> Subject \<Rightarrow> Conn \<Rightarrow> ws_event list \<Rightarrow> 'r gateway \<Rightarrow> string \<times> 'r gateway" where
  "readLoop E app sub c [] g = (end_reason E c g, g)"
| "readLoop E app sub c (WsReadError # evs) g = (end_reason E c g, g)"
| "readLoop E app sub c (WsIdle # evs) g =
     (let g1 = g\<lparr>gw_hub := touch (conn_Close (we_hub E) c CloseIdleTimeout ReasonTimeout) (gw_hub g)\<rparr>
      in (case we_closure E c (hb_world (gw_hub g1)) of Some (code, reason) \<Rightarrow> reason | None \<Rightarrow> [], g1))"
| "readLoop E app sub c (WsFrame raw # evs) g =
     (case we_Frame E raw of
        None \<Rightarrow> readLoop E app sub c evs g
      | Some (t, p) \<Rightarrow>
          if t = FrameMsg then
            if length p = 0 then readLoop E app sub c evs g
            else readLoop E app sub c evs
              (g\<lparr>gw_hub := snd (Deliver (we_hub E) \<lparr>env_Type = TypeUp, env_Hop = 0, env_App = app,
                 env_Subject = Subject_String sub, env_ConnID = cn_ID c, env_Extra = [], env_Route = None, env_Payload = p\<rparr> (gw_hub g))\<rparr>)
          else if t = FramePing then readLoop E app sub c evs (g\<lparr>gw_hub := touch (we_pong E c) (gw_hub g)\<rparr>)
          else readLoop E app sub c evs g)"

definition ServeHTTP :: "'r ws_env \<Rightarrow> first_read \<Rightarrow> string \<Rightarrow> ws_event list \<Rightarrow> 'r gateway \<Rightarrow> ws_outcome \<times> 'r gateway" where
  "ServeHTTP E first ip evs g =
     (case ws_admit E first ip g of
        (WsOpen app sub c, g1) \<Rightarrow>
          (case readLoop E app sub c evs g1 of (reason, g2) \<Rightarrow> (WsOpen app sub c, teardown E app sub c reason g2))
      | (out, g1) \<Rightarrow> (out, g1))"

section \<open>What the steps of admission leave alone\<close>

lemma gw_world_same:
  assumes "gw_world f g = (x, g')"
  shows "same_but_world (gw_hub g) (gw_hub g')" "gw_guests g' = gw_guests g" "gw_apps g' = gw_apps g"
    and "f (hb_world (gw_hub g)) = (x, hb_world (gw_hub g'))"
  using assms by (auto simp: gw_world_def on_world_def same_but_world_def split: prod.splits)

lemma same_closeLocal: "same_but_world h (snd (closeLocal E app subject cid code reason h))"
  by (simp add: closeLocal_def split: option.split)

lemma same_Evict: "same_but_world h (Evict E app sub refs reason h)"
proof (induction refs arbitrary: h)
  case (Cons r refs)
  show ?case
    by (auto intro: same_trans [OF same_closeLocal Cons] same_trans [OF same_on_world_snd Cons])
qed simp

lemma ws_load_same:
  assumes "ws_load E app g = (err, g')"
  shows "same_but_world (gw_hub g) (gw_hub g')" "gw_guests g' = gw_guests g"
  using assms by (auto simp: ws_load_def same_but_world_def split: prod.splits)

lemma resolveSubject_same:
  assumes "resolveSubject E af raw cfg ip g = (x, g')"
  shows "same_but_world (gw_hub g) (gw_hub g')" "gw_apps g' = gw_apps g"
proof -
  obtain y g1 where v: "gw_world (we_Verify E \<lparr>vq_App = af_App af, vq_Kind = af_Kind af, vq_Token = af_Token af, vq_Raw = raw, vq_IP = ip\<rparr>) g
      = (y, g1)" by fastforce
  have "same_but_world (gw_hub g) (gw_hub g') \<and> gw_apps g' = gw_apps g"
  proof (cases "af_Token af \<noteq> []")
    case True
    then have "g' = g1" using assms v by (cases y) (auto simp: resolveSubject_def)
    then show ?thesis using gw_world_same [OF v] by simp
  next
    case False
    then show ?thesis using assms by (auto simp: resolveSubject_def split: if_splits prod.splits)
  qed
  then show "same_but_world (gw_hub g) (gw_hub g')" "gw_apps g' = gw_apps g" by simp_all
qed

text \<open>Who may be who: a token the verifier accepts for the application, or a guest it lets in.\<close>

definition entitled :: "'r ws_env \<Rightarrow> AuthFrame \<Rightarrow> string \<Rightarrow> AppConfig \<Rightarrow> string \<Rightarrow> 'r gateway \<Rightarrow> Subject \<Rightarrow> bool" where
  "entitled E af raw cfg ip g sub =
     (if af_Token af \<noteq> []
      then (case we_Verify E \<lparr>vq_App = ac_AppID cfg, vq_Kind = af_Kind af, vq_Token = af_Token af, vq_Raw = raw, vq_IP = ip\<rparr>
              (hb_world (gw_hub g)) of (Inr s, r) \<Rightarrow> s = sub | (Inl e, r) \<Rightarrow> False)
      else af_Guest af \<noteq> [] \<and> ac_AllowGuest cfg \<and> IsUUIDv4 (we_uuid_Parse E) (af_Guest af) \<and> sub = Subject_Guest (af_Guest af) \<and>
        fst (guest_Allow (ac_AppID cfg) ip (af_Guest af) (ac_GuestIPRate cfg) (we_now E (hb_world (gw_hub g))) (gw_guests g)))"

lemma resolveSubject_Inr:
  assumes "resolveSubject E (af\<lparr>af_App := ac_AppID cfg\<rparr>) raw cfg ip g = (Inr sub, g')"
  shows "entitled E af raw cfg ip g sub"
proof -
  obtain y g1 where v: "gw_world (we_Verify E \<lparr>vq_App = ac_AppID cfg, vq_Kind = af_Kind af, vq_Token = af_Token af, vq_Raw = raw, vq_IP = ip\<rparr>) g
      = (y, g1)" by fastforce
  show ?thesis
  proof (cases "af_Token af \<noteq> []")
    case True
    then have "y = Inr sub" using assms v by (cases y) (auto simp: resolveSubject_def)
    then show ?thesis using gw_world_same(4) [OF v] True by (simp add: entitled_def)
  next
    case False
    then show ?thesis using assms by (auto simp: resolveSubject_def entitled_def split: if_splits prod.splits)
  qed
qed

text \<open>The registry let the connection in, under the policy of the application.\<close>

definition let_in :: "'r ws_env \<Rightarrow> AppConfig \<Rightarrow> Subject \<Rightarrow> Conn \<Rightarrow> bool" where
  "let_in E cfg sub c \<longleftrightarrow> (\<exists>meta r res r'. we_Handshake E (ac_AppID cfg) (Subject_String sub) (cn_ID c) meta (ac_ConnPolicy cfg)
     (ac_ConnLimit cfg) (we_LiveNodes E r) r = (Inr res, r') \<and> \<not> hr_Rejected res \<and> cm_Node meta = we_NodeID E)"

text \<open>
  The tables of a node have a connection: an entry of it under its subject and, if it came with a token, its place among
  the connections of that token, by which a revocation finds it. They are rid of it when neither has its identifier.
\<close>

definition connected :: "string \<Rightarrow> Subject \<Rightarrow> Conn \<Rightarrow> 'r Hub \<Rightarrow> bool" where
  "connected app sub c h \<longleftrightarrow>
     (\<exists>ref < length (hb_entries h). map_of (mget (hub_key app (Subject_String sub)) (hb_conns h)) (cn_ID c) = Some ref \<and>
        en_conn (hb_entries h ! ref) = c) \<and>
     (cn_Token c \<noteq> [] \<longrightarrow> c \<in> set (mget (hub_key app (cn_Token c)) (hb_byToken h)))"

definition rid_of :: "string \<Rightarrow> Subject \<Rightarrow> Conn \<Rightarrow> 'r Hub \<Rightarrow> bool" where
  "rid_of app sub c h \<longleftrightarrow> cn_ID c \<notin> fst ` set (mget (hub_key app (Subject_String sub)) (hb_conns h)) \<and>
     (cn_Token c \<noteq> [] \<longrightarrow> (\<forall>x \<in> set (mget (hub_key app (cn_Token c)) (hb_byToken h)). cn_ID x \<noteq> cn_ID c))"

lemma map_of_replaced:
  "map_of (map (\<lambda>x. if fst x = k then (k, v) else x) m) k' = (if k' = k \<and> k \<in> fst ` set m then Some v else map_of m k')"
proof (induction m)
  case (Cons x m)
  obtain a b where "x = (a, b)" by (cases x)
  with Cons show ?case by (cases "a = k"; cases "k' = k"; cases "k \<in> fst ` set m") simp_all
qed simp

lemma map_of_mput: "map_of (mput k v m) k' = (if k' = k then Some v else map_of m k')"
proof (cases "k \<in> fst ` set m")
  case True
  then show ?thesis unfolding mput_def by (simp only: if_True map_of_replaced) simp
next
  case False
  then show ?thesis by (auto simp: mput_def map_add_def map_of_eq_None_iff [THEN iffD2] split: option.split)
qed

lemma mget_mput: "mget k (mput k' v m) = (if k = k' then v else mget k m)"
  by (simp add: mget_def map_of_mput)

lemma map_of_mdel: "map_of (mdel k m) k' = (if k' = k then None else map_of m k')"
  by (induction m) (auto simp: mdel_def)

lemma mget_mdel: "mget k (mdel k' m) = (if k = k' then [] else mget k m)"
  by (simp add: mget_def map_of_mdel)

lemma same_connected: "same_but_world h h' \<Longrightarrow> connected app sub c h' = connected app sub c h"
  by (auto simp: connected_def same_but_world_def)

lemma same_rid_of: "same_but_world h h' \<Longrightarrow> rid_of app sub c h' = rid_of app sub c h"
  by (auto simp: rid_of_def same_but_world_def)

lemma add_finish_connected: "connected app sub c (add_finish ref ok h) = connected app sub c h"
proof -
  have "en_conn ((hb_entries h)[ref := (hb_entries h ! ref)\<lparr>en_delivered := ok, en_established := True\<rparr>] ! i) = en_conn (hb_entries h ! i)"
    if "i < length (hb_entries h)" for i
    using that by (cases "i = ref") simp_all
  then show ?thesis by (auto simp: connected_def add_finish_def)
qed

lemma add_register_connected:
  assumes "add_register app sub c meta h = (ref, h1)"
  shows "connected app sub c h1"
  using assms by (auto simp: add_register_def connected_def Let_def mget_mput map_of_mput split: if_splits)

lemma AddConn_connected: "connected app sub c (AddConn E app sub c meta ua h)"
proof -
  obtain ref h1 where r: "add_register app sub c meta h = (ref, h1)" by fastforce
  obtain x h2 where e: "add_emit E app sub c meta ua h1 = (x, h2)" by fastforce
  have "connected app sub c h2"
    using same_connected [OF same_emit_offer [OF e [unfolded add_emit_def]]] add_register_connected [OF r] by blast
  then show ?thesis using r e by (cases x) (simp add: AddConn_def add_finish_connected)
qed

text \<open>The three ways \<^verbatim>\<open>ws_register\<close> ends.\<close>

lemma ws_register_WsOpen:
  assumes "ws_register E (af\<lparr>af_App := ac_AppID cfg\<rparr>) sub cfg g = (WsOpen app sub' c, g')"
  shows "app = ac_AppID cfg \<and> sub' = sub \<and> cn_Token c = af_Token af \<and> let_in E cfg sub c \<and> connected app sub c (gw_hub g') \<and>
    gw_apps g' = gw_apps g"
proof -
  obtain os mob where ua: "(if af_OS af = [] then ParseUA (af_UA af) else (af_OS af, af_Mobile af = Some True)) = (os, mob)" by fastforce
  obtain x g1 where n: "gw_world (we_NewV7 E) g = (x, g1)" by fastforce
  then obtain i where i: "x = Some i" using assms ua by (cases x) (simp_all add: ws_register_def)
  let ?w = "hb_world (gw_hub g1)"
  let ?meta = "\<lparr>cm_Node = we_NodeID E, cm_OS = os, cm_Mobile = mob, cm_At = Milliseconds (we_now E ?w)\<rparr>"
  let ?c = "\<lparr>cn_ID = i, cn_Token = af_Token af\<rparr>"
  obtain y g2 where hs: "gw_world (we_Handshake E (ac_AppID cfg) (Subject_String sub) i ?meta (ac_ConnPolicy cfg) (ac_ConnLimit cfg)
      (we_LiveNodes E ?w)) g1 = (y, g2)" by fastforce
  then obtain res where y: "y = Inr res" "\<not> hr_Rejected res"
    using assms ua n i by (cases y) (auto simp: ws_register_def Let_def split: if_splits)
  let ?h4 = "AddConn (we_hub E) (ac_AppID cfg) sub ?c ?meta (af_UA af) (Evict (we_hub E) (ac_AppID cfg) sub (hr_Kicked res) ReasonReplaced (gw_hub g2))"
  obtain ok h5 where wr: "on_world (we_writeResult E ?c) ?h4 = (ok, h5)" by fastforce
  then have out: "app = ac_AppID cfg" "sub' = sub" "c = ?c" "g' = g2\<lparr>gw_hub := h5\<rparr>"
    using assms ua n i hs y by (auto simp: ws_register_def Let_def split: if_splits)
  have "let_in E cfg sub ?c"
    unfolding let_in_def using gw_world_same(4) [OF hs] y
    by (intro exI [of _ ?meta] exI [of _ ?w] exI [of _ res] exI [of _ "hb_world (gw_hub g2)"]) simp
  moreover have "connected (ac_AppID cfg) sub ?c h5" using same_connected [OF same_on_world [OF wr]] AddConn_connected by blast
  moreover have "gw_apps g2 = gw_apps g" using gw_world_same(3) [OF n] gw_world_same(3) [OF hs] by simp
  ultimately show ?thesis using out by simp
qed

lemma ws_register_WsRejected:
  assumes "ws_register E af sub cfg g = (WsRejected rej, g')"
  shows "same_but_world (gw_hub g) (gw_hub g') \<and> rej \<in> {unavailable, fail ClosePolicyRejected CodeConnLimited}"
proof -
  obtain os mob where ua: "(if af_OS af = [] then ParseUA (af_UA af) else (af_OS af, af_Mobile af = Some True)) = (os, mob)" by fastforce
  obtain x g1 where n: "gw_world (we_NewV7 E) g = (x, g1)" by fastforce
  show ?thesis
  proof (cases x)
    case None
    then show ?thesis using assms ua n gw_world_same(1) [OF n] by (simp add: ws_register_def)
  next
    case (Some i)
    let ?w = "hb_world (gw_hub g1)"
    let ?meta = "\<lparr>cm_Node = we_NodeID E, cm_OS = os, cm_Mobile = mob, cm_At = Milliseconds (we_now E ?w)\<rparr>"
    obtain y g2 where hs: "gw_world (we_Handshake E (af_App af) (Subject_String sub) i ?meta (ac_ConnPolicy cfg) (ac_ConnLimit cfg)
        (we_LiveNodes E ?w)) g1 = (y, g2)" by fastforce
    have same: "same_but_world (gw_hub g) (gw_hub g2)" using same_trans [OF gw_world_same(1) [OF n] gw_world_same(1) [OF hs]] .
    show ?thesis
    proof (cases y)
      case (Inl e)
      then show ?thesis using assms ua n Some hs same by (simp add: ws_register_def Let_def)
    next
      case (Inr res)
      then show ?thesis using assms ua n Some hs same by (auto simp: ws_register_def Let_def split: if_splits prod.splits)
    qed
  qed
qed

text \<open>
  C33. A client gets a connection only with a first frame of the right kind that names an application whose settings are
  loaded; under the identifier in those settings, as a subject the verifier confirmed for its token or as a guest where
  guests are allowed and not too many; and only if the registry let it in under the application's policy. The tables of
  this node then have the connection, under its subject and, if it came with a token, under the token by which a
  revocation finds it.
\<close>

theorem connections_are_admitted:
  assumes "ws_admit E first ip g = (WsOpen app sub c, g')"
  shows "\<exists>af raw cfg g1. first = FirstData raw \<and> we_AuthFrame E raw = Some af \<and> af_T af = 1 \<and> af_App af \<noteq> [] \<and>
    src_Get (af_App af) (gw_apps g') = Some cfg \<and> app = ac_AppID cfg \<and> cn_Token c = af_Token af \<and>
    gw_guests g1 = gw_guests g \<and> entitled E af raw cfg ip g1 sub \<and> let_in E cfg sub c \<and> connected app sub c (gw_hub g')"
proof -
  obtain af raw where f: "readAuthFrame E first = Inr (af, raw)"
    using assms by (auto simp: ws_admit_def split: sum.splits frameStatus.splits)
  then have a: "first = FirstData raw" "we_AuthFrame E raw = Some af" "af_T af = 1" "af_App af \<noteq> []"
    by (auto simp: readAuthFrame_def FrameAuth_def split: first_read.splits option.splits if_splits)
  obtain e g1 where l: "ws_load E (af_App af) g = (e, g1)" by fastforce
  then obtain cfg where c: "e = None" "src_Get (af_App af) (gw_apps g1) = Some cfg"
    using assms f by (auto simp: ws_admit_def split: option.splits)
  obtain y g2 where rs: "resolveSubject E (af\<lparr>af_App := ac_AppID cfg\<rparr>) raw cfg ip g1 = (y, g2)" by fastforce
  then obtain s where s: "y = Inr s" using assms f l c by (cases y) (auto simp: ws_admit_def)
  have reg: "ws_register E (af\<lparr>af_App := ac_AppID cfg\<rparr>) s cfg g2 = (WsOpen app sub c, g')"
    using assms f l c rs s by (simp add: ws_admit_def)
  note R = ws_register_WsOpen [OF reg]
  have "src_Get (af_App af) (gw_apps g') = Some cfg" using R resolveSubject_same(2) [OF rs] c(2) by simp
  moreover have "entitled E af raw cfg ip g1 sub" using resolveSubject_Inr rs s R by blast
  ultimately show ?thesis using a R ws_load_same(2) [OF l] by blast
qed

text \<open>
  Whoever is refused leaves no connection behind: the tables of the node are as before. The code of the close says whether
  to log in, to stay away or to try again later; bytes of a business server come only from a refusal by that server.
\<close>

theorem refused_clients_leave_nothing:
  assumes "ws_admit E first ip g = (WsRejected rej, g')"
  shows "same_but_world (gw_hub g) (gw_hub g') \<and> rj_closeCode rej \<in> {CloseAuthFailed, ClosePolicyRejected, CloseUnavailable} \<and>
    (\<forall>body. rj_result rej = BizResult body \<longrightarrow> rj_closeCode rej = CloseAuthFailed \<and>
       (\<exists>req r r' code. we_Verify E req r = (Inl (AuthRejected code body), r')))"
proof (cases "readAuthFrame E first")
  case (Inl st)
  then show ?thesis using assms by (cases st) (auto simp: ws_admit_def fail_def)
next
  case (Inr p)
  obtain af raw where p: "p = (af, raw)" by (cases p)
  obtain e g1 where l: "ws_load E (af_App af) g = (e, g1)" by fastforce
  note s1 = ws_load_same(1) [OF l]
  show ?thesis
  proof (cases "e \<noteq> None \<or> src_Get (af_App af) (gw_apps g1) = None")
    case True
    then show ?thesis using assms Inr p l s1 by (auto simp: ws_admit_def fail_def split: option.splits)
  next
    case False
    then obtain cfg where c: "e = None" "src_Get (af_App af) (gw_apps g1) = Some cfg" by auto
    let ?req = "\<lparr>vq_App = ac_AppID cfg, vq_Kind = af_Kind af, vq_Token = af_Token af, vq_Raw = raw, vq_IP = ip\<rparr>"
    obtain y g2 where rs: "resolveSubject E (af\<lparr>af_App := ac_AppID cfg\<rparr>) raw cfg ip g1 = (y, g2)" by fastforce
    note s2 = same_trans [OF s1 resolveSubject_same(1) [OF rs]]
    show ?thesis
    proof (cases y)
      case (Inr sub)
      then have "ws_register E (af\<lparr>af_App := ac_AppID cfg\<rparr>) sub cfg g2 = (WsRejected rej, g')"
        using assms \<open>readAuthFrame E first = Inr p\<close> p l c rs by (simp add: ws_admit_def)
      from ws_register_WsRejected [OF this] show ?thesis using same_trans [OF s2] by (auto simp: fail_def unavailable_def)
    next
      case (Inl rj)
      then have rj: "rj = rej" "g' = g2" using assms \<open>readAuthFrame E first = Inr p\<close> p l c rs by (auto simp: ws_admit_def)
      obtain v g3 where v: "gw_world (we_Verify E ?req) g1 = (v, g3)" by fastforce
      have "rj_closeCode rej \<in> {CloseAuthFailed, CloseUnavailable} \<and> (\<forall>body. rj_result rej = BizResult body \<longrightarrow>
          rj_closeCode rej = CloseAuthFailed \<and> (\<exists>code. v = Inl (AuthRejected code body)))"
        using rs Inl rj v by (auto simp: resolveSubject_def fail_def unavailable_def split: if_splits prod.splits sum.splits auth_err.splits)
      then show ?thesis using s2 rj gw_world_same(4) [OF v] by blast
    qed
  qed
qed

section \<open>The end of a connection\<close>

lemma admitted_connected:
  assumes "ws_admit E first ip g = (WsOpen app sub c, g')"
  shows "connected app sub c (gw_hub g')"
proof -
  obtain af raw where f: "readAuthFrame E first = Inr (af, raw)"
    using assms by (auto simp: ws_admit_def split: sum.splits frameStatus.splits)
  obtain e g1 where l: "ws_load E (af_App af) g = (e, g1)" by fastforce
  then obtain cfg where c: "e = None" "src_Get (af_App af) (gw_apps g1) = Some cfg"
    using assms f by (auto simp: ws_admit_def split: option.splits)
  obtain y g2 where rs: "resolveSubject E (af\<lparr>af_App := ac_AppID cfg\<rparr>) raw cfg ip g1 = (y, g2)" by fastforce
  then obtain s where s: "y = Inr s" using assms f l c by (cases y) (auto simp: ws_admit_def)
  have "ws_register E (af\<lparr>af_App := ac_AppID cfg\<rparr>) s cfg g2 = (WsOpen app sub c, g')"
    using assms f l c rs s by (simp add: ws_admit_def)
  from ws_register_WsOpen [OF this] show ?thesis by blast
qed

lemma remove_unlink_rids:
  assumes "connected app sub c h"
  shows "rid_of app sub c (snd (remove_unlink app sub (cn_ID c) h))"
proof -
  obtain ref where "map_of (mget (hub_key app (Subject_String sub)) (hb_conns h)) (cn_ID c) = Some ref" "en_conn (hb_entries h ! ref) = c"
    using assms by (auto simp: connected_def)
  then show ?thesis
    by (auto simp: remove_unlink_def rid_of_def Let_def mget_mput mget_mdel) (auto simp: mdel_def)
qed

lemma RemoveConn_rids:
  assumes "connected app sub c h"
  shows "rid_of app sub c (RemoveConn E app sub (cn_ID c) reason h)"
proof -
  obtain x h1 where u: "remove_unlink app sub (cn_ID c) h = (x, h1)" by fastforce
  then have n: "rid_of app sub c h1" using remove_unlink_rids [OF assms] by simp
  show ?thesis
  proof (cases x)
    case None
    then show ?thesis using u n by (simp add: RemoveConn_def)
  next
    case (Some ref)
    have "rid_of app sub c (snd (remove_emit E app sub (cn_ID c) ref reason h1))"
      using n same_rid_of [OF same_remove_emit [OF prod.collapse [symmetric]]] by blast
    then show ?thesis using u n Some by (auto simp: RemoveConn_def remove_done_def rid_of_def)
  qed
qed

lemma teardown_rids:
  assumes "connected app sub c (gw_hub g)"
  shows "rid_of app sub c (gw_hub (teardown E app sub c reason g))"
proof -
  let ?h1 = "snd (on_world (we_Remove E app (Subject_String sub) (cn_ID c)) (gw_hub g))"
  have "connected app sub c ?h1" using assms same_connected [OF same_on_world_snd] by blast
  from RemoveConn_rids [OF this] show ?thesis by (simp add: teardown_def Let_def touch_def rid_of_def)
qed

lemma readLoop_same: "same_but_world (gw_hub g) (gw_hub (snd (readLoop E app sub c evs g)))"
proof (induction E app sub c evs g rule: readLoop.induct)
  case (4 E app sub c raw evs g)
  let ?e = "\<lambda>p. \<lparr>env_Type = TypeUp, env_Hop = 0, env_App = app, env_Subject = Subject_String sub, env_ConnID = cn_ID c, env_Extra = [],
     env_Route = None, env_Payload = p\<rparr>"
  have "same_but_world (gw_hub g) (snd (Deliver (we_hub E) (?e p) (gw_hub g)))" for p
    by (rule same_Deliver [OF prod.collapse [symmetric]])
  then have d: "same_but_world (gw_hub g) (gw_hub (g\<lparr>gw_hub := snd (Deliver (we_hub E) (?e p) (gw_hub g))\<rparr>))" for p by simp
  have p: "same_but_world (gw_hub g) (gw_hub (g\<lparr>gw_hub := touch (we_pong E c) (gw_hub g)\<rparr>))" by simp
  show ?case
  proof (cases "we_Frame E raw")
    case None
    then show ?thesis using "4.IH"(1) by simp
  next
    case (Some tp)
    obtain t q where tp: "tp = (t, q)" by (cases tp)
    note IH = "4.IH"(2-) [OF Some tp [symmetric]]
    show ?thesis
    proof (cases "t = FrameMsg")
      case True
      then show ?thesis using Some tp IH(1) IH(2) [THEN same_trans [OF d]] by (cases "length q = 0") simp_all
    next
      case False
      then show ?thesis using Some tp IH(3) [THEN same_trans [OF p]] IH(4) by (cases "t = FramePing") simp_all
    qed
  qed
qed (simp_all add: Let_def same_touch)

lemma ws_register_WsGone:
  assumes "ws_register E af sub cfg g = (WsGone app sub' c, g')"
  shows "rid_of app sub' c (gw_hub g')"
proof -
  obtain os mob where ua: "(if af_OS af = [] then ParseUA (af_UA af) else (af_OS af, af_Mobile af = Some True)) = (os, mob)" by fastforce
  obtain x g1 where n: "gw_world (we_NewV7 E) g = (x, g1)" by fastforce
  then obtain i where i: "x = Some i" using assms ua by (cases x) (simp_all add: ws_register_def)
  let ?w = "hb_world (gw_hub g1)"
  let ?meta = "\<lparr>cm_Node = we_NodeID E, cm_OS = os, cm_Mobile = mob, cm_At = Milliseconds (we_now E ?w)\<rparr>"
  obtain y g2 where hs: "gw_world (we_Handshake E (af_App af) (Subject_String sub) i ?meta (ac_ConnPolicy cfg) (ac_ConnLimit cfg)
      (we_LiveNodes E ?w)) g1 = (y, g2)" by fastforce
  then obtain res where y: "y = Inr res" "\<not> hr_Rejected res"
    using assms ua n i by (cases y) (auto simp: ws_register_def Let_def split: if_splits)
  let ?c = "\<lparr>cn_ID = i, cn_Token = af_Token af\<rparr>"
  let ?h4 = "AddConn (we_hub E) (af_App af) sub ?c ?meta (af_UA af) (Evict (we_hub E) (af_App af) sub (hr_Kicked res) ReasonReplaced (gw_hub g2))"
  obtain ok h5 where wr: "on_world (we_writeResult E ?c) ?h4 = (ok, h5)" by fastforce
  have "connected (af_App af) sub ?c h5" using same_connected [OF same_on_world [OF wr]] AddConn_connected by blast
  moreover have "app = af_App af \<and> sub' = sub \<and> c = ?c \<and> g' = teardown E (af_App af) sub ?c ReasonClient (g2\<lparr>gw_hub := h5\<rparr>)"
    using assms ua n i hs y wr by (simp add: ws_register_def Let_def split: if_splits)
  ultimately show ?thesis using teardown_rids [of app sub' c "g2\<lparr>gw_hub := h5\<rparr>"] by simp
qed

section \<open>An executable gateway\<close>

text \<open>
  The world is a clock that gives the identifiers, the closed connections, and the connections the registry has. One
  connection per application is let in, the token is the user.
\<close>

type_synonym demo_world = "int \<times> (string \<times> int \<times> string) list \<times> string list"

definition demo_close :: "Conn \<Rightarrow> int \<Rightarrow> string \<Rightarrow> demo_world \<Rightarrow> demo_world" where
  "demo_close c code reason w = (case w of (n, cl, reg) \<Rightarrow> if cn_ID c \<in> fst ` set cl then w else (n, (cn_ID c, code, reason) # cl, reg))"

definition demo_ws_hub :: "demo_world hub_env" where
  "demo_ws_hub = \<lparr>conn_Send = (\<lambda>c p w. (True, w)), conn_Close = demo_close, stream_Send = (\<lambda>s r. ret ()), he_Publish = (\<lambda>t e. ret 0),
     he_LookupMany = (\<lambda>a s l. ret []), he_KickAll = (\<lambda>a s. ret []), he_KickOne = (\<lambda>a s c. ret None), he_LiveNodes = (\<lambda>w. []),
     he_ServerNodes = (\<lambda>a w. []), he_TrackApp = (\<lambda>a w. w), he_SetServing = (\<lambda>a b w. w), he_DropLocal = (\<lambda>n w. w),
     he_apps = (\<lambda>a w. None), he_nowMs = fst, he_Marshal = eb_Kind, he_Unmarshal = (\<lambda>s. None)\<rparr>"

definition demo_frame :: "string \<Rightarrow> string \<Rightarrow> AuthFrame" where
  "demo_frame token guest = \<lparr>af_T = 1, af_App = ''shop'', af_Token = token, af_Guest = guest, af_Kind = [], af_UA = ''Android'', af_OS = [], af_Mobile = None\<rparr>"

definition demo_ws :: "demo_world ws_env" where
  "demo_ws = \<lparr>we_hub = demo_ws_hub, we_fetch = (\<lambda>a w. (if a = ''shop'' then Inr (demo_cfg 1) else Inl AuthUnauthorized, w)),
     we_onLoad = None, we_Verify = (\<lambda>q w. (if vq_Token q = ''bad'' then Inl (AuthRejected ''banned'' ''no'') else Inr (Subject_User (vq_Token q)), w)),
     we_uuid_Parse = (\<lambda>s. None),
     we_Handshake = (\<lambda>a s c m p n live (t, cl, reg). (Inr \<lparr>hr_Rejected = reg \<noteq> [], hr_Kicked = []\<rparr>, (t, cl, if reg = [] then [c] else reg))),
     we_Remove = (\<lambda>a s c (t, cl, reg). (Inr (), (t, cl, removeAll c reg))),
     we_NodeID = ''n1'', we_LiveNodes = (\<lambda>w. []), we_NewV7 = (\<lambda>(t, w). (Some (replicate (nat t) (CHR ''c'')), (t + 1, w))),
     we_now = fst, we_AuthFrame = (\<lambda>s. if s = [] then None else Some (demo_frame s [])), we_Frame = (\<lambda>s. Some (3, s)),
     we_writeResult = (\<lambda>c w. (True, w)), we_pong = (\<lambda>c w. w), we_closure = (\<lambda>c (t, cl, reg). map_of cl (cn_ID c)),
     we_wsClose = (\<lambda>c code reason w. w)\<rparr>"

definition empty_gateway :: "demo_world gateway" where
  "empty_gateway = \<lparr>gw_hub = hub_New ''n1'' (1, [], []), gw_guests = [], gw_apps = []\<rparr>"

theorem connections_are_admitted_witness:
  "case ws_admit demo_ws (FirstData ''u1'') ''9.9.9.9'' empty_gateway of (out, g) \<Rightarrow>
     out = WsOpen ''A'' (Subject_User ''u1'') \<lparr>cn_ID = ''c'', cn_Token = ''u1''\<rparr> \<and>
     let_in demo_ws (demo_cfg 1) (Subject_User ''u1'') \<lparr>cn_ID = ''c'', cn_Token = ''u1''\<rparr> \<and>
     connected ''A'' (Subject_User ''u1'') \<lparr>cn_ID = ''c'', cn_Token = ''u1''\<rparr> (gw_hub g) \<and>
     fst (ws_admit demo_ws (FirstData ''u2'') ''9.9.9.9'' g) = WsRejected (fail ClosePolicyRejected CodeConnLimited) \<and>
     fst (ws_admit demo_ws (FirstData ''bad'') ''9.9.9.9'' g) = WsRejected \<lparr>rj_closeCode = CloseAuthFailed, rj_result = BizResult ''no''\<rparr>"
proof -
  obtain out g where a: "ws_admit demo_ws (FirstData ''u1'') ''9.9.9.9'' empty_gateway = (out, g)" by fastforce
  have o: "fst (ws_admit demo_ws (FirstData ''u1'') ''9.9.9.9'' empty_gateway) = WsOpen ''A'' (Subject_User ''u1'') \<lparr>cn_ID = ''c'', cn_Token = ''u1''\<rparr>"
    "src_Get ''shop'' (gw_apps (snd (ws_admit demo_ws (FirstData ''u1'') ''9.9.9.9'' empty_gateway))) = Some (demo_cfg 1)"
    "fst (ws_admit demo_ws (FirstData ''u2'') ''9.9.9.9'' (snd (ws_admit demo_ws (FirstData ''u1'') ''9.9.9.9'' empty_gateway))) =
      WsRejected (fail ClosePolicyRejected CodeConnLimited)"
    "fst (ws_admit demo_ws (FirstData ''bad'') ''9.9.9.9'' (snd (ws_admit demo_ws (FirstData ''u1'') ''9.9.9.9'' empty_gateway))) =
      WsRejected \<lparr>rj_closeCode = CloseAuthFailed, rj_result = BizResult ''no''\<rparr>"
    by code_simp+
  then have out: "out = WsOpen ''A'' (Subject_User ''u1'') \<lparr>cn_ID = ''c'', cn_Token = ''u1''\<rparr>" using a by simp
  obtain af cfg where w: "we_AuthFrame demo_ws ''u1'' = Some af" "src_Get (af_App af) (gw_apps g) = Some cfg"
    "let_in demo_ws cfg (Subject_User ''u1'') \<lparr>cn_ID = ''c'', cn_Token = ''u1''\<rparr>"
    "connected ''A'' (Subject_User ''u1'') \<lparr>cn_ID = ''c'', cn_Token = ''u1''\<rparr> (gw_hub g)"
    using connections_are_admitted [OF a [unfolded out]] by auto
  have "af_App af = ''shop''" using w(1) by (auto simp: demo_ws_def demo_frame_def)
  then have "cfg = demo_cfg 1" using w(2) o(2) a by simp
  then show ?thesis using a out w(3,4) o(3,4) by simp
qed

text \<open>
  C34. Whatever a client sends and however its connection ends, closed by the hub, by the client, by the idle timer or by
  a failed write, afterwards the tables of the node are rid of it: its subject has no entry with its identifier, its token
  no connection with it. A client that was refused or never sent a frame leaves the tables as they were.
\<close>

theorem served_connections_are_gone:
  assumes "ServeHTTP E first ip evs g = (out, g')"
  shows "case out of
      WsOpen app sub c \<Rightarrow> rid_of app sub c (gw_hub g')
    | WsGone app sub c \<Rightarrow> rid_of app sub c (gw_hub g')
    | _ \<Rightarrow> same_but_world (gw_hub g) (gw_hub g')"
proof -
  obtain out1 g1 where a: "ws_admit E first ip g = (out1, g1)" by fastforce
  show ?thesis
  proof (cases out1)
    case WsBroken
    then have "g1 = g"
      using a by (auto simp: ws_admit_def ws_register_def Let_def split: sum.splits frameStatus.splits prod.splits option.splits if_splits)
    then show ?thesis using assms a WsBroken by (simp add: ServeHTTP_def)
  next
    case (WsRejected rej)
    then show ?thesis using assms a refused_clients_leave_nothing by (fastforce simp: ServeHTTP_def)
  next
    case (WsGone app sub c)
    obtain af sub0 cfg g2 where "ws_register E af sub0 cfg g2 = (WsGone app sub c, g1)"
      using a WsGone by (auto simp: ws_admit_def Let_def split: sum.splits frameStatus.splits prod.splits option.splits)
    from ws_register_WsGone [OF this] show ?thesis using assms a WsGone by (auto simp: ServeHTTP_def)
  next
    case (WsOpen app sub c)
    obtain reason g2 where r: "readLoop E app sub c evs g1 = (reason, g2)" by fastforce
    have "connected app sub c (gw_hub g1)" by (rule admitted_connected [OF a [unfolded WsOpen]])
    then have "connected app sub c (gw_hub g2)" using same_connected readLoop_same [of g1 E app sub c evs] r by (metis snd_conv)
    then show ?thesis using assms a WsOpen r teardown_rids by (auto simp: ServeHTTP_def)
  qed
qed

theorem served_connections_are_gone_witness:
  "case ServeHTTP demo_ws (FirstData ''u1'') ''9.9.9.9'' [WsFrame ''hi'', WsIdle] empty_gateway of (out, g) \<Rightarrow>
     out = WsOpen ''A'' (Subject_User ''u1'') \<lparr>cn_ID = ''c'', cn_Token = ''u1''\<rparr> \<and>
     rid_of ''A'' (Subject_User ''u1'') \<lparr>cn_ID = ''c'', cn_Token = ''u1''\<rparr> (gw_hub g) \<and>
     hb_world (gw_hub g) = (2, [(''c'', CloseIdleTimeout, ReasonTimeout)], [])"
proof -
  obtain out g where a: "ServeHTTP demo_ws (FirstData ''u1'') ''9.9.9.9'' [WsFrame ''hi'', WsIdle] empty_gateway = (out, g)" by fastforce
  have o: "fst (ServeHTTP demo_ws (FirstData ''u1'') ''9.9.9.9'' [WsFrame ''hi'', WsIdle] empty_gateway) =
      WsOpen ''A'' (Subject_User ''u1'') \<lparr>cn_ID = ''c'', cn_Token = ''u1''\<rparr>"
    "hb_world (gw_hub (snd (ServeHTTP demo_ws (FirstData ''u1'') ''9.9.9.9'' [WsFrame ''hi'', WsIdle] empty_gateway))) =
      (2, [(''c'', CloseIdleTimeout, ReasonTimeout)], [])"
    by code_simp+
  then show ?thesis using a served_connections_are_gone [OF a] by simp
qed

section \<open>Addresses behind proxies\<close>

lemma split_commas_append: "CHR '','' \<notin> set b \<Longrightarrow> split_commas (a @ CHR '','' # b) = split_commas a @ [b]"
proof (induction a)
  case Nil
  have "split_commas b = [b]" using Nil by (induction b) auto
  then show ?case by simp
next
  case (Cons c a)
  have "split_commas s \<noteq> []" for s by (induction s) (auto split: list.splits)
  then show ?case using Cons by (auto split: list.splits)
qed

lemma last_hop_append: "last_hop (xs @ [x]) = (if TrimSpace x \<noteq> [] then TrimSpace x else last_hop xs)"
  by (induction xs) (auto simp: Let_def)

lemma rightmost_append: "rightmostForwarded (vs @ [v]) = (if last_hop (split_commas v) \<noteq> [] then last_hop (split_commas v) else rightmostForwarded vs)"
  by (induction vs) (auto simp: Let_def)

text \<open>
  What a client writes into the header does not choose the address it is limited by: the proxy in front appends the
  address it saw, and that is the one taken, whatever stands before it.
\<close>

lemma client_cannot_choose_its_address:
  assumes "CHR '','' \<notin> set hop" and "TrimSpace hop \<noteq> []"
  shows "ws_clientIP splitHost True (vs @ [forged @ CHR '','' # hop]) remote = TrimSpace hop"
  using assms by (simp add: ws_clientIP_def rightmost_append split_commas_append last_hop_append)

section \<open>Where the steps leave a gap\<close>

text \<open>
  A revocation that arrives after the token was verified and before the connection is in the tables closes nothing, and
  registering does not look at it again.
\<close>

lemma revocation_before_registration_is_missed:
  assumes "mget (hub_key app t) (hb_byToken h) = []"
  shows "OnRevoked E app [t] h = h"
    and "connected app sub \<lparr>cn_ID = i, cn_Token = t\<rparr> (AddConn E app sub \<lparr>cn_ID = i, cn_Token = t\<rparr> meta ua (OnRevoked E app [t] h))"
  using assms AddConn_connected by (simp_all add: OnRevoked_def)

text \<open>
  When the settings cannot be loaded because the server cannot be reached, the client is told that the policy forbids the
  connection and that it should not come back, not that it should try again later.
\<close>

lemma outage_is_reported_as_policy:
  assumes "we_AuthFrame E raw = Some af" and "af_T af = FrameAuth" and "af_App af \<noteq> []"
    and "src_Get (af_App af) (gw_apps g) = None" and "we_fetch E (af_App af) (hb_world (gw_hub g)) = (Inl AuthUnavailable, r)"
  shows "fst (ws_admit E (FirstData raw) ip g) = WsRejected (fail ClosePolicyRejected CodeAppUnavailable)"
  using assms by (simp add: ws_admit_def readAuthFrame_def ws_load_def src_Load_def src_Get_def)

end
