(* ===== verification/Im_Server.thy ===== *)
theory Im_Server
  imports Im_Access Confirmed_Cache Im_Hub_Properties
begin

text \<open>
  The side of the gateway that faces the servers of the applications (\<^verbatim>\<open>internal/im/imgrpc\<close>): the credentials a
  server connects with and their cache (\<^verbatim>\<open>appauth.go\<close>), and the requests on its stream (\<^verbatim>\<open>stream.go\<close>). The hash
  SHA-256, in hexadecimal, is the parameter \<^verbatim>\<open>H\<close>; instants are milliseconds.
\<close>

section \<open>Credentials (\<^verbatim>\<open>appauth.go\<close>)\<close>

definition DefaultCredCacheTTL :: int where "DefaultCredCacheTTL = 5 * 60 * ns_per_s"

definition maxCredCacheEntries :: nat where "maxCredCacheEntries = 256"

record credCache =
  cc_ttl :: int
  cc_cache :: "(string \<times> string \<times> int) list"

definition newCredCache :: "int \<Rightarrow> credCache" where
  "newCredCache ttl = \<lparr>cc_ttl = (if ttl \<le> 0 then DefaultCredCacheTTL else ttl), cc_cache = []\<rparr>"

definition credCacheKey :: "(string \<Rightarrow> string) \<Rightarrow> string \<Rightarrow> string \<Rightarrow> string" where
  "credCacheKey H app secret = app @ '':'' @ H secret"

text \<open>An error is a status of its own or what the verifier says.\<close>

datatype cred_err = CredStatus grpc_code | CredAuth auth_err

definition cred_verify ::
  "(string \<Rightarrow> string) \<Rightarrow> (string \<Rightarrow> string \<Rightarrow> ('r, string) access) \<Rightarrow> string \<Rightarrow> string \<Rightarrow> int \<Rightarrow> credCache \<Rightarrow> 'r \<Rightarrow>
     (cred_err + string) \<times> credCache \<times> 'r" where
  "cred_verify H V app secret now c r =
     (if app = [] \<or> secret = [] then (Inl (CredStatus Unauthenticated), c, r)
      else
        let key = credCacheKey H app secret
        in case live_lookup key now (cc_cache c) of
             Some i \<Rightarrow> (Inr i, c, r)
           | None \<Rightarrow>
               (case V app secret r of
                  (Inl e, r') \<Rightarrow> (Inl (CredAuth e), c, r')
                | (Inr i, r') \<Rightarrow>
                    (Inr i, c\<lparr>cc_cache := swept_store maxCredCacheEntries key i (now + Milliseconds (cc_ttl c)) now (cc_cache c)\<rparr>, r')))"

text \<open>What a stream is opened with: the application it is scoped to, or the status it is refused with.\<close>

definition streamAuth ::
  "(string \<Rightarrow> string) \<Rightarrow> (string \<Rightarrow> string \<Rightarrow> ('r, string) access) \<Rightarrow> metadata option \<Rightarrow> int \<Rightarrow> credCache \<Rightarrow> 'r \<Rightarrow>
     (grpc_code + string) \<times> credCache \<times> 'r" where
  "streamAuth H V md now c r =
     (let m = (case md of None \<Rightarrow> (\<lambda>k. []) | Some m \<Rightarrow> m)
      in case cred_verify H V (md_first m mdAppID) (md_first m mdAppSecret) now c r of
           (Inl e, c', r') \<Rightarrow> (Inl (if e = CredAuth AuthIMNotEnabled then FailedPrecondition else Unauthenticated), c', r')
         | (Inr i, c', r') \<Rightarrow> (Inr i, c', r'))"

section \<open>Streams are opened for verified applications only\<close>

text \<open>The verifier is the server behind \<^verbatim>\<open>fpauth\<close>, whose database is the world.\<close>

definition fp_credentials :: "app_env \<Rightarrow> string \<Rightarrow> string \<Rightarrow> (app_db, string) access" where
  "fp_credentials E = VerifyAppCredential (\<lambda>app secret w. srv_VerifyAppCredential E \<lparr>call_appID = app, call_type = CallerTypeIM\<rparr> secret w)"

definition open_stream :: "app_env \<Rightarrow> (string \<Rightarrow> string) \<Rightarrow> grpc_call \<Rightarrow> credCache \<Rightarrow> (grpc_code + string) \<times> credCache" where
  "open_stream E H q c = (case q of (md, now, w) \<Rightarrow> case streamAuth H (fp_credentials E) md now c w of (x, c', w') \<Rightarrow> (x, c'))"

definition stream_names :: "grpc_call \<Rightarrow> string \<times> string" where
  "stream_names q = (let m = (case fst q of None \<Rightarrow> (\<lambda>k. []) | Some m \<Rightarrow> m) in (md_first m mdAppID, md_first m mdAppSecret))"

definition stream_question :: "app_env \<Rightarrow> (string \<Rightarrow> string) \<Rightarrow> int \<Rightarrow> grpc_call \<Rightarrow> (string, auth_err, string, unit) question list" where
  "stream_question E H ttl q =
     (case stream_names q of (app, secret) \<Rightarrow>
        if app = [] \<or> secret = [] then []
        else [(credCacheKey H app secret, fst (snd q), case fst (fp_credentials E app secret (snd (snd q))) of
           Inl e \<Rightarrow> Inl e | Inr i \<Rightarrow> Inr (i, Some (fst (snd q) + Milliseconds ttl, ())))])"

abbreviation "ask_cred \<equiv> ask live_lookup (\<lambda>k s. s) (\<lambda>u. swept_store maxCredCacheEntries)"

lemma open_stream_asks:
  "cc_cache (snd (open_stream E H q c)) = asked ask_cred (stream_question E H (cc_ttl c) q) (cc_cache c)"
  "cc_ttl (snd (open_stream E H q c)) = cc_ttl c"
  "fst (open_stream E H q c) = Inr app \<longleftrightarrow> (\<exists>x. stream_question E H (cc_ttl c) q = [x] \<and> fst (ask_cred x (cc_cache c)) = Inr app)"
  by (cases q; auto simp: open_stream_def streamAuth_def stream_question_def stream_names_def cred_verify_def ask_def Let_def
      split: option.splits prod.splits sum.splits)+

lemma open_streams_ask:
  "cc_cache (asked (open_stream E H) qs c) = asked ask_cred (concat (map (stream_question E H (cc_ttl c)) qs)) (cc_cache c) \<and>
   cc_ttl (asked (open_stream E H) qs c) = cc_ttl c"
  by (induction qs arbitrary: c) (simp_all add: asked_append open_stream_asks(1,2))

text \<open>The database has an application of this name, with this secret, that is active and takes part in messaging.\<close>

definition credential_ok :: "app_env \<Rightarrow> string \<Rightarrow> string \<Rightarrow> app_db \<Rightarrow> string \<Rightarrow> bool" where
  "credential_ok E x secret w app \<longleftrightarrow> (\<exists>r r'. appByExternalID x (db_apps w) = Some r \<and> ae_bcryptMatches E (row_hash r) secret \<and>
     r' \<in> set (db_apps w) \<and> app_ID (row_app r') = app_ID (row_app r) \<and> app_Status (row_app r') = ApplicationStatusActive \<and>
     im_Enabled (app_IM (row_app r')) \<and> app = cmp_Or (app_AppID (row_app r')) x)"

lemma VerifySecret_Inr:
  assumes "VerifySecret E x secret w = (Inr a, w')"
  shows "\<exists>r r'. appByExternalID x (db_apps w) = Some r \<and> ae_bcryptMatches E (row_hash r) secret \<and> r' \<in> set (db_apps w) \<and>
    app_ID (row_app r') = app_ID (row_app r) \<and> a = row_app r'"
proof (cases "appByExternalID x (db_apps w)")
  case None
  then show ?thesis using assms by (auto simp: VerifySecret_def bindE_def stmt_def throw_def split: list.splits if_splits)
next
  case (Some r)
  have m: "ae_bcryptMatches E (row_hash r) secret"
    using assms Some by (auto simp: VerifySecret_def bindE_def stmt_def throw_def split: list.splits if_splits)
  have "\<exists>r'. find (\<lambda>q. app_ID (row_app q) = app_ID (row_app r)) (db_apps w) = Some r' \<and> a = row_app r'"
    using assms Some m
    by (auto simp: VerifySecret_def app_GetByID_def found_app_def bindE_def stmt_def throw_def ret_def
        split: list.splits if_splits option.splits)
  then obtain r' where f: "find (\<lambda>q. app_ID (row_app q) = app_ID (row_app r)) (db_apps w) = Some r'" "a = row_app r'"
    by blast
  from f(1) have "r' \<in> set (db_apps w)" "app_ID (row_app r') = app_ID (row_app r)"
    by (auto simp: find_Some_iff)
  then show ?thesis using Some m f(2) by blast
qed

lemma fp_credentials_Inr:
  assumes "fst (fp_credentials E x secret w) = Inr app"
  shows "credential_ok E x secret w app"
proof -
  let ?c = "\<lparr>call_appID = x, call_type = CallerTypeIM\<rparr>"
  obtain y w1 where s: "srv_VerifyAppCredential E ?c secret w = (y, w1)" by fastforce
  then obtain i where i: "y = Inr i" "app = cmp_Or i x"
    using assms by (cases y) (auto simp: fp_credentials_def VerifyAppCredential_def gw_VerifyAppCredential_def)
  obtain z w2 where v: "VerifySecret E x secret w = (z, w2)" by fastforce
  then obtain a where a: "z = Inr a" "app_Status a = ApplicationStatusActive" "im_Enabled (app_IM a)" "i = app_AppID a"
    using s i by (cases z) (auto simp: srv_VerifyAppCredential_def requireIM_def split: if_splits)
  show ?thesis using VerifySecret_Inr [OF v [unfolded a(1)]] a i(2) by (auto simp: credential_ok_def)
qed

lemma cred_key_inj: "length (H s) = length (H s') \<Longrightarrow> credCacheKey H a s = credCacheKey H a' s' \<longleftrightarrow> a = a' \<and> H s = H s'"
  by (auto simp: credCacheKey_def append_eq_append_conv)

text \<open>
  C35. A server gets a stream for an application only with a name and a secret the database of the platform matched, for
  an active application with messaging switched on, now or less than the time to live of the cache ago under the same
  name and a secret of the same hash; the stream is scoped to the identifier of that very application.
\<close>

theorem streams_are_for_verified_applications:
  assumes hash: "\<And>s. length (H s) = 64"
    and ok: "fst (open_stream E H q (asked (open_stream E H) qs (newCredCache ttl))) = Inr app"
  shows "\<exists>p \<in> set (q # qs). fst (stream_names p) = fst (stream_names q) \<and> H (snd (stream_names p)) = H (snd (stream_names q)) \<and>
    credential_ok E (fst (stream_names p)) (snd (stream_names p)) (snd (snd p)) app \<and>
    (p = q \<or> fst (snd q) < fst (snd p) + Milliseconds (cc_ttl (newCredCache ttl)))"
proof -
  let ?c = "asked (open_stream E H) qs (newCredCache ttl)"
  let ?ttl = "cc_ttl (newCredCache ttl)"
  let ?qs = "concat (map (stream_question E H ?ttl) qs)"
  have c: "cc_cache ?c = asked ask_cred ?qs []" "cc_ttl ?c = ?ttl"
    using open_streams_ask [of E H qs "newCredCache ttl"] by (simp_all add: newCredCache_def)
  obtain x s where n: "stream_names q = (x, s)" by fastforce
  obtain k now ans where u: "stream_question E H ?ttl q = [(k, now, ans)]" "fst (ask_cred (k, now, ans) (asked ask_cred ?qs [])) = Inr app"
    using ok unfolding open_stream_asks(3) c by (metis prod_cases3)
  then have k: "k = credCacheKey H x s" "now = fst (snd q)" using n by (auto simp: stream_question_def split: if_splits)
  from map_cache.answers_confirmed [OF u(2)]
  consider m where "ans = Inr (app, m)" | t e p where "p \<in> set qs" "(k, t, Inr (app, Some (e, ()))) \<in> set (stream_question E H ?ttl p)" "now < e"
    by auto
  then show ?thesis
  proof cases
    case 1
    then have "fst (fp_credentials E x s (snd (snd q))) = Inr app"
      using u(1) n by (auto simp: stream_question_def split: if_splits sum.splits)
    then have "credential_ok E x s (snd (snd q)) app" by (rule fp_credentials_Inr)
    then show ?thesis using n by simp
  next
    case 2
    obtain x' s' where n': "stream_names p = (x', s')" by fastforce
    have p: "k = credCacheKey H x' s'" "e = fst (snd p) + Milliseconds ?ttl" "fst (fp_credentials E x' s' (snd (snd p))) = Inr app"
      using 2(2) n' by (auto simp: stream_question_def split: if_splits sum.splits)
    have "x' = x" "H s' = H s" using p(1) k(1) cred_key_inj [of H s' s x' x] hash by auto
    then show ?thesis using n n' 2(1,3) p(2) k(2) fp_credentials_Inr [OF p(3)] by (intro bexI [of _ p]) auto
  qed
qed

text \<open>The second stream is opened from the cache while the database is gone.\<close>

theorem streams_are_for_verified_applications_witness:
  "(let q = (Some (creds ''shop'' ''secret'' []), 0, chat_apps); p = (Some (creds ''shop'' ''secret'' []), 1000, no_apps);
        c = asked (open_stream demo_apps demo_hash) [q] (newCredCache 0)
    in fst (open_stream demo_apps demo_hash p c) = Inr (demo_id 0) \<and>
       list_ex (\<lambda>p. credential_ok demo_apps ''shop'' ''secret'' (snd (snd p)) (demo_id 0)) [p, q] \<and>
       fst (open_stream demo_apps demo_hash (Some (creds ''blog'' ''secret'' []), 0, chat_apps) c) = Inl FailedPrecondition \<and>
       fst (open_stream demo_apps demo_hash (Some (creds ''shop'' ''guess'' []), 0, chat_apps) c) = Inl Unauthenticated)"
proof -
  let ?q = "(Some (creds ''shop'' ''secret'' []), 0, chat_apps)"
  let ?p = "(Some (creds ''shop'' ''secret'' []), 1000, no_apps)"
  let ?c = "asked (open_stream demo_apps demo_hash) [?q] (newCredCache 0)"
  have h: "length (demo_hash s) = 64" for s by (simp add: demo_hash_def)
  have a: "fst (open_stream demo_apps demo_hash ?p ?c) = Inr (demo_id 0)"
    "fst (open_stream demo_apps demo_hash (Some (creds ''blog'' ''secret'' []), 0, chat_apps) ?c) = Inl FailedPrecondition"
    "fst (open_stream demo_apps demo_hash (Some (creds ''shop'' ''guess'' []), 0, chat_apps) ?c) = Inl Unauthenticated" by code_simp+
  have n: "stream_names ?q = (''shop'', ''secret'')" "stream_names ?p = (''shop'', ''secret'')" by code_simp+
  from streams_are_for_verified_applications [OF h a(1)] a n show ?thesis by (auto simp: Let_def simp del: asked.simps)
qed

end
