(* ===== verification/Im_Stream.thy ===== *)
theory Im_Stream
  imports Im_Server Im_Ws
begin

text \<open>
  The stream of a server of an application (\<^verbatim>\<open>internal/im/imgrpc/stream.go\<close>, \<^verbatim>\<open>Connect\<close> of
  \<^verbatim>\<open>server.go\<close>): how one request is carried out, and the goroutines of the stream, which take requests as they come,
  work on a bounded number of them at once and answer in any order, as a step relation.
\<close>

section \<open>One request (\<^verbatim>\<open>handle\<close>)\<close>

definition maxSessionsMany :: nat where "maxSessionsMany = 1000"

datatype request_body =
    ReqPush string string
  | ReqPushMany "string list" string
  | ReqKick string "string list"
  | ReqSessions string
  | ReqSessionsMany "string list"
  | ReqPing
  | ReqUnknown

record stream_request =
  rq_ReqId :: string
  rq_Body :: request_body

datatype proto_status = PUSH_STATUS_SENT | PUSH_STATUS_NOT_ONLINE | PUSH_STATUS_UNAVAILABLE

record proto_push =
  pp_Subject :: string
  pp_Status :: proto_status
  pp_Nodes :: int

text \<open>The text of an error is what it stands for: an error of the hub or a limit, or a body that is not known.\<close>

datatype handle_err = HandleErr goerr | TooManySubjects | UnknownRequest

record stream_result =
  rs_ReqId :: string
  rs_Error :: "handle_err option"
  rs_Pushes :: "proto_push list"
  rs_Sessions :: "Im_Hub.Session list"
  rs_SessionsMany :: "(string \<times> Im_Hub.Session list) list"

definition proto_status_of :: "PushStatus \<Rightarrow> proto_status" where
  "proto_status_of s =
     (case s of
        PushSent \<Rightarrow> PUSH_STATUS_SENT
      | PushNotOnline \<Rightarrow> PUSH_STATUS_NOT_ONLINE
      | PushUnavailable \<Rightarrow> PUSH_STATUS_UNAVAILABLE)"

definition toProto :: "PushResult \<Rightarrow> proto_push" where
  "toProto r = \<lparr>pp_Subject = pr_Subject r, pp_Status = proto_status_of (pr_Status r), pp_Nodes = sint (word_of_nat (pr_Nodes r) :: 32 word)\<rparr>"

fun parse_subjects :: "(string \<Rightarrow> nat option) \<Rightarrow> string list \<Rightarrow> goerr + Subject list" where
  "parse_subjects U [] = Inr []"
| "parse_subjects U (s # ss) =
     (case ParseSubject U s of
        Inl e \<Rightarrow> Inl e
      | Inr sub \<Rightarrow> (case parse_subjects U ss of Inl e \<Rightarrow> Inl e | Inr subs \<Rightarrow> Inr (sub # subs)))"

definition hub_Sessions :: "'r hub_env \<Rightarrow> string \<Rightarrow> Subject \<Rightarrow> 'r Hub \<Rightarrow> (goerr + Im_Hub.Session list) \<times> 'r Hub" where
  "hub_Sessions E app sub h =
     (case on_world (he_LookupMany E app [Subject_String sub] (he_LiveNodes E (hb_world h))) h of
        (Inl err, h1) \<Rightarrow> (Inl err, h1)
      | (Inr many, h1) \<Rightarrow> (Inr (map session_of (many ! 0)), h1))"

definition new_result :: "string \<Rightarrow> stream_result" where
  "new_result i = \<lparr>rs_ReqId = i, rs_Error = None, rs_Pushes = [], rs_Sessions = [], rs_SessionsMany = []\<rparr>"

definition handle ::
  "(string \<Rightarrow> nat option) \<Rightarrow> 'r hub_env \<Rightarrow> string \<Rightarrow> stream_request \<Rightarrow> 'r Hub \<Rightarrow> stream_result \<times> 'r Hub" where
  "handle U E app req h =
     (let res = new_result (rq_ReqId req); failed = (\<lambda>e. res\<lparr>rs_Error := Some e\<rparr>)
      in case rq_Body req of
           ReqPush s payload \<Rightarrow>
             (case ParseSubject U s of
                Inl e \<Rightarrow> (failed (HandleErr e), h)
              | Inr sub \<Rightarrow> (case Push E app sub payload h of (r, h1) \<Rightarrow> (res\<lparr>rs_Pushes := [toProto r]\<rparr>, h1)))
         | ReqPushMany ss payload \<Rightarrow>
             (case parse_subjects U ss of
                Inl e \<Rightarrow> (failed (HandleErr e), h)
              | Inr subs \<Rightarrow> (case PushMany E app subs payload h of (rs, h1) \<Rightarrow> (res\<lparr>rs_Pushes := map toProto rs\<rparr>, h1)))
         | ReqKick s ids \<Rightarrow>
             (case ParseSubject U s of
                Inl e \<Rightarrow> (failed (HandleErr e), h)
              | Inr sub \<Rightarrow>
                  (case Kick E app sub ids h of
                     (Inl e, h1) \<Rightarrow> (failed (HandleErr e), h1)
                   | (Inr u, h1) \<Rightarrow> (res, h1)))
         | ReqSessions s \<Rightarrow>
             (case ParseSubject U s of
                Inl e \<Rightarrow> (failed (HandleErr e), h)
              | Inr sub \<Rightarrow>
                  (case hub_Sessions E app sub h of
                     (Inl e, h1) \<Rightarrow> (failed (HandleErr e), h1)
                   | (Inr l, h1) \<Rightarrow> (res\<lparr>rs_Sessions := l\<rparr>, h1)))
         | ReqSessionsMany ss \<Rightarrow>
             if length ss > maxSessionsMany then (failed TooManySubjects, h)
             else
               (case parse_subjects U ss of
                  Inl e \<Rightarrow> (failed (HandleErr e), h)
                | Inr subs \<Rightarrow>
                    (case SessionsMany E app subs h of
                       (Inl e, h1) \<Rightarrow> (failed (HandleErr e), h1)
                     | (Inr many, h1) \<Rightarrow> (res\<lparr>rs_SessionsMany := zip ss many\<rparr>, h1)))
         | ReqPing \<Rightarrow> (res, h)
         | ReqUnknown \<Rightarrow> (failed UnknownRequest, h))"

section \<open>What a result says\<close>

lemma parse_subjects_Inr: "parse_subjects U ss = Inr subs \<Longrightarrow> map Subject_String subs = ss"
proof (induction ss arbitrary: subs)
  case (Cons s ss)
  then obtain sub rest where p: "ParseSubject U s = Inr sub" "parse_subjects U ss = Inr rest" "subs = sub # rest"
    by (auto split: sum.splits)
  then show ?case using Cons.IH [OF p(2)] ParseSubject_Some [of U s sub] by simp
qed simp

lemma length_push_local: "length (fst (push_local E app ss payload h)) = length ss"
  by (induction ss arbitrary: h) (simp_all split: prod.splits, metis fst_conv)

lemma push_finish_subjects: "map pr_Subject (fst (push_finish E app payload xs ls h)) = map (Subject_String \<circ> fst) xs"
proof (induction E app payload xs ls h rule: push_finish.induct)
  case (4 E app payload s hits rest ls h)
  obtain x h1 where x: "push_remote E app s payload hits (case ls of [] \<Rightarrow> [] | m # _ \<Rightarrow> m) h = (x, h1)" by fastforce
  then have "pr_Subject x = Subject_String s" by (auto simp: push_remote_def Let_def split: prod.splits)
  then show ?case using 4 x by (auto split: prod.splits)
qed (auto split: prod.splits)

lemma PushMany_subjects: "map pr_Subject (fst (PushMany E app subs payload h)) = map Subject_String subs"
proof -
  obtain hits h1 where l: "push_local E app subs payload h = (hits, h1)" by fastforce
  then have "map fst (zip subs hits) = subs" using length_push_local [of E app subs payload h] by simp
  then have z: "map (Subject_String \<circ> fst) (zip subs hits) = map Subject_String subs" by (metis map_map)
  show ?thesis unfolding PushMany_def Let_def l by (simp add: push_finish_subjects z split: prod.split sum.split)
qed

lemma Push_subject: "pr_Subject (fst (Push E app s payload h)) = Subject_String s"
proof -
  have "map pr_Subject (fst (PushMany E app [s] payload h)) = [Subject_String s]" by (simp add: PushMany_subjects)
  then show ?thesis by (cases "fst (PushMany E app [s] payload h)") (auto simp: Push_def split: prod.splits)
qed

section \<open>Requests leave the tables of the hub alone\<close>

lemma same_send_each: "same_but_world h (snd (send_each E payload es h))"
proof (induction es arbitrary: h)
  case (Cons e es)
  obtain ok h1 where o: "on_world (conn_Send E (en_conn e) payload) h = (ok, h1)" by fastforce
  show ?case
    using same_trans [OF same_on_world [OF o] same_trans [OF _ Cons.IH [of "if ok then h1 else touch (conn_Close E (en_conn e) CloseBackpressure ReasonBackpressure) h1"]]]
    by (auto simp: o split: prod.splits)
qed simp

lemma same_push_local: "same_but_world h (snd (push_local E app ss payload h))"
proof (induction ss arbitrary: h)
  case (Cons s ss)
  obtain n h1 where s: "sendLocal E app (Subject_String s) payload h = (n, h1)" by fastforce
  then have "same_but_world h h1" using same_send_each by (metis sendLocal_def snd_conv)
  from same_trans [OF this Cons.IH] show ?case by (simp add: s split_beta)
qed simp

lemma same_push_nodes: "same_but_world h (snd (push_nodes E e ns h))"
proof (induction ns arbitrary: h)
  case (Cons n ns)
  obtain x h1 where p: "on_world (he_Publish E n e) h = (x, h1)" by fastforce
  note 1 = same_on_world [OF p]
  show ?case
    using same_trans [OF 1 Cons.IH] same_trans [OF same_trans [OF 1 same_touch] Cons.IH]
    by (auto simp: p split_beta split: sum.split)
qed simp

lemma same_push_remote: "same_but_world h (snd (push_remote E app s payload hits metas h))"
  by (simp add: push_remote_def Let_def split_beta same_push_nodes)

lemma same_push_finish: "same_but_world h (snd (push_finish E app payload xs ls h))"
proof (induction E app payload xs ls h rule: push_finish.induct)
  case (4 E app payload s hits rest ls h)
  obtain x h1 where x: "push_remote E app s payload hits (case ls of [] \<Rightarrow> [] | m # _ \<Rightarrow> m) h = (x, h1)" by fastforce
  then have "same_but_world h h1" using same_push_remote by (metis snd_conv)
  from same_trans [OF this 4 [OF x [symmetric]]] show ?case by (simp add: x split_beta)
qed (auto split: prod.splits)

lemma same_PushMany: "same_but_world h (snd (PushMany E app subs payload h))"
proof -
  obtain hits h1 where l: "push_local E app subs payload h = (hits, h1)" by fastforce
  note 1 = same_push_local [of h E app subs payload, unfolded l snd_conv]
  let ?p = "map (Subject_String \<circ> fst) (filter (\<lambda>(_, _, p). p) (zip subs hits))"
  obtain y h2 where w: "on_world (he_LookupMany E app ?p (he_LiveNodes E (hb_world h1))) h1 = (y, h2)" by fastforce
  note 2 = same_trans [OF 1 same_on_world [OF w]]
  show ?thesis unfolding PushMany_def Let_def l
    using same_trans [OF 1 same_push_finish] same_trans [OF 2 same_push_finish] by (simp add: w split: sum.split)
qed

lemma same_kick_ones: "same_but_world h (snd (kick_ones E app sub ids h))"
proof (induction ids arbitrary: h)
  case (Cons i ids)
  obtain x h1 where o: "on_world (he_KickOne E app (Subject_String sub) i) h = (x, h1)" by fastforce
  from same_trans [OF same_on_world [OF o] Cons.IH] show ?case
    using same_on_world [OF o] by (auto simp: o split_beta split: sum.split option.split)
qed simp

lemma same_Kick: "same_but_world h (snd (Kick E app sub ids h))"
proof -
  obtain x h1 where k: "(if length ids = 0 then on_world (he_KickAll E app (Subject_String sub)) h else kick_ones E app sub ids h) = (x, h1)"
    by fastforce
  then have 1: "same_but_world h h1" using same_kick_ones [of h E app sub ids] same_on_world by (auto split: if_splits)
  show ?thesis unfolding Kick_def k using same_trans [OF 1 same_Evict] 1 by (simp split: sum.split)
qed

lemma same_handle: "same_but_world h (snd (handle U E app req h))"
proof -
  have P: "same_but_world h (snd (Push E app sub payload h))" for sub payload
    using same_PushMany [of h E app "[sub]" payload] by (simp add: Push_def split_beta)
  have S: "same_but_world h (snd (hub_Sessions E app sub h))" for sub
    by (auto simp: hub_Sessions_def split: prod.splits sum.splits dest: same_on_world)
  have M: "same_but_world h (snd (SessionsMany E app subs h))" for subs
    by (auto simp: SessionsMany_def split: prod.splits sum.splits dest: same_on_world)
  show ?thesis
    using P S M same_PushMany same_Kick
    by (auto simp: handle_def Let_def split_beta split: request_body.split sum.split)
qed

lemma handle_ReqId [simp]: "rs_ReqId (fst (handle U E app req h)) = rq_ReqId req"
  by (auto simp: handle_def new_result_def Let_def split: request_body.split sum.split prod.split)

fun subjects_of :: "request_body \<Rightarrow> string list" where
  "subjects_of (ReqPush s p) = [s]"
| "subjects_of (ReqPushMany ss p) = ss"
| "subjects_of (ReqKick s ids) = [s]"
| "subjects_of (ReqSessions s) = [s]"
| "subjects_of (ReqSessionsMany ss) = ss"
| "subjects_of _ = []"

definition malformed :: "(string \<Rightarrow> nat option) \<Rightarrow> request_body \<Rightarrow> bool" where
  "malformed U b \<longleftrightarrow> b = ReqUnknown \<or> list_ex (\<lambda>s. case ParseSubject U s of Inl e \<Rightarrow> True | Inr sub \<Rightarrow> False) (subjects_of b) \<or>
     (case b of ReqSessionsMany ss \<Rightarrow> length ss > maxSessionsMany | _ \<Rightarrow> False)"

lemma parse_subjects_Inl: "(\<exists>e. parse_subjects U ss = Inl e) \<longleftrightarrow> list_ex (\<lambda>s. case ParseSubject U s of Inl e \<Rightarrow> True | Inr sub \<Rightarrow> False) ss"
  by (induction ss) (auto split: sum.splits)

lemma malformed_rejected:
  assumes "malformed U (rq_Body req)"
  shows "\<exists>e. handle U E app req h = ((new_result (rq_ReqId req))\<lparr>rs_Error := Some e\<rparr>, h)"
proof (cases "rq_Body req")
  case (ReqPushMany ss p)
  then obtain e where "parse_subjects U ss = Inl e" using assms parse_subjects_Inl [of U ss] by (auto simp: malformed_def)
  then show ?thesis using ReqPushMany by (auto simp: handle_def)
next
  case (ReqSessionsMany ss)
  show ?thesis
  proof (cases "length ss > maxSessionsMany")
    case False
    then obtain e where "parse_subjects U ss = Inl e"
      using ReqSessionsMany assms parse_subjects_Inl [of U ss] by (auto simp: malformed_def)
    then show ?thesis using ReqSessionsMany False by (auto simp: handle_def)
  qed (auto simp: ReqSessionsMany handle_def)
qed (use assms in \<open>auto simp: malformed_def handle_def split: sum.splits\<close>)

lemma wellformed_subject:
  assumes "\<not> malformed U b" and "s \<in> set (subjects_of b)"
  obtains sub where "ParseSubject U s = Inr sub" and "Subject_String sub = s"
proof -
  obtain sub where sub: "ParseSubject U s = Inr sub"
    using assms by (cases "ParseSubject U s") (force simp: malformed_def list_ex_iff)+
  with that ParseSubject_Some [of U s sub] show thesis by simp
qed

lemma wellformed_subjects:
  assumes "\<not> malformed U b"
  obtains subs where "parse_subjects U (subjects_of b) = Inr subs" and "map Subject_String subs = subjects_of b"
proof -
  obtain subs where "parse_subjects U (subjects_of b) = Inr subs"
    using assms parse_subjects_Inl [of U "subjects_of b"] by (cases "parse_subjects U (subjects_of b)") (auto simp: malformed_def)
  with that parse_subjects_Inr show thesis by blast
qed

text \<open>How the outcomes of deliveries are reported: the subject asked for, whether it was reached, and on how many nodes.\<close>

definition reported :: "string list \<Rightarrow> PushResult list \<Rightarrow> proto_push list \<Rightarrow> bool" where
  "reported ss rs ps \<longleftrightarrow> map pp_Subject ps = ss \<and>
     list_all2 (\<lambda>r p. (pp_Status p = PUSH_STATUS_SENT \<longleftrightarrow> pr_Status r = PushSent) \<and>
       (pp_Status p = PUSH_STATUS_NOT_ONLINE \<longleftrightarrow> pr_Status r = PushNotOnline) \<and>
       (pr_Nodes r < 2 ^ 31 \<longrightarrow> pp_Nodes p = int (pr_Nodes r))) rs ps"

lemma sint_small:
  assumes "n < 2 ^ 31"
  shows "sint (word_of_nat n :: 32 word) = int n"
proof -
  have "sint (word_of_nat n :: 32 word) = signed_take_bit 31 (int n)" by (simp add: signed_of_nat)
  also have "\<dots> = int n" using assms by (intro signed_take_bit_int_eq_self) simp_all
  finally show ?thesis .
qed

lemma reported_toProto: "map pr_Subject rs = ss \<Longrightarrow> reported ss rs (map toProto rs)"
  by (auto simp: reported_def toProto_def proto_status_of_def comp_def list.rel_map sint_small list.rel_refl_strong
      intro!: list.rel_refl_strong split: PushStatus.splits)

text \<open>
  What a request that is not malformed is answered: the outcome of the delivery for each subject, the error of the registry,
  or the connections the registry has for each subject among the nodes alive; and nothing the request did not ask for.
\<close>

definition shown :: "(string \<times> ConnMeta) list \<Rightarrow> Im_Hub.Session list" where
  "shown conns = map (\<lambda>(cid, m). \<lparr>se_ConnID = cid, se_Node = cm_Node m, se_OS = cm_OS m, se_Mobile = cm_Mobile m,
     se_ConnectedAt = cm_At m\<rparr>) conns"

definition answers :: "'r hub_env \<Rightarrow> string \<Rightarrow> stream_request \<Rightarrow> 'r Hub \<Rightarrow> stream_result \<Rightarrow> 'r Hub \<Rightarrow> bool" where
  "answers E app req h res h' \<longleftrightarrow>
     (case rq_Body req of
        ReqPush s payload \<Rightarrow> (\<exists>sub r. Subject_String sub = s \<and> Push E app sub payload h = (r, h') \<and> reported [s] [r] (rs_Pushes res)) \<and>
          rs_Error res = None \<and> rs_Sessions res = [] \<and> rs_SessionsMany res = []
      | ReqPushMany ss payload \<Rightarrow> (\<exists>subs rs. map Subject_String subs = ss \<and> PushMany E app subs payload h = (rs, h') \<and>
            reported ss rs (rs_Pushes res)) \<and>
          rs_Error res = None \<and> rs_Sessions res = [] \<and> rs_SessionsMany res = []
      | ReqKick s ids \<Rightarrow> (\<exists>sub. Subject_String sub = s \<and>
            (case Kick E app sub ids h of
               (Inl e, h1) \<Rightarrow> rs_Error res = Some (HandleErr e) \<and> h' = h1
             | (Inr u, h1) \<Rightarrow> rs_Error res = None \<and> h' = h1)) \<and>
          rs_Pushes res = [] \<and> rs_Sessions res = [] \<and> rs_SessionsMany res = []
      | ReqSessions s \<Rightarrow>
          (case fst (he_LookupMany E app [s] (he_LiveNodes E (hb_world h)) (hb_world h)) of
             Inl e \<Rightarrow> rs_Error res = Some (HandleErr e) \<and> rs_Sessions res = []
           | Inr many \<Rightarrow> rs_Error res = None \<and> rs_Sessions res = shown (many ! 0)) \<and>
          rs_Pushes res = [] \<and> rs_SessionsMany res = []
      | ReqSessionsMany ss \<Rightarrow>
          (case fst (he_LookupMany E app ss (he_LiveNodes E (hb_world h)) (hb_world h)) of
             Inl e \<Rightarrow> rs_Error res = Some (HandleErr e) \<and> rs_SessionsMany res = []
           | Inr many \<Rightarrow> rs_Error res = None \<and> rs_SessionsMany res = map (\<lambda>i. (ss ! i, shown (many ! i))) [0..<min (length ss) (length many)]) \<and>
          rs_Pushes res = [] \<and> rs_Sessions res = []
      | ReqPing \<Rightarrow> rs_Error res = None \<and> rs_Pushes res = [] \<and> rs_Sessions res = [] \<and> rs_SessionsMany res = [] \<and> h' = h
      | ReqUnknown \<Rightarrow> False)"

lemma session_of_shown: "map session_of conns = shown conns"
  by (simp add: shown_def session_of_def)

lemma zip_shown: "zip ss (map shown many) = map (\<lambda>i. (ss ! i, shown (many ! i))) [0..<min (length ss) (length many)]"
  by (rule nth_equalityI) auto

lemma wellformed_answered:
  assumes "\<not> malformed U (rq_Body req)" and "handle U E app req h = (res, h')"
  shows "answers E app req h res h'"
proof (cases "rq_Body req")
  case (ReqPush s p)
  obtain sub where sub: "ParseSubject U s = Inr sub" "Subject_String sub = s"
    using wellformed_subject [OF assms(1), of s] ReqPush by auto
  obtain r h1 where r: "Push E app sub p h = (r, h1)" by fastforce
  have "reported [s] [r] [toProto r]" using reported_toProto [of "[r]" "[s]"] Push_subject [of E app sub p h] r sub(2) by simp
  then show ?thesis using assms(2) ReqPush sub r by (auto simp: handle_def answers_def new_result_def Let_def)
next
  case (ReqPushMany ss p)
  obtain subs where subs: "parse_subjects U ss = Inr subs" "map Subject_String subs = ss"
    using wellformed_subjects [OF assms(1)] ReqPushMany by auto
  obtain rs h1 where r: "PushMany E app subs p h = (rs, h1)" by fastforce
  have "reported ss rs (map toProto rs)" using reported_toProto [of rs ss] PushMany_subjects [of E app subs p h] r subs(2) by simp
  then show ?thesis using assms(2) ReqPushMany subs r by (auto simp: handle_def answers_def new_result_def Let_def)
next
  case (ReqKick s ids)
  obtain sub where sub: "ParseSubject U s = Inr sub" "Subject_String sub = s"
    using wellformed_subject [OF assms(1), of s] ReqKick by auto
  obtain x h1 where k: "Kick E app sub ids h = (x, h1)" by fastforce
  then show ?thesis using assms(2) ReqKick sub
    by (cases x) (auto simp: handle_def answers_def new_result_def Let_def intro!: exI [of _ sub])
next
  case (ReqSessions s)
  obtain sub where sub: "ParseSubject U s = Inr sub" "Subject_String sub = s"
    using wellformed_subject [OF assms(1), of s] ReqSessions by auto
  obtain x r where "he_LookupMany E app [s] (he_LiveNodes E (hb_world h)) (hb_world h) = (x, r)" by fastforce
  then show ?thesis using assms(2) ReqSessions sub
    by (cases x) (auto simp: handle_def answers_def hub_Sessions_def on_world_def new_result_def session_of_shown Let_def)
next
  case (ReqSessionsMany ss)
  obtain subs where subs: "parse_subjects U ss = Inr subs" "map Subject_String subs = ss"
    using wellformed_subjects [OF assms(1)] ReqSessionsMany by auto
  have len: "\<not> length ss > maxSessionsMany" using assms(1) ReqSessionsMany by (simp add: malformed_def)
  obtain x r where "he_LookupMany E app ss (he_LiveNodes E (hb_world h)) (hb_world h) = (x, r)" by fastforce
  then show ?thesis using assms(2) ReqSessionsMany subs len zip_shown [of ss]
    by (cases x) (auto simp: handle_def answers_def SessionsMany_def on_world_def new_result_def session_of_shown Let_def cong: map_cong)
next
  case ReqPing
  then show ?thesis using assms(2) by (auto simp: handle_def answers_def new_result_def Let_def)
next
  case ReqUnknown
  then show ?thesis using assms(1) by (simp add: malformed_def)
qed


definition demo_stream_env :: "demo_net hub_env" where
  "demo_stream_env = demo_hub_env [''n1'', ''n2''] (\<lambda>t. 1) [(''c2'', \<lparr>cm_Node = ''n2'', cm_OS = [], cm_Mobile = False, cm_At = 1\<rparr>)]"


section \<open>The goroutines of a stream (\<^verbatim>\<open>Connect\<close>)\<close>

definition defaultWorkers :: nat where "defaultWorkers = 64"

definition workers_of :: "int \<Rightarrow> nat" where
  "workers_of n = (if n \<le> 0 then defaultWorkers else nat n)"

datatype frame = FrameReady string | FrameResult stream_result | FrameRouted ConnectResponse

text \<open>
  The main goroutine: not yet begun, ready sent, registered, waiting for the workers after \<^verbatim>\<open>closed\<close> was set, returned.
  The reader: reading, holding a request until there is a slot, with a slot before the look at \<^verbatim>\<open>closed\<close>, ended.
  A worker: at work, with the answer, after its \<^verbatim>\<open>Send\<close>.
\<close>

datatype connect_phase = Opened | ReadySent | Registered | Draining | Returned

datatype reader = ReaderIdle | ReaderReading | ReaderHolding stream_request | ReaderAcquired stream_request | ReaderEnded

datatype worker = Working stream_request | Answered stream_request stream_result | Sent

record 'r connect =
  co_phase :: connect_phase
  co_stopping :: bool
  co_reader :: reader
  co_recvErr :: bool
  co_slots :: nat
  co_workers :: "worker list"
  co_hub :: "'r Hub"
  co_accepted :: "stream_request list"
  co_frames :: "frame list"
  co_lost :: "stream_result list"

definition holds_stream :: "string \<Rightarrow> stream \<Rightarrow> 'r Hub \<Rightarrow> bool" where
  "holds_stream app strm h \<longleftrightarrow> strm \<in> set (mget app (hb_streams h))"

text \<open>
  A frame whose \<^verbatim>\<open>Send\<close> fails is lost; the router of the hub sends on the stream through what it looked up, from the
  registration on; the hub changes by the work of others, which leave this stream in its table or out of it.
\<close>

inductive connect_step ::
  "(string \<Rightarrow> nat option) \<Rightarrow> 'r hub_env \<Rightarrow> nat \<Rightarrow> string \<Rightarrow> stream \<Rightarrow> 'r connect \<Rightarrow> 'r connect \<Rightarrow> bool" for U E W app strm where
  stop: "connect_step U E W app strm s (s\<lparr>co_stopping := True\<rparr>)"
| refuse: "connect_step U E W app strm s (s\<lparr>co_phase := Returned\<rparr>)"
    if "co_phase s = Opened" and "co_stopping s"
| ready: "connect_step U E W app strm s (s\<lparr>co_phase := ReadySent, co_frames := co_frames s @ [FrameReady (hb_nodeID (co_hub s))]\<rparr>)"
    if "co_phase s = Opened" and "\<not> co_stopping s"
| ready_fails: "connect_step U E W app strm s (s\<lparr>co_phase := Returned\<rparr>)"
    if "co_phase s = Opened" and "\<not> co_stopping s"
| register: "connect_step U E W app strm s
      (s\<lparr>co_phase := Registered, co_reader := ReaderReading, co_hub := AddStream E app strm (co_hub s)\<rparr>)"
    if "co_phase s = ReadySent"
| receive: "connect_step U E W app strm s (s\<lparr>co_reader := ReaderHolding q\<rparr>)"
    if "co_reader s = ReaderReading"
| receive_fails: "connect_step U E W app strm s (s\<lparr>co_reader := ReaderEnded, co_recvErr := True\<rparr>)"
    if "co_reader s = ReaderReading"
| cancelled: "connect_step U E W app strm s (s\<lparr>co_reader := ReaderEnded, co_recvErr := True\<rparr>)"
    if "co_reader s = ReaderHolding q"
| acquire: "connect_step U E W app strm s (s\<lparr>co_reader := ReaderAcquired q, co_slots := co_slots s + 1\<rparr>)"
    if "co_reader s = ReaderHolding q" and "co_slots s < W"
| accept: "connect_step U E W app strm s
      (s\<lparr>co_reader := ReaderReading, co_accepted := co_accepted s @ [q], co_workers := co_workers s @ [Working q]\<rparr>)"
    if "co_reader s = ReaderAcquired q" and "co_phase s = Registered"
| turn_away: "connect_step U E W app strm s (s\<lparr>co_reader := ReaderEnded\<rparr>)"
    if "co_reader s = ReaderAcquired q" and "co_phase s \<noteq> Registered"
| work: "connect_step U E W app strm s (s\<lparr>co_workers := ws @ Answered q (fst (handle U E app q (co_hub s))) # ws',
      co_hub := snd (handle U E app q (co_hub s))\<rparr>)"
    if "co_workers s = ws @ Working q # ws'"
| send_result: "connect_step U E W app strm s (s\<lparr>co_workers := ws @ Sent # ws', co_frames := co_frames s @ [FrameResult res]\<rparr>)"
    if "co_workers s = ws @ Answered q res # ws'"
| lose_result: "connect_step U E W app strm s (s\<lparr>co_workers := ws @ Sent # ws', co_lost := co_lost s @ [res]\<rparr>)"
    if "co_workers s = ws @ Answered q res # ws'"
| finish_worker: "connect_step U E W app strm s (s\<lparr>co_workers := ws @ ws', co_slots := co_slots s - 1\<rparr>)"
    if "co_workers s = ws @ Sent # ws'"
| route_frame: "connect_step U E W app strm s (s\<lparr>co_frames := co_frames s @ [FrameRouted f]\<rparr>)"
    if "co_reader s \<noteq> ReaderIdle"
| others: "connect_step U E W app strm s (s\<lparr>co_hub := h\<rparr>)"
    if "holds_stream app strm h \<longleftrightarrow> holds_stream app strm (co_hub s)"
| drain: "connect_step U E W app strm s (s\<lparr>co_phase := Draining\<rparr>)"
    if "co_phase s = Registered" and "co_recvErr s \<or> co_stopping s"
| return_stream: "connect_step U E W app strm s (s\<lparr>co_phase := Returned, co_hub := remove_stream E app strm (co_hub s)\<rparr>)"
    if "co_phase s = Draining" and "co_workers s = []"

definition connect_start :: "'r Hub \<Rightarrow> bool \<Rightarrow> 'r connect" where
  "connect_start h stopping =
     \<lparr>co_phase = Opened, co_stopping = stopping, co_reader = ReaderIdle, co_recvErr = False, co_slots = 0, co_workers = [], co_hub = h,
      co_accepted = [], co_frames = [], co_lost = []\<rparr>"

text \<open>Every accepted request is exactly one of: still with its worker, answered on the stream, or answered on a broken one.\<close>

fun pending_id :: "worker \<Rightarrow> string list" where
  "pending_id (Working q) = [rq_ReqId q]"
| "pending_id (Answered q res) = [rs_ReqId res]"
| "pending_id Sent = []"

fun result_id :: "frame \<Rightarrow> string list" where
  "result_id (FrameResult res) = [rs_ReqId res]"
| "result_id _ = []"

definition pending_ids :: "'r connect \<Rightarrow> string list" where
  "pending_ids s = concat (map pending_id (co_workers s))"

definition result_ids :: "'r connect \<Rightarrow> string list" where
  "result_ids s = concat (map result_id (co_frames s))"

definition accounted :: "'r connect \<Rightarrow> bool" where
  "accounted s \<longleftrightarrow> mset (map rq_ReqId (co_accepted s)) =
     mset (result_ids s) + mset (map rs_ReqId (co_lost s)) + mset (pending_ids s)"

definition ready_first :: "'r connect \<Rightarrow> bool" where
  "ready_first s \<longleftrightarrow> (co_reader s = ReaderIdle \<or> co_frames s \<noteq> []) \<and> (if co_phase s = Opened then co_frames s = []
     else (co_phase s = Returned \<and> co_frames s = []) \<or>
       (case co_frames s of FrameReady n # fs \<Rightarrow> list_all (\<lambda>f. \<not> (\<exists>m. f = FrameReady m)) fs | _ \<Rightarrow> False))"

definition slots_ok :: "nat \<Rightarrow> 'r connect \<Rightarrow> bool" where
  "slots_ok W s \<longleftrightarrow> length (co_workers s) + (case co_reader s of ReaderAcquired q \<Rightarrow> 1 | _ \<Rightarrow> 0) \<le> co_slots s \<and> co_slots s \<le> W"

definition phase_ok :: "string \<Rightarrow> stream \<Rightarrow> 'r connect \<Rightarrow> bool" where
  "phase_ok app strm s \<longleftrightarrow>
     (holds_stream app strm (co_hub s) \<longleftrightarrow> co_phase s \<in> {Registered, Draining}) \<and>
     (co_phase s \<notin> {Registered, Draining} \<longrightarrow> co_workers s = []) \<and>
     (co_phase s \<in> {Opened, ReadySent} \<longrightarrow> co_reader s = ReaderIdle)"

lemma holds_AddStream: "holds_stream app strm (AddStream E app strm h)"
  by (simp add: holds_stream_def AddStream_def Let_def mget_mput touch_def)

lemma holds_remove_stream: "\<not> holds_stream app strm (remove_stream E app strm h)"
  by (auto simp: holds_stream_def remove_stream_def Let_def mget_mput mget_mdel touch_def)

lemma holds_handle [simp]: "holds_stream app strm (snd (handle U E app' q h)) = holds_stream app strm h"
  by (simp add: holds_stream_def same_fields(5) [OF same_handle [of h U E app' q]])

lemma accounted_step: "connect_step U E W app strm s s' \<Longrightarrow> accounted s \<Longrightarrow> accounted s'"
  by (induction rule: connect_step.induct) (simp_all add: accounted_def pending_ids_def result_ids_def)

lemma ready_first_step:
  assumes "connect_step U E W app strm s s'" and "phase_ok app strm s" and "ready_first s"
  shows "ready_first s'"
  using assms by (induction rule: connect_step.induct) (auto simp: ready_first_def phase_ok_def split: list.splits frame.splits if_splits)

lemma slots_step: "connect_step U E W app strm s s' \<Longrightarrow> slots_ok W s \<Longrightarrow> slots_ok W s'"
  by (induction rule: connect_step.induct) (auto simp: slots_ok_def split: reader.splits)

lemma phase_step: "connect_step U E W app strm s s' \<Longrightarrow> phase_ok app strm s \<Longrightarrow> phase_ok app strm s'"
  by (induction rule: connect_step.induct) (auto simp: phase_ok_def holds_AddStream holds_remove_stream)

definition connect_inv :: "nat \<Rightarrow> string \<Rightarrow> stream \<Rightarrow> 'r connect \<Rightarrow> bool" where
  "connect_inv W app strm s \<longleftrightarrow> accounted s \<and> ready_first s \<and> slots_ok W s \<and> phase_ok app strm s"

lemma connect_inv_reachable:
  assumes "(connect_step U E W app strm)\<^sup>*\<^sup>* (connect_start h stopping) s" and "\<not> holds_stream app strm h"
  shows "connect_inv W app strm s"
  using assms
proof (induction rule: rtranclp_induct)
  case base
  then show ?case
    by (simp add: connect_inv_def connect_start_def accounted_def ready_first_def slots_ok_def phase_ok_def pending_ids_def result_ids_def)
next
  case (step s s')
  then show ?case using accounted_step ready_first_step slots_step phase_step unfolding connect_inv_def by metis
qed

text \<open>
  C37. However the goroutines of a stream interleave: what is sent on it begins with the greeting, which is not repeated; at
  most so many requests as configured are worked on at once; each request taken is worked on, answered on the stream or
  answered on a broken one, and nothing is answered twice; the hub knows the stream from the greeting to the return, and at
  the return no request is left.
\<close>

theorem streams_answer_each_request_once:
  assumes "(connect_step U E W app strm)\<^sup>*\<^sup>* (connect_start h stopping) s" and "\<not> holds_stream app strm h"
  shows "(co_frames s = [] \<or> (\<exists>n fs. co_frames s = FrameReady n # fs \<and> list_all (\<lambda>f. \<not> (\<exists>m. f = FrameReady m)) fs)) \<and>
    length (co_workers s) \<le> W \<and>
    mset (map rq_ReqId (co_accepted s)) = mset (result_ids s) + mset (map rs_ReqId (co_lost s)) + mset (pending_ids s) \<and>
    (holds_stream app strm (co_hub s) \<longleftrightarrow> co_phase s \<in> {Registered, Draining}) \<and>
    (co_phase s \<noteq> Returned \<or> pending_ids s = [])"
proof -
  have I: "accounted s" "ready_first s" "slots_ok W s" "phase_ok app strm s"
    using connect_inv_reachable [OF assms] by (simp_all add: connect_inv_def)
  have "length (co_workers s) \<le> W" using I(3) by (simp add: slots_ok_def)
  moreover have "co_frames s = [] \<or> (\<exists>n fs. co_frames s = FrameReady n # fs \<and> list_all (\<lambda>f. \<not> (\<exists>m. f = FrameReady m)) fs)"
    using I(2) by (auto simp: ready_first_def split: list.splits frame.splits if_splits)
  ultimately show ?thesis using I(1,4) by (auto simp: accounted_def phase_ok_def pending_ids_def)
qed

definition demo_ping :: stream_request where "demo_ping = \<lparr>rq_ReqId = ''r1'', rq_Body = ReqPing\<rparr>"

definition demo_connected :: "demo_net connect" where
  "demo_connected =
     (connect_start (AddStream demo_stream_env ''A'' 5 (hub_New ''n1'' demo_net0)) False)
       \<lparr>co_phase := Registered, co_reader := ReaderReading, co_frames := [FrameReady ''n1'']\<rparr>"

definition demo_answered :: "demo_net connect" where
  "demo_answered = demo_connected
     \<lparr>co_slots := 1, co_workers := [Sent], co_accepted := [demo_ping], co_frames := [FrameReady ''n1'', FrameResult (new_result ''r1'')]\<rparr>"

lemma demo_connected_reached:
  "(connect_step U demo_stream_env 2 ''A'' 5)\<^sup>*\<^sup>* (connect_start (hub_New ''n1'' demo_net0) False) demo_connected"
proof -
  let ?s = "connect_start (hub_New ''n1'' demo_net0) False"
  let ?r = "?s\<lparr>co_phase := ReadySent, co_frames := [FrameReady ''n1'']\<rparr>"
  have 1: "connect_step U demo_stream_env 2 ''A'' 5 ?s ?r"
    using connect_step.ready [of ?s U demo_stream_env 2 "''A''" 5] by (simp add: connect_start_def hub_New_def)
  have 2: "connect_step U demo_stream_env 2 ''A'' 5 ?r demo_connected"
    using connect_step.register [of ?r U demo_stream_env 2 "''A''" 5] by (simp add: connect_start_def demo_connected_def)
  from 1 2 show ?thesis by (intro converse_rtranclp_into_rtranclp [of "connect_step U demo_stream_env 2 ''A'' 5", OF _ r_into_rtranclp [of "connect_step U demo_stream_env 2 ''A'' 5"]])
qed

lemma demo_answered_reached:
  "(connect_step U demo_stream_env 2 ''A'' 5)\<^sup>*\<^sup>* (connect_start (hub_New ''n1'' demo_net0) False) demo_answered"
proof -
  let ?S = "connect_step U demo_stream_env 2 ''A'' 5"
  let ?a = "demo_connected\<lparr>co_reader := ReaderHolding demo_ping\<rparr>"
  let ?b = "demo_connected\<lparr>co_reader := ReaderAcquired demo_ping, co_slots := 1\<rparr>"
  let ?c = "demo_connected\<lparr>co_slots := 1, co_accepted := [demo_ping], co_workers := [Working demo_ping]\<rparr>"
  let ?d = "demo_connected\<lparr>co_slots := 1, co_accepted := [demo_ping], co_workers := [Answered demo_ping (new_result ''r1'')]\<rparr>"
  note D = demo_connected_def connect_start_def
  have 1: "?S demo_connected ?a" using connect_step.receive [of demo_connected U demo_stream_env 2 "''A''" 5 demo_ping] by (simp add: D)
  have 2: "?S ?a ?b" using connect_step.acquire [of ?a demo_ping 2 U demo_stream_env "''A''" 5] by (simp add: D)
  have 3: "?S ?b ?c" using connect_step.accept [of ?b demo_ping U demo_stream_env 2 "''A''" 5] by (simp add: D)
  have 4: "?S ?c ?d" using connect_step.work [of ?c "[]" demo_ping "[]" U demo_stream_env 2 "''A''" 5]
    by (simp add: D handle_def demo_ping_def)
  have 5: "?S ?d demo_answered"
    using connect_step.send_result [of ?d "[]" demo_ping "new_result ''r1''" "[]" U demo_stream_env 2 "''A''" 5]
    by (simp add: D demo_answered_def)
  note more = rtranclp.rtrancl_into_rtrancl [of ?S]
  show ?thesis using more [OF more [OF more [OF more [OF more [OF demo_connected_reached 1] 2] 3] 4] 5] .
qed

theorem streams_answer_each_request_once_witness:
  "length (co_workers demo_answered) \<le> 2 \<and> hd (co_frames demo_answered) = FrameReady ''n1'' \<and> result_ids demo_answered = [''r1''] \<and>
   mset (map rq_ReqId (co_accepted demo_answered)) =
     mset (result_ids demo_answered) + mset (map rs_ReqId (co_lost demo_answered)) + mset (pending_ids demo_answered) \<and>
   holds_stream ''A'' 5 (co_hub demo_answered)"
proof -
  have n: "\<not> holds_stream ''A'' 5 (hub_New ''n1'' demo_net0)" by (simp add: holds_stream_def hub_New_def mget_def)
  have p: "co_phase demo_answered = Registered" "hd (co_frames demo_answered) = FrameReady ''n1''" "result_ids demo_answered = [''r1'']"
    by (simp_all add: demo_answered_def demo_connected_def result_ids_def new_result_def)
  show ?thesis using streams_answer_each_request_once [OF demo_answered_reached n] p by simp
qed

end
