(* ===== verification/Identity_Service.thy ===== *)
theory Identity_Service
  imports Domain Runes
begin

text \<open>
  Who a login identifier belongs to (\<^verbatim>\<open>internal/service/user.go\<close>, \<^verbatim>\<open>user_link.go\<close>): finding or creating the
  account of an identifier, attaching one, and binding an identity of a third party to the account of a phone number. The
  tables \<^verbatim>\<open>app_user\<close> and \<^verbatim>\<open>identity\<close> are part of the state with the constraints of
  \<^verbatim>\<open>store/migrations\<close>; a statement may fail, and the reply to a commit may be lost after it has taken effect. The
  lower case of a rune outside ASCII is a parameter, as are the identifiers the database draws.
\<close>

section \<open>Tables and statements\<close>

definition IdentityTypePhone :: string where "IdentityTypePhone = ''phone''"
definition IdentityTypeUsername :: string where "IdentityTypeUsername = ''username''"
definition IdentityTypeEmail :: string where "IdentityTypeEmail = ''email''"
definition IdentityTypeWechatMP :: string where "IdentityTypeWechatMP = ''wechat_mp''"
definition IdentityTypeWechatWeb :: string where "IdentityTypeWechatWeb = ''wechat_web''"

definition CodeIdentityNotFound :: string where "CodeIdentityNotFound = ''IDENTITY_NOT_FOUND''"
definition CodeUnionKeyNotFound :: string where "CodeUnionKeyNotFound = ''UNION_KEY_NOT_FOUND''"
definition CodeUnionKeyConflict :: string where "CodeUnionKeyConflict = ''UNION_KEY_CONFLICT''"
definition CodePhoneInvalid :: string where "CodePhoneInvalid = ''PHONE_INVALID''"
definition CodeNoUser :: string where "CodeNoUser = ''USER_NOT_FOUND''"

record Identity =
  idn_ID :: uuid
  idn_UserID :: uuid
  idn_Type :: string
  idn_Subject :: string
  idn_UnionKey :: string
  idn_Credential :: string
  idn_LastLoginAt :: int
  idn_CreatedAt :: int

text \<open>Works; fails without effect; takes effect, but the reply is lost.\<close>

datatype fault = Works | Fails | ReplyLost

record extra_row =
  xr_user :: uuid
  xr_app :: uuid
  xr_registration :: bool

record user_db =
  ud_users :: "User list"
  ud_identities :: "Identity list"
  ud_extra :: "extra_row list"
  ud_now :: int
  ud_faults :: "fault list"

definition sql_error :: goerr where "sql_error = Wrapped ''service: sql''"

definition u_stmt :: "(user_db \<Rightarrow> 'a \<times> user_db) \<Rightarrow> (user_db, 'a) io" where
  "u_stmt f w =
     (let w1 = w\<lparr>ud_faults := tl (ud_faults w)\<rparr>
      in case (case ud_faults w of [] \<Rightarrow> Works | b # bs \<Rightarrow> b) of
           Works \<Rightarrow> (case f w1 of (x, w2) \<Rightarrow> (Inr x, w2))
         | Fails \<Rightarrow> (Inl sql_error, w1)
         | ReplyLost \<Rightarrow> (Inl sql_error, snd (f w1)))"

abbreviation u_query :: "(user_db \<Rightarrow> 'a) \<Rightarrow> (user_db, 'a) io" where
  "u_query f \<equiv> u_stmt (\<lambda>w. (f w, w))"

text \<open>The tables as they were at its beginning, when a transaction is not committed.\<close>

definition rolled_back :: "user_db \<Rightarrow> user_db \<Rightarrow> user_db" where
  "rolled_back w w' = w\<lparr>ud_faults := ud_faults w'\<rparr>"

definition u_tx :: "(user_db, 'a) io \<Rightarrow> (user_db, 'a) io" where
  "u_tx m w =
     (case u_query (\<lambda>_. ()) w of
        (Inl e, w1) \<Rightarrow> (Inl e, w1)
      | (Inr _, w1) \<Rightarrow>
          (case m w1 of
             (Inl e, w2) \<Rightarrow> (Inl e, rolled_back w1 w2)
           | (Inr x, w2) \<Rightarrow>
               (let w3 = w2\<lparr>ud_faults := tl (ud_faults w2)\<rparr>
                in case (case ud_faults w2 of [] \<Rightarrow> Works | b # bs \<Rightarrow> b) of
                     Works \<Rightarrow> (Inr x, w3)
                   | Fails \<Rightarrow> (Inl sql_error, rolled_back w1 w3)
                   | ReplyLost \<Rightarrow> (Inl sql_error, w3))))"

record user_env =
  ue_newUserID :: "user_db \<Rightarrow> uuid"
  ue_newIdentityID :: "user_db \<Rightarrow> uuid"
  ue_toLowerRune :: "string \<Rightarrow> string"

section \<open>Subjects\<close>

record EnsureIdentityInput =
  ei_Type :: string
  ei_Subject :: string
  ei_UnionKey :: string
  ei_Credential :: string
  ei_Nickname :: string
  ei_AvatarURL :: string

definition ToLower :: "user_env \<Rightarrow> string \<Rightarrow> string" where
  "ToLower E s = concat (map (\<lambda>r. case r of [c] \<Rightarrow> if byte c < 0x80
       then (if 65 \<le> byte c \<and> byte c \<le> 90 then [char_of (byte c + 32)] else [c]) else ue_toLowerRune E r
     | _ \<Rightarrow> ue_toLowerRune E r) (runes s))"

definition normalizeSubject :: "user_env \<Rightarrow> string \<Rightarrow> string \<Rightarrow> string" where
  "normalizeSubject E typ subject =
     (if typ = IdentityTypeEmail \<or> typ = IdentityTypeUsername then ToLower E (TrimSpace subject) else TrimSpace subject)"

definition input_normalize :: "user_env \<Rightarrow> EnsureIdentityInput \<Rightarrow> EnsureIdentityInput" where
  "input_normalize E i = i\<lparr>ei_Subject := normalizeSubject E (ei_Type i) (ei_Subject i), ei_UnionKey := TrimSpace (ei_UnionKey i)\<rparr>"

definition input_validate :: "EnsureIdentityInput \<Rightarrow> goerr option" where
  "input_validate i =
     (if ei_Type i = [] then Some invalid_argument
      else if ei_Subject i = [] then Some invalid_argument
      else None)"

section \<open>Queries\<close>

definition getUserTx :: "uuid \<Rightarrow> (user_db, User) io" where
  "getUserTx u =
     bindE (u_query (\<lambda>w. find (\<lambda>x. user_ID x = u) (ud_users w))) (\<lambda>r.
       case r of None \<Rightarrow> throw (DomainErr ErrNotFound CodeNoUser) | Some x \<Rightarrow> ret x)"

definition idn_is :: "string \<Rightarrow> string \<Rightarrow> Identity \<Rightarrow> bool" where
  "idn_is typ subject i \<longleftrightarrow> idn_Type i = typ \<and> idn_Subject i = subject"

definition findByIdentityTx :: "string \<Rightarrow> string \<Rightarrow> (user_db, User \<times> Identity) io" where
  "findByIdentityTx typ subject =
     bindE (u_query (\<lambda>w. find (idn_is typ subject) (ud_identities w))) (\<lambda>r.
       case r of
         None \<Rightarrow> throw (DomainErr ErrNotFound CodeIdentityNotFound)
       | Some i \<Rightarrow> bindE (getUserTx (idn_UserID i)) (\<lambda>u. ret (u, i)))"

text \<open>\<^verbatim>\<open>SELECT user_id FROM identity WHERE union_key = $1 LIMIT 1\<close>\<close>

definition unionOwner :: "string \<Rightarrow> (user_db, uuid option) io" where
  "unionOwner k = u_query (\<lambda>w. map_option idn_UserID (find (\<lambda>i. idn_UnionKey i = k) (ud_identities w)))"

definition lockUnionKeyTx :: "string \<Rightarrow> (user_db, unit) io" where
  "lockUnionKeyTx k = u_query (\<lambda>_. ())"

text \<open>The row violates a constraint: it is not inserted; a duplicate is a conflict, a user that does not exist another error.\<close>

definition new_identity :: "user_env \<Rightarrow> uuid \<Rightarrow> EnsureIdentityInput \<Rightarrow> user_db \<Rightarrow> Identity" where
  "new_identity E u i w =
     \<lparr>idn_ID = ue_newIdentityID E w, idn_UserID = u, idn_Type = ei_Type i, idn_Subject = ei_Subject i, idn_UnionKey = ei_UnionKey i,
      idn_Credential = ei_Credential i, idn_LastLoginAt = 0, idn_CreatedAt = ud_now w\<rparr>"

datatype 'a inserted = Inserted 'a | Duplicate | Dangling

definition insertIdentityTx :: "user_env \<Rightarrow> uuid \<Rightarrow> EnsureIdentityInput \<Rightarrow> (user_db, Identity) io" where
  "insertIdentityTx E u i =
     bindE (u_stmt (\<lambda>w.
       if list_ex (\<lambda>x. idn_is (ei_Type i) (ei_Subject i) x \<or> idn_ID x = ue_newIdentityID E w) (ud_identities w) then (Duplicate, w)
       else if \<not> list_ex (\<lambda>x. user_ID x = u) (ud_users w) then (Dangling, w)
       else (Inserted (new_identity E u i w), w\<lparr>ud_identities := ud_identities w @ [new_identity E u i w]\<rparr>))) (\<lambda>r.
       case r of
         Inserted x \<Rightarrow> ret x
       | Duplicate \<Rightarrow> throw (DomainErr ErrConflict CodeUnionKeyConflict)
       | Dangling \<Rightarrow> throw sql_error)"

definition new_user :: "user_env \<Rightarrow> string \<Rightarrow> string \<Rightarrow> user_db \<Rightarrow> User" where
  "new_user E nickname avatar w =
     \<lparr>user_ID = ue_newUserID E w, PasswordHash = [], Nickname = nickname, AvatarURL = avatar, user_AvatarHash = [], Gender = [],
      user_Status = UserStatusActive, DeleteSubmittedAt = 0, user_CreatedAt = ud_now w, user_UpdatedAt = ud_now w\<rparr>"

definition insertUserTx :: "user_env \<Rightarrow> string \<Rightarrow> string \<Rightarrow> (user_db, User) io" where
  "insertUserTx E nickname avatar =
     bindE (u_stmt (\<lambda>w.
       if list_ex (\<lambda>x. user_ID x = ue_newUserID E w) (ud_users w) then (None, w)
       else (Some (new_user E nickname avatar w), w\<lparr>ud_users := ud_users w @ [new_user E nickname avatar w]\<rparr>))) (\<lambda>r.
       case r of None \<Rightarrow> throw sql_error | Some x \<Rightarrow> ret x)"

section \<open>Finding or creating (\<^verbatim>\<open>user.go\<close>)\<close>

definition ensure_body :: "user_env \<Rightarrow> EnsureIdentityInput \<Rightarrow> (user_db, User \<times> Identity \<times> bool) io" where
  "ensure_body E i =
     tryE (findByIdentityTx (ei_Type i) (ei_Subject i)) (\<lambda>r. case r of
       Inr (u, x) \<Rightarrow> ret (u, x, False)
     | Inl e \<Rightarrow>
         if \<not> errors_Is e ErrNotFound then throw e
         else
           bindE (if ei_UnionKey i \<noteq> [] then bindE (lockUnionKeyTx (ei_UnionKey i)) (\<lambda>_. unionOwner (ei_UnionKey i)) else ret None) (\<lambda>owner.
           bindE (case owner of
                    Some u \<Rightarrow> ret (u, False)
                  | None \<Rightarrow> bindE (insertUserTx E (ei_Nickname i) (ei_AvatarURL i)) (\<lambda>u. ret (user_ID u, True))) (\<lambda>(u, created).
           bindE (insertIdentityTx E u i) (\<lambda>x.
           bindE (getUserTx u) (\<lambda>usr. ret (usr, x, created))))))"

definition ensureOnce :: "user_env \<Rightarrow> EnsureIdentityInput \<Rightarrow> (user_db, User \<times> Identity \<times> bool) io" where
  "ensureOnce E i = u_tx (ensure_body E i)"

text \<open>A second attempt after a conflict, as a concurrent first login leaves one.\<close>

definition retried :: "(user_db, 'a) io \<Rightarrow> (user_db, 'a) io" where
  "retried m = tryE m (\<lambda>r. case r of Inr x \<Rightarrow> ret x | Inl e \<Rightarrow> if errors_Is e ErrConflict then m else throw e)"

definition EnsureUserWithIdentity :: "user_env \<Rightarrow> EnsureIdentityInput \<Rightarrow> (user_db, User \<times> Identity \<times> bool) io" where
  "EnsureUserWithIdentity E i0 =
     (let i = input_normalize E i0
      in case input_validate i of Some e \<Rightarrow> throw e | None \<Rightarrow> retried (ensureOnce E i))"

text \<open>An identity of another account's union key is refused: no constraint of the database would.\<close>

definition attach_body :: "user_env \<Rightarrow> uuid \<Rightarrow> EnsureIdentityInput \<Rightarrow> (user_db, Identity) io" where
  "attach_body E u i =
     bindE (if ei_UnionKey i = [] then ret ()
            else bindE (lockUnionKeyTx (ei_UnionKey i)) (\<lambda>_. bindE (unionOwner (ei_UnionKey i)) (\<lambda>owner.
              if owner \<noteq> None \<and> owner \<noteq> Some u then throw (DomainErr ErrConflict CodeUnionKeyConflict) else ret ())))
          (\<lambda>_. insertIdentityTx E u i)"

definition AttachIdentity :: "user_env \<Rightarrow> uuid \<Rightarrow> EnsureIdentityInput \<Rightarrow> (user_db, Identity) io" where
  "AttachIdentity E u i0 =
     (let i = input_normalize E i0
      in case input_validate i of
           Some e \<Rightarrow> throw e
         | None \<Rightarrow>
             u_tx (attach_body E u i))"

definition FindByIdentity :: "user_env \<Rightarrow> string \<Rightarrow> string \<Rightarrow> (user_db, User \<times> Identity) io" where
  "FindByIdentity E typ subject = findByIdentityTx typ (normalizeSubject E typ subject)"

definition FindByUnionKey :: "string \<Rightarrow> (user_db, User) io" where
  "FindByUnionKey k0 =
     (let k = TrimSpace k0
      in if k = [] then throw invalid_argument
         else bindE (unionOwner k) (\<lambda>owner.
           case owner of None \<Rightarrow> throw (DomainErr ErrNotFound CodeUnionKeyNotFound) | Some u \<Rightarrow> getUserTx u))"

definition ListIdentities :: "uuid \<Rightarrow> (user_db, Identity list) io" where
  "ListIdentities u = u_query (\<lambda>w. sort_key idn_CreatedAt (filter (\<lambda>i. idn_UserID i = u) (ud_identities w)))"

definition touched :: "uuid \<Rightarrow> int \<Rightarrow> Identity \<Rightarrow> Identity" where
  "touched i t x = (if idn_ID x = i then x\<lparr>idn_LastLoginAt := t\<rparr> else x)"

definition TouchIdentityLogin :: "uuid \<Rightarrow> (user_db, unit) io" where
  "TouchIdentityLogin i =
     bindE (u_stmt (\<lambda>w. (list_ex (\<lambda>x. idn_ID x = i) (ud_identities w),
         w\<lparr>ud_identities := map (touched i (ud_now w)) (ud_identities w)\<rparr>))) (\<lambda>found.
       if found then ret () else throw (DomainErr ErrNotFound CodeIdentityNotFound))"

text \<open>\<^verbatim>\<open>ON CONFLICT DO NOTHING\<close>: neither a second row for the pair nor a second registration of the user is written.\<close>

definition EnsureRegistration :: "uuid \<Rightarrow> uuid \<Rightarrow> bool \<Rightarrow> (user_db, unit) io" where
  "EnsureRegistration u app registered =
     bindE (u_stmt (\<lambda>w.
       if \<not> list_ex (\<lambda>x. user_ID x = u) (ud_users w) then (False, w)
       else if list_ex (\<lambda>x. (xr_user x = u \<and> xr_app x = app) \<or> (registered \<and> xr_user x = u \<and> xr_registration x)) (ud_extra w)
       then (True, w)
       else (True, w\<lparr>ud_extra := ud_extra w @ [\<lparr>xr_user = u, xr_app = app, xr_registration = registered\<rparr>]\<rparr>))) (\<lambda>ok.
       if ok then ret () else throw sql_error)"

section \<open>Binding to a phone number (\<^verbatim>\<open>user_link.go\<close>)\<close>

record LinkPhoneInput =
  lp_Phone :: string
  lp_Identity :: EnsureIdentityInput

record LinkPhoneResult =
  lr_User :: User
  lr_Identity :: Identity
  lr_Created :: bool
  lr_Replaced :: "Identity list"

definition thirdPartyOwnerTx :: "EnsureIdentityInput \<Rightarrow> (user_db, uuid option) io" where
  "thirdPartyOwnerTx tp =
     tryE (findByIdentityTx (ei_Type tp) (ei_Subject tp)) (\<lambda>r. case r of
       Inr (u, i) \<Rightarrow> ret (Some (user_ID u))
     | Inl e \<Rightarrow>
         if \<not> errors_Is e ErrNotFound then throw e
         else if ei_UnionKey tp = [] then ret None
         else unionOwner (ei_UnionKey tp))"

definition deleteIdentitiesTx :: "(Identity \<Rightarrow> bool) \<Rightarrow> (user_db, Identity list) io" where
  "deleteIdentitiesTx P =
     u_stmt (\<lambda>w. (filter P (ud_identities w), w\<lparr>ud_identities := filter (\<lambda>i. \<not> P i) (ud_identities w)\<rparr>))"

text \<open>The loop goes over the identities replaced first, not over those it adds.\<close>

fun replace_unions :: "uuid \<Rightarrow> string \<Rightarrow> Identity list \<Rightarrow> (user_db, Identity list) io" where
  "replace_unions target k [] = ret []"
| "replace_unions target k (old # olds) =
     (if idn_UnionKey old = [] \<or> idn_UnionKey old = k then replace_unions target k olds
      else bindE (deleteIdentitiesTx (\<lambda>i. idn_UserID i = target \<and> idn_UnionKey i = idn_UnionKey old)) (\<lambda>more.
           bindE (replace_unions target k olds) (\<lambda>rest. ret (more @ rest))))"

text \<open>The account the phone number goes to: its own, that of the third party's identity, a new one.\<close>

definition link_target :: "user_env \<Rightarrow> LinkPhoneInput \<Rightarrow> (user_db, uuid \<times> bool \<times> bool) io" where
  "link_target E i =
     (let tp = lp_Identity i in
      bindE (lockUnionKeyTx (''phone:'' @ lp_Phone i)) (\<lambda>_.
      bindE (if ei_UnionKey tp \<noteq> [] then lockUnionKeyTx (ei_UnionKey tp) else ret ()) (\<lambda>_.
      bindE (tryE (findByIdentityTx IdentityTypePhone (lp_Phone i)) (\<lambda>r. case r of
               Inr (u, x) \<Rightarrow> ret (Some (user_ID u), True)
             | Inl e \<Rightarrow> if \<not> errors_Is e ErrNotFound then throw e
                 else bindE (thirdPartyOwnerTx tp) (\<lambda>o'. ret (o', False)))) (\<lambda>(owner, hasPhone).
        case owner of
          Some u \<Rightarrow> ret (u, False, hasPhone)
        | None \<Rightarrow> bindE (insertUserTx E (ei_Nickname tp) (ei_AvatarURL tp)) (\<lambda>u. ret (user_ID u, True, hasPhone))))))"

definition phone_input :: "string \<Rightarrow> EnsureIdentityInput" where
  "phone_input p =
     \<lparr>ei_Type = IdentityTypePhone, ei_Subject = p, ei_UnionKey = [], ei_Credential = [], ei_Nickname = [], ei_AvatarURL = []\<rparr>"

definition link_identities :: "user_env \<Rightarrow> LinkPhoneInput \<Rightarrow> uuid \<times> bool \<times> bool \<Rightarrow> (user_db, LinkPhoneResult) io" where
  "link_identities E i t =
     (case t of (target, created, hasPhone) \<Rightarrow> let tp = lp_Identity i in
      bindE (if hasPhone then ret () else bindE (insertIdentityTx E target (phone_input (lp_Phone i))) (\<lambda>_. ret ())) (\<lambda>_.
      bindE (deleteIdentitiesTx (\<lambda>x. idn_UserID x = target \<and> idn_Type x = ei_Type tp \<and> idn_Subject x \<noteq> ei_Subject tp)) (\<lambda>replaced.
      bindE (replace_unions target (ei_UnionKey tp) replaced) (\<lambda>more.
      bindE (deleteIdentitiesTx (\<lambda>x. idn_UserID x \<noteq> target \<and>
               (idn_is (ei_Type tp) (ei_Subject tp) x \<or> (ei_UnionKey tp \<noteq> [] \<and> idn_UnionKey x = ei_UnionKey tp)))) (\<lambda>_.
      bindE (tryE (findByIdentityTx (ei_Type tp) (ei_Subject tp)) (\<lambda>r. case r of
               Inr (u, x) \<Rightarrow> ret x
             | Inl e \<Rightarrow> if errors_Is e ErrNotFound then insertIdentityTx E target tp else throw e)) (\<lambda>x.
      bindE (getUserTx target) (\<lambda>u.
        ret \<lparr>lr_User = u, lr_Identity = x, lr_Created = created, lr_Replaced = replaced @ more\<rparr>)))))))"

definition link_body :: "user_env \<Rightarrow> LinkPhoneInput \<Rightarrow> (user_db, LinkPhoneResult) io" where
  "link_body E i = bindE (link_target E i) (link_identities E i)"

definition linkPhoneOnce :: "user_env \<Rightarrow> LinkPhoneInput \<Rightarrow> (user_db, LinkPhoneResult) io" where
  "linkPhoneOnce E i = u_tx (link_body E i)"

definition LinkPhone :: "user_env \<Rightarrow> LinkPhoneInput \<Rightarrow> (user_db, LinkPhoneResult) io" where
  "LinkPhone E i0 =
     (let tp = input_normalize E (lp_Identity i0)
      in case input_validate tp of
           Some e \<Rightarrow> throw e
         | None \<Rightarrow>
             (let i = \<lparr>lp_Phone = normalizeSubject E IdentityTypePhone (lp_Phone i0), lp_Identity = tp\<rparr>
              in if lp_Phone i = [] then throw (DomainErr ErrInvalidArgument CodePhoneInvalid) else retried (linkPhoneOnce E i)))"

section \<open>What statements and transactions do\<close>

text \<open>The tables, without the faults to come.\<close>

definition tables :: "user_db \<Rightarrow> User list \<times> Identity list \<times> extra_row list \<times> int" where
  "tables w = (ud_users w, ud_identities w, ud_extra w, ud_now w)"

lemma tables_fields:
  "tables w' = tables w \<longleftrightarrow> ud_users w' = ud_users w \<and> ud_identities w' = ud_identities w \<and> ud_extra w' = ud_extra w \<and> ud_now w' = ud_now w"
  by (auto simp: tables_def)

lemma tables_faults [simp]: "tables (w\<lparr>ud_faults := bs\<rparr>) = tables w"
  by (simp add: tables_def)

lemma tables_rolled_back [simp]: "tables (rolled_back w w') = tables w"
  by (simp add: rolled_back_def)

lemma u_stmt_Inr: "u_stmt f w = (Inr x, w') \<Longrightarrow> \<exists>bs. f (w\<lparr>ud_faults := bs\<rparr>) = (x, w')"
  by (auto simp: u_stmt_def Let_def split: fault.splits prod.splits list.splits)

lemma u_stmt_any: "u_stmt f w = (r, w') \<Longrightarrow> \<exists>bs. w' = w\<lparr>ud_faults := bs\<rparr> \<or> w' = snd (f (w\<lparr>ud_faults := bs\<rparr>))"
  by (auto simp: u_stmt_def Let_def split: fault.splits prod.splits) (metis snd_conv)

lemma u_stmt_Inl: "u_stmt f w = (Inl e, w') \<Longrightarrow> e = sql_error"
  by (auto simp: u_stmt_def Let_def split: fault.splits prod.splits)

lemma sql_error_is [simp]: "errors_Is sql_error s = False"
  by (simp add: sql_error_def)

lemma u_query_Inr: "u_query f w = (Inr x, w') \<Longrightarrow> tables w' = tables w \<and> (\<exists>bs. x = f (w\<lparr>ud_faults := bs\<rparr>))"
  using u_stmt_Inr by fastforce

lemma u_query_tables: "u_query f w = (r, w') \<Longrightarrow> tables w' = tables w"
  using u_stmt_any by fastforce

text \<open>A transaction: what its body does, or nothing; after an error the body may have been committed all the same.\<close>

lemma u_tx_Inr:
  assumes "u_tx m w = (Inr x, w')"
  shows "\<exists>w1 w2. tables w1 = tables w \<and> m w1 = (Inr x, w2) \<and> tables w' = tables w2"
proof -
  obtain b w1 where b: "u_query (\<lambda>_. ()) w = (b, w1)" by fastforce
  obtain r w2 where m: "m w1 = (r, w2)" by fastforce
  have "tables w1 = tables w" using u_query_tables [OF b] .
  then show ?thesis using assms b m
    by (cases b; cases r) (auto simp: u_tx_def Let_def split: fault.splits)
qed

lemma u_tx_Inl:
  assumes "u_tx m w = (Inl e, w')"
  shows "tables w' = tables w \<or> (\<exists>w1 w2 x. tables w1 = tables w \<and> m w1 = (Inr x, w2) \<and> tables w' = tables w2)"
proof -
  obtain b w1 where b: "u_query (\<lambda>_. ()) w = (b, w1)" by fastforce
  obtain r w2 where m: "m w1 = (r, w2)" by fastforce
  have "tables w1 = tables w" using u_query_tables [OF b] .
  then show ?thesis using assms b m
    by (cases b; cases r) (auto simp: u_tx_def Let_def split: fault.splits)
qed

text \<open>So a relation between the tables before and after that the body respects is respected by the transaction and its retry.\<close>

lemma u_tx_respects:
  assumes "\<And>w x w'. P (tables w) \<Longrightarrow> m w = (Inr x, w') \<Longrightarrow> P (tables w')" and "P (tables w)" and "u_tx m w = (r, w')"
  shows "P (tables w')"
proof (cases r)
  case (Inl e)
  show ?thesis using u_tx_Inl [OF assms(3) [unfolded Inl]] assms(1,2) by metis
next
  case (Inr x)
  show ?thesis using u_tx_Inr [OF assms(3) [unfolded Inr]] assms(1,2) by metis
qed

lemma retried_respects:
  assumes "\<And>w r w'. P (tables w) \<Longrightarrow> m w = (r, w') \<Longrightarrow> P (tables w')" and "P (tables w)" and "retried m w = (r, w')"
  shows "P (tables w')"
proof -
  obtain r1 w1 where m: "m w = (r1, w1)" by fastforce
  then have "P (tables w1)" using assms(1,2) by blast
  then show ?thesis using assms(1,3) m by (cases r1) (auto simp: retried_def tryE_def split: if_splits)
qed

section \<open>The tables stay well formed\<close>

definition idn_key :: "Identity \<Rightarrow> string \<times> string" where
  "idn_key i = (idn_Type i, idn_Subject i)"

lemma idn_is_key: "idn_is t s i \<longleftrightarrow> idn_key i = (t, s)"
  by (simp add: idn_is_def idn_key_def)

text \<open>An identifier belongs to one account, which exists; identifiers with the same union key belong to the same account.\<close>

definition one_owner :: "Identity list \<Rightarrow> bool" where
  "one_owner is \<longleftrightarrow> (\<forall>i \<in> set is. \<forall>j \<in> set is. idn_UnionKey i \<noteq> [] \<longrightarrow> idn_UnionKey i = idn_UnionKey j \<longrightarrow> idn_UserID i = idn_UserID j)"

definition owners_exist :: "User list \<Rightarrow> Identity list \<Rightarrow> bool" where
  "owners_exist us is \<longleftrightarrow> (\<forall>i \<in> set is. idn_UserID i \<in> user_ID ` set us)"

fun accounts_ok :: "User list \<times> Identity list \<times> extra_row list \<times> int \<Rightarrow> bool" where
  "accounts_ok (us, is, xs, t) \<longleftrightarrow> distinct (map user_ID us) \<and> distinct (map idn_key is) \<and> distinct (map idn_ID is) \<and>
     (\<forall>i \<in> set is. idn_Type i \<noteq> [] \<and> idn_Subject i \<noteq> []) \<and> owners_exist us is \<and> one_owner is"

lemma accounts_okD:
  assumes "accounts_ok (tables w)"
  shows "distinct (map user_ID (ud_users w))" "distinct (map idn_key (ud_identities w))"
    "owners_exist (ud_users w) (ud_identities w)" "one_owner (ud_identities w)"
  using assms by (auto simp: tables_def)

text \<open>Deleting identities and adding accounts is harmless.\<close>

lemma accounts_ok_filter:
  assumes "accounts_ok (us, is, xs, t)"
  shows "accounts_ok (us, filter P is, xs, t)"
  using assms by (auto simp: owners_exist_def one_owner_def distinct_map_filter)

lemma accounts_ok_user:
  assumes "accounts_ok (us, is, xs, t)" and "user_ID u \<notin> user_ID ` set us"
  shows "accounts_ok (us @ [u], is, xs, t)"
  using assms by (auto simp: owners_exist_def)

lemma accounts_ok_insert:
  assumes "accounts_ok (us, is, xs, t)" and "idn_key i \<notin> idn_key ` set is" and "idn_ID i \<notin> idn_ID ` set is"
    and "idn_Type i \<noteq> []" and "idn_Subject i \<noteq> []" and "idn_UserID i \<in> user_ID ` set us"
    and "\<And>j. j \<in> set is \<Longrightarrow> idn_UnionKey i \<noteq> [] \<Longrightarrow> idn_UnionKey j = idn_UnionKey i \<Longrightarrow> idn_UserID j = idn_UserID i"
  shows "accounts_ok (us, is @ [i], xs, t)"
proof -
  have "one_owner (is @ [i])"
    unfolding one_owner_def
  proof (intro ballI impI)
    fix a b assume ab: "a \<in> set (is @ [i])" "b \<in> set (is @ [i])" "idn_UnionKey a \<noteq> []" "idn_UnionKey a = idn_UnionKey b"
    show "idn_UserID a = idn_UserID b"
    proof (cases "a \<in> set is \<and> b \<in> set is")
      case True
      then show ?thesis using assms(1) ab by (simp add: one_owner_def)
    next
      case False
      then consider "a = i" "b = i" | "a = i" "b \<in> set is" | "b = i" "a \<in> set is" using ab(1,2) by auto
      then show ?thesis
      proof cases
        case 2
        then show ?thesis using assms(7) [of b] ab(3,4) by metis
      next
        case 3
        then show ?thesis using assms(7) [of a] ab(3,4) by metis
      qed blast
    qed
  qed
  then show ?thesis using assms(1-6) by (simp add: owners_exist_def)
qed

lemma find_unique_key: "distinct (map idn_key is) \<Longrightarrow> i \<in> set is \<Longrightarrow> idn_key i = (t, s) \<Longrightarrow> find (idn_is t s) is = Some i"
proof (induction "is")
  case (Cons j "is")
  then show ?case by (cases "i = j") (auto simp: idn_is_key image_iff)
qed simp

lemma getUserTx_tables: "getUserTx u w = (r, w') \<Longrightarrow> tables w' = tables w"
  unfolding getUserTx_def bindE_def by (auto split: prod.splits sum.splits option.splits dest: u_query_tables)

lemma getUserTx_Inr:
  assumes "getUserTx u w = (Inr x, w')"
  shows "tables w' = tables w \<and> x \<in> set (ud_users w) \<and> user_ID x = u"
proof -
  obtain r w1 where q: "u_query (\<lambda>w. find (\<lambda>x. user_ID x = u) (ud_users w)) w = (Inr r, w1)"
    "(case r of None \<Rightarrow> throw (DomainErr ErrNotFound CodeNoUser) | Some x \<Rightarrow> ret x) w1 = (Inr x, w')"
    using assms by (auto simp: getUserTx_def bindE_Inr_iff)
  then show ?thesis using u_query_Inr [OF q(1)] by (auto split: option.splits simp: find_Some_iff)
qed

lemma getUserTx_Inl:
  assumes "getUserTx u w = (Inl e, w')" and "errors_Is e ErrNotFound"
  shows "u \<notin> user_ID ` set (ud_users w)"
proof -
  obtain r w1 where q: "u_query (\<lambda>w. find (\<lambda>x. user_ID x = u) (ud_users w)) w = (r, w1)" by fastforce
  then show ?thesis
  proof (cases r)
    case (Inl e')
    then have "e' = sql_error" using q u_stmt_Inl by blast
    then show ?thesis using Inl q assms by (simp add: getUserTx_def bindE_def)
  next
    case (Inr x)
    then have "u_query (\<lambda>w. find (\<lambda>x. user_ID x = u) (ud_users w)) w = (Inr x, w1)" using q by simp
    from u_query_Inr [OF this] have "x = find (\<lambda>x. user_ID x = u) (ud_users w)" by auto
    then show ?thesis using q Inr assms by (auto simp: getUserTx_def bindE_def find_None_iff split: option.splits)
  qed
qed

text \<open>A lookup by identifier.\<close>

lemma findByIdentityTx_tables: "findByIdentityTx t s w = (r, w') \<Longrightarrow> tables w' = tables w"
  unfolding findByIdentityTx_def bindE_def
  by (auto split: prod.splits sum.splits option.splits dest!: u_query_tables getUserTx_tables)

lemma findByIdentityTx_Inr:
  assumes "findByIdentityTx t s w = (Inr (u, i), w')"
  shows "find (idn_is t s) (ud_identities w) = Some i \<and> u \<in> set (ud_users w) \<and> user_ID u = idn_UserID i"
proof -
  obtain r w1 where q: "u_query (\<lambda>w. find (idn_is t s) (ud_identities w)) w = (Inr r, w1)"
    "(case r of None \<Rightarrow> throw (DomainErr ErrNotFound CodeIdentityNotFound)
      | Some i \<Rightarrow> bindE (getUserTx (idn_UserID i)) (\<lambda>u. ret (u, i))) w1 = (Inr (u, i), w')"
    using assms by (auto simp: findByIdentityTx_def bindE_Inr_iff)
  have r: "tables w1 = tables w" "r = find (idn_is t s) (ud_identities w)" using u_query_Inr [OF q(1)] by auto
  then obtain x where x: "r = Some x" "getUserTx (idn_UserID x) w1 = (Inr u, w')" "x = i"
    using q(2) by (auto simp: bindE_Inr_iff split: option.splits)
  then show ?thesis using getUserTx_Inr [OF x(2)] r by (auto simp: tables_fields)
qed

lemma findByIdentityTx_NotFound:
  assumes "findByIdentityTx t s w = (Inl e, w')" and "errors_Is e ErrNotFound" and "owners_exist (ud_users w) (ud_identities w)"
  shows "find (idn_is t s) (ud_identities w) = None"
proof (rule ccontr)
  assume "find (idn_is t s) (ud_identities w) \<noteq> None"
  then obtain i where i: "find (idn_is t s) (ud_identities w) = Some i" by blast
  then have "idn_UserID i \<in> user_ID ` set (ud_users w)" using assms(3) by (auto simp: owners_exist_def find_Some_iff)
  moreover obtain r w1 where q: "u_query (\<lambda>w. find (idn_is t s) (ud_identities w)) w = (r, w1)" by fastforce
  ultimately show False
  proof (cases r)
    case (Inl e')
    then have "e' = sql_error" using q u_stmt_Inl by blast
    then show False using Inl q assms(1,2) by (auto simp: findByIdentityTx_def bindE_def)
  next
    case (Inr x)
    then have "u_query (\<lambda>w. find (idn_is t s) (ud_identities w)) w = (Inr x, w1)" using q by simp
    from u_query_Inr [OF this] have "tables w1 = tables w" "x = Some i" using i by auto
    then have "getUserTx (idn_UserID i) w1 = (Inl e, w')" "ud_users w1 = ud_users w"
      using q Inr assms(1) by (auto simp: findByIdentityTx_def bindE_def tables_fields split: prod.splits sum.splits)
    then show False using getUserTx_Inl [OF _ assms(2)] \<open>idn_UserID i \<in> user_ID ` set (ud_users w)\<close> by metis
  qed
qed

lemma insertIdentityTx_Inr:
  assumes "insertIdentityTx E u i w = (Inr x, w')"
  shows "ud_users w' = ud_users w \<and> ud_identities w' = ud_identities w @ [x] \<and> ud_extra w' = ud_extra w \<and> ud_now w' = ud_now w \<and>
    idn_UserID x = u \<and> idn_Type x = ei_Type i \<and> idn_Subject x = ei_Subject i \<and> idn_UnionKey x = ei_UnionKey i \<and>
    idn_key x \<notin> idn_key ` set (ud_identities w) \<and> idn_ID x \<notin> idn_ID ` set (ud_identities w) \<and> u \<in> user_ID ` set (ud_users w)"
proof -
  obtain r w1 where q: "u_stmt (\<lambda>w.
       if list_ex (\<lambda>x. idn_is (ei_Type i) (ei_Subject i) x \<or> idn_ID x = ue_newIdentityID E w) (ud_identities w) then (Duplicate, w)
       else if \<not> list_ex (\<lambda>x. user_ID x = u) (ud_users w) then (Dangling, w)
       else (Inserted (new_identity E u i w), w\<lparr>ud_identities := ud_identities w @ [new_identity E u i w]\<rparr>)) w = (Inr r, w1)"
    and k: "(case r of Inserted x \<Rightarrow> ret x | Duplicate \<Rightarrow> throw (DomainErr ErrConflict CodeUnionKeyConflict) | Dangling \<Rightarrow> throw sql_error) w1
       = (Inr x, w')"
    using assms by (auto simp: insertIdentityTx_def bindE_Inr_iff)
  from k have "r = Inserted x" "w1 = w'" by (auto split: inserted.splits)
  with u_stmt_Inr [OF q] show ?thesis
    by (auto simp: new_identity_def idn_is_key idn_key_def list_ex_iff split: if_splits)
qed

lemma insertUserTx_Inr:
  assumes "insertUserTx E n a w = (Inr u, w')"
  shows "ud_users w' = ud_users w @ [u] \<and> ud_identities w' = ud_identities w \<and> ud_extra w' = ud_extra w \<and> ud_now w' = ud_now w \<and>
    user_ID u \<notin> user_ID ` set (ud_users w) \<and> user_Status u = UserStatusActive"
proof -
  obtain r w1 where q: "u_stmt (\<lambda>w.
       if list_ex (\<lambda>x. user_ID x = ue_newUserID E w) (ud_users w) then (None, w)
       else (Some (new_user E n a w), w\<lparr>ud_users := ud_users w @ [new_user E n a w]\<rparr>)) w = (Inr r, w1)"
    and k: "(case r of None \<Rightarrow> throw sql_error | Some x \<Rightarrow> ret x) w1 = (Inr u, w')"
    using assms by (auto simp: insertUserTx_def bindE_Inr_iff)
  from k have "r = Some u" "w1 = w'" by (auto split: option.splits)
  with u_stmt_Inr [OF q] show ?thesis by (auto simp: new_user_def list_ex_iff split: if_splits)
qed

text \<open>Whose an identifier is, by the rules of merging; \<^verbatim>\<open>None\<close> for nobody's.\<close>

definition owner_of :: "EnsureIdentityInput \<Rightarrow> Identity list \<Rightarrow> uuid option" where
  "owner_of i is =
     (case find (idn_is (ei_Type i) (ei_Subject i)) is of
        Some x \<Rightarrow> Some (idn_UserID x)
      | None \<Rightarrow> if ei_UnionKey i \<noteq> [] then map_option idn_UserID (find (\<lambda>x. idn_UnionKey x = ei_UnionKey i) is) else None)"

definition ensured :: "EnsureIdentityInput \<Rightarrow> user_db \<Rightarrow> User \<times> Identity \<times> bool \<Rightarrow> user_db \<Rightarrow> bool" where
  "ensured i w r w' = (case r of (u, x, created) \<Rightarrow>
     idn_UserID x = user_ID u \<and> idn_key x = (ei_Type i, ei_Subject i) \<and> ud_extra w' = ud_extra w \<and> ud_now w' = ud_now w \<and>
     (case owner_of i (ud_identities w) of
        Some a \<Rightarrow> user_ID u = a \<and> \<not> created \<and> u \<in> set (ud_users w) \<and> ud_users w' = ud_users w
      | None \<Rightarrow> created \<and> user_ID u \<notin> user_ID ` set (ud_users w) \<and> ud_users w' = ud_users w @ [u] \<and> user_Status u = UserStatusActive) \<and>
     (case find (idn_is (ei_Type i) (ei_Subject i)) (ud_identities w) of
        Some y \<Rightarrow> x = y \<and> ud_identities w' = ud_identities w
      | None \<Rightarrow> ud_identities w' = ud_identities w @ [x] \<and> idn_UnionKey x = ei_UnionKey i \<and> idn_ID x \<notin> idn_ID ` set (ud_identities w)))"

lemma union_owner_Inr:
  assumes "(if k \<noteq> [] then bindE (lockUnionKeyTx k) (\<lambda>_. unionOwner k) else ret None) w = (Inr owner, w')"
  shows "tables w' = tables w \<and>
    owner = (if k \<noteq> [] then map_option idn_UserID (find (\<lambda>x. idn_UnionKey x = k) (ud_identities w)) else None)"
proof (cases "k = []")
  case False
  then obtain w1 where l: "lockUnionKeyTx k w = (Inr (), w1)" "unionOwner k w1 = (Inr owner, w')" using assms by (auto simp: bindE_Inr_iff)
  show ?thesis using u_query_Inr [OF l(1) [unfolded lockUnionKeyTx_def]] u_query_Inr [OF l(2) [unfolded unionOwner_def]] False
    by (auto simp: tables_fields)
qed (use assms in simp)

lemma ensure_body_effect:
  assumes "ensure_body E i w = (Inr r, w')" and "accounts_ok (tables w)"
  shows "ensured i w r w'"
proof -
  note ok = accounts_okD [OF assms(2)]
  obtain l w1 where l: "findByIdentityTx (ei_Type i) (ei_Subject i) w = (l, w1)" by fastforce
  have t1: "tables w1 = tables w" by (rule findByIdentityTx_tables [OF l])
  show ?thesis
  proof (cases l)
    case (Inr ux)
    obtain u x where ux: "ux = (u, x)" by fastforce
    then have "r = (u, x, False)" "w' = w1" using assms(1) l Inr by (auto simp: ensure_body_def tryE_def)
    moreover note f = findByIdentityTx_Inr [OF l [unfolded Inr ux]]
    moreover have "idn_key x = (ei_Type i, ei_Subject i)" using f by (auto simp: find_Some_iff idn_is_key)
    ultimately show ?thesis using t1 by (simp add: ensured_def owner_of_def tables_fields)
  next
    case (Inl e)
    then have nf: "errors_Is e ErrNotFound" using assms(1) l by (auto simp: ensure_body_def tryE_def split: if_splits)
    have none: "find (idn_is (ei_Type i) (ei_Subject i)) (ud_identities w) = None"
      by (rule findByIdentityTx_NotFound [OF l [unfolded Inl] nf ok(3)])
    obtain owner w2 u c w3 x w4 usr where steps:
      "(if ei_UnionKey i \<noteq> [] then bindE (lockUnionKeyTx (ei_UnionKey i)) (\<lambda>_. unionOwner (ei_UnionKey i)) else ret None) w1 = (Inr owner, w2)"
      "(case owner of Some u \<Rightarrow> ret (u, False)
         | None \<Rightarrow> bindE (insertUserTx E (ei_Nickname i) (ei_AvatarURL i)) (\<lambda>u. ret (user_ID u, True))) w2 = (Inr (u, c), w3)"
      "insertIdentityTx E u i w3 = (Inr x, w4)" "getUserTx u w4 = (Inr usr, w')" "r = (usr, x, c)"
      using assms(1) l Inl nf by (auto simp: ensure_body_def tryE_def bindE_Inr_iff)
    have o: "tables w2 = tables w" "owner = owner_of i (ud_identities w)"
      using union_owner_Inr [OF steps(1)] t1 none by (auto simp: owner_of_def tables_fields)
    note ins = insertIdentityTx_Inr [OF steps(3)] and g = getUserTx_Inr [OF steps(4)]
    have key: "idn_key x = (ei_Type i, ei_Subject i)" using ins by (simp add: idn_key_def)
    show ?thesis
    proof (cases owner)
      case (Some a)
      then have "w3 = w2" "u = a" "\<not> c" using steps(2) by auto
      then show ?thesis using Some o ins g key steps(5) none by (auto simp: ensured_def tables_fields)
    next
      case None
      then obtain u0 where u0: "insertUserTx E (ei_Nickname i) (ei_AvatarURL i) w2 = (Inr u0, w3)" "u = user_ID u0" "c"
        using steps(2) by (auto simp: bindE_Inr_iff)
      note nu = insertUserTx_Inr [OF u0(1)]
      have "usr \<in> set (ud_users w) \<or> usr = u0" "user_ID usr = user_ID u0" using g ins nu o(1) u0(2) by (auto simp: tables_fields)
      then have "usr = u0" using nu o(1) by (metis tables_fields image_eqI)
      then show ?thesis using None o ins g key nu u0 steps(5) none by (auto simp: ensured_def tables_fields)
    qed
  qed
qed

lemma ensured_ok:
  assumes "ensured i w (u, x, c) w'" and "accounts_ok (tables w)" and "ei_Type i \<noteq> []" and "ei_Subject i \<noteq> []"
  shows "accounts_ok (tables w')"
proof -
  note e = assms(1) [unfolded ensured_def prod.case]
  have users: "accounts_ok (ud_users w', ud_identities w, ud_extra w, ud_now w)"
    using assms(2) e accounts_ok_user [of "ud_users w" "ud_identities w" "ud_extra w" "ud_now w" u]
    by (auto simp: tables_def split: option.splits)
  show ?thesis
  proof (cases "find (idn_is (ei_Type i) (ei_Subject i)) (ud_identities w)")
    case (Some y)
    then show ?thesis using users e by (simp add: tables_def)
  next
    case None
    have "accounts_ok (ud_users w', ud_identities w @ [x], ud_extra w, ud_now w)"
    proof (rule accounts_ok_insert [OF users])
      show "idn_key x \<notin> idn_key ` set (ud_identities w)" using None e by (auto simp: find_None_iff idn_is_key)
      show "idn_ID x \<notin> idn_ID ` set (ud_identities w)" using None e by simp
      show "idn_Type x \<noteq> []" "idn_Subject x \<noteq> []" using e assms(3,4) by (auto simp: idn_key_def)
      show "idn_UserID x \<in> user_ID ` set (ud_users w')" using e by (auto split: option.splits)
    next
      fix j
      assume j: "j \<in> set (ud_identities w)" "idn_UnionKey x \<noteq> []" "idn_UnionKey j = idn_UnionKey x"
      then have k: "ei_UnionKey i \<noteq> []" "idn_UnionKey j = ei_UnionKey i" using None e by auto
      then obtain y where y: "find (\<lambda>x. idn_UnionKey x = ei_UnionKey i) (ud_identities w) = Some y"
        using j(1) by (cases "find (\<lambda>x. idn_UnionKey x = ei_UnionKey i) (ud_identities w)") (auto simp: find_None_iff)
      then have "owner_of i (ud_identities w) = Some (idn_UserID y)" using None k by (simp add: owner_of_def)
      then have "idn_UserID x = idn_UserID y" using e by simp
      moreover from y have "y \<in> set (ud_identities w)" "idn_UnionKey y = ei_UnionKey i" by (auto simp: find_Some_iff)
      then have "idn_UserID j = idn_UserID y" using accounts_okD(4) [OF assms(2)] j(1) k unfolding one_owner_def by metis
      ultimately show "idn_UserID j = idn_UserID x" by simp
    qed
    then show ?thesis using None e by (simp add: tables_def)
  qed
qed

text \<open>The same for binding to a phone number.\<close>

lemma thirdPartyOwnerTx_Inr:
  assumes "thirdPartyOwnerTx tp w = (Inr o', w')" and "accounts_ok (tables w)"
  shows "tables w' = tables w \<and> o' = owner_of tp (ud_identities w)"
proof -
  obtain l w1 where l: "findByIdentityTx (ei_Type tp) (ei_Subject tp) w = (l, w1)" by fastforce
  have t: "tables w1 = tables w" by (rule findByIdentityTx_tables [OF l])
  show ?thesis
  proof (cases l)
    case (Inr ux)
    obtain u x where ux: "ux = (u, x)" by fastforce
    have "find (idn_is (ei_Type tp) (ei_Subject tp)) (ud_identities w) = Some x \<and> user_ID u = idn_UserID x"
      using findByIdentityTx_Inr [OF l [unfolded Inr ux]] by simp
    moreover have "o' = Some (user_ID u) \<and> w' = w1" using assms(1) l Inr ux by (auto simp: thirdPartyOwnerTx_def tryE_def)
    ultimately show ?thesis using t by (simp add: owner_of_def)
  next
    case (Inl e)
    then have nf: "errors_Is e ErrNotFound" using assms(1) l by (auto simp: thirdPartyOwnerTx_def tryE_def split: if_splits)
    have none: "find (idn_is (ei_Type tp) (ei_Subject tp)) (ud_identities w) = None"
      by (rule findByIdentityTx_NotFound [OF l [unfolded Inl] nf accounts_okD(3) [OF assms(2)]])
    show ?thesis
    proof (cases "ei_UnionKey tp = []")
      case True
      then show ?thesis using assms(1) l Inl nf t none by (simp add: thirdPartyOwnerTx_def tryE_def owner_of_def)
    next
      case False
      then have u: "unionOwner (ei_UnionKey tp) w1 = (Inr o', w')" using assms(1) l Inl nf by (simp add: thirdPartyOwnerTx_def tryE_def)
      show ?thesis using u_query_Inr [OF u [unfolded unionOwner_def]] t none False by (auto simp: owner_of_def tables_fields)
    qed
  qed
qed

definition phone_owner :: "LinkPhoneInput \<Rightarrow> Identity list \<Rightarrow> uuid option" where
  "phone_owner i is =
     (case find (idn_is IdentityTypePhone (lp_Phone i)) is of Some x \<Rightarrow> Some (idn_UserID x) | None \<Rightarrow> owner_of (lp_Identity i) is)"

lemma link_target_Inr:
  assumes "link_target E i w = (Inr (t, c, hp), w')" and "accounts_ok (tables w)"
  shows "ud_identities w' = ud_identities w \<and> ud_extra w' = ud_extra w \<and> ud_now w' = ud_now w \<and>
    hp = (find (idn_is IdentityTypePhone (lp_Phone i)) (ud_identities w) \<noteq> None) \<and>
    (case phone_owner i (ud_identities w) of
       Some a \<Rightarrow> t = a \<and> \<not> c \<and> ud_users w' = ud_users w
     | None \<Rightarrow> c \<and> t \<notin> user_ID ` set (ud_users w) \<and> (\<exists>u. user_ID u = t \<and> ud_users w' = ud_users w @ [u]))"
proof -
  let ?tp = "lp_Identity i"
  let ?find = "tryE (findByIdentityTx IdentityTypePhone (lp_Phone i)) (\<lambda>r. case r of
               Inr (u, x) \<Rightarrow> ret (Some (user_ID u), True)
             | Inl e \<Rightarrow> if \<not> errors_Is e ErrNotFound then throw e else bindE (thirdPartyOwnerTx ?tp) (\<lambda>o'. ret (o', False)))"
  obtain w1 w2 owner w3 where s: "lockUnionKeyTx (''phone:'' @ lp_Phone i) w = (Inr (), w1)"
    "(if ei_UnionKey ?tp \<noteq> [] then lockUnionKeyTx (ei_UnionKey ?tp) else ret ()) w1 = (Inr (), w2)" "?find w2 = (Inr (owner, hp), w3)"
    "(case owner of Some u \<Rightarrow> ret (u, False, hp)
      | None \<Rightarrow> bindE (insertUserTx E (ei_Nickname ?tp) (ei_AvatarURL ?tp)) (\<lambda>u. ret (user_ID u, True, hp))) w3 = (Inr (t, c, hp), w')"
    using assms(1) by (auto simp: link_target_def Let_def bindE_Inr_iff split: option.splits)
  have t1: "tables w1 = tables w" using u_query_tables [OF s(1) [unfolded lockUnionKeyTx_def]] .
  have t2: "tables w2 = tables w"
    using s(2) t1 u_query_tables [of "\<lambda>_. ()" w1] by (auto simp: lockUnionKeyTx_def split: if_splits)
  obtain l w2' where l: "findByIdentityTx IdentityTypePhone (lp_Phone i) w2 = (l, w2')" by fastforce
  have t2': "tables w2' = tables w" using findByIdentityTx_tables [OF l] t2 by simp
  have o: "tables w3 = tables w \<and> owner = phone_owner i (ud_identities w) \<and>
      hp = (find (idn_is IdentityTypePhone (lp_Phone i)) (ud_identities w) \<noteq> None)"
  proof (cases l)
    case (Inr ux)
    obtain u x where ux: "ux = (u, x)" by fastforce
    have "find (idn_is IdentityTypePhone (lp_Phone i)) (ud_identities w) = Some x \<and> user_ID u = idn_UserID x"
      using findByIdentityTx_Inr [OF l [unfolded Inr ux]] t2 by (simp add: tables_fields)
    moreover have "owner = Some (user_ID u) \<and> hp \<and> w3 = w2'" using s(3) l Inr ux by (auto simp: tryE_def)
    ultimately show ?thesis using t2' by (simp add: phone_owner_def)
  next
    case (Inl e)
    then have nf: "errors_Is e ErrNotFound" using s(3) l by (auto simp: tryE_def split: if_splits)
    have none: "find (idn_is IdentityTypePhone (lp_Phone i)) (ud_identities w) = None"
      using findByIdentityTx_NotFound [OF l [unfolded Inl] nf] accounts_okD(3) [OF assms(2)] t2 by (simp add: tables_fields)
    have th: "thirdPartyOwnerTx ?tp w2' = (Inr owner, w3)" "\<not> hp" using s(3) l Inl nf by (auto simp: tryE_def bindE_Inr_iff)
    show ?thesis using thirdPartyOwnerTx_Inr [OF th(1)] th(2) assms(2) t2' none by (simp add: phone_owner_def tables_fields)
  qed
  show ?thesis
  proof (cases owner)
    case (Some a)
    then show ?thesis using o s(4) by (auto simp: tables_fields)
  next
    case None
    then obtain u where u: "insertUserTx E (ei_Nickname ?tp) (ei_AvatarURL ?tp) w3 = (Inr u, w')" "t = user_ID u" "c"
      using s(4) by (auto simp: bindE_Inr_iff)
    show ?thesis using insertUserTx_Inr [OF u(1)] u(2,3) o None by (auto simp: tables_fields)
  qed
qed

lemma deleteIdentitiesTx_Inr:
  assumes "deleteIdentitiesTx P w = (Inr r, w')"
  shows "r = filter P (ud_identities w) \<and> ud_identities w' = filter (\<lambda>x. \<not> P x) (ud_identities w) \<and> ud_users w' = ud_users w \<and>
    ud_extra w' = ud_extra w \<and> ud_now w' = ud_now w"
  using u_stmt_Inr [OF assms [unfolded deleteIdentitiesTx_def]] by auto

text \<open>What goes with the identities replaced: those of the account with one of their union keys.\<close>

definition goes_with :: "uuid \<Rightarrow> string \<Rightarrow> Identity list \<Rightarrow> Identity \<Rightarrow> bool" where
  "goes_with target k olds x \<longleftrightarrow> idn_UserID x = target \<and> idn_UnionKey x \<noteq> [] \<and> idn_UnionKey x \<noteq> k \<and> idn_UnionKey x \<in> idn_UnionKey ` set olds"

lemma replace_unions_Inr:
  assumes "replace_unions target k olds w = (Inr r, w')"
  shows "set r = {x \<in> set (ud_identities w). goes_with target k olds x} \<and>
    ud_identities w' = filter (\<lambda>x. \<not> goes_with target k olds x) (ud_identities w) \<and> ud_users w' = ud_users w \<and>
    ud_extra w' = ud_extra w \<and> ud_now w' = ud_now w"
  using assms
proof (induction olds arbitrary: w r)
  case Nil
  then show ?case by (simp add: goes_with_def)
next
  case (Cons old olds)
  show ?case
  proof (cases "idn_UnionKey old = [] \<or> idn_UnionKey old = k")
    case True
    then have "goes_with target k (old # olds) = goes_with target k olds" by (auto simp: goes_with_def fun_eq_iff)
    then show ?thesis using Cons True by simp
  next
    case False
    then obtain more w1 rest where d: "deleteIdentitiesTx (\<lambda>i. idn_UserID i = target \<and> idn_UnionKey i = idn_UnionKey old) w = (Inr more, w1)"
      "replace_unions target k olds w1 = (Inr rest, w')" "r = more @ rest"
      using Cons.prems by (auto simp: bindE_Inr_iff)
    have g: "goes_with target k (old # olds) x \<longleftrightarrow> (idn_UserID x = target \<and> idn_UnionKey x = idn_UnionKey old) \<or> goes_with target k olds x" for x
      using False by (auto simp: goes_with_def)
    show ?thesis using deleteIdentitiesTx_Inr [OF d(1)] Cons.IH [OF d(2)] d(3) by (auto simp: g conj_commute)
  qed
qed

text \<open>What a binding leaves of the identities there were, and of those it found or made.\<close>

definition third_party :: "EnsureIdentityInput \<Rightarrow> Identity \<Rightarrow> bool" where
  "third_party tp x \<longleftrightarrow> idn_is (ei_Type tp) (ei_Subject tp) x \<or> (ei_UnionKey tp \<noteq> [] \<and> idn_UnionKey x = ei_UnionKey tp)"

definition kept_by_link :: "EnsureIdentityInput \<Rightarrow> uuid \<Rightarrow> Identity list \<Rightarrow> Identity \<Rightarrow> bool" where
  "kept_by_link tp target replaced x \<longleftrightarrow>
     \<not> (idn_UserID x = target \<and> idn_Type x = ei_Type tp \<and> idn_Subject x \<noteq> ei_Subject tp) \<and>
     \<not> goes_with target (ei_UnionKey tp) replaced x \<and> \<not> (idn_UserID x \<noteq> target \<and> third_party tp x)"

definition linked :: "LinkPhoneInput \<Rightarrow> uuid \<Rightarrow> user_db \<Rightarrow> LinkPhoneResult \<Rightarrow> user_db \<Rightarrow> bool" where
  "linked i target w r w' \<longleftrightarrow>
     (\<exists>ph new replaced. ud_identities w' = filter (kept_by_link (lp_Identity i) target replaced) (ud_identities w @ ph) @ new \<and>
        (if find (idn_is IdentityTypePhone (lp_Phone i)) (ud_identities w) = None
         then \<exists>p. ph = [p] \<and> idn_key p = (IdentityTypePhone, lp_Phone i) \<and> idn_UserID p = target \<and> idn_UnionKey p = []
         else ph = []) \<and>
        replaced = filter (\<lambda>x. idn_UserID x = target \<and> idn_Type x = ei_Type (lp_Identity i) \<and> idn_Subject x \<noteq> ei_Subject (lp_Identity i))
          (ud_identities w @ ph) \<and>
        (new = [] \<or> (new = [lr_Identity r] \<and> idn_UnionKey (lr_Identity r) = ei_UnionKey (lp_Identity i)))) \<and>
     lr_Identity r \<in> set (ud_identities w') \<and> idn_key (lr_Identity r) = (ei_Type (lp_Identity i), ei_Subject (lp_Identity i)) \<and>
     idn_UserID (lr_Identity r) = target \<and> user_ID (lr_User r) = target \<and> lr_User r \<in> set (ud_users w') \<and> accounts_ok (tables w')"

lemma phone_insert:
  assumes "(if hp then ret () else bindE (insertIdentityTx E target (phone_input p)) (\<lambda>_. ret ())) w = (Inr (), w')"
    and "accounts_ok (tables w)" and "p \<noteq> []"
  shows "\<exists>ph. ud_identities w' = ud_identities w @ ph \<and> accounts_ok (tables w') \<and> ud_users w' = ud_users w \<and>
    (if hp then ph = [] else \<exists>x. ph = [x] \<and> idn_key x = (IdentityTypePhone, p) \<and> idn_UserID x = target \<and> idn_UnionKey x = [])"
proof (cases hp)
  case False
  then obtain x where x: "insertIdentityTx E target (phone_input p) w = (Inr x, w')" using assms(1) by (auto simp: bindE_Inr_iff)
  note f = insertIdentityTx_Inr [OF x]
  have k: "idn_key x = (IdentityTypePhone, p)" "idn_UnionKey x = []" using f by (simp_all add: idn_key_def phone_input_def)
  have "accounts_ok (ud_users w, ud_identities w @ [x], ud_extra w, ud_now w)"
    by (rule accounts_ok_insert) (use assms(2,3) f k in \<open>auto simp: tables_def phone_input_def IdentityTypePhone_def\<close>)
  then show ?thesis using f k False by (auto simp: tables_def)
qed (use assms in auto)

lemma find_or_insert:
  assumes "tryE (findByIdentityTx (ei_Type tp) (ei_Subject tp)) (\<lambda>r. case r of
               Inr (u, x) \<Rightarrow> ret x
             | Inl e \<Rightarrow> if errors_Is e ErrNotFound then insertIdentityTx E target tp else throw e) w = (Inr x, w')"
    and "accounts_ok (tables w)" and "\<And>y. y \<in> set (ud_identities w) \<Longrightarrow> third_party tp y \<Longrightarrow> idn_UserID y = target"
    and "ei_Type tp \<noteq> []" and "ei_Subject tp \<noteq> []"
  shows "\<exists>new. ud_identities w' = ud_identities w @ new \<and> (new = [] \<or> (new = [x] \<and> idn_UnionKey x = ei_UnionKey tp)) \<and>
    x \<in> set (ud_identities w') \<and> idn_key x = (ei_Type tp, ei_Subject tp) \<and> idn_UserID x = target \<and> ud_users w' = ud_users w \<and>
    accounts_ok (tables w')"
proof -
  obtain l w1 where l: "findByIdentityTx (ei_Type tp) (ei_Subject tp) w = (l, w1)" by fastforce
  have t: "tables w1 = tables w" by (rule findByIdentityTx_tables [OF l])
  show ?thesis
  proof (cases l)
    case (Inr ux)
    obtain u y where ux: "ux = (u, y)" by fastforce
    have "find (idn_is (ei_Type tp) (ei_Subject tp)) (ud_identities w) = Some y" using findByIdentityTx_Inr [OF l [unfolded Inr ux]] by simp
    then have "y \<in> set (ud_identities w)" "idn_is (ei_Type tp) (ei_Subject tp) y" by (auto simp: find_Some_iff)
    moreover have "x = y" "w' = w1" using assms(1) l Inr ux by (auto simp: tryE_def)
    moreover have "accounts_ok (tables w1)" using assms(2) t by simp
    moreover have "ud_identities w1 = ud_identities w" "ud_users w1 = ud_users w" using t by (simp_all add: tables_fields)
    ultimately show ?thesis using assms(3) by (auto simp: third_party_def idn_is_key)
  next
    case (Inl e)
    then have ins: "insertIdentityTx E target tp w1 = (Inr x, w')" using assms(1) l by (auto simp: tryE_def split: if_splits)
    note f = insertIdentityTx_Inr [OF ins]
    have f': "ud_users w1 = ud_users w" "ud_identities w1 = ud_identities w" "ud_extra w1 = ud_extra w" "ud_now w1 = ud_now w"
      using t by (simp_all add: tables_fields)
    have "accounts_ok (ud_users w, ud_identities w @ [x], ud_extra w, ud_now w)"
    proof (rule accounts_ok_insert)
      show "accounts_ok (ud_users w, ud_identities w, ud_extra w, ud_now w)" using assms(2) by (simp add: tables_def)
      show "idn_UserID j = idn_UserID x" if "j \<in> set (ud_identities w)" "idn_UnionKey x \<noteq> []" "idn_UnionKey j = idn_UnionKey x" for j
        using assms(3) [OF that(1)] that f by (simp add: third_party_def)
    qed (use f f' assms(4,5) in auto)
    then show ?thesis using f f' by (auto simp: tables_def idn_key_def)
  qed
qed

lemma link_identities_Inr:
  assumes "link_identities E i (target, c, hp) w = (Inr r, w')" and "accounts_ok (tables w)" and "lp_Phone i \<noteq> []"
    and "ei_Type (lp_Identity i) \<noteq> []" and "ei_Subject (lp_Identity i) \<noteq> []"
    and hp: "hp = (find (idn_is IdentityTypePhone (lp_Phone i)) (ud_identities w) \<noteq> None)"
  shows "linked i target w r w' \<and> lr_Created r = c \<and> ud_users w' = ud_users w"
proof -
  let ?tp = "lp_Identity i"
  let ?P = "\<lambda>x. idn_UserID x = target \<and> idn_Type x = ei_Type ?tp \<and> idn_Subject x \<noteq> ei_Subject ?tp"
  let ?Q = "\<lambda>x. idn_UserID x \<noteq> target \<and> (idn_is (ei_Type ?tp) (ei_Subject ?tp) x \<or> (ei_UnionKey ?tp \<noteq> [] \<and> idn_UnionKey x = ei_UnionKey ?tp))"
  obtain w1 replaced w2 more w3 gone w4 x w5 u where s:
    "(if hp then ret () else bindE (insertIdentityTx E target (phone_input (lp_Phone i))) (\<lambda>_. ret ())) w = (Inr (), w1)"
    "deleteIdentitiesTx ?P w1 = (Inr replaced, w2)" "replace_unions target (ei_UnionKey ?tp) replaced w2 = (Inr more, w3)"
    "deleteIdentitiesTx ?Q w3 = (Inr gone, w4)"
    "tryE (findByIdentityTx (ei_Type ?tp) (ei_Subject ?tp)) (\<lambda>r. case r of
               Inr (u, x) \<Rightarrow> ret x
             | Inl e \<Rightarrow> if errors_Is e ErrNotFound then insertIdentityTx E target ?tp else throw e) w4 = (Inr x, w5)"
    "getUserTx target w5 = (Inr u, w')" "r = \<lparr>lr_User = u, lr_Identity = x, lr_Created = c, lr_Replaced = replaced @ more\<rparr>"
    using assms(1) by (auto simp: link_identities_def Let_def bindE_Inr_iff)
  obtain ph where ph: "ud_identities w1 = ud_identities w @ ph" "accounts_ok (tables w1)" "ud_users w1 = ud_users w"
    "if hp then ph = [] else \<exists>x. ph = [x] \<and> idn_key x = (IdentityTypePhone, lp_Phone i) \<and> idn_UserID x = target \<and> idn_UnionKey x = []"
    using phone_insert [OF s(1) assms(2,3)] by blast
  note d1 = deleteIdentitiesTx_Inr [OF s(2)] and d2 = replace_unions_Inr [OF s(3)] and d3 = deleteIdentitiesTx_Inr [OF s(4)]
  have ids4: "ud_identities w4 = filter (kept_by_link ?tp target replaced) (ud_identities w @ ph)"
  proof -
    have "ud_identities w4 = filter (\<lambda>x. \<not> ?Q x) (filter (\<lambda>x. \<not> goes_with target (ei_UnionKey ?tp) replaced x)
      (filter (\<lambda>x. \<not> ?P x) (ud_identities w @ ph)))"
      using d1 d2 d3 ph(1) by metis
    also have "\<dots> = filter (kept_by_link ?tp target replaced) (ud_identities w @ ph)"
      unfolding filter_filter by (rule filter_cong) (auto simp: kept_by_link_def third_party_def)
    finally show ?thesis .
  qed
  have ok4: "accounts_ok (tables w4)"
    using ph(2) d1 d2 d3 accounts_ok_filter [of "ud_users w1" "ud_identities w1" "ud_extra w1" "ud_now w1" "kept_by_link ?tp target replaced"]
    by (simp add: tables_def ids4 ph(1))
  have own: "idn_UserID y = target" if "y \<in> set (ud_identities w4)" "third_party ?tp y" for y
    using that by (auto simp: ids4 kept_by_link_def)
  obtain new where new: "ud_identities w5 = ud_identities w4 @ new" "new = [] \<or> (new = [x] \<and> idn_UnionKey x = ei_UnionKey ?tp)"
    "x \<in> set (ud_identities w5)" "idn_key x = (ei_Type ?tp, ei_Subject ?tp)" "idn_UserID x = target" "ud_users w5 = ud_users w4"
    "accounts_ok (tables w5)"
    using find_or_insert [OF s(5) ok4 own assms(4,5)] by blast
  have g: "tables w' = tables w5" "u \<in> set (ud_users w5)" "user_ID u = target" using getUserTx_Inr [OF s(6)] by auto
  have w': "ud_identities w' = filter (kept_by_link ?tp target replaced) (ud_identities w @ ph) @ new"
    using g(1) new(1) ids4 by (simp add: tables_fields)
  have rep: "replaced = filter ?P (ud_identities w @ ph)" using d1 ph(1) by simp
  have r: "lr_Identity r = x" "lr_User r = u" "lr_Created r = c" using s(7) by simp_all
  have "ud_identities w' = filter (kept_by_link ?tp target replaced) (ud_identities w @ ph) @ new \<and>
      (if find (idn_is IdentityTypePhone (lp_Phone i)) (ud_identities w) = None
       then \<exists>p. ph = [p] \<and> idn_key p = (IdentityTypePhone, lp_Phone i) \<and> idn_UserID p = target \<and> idn_UnionKey p = []
       else ph = []) \<and>
      replaced = filter ?P (ud_identities w @ ph) \<and> (new = [] \<or> (new = [lr_Identity r] \<and> idn_UnionKey (lr_Identity r) = ei_UnionKey ?tp))"
  proof (intro conjI)
    show "if find (idn_is IdentityTypePhone (lp_Phone i)) (ud_identities w) = None
       then \<exists>p. ph = [p] \<and> idn_key p = (IdentityTypePhone, lp_Phone i) \<and> idn_UserID p = target \<and> idn_UnionKey p = []
       else ph = []" using ph(4) hp by (simp split: if_splits)
    show "new = [] \<or> (new = [lr_Identity r] \<and> idn_UnionKey (lr_Identity r) = ei_UnionKey ?tp)" using new(2) r by simp
  qed (fact w', fact rep)
  then have 1: "\<exists>ph new replaced. ud_identities w' = filter (kept_by_link ?tp target replaced) (ud_identities w @ ph) @ new \<and>
      (if find (idn_is IdentityTypePhone (lp_Phone i)) (ud_identities w) = None
       then \<exists>p. ph = [p] \<and> idn_key p = (IdentityTypePhone, lp_Phone i) \<and> idn_UserID p = target \<and> idn_UnionKey p = []
       else ph = []) \<and>
      replaced = filter ?P (ud_identities w @ ph) \<and> (new = [] \<or> (new = [lr_Identity r] \<and> idn_UnionKey (lr_Identity r) = ei_UnionKey ?tp))"
    by blast
  have "accounts_ok (tables w')" using new(7) g(1) by simp
  moreover have "ud_users w' = ud_users w5" "ud_identities w' = ud_identities w5" using g(1) by (simp_all add: tables_fields)
  moreover have "ud_users w5 = ud_users w" using new(6) d1 d2 d3 ph(3) by simp
  moreover have "ud_users w5 = ud_users w4" by (rule new(6))
  ultimately have 2: "accounts_ok (tables w')" "ud_users w' = ud_users w" "lr_Identity r \<in> set (ud_identities w')" "lr_User r \<in> set (ud_users w')"
    using new(3) g(2) r by simp_all
  show ?thesis unfolding linked_def using 1 2 new(4,5) g(3) r by blast
qed

lemma link_body_effect:
  assumes "link_body E i w = (Inr r, w')" and "accounts_ok (tables w)" and "lp_Phone i \<noteq> []"
    and "ei_Type (lp_Identity i) \<noteq> []" and "ei_Subject (lp_Identity i) \<noteq> []"
  shows "linked i (user_ID (lr_User r)) w r w' \<and>
    (case phone_owner i (ud_identities w) of
       Some a \<Rightarrow> user_ID (lr_User r) = a \<and> \<not> lr_Created r \<and> ud_users w' = ud_users w
     | None \<Rightarrow> lr_Created r \<and> user_ID (lr_User r) \<notin> user_ID ` set (ud_users w) \<and> ud_users w' = ud_users w @ [lr_User r])"
proof -
  obtain t c hp w1 where s: "link_target E i w = (Inr (t, c, hp), w1)" "link_identities E i (t, c, hp) w1 = (Inr r, w')"
    using assms(1) by (auto simp: link_body_def bindE_Inr_iff)
  note T = link_target_Inr [OF s(1) assms(2)]
  have ok1: "accounts_ok (tables w1)"
    using T assms(2) accounts_ok_user [of "ud_users w" "ud_identities w" "ud_extra w" "ud_now w"]
    by (auto simp: tables_def split: option.splits)
  have L: "linked i t w1 r w' \<and> lr_Created r = c \<and> ud_users w' = ud_users w1"
    using T by (intro link_identities_Inr [OF s(2) ok1 assms(3-5)]) simp
  then have t: "user_ID (lr_User r) = t" "lr_User r \<in> set (ud_users w')" unfolding linked_def by blast+
  have "linked i t w r w' = linked i t w1 r w'" using T by (simp add: linked_def)
  then have "linked i t w r w'" using L by blast
  show ?thesis
  proof (cases "phone_owner i (ud_identities w)")
    case None
    then obtain u where u: "user_ID u = t" "ud_users w' = ud_users w @ [u]" "t \<notin> user_ID ` set (ud_users w)" "c" using L T by auto
    then have "lr_User r = u" using t by (auto simp: image_iff)
    then show ?thesis using \<open>linked i t w r w'\<close> None L u by simp
  qed (use \<open>linked i t w r w'\<close> L T t in simp)
qed

section \<open>Properties\<close>

lemma attach_body_ok:
  assumes "attach_body E u i w = (Inr x, w')"
    and "accounts_ok (tables w)" and "ei_Type i \<noteq> []" and "ei_Subject i \<noteq> []"
  shows "accounts_ok (tables w')"
proof -
  obtain w1 where s: "(if ei_UnionKey i = [] then ret ()
       else bindE (lockUnionKeyTx (ei_UnionKey i)) (\<lambda>_. bindE (unionOwner (ei_UnionKey i)) (\<lambda>owner.
         if owner \<noteq> None \<and> owner \<noteq> Some u then throw (DomainErr ErrConflict CodeUnionKeyConflict) else ret ()))) w = (Inr (), w1)"
    "insertIdentityTx E u i w1 = (Inr x, w')"
    using assms(1) by (auto simp: attach_body_def bindE_Inr_iff)
  have own: "tables w1 = tables w \<and> (ei_UnionKey i = [] \<or>
      map_option idn_UserID (find (\<lambda>x. idn_UnionKey x = ei_UnionKey i) (ud_identities w)) \<in> {None, Some u})"
  proof (cases "ei_UnionKey i = []")
    case False
    then obtain w0 o' where l: "lockUnionKeyTx (ei_UnionKey i) w = (Inr (), w0)" "unionOwner (ei_UnionKey i) w0 = (Inr o', w1)" "o' \<in> {None, Some u}"
      using s(1) by (auto simp: bindE_Inr_iff split: if_splits)
    show ?thesis using u_query_Inr [OF l(1) [unfolded lockUnionKeyTx_def]] u_query_Inr [OF l(2) [unfolded unionOwner_def]] l(3)
      by (auto simp: tables_fields)
  qed (use s(1) in simp)
  note f = insertIdentityTx_Inr [OF s(2)]
  have f': "ud_users w1 = ud_users w" "ud_identities w1 = ud_identities w" "ud_extra w1 = ud_extra w" "ud_now w1 = ud_now w"
    using own by (simp_all add: tables_fields)
  have "accounts_ok (ud_users w, ud_identities w @ [x], ud_extra w, ud_now w)"
  proof (rule accounts_ok_insert)
    show "accounts_ok (ud_users w, ud_identities w, ud_extra w, ud_now w)" using assms(2) by (simp add: tables_def)
  next
    fix j
    assume j: "j \<in> set (ud_identities w)" "idn_UnionKey x \<noteq> []" "idn_UnionKey j = idn_UnionKey x"
    then have k: "ei_UnionKey i \<noteq> []" "idn_UnionKey j = ei_UnionKey i" using f by auto
    then obtain y where y: "find (\<lambda>x. idn_UnionKey x = ei_UnionKey i) (ud_identities w) = Some y"
      using j(1) by (cases "find (\<lambda>x. idn_UnionKey x = ei_UnionKey i) (ud_identities w)") (auto simp: find_None_iff)
    then have "idn_UserID y = u" using own k(1) by simp
    moreover from y have "y \<in> set (ud_identities w)" "idn_UnionKey y = ei_UnionKey i" by (auto simp: find_Some_iff)
    ultimately have "idn_UserID j = u" using accounts_okD(4) [OF assms(2)] j(1) k unfolding one_owner_def by metis
    then show "idn_UserID j = idn_UserID x" using f by simp
  qed (use f f' assms(3,4) in auto)
  then show ?thesis using f f' by (auto simp: tables_def)
qed

text \<open>Operations on the accounts and their identifiers, each with the faults that come.\<close>

datatype user_op =
    OpEnsure EnsureIdentityInput
  | OpAttach uuid EnsureIdentityInput
  | OpLinkPhone LinkPhoneInput
  | OpTouch uuid
  | OpRegister uuid uuid bool
  | OpFind string string

fun user_run :: "user_env \<Rightarrow> user_op \<Rightarrow> user_db \<Rightarrow> user_db" where
  "user_run E (OpEnsure i) w = snd (EnsureUserWithIdentity E i w)"
| "user_run E (OpAttach u i) w = snd (AttachIdentity E u i w)"
| "user_run E (OpLinkPhone i) w = snd (LinkPhone E i w)"
| "user_run E (OpTouch i) w = snd (TouchIdentityLogin i w)"
| "user_run E (OpRegister u a b) w = snd (EnsureRegistration u a b w)"
| "user_run E (OpFind t s) w = snd (FindByIdentity E t s w)"

lemma input_valid: "input_validate i = None \<Longrightarrow> ei_Type i \<noteq> [] \<and> ei_Subject i \<noteq> []"
  by (auto simp: input_validate_def split: if_splits)

lemma ensureOnce_ok:
  assumes "accounts_ok (tables w)" and "ensureOnce E i w = (r, w')" and "ei_Type i \<noteq> []" and "ei_Subject i \<noteq> []"
  shows "accounts_ok (tables w')"
  using assms(2) unfolding ensureOnce_def
proof (rule u_tx_respects [where P = accounts_ok, OF _ assms(1), rotated])
  fix w x w'
  assume a: "accounts_ok (tables w)" "ensure_body E i w = (Inr x, w')"
  obtain u y c where "x = (u, y, c)" by (cases x)
  then show "accounts_ok (tables w')" using ensured_ok [OF _ a(1) assms(3,4)] ensure_body_effect [OF a(2,1)] by simp
qed

lemma linkPhoneOnce_ok:
  assumes "accounts_ok (tables w)" and "linkPhoneOnce E i w = (r, w')" and "lp_Phone i \<noteq> []"
    and "ei_Type (lp_Identity i) \<noteq> []" and "ei_Subject (lp_Identity i) \<noteq> []"
  shows "accounts_ok (tables w')"
  using assms(2) unfolding linkPhoneOnce_def
proof (rule u_tx_respects [where P = accounts_ok, OF _ assms(1), rotated])
  show "accounts_ok (tables w') " if "accounts_ok (tables w)" "link_body E i w = (Inr x, w')" for w x w'
    using link_body_effect [OF that(2,1) assms(3-5)] by (simp add: linked_def)
qed

lemma touch_ok: "accounts_ok (us, is, xs, t) \<Longrightarrow>
  accounts_ok (us, map (touched i n) is, xs, t)"
proof -
  assume a: "accounts_ok (us, is, xs, t)"
  define g :: "Identity \<Rightarrow> Identity" where "g = touched i n"
  have g: "idn_key (g x) = idn_key x" "idn_ID (g x) = idn_ID x" "idn_Type (g x) = idn_Type x" "idn_Subject (g x) = idn_Subject x"
    "idn_UserID (g x) = idn_UserID x" "idn_UnionKey (g x) = idn_UnionKey x" for x by (simp_all add: g_def idn_key_def touched_def)
  then have m: "map idn_key (map g is) = map idn_key is" "map idn_ID (map g is) = map idn_ID is" by simp_all
  have "one_owner is" using a by simp
  then have "one_owner (map g is)" unfolding one_owner_def set_map ball_simps(9) g .
  moreover have "owners_exist us (map g is)" using a by (simp add: owners_exist_def g)
  moreover have "\<forall>x \<in> set (map g is). idn_Type x \<noteq> [] \<and> idn_Subject x \<noteq> []" using a by (simp add: g)
  ultimately show ?thesis unfolding g_def [symmetric] accounts_ok.simps m using a by simp
qed

lemma user_run_ok:
  assumes "accounts_ok (tables w)"
  shows "accounts_ok (tables (user_run E op w))"
proof (cases op)
  case (OpEnsure i0)
  let ?i = "input_normalize E i0"
  obtain r w' where e: "EnsureUserWithIdentity E i0 w = (r, w')" by fastforce
  show ?thesis
  proof (cases "input_validate ?i")
    case None
    then have "retried (ensureOnce E ?i) w = (r, w')" using e by (simp add: EnsureUserWithIdentity_def Let_def)
    from retried_respects [where P = accounts_ok, OF ensureOnce_ok assms this] show ?thesis
      using input_valid [OF None] e OpEnsure by simp
  qed (use e OpEnsure assms in \<open>simp add: EnsureUserWithIdentity_def Let_def\<close>)
next
  case (OpAttach u i0)
  let ?i = "input_normalize E i0"
  obtain r w' where e: "AttachIdentity E u i0 w = (r, w')" by fastforce
  show ?thesis
  proof (cases "input_validate ?i")
    case None
    then have t: "u_tx (attach_body E u ?i) w = (r, w')" using e by (simp add: AttachIdentity_def Let_def)
    have "accounts_ok (tables w')"
      by (rule u_tx_respects [where P = accounts_ok, OF attach_body_ok assms t]) (use input_valid [OF None] in blast)+
    then show ?thesis using e OpAttach by simp
  qed (use e OpAttach assms in \<open>simp add: AttachIdentity_def Let_def\<close>)
next
  case (OpLinkPhone i0)
  let ?i = "\<lparr>lp_Phone = normalizeSubject E IdentityTypePhone (lp_Phone i0), lp_Identity = input_normalize E (lp_Identity i0)\<rparr>"
  obtain r w' where e: "LinkPhone E i0 w = (r, w')" by fastforce
  show ?thesis
  proof (cases "input_validate (lp_Identity ?i) = None \<and> lp_Phone ?i \<noteq> []")
    case True
    then have "retried (linkPhoneOnce E ?i) w = (r, w')" using e by (simp add: LinkPhone_def Let_def)
    from retried_respects [where P = accounts_ok, OF linkPhoneOnce_ok assms this] show ?thesis
      using input_valid [of "lp_Identity ?i"] True e OpLinkPhone by simp
  qed (use e OpLinkPhone assms in \<open>auto simp: LinkPhone_def Let_def split: option.splits\<close>)
next
  case (OpTouch i)
  obtain r w1 where q: "u_stmt (\<lambda>w. (list_ex (\<lambda>x. idn_ID x = i) (ud_identities w),
         w\<lparr>ud_identities := map (touched i (ud_now w)) (ud_identities w)\<rparr>)) w = (r, w1)"
    by fastforce
  then have "accounts_ok (tables w1)"
    using u_stmt_any [OF q] assms touch_ok [of "ud_users w" "ud_identities w" "ud_extra w" "ud_now w" i "ud_now w"]
    by (auto simp: tables_def simp del: accounts_ok.simps)
  then show ?thesis using q OpTouch by (auto simp: TouchIdentityLogin_def bindE_def split: sum.splits)
next
  case (OpRegister u a b)
  obtain r w1 where q: "u_stmt (\<lambda>w.
       if \<not> list_ex (\<lambda>x. user_ID x = u) (ud_users w) then (False, w)
       else if list_ex (\<lambda>x. (xr_user x = u \<and> xr_app x = a) \<or> (b \<and> xr_user x = u \<and> xr_registration x)) (ud_extra w)
       then (True, w)
       else (True, w\<lparr>ud_extra := ud_extra w @ [\<lparr>xr_user = u, xr_app = a, xr_registration = b\<rparr>]\<rparr>)) w = (r, w1)"
    by fastforce
  then have "accounts_ok (tables w1)" using u_stmt_any [OF q] assms by (auto simp: tables_def split: if_splits)
  then show ?thesis using q OpRegister by (auto simp: EnsureRegistration_def bindE_def split: sum.splits)
next
  case (OpFind t s)
  obtain r w' where "findByIdentityTx t (normalizeSubject E t s) w = (r, w')" by fastforce
  then show ?thesis using findByIdentityTx_tables assms OpFind by (simp add: FindByIdentity_def)
qed

text \<open>
  C38. No sequence of logins, attachments and bindings, wherever statements fail or replies are lost, splits or shares an
  account: an identifier belongs to one account, which exists, and is not blank; all identifiers with one union key belong
  to the same account.
\<close>

theorem accounts_stay_merged:
  assumes "accounts_ok (tables w)"
  shows "accounts_ok (tables (fold (user_run E) ops w))"
  using assms by (induction ops arbitrary: w) (simp_all add: user_run_ok)

text \<open>A conflict leaves the tables alone, so what an operation returns after its retry is the effect of one attempt.\<close>

lemma retried_once_Inr:
  assumes "retried (u_tx m) w = (Inr x, w')"
  shows "\<exists>w1 w2. tables w1 = tables w \<and> m w1 = (Inr x, w2) \<and> tables w' = tables w2"
proof -
  obtain r w1 where m: "u_tx m w = (r, w1)" by fastforce
  show ?thesis
  proof (cases r)
    case (Inr y)
    then have "u_tx m w = (Inr x, w')" using assms m by (simp add: retried_def tryE_def)
    then show ?thesis by (rule u_tx_Inr)
  next
    case (Inl e)
    then have 2: "errors_Is e ErrConflict" "u_tx m w1 = (Inr x, w')" using assms m by (auto simp: retried_def tryE_def split: if_splits)
    obtain b w0 where b: "u_query (\<lambda>_. ()) w = (b, w0)" by fastforce
    have "tables w1 = tables w"
      using m Inl 2(1) b u_query_tables [OF b] by (cases b) (auto simp: u_tx_def Let_def split: prod.splits sum.splits fault.splits)
    then show ?thesis using u_tx_Inr [OF 2(2)] by simp
  qed
qed

lemma ensured_tables:
  assumes "tables w1 = tables w" and "tables w2 = tables w'"
  shows "ensured i w1 r w2 = ensured i w r w'"
proof -
  have e: "ud_users w1 = ud_users w" "ud_identities w1 = ud_identities w" "ud_extra w1 = ud_extra w" "ud_now w1 = ud_now w"
    "ud_users w2 = ud_users w'" "ud_identities w2 = ud_identities w'" "ud_extra w2 = ud_extra w'" "ud_now w2 = ud_now w'"
    using assms by (simp_all add: tables_fields)
  show ?thesis unfolding ensured_def e assms ..
qed


lemma linked_tables:
  assumes "tables w1 = tables w" and "tables w2 = tables w'"
  shows "linked i t w1 r w2 = linked i t w r w'"
proof -
  have e: "ud_users w1 = ud_users w" "ud_identities w1 = ud_identities w" "ud_extra w1 = ud_extra w" "ud_now w1 = ud_now w"
    "ud_users w2 = ud_users w'" "ud_identities w2 = ud_identities w'" "ud_extra w2 = ud_extra w'" "ud_now w2 = ud_now w'"
    using assms by (simp_all add: tables_fields)
  show ?thesis unfolding linked_def e assms ..
qed

text \<open>
  C40. After a third party's identity was bound to a phone number, both belong to the account returned: that of the phone
  number if it had one, else that of the identity, else a new one. Nothing else with the identity's key or union key is left
  on another account, the account has no other identity of its kind, and of other accounts nothing but this identity was
  taken.
\<close>

theorem phone_binding_unites:
  assumes "accounts_ok (tables w)" and "LinkPhone E i0 w = (Inr r, w')"
    and "tp = input_normalize E (lp_Identity i0)" and "p = normalizeSubject E IdentityTypePhone (lp_Phone i0)"
    and "ei_Type tp \<noteq> IdentityTypePhone" and "\<forall>x \<in> set (ud_identities w). idn_Type x = IdentityTypePhone \<longrightarrow> idn_UnionKey x = []"
  shows "(case phone_owner \<lparr>lp_Phone = p, lp_Identity = tp\<rparr> (ud_identities w) of
        Some a \<Rightarrow> user_ID (lr_User r) = a \<and> \<not> lr_Created r
      | None \<Rightarrow> lr_Created r \<and> user_ID (lr_User r) \<notin> user_ID ` set (ud_users w)) \<and>
    map_option idn_UserID (find (idn_is IdentityTypePhone p) (ud_identities w')) = Some (user_ID (lr_User r)) \<and>
    map_option idn_UserID (find (idn_is (ei_Type tp) (ei_Subject tp)) (ud_identities w')) = Some (user_ID (lr_User r)) \<and>
    (\<forall>x \<in> set (ud_identities w'). (third_party tp x \<longrightarrow> idn_UserID x = user_ID (lr_User r)) \<and>
      (idn_UserID x = user_ID (lr_User r) \<longrightarrow> idn_Type x = ei_Type tp \<longrightarrow> idn_Subject x = ei_Subject tp)) \<and>
    filter (\<lambda>x. idn_UserID x \<noteq> user_ID (lr_User r)) (ud_identities w') =
      filter (\<lambda>x. idn_UserID x \<noteq> user_ID (lr_User r) \<and> \<not> third_party tp x) (ud_identities w)"
proof -
  let ?i = "\<lparr>lp_Phone = p, lp_Identity = tp\<rparr>"
  let ?T = "user_ID (lr_User r)"
  have v: "input_validate tp = None" "p \<noteq> []" using assms(2-4) by (auto simp: LinkPhone_def Let_def split: option.splits if_splits)
  then have "retried (u_tx (link_body E ?i)) w = (Inr r, w')" using assms(2-4) by (simp add: LinkPhone_def linkPhoneOnce_def Let_def)
  from retried_once_Inr [OF this] obtain w1 w2 where t: "tables w1 = tables w" "link_body E ?i w1 = (Inr r, w2)" "tables w' = tables w2"
    by blast
  have b: "linked ?i ?T w1 r w2 \<and> (case phone_owner ?i (ud_identities w1) of
       Some a \<Rightarrow> ?T = a \<and> \<not> lr_Created r \<and> ud_users w2 = ud_users w1
     | None \<Rightarrow> lr_Created r \<and> ?T \<notin> user_ID ` set (ud_users w1) \<and> ud_users w2 = ud_users w1 @ [lr_User r])"
    by (rule link_body_effect [OF t(2)]) (use assms(1) t(1) v input_valid [OF v(1)] in simp_all)
  have L: "linked ?i ?T w r w'" using b linked_tables [OF t(1) t(3) [symmetric]] by simp
  have "\<exists>ph new replaced. ud_identities w' = filter (kept_by_link tp ?T replaced) (ud_identities w @ ph) @ new \<and>
    (if find (idn_is IdentityTypePhone p) (ud_identities w) = None
     then \<exists>x. ph = [x] \<and> idn_key x = (IdentityTypePhone, p) \<and> idn_UserID x = ?T \<and> idn_UnionKey x = [] else ph = []) \<and>
    (new = [] \<or> (new = [lr_Identity r] \<and> idn_UnionKey (lr_Identity r) = ei_UnionKey tp))"
    using L unfolding linked_def LinkPhoneInput.select_convs by blast
  then obtain ph new replaced where N: "ud_identities w' = filter (kept_by_link tp ?T replaced) (ud_identities w @ ph) @ new"
    "if find (idn_is IdentityTypePhone p) (ud_identities w) = None
     then \<exists>x. ph = [x] \<and> idn_key x = (IdentityTypePhone, p) \<and> idn_UserID x = ?T \<and> idn_UnionKey x = [] else ph = []"
    "new = [] \<or> (new = [lr_Identity r] \<and> idn_UnionKey (lr_Identity r) = ei_UnionKey tp)"
    by blast
  have I: "lr_Identity r \<in> set (ud_identities w')" "idn_key (lr_Identity r) = (ei_Type tp, ei_Subject tp)" "idn_UserID (lr_Identity r) = ?T"
    "accounts_ok (tables w')" using L by (auto simp: linked_def)
  note fk = find_unique_key [OF accounts_okD(2) [OF I(4)]]
  obtain q where q: "q \<in> set (ud_identities w @ ph)" "idn_key q = (IdentityTypePhone, p)" "idn_UserID q = ?T" "idn_UnionKey q = []"
  proof (cases "find (idn_is IdentityTypePhone p) (ud_identities w)")
    case None
    then obtain y where "ph = [y]" "idn_key y = (IdentityTypePhone, p)" "idn_UserID y = ?T" "idn_UnionKey y = []" using N(2) by auto
    then show ?thesis using that [of y] by simp
  next
    case (Some y)
    then have "idn_UserID y = ?T" using b t(1) by (simp add: phone_owner_def tables_fields)
    moreover from Some have "y \<in> set (ud_identities w)" "idn_key y = (IdentityTypePhone, p)" by (auto simp: find_Some_iff idn_is_key)
    ultimately show ?thesis using assms(6) that [of y] by (auto simp: idn_key_def)
  qed
  have "kept_by_link tp ?T replaced q" using q assms(5) by (auto simp: kept_by_link_def goes_with_def idn_key_def)
  then have "q \<in> set (ud_identities w')" using q(1) N(1) by auto
  from fk [OF this q(2)] have 1: "map_option idn_UserID (find (idn_is IdentityTypePhone p) (ud_identities w')) = Some ?T" using q(3) by simp
  have 2: "map_option idn_UserID (find (idn_is (ei_Type tp) (ei_Subject tp)) (ud_identities w')) = Some ?T" using fk [OF I(1,2)] I(3) by simp
  have 3: "(third_party tp x \<longrightarrow> idn_UserID x = ?T) \<and> (idn_UserID x = ?T \<longrightarrow> idn_Type x = ei_Type tp \<longrightarrow> idn_Subject x = ei_Subject tp)"
    if "x \<in> set (ud_identities w')" for x
    using that N(1,3) I(2,3) by (auto simp: kept_by_link_def idn_key_def)
  have "filter (\<lambda>x. idn_UserID x \<noteq> ?T) ph = []" "filter (\<lambda>x. idn_UserID x \<noteq> ?T) new = []" using N(2,3) I(3) by (auto split: if_splits)
  then have 4: "filter (\<lambda>x. idn_UserID x \<noteq> ?T) (ud_identities w') = filter (\<lambda>x. idn_UserID x \<noteq> ?T \<and> \<not> third_party tp x) (ud_identities w)"
    unfolding N(1) by (auto simp: filter_empty_conv kept_by_link_def goes_with_def intro!: filter_cong)
  show ?thesis using b t(1) 1 2 3 4 by (auto simp: tables_fields split: option.splits)
qed

section \<open>Examples\<close>

definition demo_users :: user_env where
  "demo_users =
     \<lparr>ue_newUserID = (\<lambda>w. CHR ''u'' # replicate (length (ud_users w)) (CHR ''x'')),
      ue_newIdentityID = (\<lambda>w. concat (map idn_ID (ud_identities w)) @ ''i''), ue_toLowerRune = (\<lambda>r. r)\<rparr>"

definition no_users :: user_db where
  "no_users = \<lparr>ud_users = [], ud_identities = [], ud_extra = [], ud_now = 7, ud_faults = []\<rparr>"

definition idn_input :: "string \<Rightarrow> string \<Rightarrow> string \<Rightarrow> EnsureIdentityInput" where
  "idn_input t s k = \<lparr>ei_Type = t, ei_Subject = s, ei_UnionKey = k, ei_Credential = [], ei_Nickname = [], ei_AvatarURL = []\<rparr>"

text \<open>Two identities of one person, who is bound to a phone number; a mail address; an identity of a third account.\<close>

definition demo_user :: "uuid \<Rightarrow> User" where
  "demo_user u =
     \<lparr>user_ID = u, PasswordHash = [], Nickname = [], AvatarURL = [], user_AvatarHash = [], Gender = [], user_Status = UserStatusActive,
      DeleteSubmittedAt = 0, user_CreatedAt = 7, user_UpdatedAt = 7\<rparr>"

definition demo_identity :: "uuid \<Rightarrow> uuid \<Rightarrow> string \<Rightarrow> string \<Rightarrow> string \<Rightarrow> Identity" where
  "demo_identity i u t s k =
     \<lparr>idn_ID = i, idn_UserID = u, idn_Type = t, idn_Subject = s, idn_UnionKey = k, idn_Credential = [], idn_LastLoginAt = 0,
      idn_CreatedAt = 7\<rparr>"

definition demo_accounts :: user_db where
  "demo_accounts = \<lparr>ud_users = map demo_user [''u'', ''v'', ''w''],
     ud_identities = [demo_identity ''1'' ''u'' ''wechat_mp'' ''o1'' ''U'', demo_identity ''2'' ''u'' ''wechat_web'' ''w1'' ''U'',
       demo_identity ''3'' ''u'' ''phone'' ''138'' [], demo_identity ''4'' ''v'' ''email'' ''bob@x.org'' [],
       demo_identity ''5'' ''w'' ''wechat_mp'' ''m2'' ''V''], ud_extra = [], ud_now = 9, ud_faults = []\<rparr>"

lemma demo_accounts_ok: "accounts_ok (tables demo_accounts)"
  by (simp add: demo_accounts_def tables_def demo_user_def demo_identity_def idn_key_def owners_exist_def one_owner_def)

lemma no_users_ok: "accounts_ok (tables no_users)"
  by (simp add: no_users_def tables_def owners_exist_def one_owner_def)

text \<open>The reply to the first commit is lost.\<close>

definition demo_ops :: "user_op list" where
  "demo_ops = [OpEnsure (idn_input ''wechat_mp'' ''o1'' ''U''), OpEnsure (idn_input ''wechat_web'' ''w1'' ''U'')]"

definition lost_reply :: user_db where
  "lost_reply = no_users\<lparr>ud_faults := [Works, Works, Works, Works, Works, Works, Works, ReplyLost]\<rparr>"

theorem accounts_stay_merged_witness:
  "accounts_ok (tables (fold (user_run demo_users) demo_ops lost_reply)) \<and>
   map idn_UserID (ud_identities (fold (user_run demo_users) demo_ops lost_reply)) = [''u'', ''u'']"
proof -
  have "map idn_UserID (ud_identities (fold (user_run demo_users) demo_ops lost_reply)) = [''u'', ''u'']" by code_simp
  moreover have "accounts_ok (tables lost_reply)" using no_users_ok by (simp only: lost_reply_def tables_faults)
  ultimately show ?thesis using accounts_stay_merged by blast
qed

lemma demo_login:
  "case EnsureUserWithIdentity demo_users (idn_input ''email'' ''BOB@X.org '' []) demo_accounts of
     (Inr (u, x, created), w) \<Rightarrow> user_ID u = ''v'' \<and> \<not> created \<and> ud_faults w = [] | _ \<Rightarrow> False"
  by code_simp


text \<open>The phone number's account has another web identity, which goes together with all of its union key.\<close>

definition demo_link :: LinkPhoneInput where
  "demo_link = \<lparr>lp_Phone = ''138'', lp_Identity = idn_input ''wechat_web'' ''w2'' ''V''\<rparr>"

lemma demo_linked:
  "case LinkPhone demo_users demo_link demo_accounts of
     (Inr r, w) \<Rightarrow> map idn_Subject (lr_Replaced r) = [''w1'', ''o1''] \<and> map idn_Subject (ud_identities w) = [''138'', ''bob@x.org'', ''w2'']
   | _ \<Rightarrow> False"
  by code_simp

theorem phone_binding_unites_witness:
  "case LinkPhone demo_users demo_link demo_accounts of
     (Inr r, w) \<Rightarrow> user_ID (lr_User r) = ''u'' \<and> \<not> lr_Created r \<and>
        map_option idn_UserID (find (idn_is IdentityTypePhone ''138'') (ud_identities w)) = Some ''u'' \<and>
        map_option idn_UserID (find (idn_is ''wechat_web'' ''w2'') (ud_identities w)) = Some ''u'' \<and>
        map idn_Subject (lr_Replaced r) = [''w1'', ''o1''] \<and>
        map idn_Subject (ud_identities w) = [''138'', ''bob@x.org'', ''w2'']
   | _ \<Rightarrow> False"
proof -
  obtain res w where e: "LinkPhone demo_users demo_link demo_accounts = (res, w)" by fastforce
  have d: "case res of Inr r \<Rightarrow> map idn_Subject (lr_Replaced r) = [''w1'', ''o1''] \<and> map idn_Subject (ud_identities w) = [''138'', ''bob@x.org'', ''w2'']
      | _ \<Rightarrow> False"
    using demo_linked e by (cases res) auto
  then obtain r where r: "res = Inr r" by (cases res) auto
  have c: "normalizeSubject demo_users IdentityTypePhone (lp_Phone demo_link) = ''138''"
    "input_normalize demo_users (lp_Identity demo_link) = idn_input ''wechat_web'' ''w2'' ''V''" by code_simp+
  have t: "ei_Type (idn_input ''wechat_web'' ''w2'' ''V'') \<noteq> IdentityTypePhone" by (simp add: idn_input_def IdentityTypePhone_def)
  have p: "phone_owner \<lparr>lp_Phone = ''138'', lp_Identity = idn_input ''wechat_web'' ''w2'' ''V''\<rparr> (ud_identities demo_accounts) = Some ''u''"
    by (simp add: phone_owner_def demo_accounts_def demo_identity_def idn_is_def IdentityTypePhone_def)
  have k: "\<forall>x \<in> set (ud_identities demo_accounts). idn_Type x = IdentityTypePhone \<longrightarrow> idn_UnionKey x = []"
    by (simp add: demo_accounts_def demo_identity_def IdentityTypePhone_def)
  note th = phone_binding_unites [OF demo_accounts_ok e [unfolded r] c(2) [symmetric] c(1) [symmetric] t k]
  have "user_ID (lr_User r) = ''u'' \<and> \<not> lr_Created r" using th p by simp
  moreover have "ei_Type (idn_input ''wechat_web'' ''w2'' ''V'') = ''wechat_web''" "ei_Subject (idn_input ''wechat_web'' ''w2'' ''V'') = ''w2''"
    by (simp_all add: idn_input_def)
  ultimately show ?thesis using th d e r by simp
qed

end
