(* ===== verification/Spec2Isabelle.thy ===== *)
theory Spec2Isabelle
  imports Prelude Authzcore Policy Errors Domain Field_Schema Aksign Runes Redis Sdk_Cache Sdk_Access_Key
    Json_Scan Notify_Render Notify_Send Config_Service Access_Key_Service Im_Model Im_Registry
    Im_Liveness Im_Hub Im_Hub_Properties Im_Hub_Events
    Watch_Hub Watch_Hub_Properties Sdk_Watch Watch_Pipeline
    Session_Store Session_Service Session_Properties Account
    Confirmed_Cache Application_Service Grpc_Auth
    Im_Access Im_Biz_Auth Im_Ws_Conn Im_Ws Im_Server Im_Stream
    Identity_Service
begin

text \<open>
  Verification of the fp platform: a Go server that keeps users, sessions, roles, access keys, configuration and
  notification channels for many applications, and the SDK those applications link.

  \<^bold>\<open>The program and the theories\<close>

  The server stores rows in PostgreSQL and volatile state in Redis; its services (\<^verbatim>\<open>internal/service\<close>) work
  on these through \<^verbatim>\<open>internal/store\<close> and on the value types of \<^verbatim>\<open>internal/domain\<close>. The SDK (\<^verbatim>\<open>sdk\<close>)
  asks the server over gRPC, caches what it learns and drops it on events the server publishes. A definition has
  the name of the Go function it translates where Isabelle allows it (a prefix such as \<^verbatim>\<open>ak_\<close> where two
  packages share a name), takes the receiver as its first argument and returns the new state.

    \<^item> \<^verbatim>\<open>Prelude\<close>: 64-bit wrap-around and saturating \<^verbatim>\<open>time.Duration\<close> arithmetic, errors as values, the
      type \<^verbatim>\<open>io\<close> of operations that thread a world and may fail (\<^verbatim>\<open>bindE\<close>, \<^verbatim>\<open>ret\<close>, \<^verbatim>\<open>throw\<close>,
      \<^verbatim>\<open>tryE\<close>) with the rules that take such runs apart, and \<^verbatim>\<open>keeps\<close> for what a run leaves alone.
    \<^item> \<^verbatim>\<open>Runes\<close>: UTF-8 decoding and \<^verbatim>\<open>strings.TrimSpace\<close>. \<^verbatim>\<open>Json_Scan\<close>: the acceptor of
      \<^verbatim>\<open>encoding/json\<close> and its string encoder.
    \<^item> \<^verbatim>\<open>Authzcore\<close> (\<^verbatim>\<open>sdk/authzcore\<close>): role policies, compilation into a snapshot, the decision.
      \<^verbatim>\<open>Policy\<close> (\<^verbatim>\<open>service/policy.go\<close>, \<^verbatim>\<open>service/authz.go\<close>): the role graph, inherited effects,
      the compiled policy sent to the SDK, and the check against cycles.
    \<^item> \<^verbatim>\<open>Errors\<close> (\<^verbatim>\<open>domain/codes.go\<close>, \<^verbatim>\<open>grpcapi/errors.go\<close>, \<^verbatim>\<open>httpapi/respond.go\<close>,
      \<^verbatim>\<open>sdk/error.go\<close>): the code table, the status of an error on each transport and the way back.
    \<^item> \<^verbatim>\<open>Domain\<close> (\<^verbatim>\<open>domain/application.go\<close>, \<^verbatim>\<open>session.go\<close>, \<^verbatim>\<open>user.go\<close>, \<^verbatim>\<open>avatar.go\<close>,
      \<^verbatim>\<open>accesskey.go\<close>): session policies, deadlines, user states, keys. \<^verbatim>\<open>Field_Schema\<close>
      (\<^verbatim>\<open>domain/field.go\<close>): provider settings with secrets.
    \<^item> \<^verbatim>\<open>Redis\<close>, \<^verbatim>\<open>Session_Store\<close> (\<^verbatim>\<open>store/session.go\<close>, \<^verbatim>\<open>epoch.go\<close>, \<^verbatim>\<open>ratelimit.go\<close>,
      \<^verbatim>\<open>revoke.go\<close>): the keys of a session, its index, the rotation map, the epochs, the rate limiter.
      \<^verbatim>\<open>Session_Service\<close> (\<^verbatim>\<open>service/session.go\<close>): issue, validate with rotation and extension, revoke.
      \<^verbatim>\<open>Session_Properties\<close>: its theorems. \<^verbatim>\<open>Account\<close> (\<^verbatim>\<open>service/account.go\<close>, parts of
      \<^verbatim>\<open>service/user.go\<close>): status changes and password resets that end sessions.
    \<^item> \<^verbatim>\<open>Aksign\<close> (\<^verbatim>\<open>sdk/aksign\<close>), \<^verbatim>\<open>Sdk_Access_Key\<close> (\<^verbatim>\<open>sdk/accesskey.go\<close>, \<^verbatim>\<open>nonce.go\<close>,
      \<^verbatim>\<open>usage.go\<close>): signing a request and verifying it. \<^verbatim>\<open>Access_Key_Service\<close>
      (\<^verbatim>\<open>service/accesskey.go\<close>): the keys on the server.
    \<^item> \<^verbatim>\<open>Sdk_Cache\<close> (\<^verbatim>\<open>sdk/cache.go\<close>, \<^verbatim>\<open>sdk/auth.go\<close>): the token cache with its generations and the
      answers given while the server cannot be reached.
    \<^item> \<^verbatim>\<open>Notify_Render\<close> (\<^verbatim>\<open>notify/render.go\<close>, \<^verbatim>\<open>domain/notify.go\<close>): templates and escaping.
      \<^verbatim>\<open>Notify_Send\<close> (\<^verbatim>\<open>service/notify_send.go\<close>): idempotency keys, priorities and fallbacks.
    \<^item> \<^verbatim>\<open>Config_Service\<close> (\<^verbatim>\<open>domain/config.go\<close>, \<^verbatim>\<open>service/config.go\<close>): versioned configuration.
    \<^item> The instant messaging gateway (\<^verbatim>\<open>internal/im\<close>): a node keeps its connections and server streams in memory,
      shares in Redis which connections a subject has and which nodes live and serve, and sends envelopes to other nodes.
      \<^verbatim>\<open>Im_Model\<close> (\<^verbatim>\<open>model\<close>, \<^verbatim>\<open>rendezvous\<close>, \<^verbatim>\<open>bus/envelope.go\<close>): subjects, keys, settings, ranking of
      nodes, the envelope format. \<^verbatim>\<open>Im_Registry\<close> (\<^verbatim>\<open>registry/conns.go\<close>, \<^verbatim>\<open>scripts.go\<close>): the table of
      connections and its Lua scripts. \<^verbatim>\<open>Im_Liveness\<close> (\<^verbatim>\<open>registry/liveness.go\<close>): heartbeats, the snapshot of live
      nodes, and the goroutine that writes what the node serves, as a step relation. \<^verbatim>\<open>Im_Hub\<close> (\<^verbatim>\<open>hub\<close>): the
      router; \<^verbatim>\<open>Im_Hub_Properties\<close>: delivery and relaying between nodes; \<^verbatim>\<open>Im_Hub_Events\<close>: \<^verbatim>\<open>AddConn\<close> and
      \<^verbatim>\<open>RemoveConn\<close> run at the same time, as a step relation whose steps are their locked sections.
    \<^item> The way of an announcement: \<^verbatim>\<open>Watch_Hub\<close> (\<^verbatim>\<open>grpcapi/watch.go\<close>, \<^verbatim>\<open>config_hub.go\<close>, the
      translation of Redis messages in \<^verbatim>\<open>store/revoke.go\<close> and \<^verbatim>\<open>store/config.go\<close>, the messages of
      \<^verbatim>\<open>grpcapi/auth_service.go\<close>): the two hubs that spread events to the watch streams over bounded channels;
      \<^verbatim>\<open>Watch_Hub_Properties\<close>: what arrives at a stream, proved once in the locale \<^verbatim>\<open>fan_hub\<close> for both.
      \<^verbatim>\<open>Sdk_Watch\<close> (\<^verbatim>\<open>sdk/client.go\<close>, \<^verbatim>\<open>sdk/authz.go\<close>): what the SDK does with a message, the policy
      it keeps, the waits between two streams. \<^verbatim>\<open>Watch_Pipeline\<close>: hub, stream and SDK composed as a step relation.
    \<^item> \<^verbatim>\<open>Application_Service\<close> (\<^verbatim>\<open>service/application.go\<close>, \<^verbatim>\<open>service/imcred.go\<close>): the applications, their
      names, policies and connectors, and the credential of the gateway, over tables whose statements may fail at any point.
      \<^verbatim>\<open>Confirmed_Cache\<close>: the interface of the caches of confirmed answers, as a locale, with the two shapes
      they have. \<^verbatim>\<open>Grpc_Auth\<close> (\<^verbatim>\<open>grpcapi/auth_interceptor.go\<close>, \<^verbatim>\<open>im_service.go\<close>, the guards of
      \<^verbatim>\<open>auth_service.go\<close>): which calls are let in and what a gateway is told.
    \<^item> Who gets into the gateway: \<^verbatim>\<open>Im_Access\<close> (\<^verbatim>\<open>im/fpauth\<close>, \<^verbatim>\<open>im/fpappcfg\<close>,
      \<^verbatim>\<open>im/multiauth\<close>, \<^verbatim>\<open>sdk/imgateway.go\<close>): the settings a gateway loads and drops, its tokens and the revocations it
      acts on. \<^verbatim>\<open>Im_Biz_Auth\<close> (\<^verbatim>\<open>im/bizauth\<close>): tokens a business server vouches for. \<^verbatim>\<open>Im_Ws_Conn\<close>
      (\<^verbatim>\<open>im/wsapi/guestlimit.go\<close>, \<^verbatim>\<open>conn.go\<close>): the limiter of guests and the queue of a connection.
      \<^verbatim>\<open>Im_Ws\<close> (\<^verbatim>\<open>im/wsapi/handler.go\<close>): a client from its first frame to its teardown. \<^verbatim>\<open>Im_Server\<close>
      (\<^verbatim>\<open>im/imgrpc/appauth.go\<close>): the credentials of a server's stream. \<^verbatim>\<open>Im_Stream\<close>
      (\<^verbatim>\<open>im/imgrpc/stream.go\<close>, \<^verbatim>\<open>server.go\<close>): one request of a server, and the goroutines of its
      stream as a step relation.
    \<^item> \<^verbatim>\<open>Identity_Service\<close> (\<^verbatim>\<open>service/user.go\<close>, \<^verbatim>\<open>service/user_link.go\<close>): the identifiers by which
      users log in, finding or creating the account of one, attaching and binding them, over tables whose statements may fail
      and whose commits may succeed without the reply arriving.
  \<^bold>\<open>How the code is represented\<close>

  A struct is a \<^verbatim>\<open>record\<close>, a string a list of bytes (the characters 0 to 255), an instant or duration an
  \<^verbatim>\<open>int\<close> of nanoseconds or milliseconds with the wrap-around of \<^verbatim>\<open>int64\<close> written out where the code can
  reach it, an identifier of the database a string. An operation that may fail and has effects is a function
  \<^verbatim>\<open>'r \<Rightarrow> (goerr + 'a) \<times> 'r\<close> over the world \<^verbatim>\<open>'r\<close>; every early return is a branch.
  PostgreSQL, Redis, the clock, the random source, HMAC and SHA-256, the parsers of addresses and of YAML, the LRU
  container and the drivers of notification channels are not code of this repository: each is a field of an
  environment record that the operations take, what is relied on is a hypothesis or the \<^verbatim>\<open>assumes\<close> of a
  locale, and each such locale is interpreted on an executable instance in the same theory.

  \<^bold>\<open>What the lemmas show\<close>

    \<^item> Decisions: the compiled snapshot decides by deny override; inheritance takes the nearest ancestor; both
      together are refined by what the SDK evaluates; an accepted edge keeps the role graph acyclic.
    \<^item> Sessions: every run of service operations keeps the store well formed and the epochs monotone; validation
      is sound and its refusals cannot be told apart; an epoch advance fences off every older session; revocation is
      complete and announced; rotation hands over.
    \<^item> The SDK: in every interleaving of validations with revocations a cached token is not older than the last
      revocation that hit it; only tokens already known are answered offline; a verified request was signed, fresh,
      unused and from an allowed address, and what \<^verbatim>\<open>SignAt\<close> signs is accepted.
    \<^item> Round trips: signing, masking and merging of settings, errors over gRPC, rollbacks of configuration.
    \<^item> Notifications: accepted templates render completely, values stay in the context they are put in, a key that
      was delivered is not delivered again, and a request succeeds as soon as one provider works.

    \<^item> The gateway: no sequence of commands of any nodes puts more connections on a subject than its policy allows; a
      handshake is decided on the live connections only; announcements of what a node serves are not lost; delivery tries
      each candidate once and relaying ends; a server is told of a connection's beginning and end in order, completely.

    \<^item> Announcements: the hubs never send on or close a closed channel; what a stream was offered arrives in order unless
      its buffer was full, a purge is never lost; a token cached by a connected SDK is not older than its revocation.

    \<^item> Applications and calls: no sequence of changes makes a name ambiguous or stores an invalid policy or connector; a
      call is let in only with credentials the database confirmed, now or within the time to live of the cache.

    \<^item> Admission: a gateway loads what the server stores and, notices apart, follows it; a client is connected only with
      settings, a confirmed subject and the consent of the registry, and is gone from every table afterwards; guests are
      limited; a server's stream is opened only for an application whose secret the database matched, and answers each
      request it takes once.

    \<^item> Accounts: no sequence of logins, attachments and bindings gives one identifier to two accounts or splits a union
      key; a login finds the account it belongs to, and a binding unites a phone number with a third party's identity.

  Where the code does not do what it means to, a lemma evaluates the case: a role chain longer than 64, a role
  change during a validation, a nonce at the end of its window, the index of a rotated session, the expiry of a key
  that wraps around, a YAML line with an address.

  \<^bold>\<open>Bounds and fuel\<close>

    \<^item> \<^verbatim>\<open>wouldCycle\<close> and \<^verbatim>\<open>effectiveFor\<close> walk at most 64 levels in the source; the fuel of their loops
      is that bound, and the theorems say what holds below it.
    \<^item> \<^verbatim>\<open>acquire_loop\<close> tries to take an idempotency key twice and \<^verbatim>\<open>create_loop\<close> an identifier
      three times, as the source does; running out is the error the source returns.
    \<^item> \<^verbatim>\<open>newAccessKeyID\<close> has no bound in the source: it is a \<^verbatim>\<open>partial_function\<close>, not returning is
      \<^verbatim>\<open>None\<close>, and \<^verbatim>\<open>newAccessKeyID_returns\<close> says when it returns.
    \<^item> The cursor of an envelope has 16 bits; \<^verbatim>\<open>relaying_ends\<close> needs a route of fewer than 65536 nodes.
    \<^item> All other loops run over a list and are structural.

  \<^bold>\<open>Not modelled\<close>

  Network and file I/O, HTTP and gRPC handlers that only decode, forward and encode, the console, generated code,
  program start-up and logging. Of the services: logins, OAuth, profiles and the console operations of
  the notification service. Of the gateway: the loop that reads the bus, and the program that puts it together. \<^verbatim>\<open>PROJECT.json\<close> lists every part with its state.
\<close>

end
